(* ===== verification/Prelude.thy ===== *)
theory Prelude
  imports Main "HOL-Library.Word"
begin

section \<open>Shared vocabulary of the driver model\<close>

text \<open>
  The C vocabulary every component uses: fixed-width integers, the status codes of
  \<open>qdma_access_errors.h\<close>, the outcome of \<open>qdma_calloc\<close>, and the collections of lemmas the
  component theories extend.
  A C \<open>int\<close> that holds a status is an HOL \<open>int\<close>; a C \<open>int\<close> that takes part in mixed signed and
  unsigned arithmetic (a queue base) is a \<open>32 word\<close> read with \<open>sint\<close>.
\<close>

unbundle bit_operations_syntax

type_synonym u8 = "8 word"
type_synonym u16 = "16 word"
type_synonym u32 = "32 word"
type_synonym u64 = "64 word"

type_synonym c_int = "32 word" \<comment> \<open>a C int with the bits of an unsigned one\<close>

named_theorems mask_defs \<open>definitions of register field masks\<close>
named_theorems inv_simps \<open>unfoldings of invariants into their parts\<close>

subsection \<open>Status codes\<close>

datatype qdma_access_error_codes =
    QDMA_SUCCESS
  | QDMA_ERR_INV_PARAM
  | QDMA_ERR_NO_MEM
  | QDMA_ERR_HWACC_BUSY_TIMEOUT
  | QDMA_ERR_HWACC_INV_CONFIG_BAR
  | QDMA_ERR_HWACC_NO_PEND_LEGCY_INTR
  | QDMA_ERR_HWACC_BAR_NOT_FOUND
  | QDMA_ERR_HWACC_FEATURE_NOT_SUPPORTED
  | QDMA_ERR_RM_RES_EXISTS
  | QDMA_ERR_RM_RES_NOT_EXISTS
  | QDMA_ERR_RM_DEV_EXISTS
  | QDMA_ERR_RM_DEV_NOT_EXISTS
  | QDMA_ERR_RM_NO_QUEUES_LEFT
  | QDMA_ERR_RM_QMAX_CONF_REJECTED
  | QDMA_ERR_MBOX_FMAP_WR_FAILED
  | QDMA_ERR_MBOX_NUM_QUEUES
  | QDMA_ERR_MBOX_INV_QID
  | QDMA_ERR_MBOX_INV_RINGSZ
  | QDMA_ERR_MBOX_INV_BUFSZ
  | QDMA_ERR_MBOX_INV_CNTR_TH
  | QDMA_ERR_MBOX_INV_TMR_TH
  | QDMA_ERR_MBOX_INV_MSG
  | QDMA_ERR_MBOX_SEND_BUSY
  | QDMA_ERR_MBOX_NO_MSG_IN
  | QDMA_ERR_MBOX_REG_READ_FAILED
  | QDMA_ERR_MBOX_ALL_ZERO_MSG

text \<open>The value the C enumeration gives a code, and the negated value the functions return.\<close>

fun err_code :: "qdma_access_error_codes \<Rightarrow> int" where
  "err_code QDMA_SUCCESS = 0"
| "err_code QDMA_ERR_INV_PARAM = 1"
| "err_code QDMA_ERR_NO_MEM = 2"
| "err_code QDMA_ERR_HWACC_BUSY_TIMEOUT = 3"
| "err_code QDMA_ERR_HWACC_INV_CONFIG_BAR = 4"
| "err_code QDMA_ERR_HWACC_NO_PEND_LEGCY_INTR = 5"
| "err_code QDMA_ERR_HWACC_BAR_NOT_FOUND = 6"
| "err_code QDMA_ERR_HWACC_FEATURE_NOT_SUPPORTED = 7"
| "err_code QDMA_ERR_RM_RES_EXISTS = 8"
| "err_code QDMA_ERR_RM_RES_NOT_EXISTS = 9"
| "err_code QDMA_ERR_RM_DEV_EXISTS = 10"
| "err_code QDMA_ERR_RM_DEV_NOT_EXISTS = 11"
| "err_code QDMA_ERR_RM_NO_QUEUES_LEFT = 12"
| "err_code QDMA_ERR_RM_QMAX_CONF_REJECTED = 13"
| "err_code QDMA_ERR_MBOX_FMAP_WR_FAILED = 14"
| "err_code QDMA_ERR_MBOX_NUM_QUEUES = 15"
| "err_code QDMA_ERR_MBOX_INV_QID = 16"
| "err_code QDMA_ERR_MBOX_INV_RINGSZ = 17"
| "err_code QDMA_ERR_MBOX_INV_BUFSZ = 18"
| "err_code QDMA_ERR_MBOX_INV_CNTR_TH = 19"
| "err_code QDMA_ERR_MBOX_INV_TMR_TH = 20"
| "err_code QDMA_ERR_MBOX_INV_MSG = 21"
| "err_code QDMA_ERR_MBOX_SEND_BUSY = 22"
| "err_code QDMA_ERR_MBOX_NO_MSG_IN = 23"
| "err_code QDMA_ERR_MBOX_REG_READ_FAILED = 24"
| "err_code QDMA_ERR_MBOX_ALL_ZERO_MSG = 25"

abbreviation neg_err :: "qdma_access_error_codes \<Rightarrow> int" where
  "neg_err e \<equiv> - err_code e"

subsection \<open>Allocation\<close>

text \<open>
  Whether each coming call of \<open>qdma_calloc\<close> returns memory: the list is consumed from the front,
  and every call after its end succeeds.
\<close>

type_synonym mem_oracle = "bool list"

fun qdma_calloc :: "mem_oracle \<Rightarrow> bool \<times> mem_oracle" where
  "qdma_calloc [] = (True, [])"
| "qdma_calloc (b # bs) = (b, bs)"

abbreviation mem_ok :: "mem_oracle \<Rightarrow> bool" where
  "mem_ok mem \<equiv> \<forall>b \<in> set mem. b"

lemma qdma_calloc_ok:
  assumes "mem_ok mem"
  obtains mem' where "qdma_calloc mem = (True, mem')" and "mem_ok mem'"
  using assms by (cases mem) auto

subsection \<open>The first element of a list that satisfies a test\<close>

text \<open>
  The drivers keep their objects on linked lists and look them up with a loop that stops at the first
  match; the object found is then changed in place or unlinked.
\<close>

fun update_first :: "('a \<Rightarrow> bool) \<Rightarrow> ('a \<Rightarrow> 'a) \<Rightarrow> 'a list \<Rightarrow> 'a list" where
  "update_first P f [] = []"
| "update_first P f (x # xs) = (if P x then f x # xs else x # update_first P f xs)"

fun delete_first :: "('a \<Rightarrow> bool) \<Rightarrow> 'a list \<Rightarrow> 'a list" where
  "delete_first P [] = []"
| "delete_first P (x # xs) = (if P x then xs else x # delete_first P xs)"

lemma find_first_split:
  assumes "find P xs = Some x"
  obtains pre post where "xs = pre @ x # post" and "\<forall>y \<in> set pre. \<not> P y" and "P x"
    and "\<And>f. update_first P f xs = pre @ f x # post" and "delete_first P xs = pre @ post"
proof -
  have "\<exists>pre post. xs = pre @ x # post \<and> (\<forall>y \<in> set pre. \<not> P y) \<and> P x \<and>
    (\<forall>f. update_first P f xs = pre @ f x # post) \<and> delete_first P xs = pre @ post"
    using assms
  proof (induction xs)
    case (Cons y ys)
    show ?case
    proof (cases "P y")
      case True
      with Cons.prems show ?thesis by (intro exI [of _ "[]"] exI [of _ ys]) auto
    next
      case False
      with Cons obtain pre post where "ys = pre @ x # post" "\<forall>y \<in> set pre. \<not> P y" "P x"
        "\<forall>f. update_first P f ys = pre @ f x # post" "delete_first P ys = pre @ post" by auto
      with False show ?thesis by (intro exI [of _ "y # pre"] exI [of _ post]) auto
    qed
  qed simp
  with that show thesis by blast
qed

lemma find_app:
  "find P (pre @ l) = (case find P pre of Some x \<Rightarrow> Some x | None \<Rightarrow> find P l)"
  by (induction pre) auto

lemma find_NoneI: "\<forall>y \<in> set l. \<not> P y \<Longrightarrow> find P l = None"
  by (simp add: find_None_iff)

lemma find_SomeD: "find P l = Some x \<Longrightarrow> x \<in> set l \<and> P x"
  by (auto simp: find_Some_iff)

lemma find_update_first_same:
  assumes "find P xs = Some x" and "P (f x)"
  shows "find P (update_first P f xs) = Some (f x)"
  using assms by (induction xs) (auto split: if_splits)

lemma find_update_first_other:
  assumes "\<And>x. Q (f x) = Q x" and "\<And>x. \<not> (P x \<and> Q x)"
  shows "find Q (update_first P f xs) = find Q xs"
  using assms by (induction xs) (auto split: if_splits)

lemma find_delete_first_other:
  assumes "\<And>x. \<not> (P x \<and> Q x)"
  shows "find Q (delete_first P xs) = find Q xs"
  using assms by (induction xs) (auto split: if_splits)

lemma update_first_None: "find P xs = None \<Longrightarrow> update_first P f xs = xs"
  by (induction xs) (auto split: if_splits)

lemma set_update_first: "set (update_first P f xs) \<subseteq> set xs \<union> {y. \<exists>x \<in> set xs. find P xs = Some x \<and> y = f x}"
  by (induction xs) auto

lemma set_delete_first: "set (delete_first P xs) \<subseteq> set xs"
  by (induction xs) auto

subsection \<open>Signed readings of words\<close>

lemma sint_eq_unat:
  fixes w :: u32
  assumes "unat w < 2 ^ 31"
  shows "sint w = int (unat w)"
proof -
  have *: "uint w < 2 ^ 31"
    using assms by (simp add: uint_nat del: of_nat_unat)
  then have "take_bit 31 (uint w) = uint w"
    by (simp add: take_bit_int_eq_self)
  moreover from * have "\<not> bit (uint w) 31"
    by (simp add: bit_iff_odd)
  ultimately show ?thesis
    by (simp add: sint_uint signed_take_bit_eq_if_positive)
qed

end
