(* ===== verification/Qdma_List.thy ===== *)
theory Qdma_List
  imports Prelude
begin

section \<open>The intrusive doubly linked list (qdma\_list.c, qdma\_list.h)\<close>

text \<open>
  The list the resource manager keeps its masters, devices and free ranges in. A node is a
  \<open>struct qdma_list_head\<close> at an address; the heap maps addresses to nodes, and each operation is the
  sequence of pointer writes of the C function. The predicate \<open>qdma_list\<close> says which sequence of
  nodes a heap holds behind a list head; the lemmas show that every operation acts on that sequence
  as the list operation of its name, which is what lets the resource manager be modelled on HOL
  lists.
\<close>

type_synonym addr = nat

definition NULL :: addr where
  "NULL = 0"

record lnode =
  lh_prev :: addr
  lh_next :: addr
  lh_priv :: addr

type_synonym heap = "addr \<Rightarrow> lnode"

definition set_next :: "addr \<Rightarrow> addr \<Rightarrow> heap \<Rightarrow> heap" where
  "set_next p v h = h(p := (h p)\<lparr>lh_next := v\<rparr>)"

definition set_prev :: "addr \<Rightarrow> addr \<Rightarrow> heap \<Rightarrow> heap" where
  "set_prev p v h = h(p := (h p)\<lparr>lh_prev := v\<rparr>)"

lemma next_set_next [simp]: "lh_next (set_next p v h x) = (if x = p then v else lh_next (h x))"
  by (simp add: set_next_def)

lemma prev_set_next [simp]: "lh_prev (set_next p v h x) = lh_prev (h x)"
  by (simp add: set_next_def)

lemma next_set_prev [simp]: "lh_next (set_prev p v h x) = lh_next (h x)"
  by (simp add: set_prev_def)

lemma prev_set_prev [simp]: "lh_prev (set_prev p v h x) = (if x = p then v else lh_prev (h x))"
  by (simp add: set_prev_def)

subsection \<open>The operations\<close>

definition qdma_list_init_head :: "addr \<Rightarrow> heap \<Rightarrow> heap" where
  "qdma_list_init_head head h =
     (if head \<noteq> NULL then set_prev head head (set_next head head h) else h)"

definition qdma_list_add_tail :: "addr \<Rightarrow> addr \<Rightarrow> heap \<Rightarrow> heap" where
  "qdma_list_add_tail node head h =
     (let h1 = set_next (lh_prev (h head)) node h;
          h2 = set_next node head h1;
          h3 = set_prev node (lh_prev (h2 head)) h2
      in set_prev head node h3)"

definition qdma_list_insert_before :: "addr \<Rightarrow> addr \<Rightarrow> heap \<Rightarrow> heap" where
  "qdma_list_insert_before new_node node h =
     (let h1 = set_next (lh_prev (h node)) new_node h;
          h2 = set_prev new_node (lh_prev (h1 node)) h1;
          h3 = set_next new_node node h2
      in set_prev node new_node h3)"

definition qdma_list_insert_after :: "addr \<Rightarrow> addr \<Rightarrow> heap \<Rightarrow> heap" where
  "qdma_list_insert_after new_node node h =
     (let h1 = set_prev new_node node h;
          h2 = set_next new_node (lh_next (h1 node)) h1;
          h3 = set_prev (lh_next (h2 node)) new_node h2
      in set_next node new_node h3)"

definition qdma_list_del :: "addr \<Rightarrow> heap \<Rightarrow> heap" where
  "qdma_list_del node h =
     (if node \<noteq> NULL then
        let h1 = (if lh_prev (h node) \<noteq> NULL
                  then set_next (lh_prev (h node)) (lh_next (h node)) h else h)
        in (if lh_next (h1 node) \<noteq> NULL
            then set_prev (lh_next (h1 node)) (lh_prev (h1 node)) h1 else h1)
      else h)"

definition qdma_list_is_last_entry :: "addr \<Rightarrow> addr \<Rightarrow> heap \<Rightarrow> bool" where
  "qdma_list_is_last_entry entry head h \<longleftrightarrow> lh_next (h entry) = head"

definition qdma_list_is_empty :: "addr \<Rightarrow> heap \<Rightarrow> bool" where
  "qdma_list_is_empty head h \<longleftrightarrow> lh_next (h head) = head"

text \<open>
  The iteration macro: the successor is read before the body runs, so the body may unlink the
  current node. \<open>None\<close> is running out of fuel; \<open>drain_enough\<close> and \<open>for_each_visits\<close> say how much is
  enough.
\<close>

fun for_each_safe :: "nat \<Rightarrow> (addr \<Rightarrow> 's \<times> heap \<Rightarrow> 's \<times> heap) \<Rightarrow> addr \<Rightarrow> addr \<Rightarrow> addr \<Rightarrow>
    's \<times> heap \<Rightarrow> ('s \<times> heap) option" where
  "for_each_safe 0 body head pos n s = None"
| "for_each_safe (Suc k) body head pos n s =
     (if pos = head then Some s
      else let s' = body pos s in for_each_safe k body head n (lh_next (snd s' n)) s')"

definition qdma_list_for_each_safe :: "nat \<Rightarrow> (addr \<Rightarrow> 's \<times> heap \<Rightarrow> 's \<times> heap) \<Rightarrow> addr \<Rightarrow>
    's \<times> heap \<Rightarrow> ('s \<times> heap) option" where
  "qdma_list_for_each_safe fuel body head s =
     (let pos = lh_next (snd s head) in for_each_safe fuel body head pos (lh_next (snd s pos)) s)"

subsection \<open>What a heap holds\<close>

fun linked :: "heap \<Rightarrow> addr list \<Rightarrow> bool" where
  "linked h (a # b # r) \<longleftrightarrow> lh_next (h a) = b \<and> lh_prev (h b) = a \<and> linked h (b # r)"
| "linked h _ \<longleftrightarrow> True"

definition qdma_list :: "heap \<Rightarrow> addr \<Rightarrow> addr list \<Rightarrow> bool" where
  "qdma_list h head xs \<longleftrightarrow>
     linked h (head # xs @ [head]) \<and> distinct (head # xs) \<and> NULL \<notin> set (head # xs)"

lemma linked_append: "linked h (p @ a # q) \<longleftrightarrow> linked h (p @ [a]) \<and> linked h (a # q)"
proof (induction p)
  case Nil
  then show ?case by simp
next
  case (Cons x p)
  then show ?case by (cases p) auto
qed

lemma linked_cong:
  assumes "\<And>x. x \<in> set (butlast l) \<Longrightarrow> lh_next (h' x) = lh_next (h x)"
    and "\<And>x. x \<in> set (tl l) \<Longrightarrow> lh_prev (h' x) = lh_prev (h x)"
  shows "linked h' l = linked h l"
  using assms
proof (induction h l rule: linked.induct)
  case (1 h a b r)
  then have "linked h' (b # r) = linked h (b # r)"
    by (intro "1.IH") (auto dest: list.set_sel(2) split: if_splits)
  with "1.prems" show ?case by auto
qed auto

text \<open>Where two neighbours stand in the ring, the pieces before and after them are disjoint.\<close>

lemma ring_split:
  assumes "distinct (head # xs)" and "head # xs @ [head] = p @ a # b # q"
  shows "a \<notin> set p" and "b \<notin> set (tl (p @ [a]))" and "a \<notin> set (butlast (b # q))" and "b \<notin> set q"
proof -
  have eq: "head # xs = p @ a # butlast (b # q)" "xs @ [head] = tl (p @ [a]) @ b # q"
  proof -
    have "butlast (head # xs @ [head]) = butlast (p @ a # b # q)" by (simp only: assms(2))
    then show "head # xs = p @ a # butlast (b # q)" by (simp add: butlast_append)
    have "tl (head # xs @ [head]) = tl (p @ a # b # q)" by (simp only: assms(2))
    then show "xs @ [head] = tl (p @ [a]) @ b # q" by (cases p) auto
  qed
  have "distinct (p @ a # butlast (b # q))" using assms(1) unfolding eq(1)[symmetric] .
  then show "a \<notin> set p" "a \<notin> set (butlast (b # q))" by auto
  have "distinct (xs @ [head])" using assms(1) by auto
  then have "distinct (tl (p @ [a]) @ b # q)" unfolding eq(2)[symmetric] .
  then show "b \<notin> set (tl (p @ [a]))" "b \<notin> set q" by auto
qed

text \<open>The pieces outside the place that changes.\<close>

lemma linked_outer:
  assumes "a \<notin> set p" "b \<notin> set (tl (p @ [a]))" "a \<notin> set (butlast (b # q))" "b \<notin> set q"
    and nxt: "\<And>x. x \<in> set (p @ a # b # q) \<Longrightarrow> x \<noteq> a \<Longrightarrow> lh_next (h' x) = lh_next (h x)"
    and prv: "\<And>x. x \<in> set (p @ a # b # q) \<Longrightarrow> x \<noteq> b \<Longrightarrow> lh_prev (h' x) = lh_prev (h x)"
  shows "linked h' (p @ [a]) = linked h (p @ [a])" and "linked h' (b # q) = linked h (b # q)"
proof -
  show "linked h' (p @ [a]) = linked h (p @ [a])"
  proof (rule linked_cong)
    fix x
    assume x: "x \<in> set (tl (p @ [a]))"
    then have "x \<in> set (p @ a # b # q)" by (cases p) auto
    with x assms(2) show "lh_prev (h' x) = lh_prev (h x)" by (auto intro: prv)
  qed (use assms(1) in \<open>auto intro: nxt\<close>)
  show "linked h' (b # q) = linked h (b # q)"
  proof (rule linked_cong)
    fix x
    assume x: "x \<in> set (butlast (b # q))"
    then have "x \<in> set (p @ a # b # q)" using in_set_butlastD [of x "b # q"] by auto
    with x assms(3) show "lh_next (h' x) = lh_next (h x)" by (auto intro: nxt)
  qed (use assms(4) in \<open>auto intro: prv\<close>)
qed

lemma linked_insert:
  assumes "linked h (p @ a # b # q)" and "n \<notin> set (p @ a # b # q)"
    and "a \<notin> set p" "b \<notin> set (tl (p @ [a]))" "a \<notin> set (butlast (b # q))" "b \<notin> set q"
    and nxt: "\<And>x. lh_next (h' x) = (if x = a then n else if x = n then b else lh_next (h x))"
    and prv: "\<And>x. lh_prev (h' x) = (if x = b then n else if x = n then a else lh_prev (h x))"
  shows "linked h' (p @ a # n # b # q)"
proof -
  have "linked h' (p @ [a]) = linked h (p @ [a])" "linked h' (b # q) = linked h (b # q)"
    by (rule linked_outer [OF assms(3-6)]; use assms(2) nxt prv in auto)+
  moreover have "linked h' (a # n # b # q) \<longleftrightarrow> linked h' (b # q)"
    using assms(2) by (auto simp: nxt prv)
  ultimately show ?thesis
    using assms(1) linked_append [of h p a "b # q"] linked_append [of h' p a "n # b # q"] by auto
qed

lemma linked_remove:
  assumes "linked h (p @ a # n # b # q)" and "n \<notin> set (p @ a # b # q)"
    and "a \<notin> set p" "b \<notin> set (tl (p @ [a]))" "a \<notin> set (butlast (b # q))" "b \<notin> set q"
    and nxt: "\<And>x. x \<noteq> n \<Longrightarrow> lh_next (h' x) = (if x = a then b else lh_next (h x))"
    and prv: "\<And>x. x \<noteq> n \<Longrightarrow> lh_prev (h' x) = (if x = b then a else lh_prev (h x))"
  shows "linked h' (p @ a # b # q)"
proof -
  have "linked h' (p @ [a]) = linked h (p @ [a])" "linked h' (b # q) = linked h (b # q)"
    by (rule linked_outer [OF assms(3-6)]; use assms(2) nxt prv in force)+
  moreover have "linked h' (a # b # q) \<longleftrightarrow> linked h' (b # q)"
    using assms(2) nxt [of a] prv [of b] by auto
  ultimately show ?thesis
    using assms(1) linked_append [of h p a "n # b # q"] linked_append [of h' p a "b # q"] by auto
qed

text \<open>The neighbours of a node in the ring.\<close>

lemma ring_neighbours:
  assumes "linked h (p @ a # b # q)"
  shows "lh_next (h a) = b" and "lh_prev (h b) = a"
  using assms linked_append [of h p a "b # q"] by auto


lemma qdma_list_ring_split:
  assumes "qdma_list h head xs" and "head # xs @ [head] = p @ a # b # q"
  shows "linked h (p @ a # b # q)" and "a \<notin> set p" and "b \<notin> set (tl (p @ [a]))"
    and "a \<notin> set (butlast (b # q))" and "b \<notin> set q"
    and "lh_next (h a) = b" and "lh_prev (h b) = a"
proof -
  show l: "linked h (p @ a # b # q)"
    using assms by (auto simp: qdma_list_def)
  show "lh_next (h a) = b" "lh_prev (h b) = a"
    by (rule ring_neighbours [OF l])+
  have d: "distinct (head # xs)" using assms(1) by (simp add: qdma_list_def)
  show "a \<notin> set p" "b \<notin> set (tl (p @ [a]))" "a \<notin> set (butlast (b # q))" "b \<notin> set q"
    by (rule ring_split [OF d assms(2)])+
qed

subsection \<open>The operations act on the sequence\<close>

lemma qdma_list_init: "head \<noteq> NULL \<Longrightarrow> qdma_list (qdma_list_init_head head h) head []"
  by (simp add: qdma_list_def qdma_list_init_head_def)

text \<open>Insertion between any two neighbours of the ring.\<close>

lemma qdma_list_splice:
  assumes l: "qdma_list h head (ys @ zs)" and n: "n \<notin> set (head # ys @ zs)" "n \<noteq> NULL"
    and a: "a = last (head # ys)" and b: "b = hd (zs @ [head])"
    and nxt: "\<And>x. lh_next (h' x) = (if x = a then n else if x = n then b else lh_next (h x))"
    and prv: "\<And>x. lh_prev (h' x) = (if x = b then n else if x = n then a else lh_prev (h x))"
  shows "qdma_list h' head (ys @ n # zs)"
proof -
  let ?p = "butlast (head # ys)" and ?q = "tl (zs @ [head])"
  have eq: "head # (ys @ zs) @ [head] = ?p @ a # b # ?q" "head # (ys @ n # zs) @ [head] = ?p @ a # n # b # ?q"
    using append_butlast_last_id [of "head # ys"] unfolding a b by (auto simp del: butlast.simps last.simps)
  have "n \<notin> set (?p @ a # b # ?q)"
    using n unfolding eq(1) [symmetric] by auto
  then have "linked h' (?p @ a # n # b # ?q)"
    using qdma_list_ring_split [OF l eq(1)] nxt prv by (intro linked_insert)
  then show ?thesis
    using l n unfolding eq(2) [symmetric] by (auto simp: qdma_list_def)
qed

lemma qdma_list_add_tail:
  assumes "qdma_list h head xs" and "n \<notin> set (head # xs)" and "n \<noteq> NULL"
  shows "qdma_list (qdma_list_add_tail n head h) head (xs @ [n])"
proof -
  have "lh_prev (h head) = last (head # xs)"
    using assms(1) qdma_list_ring_split(7) [of h head xs "butlast (head # xs)" "last (head # xs)" head "[]"]
      append_butlast_last_id [of "head # xs"] by (simp del: butlast.simps last.simps)
  moreover from this have "n \<noteq> lh_prev (h head)"
    using assms(2) last_in_set [of "head # xs"] by force
  ultimately show ?thesis
    using assms
    by (intro qdma_list_splice [where h = h and a = "lh_prev (h head)" and b = head and zs = "[]"])
      (auto simp: qdma_list_add_tail_def Let_def simp del: last.simps)
qed

lemma qdma_list_insert_before:
  assumes "qdma_list h head (ys @ m # zs)" and "n \<notin> set (head # ys @ m # zs)" and "n \<noteq> NULL"
  shows "qdma_list (qdma_list_insert_before n m h) head (ys @ n # m # zs)"
proof -
  have "lh_prev (h m) = last (head # ys)"
    using assms(1) qdma_list_ring_split(7) [of h head "ys @ m # zs" "butlast (head # ys)"
        "last (head # ys)" m "zs @ [head]"] append_butlast_last_id [of "head # ys"]
    by (simp del: butlast.simps last.simps)
  moreover from this have "n \<noteq> lh_prev (h m)"
    using assms(2) last_in_set [of "head # ys"] by force
  ultimately show ?thesis
    using assms
    by (intro qdma_list_splice [where h = h and a = "lh_prev (h m)" and b = m and zs = "m # zs"])
      (auto simp: qdma_list_insert_before_def Let_def simp del: last.simps)
qed

lemma qdma_list_insert_after:
  assumes "qdma_list h head (ys @ m # zs)" and "n \<notin> set (head # ys @ m # zs)" and "n \<noteq> NULL"
  shows "qdma_list (qdma_list_insert_after n m h) head (ys @ m # n # zs)"
proof -
  have "lh_next (h m) = hd (zs @ [head])"
    using assms(1) qdma_list_ring_split(6) [of h head "ys @ m # zs" "head # ys" m
        "hd (zs @ [head])" "tl (zs @ [head])"] by simp
  then show ?thesis
    using assms qdma_list_splice [of h head "ys @ [m]" zs n m "lh_next (h m)"]
    by (auto simp: qdma_list_insert_after_def Let_def)
qed

lemma qdma_list_del:
  assumes "qdma_list h head (ys @ n # zs)"
  shows "qdma_list (qdma_list_del n h) head (ys @ zs)"
proof -
  define a where "a = last (head # ys)"
  define b where "b = hd (zs @ [head])"
  let ?p = "butlast (head # ys)" and ?q = "tl (zs @ [head])"
  have eq: "head # (ys @ n # zs) @ [head] = ?p @ a # n # b # ?q" "head # (ys @ zs) @ [head] = ?p @ a # b # ?q"
    using append_butlast_last_id [of "head # ys"] unfolding a_def b_def
    by (auto simp del: butlast.simps last.simps)
  have links: "lh_next (h n) = b" "lh_prev (h n) = a"
    using qdma_list_ring_split(6) [OF assms, of "?p @ [a]" n b ?q]
      qdma_list_ring_split(7) [OF assms, of ?p a n "b # ?q"] eq(1) by auto
  have mem: "a \<in> set (head # ys)" "b \<in> set (head # zs)"
    unfolding a_def b_def by (rule last_in_set, simp) (cases zs; simp)
  then have nn: "a \<noteq> NULL" "b \<noteq> NULL" "n \<noteq> NULL" "a \<noteq> n" "b \<noteq> n"
    using assms by (auto simp: qdma_list_def)
  have d: "distinct (head # ys @ zs)" using assms by (auto simp: qdma_list_def)
  have "linked h (?p @ a # n # b # ?q)"
    using assms unfolding eq(1) [symmetric] by (simp add: qdma_list_def)
  moreover have "n \<notin> set (?p @ a # b # ?q)"
    using assms unfolding eq(2) [symmetric] by (auto simp: qdma_list_def)
  ultimately have "linked (qdma_list_del n h) (?p @ a # b # ?q)"
    by (rule linked_remove [OF _ _ ring_split [OF d eq(2)]])
      (auto simp: qdma_list_del_def links nn nn [symmetric])
  then show ?thesis
    using assms unfolding eq(2) [symmetric] by (auto simp: qdma_list_def)
qed

lemma qdma_list_empty_iff:
  assumes "qdma_list h head xs"
  shows "qdma_list_is_empty head h \<longleftrightarrow> xs = []"
  using assms by (cases xs) (auto simp: qdma_list_def qdma_list_is_empty_def)

lemma qdma_list_last_iff:
  assumes "qdma_list h head (ys @ n # zs)"
  shows "qdma_list_is_last_entry n head h \<longleftrightarrow> zs = []"
proof -
  have "lh_next (h n) = hd (zs @ [head])"
    using qdma_list_ring_split(6) [OF assms, of "head # ys" n "hd (zs @ [head])" "tl (zs @ [head])"]
    by simp
  then show ?thesis
    using assms by (cases zs) (auto simp: qdma_list_is_last_entry_def qdma_list_def)
qed


subsection \<open>The iteration macro\<close>

lemma qdma_list_next:
  assumes "qdma_list h head xs"
  shows "lh_next (h head) = hd (xs @ [head])"
    and "xs = x # ys \<Longrightarrow> lh_next (h x) = hd (ys @ [head])"
  using assms by (cases xs; auto simp: qdma_list_def; cases ys; auto)+

lemma for_each_step:
  assumes inv: "\<And>h x xs s. qdma_list h head (x # xs) \<Longrightarrow> I s (x # xs) \<Longrightarrow>
      qdma_list (snd (body x (s, h))) head xs \<and> I (fst (body x (s, h))) xs"
    and "qdma_list h head xs" and "length xs < k" and "I s xs"
  shows "\<exists>s' h'. for_each_safe k body head (hd (xs @ [head])) (lh_next (h (hd (xs @ [head])))) (s, h)
      = Some (s', h') \<and> qdma_list h' head [] \<and> I s' []"
  using assms(2-)
proof (induction xs arbitrary: h k s)
  case Nil
  then show ?case by (cases k) auto
next
  case (Cons x xs)
  then obtain j where k: "k = Suc j" and j: "length xs < j" by (cases k) auto
  obtain s1 h1 where b: "body x (s, h) = (s1, h1)" by fastforce
  have x: "x \<noteq> head" using Cons.prems(1) by (auto simp: qdma_list_def)
  have n: "lh_next (h x) = hd (xs @ [head])"
    using qdma_list_next(2) [OF Cons.prems(1)] by simp
  have l: "qdma_list h1 head xs" and I: "I s1 xs"
    using inv [OF Cons.prems(1,3)] b by auto
  show ?case
    using Cons.IH [OF l j I] by (simp add: k x b n)
qed

text \<open>
  Unlinking each node as it is visited, the loop of \<open>qdma_master_resource_destroy\<close>, empties the
  list, whatever its length, and never runs past it.
\<close>

lemma drain_enough:
  assumes "qdma_list h head xs" and "length xs < fuel"
  shows "\<exists>h'. qdma_list_for_each_safe fuel (\<lambda>pos (s, h). (s @ [pos], qdma_list_del pos h)) head ([], h)
      = Some (xs, h') \<and> qdma_list h' head []"
  using for_each_step [where I = "\<lambda>s r. s @ r = xs" and s = "[]" and k = fuel, OF _ assms]
    qdma_list_del [where ys = "[]"] qdma_list_next(1) [OF assms(1)]
  by (auto simp: qdma_list_for_each_safe_def Let_def)

lemma for_each_visits:
  assumes "qdma_list h head xs" and "length xs < fuel"
    and keep: "\<And>p s. snd (body p (s, h)) = h"
  shows "qdma_list_for_each_safe fuel body head (s, h) = Some (fold body xs (s, h))"
proof -
  have "for_each_safe k body head (hd (zs @ [head])) (lh_next (h (hd (zs @ [head])))) (s, h)
      = Some (fold body zs (s, h))"
    if "xs = ys @ zs" and "length zs < k" for k s ys zs
    using that
  proof (induction zs arbitrary: k s ys)
    case Nil
    then show ?case by (cases k) auto
  next
    case (Cons z zs)
    then obtain j where k: "k = Suc j" and j: "length zs < j" by (cases k) auto
    have l: "qdma_list h head (ys @ z # zs)" using assms(1) Cons.prems(1) by simp
    have n: "lh_next (h z) = hd (zs @ [head])"
      using qdma_list_ring_split(6) [OF l, of "head # ys" z "hd (zs @ [head])" "tl (zs @ [head])"]
      by simp
    have z: "z \<noteq> head" using l by (auto simp: qdma_list_def)
    obtain s1 where b: "body z (s, h) = (s1, h)" using keep [of z s] by (cases "body z (s, h)") auto
    show ?case using Cons.IH [of "ys @ [z]" j s1] Cons.prems(1) j by (simp add: k z b n)
  qed
  from this [of "[]" xs fuel s] show ?thesis
    using assms qdma_list_next(1) [OF assms(1)] by (simp add: qdma_list_for_each_safe_def Let_def)
qed

subsection \<open>The interface the resource manager relies on\<close>

locale list_head =
  fixes rep :: "'h \<Rightarrow> 'n \<Rightarrow> 'n list \<Rightarrow> bool"
    and nil :: 'n
    and init :: "'n \<Rightarrow> 'h \<Rightarrow> 'h"
    and add_tail ins_before ins_after :: "'n \<Rightarrow> 'n \<Rightarrow> 'h \<Rightarrow> 'h"
    and del :: "'n \<Rightarrow> 'h \<Rightarrow> 'h"
  assumes init: "head \<noteq> nil \<Longrightarrow> rep (init head h) head []"
    and add_tail: "rep h head xs \<Longrightarrow> n \<notin> set (head # xs) \<Longrightarrow> n \<noteq> nil \<Longrightarrow>
      rep (add_tail n head h) head (xs @ [n])"
    and ins_before: "rep h head (ys @ m # zs) \<Longrightarrow> n \<notin> set (head # ys @ m # zs) \<Longrightarrow> n \<noteq> nil \<Longrightarrow>
      rep (ins_before n m h) head (ys @ n # m # zs)"
    and ins_after: "rep h head (ys @ m # zs) \<Longrightarrow> n \<notin> set (head # ys @ m # zs) \<Longrightarrow> n \<noteq> nil \<Longrightarrow>
      rep (ins_after n m h) head (ys @ m # n # zs)"
    and del: "rep h head (ys @ n # zs) \<Longrightarrow> rep (del n h) head (ys @ zs)"
begin

text \<open>Queueing nodes one after the other at the tail.\<close>

lemma build:
  assumes "rep h head xs" and "distinct ns" and "set ns \<inter> set (head # xs) = {}" and "nil \<notin> set ns"
  shows "rep (fold (\<lambda>n. add_tail n head) ns h) head (xs @ ns)"
  using assms
proof (induction ns arbitrary: h xs)
  case Nil
  then show ?case by simp
next
  case (Cons n ns)
  then have "rep (add_tail n head h) head (xs @ [n])" by (intro add_tail) auto
  with Cons.prems Cons.IH [of "add_tail n head h" "xs @ [n]"] show ?case by auto
qed

text \<open>The insertion of \<open>qdma_submit_to_free_list\<close>: before the first larger node, else at the tail.\<close>

lemma insert_at:
  assumes "rep h head (ys @ zs)" and "n \<notin> set (head # ys @ zs)" and "n \<noteq> nil"
  shows "rep (case zs of [] \<Rightarrow> add_tail n head h | m # _ \<Rightarrow> ins_before n m h) head (ys @ n # zs)"
  using assms add_tail ins_before by (cases zs) auto

text \<open>The split of \<open>qdma_get_resource_node\<close>: a remainder on either side, then the node is taken.\<close>

lemma split_take:
  assumes "rep h head (ys @ m # zs)" and "distinct [a, b]" and "{a, b} \<inter> set (head # ys @ m # zs) = {}"
    and "nil \<notin> {a, b}"
  shows "rep (del m (ins_after b m (ins_before a m h))) head (ys @ a # b # zs)"
proof -
  have "rep (ins_before a m h) head (ys @ a # m # zs)"
    using assms by (intro ins_before) auto
  then have "rep (ins_after b m (ins_before a m h)) head ((ys @ [a]) @ m # b # zs)"
    using assms by (intro ins_after) auto
  then show ?thesis using del [of _ head "ys @ [a]" m "b # zs"] by simp
qed

end

interpretation qdma_list: list_head qdma_list NULL qdma_list_init_head qdma_list_add_tail
    qdma_list_insert_before qdma_list_insert_after qdma_list_del
  by unfold_locales
    (simp_all add: qdma_list_init qdma_list_add_tail qdma_list_insert_before qdma_list_insert_after
      qdma_list_del del: set_simps)


text \<open>
  C37: on a well-formed circular list with a head, each operation does to the linked nodes what its name
  says of the sequence of elements: adding at the tail, inserting before or after a member and
  deleting a member give well-formed lists of the expected elements, in both directions of the links.
\<close>

theorem qdma_list_operations:
  assumes "qdma_list h head (ys @ m # zs)" and "n \<notin> set (head # ys @ m # zs)" and "n \<noteq> NULL"
  shows "qdma_list (qdma_list_add_tail n head h) head (ys @ m # zs @ [n])
    \<and> qdma_list (qdma_list_insert_before n m h) head (ys @ n # m # zs)
    \<and> qdma_list (qdma_list_insert_after n m h) head (ys @ m # n # zs)
    \<and> qdma_list (qdma_list_del m h) head (ys @ zs)"
  using qdma_list.add_tail [OF assms] qdma_list.ins_before [OF assms] qdma_list.ins_after [OF assms]
    qdma_list.del [OF assms(1)] by simp

theorem qdma_list_operations_witness:
  "let h = qdma_list_add_tail 2 1 (qdma_list_init_head 1 (\<lambda>_. \<lparr>lh_prev = 0, lh_next = 0, lh_priv = 0\<rparr>))
   in qdma_list h 1 [2] \<and> qdma_list (qdma_list_insert_before 3 2 h) 1 [3, 2]
     \<and> qdma_list (qdma_list_insert_after 3 2 h) 1 [2, 3] \<and> qdma_list (qdma_list_del 2 h) 1 []"
proof -
  define h where "h = qdma_list_add_tail 2 1 (qdma_list_init_head 1 (\<lambda>_. \<lparr>lh_prev = 0, lh_next = 0, lh_priv = 0\<rparr>))"
  have "qdma_list h 1 ([] @ 2 # [])"
    using qdma_list.add_tail [OF qdma_list.init, of 1 2] by (simp add: h_def NULL_def)
  from qdma_list_operations [OF this, of 3] this show ?thesis
    by (simp add: h_def NULL_def)
qed

text \<open>
  The iteration macro reads the successor of a node before it runs the body, so a body that unlinks
  the node it is given is safe: the loop visits every element once, in order, never runs past the
  end, and leaves an empty list.
\<close>

theorem qdma_list_drain:
  assumes "qdma_list h head xs" and "length xs < fuel"
  shows "\<exists>h'. qdma_list_for_each_safe fuel (\<lambda>pos (s, h). (s @ [pos], qdma_list_del pos h)) head ([], h)
      = Some (xs, h') \<and> qdma_list_is_empty head h'"
  using drain_enough [OF assms] qdma_list_empty_iff by blast

theorem qdma_list_drain_witness:
  "let h = fold (\<lambda>n. qdma_list_add_tail n 1) [2, 3, 4]
      (qdma_list_init_head 1 (\<lambda>_. \<lparr>lh_prev = 0, lh_next = 0, lh_priv = 0\<rparr>))
   in \<exists>h'. qdma_list_for_each_safe 4 (\<lambda>pos (s, h). (s @ [pos], qdma_list_del pos h)) 1 ([], h)
      = Some ([2, 3, 4], h') \<and> qdma_list_is_empty 1 h'"
proof -
  define h where "h = fold (\<lambda>n. qdma_list_add_tail n 1) [2, 3, 4]
    (qdma_list_init_head 1 (\<lambda>_. \<lparr>lh_prev = 0, lh_next = 0, lh_priv = 0\<rparr>))"
  have "qdma_list h 1 ([] @ [2, 3, 4])"
    unfolding h_def by (rule qdma_list.build, rule qdma_list.init) (auto simp: NULL_def)
  from qdma_list_drain [of h 1 "[2, 3, 4]" 4] this show ?thesis
    by (simp add: h_def)
qed

end
