(* ===== verification/Resource_Free.thy ===== *)
theory Resource_Free
  imports Qdma_List
begin

section \<open>The free list of queue ranges (qdma\_resource\_mgmt.c, first half)\<close>

text \<open>
  A \<open>struct qdma_resource_entry\<close> is a range of hardware queues. The free list is the list the
  pointers of \<open>qdma_list.c\<close> represent (theory \<open>Qdma_List\<close>); a pointer to a node of it is the triple
  of the entries before it, the node and the entries after it, so that \<open>qdma_list_insert_before\<close>,
  \<open>qdma_list_insert_after\<close> and \<open>qdma_list_del\<close> at that node are list operations on the triple.
  Bases are C ints and counts are unsigned, both as 32-bit words with the C code's mixture of signed
  comparisons and wrapping unsigned sums. Every call of \<open>qdma_calloc\<close> may fail, as the oracle
  says.
\<close>

record res_entry =
  qbase :: c_int
  total_q :: u32

type_synonym node_ptr = "res_entry list \<times> res_entry \<times> res_entry list"

subsection \<open>The operations\<close>

definition qdma_free_entry_create :: "c_int \<Rightarrow> u32 \<Rightarrow> mem_oracle \<Rightarrow> res_entry option \<times> mem_oracle" where
  "qdma_free_entry_create q_base n mem =
     (case qdma_calloc mem of
        (True, mem') \<Rightarrow> (Some \<lparr>qbase = q_base, total_q = n\<rparr>, mem')
      | (False, mem') \<Rightarrow> (None, mem'))"

text \<open>
  Giving a range back: where it goes in the sorted list. \<open>None\<close> when the allocation fails.
\<close>

fun insert_sorted :: "res_entry \<Rightarrow> res_entry list \<Rightarrow> mem_oracle \<Rightarrow> res_entry list option \<times> mem_oracle" where
  "insert_sorted e [] mem =
     (case qdma_free_entry_create (qbase e) (total_q e) mem of
        (None, mem') \<Rightarrow> (None, mem')
      | (Some new_node, mem') \<Rightarrow> (Some [new_node], mem'))"
| "insert_sorted e (node # rest) mem =
     (if qbase e <s qbase node \<or> rest = [] then
        (case qdma_free_entry_create (qbase e) (total_q e) mem of
           (None, mem') \<Rightarrow> (None, mem')
         | (Some new_node, mem') \<Rightarrow>
             (Some (if qbase e <s qbase node then new_node # node # rest
                    else node # rest @ [new_node]), mem'))
      else (case insert_sorted e rest mem of
              (None, mem') \<Rightarrow> (None, mem')
            | (Some rest', mem') \<Rightarrow> (Some (node # rest'), mem')))"

text \<open>The merging pass over the free list, with the entry it is extending.\<close>

fun defrag_from :: "res_entry \<Rightarrow> res_entry list \<Rightarrow> res_entry list" where
  "defrag_from s [] = [s]"
| "defrag_from s (node # rest) =
     (if qbase s + total_q s = qbase node
      then defrag_from (s\<lparr>total_q := total_q s + total_q node\<rparr>) rest
      else s # defrag_from node rest)"

fun defrag :: "res_entry list \<Rightarrow> res_entry list" where
  "defrag [] = []"
| "defrag (node # rest) = defrag_from node rest"

text \<open>The entry of a device that holds no queues.\<close>

definition no_queues :: res_entry where
  "no_queues = \<lparr>qbase = - 1, total_q = 0\<rparr>"

text \<open>
  \<open>qdma_submit_to_free_list\<close>: the device's entry and the free list after the call. On a failed
  allocation the C function returns at once, so the device keeps its entry.
\<close>

definition qdma_submit_to_free_list :: "res_entry \<Rightarrow> res_entry list \<Rightarrow> mem_oracle \<Rightarrow>
    res_entry \<times> res_entry list \<times> mem_oracle" where
  "qdma_submit_to_free_list e free mem =
     (if total_q e = 0 then (e, free, mem)
      else (case insert_sorted e free mem of
              (None, mem') \<Rightarrow> (e, free, mem')
            | (Some free', mem') \<Rightarrow> (no_queues, defrag free', mem')))"

text \<open>The first node that holds the requested range (the sums wrap as in C).\<close>

fun find_hint :: "u32 \<Rightarrow> c_int \<Rightarrow> res_entry list \<Rightarrow> res_entry list \<Rightarrow> node_ptr option" where
  "find_hint qmax qb pre [] = None"
| "find_hint qmax qb pre (node # rest) =
     (if qbase node \<le>s qb \<and> qb + qmax \<le> qbase node + total_q node then Some (pre, node, rest)
      else find_hint qmax qb (pre @ [node]) rest)"

text \<open>The smallest node that is large enough; of equals the last one.\<close>

fun best_fit :: "u32 \<Rightarrow> node_ptr option \<Rightarrow> res_entry list \<Rightarrow> res_entry list \<Rightarrow> node_ptr option" where
  "best_fit qmax best pre [] = best"
| "best_fit qmax best pre (node # rest) =
     best_fit qmax
       (if qmax \<le> total_q node \<and>
           (case best of None \<Rightarrow> True | Some (_, b, _) \<Rightarrow> total_q node \<le> total_q b)
        then Some (pre, node, rest) else best)
       (pre @ [node]) rest"

text \<open>
  The split of the chosen node, from the label \<open>fragment_free_list\<close> on. \<open>Inl\<close> is a NULL return with
  the free list it leaves; \<open>Inr\<close> points to the node to take.
\<close>

definition fragment :: "u32 \<Rightarrow> c_int \<Rightarrow> node_ptr \<Rightarrow> mem_oracle \<Rightarrow>
    (res_entry list + node_ptr) \<times> mem_oracle" where
  "fragment qmax qb p mem = (case p of (pre, n, post) \<Rightarrow>
     if qb = qbase n \<and> qmax = total_q n then (Inr (pre, n, post), mem)
     else if qb = qbase n \<and> qmax \<noteq> total_q n then
       (let lqbase = qbase n + qmax; lqmax = total_q n - qmax
        in case qdma_free_entry_create lqbase lqmax mem of
             (None, mem') \<Rightarrow> (Inl (pre @ n # post), mem')
           | (Some new_entry, mem') \<Rightarrow>
               (Inr (pre, n\<lparr>total_q := total_q n - lqmax\<rparr>, new_entry # post), mem'))
     else if qbase n <s qb \<and> qb + qmax = qbase n + total_q n then
       (let lqbase = qbase n; lqmax = qb - qbase n
        in case qdma_free_entry_create lqbase lqmax mem of
             (None, mem') \<Rightarrow> (Inl (pre @ n # post), mem')
           | (Some new_entry, mem') \<Rightarrow>
               (Inr (pre @ [new_entry], n\<lparr>total_q := qmax, qbase := qb\<rparr>, post), mem'))
     else
       (let lqbase = qbase n; lqmax = qb - qbase n
        in case qdma_free_entry_create lqbase lqmax mem of
             (None, mem') \<Rightarrow> (Inl (pre @ n # post), mem')
           | (Some new_entry, mem') \<Rightarrow>
               (let n1 = n\<lparr>qbase := qb, total_q := total_q n - lqmax\<rparr>;
                    lqbase2 = qbase n1 + qmax; lqmax2 = total_q n1 - qmax
                in case qdma_free_entry_create lqbase2 lqmax2 mem' of
                     (None, mem'') \<Rightarrow> (Inl (pre @ [new_entry] @ n1 # post), mem'')
                   | (Some new_entry2, mem'') \<Rightarrow>
                       (Inr (pre @ [new_entry], n1\<lparr>total_q := qmax\<rparr>, new_entry2 # post), mem''))))"

definition qdma_get_resource_node :: "u32 \<Rightarrow> c_int \<Rightarrow> res_entry list \<Rightarrow> mem_oracle \<Rightarrow>
    (res_entry list + node_ptr) \<times> mem_oracle" where
  "qdma_get_resource_node qmax qb free mem =
     (case (if 0 \<le>s qb then find_hint qmax qb [] free else None) of
        Some p \<Rightarrow> fragment qmax qb p mem
      | None \<Rightarrow>
          (case best_fit qmax None [] free of
             None \<Rightarrow> (Inl free, mem)
           | Some (pre, n, post) \<Rightarrow> fragment qmax (qbase n) (pre, n, post) mem))"

text \<open>
  \<open>qdma_request_q_resource\<close>: the status, the device's entry and the free list. The device's queues
  go back first; when the request cannot be served, the old range is asked for again.
\<close>

definition qdma_request_q_resource :: "res_entry \<Rightarrow> u32 \<Rightarrow> c_int \<Rightarrow> res_entry list \<Rightarrow> mem_oracle \<Rightarrow>
    int \<times> res_entry \<times> res_entry list \<times> mem_oracle" where
  "qdma_request_q_resource e new_qmax new_qbase free mem =
     (let qmax = total_q e; qb = qbase e;
          (e1, free1, mem1) = qdma_submit_to_free_list e free mem
      in if new_qmax = 0 then (0, e1, free1, mem1)
         else (case qdma_get_resource_node new_qmax new_qbase free1 mem1 of
                 (Inr (pre, n, post), mem2) \<Rightarrow> (err_code QDMA_SUCCESS, n, pre @ post, mem2)
               | (Inl free2, mem2) \<Rightarrow>
                   (case qdma_get_resource_node qmax qb free2 mem2 of
                      (Inl free3, mem3) \<Rightarrow>
                        (neg_err QDMA_ERR_RM_NO_QUEUES_LEFT, no_queues, free3, mem3)
                    | (Inr (pre, n, post), mem3) \<Rightarrow>
                        (neg_err QDMA_ERR_RM_NO_QUEUES_LEFT, n, pre @ post, mem3))))"


subsection \<open>Ranges as sets of queues\<close>

definition lo :: "res_entry \<Rightarrow> nat" where
  "lo e = unat (qbase e)"

definition hi :: "res_entry \<Rightarrow> nat" where
  "hi e = unat (qbase e) + unat (total_q e)"

definition qs :: "res_entry \<Rightarrow> nat set" where
  "qs e = {lo e ..< hi e}"

definition free_qs :: "res_entry list \<Rightarrow> nat set" where
  "free_qs l = (\<Union>e \<in> set l. qs e)"

definition wf_entry :: "res_entry \<Rightarrow> bool" where
  "wf_entry e \<longleftrightarrow> total_q e \<noteq> 0 \<and> hi e \<le> 2 ^ 31"

definition wf_free :: "res_entry list \<Rightarrow> bool" where
  "wf_free l \<longleftrightarrow> list_all wf_entry l \<and> sorted_wrt (\<lambda>a b. hi a \<le> lo b) l"

text \<open>No two neighbouring ranges touch: nothing is left to merge.\<close>

definition coalesced :: "res_entry list \<Rightarrow> bool" where
  "coalesced l \<longleftrightarrow> sorted_wrt (\<lambda>a b. hi a < lo b) l"

lemma wf_entry_bounds:
  assumes "wf_entry e"
  shows "lo e < hi e" and "hi e \<le> 2 ^ 31" and "lo e < 2 ^ 31"
    and "unat (qbase e + total_q e) = hi e" and "sint (qbase e) = int (lo e)"
proof -
  show b: "lo e < hi e" "hi e \<le> 2 ^ 31"
    using assms by (auto simp: wf_entry_def lo_def hi_def unat_gt_0)
  then show l: "lo e < 2 ^ 31" by linarith
  have "unat (qbase e) + unat (total_q e) < 2 ^ LENGTH(32)"
    using b by (simp add: hi_def)
  then show "unat (qbase e + total_q e) = hi e"
    by (simp add: hi_def flip: unat_add_lem)
  show "sint (qbase e) = int (lo e)"
    using l by (simp add: lo_def sint_eq_unat)
qed

lemma free_qs_simps [simp]:
  "free_qs [] = {}" "free_qs (e # l) = qs e \<union> free_qs l" "free_qs (l @ l') = free_qs l \<union> free_qs l'"
  by (auto simp: free_qs_def)

lemma wf_free_simps [simp]:
  "wf_free []"
  "wf_free (e # l) \<longleftrightarrow> wf_entry e \<and> (\<forall>x \<in> set l. hi e \<le> lo x) \<and> wf_free l"
  "wf_free (l @ l') \<longleftrightarrow> wf_free l \<and> wf_free l' \<and> (\<forall>x \<in> set l. \<forall>y \<in> set l'. hi x \<le> lo y)"
  by (auto simp: wf_free_def sorted_wrt_append)

lemma coalesced_simps [simp]:
  "coalesced []" "coalesced (e # l) \<longleftrightarrow> (\<forall>x \<in> set l. hi e < lo x) \<and> coalesced l"
  by (auto simp: coalesced_def)

lemma wf_freeD: "wf_free l \<Longrightarrow> e \<in> set l \<Longrightarrow> wf_entry e"
  by (auto simp: wf_free_def list_all_iff)

lemma qs_nonempty: "wf_entry e \<Longrightarrow> lo e \<in> qs e \<and> hi e - 1 \<in> qs e"
  using wf_entry_bounds(1) [of e] by (auto simp: qs_def)

lemma free_qs_bound: "wf_free l \<Longrightarrow> q \<in> free_qs l \<Longrightarrow> q < 2 ^ 31"
  using wf_freeD wf_entry_bounds(2) by (fastforce simp: free_qs_def qs_def)

text \<open>Replacing a node by pieces of it.\<close>

lemma piece_bounds:
  assumes "wf_free ins" and "free_qs ins \<subseteq> qs n" and "x \<in> set ins"
  shows "lo n \<le> lo x" and "hi x \<le> hi n"
proof -
  have "lo x \<in> free_qs ins" "hi x - 1 \<in> free_qs ins"
    using assms(1,3) qs_nonempty wf_freeD by (auto simp: free_qs_def)
  then have "lo x \<in> qs n" "hi x - 1 \<in> qs n"
    using assms(2) by auto
  then show "lo n \<le> lo x" "hi x \<le> hi n" by (auto simp: qs_def)
qed

lemma replace_pieces:
  assumes "wf_free (pre @ n # post)" and "wf_free ins" and "free_qs ins \<subseteq> qs n"
  shows "wf_free (pre @ ins @ post)"
    and "free_qs (pre @ ins @ post) = free_qs (pre @ n # post) - (qs n - free_qs ins)"
proof -
  note b = piece_bounds [OF assms(2,3)]
  have "\<forall>x \<in> set pre. \<forall>y \<in> set ins. hi x \<le> lo y"
    using assms(1) b(1) by (fastforce intro: order_trans)
  moreover have "\<forall>x \<in> set ins. \<forall>y \<in> set post. hi x \<le> lo y"
    using assms(1) b(2) by (fastforce intro: order_trans)
  ultimately show "wf_free (pre @ ins @ post)"
    using assms(1,2) by auto
  have "free_qs pre \<inter> qs n = {}" "free_qs post \<inter> qs n = {}"
    using assms(1) by (fastforce simp: free_qs_def qs_def)+
  then show "free_qs (pre @ ins @ post) = free_qs (pre @ n # post) - (qs n - free_qs ins)"
    using assms(3) by auto
qed

subsection \<open>Giving a range back\<close>

lemma qdma_free_entry_create_cases:
  "qdma_free_entry_create b n mem = (None, snd (qdma_calloc mem)) \<and> \<not> fst (qdma_calloc mem) \<or>
   qdma_free_entry_create b n mem = (Some \<lparr>qbase = b, total_q = n\<rparr>, snd (qdma_calloc mem)) \<and> fst (qdma_calloc mem)"
  by (auto simp: qdma_free_entry_create_def split: prod.splits bool.splits)

lemma insert_sorted_Some:
  assumes "insert_sorted e l mem = (Some l', mem')"
  shows "\<exists>pre post. l = pre @ post \<and> l' = pre @ e # post \<and> (\<forall>x \<in> set pre. qbase x \<le>s qbase e) \<and>
    (post \<noteq> [] \<longrightarrow> qbase e <s qbase (hd post))"
  using assms
proof (induction e l mem arbitrary: l' mem' rule: insert_sorted.induct)
  case (1 e mem)
  then show ?case
    using qdma_free_entry_create_cases [of "qbase e" "total_q e" mem] by auto
next
  case (2 e node rest mem)
  show ?case
  proof (cases "qbase e <s qbase node \<or> rest = []")
    case True
    then have "l' = (if qbase e <s qbase node then e # node # rest else node # rest @ [e])"
      using 2(2) qdma_free_entry_create_cases [of "qbase e" "total_q e" mem] by auto
    with True show ?thesis
      by (intro exI [of _ "if qbase e <s qbase node then [] else [node]"]
          exI [of _ "if qbase e <s qbase node then node # rest else []"]) (auto split: if_splits)
  next
    case False
    then obtain r where r: "insert_sorted e rest mem = (Some r, mem')" "l' = node # r"
      using 2(2) by (auto split: prod.splits option.splits)
    from 2(1) [OF False r(1)] obtain pre post where
      "rest = pre @ post" "r = pre @ e # post" "\<forall>x \<in> set pre. qbase x \<le>s qbase e"
      "post \<noteq> [] \<longrightarrow> qbase e <s qbase (hd post)" by blast
    with False r(2) show ?thesis
      by (intro exI [of _ "node # pre"] exI [of _ post]) auto
  qed
qed

lemma insert_sorted_wf:
  assumes "insert_sorted e l mem = (Some l', mem')" and "wf_free l" and "wf_entry e"
    and disj: "qs e \<inter> free_qs l = {}"
  shows "wf_free l'" and "free_qs l' = qs e \<union> free_qs l"
proof -
  obtain pre post where l: "l = pre @ post" "l' = pre @ e # post"
    and pre: "\<forall>x \<in> set pre. qbase x \<le>s qbase e"
    and post: "post \<noteq> [] \<longrightarrow> qbase e <s qbase (hd post)"
    using insert_sorted_Some [OF assms(1)] by blast
  note e = wf_entry_bounds [OF assms(3)]
  have 1: "hi x \<le> lo e" if "x \<in> set pre" for x
  proof -
    note x = wf_entry_bounds [OF wf_freeD [OF assms(2)], of x]
    have "lo x \<le> lo e"
      using pre that l(1) x(5) e(5) by (auto simp: word_sle_eq)
    moreover have "lo e \<notin> qs x"
      using disj that l(1) qs_nonempty [OF assms(3)] by (auto simp: free_qs_def)
    ultimately show ?thesis using that l(1) x by (auto simp: qs_def)
  qed
  have 2: "hi e \<le> lo y" if "y \<in> set post" for y
  proof -
    obtain z zs where z: "post = z # zs" using \<open>y \<in> set post\<close> by (cases post) auto
    have wz: "wf_entry z" and le: "lo z \<le> lo y"
      using assms(2) l(1) z that wf_entry_bounds(1) [of z] by force+
    have "lo e < lo z"
      using post z e(5) wf_entry_bounds(5) [OF wz] by (auto simp: word_sless_alt)
    moreover have "lo z \<notin> qs e"
      using disj l(1) z qs_nonempty [OF wz] by (auto simp: free_qs_def)
    ultimately show ?thesis using le by (auto simp: qs_def)
  qed
  show "wf_free l'" using assms(2,3) 1 2 l by auto
  show "free_qs l' = qs e \<union> free_qs l" using l by auto
qed

lemma touching_iff: "wf_entry s \<Longrightarrow> qbase s + total_q s = qbase n \<longleftrightarrow> hi s = lo n"
  using wf_entry_bounds(4) [of s] by (auto simp: lo_def word_unat_eq_iff)

lemma merge_entry:
  assumes "wf_free (s # n # rest)" and "hi s = lo n"
  defines "s' \<equiv> s\<lparr>total_q := total_q s + total_q n\<rparr>"
  shows "lo s' = lo s" and "hi s' = hi n" and "wf_free (s' # rest)" and "qs s' = qs s \<union> qs n"
proof -
  have b: "wf_entry s" "wf_entry n" using assms(1) by auto
  note s = wf_entry_bounds [OF b(1)] and n = wf_entry_bounds [OF b(2)]
  have "unat (total_q s) + unat (total_q n) < 2 ^ LENGTH(32)"
    using assms(2) n(2) by (simp add: hi_def lo_def)
  then have u: "unat (total_q s + total_q n) = unat (total_q s) + unat (total_q n)"
    by (simp flip: unat_add_lem)
  show lo: "lo s' = lo s" by (simp add: s'_def lo_def)
  show hi: "hi s' = hi n" using assms(2) by (simp add: s'_def hi_def lo_def u)
  have "total_q s + total_q n \<noteq> 0"
    using u s(1) by (auto simp: hi_def lo_def simp flip: unat_eq_zero)
  then have "wf_entry s'" using n(2) hi by (simp add: wf_entry_def s'_def)
  then show "wf_free (s' # rest)" using assms(1) hi by auto
  show "qs s' = qs s \<union> qs n"
    using assms(2) s(1) n(1) by (auto simp: qs_def lo hi)
qed

lemma defrag_from_wf:
  assumes "wf_free (s # rest)"
  shows "wf_free (defrag_from s rest) \<and> coalesced (defrag_from s rest) \<and>
    free_qs (defrag_from s rest) = free_qs (s # rest) \<and> (\<forall>x \<in> set (defrag_from s rest). lo s \<le> lo x)"
  using assms
proof (induction s rest rule: defrag_from.induct)
  case (1 s)
  then show ?case by simp
next
  case (2 s node rest)
  have w: "wf_entry s" using 2(3) by simp
  show ?case
  proof (cases "hi s = lo node")
    case True
    with 2(1) merge_entry [OF 2(3) True] touching_iff [OF w] show ?thesis by auto
  next
    case False
    then have c: "\<not> qbase s + total_q s = qbase node" using touching_iff [OF w] by auto
    have le: "hi s < lo node" and "wf_free (node # rest)" using 2(3) False by auto
    with 2(2) [OF c] c w wf_entry_bounds(1) [OF w] show ?thesis by fastforce
  qed
qed

lemma defrag_wf:
  assumes "wf_free l"
  shows "wf_free (defrag l)" and "coalesced (defrag l)" and "free_qs (defrag l) = free_qs l"
  using assms defrag_from_wf by (cases l; force)+


lemma qdma_submit_wf:
  assumes "qdma_submit_to_free_list e free mem = (e', free', mem')"
    and "wf_free free" and "total_q e = 0 \<or> wf_entry e" and "qs e \<inter> free_qs free = {}"
  shows "wf_free free'" and "free_qs free' \<union> qs e' = free_qs free \<union> qs e"
    and "qs e' \<inter> free_qs free' = {}" and "e' = e \<or> e' = no_queues"
    and "e' = e \<and> free' = free \<or> qs e' = {} \<and> coalesced free'"
proof -
  have nq: "qs no_queues = {}" by (simp add: no_queues_def qs_def lo_def hi_def)
  consider "total_q e = 0" "e' = e" "free' = free"
    | "total_q e \<noteq> 0" "e' = e" "free' = free"
    | l where "total_q e \<noteq> 0" "insert_sorted e free mem = (Some l, mem')" "e' = no_queues" "free' = defrag l"
    using assms(1) by (auto simp: qdma_submit_to_free_list_def split: if_splits prod.splits option.splits)
  then have "wf_free free' \<and> free_qs free' \<union> qs e' = free_qs free \<union> qs e \<and> qs e' \<inter> free_qs free' = {} \<and>
    (e' = e \<or> e' = no_queues) \<and> (e' = e \<and> free' = free \<or> qs e' = {} \<and> coalesced free')"
  proof cases
    case 3
    then have "wf_entry e" using assms(3) by simp
    from insert_sorted_wf [OF 3(2) assms(2) this assms(4)] defrag_wf [of l] 3 nq
    show ?thesis by auto
  qed (use assms in auto)
  then show "wf_free free'" "free_qs free' \<union> qs e' = free_qs free \<union> qs e"
    "qs e' \<inter> free_qs free' = {}" "e' = e \<or> e' = no_queues"
    "e' = e \<and> free' = free \<or> qs e' = {} \<and> coalesced free'" by auto
qed

lemma insert_sorted_mem_ok:
  "mem_ok mem \<Longrightarrow> \<exists>l' mem'. insert_sorted e l mem = (Some l', mem') \<and> mem_ok mem'"
proof (induction e l mem rule: insert_sorted.induct)
  case (1 e mem)
  then show ?case by (cases mem) (auto simp: qdma_free_entry_create_def)
next
  case (2 e node rest mem)
  show ?case
  proof (cases "qbase e <s qbase node \<or> rest = []")
    case True
    with 2(2) show ?thesis by (cases mem) (auto simp: qdma_free_entry_create_def)
  next
    case False
    with 2(1) [OF False 2(2)] show ?thesis by auto
  qed
qed

lemma qdma_submit_mem_ok:
  assumes "qdma_submit_to_free_list e free mem = (e', free', mem')" and "mem_ok mem"
  shows "mem_ok mem'" and "total_q e' = 0" and "total_q e \<noteq> 0 \<Longrightarrow> e' = no_queues"
  using assms insert_sorted_mem_ok [of mem e free]
  by (auto simp: qdma_submit_to_free_list_def no_queues_def split: if_splits prod.splits option.splits)

subsection \<open>Choosing and splitting a range\<close>

lemma find_hint_Some:
  assumes "find_hint qmax qb pre l = Some (a, n, b)"
  shows "pre @ l = a @ n # b" and "n \<in> set l" and "qbase n \<le>s qb" and "qb + qmax \<le> qbase n + total_q n"
  using assms by (induction qmax qb pre l rule: find_hint.induct) (auto split: if_splits)

lemma find_hint_None:
  "find_hint qmax qb pre l = None \<longleftrightarrow>
     (\<forall>n \<in> set l. \<not> (qbase n \<le>s qb \<and> qb + qmax \<le> qbase n + total_q n))"
  by (induction qmax qb pre l rule: find_hint.induct) auto

lemma best_fit_inv:
  assumes "case best of None \<Rightarrow> \<forall>n \<in> set pre. \<not> qmax \<le> total_q n
    | Some (a, n, b) \<Rightarrow> a @ n # b = pre @ l \<and> n \<in> set pre \<and> qmax \<le> total_q n \<and>
        (\<forall>m \<in> set pre. qmax \<le> total_q m \<longrightarrow> total_q n \<le> total_q m)"
  shows "case best_fit qmax best pre l of None \<Rightarrow> \<forall>n \<in> set (pre @ l). \<not> qmax \<le> total_q n
    | Some (a, n, b) \<Rightarrow> a @ n # b = pre @ l \<and> qmax \<le> total_q n \<and>
        (\<forall>m \<in> set (pre @ l). qmax \<le> total_q m \<longrightarrow> total_q n \<le> total_q m)"
  using assms
proof (induction qmax best pre l rule: best_fit.induct)
  case (1 qmax best pre)
  then show ?case by (auto split: option.splits)
next
  case (2 qmax best pre node rest)
  have "case best_fit qmax best pre (node # rest) of None \<Rightarrow> \<forall>n \<in> set ((pre @ [node]) @ rest). \<not> qmax \<le> total_q n
    | Some (a, n, b) \<Rightarrow> a @ n # b = (pre @ [node]) @ rest \<and> qmax \<le> total_q n \<and>
        (\<forall>m \<in> set ((pre @ [node]) @ rest). qmax \<le> total_q m \<longrightarrow> total_q n \<le> total_q m)"
    unfolding best_fit.simps
    by (rule 2(1)) (use 2(2) in \<open>auto split: option.splits intro: order_trans\<close>)
  then show ?case by (simp only: append_assoc append_Cons append_Nil)
qed

lemma best_fit_None: "best_fit qmax None [] l = None \<longleftrightarrow> (\<forall>n \<in> set l. \<not> qmax \<le> total_q n)"
  using best_fit_inv [where best = None and pre = "[]" and qmax = qmax and l = l] by (auto split: option.splits)

lemma best_fit_Some:
  assumes "best_fit qmax None [] l = Some (a, n, b)"
  shows "l = a @ n # b" and "qmax \<le> total_q n"
    and "m \<in> set l \<Longrightarrow> qmax \<le> total_q m \<Longrightarrow> total_q n \<le> total_q m"
  using best_fit_inv [where best = None and pre = "[]" and qmax = qmax and l = l] assms by auto

text \<open>
  A split hands out exactly the range asked for and leaves the rest of the node in pieces; a failed
  allocation leaves pieces that still cover the node.
\<close>

lemma unat_plus: "unat (a::u32) + unat b < 2 ^ 32 \<Longrightarrow> unat (a + b) = unat a + unat b"
  by (simp flip: unat_add_lem)

lemma piece_wf:
  assumes "unat a < unat b" and "unat b \<le> 2 ^ 31"
  shows "wf_entry \<lparr>qbase = a, total_q = b - a\<rparr>" and "qs \<lparr>qbase = a, total_q = b - a\<rparr> = {unat a ..< unat b}"
    and "lo \<lparr>qbase = a, total_q = b - a\<rparr> = unat a" and "hi \<lparr>qbase = a, total_q = b - a\<rparr> = unat b"
proof -
  have "unat (b - a) = unat b - unat a"
    using assms(1) by (intro unat_sub) (simp add: word_le_nat_alt)
  then show "lo \<lparr>qbase = a, total_q = b - a\<rparr> = unat a" "hi \<lparr>qbase = a, total_q = b - a\<rparr> = unat b"
    "qs \<lparr>qbase = a, total_q = b - a\<rparr> = {unat a ..< unat b}"
    using assms(1) by (auto simp: lo_def hi_def qs_def)
  then show "wf_entry \<lparr>qbase = a, total_q = b - a\<rparr>"
    using assms by (auto simp: wf_entry_def)
qed

lemma diff_upper: "(a::nat) \<le> b \<Longrightarrow> b \<le> c \<Longrightarrow> {a..<c} - {b..<c} = {a..<b}"
  by auto

lemma diff_middle: "(a::nat) \<le> b \<Longrightarrow> b \<le> c \<Longrightarrow> c \<le> d \<Longrightarrow> {a..<d} - {b..<c} = {a..<b} \<union> {c..<d}"
  by auto

lemma fragment_pieces:
  assumes n: "wf_entry n" and q: "lo n \<le> unat qb" "unat qb + unat qmax \<le> hi n" "unat qb < 2 ^ 31"
  obtains (taken) ins mem' n' pre' post' where
      "fragment qmax qb (pre, n, post) mem = (Inr (pre', n', post'), mem')"
      "pre' @ post' = pre @ ins @ post" "wf_free ins" "free_qs ins = qs n - {unat qb ..< unat qb + unat qmax}"
      "n' = \<lparr>qbase = qb, total_q = qmax\<rparr>"
  | (oom) ins mem' where
      "fragment qmax qb (pre, n, post) mem = (Inl (pre @ ins @ post), mem')"
      "wf_free ins" "free_qs ins = qs n" "\<not> mem_ok mem"
proof -
  note w = wf_entry_bounds [OF n]
  define E where "E = qbase n + total_q n"
  have tq: "total_q n = E - qbase n" by (simp add: E_def)
  have uE: "unat E = hi n" using w(4) by (simp add: E_def)
  have ub: "unat (qb + qmax) = unat qb + unat qmax"
    using q w(2) by (intro unat_plus) simp
  have sq: "sint qb = int (unat qb)" using q(3) by (rule sint_eq_unat)
  have lt: "qbase n <s qb \<longleftrightarrow> lo n < unat qb"
    by (simp only: word_sless_alt sq w(5) of_nat_less_iff)
  have eq: "qb = qbase n \<longleftrightarrow> unat qb = lo n" "qb + qmax = E \<longleftrightarrow> unat qb + unat qmax = hi n"
    by (simp_all add: lo_def word_unat_eq_iff ub uE)
  have n_eq: "n = \<lparr>qbase = qbase n, total_q = E - qbase n\<rparr>" by (simp add: E_def)
  have e_eq: "E = qbase n + total_q n" by (simp add: E_def)
  obtain ok1 mem1 where c1: "qdma_calloc mem = (ok1, mem1)" by fastforce
  obtain ok2 mem2 where c2: "qdma_calloc mem1 = (ok2, mem2)" by fastforce
  have bad1: "\<not> ok1 \<Longrightarrow> \<not> mem_ok mem" using c1 by (cases mem) auto
  have bad2: "\<not> ok2 \<Longrightarrow> \<not> mem_ok mem" using c1 c2 by (cases mem; cases mem1) auto
  note P = piece_wf [of "qb + qmax" E, unfolded ub uE] piece_wf [of "qbase n" qb, folded lo_def]
    piece_wf [of qb E, unfolded uE]
  have qn: "qs n = {lo n ..< hi n}" by (simp add: qs_def)
  consider (1) "unat qb = lo n" "unat qb + unat qmax = hi n"
    | (2) "unat qb = lo n" "unat qb + unat qmax < hi n"
    | (3) "lo n < unat qb" "unat qb + unat qmax = hi n"
    | (4) "lo n < unat qb" "unat qb + unat qmax < hi n"
    using q by linarith
  then show ?thesis
  proof cases
    case 1
    then have *: "qb = qbase n" "qmax = total_q n" using eq e_eq by auto
    show ?thesis
      by (rule taken [of pre n post mem "[]"])
        (use 1 * in \<open>auto simp: fragment_def qn\<close>)
  next
    case 2
    then have *: "qb = qbase n" "qmax \<noteq> total_q n" using eq e_eq by auto
    let ?p = "\<lparr>qbase = qb + qmax, total_q = E - (qb + qmax)\<rparr>"
    have p: "\<lparr>qbase = qbase n + qmax, total_q = total_q n - qmax\<rparr> = ?p"
      using * by (simp add: E_def)
    show ?thesis
    proof (cases ok1)
      case True
      show ?thesis
        by (rule taken [of pre "\<lparr>qbase = qb, total_q = qmax\<rparr>" "?p # post" mem1 "[?p]"])
          (use 2 * True P(1,2) w(2) in \<open>auto simp: fragment_def qdma_free_entry_create_def c1 p qn Let_def
            split: if_splits\<close>)
    next
      case False
      show ?thesis
        by (rule oom [of "[n]" mem1])
          (use * False n bad1 in \<open>auto simp: fragment_def qdma_free_entry_create_def c1 Let_def\<close>)
    qed
  next
    case 3
    then have *: "qb \<noteq> qbase n" "qbase n <s qb" "qb + qmax = qbase n + total_q n"
      using eq e_eq lt by auto
    let ?p = "\<lparr>qbase = qbase n, total_q = qb - qbase n\<rparr>"
    have f: "fragment qmax qb (pre, n, post) mem =
      (if ok1 then (Inr (pre @ [?p], \<lparr>qbase = qb, total_q = qmax\<rparr>, post), mem1)
       else (Inl (pre @ n # post), mem1))"
      unfolding fragment_def prod.case Let_def qdma_free_entry_create_def c1
      using * by (auto split: bool.splits)
    have wp: "wf_entry ?p" using 3(1) q(3) by (intro P(5)) linarith+
    have qp: "qs ?p = {lo n ..< unat qb}" using 3(1) q(3) by (intro P(6)) linarith+
    have ins: "wf_free [?p]" "free_qs [?p] = qs n - {unat qb ..< unat qb + unat qmax}"
    proof -
      show "wf_free [?p]" using wp by simp
      have "{lo n ..< hi n} - {unat qb ..< hi n} = {lo n ..< unat qb}"
        using 3(1) q(2) by (intro diff_upper) linarith+
      then show "free_qs [?p] = qs n - {unat qb ..< unat qb + unat qmax}"
        by (simp only: free_qs_simps qp qn 3(2) Un_empty_right)
    qed
    show ?thesis
    proof (cases ok1)
      case True
      show ?thesis
        by (rule taken [OF _ _ ins, of "pre @ [?p]" _ post mem1]) (use True f in auto)
    next
      case False
      show ?thesis
        by (rule oom [of "[n]" mem1]) (use f False n bad1 in auto)
    qed
  next
    case 4
    then have *: "qb \<noteq> qbase n" "qbase n <s qb" "qb + qmax \<noteq> qbase n + total_q n"
      using eq e_eq lt by auto
    let ?p = "\<lparr>qbase = qbase n, total_q = qb - qbase n\<rparr>"
    let ?r = "\<lparr>qbase = qb + qmax, total_q = E - (qb + qmax)\<rparr>"
    let ?n1 = "\<lparr>qbase = qb, total_q = E - qb\<rparr>"
    have t: "total_q n - (qb - qbase n) = E - qb" "E - qb - qmax = E - (qb + qmax)"
      by (simp_all add: E_def)
    have f: "fragment qmax qb (pre, n, post) mem =
      (if \<not> ok1 then (Inl (pre @ n # post), mem1)
       else if ok2 then (Inr (pre @ [?p], \<lparr>qbase = qb, total_q = qmax\<rparr>, ?r # post), mem2)
       else (Inl (pre @ [?p] @ ?n1 # post), mem2))"
      unfolding fragment_def prod.case Let_def qdma_free_entry_create_def c1
      using * by (auto simp: c2 t split: bool.splits)
    have wp: "wf_entry ?p" using 4 q(3) by (intro P(5)) linarith+
    have qp: "qs ?p = {lo n ..< unat qb}" using 4 q(3) by (intro P(6)) linarith+
    have hp: "hi ?p = unat qb" using 4 q(3) by (intro P(8)) linarith+
    have wr: "wf_entry ?r" using 4 w(2) by (intro P(1)) linarith+
    have qr: "qs ?r = {unat qb + unat qmax ..< hi n}" using 4 w(2) by (intro P(2)) linarith+
    have lr: "lo ?r = unat qb + unat qmax" using 4 w(2) by (intro P(3)) linarith+
    have w1: "wf_entry ?n1" using 4 w(2) by (intro P(9)) linarith+
    have q1: "qs ?n1 = {unat qb ..< hi n}" using 4 w(2) by (intro P(10)) linarith+
    have l1: "lo ?n1 = unat qb" using 4 w(2) by (intro P(11)) linarith+
    have ins: "wf_free [?p, ?r]" "free_qs [?p, ?r] = qs n - {unat qb ..< unat qb + unat qmax}"
    proof -
      show "wf_free [?p, ?r]" using wp wr by (simp add: hp lr)
      have "{lo n ..< hi n} - {unat qb ..< unat qb + unat qmax} =
        {lo n ..< unat qb} \<union> {unat qb + unat qmax ..< hi n}"
        using 4 by (intro diff_middle) linarith+
      then show "free_qs [?p, ?r] = qs n - {unat qb ..< unat qb + unat qmax}"
        by (simp only: free_qs_simps qp qr qn Un_empty_right)
    qed
    have ins1: "wf_free [?p, ?n1]" "free_qs [?p, ?n1] = qs n"
    proof -
      show "wf_free [?p, ?n1]" using wp w1 by (simp add: hp l1)
      have "{lo n ..< unat qb} \<union> {unat qb ..< hi n} = {lo n ..< hi n}"
        using 4 by (intro ivl_disj_un_two) linarith+
      then show "free_qs [?p, ?n1] = qs n"
        by (simp only: free_qs_simps qp q1 qn Un_empty_right)
    qed
    show ?thesis
    proof (cases "ok1 \<and> ok2")
      case True
      show ?thesis
        by (rule taken [OF _ _ ins, of "pre @ [?p]" _ "?r # post" mem2]) (use True f in auto)
    next
      case False
      show ?thesis
      proof (cases ok1)
        case True
        show ?thesis
          by (rule oom [OF _ ins1, of mem2]) (use True False f bad2 in auto)
      next
        case False
        show ?thesis
          by (rule oom [of "[n]" mem1]) (use f False n bad1 in auto)
      qed
    qed
  qed
qed


text \<open>
  The caller's range request is sound when the sum of its base and its count, which the C code forms
  in 32 bits, does not wrap.
\<close>

definition hint_ok :: "u32 \<Rightarrow> c_int \<Rightarrow> bool" where
  "hint_ok qmax qb \<longleftrightarrow> (0 \<le>s qb \<longrightarrow> unat qb + unat qmax < 2 ^ 32)"

lemma nonneg_int: "0 \<le>s (qb :: c_int) \<Longrightarrow> unat qb < 2 ^ 31"
proof (rule ccontr)
  assume pos: "0 \<le>s qb" and "\<not> unat qb < 2 ^ 31"
  then have "2 ^ 31 \<le> uint qb" "uint qb < 2 ^ 32"
    using unsigned_less [of qb, where ?'a = int] by (auto simp: uint_nat simp del: of_nat_unat)
  then have "uint qb div 2 ^ 31 = 1" by auto
  then have "bit (uint qb) 31" by (simp add: bit_iff_odd)
  then have "bit qb 31" by (simp add: bit_uint_iff)
  then show False using pos bit_last_iff [of qb] by (simp add: word_sle_eq)
qed

lemma hint_fits:
  assumes "wf_entry n" and "0 \<le>s qb" and "hint_ok qmax qb"
  shows "qbase n \<le>s qb \<and> qb + qmax \<le> qbase n + total_q n \<longleftrightarrow> lo n \<le> unat qb \<and> unat qb + unat qmax \<le> hi n"
proof -
  note w = wf_entry_bounds [OF assms(1)]
  have "sint qb = int (unat qb)" by (rule sint_eq_unat [OF nonneg_int [OF assms(2)]])
  then have "qbase n \<le>s qb \<longleftrightarrow> lo n \<le> unat qb"
    by (simp only: word_sle_eq w(5) of_nat_le_iff)
  moreover have "unat (qb + qmax) = unat qb + unat qmax"
    using assms by (intro unat_plus) (simp add: hint_ok_def)
  ultimately show ?thesis using w(4) by (simp add: word_le_nat_alt)
qed

text \<open>The result of \<open>qdma_get_resource_node\<close>: the range taken, or what a failure leaves.\<close>

lemma qdma_get_resource_node_cases:
  assumes "wf_free free" and "hint_ok qmax qb"
  obtains (taken) pre n post mem' where
      "qdma_get_resource_node qmax qb free mem = (Inr (pre, n, post), mem')"
      "wf_free (pre @ post)" "free_qs (pre @ post) = free_qs free - qs n" "qs n \<subseteq> free_qs free"
      "total_q n = qmax" "hi n \<le> 2 ^ 31"
      "\<exists>m \<in> set free. qmax \<le> total_q m"
      "0 \<le>s qb \<Longrightarrow> \<exists>m \<in> set free. lo m \<le> unat qb \<and> unat qb + unat qmax \<le> hi m \<Longrightarrow> qbase n = qb"
  | (none) l mem' where
      "qdma_get_resource_node qmax qb free mem = (Inl l, mem')"
      "wf_free l" "free_qs l = free_qs free"
      "mem_ok mem \<Longrightarrow> l = free \<and> (\<forall>m \<in> set free. \<not> qmax \<le> total_q m)"
proof -
  text \<open>both searches end in a split of a node \<open>n\<close> at a base \<open>c\<close> inside it\<close>
  have split: thesis
    if get: "qdma_get_resource_node qmax qb free mem = fragment qmax c (a, n, b) mem"
      and l: "free = a @ n # b" and c: "lo n \<le> unat c" "unat c + unat qmax \<le> hi n" "unat c < 2 ^ 31"
      and hint: "0 \<le>s qb \<Longrightarrow> \<exists>m \<in> set free. lo m \<le> unat qb \<and> unat qb + unat qmax \<le> hi m \<Longrightarrow> c = qb"
    for a n b c
  proof -
    have n: "wf_entry n" and w: "wf_free (a @ n # b)" using assms(1) l by auto
    have sub: "{unat c ..< unat c + unat qmax} \<subseteq> qs n" using c by (auto simp: qs_def)
    have big: "\<exists>m \<in> set free. qmax \<le> total_q m"
      using c l by (intro bexI [of _ n]) (auto simp: word_le_nat_alt hi_def lo_def)
    show thesis
    proof (cases rule: fragment_pieces [OF n c, of a b mem])
      case (1 ins mem' n' pre' post')
      have "free_qs ins \<subseteq> qs n" using 1(4) by auto
      note r = replace_pieces [OF w 1(3) this]
      have q': "qs n' = {unat c ..< unat c + unat qmax}" "hi n' \<le> 2 ^ 31"
        using c wf_entry_bounds(2) [OF n] by (auto simp: 1(5) qs_def lo_def hi_def)
      show thesis
      proof (rule taken)
        show "qdma_get_resource_node qmax qb free mem = (Inr (pre', n', post'), mem')"
          using get 1(1) by simp
        show "wf_free (pre' @ post')" using r(1) 1(2) by simp
        show "free_qs (pre' @ post') = free_qs free - qs n'"
          using r(2) 1(2,4) l q' sub by auto
        show "qs n' \<subseteq> free_qs free" using q' sub l by auto
        show "total_q n' = qmax" by (simp add: 1(5))
        show "qbase n' = qb" if "0 \<le>s qb" "\<exists>m \<in> set free. lo m \<le> unat qb \<and> unat qb + unat qmax \<le> hi m"
          using hint [OF that] by (simp add: 1(5))
      qed (use q' big in auto)
    next
      case (2 ins mem')
      have "free_qs ins \<subseteq> qs n" using 2(3) by auto
      note r = replace_pieces [OF w 2(2) this]
      show thesis
        by (rule none [of "a @ ins @ b" mem']) (use get 2 r l in auto)
    qed
  qed
  show thesis
  proof (cases "if 0 \<le>s qb then find_hint qmax qb [] free else None")
    case (Some p)
    obtain a n b where p: "p = (a, n, b)" by (cases p)
    have pos: "0 \<le>s qb" and f: "find_hint qmax qb [] free = Some (a, n, b)"
      using Some p by (auto split: if_splits)
    note h = find_hint_Some [OF f]
    have n: "wf_entry n" using assms(1) h(2) by (rule wf_freeD)
    have "qbase n \<le>s qb \<and> qb + qmax \<le> qbase n + total_q n" using h by blast
    then have "lo n \<le> unat qb" "unat qb + unat qmax \<le> hi n"
      unfolding hint_fits [OF n pos assms(2)] by auto
    then show thesis
      using Some p h(1) nonneg_int [OF pos]
      by (intro split [of qb a n b]) (auto simp: qdma_get_resource_node_def)
  next
    case None
    have nofit: "\<not> (\<exists>m \<in> set free. lo m \<le> unat qb \<and> unat qb + unat qmax \<le> hi m)" if "0 \<le>s qb"
      using None that hint_fits [OF wf_freeD [OF assms(1)] that assms(2)]
      by (auto simp: find_hint_None split: if_splits)
    show thesis
    proof (cases "best_fit qmax None [] free")
      case None
      moreover have "\<forall>m \<in> set free. \<not> qmax \<le> total_q m"
        using None by (simp only: best_fit_None)
      ultimately show thesis
        using \<open>(if 0 \<le>s qb then _ else _) = None\<close> assms(1)
        by (intro none [of free mem]) (simp_all add: qdma_get_resource_node_def)
    next
      case (Some p)
      obtain a n b where p: "p = (a, n, b)" by (cases p)
      note h = best_fit_Some [OF Some [unfolded p]]
      have n: "wf_entry n" using assms(1) h(1) by simp
      show thesis
        using \<open>(if 0 \<le>s qb then _ else _) = None\<close> Some p h(1,2) wf_entry_bounds(3) [OF n] nofit
        by (intro split [of "qbase n" a n b])
          (auto simp: qdma_get_resource_node_def lo_def hi_def word_le_nat_alt)
    qed
  qed
qed


text \<open>A run of free queues lies inside one range once neighbouring ranges are merged.\<close>

lemma coalesced_apart:
  assumes "coalesced l" and "m \<in> set l" and "m' \<in> set l"
  shows "m = m' \<or> hi m < lo m' \<or> hi m' < lo m"
  using assms by (induction l) auto

lemma coalesced_run:
  assumes "wf_free l" and "coalesced l" and "{b ..< b + k} \<subseteq> free_qs l" and "0 < k"
  shows "\<exists>m \<in> set l. lo m \<le> b \<and> b + k \<le> hi m"
  using assms(4,3)
proof (induction k rule: nat_induct_non_zero)
  case 1
  then show ?case by (fastforce simp: free_qs_def qs_def)
next
  case (Suc k)
  then obtain m where m: "m \<in> set l" "lo m \<le> b" "b + k \<le> hi m" by fastforce
  have "b + k \<in> free_qs l" using Suc.prems by auto
  then obtain m' where m': "m' \<in> set l" "lo m' \<le> b + k" "b + k < hi m'"
    by (auto simp: free_qs_def qs_def)
  have "b + k < hi m"
    using coalesced_apart [OF assms(2) m(1) m'(1)] m m' Suc.hyps(1) by auto
  with m show ?case by (intro bexI [of _ m]) auto
qed

lemma qs_len_mono: "wf_entry m \<Longrightarrow> unat qmax \<le> hi m - lo m \<longleftrightarrow> qmax \<le> total_q m"
  by (simp add: hi_def lo_def word_le_nat_alt)

subsection \<open>Requesting a range\<close>

definition dev_entry_ok :: "res_entry \<Rightarrow> res_entry list \<Rightarrow> bool" where
  "dev_entry_ok e free \<longleftrightarrow>
     wf_free free \<and> (total_q e = 0 \<or> wf_entry e) \<and> qs e \<inter> free_qs free = {}"

lemma qs_zero [simp]: "total_q e = 0 \<Longrightarrow> qs e = {}"
  by (simp add: qs_def lo_def hi_def)

lemma no_queues_simps [simp]: "total_q no_queues = 0" "qbase no_queues = - 1"
  by (simp_all add: no_queues_def)

lemma taken_ok: "total_q n = qmax \<Longrightarrow> hi n \<le> 2 ^ 31 \<Longrightarrow> total_q n = 0 \<or> wf_entry n"
  by (auto simp: wf_entry_def)

text \<open>
  Whatever the allocator does, the device ends with a range of its own taken from what it had and
  what was free; no queue appears from elsewhere and none is both free and taken.
\<close>

lemma restore_hint_ok: "total_q e = 0 \<or> wf_entry e \<Longrightarrow> hint_ok (total_q e) (qbase e)"
  using wf_entry_bounds(2) [of e] nonneg_int [of "qbase e"] by (auto simp: hint_ok_def hi_def)

lemma request_safe:
  assumes "dev_entry_ok e free" and "hint_ok new_qmax new_qbase"
    and "qdma_request_q_resource e new_qmax new_qbase free mem = (rv, e', free', mem')"
  shows "dev_entry_ok e' free'" and "free_qs free' \<union> qs e' \<subseteq> free_qs free \<union> qs e"
proof -
  obtain e1 free1 mem1 where s: "qdma_submit_to_free_list e free mem = (e1, free1, mem1)"
    by (metis prod_cases3)
  note sw = qdma_submit_wf [OF s] and ok = assms(1) [unfolded dev_entry_ok_def]
  have w1: "wf_free free1" and sub1: "free_qs free1 \<subseteq> free_qs free \<union> qs e"
    using sw ok by auto
  have "dev_entry_ok e' free' \<and> free_qs free' \<union> qs e' \<subseteq> free_qs free \<union> qs e"
  proof (cases "new_qmax = 0")
    case True
    then have "e' = e1" "free' = free1"
      using assms(3) s by (auto simp: qdma_request_q_resource_def)
    moreover have "total_q e1 = 0 \<or> wf_entry e1" using sw(4) ok by auto
    ultimately show ?thesis using sw ok by (auto simp: dev_entry_ok_def)
  next
    case False
    show ?thesis
    proof (cases rule: qdma_get_resource_node_cases [OF w1 assms(2), of mem1])
      case (1 pre n post mem')
      then have "e' = n" "free' = pre @ post"
        using assms(3) s False by (auto simp: qdma_request_q_resource_def)
      with 1 sub1 taken_ok [OF 1(5,6)] show ?thesis by (auto simp: dev_entry_ok_def)
    next
      case (2 l mem2)
      show ?thesis
      proof (cases rule: qdma_get_resource_node_cases [OF 2(2) restore_hint_ok, of e mem2])
        case (2 pre n post mem3)
        note 1 = this
        then have "e' = n" "free' = pre @ post"
          using assms(3) s False \<open>qdma_get_resource_node new_qmax new_qbase free1 mem1 = (Inl l, mem2)\<close>
          by (auto simp: qdma_request_q_resource_def)
        with 1 sub1 \<open>free_qs l = free_qs free1\<close> taken_ok [OF 1(5,6)] show ?thesis
          by (auto simp: dev_entry_ok_def)
      next
        case (3 l' mem3)
        then have "e' = no_queues" "free' = l'"
          using assms(3) s False \<open>qdma_get_resource_node new_qmax new_qbase free1 mem1 = (Inl l, mem2)\<close>
          by (auto simp: qdma_request_q_resource_def)
        with 3 sub1 \<open>free_qs l = free_qs free1\<close> show ?thesis by (auto simp: dev_entry_ok_def)
      qed (use ok in auto)
    qed
  qed
  then show "dev_entry_ok e' free'" "free_qs free' \<union> qs e' \<subseteq> free_qs free \<union> qs e" by auto
qed

lemma create_mem_ok:
  "qdma_free_entry_create b n mem = (r, mem') \<Longrightarrow> mem_ok mem \<Longrightarrow> mem_ok mem'"
  by (cases mem) (auto simp: qdma_free_entry_create_def split: bool.splits)

lemma create_mem_ok_Some:
  assumes "mem_ok mem"
  obtains mem' where "qdma_free_entry_create b n mem = (Some \<lparr>qbase = b, total_q = n\<rparr>, mem')" and "mem_ok mem'"
  using assms by (cases mem) (auto simp: qdma_free_entry_create_def)

lemma fragment_mem_ok:
  assumes "fragment qmax c p mem = (r, mem')" and "mem_ok mem"
  shows "mem_ok mem'"
proof -
  obtain pre n post where p: "p = (pre, n, post)" by (cases p)
  let ?a = "qbase n + qmax" and ?b = "total_q n - qmax" and ?d = "c - qbase n"
  let ?e = "total_q n - ?d"
  obtain m1 where 1: "qdma_free_entry_create ?a ?b mem = (Some \<lparr>qbase = ?a, total_q = ?b\<rparr>, m1)" "mem_ok m1"
    using assms(2) by (rule create_mem_ok_Some)
  obtain m2 where 2: "qdma_free_entry_create (qbase n) ?d mem = (Some \<lparr>qbase = qbase n, total_q = ?d\<rparr>, m2)" "mem_ok m2"
    using assms(2) by (rule create_mem_ok_Some)
  obtain m3 where 3: "qdma_free_entry_create (c + qmax) (?e - qmax) m2 =
      (Some \<lparr>qbase = c + qmax, total_q = ?e - qmax\<rparr>, m3)" "mem_ok m3"
    using 2(2) by (rule create_mem_ok_Some)
  have "mem' \<in> {mem, m1, m2, m3}"
    using assms(1) unfolding p fragment_def prod.case Let_def 1(1) 2(1) option.case
      res_entry.simps by (auto simp: 3(1) split: if_splits)
  with 1 2 3 assms(2) show ?thesis by blast
qed

lemma qdma_get_resource_node_mem_ok:
  "qdma_get_resource_node qmax qb free mem = (r, mem') \<Longrightarrow> mem_ok mem \<Longrightarrow> mem_ok mem'"
  by (auto simp: qdma_get_resource_node_def split: if_splits option.splits prod.splits dest: fragment_mem_ok)

lemma restore_exact:
  assumes "wf_free l" and "mem_ok mem" and e: "total_q e = 0 \<or> wf_entry e"
    and sub: "qs e \<subseteq> free_qs l" and c: "total_q e \<noteq> 0 \<longrightarrow> coalesced l"
  obtains (taken) pre n post mem' where "qdma_get_resource_node (total_q e) (qbase e) l mem = (Inr (pre, n, post), mem')"
      "qs n = qs e" "free_qs (pre @ post) = free_qs l - qs e" "total_q e \<noteq> 0 \<Longrightarrow> n = e"
  | (none) mem' where "qdma_get_resource_node (total_q e) (qbase e) l mem = (Inl l, mem')" "total_q e = 0"
proof -
  have inside: "0 \<le>s qbase e \<and> (\<exists>m \<in> set l. lo m \<le> unat (qbase e) \<and> unat (qbase e) + unat (total_q e) \<le> hi m)"
    if "total_q e \<noteq> 0"
  proof -
    have w: "wf_entry e" using that e by simp
    have "sint (qbase e) = int (lo e)" by (rule wf_entry_bounds(5) [OF w])
    then have "0 \<le>s qbase e" by (simp add: word_sle_eq)
    moreover have "\<exists>m \<in> set l. lo m \<le> lo e \<and> lo e + unat (total_q e) \<le> hi m"
    proof (rule coalesced_run [OF assms(1) mp [OF c that]])
      show "{lo e ..< lo e + unat (total_q e)} \<subseteq> free_qs l"
        using sub by (simp add: qs_def hi_def lo_def)
      show "0 < unat (total_q e)" using that by (simp add: unat_gt_0)
    qed
    ultimately show ?thesis by (simp add: lo_def)
  qed
  show thesis
  proof (cases rule: qdma_get_resource_node_cases [OF assms(1) restore_hint_ok [OF e], of mem])
    case (1 pre n post mem')
    have eq: "n = e" if "total_q e \<noteq> 0" using inside [OF that] 1(5,8) by (cases n; cases e) auto
    then have "qs n = qs e" using 1(5) by (cases "total_q e = 0") auto
    with eq 1(1,3) show thesis by (intro taken [of pre n post mem']) simp_all
  next
    case (2 l' mem')
    then have "l' = l" "\<forall>m \<in> set l. \<not> total_q e \<le> total_q m" using assms(2) by auto
    moreover have "total_q e = 0"
    proof (rule ccontr)
      assume "total_q e \<noteq> 0"
      then obtain m where m: "m \<in> set l" "lo m \<le> unat (qbase e)" "unat (qbase e) + unat (total_q e) \<le> hi m"
        using inside by auto
      then have "total_q e \<le> total_q m" by (simp add: word_le_nat_alt hi_def lo_def)
      with m(1) \<open>\<forall>m \<in> set l. \<not> total_q e \<le> total_q m\<close> show False by blast
    qed
    ultimately show thesis using 2(1) by (intro none) auto
  qed
qed

text \<open>
  With memory available the request is exact: it is served with the count asked for, or it fails
  and leaves the device and the free queues as they were.
\<close>

lemma request_exact:
  assumes "dev_entry_ok e free" and "hint_ok new_qmax new_qbase" and "mem_ok mem"
    and "qdma_request_q_resource e new_qmax new_qbase free mem = (rv, e', free', mem')"
  defines "free1 \<equiv> fst (snd (qdma_submit_to_free_list e free mem))"
  shows "rv = 0 \<and> total_q e' = new_qmax \<and> free_qs free' = (free_qs free \<union> qs e) - qs e' \<and>
           qs e' \<subseteq> free_qs free \<union> qs e \<and>
           (new_qmax = 0 \<or> (\<exists>m \<in> set free1. new_qmax \<le> total_q m)) \<and>
           (new_qmax \<noteq> 0 \<and> 0 \<le>s new_qbase \<and>
             (\<exists>m \<in> set free1. lo m \<le> unat new_qbase \<and> unat new_qbase + unat new_qmax \<le> hi m)
             \<longrightarrow> qbase e' = new_qbase)
         \<or> rv = neg_err QDMA_ERR_RM_NO_QUEUES_LEFT \<and> new_qmax \<noteq> 0 \<and> qs e' = qs e \<and>
           free_qs free' = free_qs free \<and> (total_q e \<noteq> 0 \<longrightarrow> e' = e) \<and>
           (\<forall>m \<in> set free1. \<not> new_qmax \<le> total_q m)"
proof -
  obtain e1 mem1 where s: "qdma_submit_to_free_list e free mem = (e1, free1, mem1)"
    unfolding free1_def by (metis prod_cases3 fst_conv snd_conv)
  note sw = qdma_submit_wf [OF s] and so = qdma_submit_mem_ok [OF s assms(3)]
    and ok = assms(1) [unfolded dev_entry_ok_def]
  have w1: "wf_free free1" and f1: "free_qs free1 = free_qs free \<union> qs e"
    using sw so ok by auto
  have e0: "total_q e = 0 \<Longrightarrow> free1 = free" using s by (auto simp: qdma_submit_to_free_list_def)
  show ?thesis
  proof (cases "new_qmax = 0")
    case True
    then show ?thesis
      using assms(4) s so f1 by (auto simp: qdma_request_q_resource_def)
  next
    case False
    show ?thesis
    proof (cases rule: qdma_get_resource_node_cases [OF w1 assms(2), of mem1])
      case (1 pre n post mem2)
      then have "e' = n" "free' = pre @ post" "rv = 0"
        using assms(4) s False by (auto simp: qdma_request_q_resource_def)
      with 1 f1 show ?thesis by auto
    next
      case (2 l mem2)
      then have l: "l = free1" "\<forall>m \<in> set free1. \<not> new_qmax \<le> total_q m" using so(1) by auto
      have m2: "mem_ok mem2"
        using qdma_get_resource_node_mem_ok [OF 2(1) so(1)] .
      have es: "total_q e = 0 \<or> wf_entry e" and sub: "qs e \<subseteq> free_qs free1" using ok f1 by auto
      have coal: "total_q e \<noteq> 0 \<longrightarrow> coalesced free1"
        using sw(5) ok so(2) by auto
      have disj: "qs e \<inter> free_qs free = {}" using ok by simp
      have r: "rv = neg_err QDMA_ERR_RM_NO_QUEUES_LEFT \<and> (case qdma_get_resource_node (total_q e) (qbase e) free1 mem2 of
          (Inl free3, mem3) \<Rightarrow> e' = no_queues \<and> free' = free3
        | (Inr (pre, n, post), mem3) \<Rightarrow> e' = n \<and> free' = pre @ post)"
        using assms(4) s False 2(1) l(1)
        by (auto simp: qdma_request_q_resource_def split: prod.splits sum.splits)
      have "qs e' = qs e \<and> free_qs free' = free_qs free \<and> (total_q e \<noteq> 0 \<longrightarrow> e' = e)"
      proof (cases rule: restore_exact [OF w1 m2 es sub coal])
        case (1 pre n post mem3)
        with r disj f1 show ?thesis by auto
      next
        case (2 mem3)
        with r e0 show ?thesis by auto
      qed
      with r l False show ?thesis by auto
    qed
  qed
qed

end
