(* ===== verification/Resource_Mgmt.thy ===== *)
theory Resource_Mgmt
  imports Resource_Free
begin

section \<open>The queue resource manager (qdma\_resource\_mgmt.c)\<close>

text \<open>
  The state of the manager is the list of master resources, one for each board, with its devices
  (PCI functions) and its free list, the static index the next resource gets, and what
  \<open>qdma_calloc\<close> will answer. A function of the C file is an operation on this state; the locks
  make each of them atomic.
\<close>

datatype qdma_dev_q_type = QDMA_DEV_Q_TYPE_H2C | QDMA_DEV_Q_TYPE_C2H | QDMA_DEV_Q_TYPE_CMPT | QDMA_DEV_Q_TYPE_MAX

datatype qdma_dev_q_range = QDMA_DEV_Q_IN_RANGE | QDMA_DEV_Q_OUT_OF_RANGE | QDMA_DEV_Q_RANGE_MAX

record dev_entry =
  func_id :: u16
  active_h2c_qcnt :: u32
  active_c2h_qcnt :: u32
  active_cmpt_qcnt :: u32
  entry :: res_entry

record resource_master =
  dma_device_index :: u32
  pci_bus_start :: u32
  pci_bus_end :: u32
  m_total_q :: u32
  m_qbase :: c_int
  dev_list :: "dev_entry list"
  free_list :: "res_entry list"
  active_qcnt :: u32

record rm_state =
  master_resource_list :: "resource_master list"
  res_index :: u32
  rm_mem :: mem_oracle

subsection \<open>Lookups\<close>

definition qdma_find_master_resource_entry :: "rm_state \<Rightarrow> u32 \<Rightarrow> u32 \<Rightarrow> resource_master option" where
  "qdma_find_master_resource_entry s bus_start bus_end =
     find (\<lambda>m. pci_bus_start m = bus_start \<and> pci_bus_end m = bus_end) (master_resource_list s)"

definition qdma_get_master_resource_entry :: "rm_state \<Rightarrow> u32 \<Rightarrow> resource_master option" where
  "qdma_get_master_resource_entry s idx = find (\<lambda>m. dma_device_index m = idx) (master_resource_list s)"

definition qdma_get_dev_entry :: "rm_state \<Rightarrow> u32 \<Rightarrow> u16 \<Rightarrow> dev_entry option" where
  "qdma_get_dev_entry s idx f =
     (case qdma_get_master_resource_entry s idx of
        None \<Rightarrow> None
      | Some m \<Rightarrow> find (\<lambda>d. func_id d = f) (dev_list m))"

text \<open>Changes through the pointers the lookups return.\<close>

definition put_master :: "u32 \<Rightarrow> (resource_master \<Rightarrow> resource_master) \<Rightarrow> rm_state \<Rightarrow> rm_state" where
  "put_master idx g s =
     s\<lparr>master_resource_list := update_first (\<lambda>m. dma_device_index m = idx) g (master_resource_list s)\<rparr>"

definition put_dev :: "u16 \<Rightarrow> (dev_entry \<Rightarrow> dev_entry) \<Rightarrow> resource_master \<Rightarrow> resource_master" where
  "put_dev f g m = m\<lparr>dev_list := update_first (\<lambda>d. func_id d = f) g (dev_list m)\<rparr>"

subsection \<open>Master resources\<close>

definition qdma_master_resource_create :: "u32 \<Rightarrow> u32 \<Rightarrow> c_int \<Rightarrow> u32 \<Rightarrow> rm_state \<Rightarrow> int \<times> u32 \<times> rm_state" where
  "qdma_master_resource_create bus_start bus_end q_base n s =
     (case qdma_find_master_resource_entry s bus_start bus_end of
        Some m \<Rightarrow> (neg_err QDMA_ERR_RM_RES_EXISTS, dma_device_index m, s)
      | None \<Rightarrow>
          (let index = res_index s; (ok1, mem1) = qdma_calloc (rm_mem s)
           in if \<not> ok1 then (neg_err QDMA_ERR_NO_MEM, index, s\<lparr>rm_mem := mem1\<rparr>)
              else (let (ok2, mem2) = qdma_calloc mem1
                    in if \<not> ok2 then (neg_err QDMA_ERR_NO_MEM, index, s\<lparr>rm_mem := mem2\<rparr>)
                       else (err_code QDMA_SUCCESS, index,
                             \<lparr>master_resource_list = master_resource_list s @
                                [\<lparr>dma_device_index = index, pci_bus_start = bus_start, pci_bus_end = bus_end,
                                  m_total_q = n, m_qbase = q_base, dev_list = [],
                                  free_list = [\<lparr>qbase = q_base, total_q = n\<rparr>], active_qcnt = 0\<rparr>],
                              res_index = index + 1, rm_mem = mem2\<rparr>))))"

definition qdma_master_resource_destroy :: "u32 \<Rightarrow> rm_state \<Rightarrow> rm_state" where
  "qdma_master_resource_destroy idx s =
     (case qdma_get_master_resource_entry s idx of
        None \<Rightarrow> s
      | Some m \<Rightarrow>
          if dev_list m \<noteq> [] then s
          else s\<lparr>master_resource_list :=
                   delete_first (\<lambda>m. dma_device_index m = idx) (master_resource_list s)\<rparr>)"

subsection \<open>Devices\<close>

definition qdma_dev_entry_create :: "u32 \<Rightarrow> u16 \<Rightarrow> rm_state \<Rightarrow> int \<times> rm_state" where
  "qdma_dev_entry_create idx f s =
     (case qdma_get_master_resource_entry s idx of
        None \<Rightarrow> (neg_err QDMA_ERR_RM_RES_NOT_EXISTS, s)
      | Some m \<Rightarrow>
          (case qdma_get_dev_entry s idx f of
             Some _ \<Rightarrow> (neg_err QDMA_ERR_RM_DEV_EXISTS, s)
           | None \<Rightarrow>
               (let (ok, mem') = qdma_calloc (rm_mem s); s' = s\<lparr>rm_mem := mem'\<rparr>
                in if \<not> ok then (neg_err QDMA_ERR_NO_MEM, s')
                   else (err_code QDMA_SUCCESS,
                         put_master idx (\<lambda>m. m\<lparr>dev_list := dev_list m @
                           [\<lparr>func_id = f, active_h2c_qcnt = 0, active_c2h_qcnt = 0, active_cmpt_qcnt = 0,
                             entry = \<lparr>qbase = - 1, total_q = 0\<rparr>\<rparr>]\<rparr>) s'))))"

definition qdma_dev_entry_destroy :: "u32 \<Rightarrow> u16 \<Rightarrow> rm_state \<Rightarrow> rm_state" where
  "qdma_dev_entry_destroy idx f s =
     (case qdma_get_master_resource_entry s idx of
        None \<Rightarrow> s
      | Some m \<Rightarrow>
          (case qdma_get_dev_entry s idx f of
             None \<Rightarrow> s
           | Some d \<Rightarrow>
               (let (e', free', mem') = qdma_submit_to_free_list (entry d) (free_list m) (rm_mem s)
                in put_master idx
                     (\<lambda>m. m\<lparr>free_list := free',
                            dev_list := delete_first (\<lambda>d. func_id d = f) (dev_list m)\<rparr>)
                     (s\<lparr>rm_mem := mem'\<rparr>))))"

text \<open>
  \<open>qdma_dev_update\<close>: the status and the base the caller gets back in \<open>*qbase\<close> (left alone by the
  early returns).
\<close>

definition qdma_dev_update :: "u32 \<Rightarrow> u16 \<Rightarrow> u32 \<Rightarrow> c_int \<Rightarrow> rm_state \<Rightarrow> int \<times> c_int \<times> rm_state" where
  "qdma_dev_update idx f qmax qb s =
     (case qdma_get_master_resource_entry s idx of
        None \<Rightarrow> (neg_err QDMA_ERR_RM_RES_NOT_EXISTS, qb, s)
      | Some m \<Rightarrow>
          (case qdma_get_dev_entry s idx f of
             None \<Rightarrow> (neg_err QDMA_ERR_RM_DEV_NOT_EXISTS, qb, s)
           | Some d \<Rightarrow>
               if active_h2c_qcnt d \<noteq> 0 \<or> active_c2h_qcnt d \<noteq> 0 \<or> active_cmpt_qcnt d \<noteq> 0
               then (neg_err QDMA_ERR_RM_QMAX_CONF_REJECTED, qb, s)
               else (let (rv, e', free', mem') =
                           qdma_request_q_resource (entry d) qmax qb (free_list m) (rm_mem s)
                     in (rv, qbase e',
                         put_master idx (\<lambda>m. put_dev f (\<lambda>d. d\<lparr>entry := e'\<rparr>) (m\<lparr>free_list := free'\<rparr>))
                           (s\<lparr>rm_mem := mem'\<rparr>)))))"

text \<open>\<open>qdma_dev_qinfo_get\<close>: an error, or the base and the count it stores.\<close>

definition qdma_dev_qinfo_get :: "u32 \<Rightarrow> u16 \<Rightarrow> rm_state \<Rightarrow> int + (c_int \<times> u32)" where
  "qdma_dev_qinfo_get idx f s =
     (case qdma_get_master_resource_entry s idx of
        None \<Rightarrow> Inl (neg_err QDMA_ERR_RM_RES_NOT_EXISTS)
      | Some m \<Rightarrow>
          (case qdma_get_dev_entry s idx f of
             None \<Rightarrow> Inl (neg_err QDMA_ERR_RM_DEV_NOT_EXISTS)
           | Some d \<Rightarrow> Inr (qbase (entry d), total_q (entry d))))"

definition qdma_dev_is_queue_in_range :: "u32 \<Rightarrow> u16 \<Rightarrow> u32 \<Rightarrow> rm_state \<Rightarrow> qdma_dev_q_range" where
  "qdma_dev_is_queue_in_range idx f qid_hw s =
     (case qdma_get_master_resource_entry s idx of
        None \<Rightarrow> QDMA_DEV_Q_OUT_OF_RANGE
      | Some m \<Rightarrow>
          (case qdma_get_dev_entry s idx f of
             None \<Rightarrow> QDMA_DEV_Q_OUT_OF_RANGE
           | Some d \<Rightarrow>
               (let qmax = qbase (entry d) + total_q (entry d)
                in if total_q (entry d) \<noteq> 0 \<and> qid_hw < qmax \<and> qbase (entry d) \<le>s qid_hw
                   then QDMA_DEV_Q_IN_RANGE else QDMA_DEV_Q_OUT_OF_RANGE)))"

subsection \<open>Active queue counts\<close>

fun active_cnt :: "qdma_dev_q_type \<Rightarrow> dev_entry \<Rightarrow> u32" where
  "active_cnt QDMA_DEV_Q_TYPE_H2C d = active_h2c_qcnt d"
| "active_cnt QDMA_DEV_Q_TYPE_C2H d = active_c2h_qcnt d"
| "active_cnt QDMA_DEV_Q_TYPE_CMPT d = active_cmpt_qcnt d"
| "active_cnt QDMA_DEV_Q_TYPE_MAX d = 0"

fun set_active_cnt :: "qdma_dev_q_type \<Rightarrow> u32 \<Rightarrow> dev_entry \<Rightarrow> dev_entry" where
  "set_active_cnt QDMA_DEV_Q_TYPE_H2C n d = d\<lparr>active_h2c_qcnt := n\<rparr>"
| "set_active_cnt QDMA_DEV_Q_TYPE_C2H n d = d\<lparr>active_c2h_qcnt := n\<rparr>"
| "set_active_cnt QDMA_DEV_Q_TYPE_CMPT n d = d\<lparr>active_cmpt_qcnt := n\<rparr>"
| "set_active_cnt QDMA_DEV_Q_TYPE_MAX n d = d"

definition qdma_dev_increment_active_queue :: "u32 \<Rightarrow> u16 \<Rightarrow> qdma_dev_q_type \<Rightarrow> rm_state \<Rightarrow> int \<times> rm_state" where
  "qdma_dev_increment_active_queue idx f t s =
     (case qdma_get_master_resource_entry s idx of
        None \<Rightarrow> (neg_err QDMA_ERR_RM_RES_NOT_EXISTS, s)
      | Some m \<Rightarrow>
          (case qdma_get_dev_entry s idx f of
             None \<Rightarrow> (neg_err QDMA_ERR_RM_DEV_NOT_EXISTS, s)
           | Some d \<Rightarrow>
               if t = QDMA_DEV_Q_TYPE_MAX then (neg_err QDMA_ERR_RM_DEV_NOT_EXISTS, s)
               else if total_q (entry d) < active_cnt t d + 1 then (neg_err QDMA_ERR_RM_NO_QUEUES_LEFT, s)
               else (err_code QDMA_SUCCESS,
                     put_master idx (\<lambda>m. put_dev f (\<lambda>d. set_active_cnt t (active_cnt t d + 1) d)
                       (m\<lparr>active_qcnt := active_qcnt m + 1\<rparr>)) s)))"

definition qdma_dev_decrement_active_queue :: "u32 \<Rightarrow> u16 \<Rightarrow> qdma_dev_q_type \<Rightarrow> rm_state \<Rightarrow> int \<times> rm_state" where
  "qdma_dev_decrement_active_queue idx f t s =
     (case qdma_get_master_resource_entry s idx of
        None \<Rightarrow> (neg_err QDMA_ERR_RM_RES_NOT_EXISTS, s)
      | Some m \<Rightarrow>
          (case qdma_get_dev_entry s idx f of
             None \<Rightarrow> (neg_err QDMA_ERR_RM_DEV_NOT_EXISTS, s)
           | Some d \<Rightarrow>
               ((if t = QDMA_DEV_Q_TYPE_MAX then neg_err QDMA_ERR_RM_DEV_NOT_EXISTS else err_code QDMA_SUCCESS),
                put_master idx (\<lambda>m. put_dev f
                    (\<lambda>d. if active_cnt t d \<noteq> 0 then set_active_cnt t (active_cnt t d - 1) d else d)
                    (m\<lparr>active_qcnt := active_qcnt m - 1\<rparr>)) s)))"

definition qdma_get_active_queue_count :: "u32 \<Rightarrow> rm_state \<Rightarrow> u32" where
  "qdma_get_active_queue_count idx s =
     (case qdma_get_master_resource_entry s idx of None \<Rightarrow> 0 | Some m \<Rightarrow> active_qcnt m)"

definition qdma_get_device_active_queue_count :: "u32 \<Rightarrow> u16 \<Rightarrow> qdma_dev_q_type \<Rightarrow> rm_state \<Rightarrow> int" where
  "qdma_get_device_active_queue_count idx f t s =
     (case qdma_get_master_resource_entry s idx of
        None \<Rightarrow> neg_err QDMA_ERR_RM_RES_NOT_EXISTS
      | Some m \<Rightarrow>
          (case qdma_get_dev_entry s idx f of
             None \<Rightarrow> neg_err QDMA_ERR_RM_DEV_NOT_EXISTS
           | Some d \<Rightarrow> sint (active_cnt t d)))"


subsection \<open>The invariant\<close>

text \<open>The queues a function owns, and those of a master resource.\<close>

definition owned :: "rm_state \<Rightarrow> u32 \<Rightarrow> u16 \<Rightarrow> nat set" where
  "owned s idx f = (case qdma_get_dev_entry s idx f of None \<Rightarrow> {} | Some d \<Rightarrow> qs (entry d))"

definition master_qs :: "resource_master \<Rightarrow> nat set" where
  "master_qs m = {unat (m_qbase m) ..< unat (m_qbase m) + unat (m_total_q m)}"

definition dev_qs :: "resource_master \<Rightarrow> nat set" where
  "dev_qs m = (\<Union>d \<in> set (dev_list m). qs (entry d))"

text \<open>No count of active queues exceeds the number of queues held.\<close>

definition counts_ok :: "dev_entry \<Rightarrow> bool" where
  "counts_ok d \<longleftrightarrow> active_h2c_qcnt d \<le> total_q (entry d) \<and> active_c2h_qcnt d \<le> total_q (entry d) \<and>
     active_cmpt_qcnt d \<le> total_q (entry d)"

text \<open>
  The devices of a resource have different function ids, hold disjoint ranges that are disjoint from
  the free ones, and all of these lie in the range of the resource.
\<close>

definition devs_apart :: "dev_entry list \<Rightarrow> bool" where
  "devs_apart l \<longleftrightarrow> sorted_wrt (\<lambda>a b. func_id a \<noteq> func_id b \<and> qs (entry a) \<inter> qs (entry b) = {}) l"

definition master_ok :: "resource_master \<Rightarrow> bool" where
  "master_ok m \<longleftrightarrow> wf_free (free_list m) \<and> devs_apart (dev_list m) \<and>
     (\<forall>d \<in> set (dev_list m). dev_entry_ok (entry d) (free_list m) \<and> counts_ok d) \<and>
     dev_qs m \<union> free_qs (free_list m) \<subseteq> master_qs m"

definition rm_inv :: "rm_state \<Rightarrow> bool" where
  "rm_inv s \<longleftrightarrow> (\<forall>m \<in> set (master_resource_list s). master_ok m)"

text \<open>No queue is lost: each one of a resource is held by a device or free.\<close>

definition rm_full :: "rm_state \<Rightarrow> bool" where
  "rm_full s \<longleftrightarrow> (\<forall>m \<in> set (master_resource_list s). dev_qs m \<union> free_qs (free_list m) = master_qs m)"

lemma devs_apart_app [simp]:
  "devs_apart (pre @ d # post) \<longleftrightarrow>
     devs_apart (pre @ post) \<and> (\<forall>x \<in> set (pre @ post). func_id x \<noteq> func_id d \<and> qs (entry x) \<inter> qs (entry d) = {})"
  by (auto simp: devs_apart_def sorted_wrt_append; blast)

text \<open>Replacing a device's entry and the free list by ones that share out the same queues.\<close>

lemma master_ok_exchange:
  assumes "master_ok m" and l: "dev_list m = pre @ d # post"
    and d': "func_id d' = func_id d" "counts_ok d'" "dev_entry_ok (entry d') free'"
    and sub: "free_qs free' \<union> qs (entry d') \<subseteq> free_qs (free_list m) \<union> qs (entry d)"
  shows "master_ok (m\<lparr>dev_list := pre @ d' # post, free_list := free', active_qcnt := n\<rparr>)"
proof -
  have apart: "\<forall>x \<in> set (pre @ post). qs (entry x) \<inter> (free_qs free' \<union> qs (entry d')) = {}"
    using assms(1) sub unfolding master_ok_def l devs_apart_app dev_entry_ok_def by fastforce
  moreover have "wf_free free'" using d'(3) by (simp add: dev_entry_ok_def)
  ultimately have "\<forall>x \<in> set (pre @ post). dev_entry_ok (entry x) free' \<and> counts_ok x"
    using assms(1) unfolding master_ok_def l by (auto simp: dev_entry_ok_def Int_Un_distrib)
  moreover have "dev_qs (m\<lparr>dev_list := pre @ d' # post\<rparr>) \<union> free_qs free' \<subseteq> master_qs m"
    using assms(1) sub unfolding master_ok_def l dev_qs_def by auto
  ultimately show ?thesis
    using assms(1) d' apart \<open>wf_free free'\<close> unfolding master_ok_def l
    by (auto simp: dev_qs_def master_qs_def)
qed

lemma master_ok_remove:
  assumes "master_ok m" and l: "dev_list m = pre @ d # post"
    and "wf_free free'" and sub: "free_qs free' \<subseteq> free_qs (free_list m) \<union> qs (entry d)"
  shows "master_ok (m\<lparr>free_list := free', dev_list := pre @ post\<rparr>)"
proof -
  have "\<forall>x \<in> set (pre @ post). qs (entry x) \<inter> free_qs free' = {}"
    using assms(1) sub unfolding master_ok_def l devs_apart_app dev_entry_ok_def by fastforce
  then have "\<forall>x \<in> set (pre @ post). dev_entry_ok (entry x) free' \<and> counts_ok x"
    using assms(1,3) unfolding master_ok_def l by (auto simp: dev_entry_ok_def Int_Un_distrib)
  moreover have "dev_qs (m\<lparr>dev_list := pre @ post\<rparr>) \<union> free_qs free' \<subseteq> master_qs m"
    using assms(1) sub unfolding master_ok_def l dev_qs_def by auto
  ultimately show ?thesis
    using assms(1,3) unfolding master_ok_def l by (auto simp: dev_qs_def master_qs_def)
qed

subsection \<open>Lookups and changes\<close>

lemma put_master_all:
  assumes "\<forall>m \<in> set (master_resource_list s). I m" and "qdma_get_master_resource_entry s idx = Some m"
    and "I (g m)"
  shows "\<forall>m \<in> set (master_resource_list (put_master idx g s)). I m"
proof -
  have "find (\<lambda>m. dma_device_index m = idx) (master_resource_list s) = Some m"
    using assms(2) by (simp add: qdma_get_master_resource_entry_def)
  from this show ?thesis
    by (rule find_first_split) (use assms(1,3) in \<open>auto simp: put_master_def\<close>)
qed

lemma get_master_in:
  "qdma_get_master_resource_entry s idx = Some m \<Longrightarrow> m \<in> set (master_resource_list s)"
  by (auto simp: qdma_get_master_resource_entry_def dest: find_SomeD)

lemma get_dev_split:
  assumes "qdma_get_master_resource_entry s idx = Some m" and "qdma_get_dev_entry s idx f = Some d"
  obtains pre post where "dev_list m = pre @ d # post" and "func_id d = f"
    and "\<And>g n. put_dev f g n = n\<lparr>dev_list := update_first (\<lambda>d. func_id d = f) g (dev_list n)\<rparr>"
    and "\<And>g. update_first (\<lambda>d. func_id d = f) g (dev_list m) = pre @ g d # post"
    and "delete_first (\<lambda>d. func_id d = f) (dev_list m) = pre @ post"
proof -
  have "find (\<lambda>d. func_id d = f) (dev_list m) = Some d"
    using assms by (simp add: qdma_get_dev_entry_def)
  from this show thesis
  proof (rule find_first_split)
    fix pre post
    assume "dev_list m = pre @ d # post" "func_id d = f"
      "\<And>g. update_first (\<lambda>d. func_id d = f) g (dev_list m) = pre @ g d # post"
      "delete_first (\<lambda>d. func_id d = f) (dev_list m) = pre @ post"
    then show thesis by (intro that [of pre post]) (simp_all add: put_dev_def)
  qed
qed

lemma rm_inv_mem [simp]: "rm_inv (s\<lparr>rm_mem := mem\<rparr>) = rm_inv s" "rm_full (s\<lparr>rm_mem := mem\<rparr>) = rm_full s"
  "qdma_get_master_resource_entry (s\<lparr>rm_mem := mem\<rparr>) idx = qdma_get_master_resource_entry s idx"
  by (simp_all add: rm_inv_def rm_full_def qdma_get_master_resource_entry_def)


definition master_full :: "resource_master \<Rightarrow> bool" where
  "master_full m \<longleftrightarrow> dev_qs m \<union> free_qs (free_list m) = master_qs m"

lemma rm_full_alt: "rm_full s \<longleftrightarrow> (\<forall>m \<in> set (master_resource_list s). master_full m)"
  by (simp add: rm_full_def master_full_def)

lemma master_full_exchange:
  assumes "master_full m" and l: "dev_list m = pre @ d # post"
    and "free_qs free' \<union> qs (entry d') = free_qs (free_list m) \<union> qs (entry d)"
  shows "master_full (m\<lparr>dev_list := pre @ d' # post, free_list := free', active_qcnt := n\<rparr>)"
  using assms by (auto simp: master_full_def dev_qs_def master_qs_def)

lemma master_full_remove:
  assumes "master_full m" and l: "dev_list m = pre @ d # post"
    and "free_qs free' = free_qs (free_list m) \<union> qs (entry d)"
  shows "master_full (m\<lparr>free_list := free', dev_list := pre @ post\<rparr>)"
  using assms by (auto simp: master_full_def dev_qs_def master_qs_def)

subsection \<open>The operations keep the invariant\<close>

lemma new_master_ok:
  assumes "n \<noteq> 0" and "unat qb + unat n \<le> 2 ^ 31"
    and "m = \<lparr>dma_device_index = i, pci_bus_start = bs, pci_bus_end = be, m_total_q = n, m_qbase = qb,
      dev_list = [], free_list = [\<lparr>qbase = qb, total_q = n\<rparr>], active_qcnt = 0\<rparr>"
  shows "master_ok m" and "master_full m"
  using assms(1,2) unfolding assms(3)
  by (simp_all add: master_ok_def master_full_def devs_apart_def dev_qs_def master_qs_def qs_def lo_def
      hi_def wf_entry_def)

lemma qdma_master_resource_create_inv:
  assumes "rm_inv s" and "n \<noteq> 0" and "unat qb + unat n \<le> 2 ^ 31"
    and "qdma_master_resource_create bs be qb n s = (rv, i, s')"
  shows "rm_inv s'" and "rm_full s \<Longrightarrow> rm_full s'"
proof -
  consider "master_resource_list s' = master_resource_list s"
    | m where "master_resource_list s' = master_resource_list s @ [m]" "master_ok m" "master_full m"
    using assms(4) new_master_ok [OF assms(2,3)]
    by (fastforce simp: qdma_master_resource_create_def Let_def split: option.splits prod.splits if_splits)
  then have "rm_inv s' \<and> (rm_full s \<longrightarrow> rm_full s')"
    using assms(1) by cases (auto simp: rm_inv_def rm_full_alt)
  then show "rm_inv s'" "rm_full s \<Longrightarrow> rm_full s'" by auto
qed

lemma qdma_master_resource_destroy_inv:
  "rm_inv s \<Longrightarrow> rm_inv (qdma_master_resource_destroy idx s)"
  "rm_full s \<Longrightarrow> rm_full (qdma_master_resource_destroy idx s)"
  using set_delete_first [of "\<lambda>m. dma_device_index m = idx" "master_resource_list s"]
  by (auto simp: qdma_master_resource_destroy_def rm_inv_def rm_full_def split: option.splits)

lemma new_dev_ok:
  assumes "master_ok m" and "find (\<lambda>d. func_id d = f) (dev_list m) = None"
  shows "master_ok (m\<lparr>dev_list := dev_list m @
    [\<lparr>func_id = f, active_h2c_qcnt = 0, active_c2h_qcnt = 0, active_cmpt_qcnt = 0,
      entry = \<lparr>qbase = - 1, total_q = 0\<rparr>\<rparr>]\<rparr>)"
  using assms unfolding find_None_iff
  by (auto simp: master_ok_def devs_apart_def sorted_wrt_append counts_ok_def dev_entry_ok_def
      dev_qs_def master_qs_def)

lemma qdma_dev_entry_create_inv:
  assumes "rm_inv s" and "qdma_dev_entry_create idx f s = (rv, s')"
  shows "rm_inv s'" and "rm_full s \<Longrightarrow> rm_full s'"
proof -
  consider "rm_inv s' = rm_inv s" "rm_full s' = rm_full s"
    | m mem' where "qdma_get_master_resource_entry s idx = Some m" "qdma_get_dev_entry s idx f = None"
      "s' = put_master idx (\<lambda>m. m\<lparr>dev_list := dev_list m @
              [\<lparr>func_id = f, active_h2c_qcnt = 0, active_c2h_qcnt = 0, active_cmpt_qcnt = 0,
                entry = \<lparr>qbase = - 1, total_q = 0\<rparr>\<rparr>]\<rparr>) (s\<lparr>rm_mem := mem'\<rparr>)"
    using assms(2) by (auto simp: qdma_dev_entry_create_def Let_def split: option.splits prod.splits if_splits)
  then have "rm_inv s' \<and> (rm_full s \<longrightarrow> rm_full s')"
  proof cases
    case 2
    have "master_ok m" using assms(1) get_master_in [OF 2(1)] by (simp add: rm_inv_def)
    moreover have "find (\<lambda>d. func_id d = f) (dev_list m) = None"
      using 2(1,2) by (simp add: qdma_get_dev_entry_def)
    ultimately have ok: "rm_inv s'"
      unfolding 2(3) rm_inv_def
      by (intro put_master_all new_dev_ok) (use 2(1) assms(1) in \<open>auto simp: rm_inv_def\<close>)
    have "rm_full s'" if "rm_full s"
    proof -
      have "master_full m" using that get_master_in [OF 2(1)] by (simp add: rm_full_alt)
      then show ?thesis
        unfolding 2(3) rm_full_alt
        by (intro put_master_all)
          (use 2(1) that in \<open>auto simp: rm_full_alt master_full_def dev_qs_def master_qs_def\<close>)
    qed
    with ok show ?thesis by simp
  qed (use assms(1) in simp)
  then show "rm_inv s'" "rm_full s \<Longrightarrow> rm_full s'" by auto
qed

lemma qdma_dev_entry_destroy_inv:
  assumes "rm_inv s"
  shows "rm_inv (qdma_dev_entry_destroy idx f s)"
    and "rm_full s \<Longrightarrow> mem_ok (rm_mem s) \<Longrightarrow> rm_full (qdma_dev_entry_destroy idx f s)"
proof -
  let ?s' = "qdma_dev_entry_destroy idx f s"
  have "rm_inv ?s' \<and> (rm_full s \<and> mem_ok (rm_mem s) \<longrightarrow> rm_full ?s')"
  proof (cases "qdma_get_dev_entry s idx f")
    case None
    then show ?thesis
      using assms by (auto simp: qdma_dev_entry_destroy_def split: option.splits)
  next
    case (Some d)
    then obtain m where m: "qdma_get_master_resource_entry s idx = Some m"
      by (auto simp: qdma_get_dev_entry_def split: option.splits)
    obtain e' free' mem' where sub: "qdma_submit_to_free_list (entry d) (free_list m) (rm_mem s) = (e', free', mem')"
      by (metis prod_cases3)
    have s': "?s' = put_master idx (\<lambda>m. m\<lparr>free_list := free',
        dev_list := delete_first (\<lambda>d. func_id d = f) (dev_list m)\<rparr>) (s\<lparr>rm_mem := mem'\<rparr>)"
      by (simp add: qdma_dev_entry_destroy_def m Some sub)
    have ok: "master_ok m" using assms get_master_in [OF m] by (simp add: rm_inv_def)
    obtain pre post where l: "dev_list m = pre @ d # post"
      "delete_first (\<lambda>d. func_id d = f) (dev_list m) = pre @ post"
      using get_dev_split [OF m Some] by metis
    have e: "wf_free (free_list m)" "total_q (entry d) = 0 \<or> wf_entry (entry d)"
      "qs (entry d) \<inter> free_qs (free_list m) = {}"
      using ok l(1) by (auto simp: master_ok_def dev_entry_ok_def)
    note w = qdma_submit_wf [OF sub e]
    have 1: "rm_inv ?s'"
      unfolding s' rm_inv_def
      using master_ok_remove [OF ok l(1) w(1)] w(2) assms m
      by (intro put_master_all [where m = m]) (auto simp: rm_inv_def l(2))
    have 2: "rm_full ?s'" if "rm_full s" "mem_ok (rm_mem s)"
    proof -
      have "qs e' = {}" using qdma_submit_mem_ok [OF sub that(2)] by simp
      then have "free_qs free' = free_qs (free_list m) \<union> qs (entry d)" using w(2) by simp
      moreover have "master_full m" using that(1) get_master_in [OF m] by (simp add: rm_full_alt)
      ultimately show ?thesis
        unfolding s' rm_full_alt
        using master_full_remove [OF _ l(1)] that(1) m
        by (intro put_master_all [where m = m]) (auto simp: rm_full_alt l(2))
    qed
    from 1 2 show ?thesis by blast
  qed
  then show "rm_inv ?s'" "rm_full s \<Longrightarrow> mem_ok (rm_mem s) \<Longrightarrow> rm_full ?s'" by auto
qed


text \<open>The effect of an update on the manager, once the device is found.\<close>

lemma qdma_dev_update_cases:
  assumes "qdma_dev_update idx f qmax qb s = (rv, qb', s')"
  obtains (rejected) "s' = s" "qb' = qb"
      "rv \<in> {neg_err QDMA_ERR_RM_RES_NOT_EXISTS, neg_err QDMA_ERR_RM_DEV_NOT_EXISTS,
        neg_err QDMA_ERR_RM_QMAX_CONF_REJECTED}"
  | (requested) m d pre post e' free' mem' where
      "qdma_get_master_resource_entry s idx = Some m" "qdma_get_dev_entry s idx f = Some d"
      "dev_list m = pre @ d # post"
      "active_h2c_qcnt d = 0" "active_c2h_qcnt d = 0" "active_cmpt_qcnt d = 0"
      "qdma_request_q_resource (entry d) qmax qb (free_list m) (rm_mem s) = (rv, e', free', mem')"
      "qb' = qbase e'"
      "s' = put_master idx (\<lambda>m. put_dev f (\<lambda>d. d\<lparr>entry := e'\<rparr>) (m\<lparr>free_list := free'\<rparr>)) (s\<lparr>rm_mem := mem'\<rparr>)"
      "put_dev f (\<lambda>d. d\<lparr>entry := e'\<rparr>) (m\<lparr>free_list := free'\<rparr>) =
        m\<lparr>dev_list := pre @ d\<lparr>entry := e'\<rparr> # post, free_list := free', active_qcnt := active_qcnt m\<rparr>"
proof (cases "qdma_get_dev_entry s idx f")
  case None
  then show thesis using assms rejected
    by (auto simp: qdma_dev_update_def split: option.splits)
next
  case (Some d)
  then obtain m where m: "qdma_get_master_resource_entry s idx = Some m"
    by (auto simp: qdma_get_dev_entry_def split: option.splits)
  show thesis
  proof (cases "active_h2c_qcnt d \<noteq> 0 \<or> active_c2h_qcnt d \<noteq> 0 \<or> active_cmpt_qcnt d \<noteq> 0")
    case True
    then show thesis using assms Some m rejected by (auto simp: qdma_dev_update_def)
  next
    case False
    obtain pre post where l: "dev_list m = pre @ d # post"
      "\<And>g. update_first (\<lambda>d. func_id d = f) g (dev_list m) = pre @ g d # post"
      using get_dev_split [OF m Some] by metis
    obtain rv' e' free' mem' where
      r: "qdma_request_q_resource (entry d) qmax qb (free_list m) (rm_mem s) = (rv', e', free', mem')"
      by (metis prod_cases4)
    show thesis
      by (rule requested [OF m Some l(1)])
        (use False r assms m Some l in \<open>auto simp: qdma_dev_update_def put_dev_def\<close>)
  qed
qed

lemma qdma_dev_update_inv:
  assumes "rm_inv s" and "hint_ok qmax qb" and "qdma_dev_update idx f qmax qb s = (rv, qb', s')"
  shows "rm_inv s'" and "rm_full s \<Longrightarrow> mem_ok (rm_mem s) \<Longrightarrow> rm_full s'"
proof -
  have "rm_inv s' \<and> (rm_full s \<and> mem_ok (rm_mem s) \<longrightarrow> rm_full s')"
    using assms(3)
  proof (cases rule: qdma_dev_update_cases)
    case (requested m d pre post e' free' mem')
    have ok: "master_ok m" using assms(1) get_master_in [OF requested(1)] by (simp add: rm_inv_def)
    then have e: "dev_entry_ok (entry d) (free_list m)" using requested(3) by (auto simp: master_ok_def)
    note safe = request_safe [OF e assms(2) requested(7)]
    have "counts_ok (d\<lparr>entry := e'\<rparr>)" using requested(4-6) by (simp add: counts_ok_def)
    note mok = master_ok_exchange [OF ok requested(3) _ this, of free' "active_qcnt m", simplified, OF safe [simplified]]
    have 1: "rm_inv s'"
      unfolding requested(9) rm_inv_def
      by (intro put_master_all [where m = m])
        (use requested(1,10) mok assms(1) in \<open>auto simp: rm_inv_def\<close>)
    have 2: "rm_full s'" if "rm_full s" "mem_ok (rm_mem s)"
    proof -
      have "free_qs free' \<union> qs e' = free_qs (free_list m) \<union> qs (entry d)"
        using request_exact [OF e assms(2) that(2) requested(7)] by blast
      moreover have "master_full m" using that(1) get_master_in [OF requested(1)] by (simp add: rm_full_alt)
      ultimately have "master_full (m\<lparr>dev_list := pre @ d\<lparr>entry := e'\<rparr> # post, free_list := free', active_qcnt := active_qcnt m\<rparr>)"
        by (intro master_full_exchange [OF _ requested(3)]) simp_all
      then show ?thesis
        unfolding requested(9) rm_full_alt
        by (intro put_master_all [where m = m])
          (use requested(1,10) that in \<open>auto simp: rm_full_alt\<close>)
    qed
    from 1 2 show ?thesis by blast
  qed (use assms(1) in auto)
  then show "rm_inv s'" "rm_full s \<Longrightarrow> mem_ok (rm_mem s) \<Longrightarrow> rm_full s'" by auto
qed

text \<open>A change of a device's counts.\<close>

lemma put_dev_counts:
  assumes "qdma_get_master_resource_entry s idx = Some m" and "qdma_get_dev_entry s idx f = Some d"
    and "rm_inv s" and g: "func_id (g d) = func_id d" "entry (g d) = entry d" "counts_ok (g d)"
  shows "rm_inv (put_master idx (\<lambda>m. put_dev f g (m\<lparr>active_qcnt := k (active_qcnt m)\<rparr>)) s)"
    and "rm_full s \<Longrightarrow> rm_full (put_master idx (\<lambda>m. put_dev f g (m\<lparr>active_qcnt := k (active_qcnt m)\<rparr>)) s)"
proof -
  obtain pre post where l: "dev_list m = pre @ d # post"
    "\<And>g. update_first (\<lambda>d. func_id d = f) g (dev_list m) = pre @ g d # post"
    using get_dev_split [OF assms(1,2)] by metis
  have eq: "put_dev f g (m\<lparr>active_qcnt := k (active_qcnt m)\<rparr>) =
    m\<lparr>dev_list := pre @ g d # post, free_list := free_list m, active_qcnt := k (active_qcnt m)\<rparr>"
    by (simp add: put_dev_def l(2))
  have ok: "master_ok m" using assms(3) get_master_in [OF assms(1)] by (simp add: rm_inv_def)
  then have e: "dev_entry_ok (entry (g d)) (free_list m)" using l(1) g(2) by (auto simp: master_ok_def)
  have "master_ok (put_dev f g (m\<lparr>active_qcnt := k (active_qcnt m)\<rparr>))"
    unfolding eq by (rule master_ok_exchange [OF ok l(1) g(1,3) e]) (simp add: g(2))
  with assms(1,3) show "rm_inv (put_master idx (\<lambda>m. put_dev f g (m\<lparr>active_qcnt := k (active_qcnt m)\<rparr>)) s)"
    unfolding rm_inv_def by (intro put_master_all) auto
  assume full: "rm_full s"
  then have "master_full m" using get_master_in [OF assms(1)] by (simp add: rm_full_alt)
  then have "master_full (put_dev f g (m\<lparr>active_qcnt := k (active_qcnt m)\<rparr>))"
    unfolding eq by (rule master_full_exchange [OF _ l(1)]) (simp add: g(2))
  with assms(1) full show "rm_full (put_master idx (\<lambda>m. put_dev f g (m\<lparr>active_qcnt := k (active_qcnt m)\<rparr>)) s)"
    unfolding rm_full_alt by (intro put_master_all) auto
qed

lemma set_active_cnt_simps [simp]:
  "func_id (set_active_cnt t n d) = func_id d" "entry (set_active_cnt t n d) = entry d"
  by (cases t; simp)+

lemma set_active_cnt_ok:
  "counts_ok d \<Longrightarrow> n \<le> total_q (entry d) \<Longrightarrow> counts_ok (set_active_cnt t n d)"
  by (cases t) (auto simp: counts_ok_def)

lemma active_cnt_le: "counts_ok d \<Longrightarrow> active_cnt t d \<le> total_q (entry d)"
  by (cases t) (auto simp: counts_ok_def)

lemma get_dev_master:
  assumes "qdma_get_dev_entry s idx f = Some d"
  obtains m where "qdma_get_master_resource_entry s idx = Some m" and "d \<in> set (dev_list m)"
  using assms by (auto simp: qdma_get_dev_entry_def split: option.splits dest: find_SomeD)

lemma rm_inv_dev:
  assumes "rm_inv s" and "qdma_get_dev_entry s idx f = Some d"
  shows "counts_ok d" and "total_q (entry d) = 0 \<or> wf_entry (entry d)"
proof -
  obtain m where m: "qdma_get_master_resource_entry s idx = Some m" "d \<in> set (dev_list m)"
    using assms(2) by (rule get_dev_master)
  with assms(1) get_master_in [OF m(1)] show "counts_ok d" "total_q (entry d) = 0 \<or> wf_entry (entry d)"
    by (auto simp: rm_inv_def master_ok_def dev_entry_ok_def)
qed

lemma qdma_dev_increment_inv:
  assumes "rm_inv s" and "qdma_dev_increment_active_queue idx f t s = (rv, s')"
  shows "rm_inv s'" and "rm_full s \<Longrightarrow> rm_full s'"
proof -
  consider "s' = s"
    | m d where "qdma_get_master_resource_entry s idx = Some m" "qdma_get_dev_entry s idx f = Some d"
      "\<not> total_q (entry d) < active_cnt t d + 1"
      "s' = put_master idx (\<lambda>m. put_dev f (\<lambda>d. set_active_cnt t (active_cnt t d + 1) d)
                       (m\<lparr>active_qcnt := active_qcnt m + 1\<rparr>)) s"
    using assms(2) by (auto simp: qdma_dev_increment_active_queue_def split: option.splits if_splits)
  then have "rm_inv s' \<and> (rm_full s \<longrightarrow> rm_full s')"
  proof cases
    case 2
    have "counts_ok (set_active_cnt t (active_cnt t d + 1) d)"
      using rm_inv_dev(1) [OF assms(1) 2(2)] 2(3) by (intro set_active_cnt_ok) auto
    then show ?thesis
      unfolding 2(4)
      using put_dev_counts [OF 2(1,2) assms(1), where g = "\<lambda>d. set_active_cnt t (active_cnt t d + 1) d"
          and k = "\<lambda>n. n + 1"] by simp
  qed (use assms(1) in simp)
  then show "rm_inv s'" "rm_full s \<Longrightarrow> rm_full s'" by auto
qed

lemma qdma_dev_decrement_inv:
  assumes "rm_inv s" and "qdma_dev_decrement_active_queue idx f t s = (rv, s')"
  shows "rm_inv s'" and "rm_full s \<Longrightarrow> rm_full s'"
proof -
  let ?g = "\<lambda>d. if active_cnt t d \<noteq> 0 then set_active_cnt t (active_cnt t d - 1) d else d"
  consider "s' = s"
    | m d where "qdma_get_master_resource_entry s idx = Some m" "qdma_get_dev_entry s idx f = Some d"
      "s' = put_master idx (\<lambda>m. put_dev f ?g (m\<lparr>active_qcnt := active_qcnt m - 1\<rparr>)) s"
    using assms(2) by (auto simp: qdma_dev_decrement_active_queue_def split: option.splits if_splits)
  then have "rm_inv s' \<and> (rm_full s \<longrightarrow> rm_full s')"
  proof cases
    case 2
    note c = rm_inv_dev(1) [OF assms(1) 2(2)]
    have "active_cnt t d - 1 \<le> total_q (entry d)" if "active_cnt t d \<noteq> 0"
      using active_cnt_le [OF c, of t] that by (simp add: word_le_nat_alt unat_minus_one)
    then have "counts_ok (?g d)" using c by (auto intro: set_active_cnt_ok)
    then show ?thesis
      unfolding 2(3)
      using put_dev_counts [OF 2(1,2) assms(1), where g = ?g and k = "\<lambda>n. n - 1"] by simp
  qed (use assms(1) in simp)
  then show "rm_inv s'" "rm_full s \<Longrightarrow> rm_full s'" by auto
qed


subsection \<open>Who owns what after an operation\<close>

lemma find_update_first_key:
  assumes "\<And>x. key (h x) = key x"
  shows "find (\<lambda>x. key x = j) (update_first (\<lambda>x. key x = i) h xs) =
    (if j = i then map_option h (find (\<lambda>x. key x = i) xs) else find (\<lambda>x. key x = j) xs)"
  using assms by (induction xs) auto

lemma get_master_put:
  assumes "\<And>m. dma_device_index (k m) = dma_device_index m"
  shows "qdma_get_master_resource_entry (put_master idx k s) j =
    (if j = idx then map_option k (qdma_get_master_resource_entry s idx) else qdma_get_master_resource_entry s j)"
  using find_update_first_key [of dma_device_index k, OF assms]
  by (simp add: qdma_get_master_resource_entry_def put_master_def)

lemma put_dev_index [simp]: "dma_device_index (put_dev f h m) = dma_device_index m"
  by (simp add: put_dev_def)

lemma get_dev_put:
  assumes "\<And>d. func_id (h d) = func_id d" and "\<And>m. dma_device_index (k m) = dma_device_index m"
    and "\<And>m. dev_list (k m) = dev_list m"
  shows "qdma_get_dev_entry (put_master idx (\<lambda>m. put_dev f h (k m)) s) j g =
    (if j = idx \<and> g = f then map_option h (qdma_get_dev_entry s idx f) else qdma_get_dev_entry s j g)"
  using find_update_first_key [of func_id h, OF assms(1)] assms(2,3)
  by (auto simp: qdma_get_dev_entry_def get_master_put put_dev_def split: option.splits)

lemma get_dev_mem [simp]:
  "qdma_get_dev_entry (s\<lparr>rm_mem := mem\<rparr>) idx f = qdma_get_dev_entry s idx f"
  by (simp add: qdma_get_dev_entry_def qdma_get_master_resource_entry_def)

lemma qdma_dev_update_frame:
  assumes "qdma_dev_update idx f qmax qb s = (rv, qb', s')" and "(j, g) \<noteq> (idx, f)"
  shows "qdma_get_dev_entry s' j g = qdma_get_dev_entry s j g"
  using assms(1)
proof (cases rule: qdma_dev_update_cases)
  case (requested m d pre post e' free' mem')
  have "\<not> (j = idx \<and> g = f)" using assms(2) by simp
  then show ?thesis by (simp only: requested(9) get_dev_mem, subst get_dev_put) auto
qed simp

lemma owned_disjoint:
  assumes "rm_inv s" and "f \<noteq> g"
  shows "owned s idx f \<inter> owned s idx g = {}"
proof (cases "qdma_get_dev_entry s idx f = None \<or> qdma_get_dev_entry s idx g = None")
  case False
  then obtain d e where d: "qdma_get_dev_entry s idx f = Some d" and e: "qdma_get_dev_entry s idx g = Some e"
    by auto
  obtain m where m: "qdma_get_master_resource_entry s idx = Some m" using d by (rule get_dev_master)
  obtain pre post where l: "dev_list m = pre @ d # post" "func_id d = f"
    using get_dev_split [OF m d] by metis
  have "e \<in> set (dev_list m)" "func_id e = g"
    using e m by (auto simp: qdma_get_dev_entry_def dest: find_SomeD)
  then have "e \<in> set (pre @ post)" using l assms(2) by auto
  moreover have "devs_apart (pre @ d # post)"
  proof -
    have "master_ok m" using assms(1) get_master_in [OF m] by (simp add: rm_inv_def)
    then show ?thesis using l(1) by (simp only: master_ok_def)
  qed
  ultimately have "qs (entry e) \<inter> qs (entry d) = {}" by simp
  with d e show ?thesis by (auto simp: owned_def)
qed (auto simp: owned_def)

text \<open>The range check of the C code decides exactly the ownership of a queue.\<close>

lemma entry_range_iff:
  assumes "total_q e = 0 \<or> wf_entry e"
  shows "total_q e \<noteq> 0 \<and> q < qbase e + total_q e \<and> qbase e \<le>s q \<longleftrightarrow> unat q \<in> qs e"
proof (cases "total_q e = 0")
  case False
  then have w: "wf_entry e" using assms by simp
  note b = wf_entry_bounds [OF w]
  have lt: "q < qbase e + total_q e \<longleftrightarrow> unat q < hi e" by (simp add: word_less_nat_alt b(4))
  show ?thesis
  proof (cases "unat q < hi e")
    case True
    then have "sint q = int (unat q)" using b(2) by (intro sint_eq_unat) linarith
    then have "qbase e \<le>s q \<longleftrightarrow> lo e \<le> unat q" by (simp only: word_sle_eq b(5) of_nat_le_iff)
    with False lt True show ?thesis by (simp add: qs_def)
  next
    case F: False
    with False lt show ?thesis by (simp add: qs_def)
  qed
qed simp

lemma in_range_owned:
  assumes "rm_inv s"
  shows "qdma_dev_is_queue_in_range idx f q s = QDMA_DEV_Q_IN_RANGE \<longleftrightarrow> unat q \<in> owned s idx f"
proof (cases "qdma_get_dev_entry s idx f")
  case None
  then show ?thesis by (auto simp: qdma_dev_is_queue_in_range_def owned_def split: option.splits)
next
  case (Some d)
  obtain m where m: "qdma_get_master_resource_entry s idx = Some m" using Some by (rule get_dev_master)
  note w = entry_range_iff [OF rm_inv_dev(2) [OF assms Some], of q]
  have "qdma_dev_is_queue_in_range idx f q s = QDMA_DEV_Q_IN_RANGE \<longleftrightarrow>
      total_q (entry d) \<noteq> 0 \<and> q < qbase (entry d) + total_q (entry d) \<and> qbase (entry d) \<le>s q"
    by (simp add: qdma_dev_is_queue_in_range_def m Some Let_def)
  then show ?thesis unfolding w by (simp add: owned_def Some)
qed

subsection \<open>Runs of the manager\<close>

datatype rm_op =
    RM_Create u32 u32 c_int u32
  | RM_Destroy u32
  | RM_Dev_Create u32 u16
  | RM_Dev_Destroy u32 u16
  | RM_Dev_Update u32 u16 u32 c_int
  | RM_Increment u32 u16 qdma_dev_q_type
  | RM_Decrement u32 u16 qdma_dev_q_type

fun rm_exec :: "rm_op \<Rightarrow> rm_state \<Rightarrow> rm_state" where
  "rm_exec (RM_Create bs be qb n) s = snd (snd (qdma_master_resource_create bs be qb n s))"
| "rm_exec (RM_Destroy idx) s = qdma_master_resource_destroy idx s"
| "rm_exec (RM_Dev_Create idx f) s = snd (qdma_dev_entry_create idx f s)"
| "rm_exec (RM_Dev_Destroy idx f) s = qdma_dev_entry_destroy idx f s"
| "rm_exec (RM_Dev_Update idx f qmax qb) s = snd (snd (qdma_dev_update idx f qmax qb s))"
| "rm_exec (RM_Increment idx f t) s = snd (qdma_dev_increment_active_queue idx f t s)"
| "rm_exec (RM_Decrement idx f t) s = snd (qdma_dev_decrement_active_queue idx f t s)"

text \<open>
  What the callers have to respect: a resource has queues and they are numbered with nonnegative
  ints; the range asked for does not wrap in 32 bits.
\<close>

fun rm_op_ok :: "rm_op \<Rightarrow> bool" where
  "rm_op_ok (RM_Create bs be qb n) \<longleftrightarrow> n \<noteq> 0 \<and> unat qb + unat n \<le> 2 ^ 31"
| "rm_op_ok (RM_Dev_Update idx f qmax qb) \<longleftrightarrow> hint_ok qmax qb"
| "rm_op_ok _ \<longleftrightarrow> True"

definition rm_init :: "mem_oracle \<Rightarrow> rm_state" where
  "rm_init mem = \<lparr>master_resource_list = [], res_index = 0, rm_mem = mem\<rparr>"

inductive rm_reachable :: "mem_oracle \<Rightarrow> rm_state \<Rightarrow> bool" for mem where
  init: "rm_reachable mem (rm_init mem)"
| step: "rm_reachable mem s \<Longrightarrow> rm_op_ok op \<Longrightarrow> rm_reachable mem (rm_exec op s)"

definition rm_run :: "rm_op list \<Rightarrow> rm_state \<Rightarrow> rm_state" where
  "rm_run ops s = fold rm_exec ops s"

lemma rm_exec_inv: "rm_inv s \<Longrightarrow> rm_op_ok op \<Longrightarrow> rm_inv (rm_exec op s)"
proof (cases op)
  case (RM_Create bs be qb n)
  assume "rm_inv s" "rm_op_ok op"
  then show ?thesis
    using RM_Create qdma_master_resource_create_inv(1) [of s n qb bs be]
    by (cases "qdma_master_resource_create bs be qb n s") auto
next
  case (RM_Dev_Update idx f qmax qb)
  assume "rm_inv s" "rm_op_ok op"
  then show ?thesis
    using RM_Dev_Update qdma_dev_update_inv(1) [of s qmax qb idx f]
    by (cases "qdma_dev_update idx f qmax qb s") auto
qed (auto intro: qdma_master_resource_destroy_inv qdma_dev_entry_create_inv qdma_dev_entry_destroy_inv
    qdma_dev_increment_inv qdma_dev_decrement_inv simp: prod_eq_iff)

lemma qdma_request_mem_ok:
  assumes "mem_ok mem" and "qdma_request_q_resource e n b free mem = (rv, e', free', mem')"
  shows "mem_ok mem'"
proof -
  obtain e1 free1 mem1 where s: "qdma_submit_to_free_list e free mem = (e1, free1, mem1)"
    by (metis prod_cases3)
  note m1 = qdma_submit_mem_ok(1) [OF s assms(1)]
  obtain r2 mem2 where 2: "qdma_get_resource_node n b free1 mem1 = (r2, mem2)" by fastforce
  note m2 = qdma_get_resource_node_mem_ok [OF 2 m1]
  obtain r3 mem3 where 3: "qdma_get_resource_node (total_q e) (qbase e) (projl r2) mem2 = (r3, mem3)" by fastforce
  note m3 = qdma_get_resource_node_mem_ok [OF 3 m2]
  have "mem' \<in> {mem1, mem2, mem3}"
    using assms(2) s 2 3 by (auto simp: qdma_request_q_resource_def split: if_splits sum.splits)
  with m1 m2 m3 show ?thesis by blast
qed

lemma put_master_mem [simp]: "rm_mem (put_master idx k s) = rm_mem s"
  by (simp add: put_master_def)

lemma rm_exec_mem_ok: "mem_ok (rm_mem s) \<Longrightarrow> mem_ok (rm_mem (rm_exec op s))"
proof -
  assume ok: "mem_ok (rm_mem s)"
  show ?thesis
  proof (cases op)
    case (RM_Create bs be qb n)
    obtain m1 where 1: "qdma_calloc (rm_mem s) = (True, m1)" "mem_ok m1" using ok by (rule qdma_calloc_ok)
    obtain m2 where 2: "qdma_calloc m1 = (True, m2)" "mem_ok m2" using 1(2) by (rule qdma_calloc_ok)
    show ?thesis using ok RM_Create 1 2 by (auto simp: qdma_master_resource_create_def Let_def split: option.splits)
  next
    case (RM_Dev_Create idx f)
    obtain m1 where 1: "qdma_calloc (rm_mem s) = (True, m1)" "mem_ok m1" using ok by (rule qdma_calloc_ok)
    show ?thesis using ok RM_Dev_Create 1 by (auto simp: qdma_dev_entry_create_def Let_def split: option.splits)
  next
    case (RM_Dev_Update idx f qmax qb)
    obtain rv qb' s' where r: "qdma_dev_update idx f qmax qb s = (rv, qb', s')" by (metis prod_cases3)
    then have "mem_ok (rm_mem s')"
    proof (cases rule: qdma_dev_update_cases)
      case (requested m d pre post e' free' mem')
      with qdma_request_mem_ok [OF ok requested(7)] show ?thesis by simp
    qed (use ok in simp)
    then show ?thesis using RM_Dev_Update r by simp
  qed (use ok in \<open>auto simp: qdma_master_resource_destroy_def qdma_dev_entry_destroy_def
      qdma_dev_increment_active_queue_def qdma_dev_decrement_active_queue_def
      split: option.splits prod.splits dest: qdma_submit_mem_ok(1)\<close>)
qed

lemma rm_exec_full:
  assumes "rm_inv s" and "rm_full s" and "mem_ok (rm_mem s)" and "rm_op_ok op"
  shows "rm_full (rm_exec op s)"
proof (cases op)
  case (RM_Create bs be qb n)
  then show ?thesis
    using assms qdma_master_resource_create_inv(2) [of s n qb bs be]
    by (cases "qdma_master_resource_create bs be qb n s") simp
next
  case (RM_Dev_Update idx f qmax qb)
  then show ?thesis
    using assms qdma_dev_update_inv(2) [of s qmax qb idx f]
    by (cases "qdma_dev_update idx f qmax qb s") simp
next
  case (RM_Dev_Create idx f)
  then show ?thesis
    using assms qdma_dev_entry_create_inv(2) [of s idx f]
    by (cases "qdma_dev_entry_create idx f s") simp
next
  case (RM_Increment idx f t)
  then show ?thesis
    using assms qdma_dev_increment_inv(2) [of s idx f t]
    by (cases "qdma_dev_increment_active_queue idx f t s") simp
next
  case (RM_Decrement idx f t)
  then show ?thesis
    using assms qdma_dev_decrement_inv(2) [of s idx f t]
    by (cases "qdma_dev_decrement_active_queue idx f t s") simp
qed (use assms qdma_master_resource_destroy_inv(2) qdma_dev_entry_destroy_inv(2) in simp_all)


subsection \<open>What the manager promises its callers\<close>

text \<open>
  The mailbox and the netlink handlers see the manager only through its operations. The interface
  they rely on: operations they are allowed to issue keep the invariant, and while it holds two
  functions of a device never own a queue together.
\<close>

locale queue_owners =
  fixes exec :: "'op \<Rightarrow> 's \<Rightarrow> 's"
    and allowed :: "'op \<Rightarrow> bool"
    and inv :: "'s \<Rightarrow> bool"
    and owns :: "'s \<Rightarrow> 'dev \<Rightarrow> 'fn \<Rightarrow> nat set"
  assumes exec_inv: "inv s \<Longrightarrow> allowed op \<Longrightarrow> inv (exec op s)"
    and owns_disjoint: "inv s \<Longrightarrow> f \<noteq> g \<Longrightarrow> owns s i f \<inter> owns s i g = {}"
begin

lemma runs_inv: "inv s \<Longrightarrow> list_all allowed ops \<Longrightarrow> inv (fold exec ops s)"
  by (induction ops arbitrary: s) (auto intro: exec_inv)

lemma one_owner:
  "inv s \<Longrightarrow> list_all allowed ops \<Longrightarrow> q \<in> owns (fold exec ops s) i f \<Longrightarrow> q \<in> owns (fold exec ops s) i g \<Longrightarrow> f = g"
  using owns_disjoint [OF runs_inv] by blast

end

text \<open>A manager that has memory loses nothing: what is not owned is free.\<close>

locale queue_partition = queue_owners exec allowed inv owns
  for exec :: "'op \<Rightarrow> 's \<Rightarrow> 's" and allowed :: "'op \<Rightarrow> bool" and inv :: "'s \<Rightarrow> bool"
    and owns :: "'s \<Rightarrow> 'dev \<Rightarrow> 'fn \<Rightarrow> nat set" +
  fixes memory :: "'s \<Rightarrow> bool" and full :: "'s \<Rightarrow> bool"
  assumes exec_memory: "memory s \<Longrightarrow> memory (exec op s)"
    and exec_full: "inv s \<Longrightarrow> full s \<Longrightarrow> memory s \<Longrightarrow> allowed op \<Longrightarrow> full (exec op s)"
begin

lemma runs_full:
  "inv s \<Longrightarrow> full s \<Longrightarrow> memory s \<Longrightarrow> list_all allowed ops \<Longrightarrow>
     full (fold exec ops s) \<and> memory (fold exec ops s)"
  by (induction ops arbitrary: s) (auto intro: exec_full exec_inv exec_memory)

end

interpretation rm: queue_partition rm_exec rm_op_ok rm_inv owned "\<lambda>s. mem_ok (rm_mem s)" rm_full
  by unfold_locales (use rm_exec_inv owned_disjoint rm_exec_mem_ok rm_exec_full in blast)+

lemma rm_init_ok: "rm_inv (rm_init mem)" "rm_full (rm_init mem)"
  by (simp_all add: rm_inv_def rm_full_def rm_init_def)

lemma rm_reachable_run:
  "rm_reachable mem s \<longleftrightarrow> (\<exists>ops. list_all rm_op_ok ops \<and> s = rm_run ops (rm_init mem))"
proof
  show "rm_reachable mem s \<Longrightarrow> \<exists>ops. list_all rm_op_ok ops \<and> s = rm_run ops (rm_init mem)"
  proof (induction rule: rm_reachable.induct)
    case init
    show ?case by (intro exI [of _ "[]"]) (simp add: rm_run_def)
  next
    case (step s op)
    then obtain ops where "list_all rm_op_ok ops" "s = rm_run ops (rm_init mem)" by blast
    with step(2) show ?case by (intro exI [of _ "ops @ [op]"]) (simp add: rm_run_def)
  qed
next
  have "rm_reachable mem s \<Longrightarrow> list_all rm_op_ok ops \<Longrightarrow> rm_reachable mem (rm_run ops s)" for ops s
    by (induction ops arbitrary: s) (auto simp: rm_run_def intro: rm_reachable.step)
  then show "\<exists>ops. list_all rm_op_ok ops \<and> s = rm_run ops (rm_init mem) \<Longrightarrow> rm_reachable mem s"
    using rm_reachable.init by blast
qed

lemma rm_reachable_inv: "rm_reachable mem s \<Longrightarrow> rm_inv s"
  using rm.runs_inv [OF rm_init_ok(1)] by (auto simp: rm_reachable_run rm_run_def)

lemma rm_reachable_full: "rm_reachable mem s \<Longrightarrow> mem_ok mem \<Longrightarrow> rm_full s \<and> mem_ok (rm_mem s)"
  using rm.runs_full [OF rm_init_ok] by (auto simp: rm_reachable_run rm_run_def rm_init_def)

subsection \<open>Updates\<close>

definition free_of :: "rm_state \<Rightarrow> u32 \<Rightarrow> nat set" where
  "free_of s idx = (case qdma_get_master_resource_entry s idx of None \<Rightarrow> {} | Some m \<Rightarrow> free_qs (free_list m))"

lemma qdma_dev_update_entry:
  assumes "qdma_dev_update idx f qmax qb s = (rv, qb', s')"
    and d: "qdma_get_dev_entry s idx f = Some d" and idle: "active_h2c_qcnt d = 0" "active_c2h_qcnt d = 0" "active_cmpt_qcnt d = 0"
  obtains m e' free' mem' where "qdma_get_master_resource_entry s idx = Some m"
    "qdma_request_q_resource (entry d) qmax qb (free_list m) (rm_mem s) = (rv, e', free', mem')"
    "qdma_get_dev_entry s' idx f = Some (d\<lparr>entry := e'\<rparr>)" "qb' = qbase e'"
    "free_of s' idx = free_qs free'"
  using assms(1)
proof (cases rule: qdma_dev_update_cases)
  case rejected
  obtain m where m: "qdma_get_master_resource_entry s idx = Some m" using d by (rule get_dev_master)
  obtain r e' free' mem' where "qdma_request_q_resource (entry d) qmax qb (free_list m) (rm_mem s) = (r, e', free', mem')"
    by (metis prod_cases4)
  then have "rv = r" using assms(1) m d idle by (simp add: qdma_dev_update_def)
  have "rv \<in> {0, neg_err QDMA_ERR_RM_NO_QUEUES_LEFT}"
    using \<open>qdma_request_q_resource _ _ _ _ _ = _\<close> \<open>rv = r\<close>
    by (auto simp: qdma_request_q_resource_def split: prod.splits if_splits sum.splits)
  with rejected(3) show thesis by auto
next
  case (requested m d' pre post e' free' mem')
  then have "d' = d" using d by simp
  show thesis
  proof (rule that [OF requested(1)])
    show "qdma_request_q_resource (entry d) qmax qb (free_list m) (rm_mem s) = (rv, e', free', mem')"
      using requested(7) \<open>d' = d\<close> by simp
    show "qdma_get_dev_entry s' idx f = Some (d\<lparr>entry := e'\<rparr>)"
      by (simp only: requested(9), subst get_dev_put) (simp_all add: d)
    show "free_of s' idx = free_qs free'"
      using requested(1) by (simp add: requested(9) free_of_def get_master_put put_dev_def)
  qed (rule requested(8))
qed

lemma free_of_in_inv:
  assumes "rm_inv s" and "qdma_get_master_resource_entry s idx = Some m" and "qdma_get_dev_entry s idx f = Some d"
  shows "dev_entry_ok (entry d) (free_list m)"
  using assms(1) get_master_in [OF assms(2)] assms(2,3)
  by (auto simp: rm_inv_def master_ok_def qdma_get_dev_entry_def dest!: find_SomeD)

lemma dev_of_list:
  assumes "rm_inv s" and "qdma_get_master_resource_entry s idx = Some m" and "d \<in> set (dev_list m)"
  shows "qdma_get_dev_entry s idx (func_id d) = Some d"
proof -
  have "master_ok m" using assms(1) get_master_in [OF assms(2)] by (simp add: rm_inv_def)
  then have "sorted_wrt (\<lambda>a b. func_id a \<noteq> func_id b) (dev_list m)"
    unfolding master_ok_def devs_apart_def by (elim conjE sorted_wrt_mono_rel [rotated]) auto
  moreover have "sorted_wrt (\<lambda>a b. func_id a \<noteq> func_id b) l \<Longrightarrow> d \<in> set l \<Longrightarrow>
    find (\<lambda>e. func_id e = func_id d) l = Some d" for l
    by (induction l) auto
  ultimately have "find (\<lambda>e. func_id e = func_id d) (dev_list m) = Some d"
    using assms(3) by blast
  then show ?thesis by (simp add: qdma_get_dev_entry_def assms(2))
qed

lemma owned_or_free:
  assumes "rm_inv s" and "rm_full s" and "qdma_get_master_resource_entry s idx = Some m"
  shows "master_qs m = (\<Union>f. owned s idx f) \<union> free_of s idx" and "owned s idx f \<inter> free_of s idx = {}"
proof -
  have "dev_qs m \<union> free_qs (free_list m) = master_qs m"
    using assms(2) get_master_in [OF assms(3)] by (simp add: rm_full_def)
  moreover have "dev_qs m = (\<Union>f. owned s idx f)"
  proof (intro equalityI subsetI)
    fix q assume "q \<in> dev_qs m"
    then obtain d where "d \<in> set (dev_list m)" "q \<in> qs (entry d)" by (auto simp: dev_qs_def)
    with dev_of_list [OF assms(1,3)] show "q \<in> (\<Union>f. owned s idx f)"
      by (auto simp: owned_def intro!: exI [of _ "func_id d"])
  next
    fix q assume "q \<in> (\<Union>f. owned s idx f)"
    then obtain f d where "qdma_get_dev_entry s idx f = Some d" "q \<in> qs (entry d)"
      by (auto simp: owned_def split: option.splits)
    moreover from this(1) have "d \<in> set (dev_list m)"
      using assms(3) by (auto simp: qdma_get_dev_entry_def dest: find_SomeD)
    ultimately show "q \<in> dev_qs m" by (auto simp: dev_qs_def)
  qed
  ultimately show "master_qs m = (\<Union>f. owned s idx f) \<union> free_of s idx"
    using assms(3) by (simp add: free_of_def)
  show "owned s idx f \<inter> free_of s idx = {}"
    using free_of_in_inv [OF assms(1,3)] assms(3)
    by (auto simp: owned_def free_of_def dev_entry_ok_def split: option.splits)
qed


subsection \<open>Requests whose sum wraps\<close>

text \<open>The number of queues on a free list, each one counted as often as it is there.\<close>

definition free_size :: "res_entry list \<Rightarrow> nat" where
  "free_size l = (\<Sum>e\<leftarrow>l. unat (total_q e))"

lemma card_free_qs:
  assumes "sorted_wrt (\<lambda>a b. qs a \<inter> qs b = {}) l"
  shows "finite (free_qs l) \<and> card (free_qs l) = free_size l"
  using assms
proof (induction l)
  case (Cons e l)
  then have "qs e \<inter> free_qs l = {}" "finite (free_qs l)" by (auto simp: free_qs_def)
  moreover have "finite (qs e)" "card (qs e) = unat (total_q e)" by (simp_all add: qs_def lo_def hi_def)
  ultimately show ?case using Cons by (simp add: card_Un_disjoint free_size_def)
qed (simp add: free_size_def)

lemma wf_free_disjoint: "wf_free l \<Longrightarrow> sorted_wrt (\<lambda>a b. qs a \<inter> qs b = {}) l"
  unfolding wf_free_def by (auto simp: qs_def elim: sorted_wrt_mono_rel [rotated])

lemma wrapping_sum:
  assumes "2 ^ 32 \<le> unat (qb :: u32) + unat (qmax :: u32)"
  shows "unat (qb + qmax) = unat qb + unat qmax - 2 ^ 32"
proof -
  have "unat qb < 2 ^ 32" "unat qmax < 2 ^ 32" using unsigned_less [of qb] unsigned_less [of qmax] by simp_all
  then show ?thesis using assms by (simp add: unat_word_ariths mod_if)
qed

lemma take_wrapping:
  assumes "wf_entry n" and "mem_ok mem" and "0 \<le>s qb" and "2 ^ 32 \<le> unat qb + unat qmax"
    and "lo n \<le> unat qb" and "unat qb + unat qmax - 2 ^ 32 \<le> hi n"
  shows "\<exists>pre' n' post' mem'. fragment qmax qb (pre, n, post) mem = (Inr (pre', n', post'), mem') \<and>
    qbase n' = qb \<and> total_q n' = qmax \<and> free_size (pre @ n # post) < free_size (pre' @ post')"
proof -
  note w = wf_entry_bounds [OF assms(1)] and qb = nonneg_int [OF assms(3)]
  have mx: "unat qmax < 2 ^ 32" using unsigned_less [of qmax] by simp
  define W where "W = unat qb + unat qmax - 2 ^ 32"
  have W: "W < unat qb" "W \<le> hi n" using assms(4,6) mx by (simp_all add: W_def)
  have big: "unat (total_q n) < unat qmax" using w(2) assms(4) qb by (simp add: hi_def)
  have rest: "unat (qbase n + total_q n - (qb + qmax)) = hi n - W"
    using W(2) w(4) wrapping_sum [OF assms(4)] by (simp add: unat_sub word_le_nat_alt W_def)
  have head: "unat (qb - qbase n) = unat qb - lo n"
    using assms(5) by (simp add: unat_sub word_le_nat_alt lo_def)
  obtain m1 where 1: "qdma_free_entry_create (qbase n + qmax) (total_q n - qmax) mem =
      (Some \<lparr>qbase = qbase n + qmax, total_q = total_q n - qmax\<rparr>, m1)"
    using create_mem_ok_Some [OF assms(2)] by metis
  obtain m2 where 2: "qdma_free_entry_create (qbase n) (qb - qbase n) mem = (Some \<lparr>qbase = qbase n, total_q = qb - qbase n\<rparr>, m2)" "mem_ok m2"
    using create_mem_ok_Some [OF assms(2)] by metis
  obtain m3 where 3: "qdma_free_entry_create (qb + qmax) (total_q n - (qb - qbase n) - qmax) m2 =
      (Some \<lparr>qbase = qb + qmax, total_q = total_q n - (qb - qbase n) - qmax\<rparr>, m3)"
    using create_mem_ok_Some [OF 2(2)] by metis
  consider "qb = qbase n" | "qb \<noteq> qbase n" "qbase n <s qb" "qb + qmax = qbase n + total_q n"
    | "qb \<noteq> qbase n" "\<not> (qbase n <s qb \<and> qb + qmax = qbase n + total_q n)" by blast
  then show ?thesis
  proof cases
    case first: 1
    have "unat (total_q n - qmax) = hi n - W" using rest by (simp add: first)
    moreover have "qmax \<noteq> total_q n" using big by auto
    ultimately show ?thesis
      using first 1 W w(1) by (simp add: fragment_def Let_def free_size_def) (simp add: hi_def lo_def)
  next
    case second: 2
    have "hi n = W" using second(3) wrapping_sum [OF assms(4)] w(4) by (simp add: W_def)
    then show ?thesis
      using second 2(1) W head by (simp add: fragment_def Let_def free_size_def) (simp add: hi_def lo_def)
  next
    case third: 3
    have "total_q n - (qb - qbase n) - qmax = qbase n + total_q n - (qb + qmax)" by simp
    then have r: "unat (total_q n - (qb - qbase n) - qmax) = hi n - W" using rest by metis
    have f: "fragment qmax qb (pre, n, post) mem = (Inr (pre @ [\<lparr>qbase = qbase n, total_q = qb - qbase n\<rparr>], n\<lparr>qbase := qb, total_q := qmax\<rparr>,
        \<lparr>qbase = qb + qmax, total_q = total_q n - (qb - qbase n) - qmax\<rparr> # post), m3)"
      unfolding fragment_def prod.case Let_def 2(1) option.case res_entry.simps using third by (auto simp: 3)
    show ?thesis unfolding f
      by (intro exI conjI, rule refl)
        (use r head W assms(5) w(1) in \<open>simp_all add: free_size_def del: diff_diff_eq diff_diff_eq2\<close>, simp add: hi_def lo_def)
  qed
qed

lemma get_node_wrapping:
  assumes "wf_free free" and "mem_ok mem" and "0 \<le>s qb" and "2 ^ 32 \<le> unat qb + unat qmax"
  shows "if \<exists>n \<in> set free. lo n \<le> unat qb \<and> unat qb + unat qmax - 2 ^ 32 \<le> hi n
    then \<exists>pre n post mem'. qdma_get_resource_node qmax qb free mem = (Inr (pre, n, post), mem') \<and> qbase n = qb \<and> total_q n = qmax \<and>
      free_size free < free_size (pre @ post)
    else qdma_get_resource_node qmax qb free mem = (Inl free, mem)"
proof -
  have fits: "qbase n \<le>s qb \<and> qb + qmax \<le> qbase n + total_q n \<longleftrightarrow> lo n \<le> unat qb \<and> unat qb + unat qmax - 2 ^ 32 \<le> hi n"
    if "n \<in> set free" for n
  proof -
    note w = wf_entry_bounds [OF wf_freeD [OF assms(1) that]]
    have "sint qb = int (unat qb)" by (rule sint_eq_unat [OF nonneg_int [OF assms(3)]])
    then show ?thesis using w(4,5) wrapping_sum [OF assms(4)] by (simp only: word_sle_eq of_nat_le_iff word_le_nat_alt)
  qed
  show ?thesis
  proof (cases "find_hint qmax qb [] free")
    case None
    have "\<not> qmax \<le> total_q n" if "n \<in> set free" for n
      using wf_entry_bounds(2) [OF wf_freeD [OF assms(1) that]] assms(4) nonneg_int [OF assms(3)]
      by (simp add: word_le_nat_alt hi_def)
    then have "best_fit qmax None [] free = None"
      by (simp add: best_fit_None)
    moreover have "\<not> (\<exists>n \<in> set free. lo n \<le> unat qb \<and> unat qb + unat qmax - 2 ^ 32 \<le> hi n)"
      using None fits by (auto simp only: find_hint_None)
    ultimately show ?thesis using None by (simp add: qdma_get_resource_node_def)
  next
    case (Some p)
    obtain a n b where p: "p = (a, n, b)" by (cases p)
    note h = find_hint_Some [OF Some [unfolded p]]
    then have fit: "lo n \<le> unat qb" "unat qb + unat qmax - 2 ^ 32 \<le> hi n" using fits [OF h(2)] by auto
    from take_wrapping [OF wf_freeD [OF assms(1) h(2)] assms(2-4) this, of a b] h(1) show ?thesis
      using assms(3) Some p h(2) fit by (auto simp: qdma_get_resource_node_def)
  qed
qed

subsection \<open>A concrete run\<close>

text \<open>A board of 100 queues with two functions, of which one has ten queues.\<close>

definition demo_ops :: "rm_op list" where
  "demo_ops = [RM_Create 1 1 0 100, RM_Dev_Create 0 5, RM_Dev_Create 0 6, RM_Dev_Update 0 5 10 (- 1)]"

definition demo_state :: rm_state where
  "demo_state = rm_run demo_ops (rm_init [])"

definition demo_dev :: dev_entry where
  "demo_dev = \<lparr>func_id = 5, active_h2c_qcnt = 0, active_c2h_qcnt = 0, active_cmpt_qcnt = 0,
                entry = \<lparr>qbase = 0, total_q = 10\<rparr>\<rparr>"

lemma demo_state_eval:
  "demo_state = \<lparr>master_resource_list = [\<lparr>dma_device_index = 0, pci_bus_start = 1, pci_bus_end = 1,
     m_total_q = 100, m_qbase = 0,
     dev_list = [demo_dev,
                 \<lparr>func_id = 6, active_h2c_qcnt = 0, active_c2h_qcnt = 0, active_cmpt_qcnt = 0,
                   entry = \<lparr>qbase = - 1, total_q = 0\<rparr>\<rparr>],
     free_list = [\<lparr>qbase = 10, total_q = 90\<rparr>], active_qcnt = 0\<rparr>], res_index = 1, rm_mem = []\<rparr>"
  by code_simp

lemma demo_state_reachable: "rm_reachable [] demo_state"
  unfolding rm_reachable_run
  by (intro exI [of _ demo_ops]) (simp add: demo_state_def demo_ops_def hint_ok_def word_sle_eq)

lemma demo_state_facts:
  "rm_inv demo_state" "rm_mem demo_state = []" "qdma_get_dev_entry demo_state 0 5 = Some demo_dev"
  "owned demo_state 0 5 = {0..<10}" "free_of demo_state 0 = {10..<100}"
  using rm_reachable_inv [OF demo_state_reachable]
  by (simp_all add: demo_state_eval demo_dev_def qdma_get_dev_entry_def qdma_get_master_resource_entry_def
      owned_def free_of_def qs_def lo_def hi_def)

subsection \<open>Properties of the resource manager\<close>

text \<open>
  C1: whatever sequence of creations, removals, updates and count changes the callers issue, and whichever allocations
  fail on the way, the range check never admits one hardware queue for two functions of a device, as long as a device
  is created with at least one queue and its queues lie below \<open>2 ^ 31\<close>, and no update asks for a base
  that is not negative with a base and a count of \<open>2 ^ 32\<close> or more together (the code takes such a
  request too, and breaks what follows: C40).
\<close>

theorem rm_isolation:
  assumes "rm_reachable mem s" and "f \<noteq> g"
  shows "\<not> (qdma_dev_is_queue_in_range idx f q s = QDMA_DEV_Q_IN_RANGE \<and>
            qdma_dev_is_queue_in_range idx g q s = QDMA_DEV_Q_IN_RANGE)"
  using rm_reachable_inv [OF assms(1)] rm.owns_disjoint [OF _ assms(2)] in_range_owned by blast

theorem rm_isolation_witness:
  "qdma_dev_is_queue_in_range 0 5 7 demo_state = QDMA_DEV_Q_IN_RANGE \<and>
   qdma_dev_is_queue_in_range 0 6 7 demo_state \<noteq> QDMA_DEV_Q_IN_RANGE"
proof -
  have "qdma_dev_is_queue_in_range 0 5 7 demo_state = QDMA_DEV_Q_IN_RANGE" by code_simp
  moreover have "(5 :: u16) \<noteq> 6" by simp
  ultimately show ?thesis using rm_isolation [OF demo_state_reachable, of 5 6 0 7] by blast
qed

text \<open>
  C4: no queue of a device is lost while memory is available: each one is either free or passes the range check of
  some function, and not both. This holds after every sequence of operations in which a device is created with at
  least one queue and its queues lie below \<open>2 ^ 31\<close>, and no update asks for a base that is not negative
  with a base and a count of \<open>2 ^ 32\<close> or more together (the code takes such a request too, and breaks
  what follows: C40).
\<close>

theorem rm_no_leak:
  assumes "rm_reachable mem s" and "mem_ok mem"
    and "qdma_get_master_resource_entry s idx = Some m" and "unat q \<in> master_qs m"
  shows "(unat q \<in> free_of s idx) \<longleftrightarrow>
    \<not> (\<exists>f. qdma_dev_is_queue_in_range idx f q s = QDMA_DEV_Q_IN_RANGE)"
  using owned_or_free [OF rm_reachable_inv [OF assms(1)] _ assms(3)] rm_reachable_full [OF assms(1,2)]
    assms(4) in_range_owned [OF rm_reachable_inv [OF assms(1)]] by blast

theorem rm_no_leak_witness:
  "(unat (50 :: u32) \<in> free_of demo_state 0) \<longleftrightarrow>
    \<not> (\<exists>f. qdma_dev_is_queue_in_range 0 f 50 demo_state = QDMA_DEV_Q_IN_RANGE)"
proof (rule rm_no_leak [OF demo_state_reachable])
  show "qdma_get_master_resource_entry demo_state 0 = Some (hd (master_resource_list demo_state))"
    by (simp add: demo_state_eval qdma_get_master_resource_entry_def)
qed (simp_all add: demo_state_eval master_qs_def)

text \<open>
  C17: an update of an idle function, in a state that keeps the invariant, with memory available, and for a base that
  is negative (no wish) or adds up with the count to less than \<open>2 ^ 32\<close>, either gives the function
  exactly the number of queues asked for, starting at the base it reports and taken from what was free or its own, and
  the rest is free; or it answers that no queues are left and the function's queues and the free queues are what they
  were.
\<close>

theorem qdma_dev_update_outcome:
  assumes "rm_inv s" and "mem_ok (rm_mem s)" and "hint_ok qmax qb"
    and d: "qdma_get_dev_entry s idx f = Some d"
    and idle: "active_h2c_qcnt d = 0" "active_c2h_qcnt d = 0" "active_cmpt_qcnt d = 0"
    and r: "qdma_dev_update idx f qmax qb s = (rv, qb', s')"
  shows "rv = 0 \<and> owned s' idx f = {unat qb' ..< unat qb' + unat qmax} \<and>
      owned s' idx f \<subseteq> owned s idx f \<union> free_of s idx \<and>
      free_of s' idx = owned s idx f \<union> free_of s idx - owned s' idx f
    \<or> rv = neg_err QDMA_ERR_RM_NO_QUEUES_LEFT \<and> owned s' idx f = owned s idx f \<and> free_of s' idx = free_of s idx"
proof -
  obtain m e' free' mem' where m: "qdma_get_master_resource_entry s idx = Some m"
    and q: "qdma_request_q_resource (entry d) qmax qb (free_list m) (rm_mem s) = (rv, e', free', mem')"
    and d': "qdma_get_dev_entry s' idx f = Some (d\<lparr>entry := e'\<rparr>)" and f': "qb' = qbase e'" "free_of s' idx = free_qs free'"
    using qdma_dev_update_entry [OF r d idle] by metis
  note x = request_exact [OF free_of_in_inv [OF assms(1) m d] assms(3,2) q]
  have o: "owned s idx f = qs (entry d)" "owned s' idx f = qs e'" "free_of s idx = free_qs (free_list m)"
    using d d' m by (simp_all add: owned_def free_of_def)
  have "qs e' = {unat qb' ..< unat qb' + unat qmax}" if "total_q e' = qmax"
    using that by (simp add: qs_def lo_def hi_def f'(1))
  then show ?thesis using x unfolding o f'(2) by (auto simp only: Un_commute)
qed

theorem qdma_dev_update_outcome_witness:
  "\<exists>qb' s'. qdma_dev_update 0 5 20 (- 1) demo_state = (0, qb', s') \<and>
     owned s' 0 5 = {unat qb' ..< unat qb' + 20}"
proof -
  obtain rv qb' s' where r: "qdma_dev_update 0 5 20 (- 1) demo_state = (rv, qb', s')" by (metis prod_cases3)
  have "fst (qdma_dev_update 0 5 20 (- 1) demo_state) = 0" by code_simp
  with r have "rv = 0" by simp
  with qdma_dev_update_outcome [OF demo_state_facts(1) _ _ demo_state_facts(3) _ _ _ r] r show ?thesis
    by (auto simp: demo_state_facts(2) hint_ok_def word_sle_eq demo_dev_def)
qed

text \<open>
  C31: for an idle function that already holds queues, in a state that keeps the invariant, with memory available, and
  for at least one queue at a base that is negative (no wish) or adds up with the count to less than \<open>2 ^
  32\<close>, the search for a new range is complete and honours the caller's base. The function's own range is merged
  with its free neighbours first, so the request succeeds exactly when some run of free or own queues is long enough,
  and it is served at the base asked for whenever that range is free or the function's own.
\<close>

theorem qdma_dev_update_complete:
  assumes "rm_inv s" and "mem_ok (rm_mem s)" and "hint_ok qmax qb" and "qmax \<noteq> 0"
    and d: "qdma_get_dev_entry s idx f = Some d"
    and idle: "active_h2c_qcnt d = 0" "active_c2h_qcnt d = 0" "active_cmpt_qcnt d = 0"
    and holds: "total_q (entry d) \<noteq> 0"
    and r: "qdma_dev_update idx f qmax qb s = (rv, qb', s')"
  shows "(rv = 0 \<longleftrightarrow> (\<exists>b. {b ..< b + unat qmax} \<subseteq> owned s idx f \<union> free_of s idx)) \<and>
    (0 \<le>s qb \<and> {unat qb ..< unat qb + unat qmax} \<subseteq> owned s idx f \<union> free_of s idx \<longrightarrow> qb' = qb)"
proof -
  obtain m e' free' mem' where m: "qdma_get_master_resource_entry s idx = Some m"
    and q: "qdma_request_q_resource (entry d) qmax qb (free_list m) (rm_mem s) = (rv, e', free', mem')"
    and d': "qdma_get_dev_entry s' idx f = Some (d\<lparr>entry := e'\<rparr>)" and f': "qb' = qbase e'"
    using qdma_dev_update_entry [OF r d idle] by metis
  note ok = free_of_in_inv [OF assms(1) m d]
  define free1 where "free1 = fst (snd (qdma_submit_to_free_list (entry d) (free_list m) (rm_mem s)))"
  obtain e1 mem1 where s: "qdma_submit_to_free_list (entry d) (free_list m) (rm_mem s) = (e1, free1, mem1)"
    unfolding free1_def by (metis prod_cases3 fst_conv snd_conv)
  note w = qdma_submit_wf [OF s] and so = qdma_submit_mem_ok [OF s assms(2)]
  have c: "wf_free free1" "coalesced free1" "free_qs free1 = owned s idx f \<union> free_of s idx"
    using w ok so holds m d by (auto simp: dev_entry_ok_def owned_def free_of_def)
  note x = request_exact [OF ok assms(3,2) q, folded free1_def]
  have pos: "0 < unat qmax" using assms(4) by (simp add: unat_gt_0)
  note run = coalesced_run [OF c(1,2) _ pos, unfolded c(3)]
  have big: "qmax \<le> total_q n" if "lo n \<le> b" "b + unat qmax \<le> hi n" for n b
    using that by (simp add: word_le_nat_alt hi_def lo_def)
  have fit: "{lo n ..< lo n + unat qmax} \<subseteq> owned s idx f \<union> free_of s idx" if "n \<in> set free1" "qmax \<le> total_q n" for n
  proof -
    have "{lo n ..< lo n + unat qmax} \<subseteq> qs n" using that(2) by (auto simp: qs_def lo_def hi_def word_le_nat_alt)
    then show ?thesis using that(1) unfolding c(3) [symmetric] free_qs_def by blast
  qed
  have 1: "rv = 0 \<longleftrightarrow> (\<exists>b. {b ..< b + unat qmax} \<subseteq> owned s idx f \<union> free_of s idx)"
  proof -
    have rv: "rv = 0 \<longleftrightarrow> (\<exists>n \<in> set free1. qmax \<le> total_q n)" using x assms(4) by auto
    show ?thesis unfolding rv using fit run big by blast
  qed
  have 2: "qb' = qb" if "0 \<le>s qb" "{unat qb ..< unat qb + unat qmax} \<subseteq> owned s idx f \<union> free_of s idx"
    using x big run [OF that(2)] that(1) assms(4) unfolding f' by blast
  from 1 2 show ?thesis by blast
qed

theorem qdma_dev_update_complete_witness:
  "fst (qdma_dev_update 0 5 100 0 demo_state) = 0 \<and> fst (snd (qdma_dev_update 0 5 100 0 demo_state)) = 0"
proof -
  obtain rv qb' s' where r: "qdma_dev_update 0 5 100 0 demo_state = (rv, qb', s')" by (metis prod_cases3)
  have all: "{0 ..< 100 :: nat} \<subseteq> owned demo_state 0 5 \<union> free_of demo_state 0"
    by (auto simp: demo_state_facts(4,5))
  have "(rv = 0 \<longleftrightarrow> (\<exists>b. {b ..< b + unat (100 :: u32)} \<subseteq> owned demo_state 0 5 \<union> free_of demo_state 0)) \<and>
    (0 \<le>s (0 :: c_int) \<and> {unat (0 :: c_int) ..< unat (0 :: c_int) + unat (100 :: u32)} \<subseteq> owned demo_state 0 5 \<union> free_of demo_state 0 \<longrightarrow> qb' = 0)"
    by (rule qdma_dev_update_complete [OF demo_state_facts(1) _ _ _ demo_state_facts(3) _ _ _ _ r])
      (simp_all add: demo_state_facts(2) hint_ok_def demo_dev_def)
  moreover have "\<exists>b. {b ..< b + unat (100 :: u32)} \<subseteq> owned demo_state 0 5 \<union> free_of demo_state 0"
    using all by (intro exI [of _ 0]) simp
  ultimately show ?thesis using all unfolding r by simp
qed

text \<open>
  C34: an update, whatever its outcome, leaves every other function as it was; and it is refused
  without any effect while the function has active queues.
\<close>

theorem qdma_dev_update_others:
  assumes "qdma_dev_update idx f qmax qb s = (rv, qb', s')"
  shows "(\<forall>j g. (j, g) \<noteq> (idx, f) \<longrightarrow> qdma_get_dev_entry s' j g = qdma_get_dev_entry s j g) \<and>
    (\<forall>d t. qdma_get_dev_entry s idx f = Some d \<and> active_cnt t d \<noteq> 0 \<longrightarrow>
       rv = neg_err QDMA_ERR_RM_QMAX_CONF_REJECTED \<and> s' = s \<and> qb' = qb)"
proof -
  have "rv = neg_err QDMA_ERR_RM_QMAX_CONF_REJECTED \<and> s' = s \<and> qb' = qb"
    if d: "qdma_get_dev_entry s idx f = Some d" and a: "active_cnt t d \<noteq> 0" for d t
  proof -
    obtain m where m: "qdma_get_master_resource_entry s idx = Some m" using d by (rule get_dev_master)
    have "active_h2c_qcnt d \<noteq> 0 \<or> active_c2h_qcnt d \<noteq> 0 \<or> active_cmpt_qcnt d \<noteq> 0"
      using a by (cases t) auto
    then show ?thesis using assms m d by (simp add: qdma_dev_update_def)
  qed
  then show ?thesis using qdma_dev_update_frame [OF assms] by blast
qed

theorem qdma_dev_update_others_witness:
  "\<exists>rv qb' s'. qdma_dev_update 0 5 20 (- 1) demo_state = (rv, qb', s') \<and>
     qdma_get_dev_entry s' 0 6 = qdma_get_dev_entry demo_state 0 6"
proof -
  obtain rv qb' s' where r: "qdma_dev_update 0 5 20 (- 1) demo_state = (rv, qb', s')" by (metis prod_cases3)
  have "((0 :: u32), (6 :: u16)) \<noteq> (0, 5)" by simp
  then have "qdma_get_dev_entry s' 0 6 = qdma_get_dev_entry demo_state 0 6"
    using qdma_dev_update_others [OF r] by blast
  with r show ?thesis by blast
qed

text \<open>
  C35: the count of active queues of each kind stays within the number of queues the function holds,
  and a new queue is counted exactly when there is room for it.
\<close>

theorem rm_active_counts:
  assumes "rm_reachable mem s" and "qdma_dev_qinfo_get idx f s = Inr (b, n)" and "unat n < 2 ^ 31"
    and "t \<noteq> QDMA_DEV_Q_TYPE_MAX" and inc: "qdma_dev_increment_active_queue idx f t s = (rv, s')"
  defines "cnt \<equiv> qdma_get_device_active_queue_count idx f t"
  shows "0 \<le> cnt s \<and> cnt s \<le> int (unat n) \<and> (rv = 0 \<longleftrightarrow> cnt s < int (unat n)) \<and>
    cnt s' = (if rv = 0 then cnt s + 1 else cnt s)"
proof -
  obtain m d where m: "qdma_get_master_resource_entry s idx = Some m"
    and d: "qdma_get_dev_entry s idx f = Some d" and n: "n = total_q (entry d)"
    using assms(2) by (auto simp: qdma_dev_qinfo_get_def split: option.splits)
  note ok = rm_inv_dev(1) [OF rm_reachable_inv [OF assms(1)] d]
  let ?a = "active_cnt t d"
  have le: "unat ?a \<le> unat n" using active_cnt_le [OF ok] by (simp add: n word_le_nat_alt)
  have cnt: "cnt s = int (unat ?a)"
    using le assms(3) by (simp add: cnt_def qdma_get_device_active_queue_count_def m d sint_eq_unat)
  have u: "unat (?a + 1) = unat ?a + 1" using le assms(3) by (subst unat_plus) simp_all
  have full: "n < ?a + 1 \<longleftrightarrow> unat n \<le> unat ?a" by (simp add: word_less_nat_alt u less_Suc_eq_le)
  have i: "(rv, s') = (if unat n \<le> unat ?a then (neg_err QDMA_ERR_RM_NO_QUEUES_LEFT, s)
     else (0, put_master idx (\<lambda>m. put_dev f (\<lambda>d. set_active_cnt t (active_cnt t d + 1) d)
                       (m\<lparr>active_qcnt := active_qcnt m + 1\<rparr>)) s))"
    using inc assms(4) by (auto simp: qdma_dev_increment_active_queue_def m d full simp flip: n split: if_splits)
  have same: "active_cnt t (set_active_cnt t k d) = k" for k using assms(4) by (cases t) auto
  have "cnt s' = cnt s + 1" if "\<not> unat n \<le> unat ?a"
  proof -
    have s': "s' = put_master idx (\<lambda>m. put_dev f (\<lambda>d. set_active_cnt t (active_cnt t d + 1) d)
                       (m\<lparr>active_qcnt := active_qcnt m + 1\<rparr>)) s" using i that by simp
    have "qdma_get_dev_entry s' idx f = Some (set_active_cnt t (?a + 1) d)"
      unfolding s' by (subst get_dev_put) (simp_all add: d)
    moreover have "qdma_get_master_resource_entry s' idx \<noteq> None"
      unfolding s' by (subst get_master_put) (simp_all add: m)
    ultimately have "cnt s' = sint (?a + 1)"
      by (auto simp: cnt_def qdma_get_device_active_queue_count_def same)
    also have "\<dots> = int (unat (?a + 1))" using that assms(3) by (intro sint_eq_unat) (simp add: u)
    finally show ?thesis by (simp add: u cnt)
  qed
  with i le show ?thesis by (cases "unat n \<le> unat ?a") (auto simp: cnt simp del: of_nat_unat)
qed

theorem rm_active_counts_witness:
  "qdma_get_device_active_queue_count 0 5 QDMA_DEV_Q_TYPE_C2H
     (snd (qdma_dev_increment_active_queue 0 5 QDMA_DEV_Q_TYPE_C2H demo_state)) = 1"
proof -
  obtain rv s' where r: "qdma_dev_increment_active_queue 0 5 QDMA_DEV_Q_TYPE_C2H demo_state = (rv, s')" by fastforce
  have "qdma_dev_qinfo_get 0 5 demo_state = Inr (0, 10)" by code_simp
  from rm_active_counts [OF demo_state_reachable this _ _ r]
  have "qdma_get_device_active_queue_count 0 5 QDMA_DEV_Q_TYPE_C2H s' =
    (if qdma_get_device_active_queue_count 0 5 QDMA_DEV_Q_TYPE_C2H demo_state < 10
     then qdma_get_device_active_queue_count 0 5 QDMA_DEV_Q_TYPE_C2H demo_state + 1
     else qdma_get_device_active_queue_count 0 5 QDMA_DEV_Q_TYPE_C2H demo_state)"
    by (auto split: if_splits)
  moreover have "qdma_get_device_active_queue_count 0 5 QDMA_DEV_Q_TYPE_C2H demo_state = 0" by code_simp
  ultimately show ?thesis by (simp add: r)
qed

text \<open>
  C40: the bound on the caller's range is needed. Take any state that keeps the invariant, with memory available, an
  idle function without queues, and a request (a virtual function sends both values in a mailbox message) whose base
  is not negative and whose base and count add up to \<open>2 ^ 32\<close> or more. It is accepted exactly when some
  free range begins at or before the base and ends at or after the wrapped sum. Then the function is told that it has
  the range asked for, the range check admits none of the device's queues for it, and the free list is damaged: two of
  its ranges overlap, or it has a queue that was not free.
\<close>
theorem rm_wrapping_request_overfills:
  assumes "rm_inv s" and "mem_ok (rm_mem s)" and m: "qdma_get_master_resource_entry s idx = Some m"
    and d: "qdma_get_dev_entry s idx f = Some d" and none: "total_q (entry d) = 0"
    and idle: "active_h2c_qcnt d = 0" "active_c2h_qcnt d = 0" "active_cmpt_qcnt d = 0"
    and wraps: "0 \<le>s qb" "2 ^ 32 \<le> unat qb + unat qmax"
    and r: "qdma_dev_update idx f qmax qb s = (rv, qb', s')"
  shows "(rv = 0 \<longleftrightarrow> (\<exists>e \<in> set (free_list m). unat (qbase e) \<le> unat qb \<and>
      unat qb + unat qmax - 2 ^ 32 \<le> unat (qbase e) + unat (total_q e))) \<and>
    (rv = 0 \<longrightarrow> qb' = qb \<and> qdma_dev_qinfo_get idx f s' = Inr (qb, qmax) \<and>
      (\<forall>q. qdma_dev_is_queue_in_range idx f q s' = QDMA_DEV_Q_OUT_OF_RANGE) \<and>
      (\<exists>m'. qdma_get_master_resource_entry s' idx = Some m' \<and>
         (\<not> sorted_wrt (\<lambda>a b. qs a \<inter> qs b = {}) (free_list m') \<or> \<not> free_of s' idx \<subseteq> free_of s idx)))"
proof -
  have w: "wf_free (free_list m)" using free_of_in_inv [OF assms(1) m d] by (simp add: dev_entry_ok_def)
  have nz: "qmax \<noteq> 0" using wraps(2) unsigned_less [of qb, where ?'a = nat] by auto
  have sub: "qdma_submit_to_free_list (entry d) (free_list m) (rm_mem s) = (entry d, free_list m, rm_mem s)"
    by (simp add: qdma_submit_to_free_list_def none)
  note g = get_node_wrapping [OF w assms(2) wraps]
  note upd = r [unfolded qdma_dev_update_def m d option.case, unfolded idle qdma_request_q_resource_def sub Let_def prod.case]
  show ?thesis
  proof (cases "\<exists>e \<in> set (free_list m). lo e \<le> unat qb \<and> unat qb + unat qmax - 2 ^ 32 \<le> hi e")
    case True
    then obtain pre n post mem' where n: "qdma_get_resource_node qmax qb (free_list m) (rm_mem s) = (Inr (pre, n, post), mem')"
      "qbase n = qb" "total_q n = qmax" "free_size (free_list m) < free_size (pre @ post)" using g by auto
    have s': "rv = 0" "qb' = qb"
      "s' = put_master idx (\<lambda>m. put_dev f (\<lambda>d. d\<lparr>entry := n\<rparr>) (m\<lparr>free_list := pre @ post\<rparr>)) (s\<lparr>rm_mem := mem'\<rparr>)"
      using upd nz n by simp_all
    have d': "qdma_get_dev_entry s' idx f = Some (d\<lparr>entry := n\<rparr>)"
      unfolding s' by (subst get_dev_put) (simp_all add: d)
    have m': "qdma_get_master_resource_entry s' idx = Some (put_dev f (\<lambda>d. d\<lparr>entry := n\<rparr>) (m\<lparr>free_list := pre @ post\<rparr>))"
      unfolding s' using m by (simp add: get_master_put)
    have out: "\<not> (q < qb + qmax \<and> qb \<le>s q)" for q
    proof
      assume a: "q < qb + qmax \<and> qb \<le>s q"
      have "unat qb < 2 ^ 32" "unat qmax < 2 ^ 32" using unsigned_less [of qb] unsigned_less [of qmax] by simp_all
      moreover have "unat q < unat qb + unat qmax - 2 ^ 32" using a wrapping_sum [OF wraps(2)] by (simp add: word_less_nat_alt)
      ultimately have "unat q < unat qb" using wraps(2) by linarith
      moreover have "unat qb < 2 ^ 31" by (rule nonneg_int [OF wraps(1)])
      moreover have "unat q < 2 ^ 31" using calculation by linarith
      ultimately have "sint q = int (unat q)" "sint qb = int (unat qb)" by (simp_all only: sint_eq_unat)
      then have "\<not> qb \<le>s q" using \<open>unat q < unat qb\<close> by (simp only: word_sle_eq of_nat_le_iff not_le)
      then show False using a by blast
    qed
    have "card (free_of s idx) = free_size (free_list m) \<and> finite (free_of s idx)"
      using card_free_qs [OF wf_free_disjoint [OF w]] m by (simp add: free_of_def)
    moreover have "free_of s' idx = free_qs (pre @ post)" by (simp add: free_of_def m' put_dev_def)
    ultimately have over: "\<not> sorted_wrt (\<lambda>a b. qs a \<inter> qs b = {}) (pre @ post) \<or> \<not> free_of s' idx \<subseteq> free_of s idx"
      using card_free_qs [of "pre @ post"] n(4) card_mono by (metis leD)
    have info: "qdma_dev_qinfo_get idx f s' = Inr (qb, qmax)"
      by (simp add: qdma_dev_qinfo_get_def m' d' n)
    have rng: "qdma_dev_is_queue_in_range idx f q s' = QDMA_DEV_Q_OUT_OF_RANGE" for q
      using out [of q] by (simp add: qdma_dev_is_queue_in_range_def m' d' n Let_def)
    have fit: "\<exists>e \<in> set (free_list m). unat (qbase e) \<le> unat qb \<and> unat qb + unat qmax - 2 ^ 32 \<le> unat (qbase e) + unat (total_q e)"
      using True by (simp add: lo_def hi_def)
    show ?thesis using s'(1,2) fit info rng over m' by (intro conjI impI iffI) (simp_all add: put_dev_def)
  next
    case False
    then have "qdma_get_resource_node qmax qb (free_list m) (rm_mem s) = (Inl (free_list m), rm_mem s)" using g by auto
    then have "rv \<noteq> 0" using upd nz by (auto split: sum.splits prod.splits)
    then show ?thesis using False by (auto simp: lo_def hi_def)
  qed
qed


theorem rm_wrapping_request_overfills_witness:
  "fst (qdma_dev_update 0 6 0xFFFFFFFE 50 demo_state) = 0 \<and>
   (\<forall>q. qdma_dev_is_queue_in_range 0 6 q (snd (snd (qdma_dev_update 0 6 0xFFFFFFFE 50 demo_state))) = QDMA_DEV_Q_OUT_OF_RANGE)"
proof -
  obtain rv qb' s' where r: "qdma_dev_update 0 6 0xFFFFFFFE 50 demo_state = (rv, qb', s')" by (metis prod_cases3)
  show ?thesis
    using rm_wrapping_request_overfills [OF demo_state_facts(1) _ _ _ _ _ _ _ _ _ r] r
    by (simp add: demo_state_eval qdma_get_dev_entry_def qdma_get_master_resource_entry_def demo_dev_def word_sle_eq)
qed

text \<open>Later requests then give one queue to two functions.\<close>

lemma rm_wrapping_request_breaks_isolation:
  "let s = rm_run [RM_Create 1 1 0 100, RM_Dev_Create 0 5, RM_Dev_Create 0 6, RM_Dev_Create 0 7,
        RM_Dev_Update 0 5 0xFFFFFFFE 5, RM_Dev_Update 0 6 5 0, RM_Dev_Update 0 7 2 3] (rm_init [])
   in qdma_dev_is_queue_in_range 0 6 3 s = QDMA_DEV_Q_IN_RANGE \<and>
      qdma_dev_is_queue_in_range 0 7 3 s = QDMA_DEV_Q_IN_RANGE"
  by code_simp

text \<open>
  a request that fails for a function without queues is not always without effect. The attempt to
  restore its (empty) range leaves a stale base behind, at which a later failing request splits the
  free list; the pieces are not merged again, so a request for all 100 queues, all of them free, is
  refused.
\<close>

theorem rm_stale_base_splits_free_list:
  "let s = rm_run [RM_Create 1 1 0 100, RM_Dev_Create 0 5, RM_Dev_Create 0 6,
        RM_Dev_Update 0 6 50 (- 1), RM_Dev_Update 0 5 200 (- 1), RM_Dev_Update 0 6 0 (- 1),
        RM_Dev_Update 0 5 200 (- 1)] (rm_init [])
   in map free_list (master_resource_list s) =
        [[\<lparr>qbase = 0, total_q = 50\<rparr>, \<lparr>qbase = 50, total_q = 50\<rparr>]] \<and>
      fst (qdma_dev_update 0 5 100 (- 1) s) = neg_err QDMA_ERR_RM_NO_QUEUES_LEFT"
  by code_simp

end
