(* ===== verification/Bitfield.thy ===== *)
theory Bitfield
  imports Prelude
begin

section \<open>Register fields (qdma\_access\_common.h, eqdma\_soft\_reg.h)\<close>

text \<open>
  The register and context layouts are written with masks. \<open>BIT\<close>, \<open>GENMASK\<close> and
  \<open>GENMASK_ULL\<close> build a mask, \<open>FIELD_SET\<close> and \<open>FIELD_GET\<close> move a value into and out of the field a
  mask selects; they find the position of the field by counting the trailing zeros of the mask.
  The macros are used at 32 and at 64 bits, so they are definitions on words of any length.
\<close>

subsection \<open>Counting trailing zeros\<close>

text \<open>The compiler's \<open>__builtin_ffsll\<close>: one more than the index of the lowest set bit, or 0.\<close>

definition ffsll :: "u64 \<Rightarrow> nat" where
  "ffsll x = (case find (\<lambda>i. bit x i) [0..<64] of None \<Rightarrow> 0 | Some i \<Rightarrow> i + 1)"

definition get_trailing_zeros :: "u64 \<Rightarrow> u32" where
  "get_trailing_zeros x = of_nat (ffsll x) - 1"

text \<open>The version for other compilers: a binary search for the lowest set bit.\<close>

definition tz_step :: "nat \<Rightarrow> u32 \<times> u64 \<Rightarrow> u32 \<times> u64" where
  "tz_step k p = (case p of (pos, value) \<Rightarrow>
     if value AND mask k = 0 then (pos + of_nat k, drop_bit k value) else (pos, value))"

definition get_trailing_zeros_portable :: "u64 \<Rightarrow> u32" where
  "get_trailing_zeros_portable value =
     (let (pos, v) = tz_step 2 (tz_step 4 (tz_step 8 (tz_step 16 (tz_step 32 (0, value)))))
      in if v AND 1 = 0 then pos + 1 else pos)"

text \<open>The index of the lowest set bit.\<close>

definition lowest_bit :: "u64 \<Rightarrow> nat \<Rightarrow> bool" where
  "lowest_bit x n \<longleftrightarrow> bit x n \<and> (\<forall>i < n. \<not> bit x i)"

lemma find_upt_first:
  assumes "i < n" and "P i" and "\<forall>j < i. \<not> P j"
  shows "find P [0..<n] = Some i"
proof -
  have "[0..<n] = [0..<i] @ [i..<n]" using assms(1) upt_add_eq_append [of 0 i "n - i"] by (simp del: upt_rec_numeral)
  moreover have "[i..<n] = i # [Suc i..<n]" using assms(1) by (rule upt_conv_Cons)
  moreover have "find P [0..<i] = None" using assms(3) by (simp add: find_None_iff)
  ultimately show ?thesis using assms(2) by (simp add: find_app)
qed

lemma lowest_bit_ex:
  assumes "x \<noteq> 0"
  shows "\<exists>n < 64. lowest_bit x n"
proof -
  obtain i where i: "bit x i" using assms by (auto simp: bit_eq_iff)
  then have "i < 64" using bit_imp_le_length [of x i] by simp
  let ?n = "LEAST i. bit x i"
  have "bit x ?n" using i by (rule LeastI)
  moreover have "\<forall>j < ?n. \<not> bit x j" using not_less_Least by blast
  moreover have "?n < 64" by (rule le_less_trans [OF Least_le [of "bit x" i, OF i] \<open>i < 64\<close>])
  ultimately show ?thesis unfolding lowest_bit_def by blast
qed

lemma lowest_bit_unique: "lowest_bit x n \<Longrightarrow> lowest_bit x m \<Longrightarrow> n = m"
  unfolding lowest_bit_def by (meson linorder_neqE_nat)

lemma lowest_bit_less: "lowest_bit x n \<Longrightarrow> n < 64"
  using bit_imp_le_length [of x n] by (simp add: lowest_bit_def)

lemma get_trailing_zeros_lowest:
  assumes "lowest_bit x n"
  shows "get_trailing_zeros x = of_nat n"
proof -
  have "find (\<lambda>i. bit x i) [0..<64] = Some n"
    using assms lowest_bit_less [OF assms] by (intro find_upt_first) (simp_all add: lowest_bit_def)
  then show ?thesis by (simp add: get_trailing_zeros_def ffsll_def)
qed

text \<open>
  Each step of the binary search halves the part of the word the lowest set bit is in.
\<close>

lemma tz_step_lowest:
  assumes "lowest_bit v n" and "n < 2 * k" and "tz_step k (pos, v) = (pos', v')"
  shows "\<exists>n' < k. lowest_bit v' n' \<and> pos' + of_nat n' = pos + of_nat n"
proof -
  have z: "v AND mask k = 0 \<longleftrightarrow> k \<le> n"
  proof
    assume "v AND mask k = 0"
    then have "\<not> bit (v AND mask k) n" by simp
    then show "k \<le> n"
      using assms(1) lowest_bit_less [OF assms(1)] by (auto simp: lowest_bit_def bit_simps)
  next
    assume "k \<le> n"
    then show "v AND mask k = 0"
      using assms(1) by (intro bit_word_eqI) (auto simp: lowest_bit_def bit_simps)
  qed
  show ?thesis
  proof (cases "k \<le> n")
    case True
    then have v': "v' = drop_bit k v" "pos' = pos + of_nat k" using assms(3) z by (auto simp: tz_step_def)
    have "lowest_bit v' (n - k)"
      using assms(1) True by (auto simp: lowest_bit_def v' bit_simps)
    moreover have "pos' + of_nat (n - k) = pos + of_nat n"
      using True by (simp add: v' of_nat_diff)
    ultimately show ?thesis using assms(2) True by (intro exI [of _ "n - k"]) auto
  next
    case False
    then show ?thesis using assms z by (intro exI [of _ n]) (auto simp: tz_step_def)
  qed
qed

lemma get_trailing_zeros_portable_lowest:
  assumes "lowest_bit x n"
  shows "get_trailing_zeros_portable x = of_nat n"
proof -
  obtain p1 v1 where 1: "tz_step 32 (0, x) = (p1, v1)" by fastforce
  obtain p2 v2 where 2: "tz_step 16 (p1, v1) = (p2, v2)" by fastforce
  obtain p3 v3 where 3: "tz_step 8 (p2, v2) = (p3, v3)" by fastforce
  obtain p4 v4 where 4: "tz_step 4 (p3, v3) = (p4, v4)" by fastforce
  obtain p5 v5 where 5: "tz_step 2 (p4, v4) = (p5, v5)" by fastforce
  have "n < 2 * 32" using lowest_bit_less [OF assms] by simp
  from tz_step_lowest [OF assms this 1] obtain n1 where n1: "n1 < 2 * 16" "lowest_bit v1 n1"
    "p1 + of_nat n1 = of_nat n" by auto
  from tz_step_lowest [OF n1(2,1) 2] obtain n2 where n2: "n2 < 2 * 8" "lowest_bit v2 n2"
    "p2 + of_nat n2 = of_nat n" using n1(3) by auto
  from tz_step_lowest [OF n2(2,1) 3] obtain n3 where n3: "n3 < 2 * 4" "lowest_bit v3 n3"
    "p3 + of_nat n3 = of_nat n" using n2(3) by auto
  from tz_step_lowest [OF n3(2,1) 4] obtain n4 where n4: "n4 < 2 * 2" "lowest_bit v4 n4"
    "p4 + of_nat n4 = of_nat n" using n3(3) by auto
  from tz_step_lowest [OF n4(2,1) 5] obtain n5 where n5: "n5 < 2" "lowest_bit v5 n5"
    "p5 + of_nat n5 = of_nat n" using n4(3) by auto
  have "v5 AND 1 = 0 \<longleftrightarrow> n5 = 1"
    using n5(1,2) by (auto simp: lowest_bit_def and_one_eq less_2_cases_iff bit_0 even_iff_mod_2_eq_zero)
  then show ?thesis
    using n5 by (auto simp: get_trailing_zeros_portable_def 1 2 3 4 5 less_2_cases_iff)
qed


subsection \<open>Masks and fields\<close>

definition BIT :: "nat \<Rightarrow> 'a::len word" where
  "BIT n = push_bit n 1"

definition GENMASK :: "nat \<Rightarrow> nat \<Rightarrow> 'a::len word" where
  "GENMASK h l = push_bit l (- 1) AND drop_bit (LENGTH('a) - 1 - h) (- 1)"

definition FIELD_SHIFT :: "'a::len word \<Rightarrow> nat" where
  "FIELD_SHIFT m = unat (get_trailing_zeros (ucast m))"

definition FIELD_SET :: "'a::len word \<Rightarrow> 'a word \<Rightarrow> 'a word" where
  "FIELD_SET m val = push_bit (FIELD_SHIFT m) val AND m"

definition FIELD_GET :: "'a::len word \<Rightarrow> 'a word \<Rightarrow> 'a word" where
  "FIELD_GET m reg = drop_bit (FIELD_SHIFT m) (reg AND m)"

lemma bit_GENMASK:
  "h < LENGTH('a) \<Longrightarrow> bit (GENMASK h l :: 'a::len word) i \<longleftrightarrow> l \<le> i \<and> i \<le> h"
  by (auto simp: GENMASK_def bit_simps)

lemma BIT_GENMASK: "n < LENGTH('a) \<Longrightarrow> (BIT n :: 'a::len word) = GENMASK n n"
  by (rule bit_word_eqI) (auto simp: bit_GENMASK BIT_def bit_simps)

lemma FIELD_SHIFT_GENMASK:
  assumes "l \<le> h" and "h < LENGTH('a)" and "LENGTH('a) \<le> 64"
  shows "FIELD_SHIFT (GENMASK h l :: 'a::len word) = l"
proof -
  have "lowest_bit (ucast (GENMASK h l :: 'a word)) l"
    using assms by (auto simp: lowest_bit_def bit_simps bit_GENMASK)
  then have "get_trailing_zeros (ucast (GENMASK h l :: 'a word)) = of_nat l"
    by (rule get_trailing_zeros_lowest)
  then show ?thesis using assms by (simp add: FIELD_SHIFT_def unat_of_nat)
qed

lemma bit_FIELD_SET:
  fixes v :: "'a::len word"
  assumes "l \<le> h" and "h < LENGTH('a)" and "LENGTH('a) \<le> 64"
  shows "bit (FIELD_SET (GENMASK h l) v) i \<longleftrightarrow> l \<le> i \<and> i \<le> h \<and> bit v (i - l)"
  using assms by (auto simp: FIELD_SET_def FIELD_SHIFT_GENMASK bit_GENMASK bit_simps)

lemma bit_FIELD_GET:
  fixes v :: "'a::len word"
  assumes "l \<le> h" and "h < LENGTH('a)" and "LENGTH('a) \<le> 64"
  shows "bit (FIELD_GET (GENMASK h l) v) i \<longleftrightarrow> i \<le> h - l \<and> bit v (i + l)"
  using assms by (auto simp: FIELD_GET_def FIELD_SHIFT_GENMASK bit_GENMASK bit_simps add.commute)

text \<open>
  Reading a field of a word that was put together with \<open>OR\<close>: the field is taken from the part that
  was written there, cut to its width, and every other part is ignored.
\<close>

lemma FIELD_GET_OR: "FIELD_GET m (x OR y) = FIELD_GET m x OR FIELD_GET m y"
  by (simp add: FIELD_GET_def bit.conj_disj_distrib2)

lemma FIELD_GET_zero: "FIELD_GET m 0 = 0"
  by (simp add: FIELD_GET_def)

lemma FIELD_SET_zero: "FIELD_SET m 0 = 0"
  by (simp add: FIELD_SET_def)

lemma FIELD_GET_SET_same:
  fixes v :: "'a::len word"
  assumes "l \<le> h" and "h < LENGTH('a)" and "LENGTH('a) \<le> 64"
  shows "FIELD_GET (GENMASK h l) (FIELD_SET (GENMASK h l) v) = take_bit (Suc h - l) v"
  by (rule bit_word_eqI) (use assms in \<open>auto simp: bit_FIELD_GET bit_FIELD_SET bit_simps\<close>)

lemma FIELD_GET_SET_apart:
  fixes v :: "'a::len word"
  assumes "h < l' \<or> h' < l" and "l \<le> h" and "h < LENGTH('a)" and "l' \<le> h'" and "h' < LENGTH('a)"
    and "LENGTH('a) \<le> 64"
  shows "FIELD_GET (GENMASK h l) (FIELD_SET (GENMASK h' l') v) = 0"
  by (rule bit_word_eqI) (use assms in \<open>auto simp: bit_FIELD_GET bit_FIELD_SET bit_simps\<close>)

lemmas field_rules = FIELD_GET_OR FIELD_GET_zero FIELD_GET_SET_same FIELD_GET_SET_apart BIT_GENMASK

lemma FIELD_GET_take:
  fixes v :: "'a::len word"
  assumes "l \<le> h" and "h < LENGTH('a)" and "LENGTH('a) \<le> 64"
  shows "FIELD_GET (GENMASK h l) v = take_bit (Suc h - l) (drop_bit l v)"
  by (rule bit_word_eqI) (use assms in \<open>auto simp: bit_FIELD_GET bit_simps add.commute\<close>)

lemma FIELD_SET_push:
  fixes v :: "'a::len word"
  assumes "l \<le> h" and "h < LENGTH('a)" and "LENGTH('a) \<le> 64"
  shows "FIELD_SET (GENMASK h l) v = push_bit l (take_bit (Suc h - l) v)"
  by (rule bit_word_eqI) (use assms in \<open>auto simp: bit_FIELD_SET bit_simps\<close>)

text \<open>Struct members are narrower than the words they travel in.\<close>

lemma ucast_take_ucast:
  "LENGTH('a) \<le> LENGTH('b) \<Longrightarrow>
     (ucast (take_bit n (ucast (c :: 'a::len word) :: 'b::len word)) :: 'a word) = take_bit n c"
  by (rule bit_word_eqI) (auto simp: bit_simps)

lemma take_bit_all: "LENGTH('a) \<le> n \<Longrightarrow> take_bit n (c :: 'a::len word) = c"
  by (rule bit_word_eqI) (auto simp: bit_simps dest: bit_imp_le_length)

definition fits :: "nat \<Rightarrow> 'a::len word \<Rightarrow> bool" where
  "fits n c \<longleftrightarrow> unat c < 2 ^ n"

lemma take_bit_fits: "fits n c \<Longrightarrow> take_bit n c = c"
  by (simp add: fits_def word_unat_eq_iff unsigned_take_bit_eq take_bit_nat_eq_self)

text \<open>A value sent in two or three pieces arrives whole.\<close>

lemma two_pieces:
  fixes v :: "'a::len word"
  shows "take_bit k v OR push_bit k (take_bit n (drop_bit k v)) = take_bit (k + n) v"
  by (rule bit_word_eqI) (auto simp: bit_simps)


text \<open>
  C38: the binary search used with other compilers finds the same shift as the builtin for every mask
  that selects something: both give the index of its lowest set bit.
\<close>

theorem get_trailing_zeros_agree:
  assumes "x \<noteq> 0"
  shows "get_trailing_zeros_portable x = get_trailing_zeros x
    \<and> (\<exists>n < 64. get_trailing_zeros x = of_nat n \<and> bit x n \<and> (\<forall>i < n. \<not> bit x i))"
  using lowest_bit_ex [OF assms] get_trailing_zeros_lowest get_trailing_zeros_portable_lowest
  unfolding lowest_bit_def by metis

theorem get_trailing_zeros_agree_witness:
  "get_trailing_zeros_portable 0xFF80000000 = get_trailing_zeros 0xFF80000000
    \<and> (\<exists>n < 64. get_trailing_zeros 0xFF80000000 = of_nat n \<and> bit (0xFF80000000 :: u64) n
      \<and> (\<forall>i < n. \<not> bit (0xFF80000000 :: u64) i))"
  by (rule get_trailing_zeros_agree) simp

end
