(* ===== verification/Reg_Access.thy ===== *)
theory Reg_Access
  imports Bitfield
begin

section \<open>Register access (qdma\_access\_common.c)\<close>

text \<open>
  The driver reaches the device only through the platform's \<open>qdma_reg_read\<close>, \<open>qdma_reg_write\<close>,
  \<open>qdma_udelay\<close> and the register lock. They are not part of the driver: the model takes them as a
  record of functions on an arbitrary state \<open>'s\<close> of the device, and every operation passes that state
  through its reads and writes in the order the C code makes them. A read may change the state.
\<close>

record 's mmio =
  qdma_reg_read :: "u32 \<Rightarrow> 's \<Rightarrow> u32 \<times> 's"
  qdma_reg_write :: "u32 \<Rightarrow> u32 \<Rightarrow> 's \<Rightarrow> 's"
  qdma_udelay :: "u32 \<Rightarrow> 's \<Rightarrow> 's"
  qdma_reg_access_lock :: "'s \<Rightarrow> 's"
  qdma_reg_access_release :: "'s \<Rightarrow> 's"

subsection \<open>Polling\<close>

definition QDMA_REG_POLL_DFLT_INTERVAL_US :: u32 where "QDMA_REG_POLL_DFLT_INTERVAL_US = 10"
definition QDMA_REG_POLL_DFLT_TIMEOUT_US :: u32 where "QDMA_REG_POLL_DFLT_TIMEOUT_US = 500 * 1000"

text \<open>
  The loop of \<open>hw_monitor_reg\<close>: read, compare, delay, and go on until \<open>--count\<close> is 0. The counter is
  a C int that is decremented before the test, so a loop that starts at 0 goes all the way round.
\<close>

lemma countdown: "(count :: u32) - 1 \<noteq> 0 \<Longrightarrow> unat (count - 1 - 1) < unat (count - 1)"
  by (subst unat_minus_one) (simp_all add: unat_gt_0)

function monitor_loop :: "'s mmio \<Rightarrow> u32 \<Rightarrow> u32 \<Rightarrow> u32 \<Rightarrow> u32 \<Rightarrow> c_int \<Rightarrow> 's \<Rightarrow> bool \<times> 's" where
  "monitor_loop mm reg msk val interval_us count s =
     (let (v, s1) = qdma_reg_read mm reg s
      in if v AND msk = val then (True, s1)
         else (let s2 = qdma_udelay mm interval_us s1; count' = count - 1
               in if count' = 0 then (False, s2)
                  else monitor_loop mm reg msk val interval_us count' s2))"
  by pat_completeness auto
termination
  by (relation "measure (\<lambda>(mm, reg, msk, val, i, count, s). unat (count - 1))")
    (use countdown in auto)

definition hw_monitor_reg :: "'s mmio \<Rightarrow> u32 \<Rightarrow> u32 \<Rightarrow> u32 \<Rightarrow> u32 \<Rightarrow> u32 \<Rightarrow> 's \<Rightarrow> int \<times> 's" where
  "hw_monitor_reg mm reg msk val interval_us0 timeout_us0 s =
     (let interval_us = (if interval_us0 = 0 then QDMA_REG_POLL_DFLT_INTERVAL_US else interval_us0);
          timeout_us = (if timeout_us0 = 0 then QDMA_REG_POLL_DFLT_TIMEOUT_US else timeout_us0);
          count = timeout_us div interval_us
      in case monitor_loop mm reg msk val interval_us count s of
           (True, s1) \<Rightarrow> (err_code QDMA_SUCCESS, s1)
         | (False, s1) \<Rightarrow>
             (let (v, s2) = qdma_reg_read mm reg s1
              in if v AND msk = val then (err_code QDMA_SUCCESS, s2)
                 else (neg_err QDMA_ERR_HWACC_BUSY_TIMEOUT, s2)))"

text \<open>One round of polling: a read and a delay; and whether the read of round \<open>k\<close> shows the value.\<close>

definition poll_round :: "'s mmio \<Rightarrow> u32 \<Rightarrow> u32 \<Rightarrow> 's \<Rightarrow> 's" where
  "poll_round mm reg interval_us s = qdma_udelay mm interval_us (snd (qdma_reg_read mm reg s))"

definition poll_hit :: "'s mmio \<Rightarrow> u32 \<Rightarrow> u32 \<Rightarrow> u32 \<Rightarrow> u32 \<Rightarrow> 's \<Rightarrow> nat \<Rightarrow> bool" where
  "poll_hit mm reg msk val interval_us s k \<longleftrightarrow>
     fst (qdma_reg_read mm reg ((poll_round mm reg interval_us ^^ k) s)) AND msk = val"

declare monitor_loop.simps [simp del]

lemma monitor_loop_unfold:
  "monitor_loop mm reg msk val i count s =
     (if poll_hit mm reg msk val i s 0 then (True, snd (qdma_reg_read mm reg s))
      else if count = 1 then (False, poll_round mm reg i s)
      else monitor_loop mm reg msk val i (count - 1) (poll_round mm reg i s))"
  by (subst monitor_loop.simps) (auto simp: poll_hit_def poll_round_def Let_def split: prod.splits)

lemma poll_hit_Suc: "poll_hit mm reg msk val i s (Suc k) = poll_hit mm reg msk val i (poll_round mm reg i s) k"
  by (simp add: poll_hit_def funpow_swap1)

lemma monitor_loop_cases:
  assumes "unat count = Suc n"
  shows "monitor_loop mm reg msk val i count s =
    (if \<exists>k \<le> n. poll_hit mm reg msk val i s k
     then (True, snd (qdma_reg_read mm reg ((poll_round mm reg i ^^ (LEAST k. poll_hit mm reg msk val i s k)) s)))
     else (False, (poll_round mm reg i ^^ Suc n) s))"
  using assms
proof (induction n arbitrary: count s)
  case 0
  then have "count = 1" by (simp add: word_unat_eq_iff)
  then show ?case
    by (subst monitor_loop_unfold) auto
next
  case (Suc n)
  let ?s = "poll_round mm reg i s" and ?h = "poll_hit mm reg msk val i"
  have "count \<noteq> 0" using Suc.prems by auto
  then have c: "count \<noteq> 1" "unat (count - 1) = Suc n"
    using Suc.prems unat_minus_one [of count] by auto
  show ?case
  proof (cases "?h s 0")
    case True
    then have "(LEAST k. ?h s k) = 0" by (intro Least_equality) auto
    with True show ?thesis by (subst monitor_loop_unfold) auto
  next
    case False
    have ex: "(\<exists>k \<le> Suc n. ?h s k) \<longleftrightarrow> (\<exists>k \<le> n. ?h ?s k)"
      using False by (simp only: less_Suc_eq_le [symmetric] Ex_less_Suc2 poll_hit_Suc simp_thms)
    have least: "(LEAST k. ?h s k) = Suc (LEAST k. ?h ?s k)" if "\<exists>k \<le> n. ?h ?s k"
    proof -
      from that obtain k where "?h s (Suc k)" by (auto simp: poll_hit_Suc)
      from Least_Suc [of "?h s", OF this False] show ?thesis by (simp add: poll_hit_Suc)
    qed
    show ?thesis
    proof (cases "\<exists>k \<le> n. ?h ?s k")
      case True
      then have "\<exists>k \<le> Suc n. ?h s k" unfolding ex .
      then show ?thesis
        using True False c(1) least [OF True]
        by (subst monitor_loop_unfold) (simp add: Suc.IH [OF c(2)] funpow_swap1)
    next
      case None: False
      then have "\<not> (\<exists>k \<le> Suc n. ?h s k)" unfolding ex .
      then show ?thesis
        using None False c(1)
        by (subst monitor_loop_unfold) (simp add: Suc.IH [OF c(2)] funpow_swap1)
    qed
  qed
qed


text \<open>
  With a nonzero number of rounds the poll is right: it succeeds exactly when one of the reads it
  makes (one a round and one more at the end) shows the value.
\<close>

definition poll_rounds :: "u32 \<Rightarrow> u32 \<Rightarrow> nat" where
  "poll_rounds interval_us timeout_us =
     unat ((if timeout_us = 0 then QDMA_REG_POLL_DFLT_TIMEOUT_US else timeout_us) div
           (if interval_us = 0 then QDMA_REG_POLL_DFLT_INTERVAL_US else interval_us))"

definition poll_interval :: "u32 \<Rightarrow> u32" where
  "poll_interval interval_us = (if interval_us = 0 then QDMA_REG_POLL_DFLT_INTERVAL_US else interval_us)"

lemma hw_monitor_reg_cases:
  fixes mm :: "'s mmio" and reg msk val :: u32 and s :: 's
  assumes "0 < poll_rounds interval_us timeout_us"
  defines "h \<equiv> poll_hit mm reg msk val (poll_interval interval_us) s"
    and "r \<equiv> poll_round mm reg (poll_interval interval_us)"
  shows "hw_monitor_reg mm reg msk val interval_us timeout_us s =
    (if \<exists>k \<le> poll_rounds interval_us timeout_us. h k
     then (0, snd (qdma_reg_read mm reg ((r ^^ (LEAST k. h k)) s)))
     else (neg_err QDMA_ERR_HWACC_BUSY_TIMEOUT,
           snd (qdma_reg_read mm reg ((r ^^ poll_rounds interval_us timeout_us) s))))"
proof -
  obtain n where n: "poll_rounds interval_us timeout_us = Suc n"
    using assms(1) gr0_conv_Suc by blast
  define cnt where "cnt = (if timeout_us = 0 then QDMA_REG_POLL_DFLT_TIMEOUT_US else timeout_us) div
    (if interval_us = 0 then QDMA_REG_POLL_DFLT_INTERVAL_US else interval_us)"
  have u: "unat cnt = Suc n" using n by (simp add: poll_rounds_def cnt_def)
  have m: "hw_monitor_reg mm reg msk val interval_us timeout_us s =
    (case monitor_loop mm reg msk val (poll_interval interval_us) cnt s of
       (True, s1) \<Rightarrow> (0, s1)
     | (False, s1) \<Rightarrow> if fst (qdma_reg_read mm reg s1) AND msk = val then (0, snd (qdma_reg_read mm reg s1))
         else (neg_err QDMA_ERR_HWACC_BUSY_TIMEOUT, snd (qdma_reg_read mm reg s1)))"
    by (auto simp: hw_monitor_reg_def cnt_def poll_interval_def Let_def split: prod.splits bool.splits)
  note loop = monitor_loop_cases [OF u, of mm reg msk val "poll_interval interval_us" s, folded h_def r_def]
  show ?thesis
  proof (cases "\<exists>k \<le> n. h k")
    case True
    moreover from True have "\<exists>k \<le> Suc n. h k" by (meson le_SucI)
    ultimately show ?thesis unfolding m loop n by simp
  next
    case False
    have last: "fst (qdma_reg_read mm reg ((r ^^ Suc n) s)) AND msk = val \<longleftrightarrow> h (Suc n)"
      by (simp add: h_def r_def poll_hit_def)
    show ?thesis
    proof (cases "h (Suc n)")
      case True
      have "(LEAST k. h k) = Suc n"
      proof (rule Least_equality)
        fix k assume "h k"
        then show "Suc n \<le> k" using False by (meson not_less_eq_eq)
      qed (rule True)
      with True False show ?thesis unfolding m loop n by (auto simp only: prod.case if_False last bool.case simp_thms split: if_splits)
    next
      case no: False
      then have "\<not> (\<exists>k \<le> Suc n. h k)" using False by (auto simp only: le_Suc_eq)
      with False no show ?thesis unfolding m loop n by (simp only: last prod.case if_False bool.case)
    qed
  qed
qed

subsection \<open>Register arrays\<close>

lemma countup: "(i :: u32) < e \<Longrightarrow> unat e - unat (i + 1) < unat e - unat i \<and> unat (i + 1) = Suc (unat i)"
proof -
  assume "i < e"
  then have le: "unat i < unat e" by (simp add: word_less_nat_alt)
  then have "unat i + 1 < 2 ^ 32" using unsigned_less [of e, where ?'a = nat] by simp
  then have "unat (i + 1) = unat i + unat (1 :: u32)" by (subst unat_add_lem [symmetric]) simp
  with le show ?thesis by simp
qed

function write_csr_loop :: "'s mmio \<Rightarrow> u32 \<Rightarrow> u32 \<Rightarrow> u32 \<Rightarrow> u32 \<Rightarrow> u32 list \<Rightarrow> 's \<Rightarrow> 's" where
  "write_csr_loop mm reg_offst idx cnt index vals s =
     (if index < idx + cnt
      then write_csr_loop mm reg_offst idx cnt (index + 1) vals
             (qdma_reg_write mm (reg_offst + index * 4) (vals ! unat (index - idx)) s)
      else s)"
  by pat_completeness auto

termination
  by (relation "measure (\<lambda>(mm, reg, idx, cnt, index, vals, s). unat (idx + cnt) - unat index)")
    (use countup in \<open>auto simp: word_less_nat_alt\<close>)

definition qdma_write_csr_values :: "'s mmio \<Rightarrow> u32 \<Rightarrow> u32 \<Rightarrow> u32 \<Rightarrow> u32 list \<Rightarrow> 's \<Rightarrow> 's" where
  "qdma_write_csr_values mm reg_offst idx cnt vals s = write_csr_loop mm reg_offst idx cnt idx vals s"

function read_csr_loop :: "'s mmio \<Rightarrow> u32 \<Rightarrow> u32 \<Rightarrow> u32 \<Rightarrow> 's \<Rightarrow> u32 list \<times> 's" where
  "read_csr_loop mm reg_addr cnt index s =
     (if index < cnt
      then (let (v, s1) = qdma_reg_read mm (reg_addr + index * 4) s;
                (vs, s2) = read_csr_loop mm reg_addr cnt (index + 1) s1
            in (v # vs, s2))
      else ([], s))"
  by pat_completeness auto
termination
  by (relation "measure (\<lambda>(mm, reg, cnt, index, s). unat cnt - unat index)") (use countup in \<open>auto simp: word_less_nat_alt\<close>)

definition qdma_read_csr_values :: "'s mmio \<Rightarrow> u32 \<Rightarrow> u32 \<Rightarrow> u32 \<Rightarrow> 's \<Rightarrow> u32 list \<times> 's" where
  "qdma_read_csr_values mm reg_offst idx cnt s = read_csr_loop mm (reg_offst + idx * 4) cnt 0 s"

declare write_csr_loop.simps [simp del] read_csr_loop.simps [simp del]


lemma unat_of_nat_small: "n < 2 ^ 32 \<Longrightarrow> unat (of_nat n :: u32) = n"
  by (simp add: unsigned_of_nat take_bit_nat_eq_self)

text \<open>The loops as a walk over the indices.\<close>

definition csr_addr :: "u32 \<Rightarrow> u32 \<Rightarrow> nat \<Rightarrow> u32" where
  "csr_addr reg_offst idx j = reg_offst + (idx + of_nat j) * 4"

lemma index_less:
  assumes "unat idx + unat cnt < 2 ^ 32" and "j \<le> unat cnt"
  shows "(idx :: u32) + of_nat j < idx + cnt \<longleftrightarrow> j < unat cnt" and "unat (idx + of_nat j - idx) = j"
proof -
  have j: "unat (of_nat j :: u32) = j"
    using assms unsigned_less [of cnt, where ?'a = nat] by (intro unat_of_nat_small) simp
  have "unat (idx + of_nat j) = unat idx + unat (of_nat j :: u32)"
    using assms j by (subst unat_add_lem [symmetric]) simp
  moreover have "unat (idx + cnt) = unat idx + unat cnt"
    using assms by (subst unat_add_lem [symmetric]) simp
  ultimately show "idx + of_nat j < idx + cnt \<longleftrightarrow> j < unat cnt"
    using j by (simp add: word_less_nat_alt)
  show "unat (idx + of_nat j - idx) = j" using j by simp
qed

lemma write_csr_loop_fold:
  assumes "unat idx + unat cnt < 2 ^ 32" and "j \<le> unat cnt"
  shows "write_csr_loop mm reg_offst idx cnt (idx + of_nat j) vals s =
    fold (\<lambda>k. qdma_reg_write mm (csr_addr reg_offst idx k) (vals ! k)) [j..<unat cnt] s"
  using assms(2)
proof (induction "unat cnt - j" arbitrary: j s)
  case 0
  then show ?case using index_less(1) [OF assms(1), of j] by (subst write_csr_loop.simps) simp
next
  case (Suc d)
  then have j: "j < unat cnt" by simp
  have eq: "idx + of_nat j + 1 = idx + of_nat (Suc j)" by simp
  have l: "idx + of_nat j < idx + cnt" "unat (idx + of_nat j - idx) = j"
    using index_less [OF assms(1), of j] j by simp_all
  have "write_csr_loop mm reg_offst idx cnt (idx + of_nat j) vals s =
    write_csr_loop mm reg_offst idx cnt (idx + of_nat (Suc j)) vals
      (qdma_reg_write mm (csr_addr reg_offst idx j) (vals ! j) s)"
    by (subst write_csr_loop.simps) (simp only: l if_True eq csr_addr_def)
  also have "\<dots> = fold (\<lambda>k. qdma_reg_write mm (csr_addr reg_offst idx k) (vals ! k)) [Suc j..<unat cnt]
      (qdma_reg_write mm (csr_addr reg_offst idx j) (vals ! j) s)"
    using Suc(2) j by (intro Suc(1)) simp_all
  finally show ?case using j by (simp only: upt_conv_Cons fold_simps)
qed

lemma qdma_write_csr_values_fold:
  assumes "unat idx + unat cnt < 2 ^ 32"
  shows "qdma_write_csr_values mm reg_offst idx cnt vals s =
    fold (\<lambda>k. qdma_reg_write mm (csr_addr reg_offst idx k) (vals ! k)) [0..<unat cnt] s"
  using write_csr_loop_fold [OF assms, of 0] by (simp add: qdma_write_csr_values_def)

text \<open>
  Plain registers: what is written is what is read, nothing else changes and a read has no effect.
\<close>

definition plain_registers :: "'s mmio \<Rightarrow> ('s \<Rightarrow> u32 \<Rightarrow> u32) \<Rightarrow> u32 set \<Rightarrow> bool" where
  "plain_registers mm val A \<longleftrightarrow>
     (\<forall>a \<in> A. \<forall>s. qdma_reg_read mm a s = (val s a, s)) \<and>
     (\<forall>a \<in> A. \<forall>v s. val (qdma_reg_write mm a v s) = (val s)(a := v))"

lemma read_csr_loop_plain:
  assumes "plain_registers mm val A" and "\<forall>k < unat cnt. csr_addr reg_offst idx k \<in> A" and "j \<le> unat cnt"
  shows "read_csr_loop mm (reg_offst + idx * 4) cnt (of_nat j) s =
    (map (\<lambda>k. val s (csr_addr reg_offst idx k)) [j..<unat cnt], s)"
  using assms(3)
proof (induction "unat cnt - j" arbitrary: j)
  case 0
  have "(of_nat j :: u32) < cnt \<longleftrightarrow> j < unat cnt" using index_less(1) [of 0 cnt j] 0 unsigned_less [of cnt, where ?'a = nat] by simp
  with 0 show ?case by (subst read_csr_loop.simps) simp
next
  case (Suc d)
  then have j: "j < unat cnt" by simp
  have l: "(of_nat j :: u32) < cnt" using index_less(1) [of 0 cnt j] j unsigned_less [of cnt, where ?'a = nat] by simp
  have a: "reg_offst + idx * 4 + of_nat j * 4 = csr_addr reg_offst idx j"
    by (simp add: csr_addr_def algebra_simps)
  have eq: "(of_nat j :: u32) + 1 = of_nat (Suc j)" by simp
  have r: "qdma_reg_read mm (csr_addr reg_offst idx j) s = (val s (csr_addr reg_offst idx j), s)"
    using assms(1,2) j by (simp add: plain_registers_def)
  have "read_csr_loop mm (reg_offst + idx * 4) cnt (of_nat (Suc j)) s =
    (map (\<lambda>k. val s (csr_addr reg_offst idx k)) [Suc j..<unat cnt], s)"
    using Suc(2) j by (intro Suc(1)) simp_all
  then show ?case
    using j by (subst read_csr_loop.simps) (simp only: l if_True a r eq Let_def prod.case upt_conv_Cons list.map)
qed

lemma csr_addr_inj:
  assumes "unat idx + unat cnt \<le> 2 ^ 30" and "j < unat cnt" and "k < unat cnt"
    and "csr_addr reg_offst idx j = csr_addr reg_offst idx k"
  shows "j = k"
proof -
  have u: "unat ((of_nat i :: u32) * 4) = i * 4" if "i < unat cnt" for i
  proof -
    have "i * 4 < 2 ^ 32" using assms(1) that by simp
    then have "unat (of_nat (i * 4) :: u32) = i * 4" by (rule unat_of_nat_small)
    then show ?thesis by simp
  qed
  have "(of_nat j :: u32) * 4 = of_nat k * 4"
    using assms(4) unfolding csr_addr_def distrib_right add_left_cancel .
  then have "j * 4 = k * 4" using u [OF assms(2)] u [OF assms(3)] by metis
  then show ?thesis by simp
qed

lemma fold_write_plain:
  assumes "plain_registers mm val A" and "\<forall>k \<in> set ks. addr k \<in> A"
  shows "a \<notin> addr ` set ks \<Longrightarrow> val (fold (\<lambda>k. qdma_reg_write mm (addr k) (v k)) ks s) a = val s a"
    and "k \<in> set ks \<Longrightarrow> distinct ks \<Longrightarrow> inj_on addr (set ks) \<Longrightarrow>
      val (fold (\<lambda>k. qdma_reg_write mm (addr k) (v k)) ks s) (addr k) = v k"
  using assms(2)
proof (induction ks arbitrary: s a and s k)
  case (Cons x xs)
  {
    case 1
    then show ?case using Cons.IH(1) assms(1) by (auto simp: plain_registers_def)
  next
    case 2
    show ?case
    proof (cases "k = x")
      case True
      then have "addr k \<notin> addr ` set xs" using 2 by (auto simp: inj_on_def)
      then have "val (fold (\<lambda>k. qdma_reg_write mm (addr k) (v k)) (x # xs) s) (addr k) =
        val (qdma_reg_write mm (addr x) (v x) s) (addr k)"
        using Cons.IH(1) 2 by simp
      also have "\<dots> = v k" using 2 assms(1) True by (simp add: plain_registers_def)
      finally show ?thesis .
    next
      case False
      then show ?thesis using Cons.IH(2) 2 by auto
    qed
  }
qed simp_all


text \<open>A block written is a block read, and the registers around it keep their values.\<close>

lemma csr_write_read:
  fixes mm :: "'s mmio" and s :: 's and idx cnt reg_offst :: u32 and vals
  assumes "plain_registers mm val A" and "unat idx + unat cnt \<le> 2 ^ 30"
    and A: "\<forall>k < unat cnt. csr_addr reg_offst idx k \<in> A" and "length vals = unat cnt"
  defines "s' \<equiv> qdma_write_csr_values mm reg_offst idx cnt vals s"
  shows "qdma_read_csr_values mm reg_offst idx cnt s' = (vals, s')"
    and "\<forall>k < unat cnt. a \<noteq> csr_addr reg_offst idx k \<Longrightarrow> val s' a = val s a"
proof -
  have nowrap: "unat idx + unat cnt < 2 ^ 32" using assms(2) by simp
  note w = qdma_write_csr_values_fold [OF nowrap, of mm reg_offst vals s, folded s'_def]
  have in_A: "\<forall>k \<in> set [0..<unat cnt]. csr_addr reg_offst idx k \<in> A" using A by simp
  have inj: "inj_on (csr_addr reg_offst idx) (set [0..<unat cnt])"
    using csr_addr_inj [OF assms(2)] by (auto simp: inj_on_def)
  have "val s' (csr_addr reg_offst idx k) = vals ! k" if "k < unat cnt" for k
    unfolding w by (rule fold_write_plain(2) [OF assms(1) in_A]) (use that inj in auto)
  then have "map (\<lambda>k. val s' (csr_addr reg_offst idx k)) [0..<unat cnt] = vals"
    using assms(4) by (intro nth_equalityI) simp_all
  moreover have "qdma_read_csr_values mm reg_offst idx cnt s' =
      (map (\<lambda>k. val s' (csr_addr reg_offst idx k)) [0..<unat cnt], s')"
    using read_csr_loop_plain [OF assms(1) A, of 0 s'] by (simp add: qdma_read_csr_values_def)
  ultimately show "qdma_read_csr_values mm reg_offst idx cnt s' = (vals, s')" by simp
  show "val s' a = val s a" if "\<forall>k < unat cnt. a \<noteq> csr_addr reg_offst idx k"
    unfolding w by (rule fold_write_plain(1) [OF assms(1) in_A]) (use that in auto)
qed

subsection \<open>Properties of register access\<close>

text \<open>A device that is nothing but memory.\<close>

definition ram :: "(u32 \<Rightarrow> u32) mmio" where
  "ram = \<lparr>qdma_reg_read = (\<lambda>a s. (s a, s)), qdma_reg_write = (\<lambda>a v s. s(a := v)), qdma_udelay = (\<lambda>_ s. s),
          qdma_reg_access_lock = id, qdma_reg_access_release = id\<rparr>"

lemma ram_plain: "plain_registers ram (\<lambda>s. s) A"
  by (simp add: plain_registers_def ram_def)

text \<open>
  C33: polling a register, with a timeout of at least one interval, succeeds exactly when one of the reads it makes,
  one per interval and one after the last, finds the expected value under the mask; otherwise it reports a timeout. It
  stops at the first read that does: the state of the device it leaves is the one after exactly that many rounds of
  reading and waiting and the read that hits; when none does, it is the one after all rounds and the last read. (A
  timeout shorter than the interval makes the counter of the loop start at zero and wrap; that is left out.)
\<close>

theorem hw_monitor_reg_spec:
  fixes mm :: "'s mmio" and reg msk val :: u32 and s :: 's
  assumes "0 < poll_rounds interval_us timeout_us"
  defines "hit \<equiv> poll_hit mm reg msk val (poll_interval interval_us) s"
    and "after_rounds \<equiv> \<lambda>k. (poll_round mm reg (poll_interval interval_us) ^^ k) s"
    and "rounds \<equiv> poll_rounds interval_us timeout_us"
  shows "(fst (hw_monitor_reg mm reg msk val interval_us timeout_us s) = 0 \<longleftrightarrow> (\<exists>k \<le> rounds. hit k)) \<and>
    fst (hw_monitor_reg mm reg msk val interval_us timeout_us s) \<in> {0, neg_err QDMA_ERR_HWACC_BUSY_TIMEOUT} \<and>
    (\<forall>k \<le> rounds. hit k \<and> (\<forall>j < k. \<not> hit j) \<longrightarrow>
      snd (hw_monitor_reg mm reg msk val interval_us timeout_us s) = snd (qdma_reg_read mm reg (after_rounds k))) \<and>
    ((\<forall>k \<le> rounds. \<not> hit k) \<longrightarrow>
      snd (hw_monitor_reg mm reg msk val interval_us timeout_us s) = snd (qdma_reg_read mm reg (after_rounds rounds)))"
proof -
  have "(LEAST k. hit k) = k" if "hit k" "\<forall>j < k. \<not> hit j" for k
    using that by (intro Least_equality) (auto simp: not_less [symmetric])
  then show ?thesis unfolding hw_monitor_reg_cases [OF assms(1)] assms(2-4) by auto
qed

theorem hw_monitor_reg_spec_witness:
  "fst (hw_monitor_reg ram 8 1 1 10 50 (\<lambda>_. 0)) = neg_err QDMA_ERR_HWACC_BUSY_TIMEOUT"
proof -
  have r: "poll_rounds 10 50 = 5" by (simp add: poll_rounds_def)
  have "\<not> poll_hit ram 8 1 1 (poll_interval 10) (\<lambda>_. 0) k" for k
  proof -
    have "(poll_round ram 8 (poll_interval 10) ^^ k) (\<lambda>_. 0) = (\<lambda>_. 0)"
      by (induction k) (simp_all add: poll_round_def ram_def)
    then show ?thesis by (simp add: poll_hit_def ram_def)
  qed
  moreover have "0 < poll_rounds 10 50" using r by simp
  note hw_monitor_reg_spec [OF this, of ram 8 1 1 "\<lambda>_. 0"]
  ultimately show ?thesis by auto
qed

text \<open>
  writing a block of control registers and reading it back returns what was written, at every
  index and count whose addresses are plain registers, and no other register changes.
\<close>

theorem csr_values_roundtrip:
  assumes "plain_registers mm val A" and "unat idx + unat cnt \<le> 2 ^ 30"
    and A: "\<forall>k < unat cnt. csr_addr reg_offst idx k \<in> A" and "length vals = unat cnt"
  shows "fst (qdma_read_csr_values mm reg_offst idx cnt (qdma_write_csr_values mm reg_offst idx cnt vals s)) = vals \<and>
    (\<forall>a. (\<forall>k < unat cnt. a \<noteq> csr_addr reg_offst idx k) \<longrightarrow>
      val (qdma_write_csr_values mm reg_offst idx cnt vals s) a = val s a)"
  using csr_write_read [OF assms, where s = s] by simp

theorem csr_values_roundtrip_witness:
  "fst (qdma_read_csr_values ram 0x204 2 3 (qdma_write_csr_values ram 0x204 2 3 [7, 8, 9] (\<lambda>_. 0))) = [7, 8, 9]"
  using csr_values_roundtrip [OF ram_plain [of UNIV], where idx = 2 and cnt = 3 and reg_offst = "0x204"
      and vals = "[7, 8, 9]" and s = "\<lambda>_. 0"] by simp

end
