(* ===== verification/Eqdma_Ind.thy ===== *)
theory Eqdma_Ind
  imports Reg_Access
begin

section \<open>Indirect access to the queue contexts (eqdma\_soft\_access.c)\<close>

text \<open>
  The contexts of the queues live inside the device. The driver reaches them with a command register
  and eight data and eight mask registers: it writes the data, then a command that names the kind of
  context, the queue and the operation, and polls until the busy bit of the command register is clear.
\<close>

datatype ind_ctxt_cmd_op = QDMA_CTXT_CMD_CLR | QDMA_CTXT_CMD_WR | QDMA_CTXT_CMD_RD | QDMA_CTXT_CMD_INV

datatype ind_ctxt_cmd_sel =
    QDMA_CTXT_SEL_SW_C2H | QDMA_CTXT_SEL_SW_H2C | QDMA_CTXT_SEL_HW_C2H | QDMA_CTXT_SEL_HW_H2C
  | QDMA_CTXT_SEL_CR_C2H | QDMA_CTXT_SEL_CR_H2C | QDMA_CTXT_SEL_CMPT | QDMA_CTXT_SEL_PFTCH
  | QDMA_CTXT_SEL_INT_COAL | QDMA_CTXT_SEL_PASID_RAM_LOW | QDMA_CTXT_SEL_PASID_RAM_HIGH
  | QDMA_CTXT_SEL_TIMER | QDMA_CTXT_SEL_FMAP

fun op_code :: "ind_ctxt_cmd_op \<Rightarrow> u32" where
  "op_code QDMA_CTXT_CMD_CLR = 0"
| "op_code QDMA_CTXT_CMD_WR = 1"
| "op_code QDMA_CTXT_CMD_RD = 2"
| "op_code QDMA_CTXT_CMD_INV = 3"

fun sel_code :: "ind_ctxt_cmd_sel \<Rightarrow> u32" where
  "sel_code QDMA_CTXT_SEL_SW_C2H = 0"
| "sel_code QDMA_CTXT_SEL_SW_H2C = 1"
| "sel_code QDMA_CTXT_SEL_HW_C2H = 2"
| "sel_code QDMA_CTXT_SEL_HW_H2C = 3"
| "sel_code QDMA_CTXT_SEL_CR_C2H = 4"
| "sel_code QDMA_CTXT_SEL_CR_H2C = 5"
| "sel_code QDMA_CTXT_SEL_CMPT = 6"
| "sel_code QDMA_CTXT_SEL_PFTCH = 7"
| "sel_code QDMA_CTXT_SEL_INT_COAL = 8"
| "sel_code QDMA_CTXT_SEL_PASID_RAM_LOW = 9"
| "sel_code QDMA_CTXT_SEL_PASID_RAM_HIGH = 10"
| "sel_code QDMA_CTXT_SEL_TIMER = 11"
| "sel_code QDMA_CTXT_SEL_FMAP = 12"

definition EQDMA_IND_CTXT_DATA_ADDR :: u32 where "EQDMA_IND_CTXT_DATA_ADDR = 0x804"
definition EQDMA_IND_CTXT_MASK_ADDR :: u32 where "EQDMA_IND_CTXT_MASK_ADDR = 0x824"
definition EQDMA_IND_CTXT_CMD_ADDR :: u32 where "EQDMA_IND_CTXT_CMD_ADDR = 0x844"
definition IND_CTXT_CMD_BUSY_MASK :: u32 where "IND_CTXT_CMD_BUSY_MASK = BIT 0"
definition QDMA_IND_CTXT_DATA_NUM_REGS :: nat where "QDMA_IND_CTXT_DATA_NUM_REGS = 8"

text \<open>
  The word of \<open>union qdma_ind_ctxt_cmd\<close>: \<open>busy:1, sel:4, op:2, qid:11\<close> from the low end. A queue
  number is cut to 11 bits.
\<close>

definition qdma_ind_ctxt_cmd :: "ind_ctxt_cmd_sel \<Rightarrow> ind_ctxt_cmd_op \<Rightarrow> u16 \<Rightarrow> u32" where
  "qdma_ind_ctxt_cmd sel op hw_qid =
     push_bit 1 (take_bit 4 (sel_code sel)) OR push_bit 5 (take_bit 2 (op_code op)) OR
     push_bit 7 (take_bit 11 (ucast hw_qid))"

definition ind_wait :: "'s mmio \<Rightarrow> 's \<Rightarrow> int \<times> 's" where
  "ind_wait mm s = hw_monitor_reg mm EQDMA_IND_CTXT_CMD_ADDR IND_CTXT_CMD_BUSY_MASK 0
     QDMA_REG_POLL_DFLT_INTERVAL_US QDMA_REG_POLL_DFLT_TIMEOUT_US s"

subsection \<open>The four operations\<close>

definition eqdma_indirect_reg_invalidate :: "'s mmio \<Rightarrow> ind_ctxt_cmd_sel \<Rightarrow> u16 \<Rightarrow> 's \<Rightarrow> int \<times> 's" where
  "eqdma_indirect_reg_invalidate mm sel hw_qid s =
     (let s1 = qdma_reg_access_lock mm s;
          s2 = qdma_reg_write mm EQDMA_IND_CTXT_CMD_ADDR (qdma_ind_ctxt_cmd sel QDMA_CTXT_CMD_INV hw_qid) s1;
          (rv, s3) = ind_wait mm s2
      in if rv \<noteq> 0 then (neg_err QDMA_ERR_HWACC_BUSY_TIMEOUT, qdma_reg_access_release mm s3)
         else (err_code QDMA_SUCCESS, qdma_reg_access_release mm s3))"

definition eqdma_indirect_reg_clear :: "'s mmio \<Rightarrow> ind_ctxt_cmd_sel \<Rightarrow> u16 \<Rightarrow> 's \<Rightarrow> int \<times> 's" where
  "eqdma_indirect_reg_clear mm sel hw_qid s =
     (let s1 = qdma_reg_access_lock mm s;
          s2 = qdma_reg_write mm EQDMA_IND_CTXT_CMD_ADDR (qdma_ind_ctxt_cmd sel QDMA_CTXT_CMD_CLR hw_qid) s1;
          (rv, s3) = ind_wait mm s2
      in if rv \<noteq> 0 then (neg_err QDMA_ERR_HWACC_BUSY_TIMEOUT, qdma_reg_access_release mm s3)
         else (err_code QDMA_SUCCESS, qdma_reg_access_release mm s3))"

text \<open>Consecutive registers, four bytes apart.\<close>

fun read_regs :: "'s mmio \<Rightarrow> u32 \<Rightarrow> nat \<Rightarrow> 's \<Rightarrow> u32 list \<times> 's" where
  "read_regs mm reg_addr 0 s = ([], s)"
| "read_regs mm reg_addr (Suc n) s =
     (let (v, s1) = qdma_reg_read mm reg_addr s;
          (vs, s2) = read_regs mm (reg_addr + 4) n s1
      in (v # vs, s2))"

fun write_regs :: "'s mmio \<Rightarrow> u32 \<Rightarrow> u32 list \<Rightarrow> 's \<Rightarrow> 's" where
  "write_regs mm reg_addr [] s = s"
| "write_regs mm reg_addr (v # vs) s = write_regs mm (reg_addr + 4) vs (qdma_reg_write mm reg_addr v s)"

definition eqdma_indirect_reg_read :: "'s mmio \<Rightarrow> ind_ctxt_cmd_sel \<Rightarrow> u16 \<Rightarrow> nat \<Rightarrow> 's \<Rightarrow> (int + u32 list) \<times> 's" where
  "eqdma_indirect_reg_read mm sel hw_qid cnt s =
     (let s1 = qdma_reg_access_lock mm s;
          s2 = qdma_reg_write mm EQDMA_IND_CTXT_CMD_ADDR (qdma_ind_ctxt_cmd sel QDMA_CTXT_CMD_RD hw_qid) s1;
          (rv, s3) = ind_wait mm s2
      in if rv \<noteq> 0 then (Inl (neg_err QDMA_ERR_HWACC_BUSY_TIMEOUT), qdma_reg_access_release mm s3)
         else (let (data, s4) = read_regs mm EQDMA_IND_CTXT_DATA_ADDR cnt s3
               in (Inr data, qdma_reg_access_release mm s4)))"

text \<open>
  A write fills the eight data words (zero past the context's own words), all ones as masks, and the
  command, and writes the seventeen registers in this order.
\<close>

definition ind_ctxt_regs :: "ind_ctxt_cmd_sel \<Rightarrow> u16 \<Rightarrow> u32 list \<Rightarrow> u32 list" where
  "ind_ctxt_regs sel hw_qid data =
     map (\<lambda>i. if i < length data then data ! i else 0) [0..<QDMA_IND_CTXT_DATA_NUM_REGS] @
     replicate QDMA_IND_CTXT_DATA_NUM_REGS 0xFFFFFFFF @ [qdma_ind_ctxt_cmd sel QDMA_CTXT_CMD_WR hw_qid]"

definition eqdma_indirect_reg_write :: "'s mmio \<Rightarrow> ind_ctxt_cmd_sel \<Rightarrow> u16 \<Rightarrow> u32 list \<Rightarrow> 's \<Rightarrow> int \<times> 's" where
  "eqdma_indirect_reg_write mm sel hw_qid data s =
     (let s1 = qdma_reg_access_lock mm s;
          s2 = write_regs mm EQDMA_IND_CTXT_DATA_ADDR (ind_ctxt_regs sel hw_qid data) s1;
          (rv, s3) = ind_wait mm s2
      in if rv \<noteq> 0 then (neg_err QDMA_ERR_HWACC_BUSY_TIMEOUT, qdma_reg_access_release mm s3)
         else (err_code QDMA_SUCCESS, qdma_reg_access_release mm s3))"

subsection \<open>What the driver relies on\<close>

text \<open>
  The documented behaviour of the device, stated over a view of its state: the data and mask registers
  and the contexts, by selector and queue. Writing a data or a mask register changes just that; a write
  command merges the data into the context under the masks, a read command loads the data registers,
  a clear command zeroes the context and an invalidate command changes no other context. Reads,
  delays and the lock have no effect on the view.
\<close>

record ind_view =
  data_regs :: "nat \<Rightarrow> u32"
  mask_regs :: "nat \<Rightarrow> u32"
  ctxts :: "u32 \<Rightarrow> u32 \<Rightarrow> nat \<Rightarrow> u32"

definition set_ctxt :: "u32 \<Rightarrow> u32 \<Rightarrow> (nat \<Rightarrow> u32) \<Rightarrow> ind_view \<Rightarrow> ind_view" where
  "set_ctxt sel qid c v = v\<lparr>ctxts := (ctxts v)(sel := (ctxts v sel)(qid := c))\<rparr>"

definition ind_qid :: "u16 \<Rightarrow> u32" where
  "ind_qid hw_qid = take_bit 11 (ucast hw_qid)"

definition data_write_law :: "'s mmio \<Rightarrow> ('s \<Rightarrow> ind_view) \<Rightarrow> bool" where
  "data_write_law mm view \<longleftrightarrow>
     (\<forall>i < 8. \<forall>v s. view (qdma_reg_write mm (EQDMA_IND_CTXT_DATA_ADDR + 4 * of_nat i) v s) =
        (view s)\<lparr>data_regs := (data_regs (view s))(i := v)\<rparr>) \<and>
     (\<forall>i < 8. \<forall>v s. view (qdma_reg_write mm (EQDMA_IND_CTXT_MASK_ADDR + 4 * of_nat i) v s) =
        (view s)\<lparr>mask_regs := (mask_regs (view s))(i := v)\<rparr>)"

definition command_law :: "'s mmio \<Rightarrow> ('s \<Rightarrow> ind_view) \<Rightarrow> bool" where
  "command_law mm view \<longleftrightarrow> (\<forall>sel q s.
     view (qdma_reg_write mm EQDMA_IND_CTXT_CMD_ADDR (qdma_ind_ctxt_cmd sel QDMA_CTXT_CMD_WR q) s) =
       set_ctxt (sel_code sel) (ind_qid q)
         (\<lambda>i. (data_regs (view s) i AND mask_regs (view s) i) OR
              (ctxts (view s) (sel_code sel) (ind_qid q) i AND NOT (mask_regs (view s) i))) (view s) \<and>
     view (qdma_reg_write mm EQDMA_IND_CTXT_CMD_ADDR (qdma_ind_ctxt_cmd sel QDMA_CTXT_CMD_RD q) s) =
       (view s)\<lparr>data_regs := ctxts (view s) (sel_code sel) (ind_qid q)\<rparr> \<and>
     view (qdma_reg_write mm EQDMA_IND_CTXT_CMD_ADDR (qdma_ind_ctxt_cmd sel QDMA_CTXT_CMD_CLR q) s) =
       set_ctxt (sel_code sel) (ind_qid q) (\<lambda>_. 0) (view s) \<and>
     (\<exists>c. view (qdma_reg_write mm EQDMA_IND_CTXT_CMD_ADDR (qdma_ind_ctxt_cmd sel QDMA_CTXT_CMD_INV q) s) =
       set_ctxt (sel_code sel) (ind_qid q) c (view s)))"

definition quiet_law :: "'s mmio \<Rightarrow> ('s \<Rightarrow> ind_view) \<Rightarrow> bool" where
  "quiet_law mm view \<longleftrightarrow>
     (\<forall>a s. view (snd (qdma_reg_read mm a s)) = view s) \<and> (\<forall>d s. view (qdma_udelay mm d s) = view s) \<and>
     (\<forall>s. view (qdma_reg_access_lock mm s) = view s) \<and> (\<forall>s. view (qdma_reg_access_release mm s) = view s) \<and>
     (\<forall>i < 8. \<forall>s. fst (qdma_reg_read mm (EQDMA_IND_CTXT_DATA_ADDR + 4 * of_nat i) s) = data_regs (view s) i)"

definition context_device :: "'s mmio \<Rightarrow> ('s \<Rightarrow> ind_view) \<Rightarrow> bool" where
  "context_device mm view \<longleftrightarrow> data_write_law mm view \<and> command_law mm view \<and> quiet_law mm view"

text \<open>The device completes a command before the driver's polling gives up.\<close>

definition responsive :: "'s mmio \<Rightarrow> bool" where
  "responsive mm \<longleftrightarrow> (\<forall>s. fst (ind_wait mm s) = 0)"


subsection \<open>The effect of each operation on the contexts\<close>

lemma dflt_poll: "poll_rounds QDMA_REG_POLL_DFLT_INTERVAL_US QDMA_REG_POLL_DFLT_TIMEOUT_US = 50000"
  by (simp add: poll_rounds_def QDMA_REG_POLL_DFLT_INTERVAL_US_def QDMA_REG_POLL_DFLT_TIMEOUT_US_def)

lemma ind_wait_cases:
  "fst (ind_wait mm s) \<in> {0, neg_err QDMA_ERR_HWACC_BUSY_TIMEOUT} \<and>
   (\<exists>k. snd (ind_wait mm s) = snd (qdma_reg_read mm EQDMA_IND_CTXT_CMD_ADDR
     ((poll_round mm EQDMA_IND_CTXT_CMD_ADDR (poll_interval QDMA_REG_POLL_DFLT_INTERVAL_US) ^^ k) s)))"
proof -
  have "0 < poll_rounds QDMA_REG_POLL_DFLT_INTERVAL_US QDMA_REG_POLL_DFLT_TIMEOUT_US"
    by (simp add: dflt_poll)
  note h = hw_monitor_reg_cases [OF this, of mm EQDMA_IND_CTXT_CMD_ADDR IND_CTXT_CMD_BUSY_MASK 0 s]
  show ?thesis
    unfolding ind_wait_def h by (simp only: split: if_split) (simp, blast)
qed

text \<open>Whatever reads, delays, locks and releases keep is kept while the driver waits.\<close>

lemma ind_wait_keeps:
  assumes "\<And>a s. f (snd (qdma_reg_read mm a s)) = f s" and "\<And>d s. f (qdma_udelay mm d s) = f s"
  shows "f (snd (ind_wait mm s)) = f s"
proof -
  have "f ((poll_round mm reg d ^^ k) s) = f s" for reg d k
    by (induction k) (simp_all add: poll_round_def assms)
  then show ?thesis using ind_wait_cases [of mm s] by (auto simp: assms)
qed

lemma read_regs_keeps:
  assumes "\<And>a s. f (snd (qdma_reg_read mm a s)) = f s"
  shows "f (snd (read_regs mm a n s)) = f s"
proof (induction n arbitrary: a s)
  case (Suc n)
  then show ?case using assms by (simp add: case_prod_beta Let_def)
qed simp

lemma write_regs_append:
  "write_regs mm a (xs @ ys) s = write_regs mm (a + 4 * of_nat (length xs)) ys (write_regs mm a xs s)"
  by (induction xs arbitrary: a s) (simp_all add: algebra_simps)

lemma write_data_regs:
  assumes "data_write_law mm view" and "j + length vs \<le> 8"
  shows "view (write_regs mm (EQDMA_IND_CTXT_DATA_ADDR + 4 * of_nat j) vs s) =
    (view s)\<lparr>data_regs := (\<lambda>i. if j \<le> i \<and> i < j + length vs then vs ! (i - j) else data_regs (view s) i)\<rparr>"
  using assms(2)
proof (induction vs arbitrary: j s)
  case (Cons v vs)
  have a: "EQDMA_IND_CTXT_DATA_ADDR + 4 * of_nat j + 4 = EQDMA_IND_CTXT_DATA_ADDR + 4 * of_nat (Suc j)"
    by (simp add: algebra_simps)
  have w: "view (qdma_reg_write mm (EQDMA_IND_CTXT_DATA_ADDR + 4 * of_nat j) v s) =
      (view s)\<lparr>data_regs := (data_regs (view s))(j := v)\<rparr>"
    using assms(1) Cons.prems by (simp add: data_write_law_def)
  have ih: "view (write_regs mm (EQDMA_IND_CTXT_DATA_ADDR + 4 * of_nat (Suc j)) vs s') =
    (view s')\<lparr>data_regs := (\<lambda>i. if Suc j \<le> i \<and> i < Suc j + length vs then vs ! (i - Suc j) else data_regs (view s') i)\<rparr>" for s'
    using Cons.prems by (intro Cons.IH) simp
  show ?case
    unfolding write_regs.simps a ih w by (auto simp: fun_eq_iff nth_Cons' not_less_eq_eq)
qed (auto intro!: ind_view.equality ext)

lemma write_mask_regs:
  assumes "data_write_law mm view" and "j + length vs \<le> 8"
  shows "view (write_regs mm (EQDMA_IND_CTXT_MASK_ADDR + 4 * of_nat j) vs s) =
    (view s)\<lparr>mask_regs := (\<lambda>i. if j \<le> i \<and> i < j + length vs then vs ! (i - j) else mask_regs (view s) i)\<rparr>"
  using assms(2)
proof (induction vs arbitrary: j s)
  case (Cons v vs)
  have a: "EQDMA_IND_CTXT_MASK_ADDR + 4 * of_nat j + 4 = EQDMA_IND_CTXT_MASK_ADDR + 4 * of_nat (Suc j)"
    by (simp add: algebra_simps)
  have w: "view (qdma_reg_write mm (EQDMA_IND_CTXT_MASK_ADDR + 4 * of_nat j) v s) =
      (view s)\<lparr>mask_regs := (mask_regs (view s))(j := v)\<rparr>"
    using assms(1) Cons.prems by (simp add: data_write_law_def)
  have ih: "view (write_regs mm (EQDMA_IND_CTXT_MASK_ADDR + 4 * of_nat (Suc j)) vs s') =
    (view s')\<lparr>mask_regs := (\<lambda>i. if Suc j \<le> i \<and> i < Suc j + length vs then vs ! (i - Suc j) else mask_regs (view s') i)\<rparr>" for s'
    using Cons.prems by (intro Cons.IH) simp
  show ?case
    unfolding write_regs.simps a ih w by (auto simp: fun_eq_iff nth_Cons' not_less_eq_eq)
qed (auto intro!: ind_view.equality ext)

lemma context_deviceD:
  assumes "context_device mm view"
  shows "view (snd (qdma_reg_read mm a s)) = view s" and "view (qdma_udelay mm d s) = view s"
    and "view (qdma_reg_access_lock mm s) = view s" and "view (qdma_reg_access_release mm s) = view s"
    and "view (snd (ind_wait mm s)) = view s"
proof -
  have q: "quiet_law mm view" using assms by (simp add: context_device_def)
  then show "view (snd (qdma_reg_read mm a s)) = view s" "view (qdma_udelay mm d s) = view s"
    "view (qdma_reg_access_lock mm s) = view s" "view (qdma_reg_access_release mm s) = view s"
    by (simp_all add: quiet_law_def)
  show "view (snd (ind_wait mm s)) = view s"
    by (rule ind_wait_keeps) (use q in \<open>simp_all add: quiet_law_def\<close>)
qed

text \<open>The words of a context, as an invariant of its own: past the words written there are zeros.\<close>

definition padded :: "u32 list \<Rightarrow> nat \<Rightarrow> u32" where
  "padded data i = (if i < length data then data ! i else 0)"

lemma indirect_write_effect:
  fixes mm :: "'s mmio" and s :: 's and data :: "u32 list" and sel q
  assumes "context_device mm view"
  defines "s' \<equiv> snd (eqdma_indirect_reg_write mm sel q data s)"
  shows "i < 8 \<Longrightarrow> ctxts (view s') (sel_code sel) (ind_qid q) i = padded data i"
    and "(sel', q') \<noteq> (sel_code sel, ind_qid q) \<Longrightarrow> ctxts (view s') sel' q' = ctxts (view s) sel' q'"
    and "responsive mm \<Longrightarrow> fst (eqdma_indirect_reg_write mm sel q data s) = 0"
proof -
  note keeps = context_deviceD [OF assms(1)]
  have l: "data_write_law mm view" "command_law mm view" using assms(1) by (simp_all add: context_device_def)
  let ?d = "map (\<lambda>i. if i < length data then data ! i else 0) [0..<8]"
  let ?m = "replicate 8 (0xFFFFFFFF :: u32)"
  let ?cmd = "qdma_ind_ctxt_cmd sel QDMA_CTXT_CMD_WR q"
  define s1 where "s1 = write_regs mm EQDMA_IND_CTXT_DATA_ADDR ?d (qdma_reg_access_lock mm s)"
  define s2 where "s2 = write_regs mm EQDMA_IND_CTXT_MASK_ADDR ?m s1"
  have a: "EQDMA_IND_CTXT_DATA_ADDR + 4 * of_nat (length ?d) = EQDMA_IND_CTXT_MASK_ADDR"
    "EQDMA_IND_CTXT_MASK_ADDR + 4 * of_nat (length ?m) = EQDMA_IND_CTXT_CMD_ADDR"
    by (simp_all add: EQDMA_IND_CTXT_DATA_ADDR_def EQDMA_IND_CTXT_MASK_ADDR_def EQDMA_IND_CTXT_CMD_ADDR_def)
  have w: "write_regs mm EQDMA_IND_CTXT_DATA_ADDR (ind_ctxt_regs sel q data) (qdma_reg_access_lock mm s) =
    qdma_reg_write mm EQDMA_IND_CTXT_CMD_ADDR ?cmd s2"
    unfolding ind_ctxt_regs_def QDMA_IND_CTXT_DATA_NUM_REGS_def write_regs_append a s1_def s2_def
    by (simp only: write_regs.simps)
  have v1: "view s1 = (view s)\<lparr>data_regs := (\<lambda>i. if i < 8 then ?d ! i else data_regs (view s) i)\<rparr>"
    unfolding s1_def using write_data_regs [OF l(1), of 0 ?d "qdma_reg_access_lock mm s"]
    by (simp add: keeps cong: if_cong)
  have v2: "view s2 = (view s1)\<lparr>mask_regs := (\<lambda>i. if i < 8 then ?m ! i else mask_regs (view s1) i)\<rparr>"
    unfolding s2_def using write_mask_regs [OF l(1), of 0 ?m s1] by (simp cong: if_cong)
  have v': "view s' = view (qdma_reg_write mm EQDMA_IND_CTXT_CMD_ADDR ?cmd s2)"
    unfolding s'_def eqdma_indirect_reg_write_def Let_def w by (auto simp: keeps split: prod.splits)
      (metis keeps(5) snd_conv)+
  have c: "view s' = set_ctxt (sel_code sel) (ind_qid q)
         (\<lambda>i. (data_regs (view s2) i AND mask_regs (view s2) i) OR
              (ctxts (view s2) (sel_code sel) (ind_qid q) i AND NOT (mask_regs (view s2) i))) (view s2)"
    unfolding v' using l(2) by (simp add: command_law_def)
  show "ctxts (view s') (sel_code sel) (ind_qid q) i = padded data i" if "i < 8"
  proof -
    have ones: "(0xFFFFFFFF :: u32) = - 1" by simp
    show ?thesis using that by (simp add: c v2 v1 set_ctxt_def padded_def ones)
  qed
  show "ctxts (view s') sel' q' = ctxts (view s) sel' q'" if "(sel', q') \<noteq> (sel_code sel, ind_qid q)"
    using that by (auto simp: c v2 v1 set_ctxt_def)
  show "fst (eqdma_indirect_reg_write mm sel q data s) = 0" if "responsive mm"
    using that unfolding eqdma_indirect_reg_write_def Let_def responsive_def
    by (auto split: prod.splits) (metis fst_conv)
qed


lemma read_regs_data:
  assumes "context_device mm view" and "j + n \<le> 8"
  shows "fst (read_regs mm (EQDMA_IND_CTXT_DATA_ADDR + 4 * of_nat j) n s) = map (data_regs (view s)) [j..<j + n]"
  using assms(2)
proof (induction n arbitrary: j s)
  case (Suc n)
  have a: "EQDMA_IND_CTXT_DATA_ADDR + 4 * of_nat j + 4 = EQDMA_IND_CTXT_DATA_ADDR + 4 * of_nat (Suc j)"
    by (simp add: algebra_simps)
  obtain v s1 where r: "qdma_reg_read mm (EQDMA_IND_CTXT_DATA_ADDR + 4 * of_nat j) s = (v, s1)" by fastforce
  have "v = data_regs (view s) j"
  proof -
    have "fst (qdma_reg_read mm (EQDMA_IND_CTXT_DATA_ADDR + 4 * of_nat j) s) = data_regs (view s) j"
      using assms(1) Suc.prems by (simp add: context_device_def quiet_law_def)
    with r show ?thesis by simp
  qed
  moreover have "view s1 = view s" using context_deviceD(1) [OF assms(1)] r by (metis snd_conv)
  moreover have "fst (read_regs mm (EQDMA_IND_CTXT_DATA_ADDR + 4 * of_nat (Suc j)) n s1) =
    map (data_regs (view s1)) [Suc j..<Suc j + n]" using Suc.prems by (intro Suc.IH) simp
  moreover have "[j..<j + Suc n] = j # [Suc j..<Suc j + n]" by (simp add: upt_conv_Cons)
  ultimately show ?case
    by (simp only: read_regs.simps r Let_def prod.case case_prod_beta a fst_conv snd_conv list.map)
qed simp

lemma indirect_read_effect:
  assumes "context_device mm view" and "n \<le> 8"
  shows "case eqdma_indirect_reg_read mm sel q n s of
      (Inl e, s') \<Rightarrow> e = neg_err QDMA_ERR_HWACC_BUSY_TIMEOUT \<and> ctxts (view s') = ctxts (view s)
    | (Inr d, s') \<Rightarrow> d = map (ctxts (view s) (sel_code sel) (ind_qid q)) [0..<n] \<and> ctxts (view s') = ctxts (view s)"
    and "responsive mm \<Longrightarrow> \<exists>d s'. eqdma_indirect_reg_read mm sel q n s = (Inr d, s')"
proof -
  note keeps = context_deviceD [OF assms(1)]
  let ?s2 = "qdma_reg_write mm EQDMA_IND_CTXT_CMD_ADDR (qdma_ind_ctxt_cmd sel QDMA_CTXT_CMD_RD q) (qdma_reg_access_lock mm s)"
  obtain rv s3 where w: "ind_wait mm ?s2 = (rv, s3)" by fastforce
  have v2: "view ?s2 = (view s)\<lparr>data_regs := ctxts (view s) (sel_code sel) (ind_qid q)\<rparr>"
    using assms(1) keeps by (simp add: context_device_def command_law_def)
  have v3: "view s3 = view ?s2" using keeps(5) [of ?s2] w by simp
  obtain d s4 where r: "read_regs mm EQDMA_IND_CTXT_DATA_ADDR n s3 = (d, s4)" by fastforce
  have "d = map (data_regs (view s3)) [0..<n]"
    using read_regs_data [OF assms(1), of 0 n s3] assms(2) r by simp
  moreover have "view s4 = view s3"
    using read_regs_keeps [of view mm EQDMA_IND_CTXT_DATA_ADDR n s3] keeps(1) r by simp
  ultimately show "case eqdma_indirect_reg_read mm sel q n s of
      (Inl e, s') \<Rightarrow> e = neg_err QDMA_ERR_HWACC_BUSY_TIMEOUT \<and> ctxts (view s') = ctxts (view s)
    | (Inr d, s') \<Rightarrow> d = map (ctxts (view s) (sel_code sel) (ind_qid q)) [0..<n] \<and> ctxts (view s') = ctxts (view s)"
    by (simp add: eqdma_indirect_reg_read_def Let_def w r keeps v3 v2)
  show "\<exists>d s'. eqdma_indirect_reg_read mm sel q n s = (Inr d, s')" if "responsive mm"
  proof -
    have "rv = 0" using that w unfolding responsive_def by (metis fst_conv)
    then show ?thesis by (simp add: eqdma_indirect_reg_read_def Let_def w r)
  qed
qed

lemma indirect_command_effect:
  assumes "context_device mm view"
  shows "ctxts (view (snd (eqdma_indirect_reg_clear mm sel q s))) =
      (ctxts (view s))(sel_code sel := (ctxts (view s) (sel_code sel))(ind_qid q := (\<lambda>_. 0)))"
    and "\<exists>c. ctxts (view (snd (eqdma_indirect_reg_invalidate mm sel q s))) =
      (ctxts (view s))(sel_code sel := (ctxts (view s) (sel_code sel))(ind_qid q := c))"
proof -
  note keeps = context_deviceD [OF assms]
  let ?w = "\<lambda>op. qdma_reg_write mm EQDMA_IND_CTXT_CMD_ADDR (qdma_ind_ctxt_cmd sel op q) (qdma_reg_access_lock mm s)"
  have "view (snd (eqdma_indirect_reg_clear mm sel q s)) = view (?w QDMA_CTXT_CMD_CLR)"
    by (cases "ind_wait mm (?w QDMA_CTXT_CMD_CLR)")
      (use keeps(5) [of "?w QDMA_CTXT_CMD_CLR"] in \<open>simp add: eqdma_indirect_reg_clear_def Let_def keeps(4)\<close>)
  then show "ctxts (view (snd (eqdma_indirect_reg_clear mm sel q s))) =
      (ctxts (view s))(sel_code sel := (ctxts (view s) (sel_code sel))(ind_qid q := (\<lambda>_. 0)))"
    using assms keeps(3) by (simp add: context_device_def command_law_def set_ctxt_def)
  have i: "view (snd (eqdma_indirect_reg_invalidate mm sel q s)) = view (?w QDMA_CTXT_CMD_INV)"
    by (cases "ind_wait mm (?w QDMA_CTXT_CMD_INV)")
      (use keeps(5) [of "?w QDMA_CTXT_CMD_INV"] in \<open>simp add: eqdma_indirect_reg_invalidate_def Let_def keeps(4)\<close>)
  have "\<exists>c. view (?w QDMA_CTXT_CMD_INV) = set_ctxt (sel_code sel) (ind_qid q) c (view (qdma_reg_access_lock mm s))"
    using assms unfolding context_device_def command_law_def by blast
  then show "\<exists>c. ctxts (view (snd (eqdma_indirect_reg_invalidate mm sel q s))) =
      (ctxts (view s))(sel_code sel := (ctxts (view s) (sel_code sel))(ind_qid q := c))"
    unfolding i keeps(3) by (auto simp: set_ctxt_def)
qed

subsection \<open>A concrete device\<close>

definition sim_index :: "u32 \<Rightarrow> u32 \<Rightarrow> nat option" where
  "sim_index base a = find (\<lambda>i. a = base + 4 * of_nat i) [0..<8]"

definition sim_write :: "u32 \<Rightarrow> u32 \<Rightarrow> ind_view \<Rightarrow> ind_view" where
  "sim_write a v s =
     (if a = EQDMA_IND_CTXT_CMD_ADDR then
        (let sel = take_bit 4 (drop_bit 1 v); op = take_bit 2 (drop_bit 5 v); qid = take_bit 11 (drop_bit 7 v)
         in if op = 1 then set_ctxt sel qid (\<lambda>i. (data_regs s i AND mask_regs s i) OR
                 (ctxts s sel qid i AND NOT (mask_regs s i))) s
            else if op = 2 then s\<lparr>data_regs := ctxts s sel qid\<rparr>
            else set_ctxt sel qid (\<lambda>_. 0) s)
      else case sim_index EQDMA_IND_CTXT_DATA_ADDR a of
             Some i \<Rightarrow> s\<lparr>data_regs := (data_regs s)(i := v)\<rparr>
           | None \<Rightarrow> (case sim_index EQDMA_IND_CTXT_MASK_ADDR a of
               Some i \<Rightarrow> s\<lparr>mask_regs := (mask_regs s)(i := v)\<rparr> | None \<Rightarrow> s))"

definition sim :: "ind_view mmio" where
  "sim = \<lparr>qdma_reg_read = (\<lambda>a s. (case sim_index EQDMA_IND_CTXT_DATA_ADDR a of Some i \<Rightarrow> data_regs s i | None \<Rightarrow> 0, s)),
          qdma_reg_write = sim_write, qdma_udelay = (\<lambda>_ s. s),
          qdma_reg_access_lock = id, qdma_reg_access_release = id\<rparr>"

definition sim_start :: ind_view where
  "sim_start = \<lparr>data_regs = (\<lambda>_. 0), mask_regs = (\<lambda>_. 0), ctxts = (\<lambda>_ _ _. 0)\<rparr>"

lemma less_8_cases: "(i :: nat) < 8 \<Longrightarrow> i \<in> {0, 1, 2, 3, 4, 5, 6, 7}"
  by auto

lemma sim_index_eval:
  assumes "i < 8"
  shows "sim_index EQDMA_IND_CTXT_DATA_ADDR (EQDMA_IND_CTXT_DATA_ADDR + 4 * of_nat i) = Some i"
    and "sim_index EQDMA_IND_CTXT_DATA_ADDR (EQDMA_IND_CTXT_MASK_ADDR + 4 * of_nat i) = None"
    and "sim_index EQDMA_IND_CTXT_MASK_ADDR (EQDMA_IND_CTXT_MASK_ADDR + 4 * of_nat i) = Some i"
    and "EQDMA_IND_CTXT_DATA_ADDR + 4 * of_nat i \<noteq> EQDMA_IND_CTXT_CMD_ADDR"
    and "EQDMA_IND_CTXT_MASK_ADDR + 4 * of_nat i \<noteq> EQDMA_IND_CTXT_CMD_ADDR"
  using less_8_cases [OF assms]
  by (auto simp: sim_index_def EQDMA_IND_CTXT_DATA_ADDR_def EQDMA_IND_CTXT_MASK_ADDR_def
      EQDMA_IND_CTXT_CMD_ADDR_def upt_rec)

lemma pick_field:
  fixes a b c :: u32
  assumes "k + n \<le> m" and "m + n' \<le> m'" and "m' + n'' \<le> 32"
  defines "w \<equiv> push_bit k (take_bit n a) OR push_bit m (take_bit n' b) OR push_bit m' (take_bit n'' c)"
  shows "take_bit n (drop_bit k w) = take_bit n a" and "take_bit n' (drop_bit m w) = take_bit n' b"
    and "take_bit n'' (drop_bit m' w) = take_bit n'' c"
  by (rule bit_word_eqI; use assms(1-3) in \<open>auto simp: w_def bit_simps\<close>)+

lemma cmd_fields:
  "take_bit 4 (drop_bit 1 (qdma_ind_ctxt_cmd sel op q)) = sel_code sel"
  "take_bit 2 (drop_bit 5 (qdma_ind_ctxt_cmd sel op q)) = op_code op"
  "take_bit 11 (drop_bit 7 (qdma_ind_ctxt_cmd sel op q)) = ind_qid q"
proof -
  have "take_bit 4 (sel_code sel) = sel_code sel" by (cases sel) simp_all
  moreover have "take_bit 2 (op_code op) = op_code op" by (cases op) simp_all
  moreover note pick_field [of 1 4 5 2 7 11 "sel_code sel" "op_code op" "ucast q"]
  ultimately show
    "take_bit 4 (drop_bit 1 (qdma_ind_ctxt_cmd sel op q)) = sel_code sel"
    "take_bit 2 (drop_bit 5 (qdma_ind_ctxt_cmd sel op q)) = op_code op"
    "take_bit 11 (drop_bit 7 (qdma_ind_ctxt_cmd sel op q)) = ind_qid q"
    unfolding qdma_ind_ctxt_cmd_def ind_qid_def by simp_all
qed

lemma sim_context_device: "context_device sim (\<lambda>s. s)"
proof -
  have "data_write_law sim (\<lambda>s. s)"
    by (simp add: data_write_law_def sim_def sim_write_def sim_index_eval)
  moreover have "command_law sim (\<lambda>s. s)"
    by (auto simp: command_law_def sim_def sim_write_def Let_def cmd_fields [unfolded One_nat_def])
  moreover have "quiet_law sim (\<lambda>s. s)"
    by (simp add: quiet_law_def sim_def sim_index_eval)
  ultimately show ?thesis by (simp add: context_device_def)
qed

lemma sim_responsive: "responsive sim"
proof -
  have "sim_index EQDMA_IND_CTXT_DATA_ADDR EQDMA_IND_CTXT_CMD_ADDR = None"
    by (simp add: sim_index_def EQDMA_IND_CTXT_DATA_ADDR_def EQDMA_IND_CTXT_CMD_ADDR_def upt_rec)
  then have h: "poll_hit sim EQDMA_IND_CTXT_CMD_ADDR IND_CTXT_CMD_BUSY_MASK 0 i s 0" for i s
    by (simp add: poll_hit_def sim_def)
  have "0 < poll_rounds QDMA_REG_POLL_DFLT_INTERVAL_US QDMA_REG_POLL_DFLT_TIMEOUT_US"
    by (simp add: dflt_poll)
  note c = hw_monitor_reg_cases [OF this, of sim EQDMA_IND_CTXT_CMD_ADDR IND_CTXT_CMD_BUSY_MASK 0]
  show ?thesis
    unfolding responsive_def ind_wait_def c using h by auto
qed


subsection \<open>The register lock\<close>

text \<open>
  A bus that watches its lock: \<open>held\<close> tells whether it is taken and \<open>clean\<close> that so far nobody took
  a lock twice, gave back one that was not taken, or accessed a register without it.
\<close>

definition lock_monitor :: "'s mmio \<Rightarrow> ('s \<Rightarrow> bool) \<Rightarrow> ('s \<Rightarrow> bool) \<Rightarrow> bool" where
  "lock_monitor mm held clean \<longleftrightarrow> (\<forall>s.
     held (qdma_reg_access_lock mm s) \<and> (clean (qdma_reg_access_lock mm s) \<longleftrightarrow> clean s \<and> \<not> held s) \<and>
     \<not> held (qdma_reg_access_release mm s) \<and> (clean (qdma_reg_access_release mm s) \<longleftrightarrow> clean s \<and> held s) \<and>
     (\<forall>a. held (snd (qdma_reg_read mm a s)) = held s \<and> (clean (snd (qdma_reg_read mm a s)) \<longleftrightarrow> clean s \<and> held s)) \<and>
     (\<forall>a v. held (qdma_reg_write mm a v s) = held s \<and> (clean (qdma_reg_write mm a v s) \<longleftrightarrow> clean s \<and> held s)) \<and>
     (\<forall>d. held (qdma_udelay mm d s) = held s \<and> clean (qdma_udelay mm d s) = clean s))"

lemma ind_wait_inv:
  assumes "\<And>a s. P s \<Longrightarrow> P (snd (qdma_reg_read mm a s))" and "\<And>d s. P s \<Longrightarrow> P (qdma_udelay mm d s)" and "P s"
  shows "P (snd (ind_wait mm s))"
proof -
  have "P ((poll_round mm reg d ^^ k) s)" for reg d k
    by (induction k) (simp_all add: poll_round_def assms)
  then show ?thesis using ind_wait_cases [of mm s] assms(1) by auto
qed

lemma read_regs_inv:
  assumes "\<And>a s. P s \<Longrightarrow> P (snd (qdma_reg_read mm a s))"
  shows "P s \<Longrightarrow> P (snd (read_regs mm a n s))"
  by (induction n arbitrary: a s) (simp_all add: case_prod_beta Let_def assms)

lemma write_regs_inv:
  assumes "\<And>a v s. P s \<Longrightarrow> P (qdma_reg_write mm a v s)"
  shows "P s \<Longrightarrow> P (write_regs mm a vs s)"
  by (induction vs arbitrary: a s) (simp_all add: assms)

text \<open>Every operation takes the lock, works under some invariant and gives the lock back.\<close>

lemma indirect_bracket:
  assumes "\<And>a s. P s \<Longrightarrow> P (snd (qdma_reg_read mm a s))" and "\<And>d s. P s \<Longrightarrow> P (qdma_udelay mm d s)"
    and "\<And>a v s. P s \<Longrightarrow> P (qdma_reg_write mm a v s)" and "P (qdma_reg_access_lock mm s)"
  shows "\<exists>s'. P s' \<and> snd (eqdma_indirect_reg_write mm sel q data s) = qdma_reg_access_release mm s'"
    and "\<exists>s'. P s' \<and> snd (eqdma_indirect_reg_read mm sel q n s) = qdma_reg_access_release mm s'"
    and "\<exists>s'. P s' \<and> snd (eqdma_indirect_reg_clear mm sel q s) = qdma_reg_access_release mm s'"
    and "\<exists>s'. P s' \<and> snd (eqdma_indirect_reg_invalidate mm sel q s) = qdma_reg_access_release mm s'"
proof -
  note w = ind_wait_inv [of P mm, OF assms(1,2)]
  have c: "P (snd (ind_wait mm (qdma_reg_write mm EQDMA_IND_CTXT_CMD_ADDR v (qdma_reg_access_lock mm s))))" for v
    by (intro w assms(3,4))
  have "P (snd (ind_wait mm (write_regs mm EQDMA_IND_CTXT_DATA_ADDR (ind_ctxt_regs sel q data) (qdma_reg_access_lock mm s))))"
    by (intro w write_regs_inv [of P, OF assms(3)] assms(4))
  then show "\<exists>s'. P s' \<and> snd (eqdma_indirect_reg_write mm sel q data s) = qdma_reg_access_release mm s'"
    by (auto simp: eqdma_indirect_reg_write_def Let_def split: prod.splits)
  show "\<exists>s'. P s' \<and> snd (eqdma_indirect_reg_clear mm sel q s) = qdma_reg_access_release mm s'"
    using c [of "qdma_ind_ctxt_cmd sel QDMA_CTXT_CMD_CLR q"]
    by (auto simp: eqdma_indirect_reg_clear_def Let_def split: prod.splits)
  show "\<exists>s'. P s' \<and> snd (eqdma_indirect_reg_invalidate mm sel q s) = qdma_reg_access_release mm s'"
    using c [of "qdma_ind_ctxt_cmd sel QDMA_CTXT_CMD_INV q"]
    by (auto simp: eqdma_indirect_reg_invalidate_def Let_def split: prod.splits)
  obtain rv s3 where 3: "ind_wait mm (qdma_reg_write mm EQDMA_IND_CTXT_CMD_ADDR
      (qdma_ind_ctxt_cmd sel QDMA_CTXT_CMD_RD q) (qdma_reg_access_lock mm s)) = (rv, s3)" by fastforce
  have p3: "P s3" using c [of "qdma_ind_ctxt_cmd sel QDMA_CTXT_CMD_RD q"] 3 by simp
  have "P (snd (read_regs mm EQDMA_IND_CTXT_DATA_ADDR n s3))"
    by (rule read_regs_inv [of P, OF assms(1) p3])
  with p3 show "\<exists>s'. P s' \<and> snd (eqdma_indirect_reg_read mm sel q n s) = qdma_reg_access_release mm s'"
    by (auto simp: eqdma_indirect_reg_read_def Let_def 3 split: prod.splits)
qed

subsection \<open>Properties of indirect access\<close>

text \<open>
  C18: on a device that behaves as documented and answers in time, writing a context succeeds, reading
  it back returns the words written followed by zeros, and every context of another queue or another
  kind is untouched.
\<close>

theorem indirect_write_read:
  assumes "context_device mm view" and "responsive mm" and "n \<le> 8"
  shows "\<exists>s1 s2. eqdma_indirect_reg_write mm sel q data s = (0, s1) \<and>
    eqdma_indirect_reg_read mm sel q n s1 = (Inr (map (padded data) [0..<n]), s2) \<and>
    (\<forall>sel' q'. (sel', q') \<noteq> (sel_code sel, ind_qid q) \<longrightarrow> ctxts (view s2) sel' q' = ctxts (view s) sel' q')"
proof -
  obtain s1 where w: "eqdma_indirect_reg_write mm sel q data s = (0, s1)"
    using indirect_write_effect(3) [OF assms(1,2)] by (metis prod.collapse)
  obtain d s2 where r: "eqdma_indirect_reg_read mm sel q n s1 = (Inr d, s2)"
    using indirect_read_effect(2) [OF assms(1,3,2)] by blast
  have "d = map (ctxts (view s1) (sel_code sel) (ind_qid q)) [0..<n]" "ctxts (view s2) = ctxts (view s1)"
    using indirect_read_effect(1) [OF assms(1,3), where sel = sel and q = q and s = s1] r by auto
  moreover have "ctxts (view s1) (sel_code sel) (ind_qid q) i = padded data i" if "i < 8" for i
    using indirect_write_effect(1) [OF assms(1) that, of sel q data s] w by simp
  moreover have "ctxts (view s1) sel' q' = ctxts (view s) sel' q'" if "(sel', q') \<noteq> (sel_code sel, ind_qid q)" for sel' q'
    using indirect_write_effect(2) [OF assms(1) that, of data s] w by simp
  ultimately show ?thesis using w r assms(3) by auto
qed

theorem indirect_write_read_witness:
  "\<exists>s1 s2. eqdma_indirect_reg_write sim QDMA_CTXT_SEL_FMAP 3 [7, 9] sim_start = (0, s1) \<and>
    eqdma_indirect_reg_read sim QDMA_CTXT_SEL_FMAP 3 3 s1 = (Inr [7, 9, 0], s2)"
proof -
  have "map (padded [7, 9]) [0..<3] = [7, 9, 0]" by (simp add: padded_def upt_rec)
  moreover have "(3 :: nat) \<le> 8" by simp
  ultimately show ?thesis
    using indirect_write_read [OF sim_context_device sim_responsive, of 3 QDMA_CTXT_SEL_FMAP 3 "[7, 9]" sim_start]
    by metis
qed

text \<open>
  Clearing or invalidating a context touches that context alone, and a cleared context reads as
  zeros, even when the command times out.
\<close>

theorem indirect_clear_invalidate:
  assumes "context_device mm view"
  shows "(\<forall>i. ctxts (view (snd (eqdma_indirect_reg_clear mm sel q s))) (sel_code sel) (ind_qid q) i = 0) \<and>
    (\<forall>sel' q'. (sel', q') \<noteq> (sel_code sel, ind_qid q) \<longrightarrow>
       ctxts (view (snd (eqdma_indirect_reg_clear mm sel q s))) sel' q' = ctxts (view s) sel' q' \<and>
       ctxts (view (snd (eqdma_indirect_reg_invalidate mm sel q s))) sel' q' = ctxts (view s) sel' q')"
proof -
  obtain c where c: "ctxts (view (snd (eqdma_indirect_reg_invalidate mm sel q s))) =
      (ctxts (view s))(sel_code sel := (ctxts (view s) (sel_code sel))(ind_qid q := c))"
    using indirect_command_effect(2) [OF assms] by blast
  show ?thesis unfolding indirect_command_effect(1) [OF assms] c by auto
qed

theorem indirect_clear_invalidate_witness:
  "ctxts (snd (eqdma_indirect_reg_clear sim QDMA_CTXT_SEL_CMPT 5 (sim_start\<lparr>ctxts := \<lambda>_ _ _. 1\<rparr>))) 6 5 0 = 0"
proof -
  have "sel_code QDMA_CTXT_SEL_CMPT = 6" "ind_qid 5 = 5" by (simp_all add: ind_qid_def)
  then show ?thesis
    using indirect_clear_invalidate [OF sim_context_device, of QDMA_CTXT_SEL_CMPT 5 "sim_start\<lparr>ctxts := \<lambda>_ _ _. 1\<rparr>"]
    by metis
qed

text \<open>
  C32: each of the four indirect operations, on success and on a timeout, accesses registers only with
  the register lock held and gives the lock back.
\<close>

theorem indirect_lock_discipline:
  assumes "lock_monitor mm held clean" and "clean s" and "\<not> held s"
    and "s' \<in> {snd (eqdma_indirect_reg_write mm sel q data s), snd (eqdma_indirect_reg_read mm sel q n s),
      snd (eqdma_indirect_reg_clear mm sel q s), snd (eqdma_indirect_reg_invalidate mm sel q s)}"
  shows "clean s' \<and> \<not> held s'"
proof -
  note m = assms(1) [unfolded lock_monitor_def, rule_format]
  have "\<exists>s1. (clean s1 \<and> held s1) \<and> s' = qdma_reg_access_release mm s1"
    using assms(4) indirect_bracket [of "\<lambda>s. clean s \<and> held s" mm s] m assms(2,3) by auto
  then show ?thesis using m by auto
qed

definition watched :: "(bool \<times> bool) mmio" where
  "watched = \<lparr>qdma_reg_read = (\<lambda>a (h, c). (1, (h, c \<and> h))), qdma_reg_write = (\<lambda>a v (h, c). (h, c \<and> h)),
     qdma_udelay = (\<lambda>_ s. s), qdma_reg_access_lock = (\<lambda>(h, c). (True, c \<and> \<not> h)),
     qdma_reg_access_release = (\<lambda>(h, c). (False, c \<and> h))\<rparr>"

theorem indirect_lock_discipline_witness:
  "snd (eqdma_indirect_reg_write watched QDMA_CTXT_SEL_FMAP 3 [7, 9] (False, True)) = (False, True)"
proof -
  have "lock_monitor watched fst snd" by (auto simp: lock_monitor_def watched_def)
  from indirect_lock_discipline [OF this, of "(False, True)"
      "snd (eqdma_indirect_reg_write watched QDMA_CTXT_SEL_FMAP 3 [7, 9] (False, True))" QDMA_CTXT_SEL_FMAP 3 "[7, 9]" 0]
  show ?thesis by (auto simp: prod_eq_iff)
qed

end
