(* ===== verification/Ctxt_Codec.thy ===== *)
theory Ctxt_Codec
  imports Eqdma_Ind
begin

section \<open>Context structs and context words\<close>

text \<open>
  For each kind of context the driver has a struct and the code that packs it into words and unpacks
  it. What a pair of such functions owes its users is stated here once, as a locale, together with
  what follows on a device that behaves as documented; the theories of the contexts interpret it.
\<close>

datatype qdma_hw_access_type =
    QDMA_HW_ACCESS_READ | QDMA_HW_ACCESS_WRITE | QDMA_HW_ACCESS_CLEAR | QDMA_HW_ACCESS_INVALIDATE
  | QDMA_HW_ACCESS_MAX

text \<open>
  A packing function, an unpacking function, the number of words they share, and what is left of a
  struct after both: \<open>norm\<close>.
\<close>

locale ctxt_codec =
  fixes enc :: "'c \<Rightarrow> u32 list" and dec :: "u32 list \<Rightarrow> 'c" and words :: nat and norm :: "'c \<Rightarrow> 'c"
  assumes words_fit: "words \<le> 8"
    and enc_words: "length (enc c) = words"
    and dec_enc: "dec (enc c) = norm c"
begin

lemma pad_enc: "map (padded (enc c)) [0..<words] = enc c"
  using enc_words [of c] by (intro nth_equalityI) (simp_all add: padded_def)

lemma write_ok:
  assumes "responsive mm" and "context_device mm view"
  shows "\<exists>s1. eqdma_indirect_reg_write mm sel q (enc c) s = (0, s1)"
  using indirect_write_effect(3) [OF assms(2,1)] by (metis prod.collapse)

text \<open>What a read finds after a write, whether or not the write was seen to complete.\<close>

lemma read_after_write:
  assumes "context_device mm view"
    and "eqdma_indirect_reg_read mm sel q words (snd (eqdma_indirect_reg_write mm sel q (enc c) s)) = (Inr d, s')"
  shows "dec d = norm c"
proof -
  let ?s1 = "snd (eqdma_indirect_reg_write mm sel q (enc c) s)"
  have "d = map (ctxts (view ?s1) (sel_code sel) (ind_qid q)) [0..<words]"
    using indirect_read_effect(1) [OF assms(1) words_fit, where sel = sel and q = q and s = ?s1] assms(2) by auto
  also have "\<dots> = map (padded (enc c)) [0..<words]"
    using indirect_write_effect(1) [OF assms(1), where sel = sel and q = q and data = "enc c" and s = s] words_fit
    by auto
  finally show ?thesis by (simp add: pad_enc dec_enc)
qed

lemma write_then_read:
  assumes "context_device mm view" and "responsive mm"
  shows "\<exists>s1 d s2. eqdma_indirect_reg_write mm sel q (enc c) s = (0, s1) \<and>
    eqdma_indirect_reg_read mm sel q words s1 = (Inr d, s2) \<and> dec d = norm c"
proof -
  obtain s1 where w: "eqdma_indirect_reg_write mm sel q (enc c) s = (0, s1)"
    using write_ok [OF assms(2,1)] by blast
  obtain d s2 where r: "eqdma_indirect_reg_read mm sel q words s1 = (Inr d, s2)"
    using indirect_read_effect(2) [OF assms(1) words_fit assms(2)] by blast
  then show ?thesis using read_after_write [OF assms(1), of sel q c s d s2] w by simp
qed

end

text \<open>Zero words read as a zero struct, so that a cleared context is known.\<close>

locale zero_codec = ctxt_codec enc dec words norm
  for enc :: "'c \<Rightarrow> u32 list" and dec :: "u32 list \<Rightarrow> 'c" and words :: nat and norm :: "'c \<Rightarrow> 'c" +
  fixes zero :: 'c
  assumes dec_zero: "dec (replicate words 0) = zero"
begin

lemma read_after_clear:
  assumes "context_device mm view"
    and "eqdma_indirect_reg_read mm sel q words (snd (eqdma_indirect_reg_clear mm sel q s)) = (Inr d, s')"
  shows "dec d = zero"
proof -
  let ?s1 = "snd (eqdma_indirect_reg_clear mm sel q s)"
  have "d = map (ctxts (view ?s1) (sel_code sel) (ind_qid q)) [0..<words]"
    using indirect_read_effect(1) [OF assms(1) words_fit, where sel = sel and q = q and s = ?s1] assms(2) by auto
  also have "\<dots> = replicate words 0"
    unfolding indirect_command_effect(1) [OF assms(1)] by (simp add: map_replicate_const)
  finally show ?thesis by (simp add: dec_zero)
qed

end

text \<open>The part of a 64-bit value that a word carries.\<close>

lemma low_high_words: "push_bit 32 (ucast (ucast (drop_bit 32 a) :: u32)) OR ucast (ucast a :: u32) = (a :: u64)"
  by (rule bit_word_eqI) (auto simp: bit_simps not_less)

lemma ucast_mod_2: "(ucast ((ucast (c :: u8) :: u32) mod 2) :: u8) = c mod 2"
  using ucast_take_ucast [of "1" c, where 'b = 32] by simp

lemma fits_mod_2: "fits (Suc 0) c \<Longrightarrow> c mod 2 = c"
  using take_bit_fits [of 1 c] by simp

end
