(* ===== verification/Ctxt_Sw.thy ===== *)
theory Ctxt_Sw
  imports Ctxt_Codec
begin

section \<open>The software descriptor context (eqdma\_soft\_access.c)\<close>

text \<open>
  The context of a descriptor ring: its eight words, the struct of the driver and the functions that
  write, read, clear and invalidate it. A pointer argument is an option, and \<open>dev_hndl\<close> tells whether
  the device handle is not NULL. Narrow members are promoted to 32 bits before they are shifted.
\<close>

definition SW_IND_CTXT_DATA_W7_VIRTIO_DSC_BASE_H_MASK :: u32 where [mask_defs]: "SW_IND_CTXT_DATA_W7_VIRTIO_DSC_BASE_H_MASK = GENMASK 10 0"
definition SW_IND_CTXT_DATA_W6_VIRTIO_DSC_BASE_M_MASK :: u32 where [mask_defs]: "SW_IND_CTXT_DATA_W6_VIRTIO_DSC_BASE_M_MASK = GENMASK 31 0"
definition SW_IND_CTXT_DATA_W5_VIRTIO_DSC_BASE_L_MASK :: u32 where [mask_defs]: "SW_IND_CTXT_DATA_W5_VIRTIO_DSC_BASE_L_MASK = GENMASK 31 11"
definition SW_IND_CTXT_DATA_W5_PASID_EN_MASK :: u32 where [mask_defs]: "SW_IND_CTXT_DATA_W5_PASID_EN_MASK = BIT 10"
definition SW_IND_CTXT_DATA_W5_PASID_H_MASK :: u32 where [mask_defs]: "SW_IND_CTXT_DATA_W5_PASID_H_MASK = GENMASK 9 0"
definition SW_IND_CTXT_DATA_W4_PASID_L_MASK :: u32 where [mask_defs]: "SW_IND_CTXT_DATA_W4_PASID_L_MASK = GENMASK 31 20"
definition SW_IND_CTXT_DATA_W4_HOST_ID_MASK :: u32 where [mask_defs]: "SW_IND_CTXT_DATA_W4_HOST_ID_MASK = GENMASK 19 16"
definition SW_IND_CTXT_DATA_W4_IRQ_BYP_MASK :: u32 where [mask_defs]: "SW_IND_CTXT_DATA_W4_IRQ_BYP_MASK = BIT 15"
definition SW_IND_CTXT_DATA_W4_PACK_BYP_OUT_MASK :: u32 where [mask_defs]: "SW_IND_CTXT_DATA_W4_PACK_BYP_OUT_MASK = BIT 14"
definition SW_IND_CTXT_DATA_W4_VIRTIO_EN_MASK :: u32 where [mask_defs]: "SW_IND_CTXT_DATA_W4_VIRTIO_EN_MASK = BIT 13"
definition SW_IND_CTXT_DATA_W4_DIS_INTR_ON_VF_MASK :: u32 where [mask_defs]: "SW_IND_CTXT_DATA_W4_DIS_INTR_ON_VF_MASK = BIT 12"
definition SW_IND_CTXT_DATA_W4_INT_AGGR_MASK :: u32 where [mask_defs]: "SW_IND_CTXT_DATA_W4_INT_AGGR_MASK = BIT 11"
definition SW_IND_CTXT_DATA_W4_VEC_MASK :: u32 where [mask_defs]: "SW_IND_CTXT_DATA_W4_VEC_MASK = GENMASK 10 0"
definition SW_IND_CTXT_DATA_W3_DSC_BASE_H_MASK :: u32 where [mask_defs]: "SW_IND_CTXT_DATA_W3_DSC_BASE_H_MASK = GENMASK 31 0"
definition SW_IND_CTXT_DATA_W2_DSC_BASE_L_MASK :: u32 where [mask_defs]: "SW_IND_CTXT_DATA_W2_DSC_BASE_L_MASK = GENMASK 31 0"
definition SW_IND_CTXT_DATA_W1_IS_MM_MASK :: u32 where [mask_defs]: "SW_IND_CTXT_DATA_W1_IS_MM_MASK = BIT 31"
definition SW_IND_CTXT_DATA_W1_MRKR_DIS_MASK :: u32 where [mask_defs]: "SW_IND_CTXT_DATA_W1_MRKR_DIS_MASK = BIT 30"
definition SW_IND_CTXT_DATA_W1_IRQ_REQ_MASK :: u32 where [mask_defs]: "SW_IND_CTXT_DATA_W1_IRQ_REQ_MASK = BIT 29"
definition SW_IND_CTXT_DATA_W1_ERR_WB_SENT_MASK :: u32 where [mask_defs]: "SW_IND_CTXT_DATA_W1_ERR_WB_SENT_MASK = BIT 28"
definition SW_IND_CTXT_DATA_W1_ERR_MASK :: u32 where [mask_defs]: "SW_IND_CTXT_DATA_W1_ERR_MASK = GENMASK 27 26"
definition SW_IND_CTXT_DATA_W1_IRQ_NO_LAST_MASK :: u32 where [mask_defs]: "SW_IND_CTXT_DATA_W1_IRQ_NO_LAST_MASK = BIT 25"
definition SW_IND_CTXT_DATA_W1_PORT_ID_MASK :: u32 where [mask_defs]: "SW_IND_CTXT_DATA_W1_PORT_ID_MASK = GENMASK 24 22"
definition SW_IND_CTXT_DATA_W1_IRQ_EN_MASK :: u32 where [mask_defs]: "SW_IND_CTXT_DATA_W1_IRQ_EN_MASK = BIT 21"
definition SW_IND_CTXT_DATA_W1_WBK_EN_MASK :: u32 where [mask_defs]: "SW_IND_CTXT_DATA_W1_WBK_EN_MASK = BIT 20"
definition SW_IND_CTXT_DATA_W1_MM_CHN_MASK :: u32 where [mask_defs]: "SW_IND_CTXT_DATA_W1_MM_CHN_MASK = BIT 19"
definition SW_IND_CTXT_DATA_W1_BYPASS_MASK :: u32 where [mask_defs]: "SW_IND_CTXT_DATA_W1_BYPASS_MASK = BIT 18"
definition SW_IND_CTXT_DATA_W1_DSC_SZ_MASK :: u32 where [mask_defs]: "SW_IND_CTXT_DATA_W1_DSC_SZ_MASK = GENMASK 17 16"
definition SW_IND_CTXT_DATA_W1_RNG_SZ_MASK :: u32 where [mask_defs]: "SW_IND_CTXT_DATA_W1_RNG_SZ_MASK = GENMASK 15 12"
definition SW_IND_CTXT_DATA_W1_FETCH_MAX_MASK :: u32 where [mask_defs]: "SW_IND_CTXT_DATA_W1_FETCH_MAX_MASK = GENMASK 8 5"
definition SW_IND_CTXT_DATA_W1_AT_MASK :: u32 where [mask_defs]: "SW_IND_CTXT_DATA_W1_AT_MASK = BIT 4"
definition SW_IND_CTXT_DATA_W1_WBI_INTVL_EN_MASK :: u32 where [mask_defs]: "SW_IND_CTXT_DATA_W1_WBI_INTVL_EN_MASK = BIT 3"
definition SW_IND_CTXT_DATA_W1_WBI_CHK_MASK :: u32 where [mask_defs]: "SW_IND_CTXT_DATA_W1_WBI_CHK_MASK = BIT 2"
definition SW_IND_CTXT_DATA_W1_FCRD_EN_MASK :: u32 where [mask_defs]: "SW_IND_CTXT_DATA_W1_FCRD_EN_MASK = BIT 1"
definition SW_IND_CTXT_DATA_W1_QEN_MASK :: u32 where [mask_defs]: "SW_IND_CTXT_DATA_W1_QEN_MASK = BIT 0"
definition SW_IND_CTXT_DATA_W0_FNC_MASK :: u32 where [mask_defs]: "SW_IND_CTXT_DATA_W0_FNC_MASK = GENMASK 28 17"
definition SW_IND_CTXT_DATA_W0_IRQ_ARM_MASK :: u32 where [mask_defs]: "SW_IND_CTXT_DATA_W0_IRQ_ARM_MASK = BIT 16"
definition SW_IND_CTXT_DATA_W0_PIDX_MASK :: u32 where [mask_defs]: "SW_IND_CTXT_DATA_W0_PIDX_MASK = GENMASK 15 0"
definition EQDMA_SW_CTXT_PASID_GET_H_MASK :: u32 where [mask_defs]: "EQDMA_SW_CTXT_PASID_GET_H_MASK = GENMASK 21 12"
definition EQDMA_SW_CTXT_PASID_GET_L_MASK :: u32 where [mask_defs]: "EQDMA_SW_CTXT_PASID_GET_L_MASK = GENMASK 11 0"
definition EQDMA_SW_CTXT_VIRTIO_DSC_BASE_GET_H_MASK :: u64 where [mask_defs]: "EQDMA_SW_CTXT_VIRTIO_DSC_BASE_GET_H_MASK = GENMASK 63 53"
definition EQDMA_SW_CTXT_VIRTIO_DSC_BASE_GET_M_MASK :: u64 where [mask_defs]: "EQDMA_SW_CTXT_VIRTIO_DSC_BASE_GET_M_MASK = GENMASK 52 21"
definition EQDMA_SW_CTXT_VIRTIO_DSC_BASE_GET_L_MASK :: u64 where [mask_defs]: "EQDMA_SW_CTXT_VIRTIO_DSC_BASE_GET_L_MASK = GENMASK 20 0"

definition EQDMA_SW_CONTEXT_NUM_WORDS :: nat where "EQDMA_SW_CONTEXT_NUM_WORDS = 8"

record qdma_descq_sw_ctxt =
  sw_ring_bs_addr :: u64
  sw_vec :: u16
  sw_pidx :: u16
  sw_irq_arm :: u8
  sw_fnc_id :: u8
  sw_qen :: u8
  sw_frcd_en :: u8
  sw_wbi_chk :: u8
  sw_wbi_intvl_en :: u8
  sw_at :: u8
  sw_fetch_max :: u8
  sw_rngsz_idx :: u8
  sw_desc_sz :: u8
  sw_bypass :: u8
  sw_mm_chn :: u8
  sw_wbk_en :: u8
  sw_irq_en :: u8
  sw_port_id :: u8
  sw_irq_no_last :: u8
  sw_err :: u8
  sw_err_wb_sent :: u8
  sw_irq_req :: u8
  sw_mrkr_dis :: u8
  sw_is_mm :: u8
  sw_intr_aggr :: u8
  sw_pasid_en :: u8
  sw_dis_intr_on_vf :: u8
  sw_virtio_en :: u8
  sw_pack_byp_out :: u8
  sw_irq_byp :: u8
  sw_host_id :: u8
  sw_pasid :: u32
  sw_virtio_dsc_base :: u64

subsection \<open>Packing and unpacking\<close>

definition sw_ctxt_enc :: "qdma_descq_sw_ctxt \<Rightarrow> u32 list" where
  "sw_ctxt_enc c =
     (let pasid_l = FIELD_GET EQDMA_SW_CTXT_PASID_GET_L_MASK (sw_pasid c);
         pasid_h = FIELD_GET EQDMA_SW_CTXT_PASID_GET_H_MASK (sw_pasid c);
         virtio_desc_base_l = ucast (FIELD_GET EQDMA_SW_CTXT_VIRTIO_DSC_BASE_GET_L_MASK (sw_virtio_dsc_base c));
         virtio_desc_base_m = ucast (FIELD_GET EQDMA_SW_CTXT_VIRTIO_DSC_BASE_GET_M_MASK (sw_virtio_dsc_base c));
         virtio_desc_base_h = ucast (FIELD_GET EQDMA_SW_CTXT_VIRTIO_DSC_BASE_GET_H_MASK (sw_virtio_dsc_base c))
      in [FIELD_SET SW_IND_CTXT_DATA_W0_PIDX_MASK (ucast (sw_pidx c)) OR
          FIELD_SET SW_IND_CTXT_DATA_W0_IRQ_ARM_MASK (ucast (sw_irq_arm c)) OR
          FIELD_SET SW_IND_CTXT_DATA_W0_FNC_MASK (ucast (sw_fnc_id c)),
         FIELD_SET SW_IND_CTXT_DATA_W1_QEN_MASK (ucast (sw_qen c)) OR
          FIELD_SET SW_IND_CTXT_DATA_W1_FCRD_EN_MASK (ucast (sw_frcd_en c)) OR
          FIELD_SET SW_IND_CTXT_DATA_W1_WBI_CHK_MASK (ucast (sw_wbi_chk c)) OR
          FIELD_SET SW_IND_CTXT_DATA_W1_WBI_INTVL_EN_MASK (ucast (sw_wbi_intvl_en c)) OR
          FIELD_SET SW_IND_CTXT_DATA_W1_AT_MASK (ucast (sw_at c)) OR
          FIELD_SET SW_IND_CTXT_DATA_W1_FETCH_MAX_MASK (ucast (sw_fetch_max c)) OR
          FIELD_SET SW_IND_CTXT_DATA_W1_RNG_SZ_MASK (ucast (sw_rngsz_idx c)) OR
          FIELD_SET SW_IND_CTXT_DATA_W1_DSC_SZ_MASK (ucast (sw_desc_sz c)) OR
          FIELD_SET SW_IND_CTXT_DATA_W1_BYPASS_MASK (ucast (sw_bypass c)) OR
          FIELD_SET SW_IND_CTXT_DATA_W1_MM_CHN_MASK (ucast (sw_mm_chn c)) OR
          FIELD_SET SW_IND_CTXT_DATA_W1_WBK_EN_MASK (ucast (sw_wbk_en c)) OR
          FIELD_SET SW_IND_CTXT_DATA_W1_IRQ_EN_MASK (ucast (sw_irq_en c)) OR
          FIELD_SET SW_IND_CTXT_DATA_W1_PORT_ID_MASK (ucast (sw_port_id c)) OR
          FIELD_SET SW_IND_CTXT_DATA_W1_IRQ_NO_LAST_MASK (ucast (sw_irq_no_last c)) OR
          FIELD_SET SW_IND_CTXT_DATA_W1_ERR_MASK (ucast (sw_err c)) OR
          FIELD_SET SW_IND_CTXT_DATA_W1_ERR_WB_SENT_MASK (ucast (sw_err_wb_sent c)) OR
          FIELD_SET SW_IND_CTXT_DATA_W1_IRQ_REQ_MASK (ucast (sw_irq_req c)) OR
          FIELD_SET SW_IND_CTXT_DATA_W1_MRKR_DIS_MASK (ucast (sw_mrkr_dis c)) OR
          FIELD_SET SW_IND_CTXT_DATA_W1_IS_MM_MASK (ucast (sw_is_mm c)),
         ucast (sw_ring_bs_addr c),
         ucast (drop_bit 32 (sw_ring_bs_addr c)),
         FIELD_SET SW_IND_CTXT_DATA_W4_VEC_MASK (ucast (sw_vec c)) OR
          FIELD_SET SW_IND_CTXT_DATA_W4_INT_AGGR_MASK (ucast (sw_intr_aggr c)) OR
          FIELD_SET SW_IND_CTXT_DATA_W4_DIS_INTR_ON_VF_MASK (ucast (sw_dis_intr_on_vf c)) OR
          FIELD_SET SW_IND_CTXT_DATA_W4_VIRTIO_EN_MASK (ucast (sw_virtio_en c)) OR
          FIELD_SET SW_IND_CTXT_DATA_W4_PACK_BYP_OUT_MASK (ucast (sw_pack_byp_out c)) OR
          FIELD_SET SW_IND_CTXT_DATA_W4_IRQ_BYP_MASK (ucast (sw_irq_byp c)) OR
          FIELD_SET SW_IND_CTXT_DATA_W4_HOST_ID_MASK (ucast (sw_host_id c)) OR
          FIELD_SET SW_IND_CTXT_DATA_W4_PASID_L_MASK pasid_l,
         FIELD_SET SW_IND_CTXT_DATA_W5_PASID_H_MASK pasid_h OR
          FIELD_SET SW_IND_CTXT_DATA_W5_PASID_EN_MASK (ucast (sw_pasid_en c)) OR
          FIELD_SET SW_IND_CTXT_DATA_W5_VIRTIO_DSC_BASE_L_MASK virtio_desc_base_l,
         FIELD_SET SW_IND_CTXT_DATA_W6_VIRTIO_DSC_BASE_M_MASK virtio_desc_base_m,
         FIELD_SET SW_IND_CTXT_DATA_W7_VIRTIO_DSC_BASE_H_MASK virtio_desc_base_h])"

text \<open>
  Unpacking takes the high part of the virtio base from word 6, as the C code does.
\<close>

definition sw_ctxt_dec :: "u32 list \<Rightarrow> qdma_descq_sw_ctxt" where
  "sw_ctxt_dec ws =
     (let pasid_l = FIELD_GET SW_IND_CTXT_DATA_W4_PASID_L_MASK (ws ! 4);
         pasid_h = FIELD_GET SW_IND_CTXT_DATA_W5_PASID_H_MASK (ws ! 5);
         virtio_desc_base_l = FIELD_GET SW_IND_CTXT_DATA_W5_VIRTIO_DSC_BASE_L_MASK (ws ! 5);
         virtio_desc_base_m = FIELD_GET SW_IND_CTXT_DATA_W6_VIRTIO_DSC_BASE_M_MASK (ws ! 6);
         virtio_desc_base_h = FIELD_GET SW_IND_CTXT_DATA_W7_VIRTIO_DSC_BASE_H_MASK (ws ! 6)
      in \<lparr>sw_ring_bs_addr = push_bit 32 (ucast (ws ! 3)) OR ucast (ws ! 2),
         sw_vec = ucast (FIELD_GET SW_IND_CTXT_DATA_W4_VEC_MASK (ws ! 4)),
         sw_pidx = ucast (FIELD_GET SW_IND_CTXT_DATA_W0_PIDX_MASK (ws ! 0)),
         sw_irq_arm = ucast (FIELD_GET SW_IND_CTXT_DATA_W0_IRQ_ARM_MASK (ws ! 0)),
         sw_fnc_id = ucast (FIELD_GET SW_IND_CTXT_DATA_W0_FNC_MASK (ws ! 0)),
         sw_qen = ucast (FIELD_GET SW_IND_CTXT_DATA_W1_QEN_MASK (ws ! 1)),
         sw_frcd_en = ucast (FIELD_GET SW_IND_CTXT_DATA_W1_FCRD_EN_MASK (ws ! 1)),
         sw_wbi_chk = ucast (FIELD_GET SW_IND_CTXT_DATA_W1_WBI_CHK_MASK (ws ! 1)),
         sw_wbi_intvl_en = ucast (FIELD_GET SW_IND_CTXT_DATA_W1_WBI_INTVL_EN_MASK (ws ! 1)),
         sw_at = ucast (FIELD_GET SW_IND_CTXT_DATA_W1_AT_MASK (ws ! 1)),
         sw_fetch_max = ucast (FIELD_GET SW_IND_CTXT_DATA_W1_FETCH_MAX_MASK (ws ! 1)),
         sw_rngsz_idx = ucast (FIELD_GET SW_IND_CTXT_DATA_W1_RNG_SZ_MASK (ws ! 1)),
         sw_desc_sz = ucast (FIELD_GET SW_IND_CTXT_DATA_W1_DSC_SZ_MASK (ws ! 1)),
         sw_bypass = ucast (FIELD_GET SW_IND_CTXT_DATA_W1_BYPASS_MASK (ws ! 1)),
         sw_mm_chn = ucast (FIELD_GET SW_IND_CTXT_DATA_W1_MM_CHN_MASK (ws ! 1)),
         sw_wbk_en = ucast (FIELD_GET SW_IND_CTXT_DATA_W1_WBK_EN_MASK (ws ! 1)),
         sw_irq_en = ucast (FIELD_GET SW_IND_CTXT_DATA_W1_IRQ_EN_MASK (ws ! 1)),
         sw_port_id = ucast (FIELD_GET SW_IND_CTXT_DATA_W1_PORT_ID_MASK (ws ! 1)),
         sw_irq_no_last = ucast (FIELD_GET SW_IND_CTXT_DATA_W1_IRQ_NO_LAST_MASK (ws ! 1)),
         sw_err = ucast (FIELD_GET SW_IND_CTXT_DATA_W1_ERR_MASK (ws ! 1)),
         sw_err_wb_sent = ucast (FIELD_GET SW_IND_CTXT_DATA_W1_ERR_WB_SENT_MASK (ws ! 1)),
         sw_irq_req = ucast (FIELD_GET SW_IND_CTXT_DATA_W1_IRQ_REQ_MASK (ws ! 1)),
         sw_mrkr_dis = ucast (FIELD_GET SW_IND_CTXT_DATA_W1_MRKR_DIS_MASK (ws ! 1)),
         sw_is_mm = ucast (FIELD_GET SW_IND_CTXT_DATA_W1_IS_MM_MASK (ws ! 1)),
         sw_intr_aggr = ucast (FIELD_GET SW_IND_CTXT_DATA_W4_INT_AGGR_MASK (ws ! 4)),
         sw_pasid_en = ucast (FIELD_GET SW_IND_CTXT_DATA_W5_PASID_EN_MASK (ws ! 5)),
         sw_dis_intr_on_vf = ucast (FIELD_GET SW_IND_CTXT_DATA_W4_DIS_INTR_ON_VF_MASK (ws ! 4)),
         sw_virtio_en = ucast (FIELD_GET SW_IND_CTXT_DATA_W4_VIRTIO_EN_MASK (ws ! 4)),
         sw_pack_byp_out = ucast (FIELD_GET SW_IND_CTXT_DATA_W4_PACK_BYP_OUT_MASK (ws ! 4)),
         sw_irq_byp = ucast (FIELD_GET SW_IND_CTXT_DATA_W4_IRQ_BYP_MASK (ws ! 4)),
         sw_host_id = ucast (FIELD_GET SW_IND_CTXT_DATA_W4_HOST_ID_MASK (ws ! 4)),
         sw_pasid = FIELD_SET EQDMA_SW_CTXT_PASID_GET_L_MASK pasid_l OR
           FIELD_SET EQDMA_SW_CTXT_PASID_GET_H_MASK pasid_h,
         sw_virtio_dsc_base = FIELD_SET EQDMA_SW_CTXT_VIRTIO_DSC_BASE_GET_L_MASK (ucast virtio_desc_base_l) OR
           FIELD_SET EQDMA_SW_CTXT_VIRTIO_DSC_BASE_GET_M_MASK (ucast virtio_desc_base_m) OR
           FIELD_SET EQDMA_SW_CTXT_VIRTIO_DSC_BASE_GET_H_MASK (ucast virtio_desc_base_h)\<rparr>)"

subsection \<open>Operations\<close>

definition eqdma_sw_context_write :: "'s mmio \<Rightarrow> bool \<Rightarrow> u8 \<Rightarrow> u16 \<Rightarrow> qdma_descq_sw_ctxt option \<Rightarrow> 's \<Rightarrow> int \<times> 's" where
  "eqdma_sw_context_write mm dev_hndl c2h hw_qid ctxt s =
     (let sel = (if c2h \<noteq> 0 then QDMA_CTXT_SEL_SW_C2H else QDMA_CTXT_SEL_SW_H2C)
      in if \<not> dev_hndl then (neg_err QDMA_ERR_INV_PARAM, s)
         else (case ctxt of
             None \<Rightarrow> (neg_err QDMA_ERR_INV_PARAM, s)
           | Some c \<Rightarrow> eqdma_indirect_reg_write mm sel hw_qid (sw_ctxt_enc c) s))"

definition eqdma_sw_context_read :: "'s mmio \<Rightarrow> bool \<Rightarrow> u8 \<Rightarrow> u16 \<Rightarrow> qdma_descq_sw_ctxt option \<Rightarrow> 's \<Rightarrow> int \<times> qdma_descq_sw_ctxt option \<times> 's" where
  "eqdma_sw_context_read mm dev_hndl c2h hw_qid ctxt s =
     (let sel = (if c2h \<noteq> 0 then QDMA_CTXT_SEL_SW_C2H else QDMA_CTXT_SEL_SW_H2C)
      in if \<not> dev_hndl \<or> ctxt = None then (neg_err QDMA_ERR_INV_PARAM, ctxt, s)
         else (case eqdma_indirect_reg_read mm sel hw_qid EQDMA_SW_CONTEXT_NUM_WORDS s of
             (Inl rv, s') \<Rightarrow> (rv, ctxt, s')
           | (Inr ws, s') \<Rightarrow> (err_code QDMA_SUCCESS, Some (sw_ctxt_dec ws), s')))"

definition eqdma_sw_context_clear :: "'s mmio \<Rightarrow> bool \<Rightarrow> u8 \<Rightarrow> u16 \<Rightarrow> 's \<Rightarrow> int \<times> 's" where
  "eqdma_sw_context_clear mm dev_hndl c2h hw_qid s =
     (let sel = (if c2h \<noteq> 0 then QDMA_CTXT_SEL_SW_C2H else QDMA_CTXT_SEL_SW_H2C)
      in if \<not> dev_hndl then (neg_err QDMA_ERR_INV_PARAM, s) else eqdma_indirect_reg_clear mm sel hw_qid s)"

definition eqdma_sw_context_invalidate :: "'s mmio \<Rightarrow> bool \<Rightarrow> u8 \<Rightarrow> u16 \<Rightarrow> 's \<Rightarrow> int \<times> 's" where
  "eqdma_sw_context_invalidate mm dev_hndl c2h hw_qid s =
     (let sel = (if c2h \<noteq> 0 then QDMA_CTXT_SEL_SW_C2H else QDMA_CTXT_SEL_SW_H2C)
      in if \<not> dev_hndl then (neg_err QDMA_ERR_INV_PARAM, s) else eqdma_indirect_reg_invalidate mm sel hw_qid s)"

definition eqdma_sw_ctx_conf :: "'s mmio \<Rightarrow> bool \<Rightarrow> u8 \<Rightarrow> u16 \<Rightarrow> qdma_descq_sw_ctxt option \<Rightarrow> qdma_hw_access_type \<Rightarrow> 's \<Rightarrow>
    int \<times> qdma_descq_sw_ctxt option \<times> 's" where
  "eqdma_sw_ctx_conf mm dev_hndl c2h hw_qid ctxt access_type s =
     (case access_type of
        QDMA_HW_ACCESS_READ \<Rightarrow> eqdma_sw_context_read mm dev_hndl c2h hw_qid ctxt s
      | QDMA_HW_ACCESS_WRITE \<Rightarrow> (let (rv, s') = eqdma_sw_context_write mm dev_hndl c2h hw_qid ctxt s in (rv, ctxt, s'))
      | QDMA_HW_ACCESS_CLEAR \<Rightarrow> (let (rv, s') = eqdma_sw_context_clear mm dev_hndl c2h hw_qid s in (rv, ctxt, s'))
      | QDMA_HW_ACCESS_INVALIDATE \<Rightarrow> (let (rv, s') = eqdma_sw_context_invalidate mm dev_hndl c2h hw_qid s in (rv, ctxt, s'))
      | _ \<Rightarrow> (neg_err QDMA_ERR_INV_PARAM, ctxt, s))"

subsection \<open>Packing and unpacking are inverse up to the widths of the fields\<close>

text \<open>What is left of a struct: every member cut to its field.\<close>

definition sw_ctxt_norm :: "qdma_descq_sw_ctxt \<Rightarrow> qdma_descq_sw_ctxt" where
  "sw_ctxt_norm c = \<lparr>sw_ring_bs_addr = sw_ring_bs_addr c, sw_vec = take_bit 11 (sw_vec c),
    sw_pidx = sw_pidx c, sw_irq_arm = take_bit 1 (sw_irq_arm c), sw_fnc_id = sw_fnc_id c,
    sw_qen = take_bit 1 (sw_qen c), sw_frcd_en = take_bit 1 (sw_frcd_en c),
    sw_wbi_chk = take_bit 1 (sw_wbi_chk c), sw_wbi_intvl_en = take_bit 1 (sw_wbi_intvl_en c),
    sw_at = take_bit 1 (sw_at c), sw_fetch_max = take_bit 4 (sw_fetch_max c),
    sw_rngsz_idx = take_bit 4 (sw_rngsz_idx c), sw_desc_sz = take_bit 2 (sw_desc_sz c),
    sw_bypass = take_bit 1 (sw_bypass c), sw_mm_chn = take_bit 1 (sw_mm_chn c),
    sw_wbk_en = take_bit 1 (sw_wbk_en c), sw_irq_en = take_bit 1 (sw_irq_en c),
    sw_port_id = take_bit 3 (sw_port_id c), sw_irq_no_last = take_bit 1 (sw_irq_no_last c),
    sw_err = take_bit 2 (sw_err c), sw_err_wb_sent = take_bit 1 (sw_err_wb_sent c),
    sw_irq_req = take_bit 1 (sw_irq_req c), sw_mrkr_dis = take_bit 1 (sw_mrkr_dis c),
    sw_is_mm = take_bit 1 (sw_is_mm c), sw_intr_aggr = take_bit 1 (sw_intr_aggr c),
    sw_pasid_en = take_bit 1 (sw_pasid_en c), sw_dis_intr_on_vf = take_bit 1 (sw_dis_intr_on_vf c),
    sw_virtio_en = take_bit 1 (sw_virtio_en c), sw_pack_byp_out = take_bit 1 (sw_pack_byp_out c),
    sw_irq_byp = take_bit 1 (sw_irq_byp c), sw_host_id = take_bit 4 (sw_host_id c),
    sw_pasid = take_bit 22 (sw_pasid c),
    sw_virtio_dsc_base = take_bit 53 (sw_virtio_dsc_base c) OR push_bit 53 (take_bit 11 (drop_bit 21 (sw_virtio_dsc_base c)))\<rparr>"

lemma pieces_10_22:
  "FIELD_SET (GENMASK 11 0) (take_bit 12 (FIELD_GET (GENMASK 11 0) p)) OR
   FIELD_SET (GENMASK 21 12) (take_bit 10 (FIELD_GET (GENMASK 21 12) p)) = take_bit 22 (p :: u32)"
  by (rule bit_word_eqI) (auto simp: bit_FIELD_SET bit_FIELD_GET bit_simps)

lemma virtio_pieces:
  "FIELD_SET (GENMASK 20 0) (ucast (take_bit 21 (ucast (FIELD_GET (GENMASK 20 0) b) :: u32))) OR
   FIELD_SET (GENMASK 52 21) (ucast (ucast (FIELD_GET (GENMASK 52 21) b) :: u32)) OR
   FIELD_SET (GENMASK 63 53) (ucast (FIELD_GET (GENMASK 10 0) (FIELD_SET (GENMASK 31 0)
     (ucast (FIELD_GET (GENMASK 52 21) b) :: u32)))) =
   take_bit 53 b OR push_bit 53 (take_bit 11 (drop_bit 21 (b :: u64)))"
  by (rule bit_word_eqI) (auto simp: bit_FIELD_SET bit_FIELD_GET bit_simps add.commute)

lemma sw_ctxt_dec_enc: "sw_ctxt_dec (sw_ctxt_enc c) = sw_ctxt_norm c"
  unfolding sw_ctxt_enc_def sw_ctxt_dec_def sw_ctxt_norm_def Let_def
  by (simp add: mask_defs field_rules ucast_take_ucast ucast_mod_2 take_bit_all low_high_words pieces_10_22 virtio_pieces)

interpretation sw: ctxt_codec sw_ctxt_enc sw_ctxt_dec EQDMA_SW_CONTEXT_NUM_WORDS sw_ctxt_norm
  by unfold_locales (simp_all add: EQDMA_SW_CONTEXT_NUM_WORDS_def sw_ctxt_dec_enc, simp add: sw_ctxt_enc_def Let_def)

text \<open>A struct whose members fit their fields.\<close>

definition sw_ctxt_fits :: "qdma_descq_sw_ctxt \<Rightarrow> bool" where
  "sw_ctxt_fits c \<longleftrightarrow> fits 11 (sw_vec c) \<and> fits 1 (sw_irq_arm c) \<and>
     fits 1 (sw_qen c) \<and> fits 1 (sw_frcd_en c) \<and> fits 1 (sw_wbi_chk c) \<and>
     fits 1 (sw_wbi_intvl_en c) \<and> fits 1 (sw_at c) \<and> fits 4 (sw_fetch_max c) \<and>
     fits 4 (sw_rngsz_idx c) \<and> fits 2 (sw_desc_sz c) \<and> fits 1 (sw_bypass c) \<and>
     fits 1 (sw_mm_chn c) \<and> fits 1 (sw_wbk_en c) \<and> fits 1 (sw_irq_en c) \<and>
     fits 3 (sw_port_id c) \<and> fits 1 (sw_irq_no_last c) \<and> fits 2 (sw_err c) \<and>
     fits 1 (sw_err_wb_sent c) \<and> fits 1 (sw_irq_req c) \<and> fits 1 (sw_mrkr_dis c) \<and>
     fits 1 (sw_is_mm c) \<and> fits 1 (sw_intr_aggr c) \<and> fits 1 (sw_pasid_en c) \<and>
     fits 1 (sw_dis_intr_on_vf c) \<and> fits 1 (sw_virtio_en c) \<and>
     fits 1 (sw_pack_byp_out c) \<and> fits 1 (sw_irq_byp c) \<and> fits 4 (sw_host_id c) \<and>
     fits 22 (sw_pasid c)"

lemma sw_ctxt_norm_fits:
  "sw_ctxt_fits c \<Longrightarrow> sw_ctxt_norm c = c\<lparr>sw_virtio_dsc_base :=
     take_bit 53 (sw_virtio_dsc_base c) OR push_bit 53 (take_bit 11 (drop_bit 21 (sw_virtio_dsc_base c)))\<rparr>"
  by (simp add: sw_ctxt_fits_def sw_ctxt_norm_def take_bit_fits fits_mod_2)

text \<open>A context of zeros.\<close>

definition sw_ctxt_zero :: qdma_descq_sw_ctxt where
  "sw_ctxt_zero = \<lparr>sw_ring_bs_addr = 0, sw_vec = 0, sw_pidx = 0, sw_irq_arm = 0,
    sw_fnc_id = 0, sw_qen = 0, sw_frcd_en = 0, sw_wbi_chk = 0, sw_wbi_intvl_en = 0, sw_at = 0,
    sw_fetch_max = 0, sw_rngsz_idx = 0, sw_desc_sz = 0, sw_bypass = 0, sw_mm_chn = 0,
    sw_wbk_en = 0, sw_irq_en = 0, sw_port_id = 0, sw_irq_no_last = 0, sw_err = 0,
    sw_err_wb_sent = 0, sw_irq_req = 0, sw_mrkr_dis = 0, sw_is_mm = 0, sw_intr_aggr = 0,
    sw_pasid_en = 0, sw_dis_intr_on_vf = 0, sw_virtio_en = 0, sw_pack_byp_out = 0, sw_irq_byp = 0,
    sw_host_id = 0, sw_pasid = 0, sw_virtio_dsc_base = 0\<rparr>"

interpretation sw_z: zero_codec sw_ctxt_enc sw_ctxt_dec EQDMA_SW_CONTEXT_NUM_WORDS sw_ctxt_norm sw_ctxt_zero
  by unfold_locales
    (simp add: sw_ctxt_dec_def sw_ctxt_zero_def EQDMA_SW_CONTEXT_NUM_WORDS_def Let_def FIELD_GET_zero FIELD_SET_zero)

subsection \<open>Properties\<close>

text \<open>
  C19: a software context whose members fit their fields is read back as it was written, on a device
  that behaves as documented, except that the top eleven bits of the virtio descriptor base come back
  as its bits 21 to 31: the read takes them from word 6 instead of word 7.
\<close>

theorem sw_ctxt_write_read:
  assumes "context_device mm view" and "responsive mm" and "sw_ctxt_fits c"
  shows "\<exists>s1 s2. eqdma_sw_ctx_conf mm True c2h hw_qid (Some c) QDMA_HW_ACCESS_WRITE s = (0, Some c, s1) \<and>
    eqdma_sw_ctx_conf mm True c2h hw_qid (Some c0) QDMA_HW_ACCESS_READ s1 =
      (0, Some (c\<lparr>sw_virtio_dsc_base := take_bit 53 (sw_virtio_dsc_base c) OR
        push_bit 53 (take_bit 11 (drop_bit 21 (sw_virtio_dsc_base c)))\<rparr>), s2)"
proof -
  let ?sel = "(if c2h \<noteq> 0 then QDMA_CTXT_SEL_SW_C2H else QDMA_CTXT_SEL_SW_H2C)"
  obtain s1 d s2 where "eqdma_indirect_reg_write mm ?sel hw_qid (sw_ctxt_enc c) s = (0, s1)"
    "eqdma_indirect_reg_read mm ?sel hw_qid EQDMA_SW_CONTEXT_NUM_WORDS s1 = (Inr d, s2)" "sw_ctxt_dec d = sw_ctxt_norm c"
    using sw.write_then_read [OF assms(1,2)] by blast
  then show ?thesis
    using sw_ctxt_norm_fits [OF assms(3)]
    by (simp add: eqdma_sw_ctx_conf_def eqdma_sw_context_write_def eqdma_sw_context_read_def Let_def)
qed

theorem sw_ctxt_write_read_witness:
  "\<exists>s1 s2. eqdma_sw_ctx_conf sim True 1 5 (Some (sw_ctxt_zero\<lparr>sw_pidx := 7, sw_vec := 2047, sw_ring_bs_addr := 0x123456789ABCDEF0, sw_rngsz_idx := 15, sw_host_id := 9\<rparr>)) QDMA_HW_ACCESS_WRITE sim_start =
      (0, Some (sw_ctxt_zero\<lparr>sw_pidx := 7, sw_vec := 2047, sw_ring_bs_addr := 0x123456789ABCDEF0, sw_rngsz_idx := 15, sw_host_id := 9\<rparr>), s1) \<and>
    eqdma_sw_ctx_conf sim True 1 5 (Some sw_ctxt_zero) QDMA_HW_ACCESS_READ s1 = (0, Some (sw_ctxt_zero\<lparr>sw_pidx := 7, sw_vec := 2047, sw_ring_bs_addr := 0x123456789ABCDEF0, sw_rngsz_idx := 15, sw_host_id := 9\<rparr>), s2)"
proof -
  have "sw_ctxt_fits (sw_ctxt_zero\<lparr>sw_pidx := 7, sw_vec := 2047, sw_ring_bs_addr := 0x123456789ABCDEF0, sw_rngsz_idx := 15, sw_host_id := 9\<rparr>)"
    by (simp add: sw_ctxt_fits_def sw_ctxt_zero_def fits_def)
  from sw_ctxt_write_read [OF sim_context_device sim_responsive this, of 1]
  show ?thesis by (simp add: sw_ctxt_zero_def)
qed

text \<open>
  after a clear, the context of the queue is read as zeros, whatever it was before.
\<close>

theorem sw_ctxt_clear_read:
  assumes "context_device mm view" and "responsive mm"
  shows "\<exists>s2. eqdma_sw_ctx_conf mm True c2h hw_qid (Some c0) QDMA_HW_ACCESS_READ
      (snd (snd (eqdma_sw_ctx_conf mm True c2h hw_qid c1 QDMA_HW_ACCESS_CLEAR s))) = (0, Some sw_ctxt_zero, s2)"
proof -
  let ?sel = "(if c2h \<noteq> 0 then QDMA_CTXT_SEL_SW_C2H else QDMA_CTXT_SEL_SW_H2C)"
  let ?s1 = "snd (eqdma_indirect_reg_clear mm ?sel hw_qid s)"
  obtain d s2 where r: "eqdma_indirect_reg_read mm ?sel hw_qid EQDMA_SW_CONTEXT_NUM_WORDS ?s1 = (Inr d, s2)"
    using indirect_read_effect(2) [OF assms(1) sw.words_fit assms(2)] by blast
  have "sw_ctxt_dec d = sw_ctxt_zero" using sw_z.read_after_clear [OF assms(1) r] .
  with r show ?thesis
    by (simp add: eqdma_sw_ctx_conf_def eqdma_sw_context_clear_def eqdma_sw_context_read_def Let_def case_prod_beta)
qed

theorem sw_ctxt_clear_read_witness:
  "\<exists>s2. eqdma_sw_ctx_conf sim True 1 5 (Some sw_ctxt_zero) QDMA_HW_ACCESS_READ
      (snd (snd (eqdma_sw_ctx_conf sim True 1 5 None QDMA_HW_ACCESS_CLEAR (sim_start\<lparr>ctxts := \<lambda>_ _ _. 3\<rparr>)))) =
    (0, Some sw_ctxt_zero, s2)"
  using sw_ctxt_clear_read [OF sim_context_device sim_responsive] by blast

end
