(* ===== verification/Ctxt_Pfetch.thy ===== *)
theory Ctxt_Pfetch
  imports Ctxt_Codec
begin

section \<open>The prefetch context (eqdma\_soft\_access.c)\<close>

text \<open>
  The prefetch context of a C2H stream queue: two words, with the software credit split over both.
\<close>

definition PREFETCH_CTXT_DATA_W1_VALID_MASK :: u32 where [mask_defs]: "PREFETCH_CTXT_DATA_W1_VALID_MASK = BIT 13"
definition PREFETCH_CTXT_DATA_W1_SW_CRDT_H_MASK :: u32 where [mask_defs]: "PREFETCH_CTXT_DATA_W1_SW_CRDT_H_MASK = GENMASK 12 0"
definition PREFETCH_CTXT_DATA_W0_SW_CRDT_L_MASK :: u32 where [mask_defs]: "PREFETCH_CTXT_DATA_W0_SW_CRDT_L_MASK = GENMASK 31 29"
definition PREFETCH_CTXT_DATA_W0_PFCH_MASK :: u32 where [mask_defs]: "PREFETCH_CTXT_DATA_W0_PFCH_MASK = BIT 28"
definition PREFETCH_CTXT_DATA_W0_PFCH_EN_MASK :: u32 where [mask_defs]: "PREFETCH_CTXT_DATA_W0_PFCH_EN_MASK = BIT 27"
definition PREFETCH_CTXT_DATA_W0_ERR_MASK :: u32 where [mask_defs]: "PREFETCH_CTXT_DATA_W0_ERR_MASK = BIT 26"
definition PREFETCH_CTXT_DATA_W0_NUM_PFCH_MASK :: u32 where [mask_defs]: "PREFETCH_CTXT_DATA_W0_NUM_PFCH_MASK = GENMASK 15 10"
definition PREFETCH_CTXT_DATA_W0_VAR_DESC_MASK :: u32 where [mask_defs]: "PREFETCH_CTXT_DATA_W0_VAR_DESC_MASK = BIT 8"
definition PREFETCH_CTXT_DATA_W0_PORT_ID_MASK :: u32 where [mask_defs]: "PREFETCH_CTXT_DATA_W0_PORT_ID_MASK = GENMASK 7 5"
definition PREFETCH_CTXT_DATA_W0_BUF_SZ_IDX_MASK :: u32 where [mask_defs]: "PREFETCH_CTXT_DATA_W0_BUF_SZ_IDX_MASK = GENMASK 4 1"
definition PREFETCH_CTXT_DATA_W0_BYPASS_MASK :: u32 where [mask_defs]: "PREFETCH_CTXT_DATA_W0_BYPASS_MASK = BIT 0"
definition QDMA_PFTCH_CTXT_SW_CRDT_GET_H_MASK :: u32 where [mask_defs]: "QDMA_PFTCH_CTXT_SW_CRDT_GET_H_MASK = GENMASK 15 3"
definition QDMA_PFTCH_CTXT_SW_CRDT_GET_L_MASK :: u32 where [mask_defs]: "QDMA_PFTCH_CTXT_SW_CRDT_GET_L_MASK = GENMASK 2 0"

definition EQDMA_PFETCH_CONTEXT_NUM_WORDS :: nat where "EQDMA_PFETCH_CONTEXT_NUM_WORDS = 2"

record qdma_descq_prefetch_ctxt =
  pf_sw_crdt :: u16
  pf_bypass :: u8
  pf_bufsz_idx :: u8
  pf_port_id :: u8
  pf_var_desc :: u8
  pf_num_pftch :: u16
  pf_err :: u8
  pf_pfch_en :: u8
  pf_pfch :: u8
  pf_valid :: u8

subsection \<open>Packing and unpacking\<close>

definition pfetch_ctxt_enc :: "qdma_descq_prefetch_ctxt \<Rightarrow> u32 list" where
  "pfetch_ctxt_enc c =
     (let sw_crdt_l = FIELD_GET QDMA_PFTCH_CTXT_SW_CRDT_GET_L_MASK (ucast (pf_sw_crdt c));
         sw_crdt_h = FIELD_GET QDMA_PFTCH_CTXT_SW_CRDT_GET_H_MASK (ucast (pf_sw_crdt c))
      in [FIELD_SET PREFETCH_CTXT_DATA_W0_BYPASS_MASK (ucast (pf_bypass c)) OR
          FIELD_SET PREFETCH_CTXT_DATA_W0_BUF_SZ_IDX_MASK (ucast (pf_bufsz_idx c)) OR
          FIELD_SET PREFETCH_CTXT_DATA_W0_PORT_ID_MASK (ucast (pf_port_id c)) OR
          FIELD_SET PREFETCH_CTXT_DATA_W0_NUM_PFCH_MASK (ucast (pf_num_pftch c)) OR
          FIELD_SET PREFETCH_CTXT_DATA_W0_VAR_DESC_MASK (ucast (pf_var_desc c)) OR
          FIELD_SET PREFETCH_CTXT_DATA_W0_ERR_MASK (ucast (pf_err c)) OR
          FIELD_SET PREFETCH_CTXT_DATA_W0_PFCH_EN_MASK (ucast (pf_pfch_en c)) OR
          FIELD_SET PREFETCH_CTXT_DATA_W0_PFCH_MASK (ucast (pf_pfch c)) OR
          FIELD_SET PREFETCH_CTXT_DATA_W0_SW_CRDT_L_MASK sw_crdt_l,
         FIELD_SET PREFETCH_CTXT_DATA_W1_SW_CRDT_H_MASK sw_crdt_h OR
          FIELD_SET PREFETCH_CTXT_DATA_W1_VALID_MASK (ucast (pf_valid c))])"

definition pfetch_ctxt_dec :: "u32 list \<Rightarrow> qdma_descq_prefetch_ctxt" where
  "pfetch_ctxt_dec ws =
     (let sw_crdt_l = FIELD_GET PREFETCH_CTXT_DATA_W0_SW_CRDT_L_MASK (ws ! 0);
         sw_crdt_h = FIELD_GET PREFETCH_CTXT_DATA_W1_SW_CRDT_H_MASK (ws ! 1)
      in \<lparr>pf_sw_crdt = ucast (FIELD_SET QDMA_PFTCH_CTXT_SW_CRDT_GET_L_MASK sw_crdt_l OR
           FIELD_SET QDMA_PFTCH_CTXT_SW_CRDT_GET_H_MASK sw_crdt_h),
         pf_bypass = ucast (FIELD_GET PREFETCH_CTXT_DATA_W0_BYPASS_MASK (ws ! 0)),
         pf_bufsz_idx = ucast (FIELD_GET PREFETCH_CTXT_DATA_W0_BUF_SZ_IDX_MASK (ws ! 0)),
         pf_port_id = ucast (FIELD_GET PREFETCH_CTXT_DATA_W0_PORT_ID_MASK (ws ! 0)),
         pf_var_desc = ucast (FIELD_GET PREFETCH_CTXT_DATA_W0_VAR_DESC_MASK (ws ! 0)),
         pf_num_pftch = ucast (FIELD_GET PREFETCH_CTXT_DATA_W0_NUM_PFCH_MASK (ws ! 0)),
         pf_err = ucast (FIELD_GET PREFETCH_CTXT_DATA_W0_ERR_MASK (ws ! 0)),
         pf_pfch_en = ucast (FIELD_GET PREFETCH_CTXT_DATA_W0_PFCH_EN_MASK (ws ! 0)),
         pf_pfch = ucast (FIELD_GET PREFETCH_CTXT_DATA_W0_PFCH_MASK (ws ! 0)),
         pf_valid = ucast (FIELD_GET PREFETCH_CTXT_DATA_W1_VALID_MASK (ws ! 1))\<rparr>)"

subsection \<open>Operations\<close>

definition eqdma_pfetch_context_write :: "'s mmio \<Rightarrow> bool \<Rightarrow> u16 \<Rightarrow> qdma_descq_prefetch_ctxt option \<Rightarrow> 's \<Rightarrow> int \<times> 's" where
  "eqdma_pfetch_context_write mm dev_hndl hw_qid ctxt s =
     (let sel = QDMA_CTXT_SEL_PFTCH
      in if \<not> dev_hndl then (neg_err QDMA_ERR_INV_PARAM, s)
         else (case ctxt of
             None \<Rightarrow> (neg_err QDMA_ERR_INV_PARAM, s)
           | Some c \<Rightarrow> eqdma_indirect_reg_write mm sel hw_qid (pfetch_ctxt_enc c) s))"

definition eqdma_pfetch_context_read :: "'s mmio \<Rightarrow> bool \<Rightarrow> u16 \<Rightarrow> qdma_descq_prefetch_ctxt option \<Rightarrow> 's \<Rightarrow> int \<times> qdma_descq_prefetch_ctxt option \<times> 's" where
  "eqdma_pfetch_context_read mm dev_hndl hw_qid ctxt s =
     (let sel = QDMA_CTXT_SEL_PFTCH
      in if \<not> dev_hndl \<or> ctxt = None then (neg_err QDMA_ERR_INV_PARAM, ctxt, s)
         else (case eqdma_indirect_reg_read mm sel hw_qid EQDMA_PFETCH_CONTEXT_NUM_WORDS s of
             (Inl rv, s') \<Rightarrow> (rv, ctxt, s')
           | (Inr ws, s') \<Rightarrow> (err_code QDMA_SUCCESS, Some (pfetch_ctxt_dec ws), s')))"

definition eqdma_pfetch_context_clear :: "'s mmio \<Rightarrow> bool \<Rightarrow> u16 \<Rightarrow> 's \<Rightarrow> int \<times> 's" where
  "eqdma_pfetch_context_clear mm dev_hndl hw_qid s =
     (let sel = QDMA_CTXT_SEL_PFTCH
      in if \<not> dev_hndl then (neg_err QDMA_ERR_INV_PARAM, s) else eqdma_indirect_reg_clear mm sel hw_qid s)"

definition eqdma_pfetch_context_invalidate :: "'s mmio \<Rightarrow> bool \<Rightarrow> u16 \<Rightarrow> 's \<Rightarrow> int \<times> 's" where
  "eqdma_pfetch_context_invalidate mm dev_hndl hw_qid s =
     (let sel = QDMA_CTXT_SEL_PFTCH
      in if \<not> dev_hndl then (neg_err QDMA_ERR_INV_PARAM, s) else eqdma_indirect_reg_invalidate mm sel hw_qid s)"

definition eqdma_pfetch_ctx_conf :: "'s mmio \<Rightarrow> bool \<Rightarrow> u16 \<Rightarrow> qdma_descq_prefetch_ctxt option \<Rightarrow> qdma_hw_access_type \<Rightarrow> 's \<Rightarrow>
    int \<times> qdma_descq_prefetch_ctxt option \<times> 's" where
  "eqdma_pfetch_ctx_conf mm dev_hndl hw_qid ctxt access_type s =
     (case access_type of
        QDMA_HW_ACCESS_READ \<Rightarrow> eqdma_pfetch_context_read mm dev_hndl hw_qid ctxt s
      | QDMA_HW_ACCESS_WRITE \<Rightarrow> (let (rv, s') = eqdma_pfetch_context_write mm dev_hndl hw_qid ctxt s in (rv, ctxt, s'))
      | QDMA_HW_ACCESS_CLEAR \<Rightarrow> (let (rv, s') = eqdma_pfetch_context_clear mm dev_hndl hw_qid s in (rv, ctxt, s'))
      | QDMA_HW_ACCESS_INVALIDATE \<Rightarrow> (let (rv, s') = eqdma_pfetch_context_invalidate mm dev_hndl hw_qid s in (rv, ctxt, s'))
      | _ \<Rightarrow> (neg_err QDMA_ERR_INV_PARAM, ctxt, s))"

subsection \<open>Packing and unpacking are inverse up to the widths of the fields\<close>

definition pfetch_ctxt_norm :: "qdma_descq_prefetch_ctxt \<Rightarrow> qdma_descq_prefetch_ctxt" where
  "pfetch_ctxt_norm c = \<lparr>pf_sw_crdt = pf_sw_crdt c, pf_bypass = take_bit 1 (pf_bypass c),
    pf_bufsz_idx = take_bit 4 (pf_bufsz_idx c), pf_port_id = take_bit 3 (pf_port_id c),
    pf_var_desc = take_bit 1 (pf_var_desc c), pf_num_pftch = take_bit 6 (pf_num_pftch c),
    pf_err = take_bit 1 (pf_err c), pf_pfch_en = take_bit 1 (pf_pfch_en c),
    pf_pfch = take_bit 1 (pf_pfch c), pf_valid = take_bit 1 (pf_valid c)\<rparr>"

lemma sw_crdt_pieces:
  "(ucast (FIELD_SET (GENMASK 2 0) (take_bit 3 (FIELD_GET (GENMASK 2 0) (ucast p :: u32))) OR
   FIELD_SET (GENMASK 15 3) (take_bit 13 (FIELD_GET (GENMASK 15 3) (ucast p)))) :: u16) = p"
  by (rule bit_word_eqI) (auto simp: bit_FIELD_SET bit_FIELD_GET bit_simps)

lemma pfetch_ctxt_dec_enc: "pfetch_ctxt_dec (pfetch_ctxt_enc c) = pfetch_ctxt_norm c"
  unfolding pfetch_ctxt_enc_def pfetch_ctxt_dec_def pfetch_ctxt_norm_def Let_def
  by (simp add: mask_defs field_rules ucast_take_ucast ucast_mod_2 sw_crdt_pieces)

interpretation pfetch: ctxt_codec pfetch_ctxt_enc pfetch_ctxt_dec EQDMA_PFETCH_CONTEXT_NUM_WORDS pfetch_ctxt_norm
  by unfold_locales (simp_all add: EQDMA_PFETCH_CONTEXT_NUM_WORDS_def pfetch_ctxt_dec_enc, simp add: pfetch_ctxt_enc_def Let_def)

definition pfetch_ctxt_fits :: "qdma_descq_prefetch_ctxt \<Rightarrow> bool" where
  "pfetch_ctxt_fits c \<longleftrightarrow> fits 1 (pf_bypass c) \<and>
     fits 4 (pf_bufsz_idx c) \<and> fits 3 (pf_port_id c) \<and> fits 1 (pf_var_desc c) \<and>
     fits 6 (pf_num_pftch c) \<and> fits 1 (pf_err c) \<and> fits 1 (pf_pfch_en c) \<and>
     fits 1 (pf_pfch c) \<and> fits 1 (pf_valid c)"

lemma pfetch_ctxt_norm_fits: "pfetch_ctxt_fits c \<Longrightarrow> pfetch_ctxt_norm c = c"
  by (simp add: pfetch_ctxt_fits_def pfetch_ctxt_norm_def take_bit_fits fits_mod_2)

text \<open>A context of zeros.\<close>

definition pfetch_ctxt_zero :: qdma_descq_prefetch_ctxt where
  "pfetch_ctxt_zero = \<lparr>pf_sw_crdt = 0, pf_bypass = 0, pf_bufsz_idx = 0, pf_port_id = 0,
    pf_var_desc = 0, pf_num_pftch = 0, pf_err = 0, pf_pfch_en = 0, pf_pfch = 0,
    pf_valid = 0\<rparr>"

interpretation pfetch_z: zero_codec pfetch_ctxt_enc pfetch_ctxt_dec EQDMA_PFETCH_CONTEXT_NUM_WORDS pfetch_ctxt_norm pfetch_ctxt_zero
  by unfold_locales
    (simp add: pfetch_ctxt_dec_def pfetch_ctxt_zero_def EQDMA_PFETCH_CONTEXT_NUM_WORDS_def Let_def FIELD_GET_zero FIELD_SET_zero)

subsection \<open>Properties\<close>

text \<open>
  A prefetch context whose members fit their fields is read back exactly as it was written, on a device
  that behaves as documented.
\<close>

theorem pfetch_ctxt_write_read:
  assumes "context_device mm view" and "responsive mm" and "pfetch_ctxt_fits c"
  shows "\<exists>s1 s2. eqdma_pfetch_ctx_conf mm True hw_qid (Some c) QDMA_HW_ACCESS_WRITE s = (0, Some c, s1) \<and>
    eqdma_pfetch_ctx_conf mm True hw_qid (Some c0) QDMA_HW_ACCESS_READ s1 =
      (0, Some (c), s2)"
proof -
  let ?sel = "QDMA_CTXT_SEL_PFTCH"
  obtain s1 d s2 where "eqdma_indirect_reg_write mm ?sel hw_qid (pfetch_ctxt_enc c) s = (0, s1)"
    "eqdma_indirect_reg_read mm ?sel hw_qid EQDMA_PFETCH_CONTEXT_NUM_WORDS s1 = (Inr d, s2)" "pfetch_ctxt_dec d = pfetch_ctxt_norm c"
    using pfetch.write_then_read [OF assms(1,2)] by blast
  then show ?thesis
    using pfetch_ctxt_norm_fits [OF assms(3)]
    by (simp add: eqdma_pfetch_ctx_conf_def eqdma_pfetch_context_write_def eqdma_pfetch_context_read_def Let_def)
qed

theorem pfetch_ctxt_write_read_witness:
  "\<exists>s1 s2. eqdma_pfetch_ctx_conf sim True 5 (Some (pfetch_ctxt_zero\<lparr>pf_sw_crdt := 0xABCD, pf_num_pftch := 33, pf_port_id := 5, pf_valid := 1\<rparr>)) QDMA_HW_ACCESS_WRITE sim_start =
      (0, Some (pfetch_ctxt_zero\<lparr>pf_sw_crdt := 0xABCD, pf_num_pftch := 33, pf_port_id := 5, pf_valid := 1\<rparr>), s1) \<and>
    eqdma_pfetch_ctx_conf sim True 5 (Some pfetch_ctxt_zero) QDMA_HW_ACCESS_READ s1 = (0, Some (pfetch_ctxt_zero\<lparr>pf_sw_crdt := 0xABCD, pf_num_pftch := 33, pf_port_id := 5, pf_valid := 1\<rparr>), s2)"
proof -
  have "pfetch_ctxt_fits (pfetch_ctxt_zero\<lparr>pf_sw_crdt := 0xABCD, pf_num_pftch := 33, pf_port_id := 5, pf_valid := 1\<rparr>)"
    by (simp add: pfetch_ctxt_fits_def pfetch_ctxt_zero_def fits_def)
  from pfetch_ctxt_write_read [OF sim_context_device sim_responsive this]
  show ?thesis by (simp add: pfetch_ctxt_zero_def)
qed

end
