(* ===== verification/Ctxt_Cmpt.thy ===== *)
theory Ctxt_Cmpt
  imports Ctxt_Codec
begin

section \<open>The completion context (eqdma\_soft\_access.c)\<close>

text \<open>
  The context of a completion ring: six words. The ring address is split in three, the producer index
  and the process id in two.
\<close>

definition CMPL_CTXT_DATA_W5_SH_CMPT_MASK :: u32 where [mask_defs]: "CMPL_CTXT_DATA_W5_SH_CMPT_MASK = BIT 19"
definition CMPL_CTXT_DATA_W5_VIO_EOP_MASK :: u32 where [mask_defs]: "CMPL_CTXT_DATA_W5_VIO_EOP_MASK = BIT 18"
definition CMPL_CTXT_DATA_W5_BADDR4_LOW_MASK :: u32 where [mask_defs]: "CMPL_CTXT_DATA_W5_BADDR4_LOW_MASK = GENMASK 17 14"
definition CMPL_CTXT_DATA_W5_PASID_EN_MASK :: u32 where [mask_defs]: "CMPL_CTXT_DATA_W5_PASID_EN_MASK = BIT 13"
definition CMPL_CTXT_DATA_W5_PASID_H_MASK :: u32 where [mask_defs]: "CMPL_CTXT_DATA_W5_PASID_H_MASK = GENMASK 12 0"
definition CMPL_CTXT_DATA_W4_PASID_L_MASK :: u32 where [mask_defs]: "CMPL_CTXT_DATA_W4_PASID_L_MASK = GENMASK 31 23"
definition CMPL_CTXT_DATA_W4_HOST_ID_MASK :: u32 where [mask_defs]: "CMPL_CTXT_DATA_W4_HOST_ID_MASK = GENMASK 22 19"
definition CMPL_CTXT_DATA_W4_DIR_C2H_MASK :: u32 where [mask_defs]: "CMPL_CTXT_DATA_W4_DIR_C2H_MASK = BIT 18"
definition CMPL_CTXT_DATA_W4_VIO_MASK :: u32 where [mask_defs]: "CMPL_CTXT_DATA_W4_VIO_MASK = BIT 17"
definition CMPL_CTXT_DATA_W4_DIS_INTR_ON_VF_MASK :: u32 where [mask_defs]: "CMPL_CTXT_DATA_W4_DIS_INTR_ON_VF_MASK = BIT 16"
definition CMPL_CTXT_DATA_W4_INT_AGGR_MASK :: u32 where [mask_defs]: "CMPL_CTXT_DATA_W4_INT_AGGR_MASK = BIT 15"
definition CMPL_CTXT_DATA_W4_VEC_MASK :: u32 where [mask_defs]: "CMPL_CTXT_DATA_W4_VEC_MASK = GENMASK 14 4"
definition CMPL_CTXT_DATA_W4_AT_MASK :: u32 where [mask_defs]: "CMPL_CTXT_DATA_W4_AT_MASK = BIT 3"
definition CMPL_CTXT_DATA_W4_OVF_CHK_DIS_MASK :: u32 where [mask_defs]: "CMPL_CTXT_DATA_W4_OVF_CHK_DIS_MASK = BIT 2"
definition CMPL_CTXT_DATA_W4_FULL_UPD_MASK :: u32 where [mask_defs]: "CMPL_CTXT_DATA_W4_FULL_UPD_MASK = BIT 1"
definition CMPL_CTXT_DATA_W4_TIMER_RUNNING_MASK :: u32 where [mask_defs]: "CMPL_CTXT_DATA_W4_TIMER_RUNNING_MASK = BIT 0"
definition CMPL_CTXT_DATA_W3_USER_TRIG_PEND_MASK :: u32 where [mask_defs]: "CMPL_CTXT_DATA_W3_USER_TRIG_PEND_MASK = BIT 31"
definition CMPL_CTXT_DATA_W3_ERR_MASK :: u32 where [mask_defs]: "CMPL_CTXT_DATA_W3_ERR_MASK = GENMASK 30 29"
definition CMPL_CTXT_DATA_W3_VALID_MASK :: u32 where [mask_defs]: "CMPL_CTXT_DATA_W3_VALID_MASK = BIT 28"
definition CMPL_CTXT_DATA_W3_CIDX_MASK :: u32 where [mask_defs]: "CMPL_CTXT_DATA_W3_CIDX_MASK = GENMASK 27 12"
definition CMPL_CTXT_DATA_W3_PIDX_H_MASK :: u32 where [mask_defs]: "CMPL_CTXT_DATA_W3_PIDX_H_MASK = GENMASK 11 0"
definition CMPL_CTXT_DATA_W2_PIDX_L_MASK :: u32 where [mask_defs]: "CMPL_CTXT_DATA_W2_PIDX_L_MASK = GENMASK 31 28"
definition CMPL_CTXT_DATA_W2_DESC_SIZE_MASK :: u32 where [mask_defs]: "CMPL_CTXT_DATA_W2_DESC_SIZE_MASK = GENMASK 27 26"
definition CMPL_CTXT_DATA_W2_BADDR4_HIGH_H_MASK :: u32 where [mask_defs]: "CMPL_CTXT_DATA_W2_BADDR4_HIGH_H_MASK = GENMASK 25 0"
definition CMPL_CTXT_DATA_W1_BADDR4_HIGH_L_MASK :: u32 where [mask_defs]: "CMPL_CTXT_DATA_W1_BADDR4_HIGH_L_MASK = GENMASK 31 0"
definition CMPL_CTXT_DATA_W0_QSIZE_IX_MASK :: u32 where [mask_defs]: "CMPL_CTXT_DATA_W0_QSIZE_IX_MASK = GENMASK 31 28"
definition CMPL_CTXT_DATA_W0_COLOR_MASK :: u32 where [mask_defs]: "CMPL_CTXT_DATA_W0_COLOR_MASK = BIT 27"
definition CMPL_CTXT_DATA_W0_INT_ST_MASK :: u32 where [mask_defs]: "CMPL_CTXT_DATA_W0_INT_ST_MASK = GENMASK 26 25"
definition CMPL_CTXT_DATA_W0_TIMER_IX_MASK :: u32 where [mask_defs]: "CMPL_CTXT_DATA_W0_TIMER_IX_MASK = GENMASK 24 21"
definition CMPL_CTXT_DATA_W0_CNTER_IX_MASK :: u32 where [mask_defs]: "CMPL_CTXT_DATA_W0_CNTER_IX_MASK = GENMASK 20 17"
definition CMPL_CTXT_DATA_W0_FNC_ID_MASK :: u32 where [mask_defs]: "CMPL_CTXT_DATA_W0_FNC_ID_MASK = GENMASK 16 5"
definition CMPL_CTXT_DATA_W0_TRIG_MODE_MASK :: u32 where [mask_defs]: "CMPL_CTXT_DATA_W0_TRIG_MODE_MASK = GENMASK 4 2"
definition CMPL_CTXT_DATA_W0_EN_INT_MASK :: u32 where [mask_defs]: "CMPL_CTXT_DATA_W0_EN_INT_MASK = BIT 1"
definition CMPL_CTXT_DATA_W0_EN_STAT_DESC_MASK :: u32 where [mask_defs]: "CMPL_CTXT_DATA_W0_EN_STAT_DESC_MASK = BIT 0"
definition EQDMA_COMPL_CTXT_BADDR_HIGH_H_MASK :: u64 where [mask_defs]: "EQDMA_COMPL_CTXT_BADDR_HIGH_H_MASK = GENMASK 63 38"
definition EQDMA_COMPL_CTXT_BADDR_HIGH_L_MASK :: u64 where [mask_defs]: "EQDMA_COMPL_CTXT_BADDR_HIGH_L_MASK = GENMASK 37 6"
definition EQDMA_COMPL_CTXT_BADDR_LOW_MASK :: u64 where [mask_defs]: "EQDMA_COMPL_CTXT_BADDR_LOW_MASK = GENMASK 5 2"
definition EQDMA_CMPL_CTXT_PASID_GET_H_MASK :: u32 where [mask_defs]: "EQDMA_CMPL_CTXT_PASID_GET_H_MASK = GENMASK 21 9"
definition EQDMA_CMPL_CTXT_PASID_GET_L_MASK :: u32 where [mask_defs]: "EQDMA_CMPL_CTXT_PASID_GET_L_MASK = GENMASK 8 0"
definition QDMA_COMPL_CTXT_PIDX_GET_H_MASK :: u32 where [mask_defs]: "QDMA_COMPL_CTXT_PIDX_GET_H_MASK = GENMASK 15 4"
definition QDMA_COMPL_CTXT_PIDX_GET_L_MASK :: u32 where [mask_defs]: "QDMA_COMPL_CTXT_PIDX_GET_L_MASK = GENMASK 3 0"

definition EQDMA_CMPT_CONTEXT_NUM_WORDS :: nat where "EQDMA_CMPT_CONTEXT_NUM_WORDS = 6"

text \<open>The last of the trigger modes, as the enumeration numbers them.\<close>

definition QDMA_CMPT_UPDATE_TRIG_MODE_TMR_CNTR :: u8 where "QDMA_CMPT_UPDATE_TRIG_MODE_TMR_CNTR = 5"

record qdma_descq_cmpt_ctxt =
  cm_bs_addr :: u64
  cm_vec :: u16
  cm_pidx :: u16
  cm_cidx :: u16
  cm_en_stat_desc :: u8
  cm_en_int :: u8
  cm_trig_mode :: u8
  cm_fnc_id :: u8
  cm_counter_idx :: u8
  cm_timer_idx :: u8
  cm_in_st :: u8
  cm_color :: u8
  cm_ringsz_idx :: u8
  cm_desc_sz :: u8
  cm_valid :: u8
  cm_err :: u8
  cm_user_trig_pend :: u8
  cm_timer_running :: u8
  cm_full_upd :: u8
  cm_ovf_chk_dis :: u8
  cm_at :: u8
  cm_int_aggr :: u8
  cm_dis_intr_on_vf :: u8
  cm_vio :: u8
  cm_dir_c2h :: u8
  cm_host_id :: u8
  cm_pasid :: u32
  cm_pasid_en :: u8
  cm_vio_eop :: u8
  cm_sh_cmpt :: u8

subsection \<open>Packing and unpacking\<close>

definition cmpt_ctxt_enc :: "qdma_descq_cmpt_ctxt \<Rightarrow> u32 list" where
  "cmpt_ctxt_enc c =
     (let baddr4_high_l = ucast (FIELD_GET EQDMA_COMPL_CTXT_BADDR_HIGH_L_MASK (cm_bs_addr c));
         baddr4_high_h = ucast (FIELD_GET EQDMA_COMPL_CTXT_BADDR_HIGH_H_MASK (cm_bs_addr c));
         baddr4_low = ucast (FIELD_GET EQDMA_COMPL_CTXT_BADDR_LOW_MASK (cm_bs_addr c));
         pidx_l = FIELD_GET QDMA_COMPL_CTXT_PIDX_GET_L_MASK (ucast (cm_pidx c));
         pidx_h = FIELD_GET QDMA_COMPL_CTXT_PIDX_GET_H_MASK (ucast (cm_pidx c));
         pasid_l = FIELD_GET EQDMA_CMPL_CTXT_PASID_GET_L_MASK (cm_pasid c);
         pasid_h = FIELD_GET EQDMA_CMPL_CTXT_PASID_GET_H_MASK (cm_pasid c)
      in [FIELD_SET CMPL_CTXT_DATA_W0_EN_STAT_DESC_MASK (ucast (cm_en_stat_desc c)) OR
          FIELD_SET CMPL_CTXT_DATA_W0_EN_INT_MASK (ucast (cm_en_int c)) OR
          FIELD_SET CMPL_CTXT_DATA_W0_TRIG_MODE_MASK (ucast (cm_trig_mode c)) OR
          FIELD_SET CMPL_CTXT_DATA_W0_FNC_ID_MASK (ucast (cm_fnc_id c)) OR
          FIELD_SET CMPL_CTXT_DATA_W0_CNTER_IX_MASK (ucast (cm_counter_idx c)) OR
          FIELD_SET CMPL_CTXT_DATA_W0_TIMER_IX_MASK (ucast (cm_timer_idx c)) OR
          FIELD_SET CMPL_CTXT_DATA_W0_INT_ST_MASK (ucast (cm_in_st c)) OR
          FIELD_SET CMPL_CTXT_DATA_W0_COLOR_MASK (ucast (cm_color c)) OR
          FIELD_SET CMPL_CTXT_DATA_W0_QSIZE_IX_MASK (ucast (cm_ringsz_idx c)),
         FIELD_SET CMPL_CTXT_DATA_W1_BADDR4_HIGH_L_MASK baddr4_high_l,
         FIELD_SET CMPL_CTXT_DATA_W2_BADDR4_HIGH_H_MASK baddr4_high_h OR
          FIELD_SET CMPL_CTXT_DATA_W2_DESC_SIZE_MASK (ucast (cm_desc_sz c)) OR
          FIELD_SET CMPL_CTXT_DATA_W2_PIDX_L_MASK pidx_l,
         FIELD_SET CMPL_CTXT_DATA_W3_PIDX_H_MASK pidx_h OR
          FIELD_SET CMPL_CTXT_DATA_W3_CIDX_MASK (ucast (cm_cidx c)) OR
          FIELD_SET CMPL_CTXT_DATA_W3_VALID_MASK (ucast (cm_valid c)) OR
          FIELD_SET CMPL_CTXT_DATA_W3_ERR_MASK (ucast (cm_err c)) OR
          FIELD_SET CMPL_CTXT_DATA_W3_USER_TRIG_PEND_MASK (ucast (cm_user_trig_pend c)),
         FIELD_SET CMPL_CTXT_DATA_W4_TIMER_RUNNING_MASK (ucast (cm_timer_running c)) OR
          FIELD_SET CMPL_CTXT_DATA_W4_FULL_UPD_MASK (ucast (cm_full_upd c)) OR
          FIELD_SET CMPL_CTXT_DATA_W4_OVF_CHK_DIS_MASK (ucast (cm_ovf_chk_dis c)) OR
          FIELD_SET CMPL_CTXT_DATA_W4_AT_MASK (ucast (cm_at c)) OR
          FIELD_SET CMPL_CTXT_DATA_W4_VEC_MASK (ucast (cm_vec c)) OR
          FIELD_SET CMPL_CTXT_DATA_W4_INT_AGGR_MASK (ucast (cm_int_aggr c)) OR
          FIELD_SET CMPL_CTXT_DATA_W4_DIS_INTR_ON_VF_MASK (ucast (cm_dis_intr_on_vf c)) OR
          FIELD_SET CMPL_CTXT_DATA_W4_VIO_MASK (ucast (cm_vio c)) OR
          FIELD_SET CMPL_CTXT_DATA_W4_DIR_C2H_MASK (ucast (cm_dir_c2h c)) OR
          FIELD_SET CMPL_CTXT_DATA_W4_HOST_ID_MASK (ucast (cm_host_id c)) OR
          FIELD_SET CMPL_CTXT_DATA_W4_PASID_L_MASK pasid_l,
         FIELD_SET CMPL_CTXT_DATA_W5_PASID_H_MASK pasid_h OR
          FIELD_SET CMPL_CTXT_DATA_W5_PASID_EN_MASK (ucast (cm_pasid_en c)) OR
          FIELD_SET CMPL_CTXT_DATA_W5_BADDR4_LOW_MASK baddr4_low OR
          FIELD_SET CMPL_CTXT_DATA_W5_VIO_EOP_MASK (ucast (cm_vio_eop c)) OR
          FIELD_SET CMPL_CTXT_DATA_W5_SH_CMPT_MASK (ucast (cm_sh_cmpt c))])"

definition cmpt_ctxt_dec :: "u32 list \<Rightarrow> qdma_descq_cmpt_ctxt" where
  "cmpt_ctxt_dec ws =
     (let baddr4_high_l = FIELD_GET CMPL_CTXT_DATA_W1_BADDR4_HIGH_L_MASK (ws ! 1);
         baddr4_high_h = FIELD_GET CMPL_CTXT_DATA_W2_BADDR4_HIGH_H_MASK (ws ! 2);
         pidx_l = FIELD_GET CMPL_CTXT_DATA_W2_PIDX_L_MASK (ws ! 2);
         pidx_h = FIELD_GET CMPL_CTXT_DATA_W3_PIDX_H_MASK (ws ! 3);
         pasid_l = FIELD_GET CMPL_CTXT_DATA_W4_PASID_L_MASK (ws ! 4);
         pasid_h = FIELD_GET CMPL_CTXT_DATA_W5_PASID_H_MASK (ws ! 5);
         baddr4_low = ucast (ucast (FIELD_GET CMPL_CTXT_DATA_W5_BADDR4_LOW_MASK (ws ! 5)) :: u8)
      in \<lparr>cm_bs_addr = FIELD_SET EQDMA_COMPL_CTXT_BADDR_HIGH_L_MASK (ucast baddr4_high_l) OR
           FIELD_SET EQDMA_COMPL_CTXT_BADDR_HIGH_H_MASK (ucast baddr4_high_h) OR
           FIELD_SET EQDMA_COMPL_CTXT_BADDR_LOW_MASK (ucast (baddr4_low :: u32)),
         cm_vec = ucast (FIELD_GET CMPL_CTXT_DATA_W4_VEC_MASK (ws ! 4)),
         cm_pidx = ucast (FIELD_SET QDMA_COMPL_CTXT_PIDX_GET_L_MASK pidx_l OR
           FIELD_SET QDMA_COMPL_CTXT_PIDX_GET_H_MASK pidx_h),
         cm_cidx = ucast (FIELD_GET CMPL_CTXT_DATA_W3_CIDX_MASK (ws ! 3)),
         cm_en_stat_desc = ucast (FIELD_GET CMPL_CTXT_DATA_W0_EN_STAT_DESC_MASK (ws ! 0)),
         cm_en_int = ucast (FIELD_GET CMPL_CTXT_DATA_W0_EN_INT_MASK (ws ! 0)),
         cm_trig_mode = ucast (FIELD_GET CMPL_CTXT_DATA_W0_TRIG_MODE_MASK (ws ! 0)),
         cm_fnc_id = ucast (FIELD_GET CMPL_CTXT_DATA_W0_FNC_ID_MASK (ws ! 0)),
         cm_counter_idx = ucast (FIELD_GET CMPL_CTXT_DATA_W0_CNTER_IX_MASK (ws ! 0)),
         cm_timer_idx = ucast (FIELD_GET CMPL_CTXT_DATA_W0_TIMER_IX_MASK (ws ! 0)),
         cm_in_st = ucast (FIELD_GET CMPL_CTXT_DATA_W0_INT_ST_MASK (ws ! 0)),
         cm_color = ucast (FIELD_GET CMPL_CTXT_DATA_W0_COLOR_MASK (ws ! 0)),
         cm_ringsz_idx = ucast (FIELD_GET CMPL_CTXT_DATA_W0_QSIZE_IX_MASK (ws ! 0)),
         cm_desc_sz = ucast (FIELD_GET CMPL_CTXT_DATA_W2_DESC_SIZE_MASK (ws ! 2)),
         cm_valid = ucast (FIELD_GET CMPL_CTXT_DATA_W3_VALID_MASK (ws ! 3)),
         cm_err = ucast (FIELD_GET CMPL_CTXT_DATA_W3_ERR_MASK (ws ! 3)),
         cm_user_trig_pend = ucast (FIELD_GET CMPL_CTXT_DATA_W3_USER_TRIG_PEND_MASK (ws ! 3)),
         cm_timer_running = ucast (FIELD_GET CMPL_CTXT_DATA_W4_TIMER_RUNNING_MASK (ws ! 4)),
         cm_full_upd = ucast (FIELD_GET CMPL_CTXT_DATA_W4_FULL_UPD_MASK (ws ! 4)),
         cm_ovf_chk_dis = ucast (FIELD_GET CMPL_CTXT_DATA_W4_OVF_CHK_DIS_MASK (ws ! 4)),
         cm_at = ucast (FIELD_GET CMPL_CTXT_DATA_W4_AT_MASK (ws ! 4)),
         cm_int_aggr = ucast (FIELD_GET CMPL_CTXT_DATA_W4_INT_AGGR_MASK (ws ! 4)),
         cm_dis_intr_on_vf = ucast (FIELD_GET CMPL_CTXT_DATA_W4_DIS_INTR_ON_VF_MASK (ws ! 4)),
         cm_vio = ucast (FIELD_GET CMPL_CTXT_DATA_W4_VIO_MASK (ws ! 4)),
         cm_dir_c2h = ucast (FIELD_GET CMPL_CTXT_DATA_W4_DIR_C2H_MASK (ws ! 4)),
         cm_host_id = ucast (FIELD_GET CMPL_CTXT_DATA_W4_HOST_ID_MASK (ws ! 4)),
         cm_pasid = ucast (ucast (FIELD_SET EQDMA_CMPL_CTXT_PASID_GET_L_MASK pasid_l) OR
           FIELD_SET (ucast EQDMA_CMPL_CTXT_PASID_GET_H_MASK) (ucast pasid_h) :: u64),
         cm_pasid_en = ucast (FIELD_GET CMPL_CTXT_DATA_W5_PASID_EN_MASK (ws ! 5)),
         cm_vio_eop = ucast (FIELD_GET CMPL_CTXT_DATA_W5_VIO_EOP_MASK (ws ! 5)),
         cm_sh_cmpt = ucast (FIELD_GET CMPL_CTXT_DATA_W5_SH_CMPT_MASK (ws ! 5))\<rparr>)"

subsection \<open>Operations\<close>

definition eqdma_cmpt_context_write :: "'s mmio \<Rightarrow> bool \<Rightarrow> u16 \<Rightarrow> qdma_descq_cmpt_ctxt option \<Rightarrow> 's \<Rightarrow> int \<times> 's" where
  "eqdma_cmpt_context_write mm dev_hndl hw_qid ctxt s =
     (let sel = QDMA_CTXT_SEL_CMPT
      in if \<not> dev_hndl then (neg_err QDMA_ERR_INV_PARAM, s)
         else (case ctxt of
             None \<Rightarrow> (neg_err QDMA_ERR_INV_PARAM, s)
           | Some c \<Rightarrow> if QDMA_CMPT_UPDATE_TRIG_MODE_TMR_CNTR < cm_trig_mode c then (neg_err QDMA_ERR_INV_PARAM, s)
             else eqdma_indirect_reg_write mm sel hw_qid (cmpt_ctxt_enc c) s))"

definition eqdma_cmpt_context_read :: "'s mmio \<Rightarrow> bool \<Rightarrow> u16 \<Rightarrow> qdma_descq_cmpt_ctxt option \<Rightarrow> 's \<Rightarrow> int \<times> qdma_descq_cmpt_ctxt option \<times> 's" where
  "eqdma_cmpt_context_read mm dev_hndl hw_qid ctxt s =
     (let sel = QDMA_CTXT_SEL_CMPT
      in if \<not> dev_hndl \<or> ctxt = None then (neg_err QDMA_ERR_INV_PARAM, ctxt, s)
         else (case eqdma_indirect_reg_read mm sel hw_qid EQDMA_CMPT_CONTEXT_NUM_WORDS s of
             (Inl rv, s') \<Rightarrow> (rv, ctxt, s')
           | (Inr ws, s') \<Rightarrow> (err_code QDMA_SUCCESS, Some (cmpt_ctxt_dec ws), s')))"

definition eqdma_cmpt_context_clear :: "'s mmio \<Rightarrow> bool \<Rightarrow> u16 \<Rightarrow> 's \<Rightarrow> int \<times> 's" where
  "eqdma_cmpt_context_clear mm dev_hndl hw_qid s =
     (let sel = QDMA_CTXT_SEL_CMPT
      in if \<not> dev_hndl then (neg_err QDMA_ERR_INV_PARAM, s) else eqdma_indirect_reg_clear mm sel hw_qid s)"

definition eqdma_cmpt_context_invalidate :: "'s mmio \<Rightarrow> bool \<Rightarrow> u16 \<Rightarrow> 's \<Rightarrow> int \<times> 's" where
  "eqdma_cmpt_context_invalidate mm dev_hndl hw_qid s =
     (let sel = QDMA_CTXT_SEL_CMPT
      in if \<not> dev_hndl then (neg_err QDMA_ERR_INV_PARAM, s) else eqdma_indirect_reg_invalidate mm sel hw_qid s)"

definition eqdma_cmpt_ctx_conf :: "'s mmio \<Rightarrow> bool \<Rightarrow> u16 \<Rightarrow> qdma_descq_cmpt_ctxt option \<Rightarrow> qdma_hw_access_type \<Rightarrow> 's \<Rightarrow>
    int \<times> qdma_descq_cmpt_ctxt option \<times> 's" where
  "eqdma_cmpt_ctx_conf mm dev_hndl hw_qid ctxt access_type s =
     (case access_type of
        QDMA_HW_ACCESS_READ \<Rightarrow> eqdma_cmpt_context_read mm dev_hndl hw_qid ctxt s
      | QDMA_HW_ACCESS_WRITE \<Rightarrow> (let (rv, s') = eqdma_cmpt_context_write mm dev_hndl hw_qid ctxt s in (rv, ctxt, s'))
      | QDMA_HW_ACCESS_CLEAR \<Rightarrow> (let (rv, s') = eqdma_cmpt_context_clear mm dev_hndl hw_qid s in (rv, ctxt, s'))
      | QDMA_HW_ACCESS_INVALIDATE \<Rightarrow> (let (rv, s') = eqdma_cmpt_context_invalidate mm dev_hndl hw_qid s in (rv, ctxt, s'))
      | _ \<Rightarrow> (neg_err QDMA_ERR_INV_PARAM, ctxt, s))"

subsection \<open>Packing and unpacking are inverse up to the widths of the fields\<close>

definition cmpt_ctxt_norm :: "qdma_descq_cmpt_ctxt \<Rightarrow> qdma_descq_cmpt_ctxt" where
  "cmpt_ctxt_norm c = \<lparr>cm_bs_addr = push_bit 2 (drop_bit 2 (cm_bs_addr c)),
    cm_vec = take_bit 11 (cm_vec c), cm_pidx = cm_pidx c, cm_cidx = cm_cidx c,
    cm_en_stat_desc = take_bit 1 (cm_en_stat_desc c), cm_en_int = take_bit 1 (cm_en_int c),
    cm_trig_mode = take_bit 3 (cm_trig_mode c), cm_fnc_id = cm_fnc_id c,
    cm_counter_idx = take_bit 4 (cm_counter_idx c), cm_timer_idx = take_bit 4 (cm_timer_idx c),
    cm_in_st = take_bit 2 (cm_in_st c), cm_color = take_bit 1 (cm_color c),
    cm_ringsz_idx = take_bit 4 (cm_ringsz_idx c), cm_desc_sz = take_bit 2 (cm_desc_sz c),
    cm_valid = take_bit 1 (cm_valid c), cm_err = take_bit 2 (cm_err c),
    cm_user_trig_pend = take_bit 1 (cm_user_trig_pend c),
    cm_timer_running = take_bit 1 (cm_timer_running c), cm_full_upd = take_bit 1 (cm_full_upd c),
    cm_ovf_chk_dis = take_bit 1 (cm_ovf_chk_dis c), cm_at = take_bit 1 (cm_at c),
    cm_int_aggr = take_bit 1 (cm_int_aggr c), cm_dis_intr_on_vf = take_bit 1 (cm_dis_intr_on_vf c),
    cm_vio = take_bit 1 (cm_vio c), cm_dir_c2h = take_bit 1 (cm_dir_c2h c),
    cm_host_id = take_bit 4 (cm_host_id c), cm_pasid = take_bit 22 (cm_pasid c),
    cm_pasid_en = take_bit 1 (cm_pasid_en c), cm_vio_eop = take_bit 1 (cm_vio_eop c),
    cm_sh_cmpt = take_bit 1 (cm_sh_cmpt c)\<rparr>"

lemma ucast_GENMASK: "h < 32 \<Longrightarrow> (ucast (GENMASK h l :: u32) :: u64) = GENMASK h l"
  by (rule bit_word_eqI) (auto simp: bit_simps bit_GENMASK)

lemma baddr_pieces:
  "FIELD_SET (GENMASK 37 6) (ucast (ucast (FIELD_GET (GENMASK 37 6) b) :: u32)) OR
   FIELD_SET (GENMASK 63 38) (ucast (take_bit 26 (ucast (FIELD_GET (GENMASK 63 38) b) :: u32))) OR
   FIELD_SET (GENMASK 5 2) (ucast (ucast (ucast (take_bit 4 (ucast (FIELD_GET (GENMASK 5 2) b) :: u32)) :: u8) :: u32)) =
   push_bit 2 (drop_bit 2 (b :: u64))" (is "?l = ?r")
proof (rule bit_word_eqI)
  fix n assume n: "n < LENGTH(64)"
  have *: "2 \<le> n \<Longrightarrow> Suc (Suc (n - 2)) = n" by arith
  consider "n < 2" | "2 \<le> n" "n \<le> 5" | "6 \<le> n" "n \<le> 37" | "38 \<le> n" by linarith
  then show "bit ?l n = bit ?r n"
    using n by cases (auto simp: bit_FIELD_SET bit_FIELD_GET bit_simps *)
qed

lemma cmpt_pidx_pieces:
  "(ucast (FIELD_SET (GENMASK 3 0) (take_bit 4 (FIELD_GET (GENMASK 3 0) (ucast p :: u32))) OR
   FIELD_SET (GENMASK 15 4) (take_bit 12 (FIELD_GET (GENMASK 15 4) (ucast p)))) :: u16) = p"
  by (rule bit_word_eqI) (auto simp: bit_FIELD_SET bit_FIELD_GET bit_simps)

lemma cmpt_pasid_pieces:
  "(ucast (ucast (FIELD_SET (GENMASK 8 0) (take_bit 9 (FIELD_GET (GENMASK 8 0) p))) OR
   FIELD_SET (GENMASK 21 9) (ucast (take_bit 13 (FIELD_GET (GENMASK 21 9) p))) :: u64) :: u32) = take_bit 22 p"
  by (rule bit_word_eqI) (auto simp: bit_FIELD_SET bit_FIELD_GET bit_simps)

lemma cmpt_ctxt_dec_enc: "cmpt_ctxt_dec (cmpt_ctxt_enc c) = cmpt_ctxt_norm c"
  unfolding cmpt_ctxt_enc_def cmpt_ctxt_dec_def cmpt_ctxt_norm_def Let_def
  by (simp add: mask_defs field_rules ucast_GENMASK ucast_take_ucast ucast_mod_2 take_bit_all
      baddr_pieces cmpt_pidx_pieces cmpt_pasid_pieces)

interpretation cmpt: ctxt_codec cmpt_ctxt_enc cmpt_ctxt_dec EQDMA_CMPT_CONTEXT_NUM_WORDS cmpt_ctxt_norm
  by unfold_locales (simp_all add: EQDMA_CMPT_CONTEXT_NUM_WORDS_def cmpt_ctxt_dec_enc, simp add: cmpt_ctxt_enc_def Let_def)

text \<open>Members that fit, a ring address that is a multiple of 4 and a known trigger mode.\<close>

definition cmpt_ctxt_fits :: "qdma_descq_cmpt_ctxt \<Rightarrow> bool" where
  "cmpt_ctxt_fits c \<longleftrightarrow> fits 11 (cm_vec c) \<and>
     fits 1 (cm_en_stat_desc c) \<and> fits 1 (cm_en_int c) \<and> fits 4 (cm_counter_idx c) \<and>
     fits 4 (cm_timer_idx c) \<and> fits 2 (cm_in_st c) \<and> fits 1 (cm_color c) \<and>
     fits 4 (cm_ringsz_idx c) \<and> fits 2 (cm_desc_sz c) \<and> fits 1 (cm_valid c) \<and>
     fits 2 (cm_err c) \<and> fits 1 (cm_user_trig_pend c) \<and>
     fits 1 (cm_timer_running c) \<and> fits 1 (cm_full_upd c) \<and>
     fits 1 (cm_ovf_chk_dis c) \<and> fits 1 (cm_at c) \<and> fits 1 (cm_int_aggr c) \<and>
     fits 1 (cm_dis_intr_on_vf c) \<and> fits 1 (cm_vio c) \<and> fits 1 (cm_dir_c2h c) \<and>
     fits 4 (cm_host_id c) \<and> fits 22 (cm_pasid c) \<and> fits 1 (cm_pasid_en c) \<and>
     fits 1 (cm_vio_eop c) \<and> fits 1 (cm_sh_cmpt c) \<and>
     push_bit 2 (drop_bit 2 (cm_bs_addr c)) = cm_bs_addr c \<and>
     cm_trig_mode c \<le> QDMA_CMPT_UPDATE_TRIG_MODE_TMR_CNTR"

lemma cmpt_ctxt_norm_fits: "cmpt_ctxt_fits c \<Longrightarrow> cmpt_ctxt_norm c = c"
proof -
  assume f: "cmpt_ctxt_fits c"
  then have "fits 3 (cm_trig_mode c)"
    by (simp add: cmpt_ctxt_fits_def QDMA_CMPT_UPDATE_TRIG_MODE_TMR_CNTR_def fits_def word_le_nat_alt)
  with f show ?thesis by (simp add: cmpt_ctxt_fits_def cmpt_ctxt_norm_def take_bit_fits fits_mod_2)
qed

lemma cmpt_ctxt_fits_mode: "cmpt_ctxt_fits c \<Longrightarrow> \<not> QDMA_CMPT_UPDATE_TRIG_MODE_TMR_CNTR < cm_trig_mode c"
  by (simp add: cmpt_ctxt_fits_def not_less)

text \<open>A context of zeros.\<close>

definition cmpt_ctxt_zero :: qdma_descq_cmpt_ctxt where
  "cmpt_ctxt_zero = \<lparr>cm_bs_addr = 0, cm_vec = 0, cm_pidx = 0, cm_cidx = 0,
    cm_en_stat_desc = 0, cm_en_int = 0, cm_trig_mode = 0, cm_fnc_id = 0, cm_counter_idx = 0,
    cm_timer_idx = 0, cm_in_st = 0, cm_color = 0, cm_ringsz_idx = 0, cm_desc_sz = 0, cm_valid = 0,
    cm_err = 0, cm_user_trig_pend = 0, cm_timer_running = 0, cm_full_upd = 0, cm_ovf_chk_dis = 0,
    cm_at = 0, cm_int_aggr = 0, cm_dis_intr_on_vf = 0, cm_vio = 0, cm_dir_c2h = 0, cm_host_id = 0,
    cm_pasid = 0, cm_pasid_en = 0, cm_vio_eop = 0, cm_sh_cmpt = 0\<rparr>"

interpretation cmpt_z: zero_codec cmpt_ctxt_enc cmpt_ctxt_dec EQDMA_CMPT_CONTEXT_NUM_WORDS cmpt_ctxt_norm cmpt_ctxt_zero
  by unfold_locales
    (simp add: cmpt_ctxt_dec_def cmpt_ctxt_zero_def EQDMA_CMPT_CONTEXT_NUM_WORDS_def Let_def FIELD_GET_zero FIELD_SET_zero)

subsection \<open>Properties\<close>

text \<open>
  A completion context whose members fit their fields is read back exactly as it was written: the ring
  address, the producer index and the process id each travel in pieces spread over several words.
\<close>

theorem cmpt_ctxt_write_read:
  assumes "context_device mm view" and "responsive mm" and "cmpt_ctxt_fits c"
  shows "\<exists>s1 s2. eqdma_cmpt_ctx_conf mm True hw_qid (Some c) QDMA_HW_ACCESS_WRITE s = (0, Some c, s1) \<and>
    eqdma_cmpt_ctx_conf mm True hw_qid (Some c0) QDMA_HW_ACCESS_READ s1 =
      (0, Some (c), s2)"
proof -
  let ?sel = "QDMA_CTXT_SEL_CMPT"
  obtain s1 d s2 where "eqdma_indirect_reg_write mm ?sel hw_qid (cmpt_ctxt_enc c) s = (0, s1)"
    "eqdma_indirect_reg_read mm ?sel hw_qid EQDMA_CMPT_CONTEXT_NUM_WORDS s1 = (Inr d, s2)" "cmpt_ctxt_dec d = cmpt_ctxt_norm c"
    using cmpt.write_then_read [OF assms(1,2)] by blast
  then show ?thesis
    using cmpt_ctxt_norm_fits [OF assms(3)] cmpt_ctxt_fits_mode [OF assms(3)]
    by (simp add: eqdma_cmpt_ctx_conf_def eqdma_cmpt_context_write_def eqdma_cmpt_context_read_def Let_def)
qed

theorem cmpt_ctxt_write_read_witness:
  "\<exists>s1 s2. eqdma_cmpt_ctx_conf sim True 5 (Some (cmpt_ctxt_zero\<lparr>cm_bs_addr := 0xFFFFFFFF00000FFC, cm_pidx := 0xBEEF, cm_pasid := 0x3ABCDE, cm_trig_mode := 5, cm_vec := 1024\<rparr>)) QDMA_HW_ACCESS_WRITE sim_start =
      (0, Some (cmpt_ctxt_zero\<lparr>cm_bs_addr := 0xFFFFFFFF00000FFC, cm_pidx := 0xBEEF, cm_pasid := 0x3ABCDE, cm_trig_mode := 5, cm_vec := 1024\<rparr>), s1) \<and>
    eqdma_cmpt_ctx_conf sim True 5 (Some cmpt_ctxt_zero) QDMA_HW_ACCESS_READ s1 = (0, Some (cmpt_ctxt_zero\<lparr>cm_bs_addr := 0xFFFFFFFF00000FFC, cm_pidx := 0xBEEF, cm_pasid := 0x3ABCDE, cm_trig_mode := 5, cm_vec := 1024\<rparr>), s2)"
proof -
  have "cmpt_ctxt_fits (cmpt_ctxt_zero\<lparr>cm_bs_addr := 0xFFFFFFFF00000FFC, cm_pidx := 0xBEEF, cm_pasid := 0x3ABCDE, cm_trig_mode := 5, cm_vec := 1024\<rparr>)"
    by (simp add: cmpt_ctxt_fits_def cmpt_ctxt_zero_def fits_def QDMA_CMPT_UPDATE_TRIG_MODE_TMR_CNTR_def)
  from cmpt_ctxt_write_read [OF sim_context_device sim_responsive this]
  show ?thesis by (simp add: cmpt_ctxt_zero_def)
qed

text \<open>
  A completion context with a trigger mode outside the enumeration is refused before anything is
  written to the device.
\<close>

theorem cmpt_trig_mode_refused:
  assumes "QDMA_CMPT_UPDATE_TRIG_MODE_TMR_CNTR < cm_trig_mode c"
  shows "eqdma_cmpt_ctx_conf mm dev_hndl hw_qid (Some c) QDMA_HW_ACCESS_WRITE s =
    (neg_err QDMA_ERR_INV_PARAM, Some c, s)"
  using assms by (simp add: eqdma_cmpt_ctx_conf_def eqdma_cmpt_context_write_def Let_def)

theorem cmpt_trig_mode_refused_witness:
  "fst (eqdma_cmpt_ctx_conf sim True 5 (Some (cmpt_ctxt_zero\<lparr>cm_trig_mode := 6\<rparr>)) QDMA_HW_ACCESS_WRITE sim_start) =
    neg_err QDMA_ERR_INV_PARAM"
proof -
  have "QDMA_CMPT_UPDATE_TRIG_MODE_TMR_CNTR < cm_trig_mode (cmpt_ctxt_zero\<lparr>cm_trig_mode := 6\<rparr>)"
    by (simp add: QDMA_CMPT_UPDATE_TRIG_MODE_TMR_CNTR_def)
  from cmpt_trig_mode_refused [OF this, of sim True 5 sim_start] show ?thesis by simp
qed

end
