(* ===== verification/Ctxt_Misc.thy ===== *)
theory Ctxt_Misc
  imports Ctxt_Codec
begin

section \<open>The function map, hardware and credit contexts (eqdma\_soft\_access.c)\<close>

text \<open>
  The function map says which queues a function may use; the hardware and credit contexts are the
  device's own and the driver only looks at them and resets them.
\<close>

subsection \<open>The function map\<close>

definition EQDMA_FMAP_CTXT_W1_QID_MAX_MASK :: u32 where [mask_defs]: "EQDMA_FMAP_CTXT_W1_QID_MAX_MASK = GENMASK 11 0"
definition EQDMA_FMAP_CTXT_W0_QID_MASK :: u32 where [mask_defs]: "EQDMA_FMAP_CTXT_W0_QID_MASK = GENMASK 10 0"

definition EQDMA_FMAP_NUM_WORDS :: nat where "EQDMA_FMAP_NUM_WORDS = 2"

record qdma_fmap_cfg =
  fm_qbase :: u16
  fm_qmax :: u16

definition fmap_enc :: "qdma_fmap_cfg \<Rightarrow> u32 list" where
  "fmap_enc c =
     [FIELD_SET EQDMA_FMAP_CTXT_W0_QID_MASK (ucast (fm_qbase c)),
         FIELD_SET EQDMA_FMAP_CTXT_W1_QID_MAX_MASK (ucast (fm_qmax c))]"

definition fmap_dec :: "u32 list \<Rightarrow> qdma_fmap_cfg" where
  "fmap_dec ws =
     \<lparr>fm_qbase = ucast (FIELD_GET EQDMA_FMAP_CTXT_W0_QID_MASK (ws ! 0)),
         fm_qmax = ucast (FIELD_GET EQDMA_FMAP_CTXT_W1_QID_MAX_MASK (ws ! 1))\<rparr>"

definition eqdma_fmap_context_write :: "'s mmio \<Rightarrow> bool \<Rightarrow> u16 \<Rightarrow> qdma_fmap_cfg option \<Rightarrow> 's \<Rightarrow> int \<times> 's" where
  "eqdma_fmap_context_write mm dev_hndl func_id ctxt s =
     (let sel = QDMA_CTXT_SEL_FMAP
      in if \<not> dev_hndl then (neg_err QDMA_ERR_INV_PARAM, s)
         else (case ctxt of
             None \<Rightarrow> (neg_err QDMA_ERR_INV_PARAM, s)
           | Some c \<Rightarrow> eqdma_indirect_reg_write mm sel func_id (fmap_enc c) s))"

definition eqdma_fmap_context_read :: "'s mmio \<Rightarrow> bool \<Rightarrow> u16 \<Rightarrow> qdma_fmap_cfg option \<Rightarrow> 's \<Rightarrow> int \<times> qdma_fmap_cfg option \<times> 's" where
  "eqdma_fmap_context_read mm dev_hndl func_id ctxt s =
     (let sel = QDMA_CTXT_SEL_FMAP
      in if \<not> dev_hndl \<or> ctxt = None then (neg_err QDMA_ERR_INV_PARAM, ctxt, s)
         else (case eqdma_indirect_reg_read mm sel func_id EQDMA_FMAP_NUM_WORDS s of
             (Inl rv, s') \<Rightarrow> (rv, ctxt, s')
           | (Inr ws, s') \<Rightarrow> (err_code QDMA_SUCCESS, Some (fmap_dec ws), s')))"

definition eqdma_fmap_context_clear :: "'s mmio \<Rightarrow> bool \<Rightarrow> u16 \<Rightarrow> 's \<Rightarrow> int \<times> 's" where
  "eqdma_fmap_context_clear mm dev_hndl func_id s =
     (let sel = QDMA_CTXT_SEL_FMAP
      in if \<not> dev_hndl then (neg_err QDMA_ERR_INV_PARAM, s) else eqdma_indirect_reg_clear mm sel func_id s)"

definition eqdma_fmap_conf :: "'s mmio \<Rightarrow> bool \<Rightarrow> u16 \<Rightarrow> qdma_fmap_cfg option \<Rightarrow> qdma_hw_access_type \<Rightarrow> 's \<Rightarrow>
    int \<times> qdma_fmap_cfg option \<times> 's" where
  "eqdma_fmap_conf mm dev_hndl func_id ctxt access_type s =
     (case access_type of
        QDMA_HW_ACCESS_READ \<Rightarrow> eqdma_fmap_context_read mm dev_hndl func_id ctxt s
      | QDMA_HW_ACCESS_WRITE \<Rightarrow> (let (rv, s') = eqdma_fmap_context_write mm dev_hndl func_id ctxt s in (rv, ctxt, s'))
      | QDMA_HW_ACCESS_CLEAR \<Rightarrow> (let (rv, s') = eqdma_fmap_context_clear mm dev_hndl func_id s in (rv, ctxt, s'))
      | _ \<Rightarrow> (neg_err QDMA_ERR_INV_PARAM, ctxt, s))"

definition fmap_norm :: "qdma_fmap_cfg \<Rightarrow> qdma_fmap_cfg" where
  "fmap_norm c = \<lparr>fm_qbase = take_bit 11 (fm_qbase c), fm_qmax = take_bit 12 (fm_qmax c)\<rparr>"

lemma fmap_dec_enc: "fmap_dec (fmap_enc c) = fmap_norm c"
  by (simp add: fmap_enc_def fmap_dec_def fmap_norm_def mask_defs field_rules ucast_take_ucast)

interpretation fmap: ctxt_codec fmap_enc fmap_dec EQDMA_FMAP_NUM_WORDS fmap_norm
  by unfold_locales (simp_all add: EQDMA_FMAP_NUM_WORDS_def fmap_dec_enc, simp add: fmap_enc_def Let_def)

definition fmap_fits :: "qdma_fmap_cfg \<Rightarrow> bool" where
  "fmap_fits c \<longleftrightarrow> fits 11 (fm_qbase c) \<and> fits 12 (fm_qmax c)"

lemma fmap_norm_fits: "fmap_fits c \<Longrightarrow> fmap_norm c = c"
  by (simp add: fmap_fits_def fmap_norm_def take_bit_fits)

subsection \<open>The hardware context\<close>

text \<open>
  The hardware owns this context: the driver can read, clear and invalidate it. The C code takes
  \<open>fetch_pnd\<close> from the field of \<open>dsc_pend\<close>, and so does the model.
\<close>

definition HW_IND_CTXT_DATA_W1_FETCH_PND_MASK :: u32 where [mask_defs]: "HW_IND_CTXT_DATA_W1_FETCH_PND_MASK = GENMASK 14 11"
definition HW_IND_CTXT_DATA_W1_EVT_PND_MASK :: u32 where [mask_defs]: "HW_IND_CTXT_DATA_W1_EVT_PND_MASK = BIT 10"
definition HW_IND_CTXT_DATA_W1_IDL_STP_B_MASK :: u32 where [mask_defs]: "HW_IND_CTXT_DATA_W1_IDL_STP_B_MASK = BIT 9"
definition HW_IND_CTXT_DATA_W1_DSC_PND_MASK :: u32 where [mask_defs]: "HW_IND_CTXT_DATA_W1_DSC_PND_MASK = BIT 8"
definition HW_IND_CTXT_DATA_W0_CRD_USE_MASK :: u32 where [mask_defs]: "HW_IND_CTXT_DATA_W0_CRD_USE_MASK = GENMASK 31 16"
definition HW_IND_CTXT_DATA_W0_CIDX_MASK :: u32 where [mask_defs]: "HW_IND_CTXT_DATA_W0_CIDX_MASK = GENMASK 15 0"

definition EQDMA_HW_CONTEXT_NUM_WORDS :: nat where "EQDMA_HW_CONTEXT_NUM_WORDS = 2"

record qdma_descq_hw_ctxt =
  hw_cidx :: u16
  hw_crd_use :: u16
  hw_dsc_pend :: u8
  hw_idl_stp_b :: u8
  hw_evt_pnd :: u8
  hw_fetch_pnd :: u8

definition hw_ctxt_dec :: "u32 list \<Rightarrow> qdma_descq_hw_ctxt" where
  "hw_ctxt_dec ws =
     \<lparr>hw_cidx = ucast (FIELD_GET HW_IND_CTXT_DATA_W0_CIDX_MASK (ws ! 0)),
         hw_crd_use = ucast (FIELD_GET HW_IND_CTXT_DATA_W0_CRD_USE_MASK (ws ! 0)),
         hw_dsc_pend = ucast (FIELD_GET HW_IND_CTXT_DATA_W1_DSC_PND_MASK (ws ! 1)),
         hw_idl_stp_b = ucast (FIELD_GET HW_IND_CTXT_DATA_W1_IDL_STP_B_MASK (ws ! 1)),
         hw_evt_pnd = ucast (FIELD_GET HW_IND_CTXT_DATA_W1_EVT_PND_MASK (ws ! 1)),
         hw_fetch_pnd = ucast (FIELD_GET HW_IND_CTXT_DATA_W1_DSC_PND_MASK (ws ! 1))\<rparr>"

definition eqdma_hw_context_read :: "'s mmio \<Rightarrow> bool \<Rightarrow> u8 \<Rightarrow> u16 \<Rightarrow> qdma_descq_hw_ctxt option \<Rightarrow> 's \<Rightarrow> int \<times> qdma_descq_hw_ctxt option \<times> 's" where
  "eqdma_hw_context_read mm dev_hndl c2h hw_qid ctxt s =
     (let sel = (if c2h \<noteq> 0 then QDMA_CTXT_SEL_HW_C2H else QDMA_CTXT_SEL_HW_H2C)
      in if \<not> dev_hndl \<or> ctxt = None then (neg_err QDMA_ERR_INV_PARAM, ctxt, s)
         else (case eqdma_indirect_reg_read mm sel hw_qid EQDMA_HW_CONTEXT_NUM_WORDS s of
             (Inl rv, s') \<Rightarrow> (rv, ctxt, s')
           | (Inr ws, s') \<Rightarrow> (err_code QDMA_SUCCESS, Some (hw_ctxt_dec ws), s')))"

definition eqdma_hw_context_clear :: "'s mmio \<Rightarrow> bool \<Rightarrow> u8 \<Rightarrow> u16 \<Rightarrow> 's \<Rightarrow> int \<times> 's" where
  "eqdma_hw_context_clear mm dev_hndl c2h hw_qid s =
     (let sel = (if c2h \<noteq> 0 then QDMA_CTXT_SEL_HW_C2H else QDMA_CTXT_SEL_HW_H2C)
      in if \<not> dev_hndl then (neg_err QDMA_ERR_INV_PARAM, s) else eqdma_indirect_reg_clear mm sel hw_qid s)"

definition eqdma_hw_context_invalidate :: "'s mmio \<Rightarrow> bool \<Rightarrow> u8 \<Rightarrow> u16 \<Rightarrow> 's \<Rightarrow> int \<times> 's" where
  "eqdma_hw_context_invalidate mm dev_hndl c2h hw_qid s =
     (let sel = (if c2h \<noteq> 0 then QDMA_CTXT_SEL_HW_C2H else QDMA_CTXT_SEL_HW_H2C)
      in if \<not> dev_hndl then (neg_err QDMA_ERR_INV_PARAM, s) else eqdma_indirect_reg_invalidate mm sel hw_qid s)"

definition eqdma_hw_ctx_conf :: "'s mmio \<Rightarrow> bool \<Rightarrow> u8 \<Rightarrow> u16 \<Rightarrow> qdma_descq_hw_ctxt option \<Rightarrow> qdma_hw_access_type \<Rightarrow> 's \<Rightarrow>
    int \<times> qdma_descq_hw_ctxt option \<times> 's" where
  "eqdma_hw_ctx_conf mm dev_hndl c2h hw_qid ctxt access_type s =
     (if 1 < c2h then (neg_err QDMA_ERR_INV_PARAM, ctxt, s) else
      case access_type of
        QDMA_HW_ACCESS_READ \<Rightarrow> eqdma_hw_context_read mm dev_hndl c2h hw_qid ctxt s
      | QDMA_HW_ACCESS_CLEAR \<Rightarrow> (let (rv, s') = eqdma_hw_context_clear mm dev_hndl c2h hw_qid s in (rv, ctxt, s'))
      | QDMA_HW_ACCESS_INVALIDATE \<Rightarrow> (let (rv, s') = eqdma_hw_context_invalidate mm dev_hndl c2h hw_qid s in (rv, ctxt, s'))
      | _ \<Rightarrow> (neg_err QDMA_ERR_INV_PARAM, ctxt, s))"

subsection \<open>The credit context\<close>

definition CRED_CTXT_DATA_W0_CREDT_MASK :: u32 where [mask_defs]: "CRED_CTXT_DATA_W0_CREDT_MASK = GENMASK 15 0"

definition EQDMA_CR_CONTEXT_NUM_WORDS :: nat where "EQDMA_CR_CONTEXT_NUM_WORDS = 1"

record qdma_descq_credit_ctxt =
  cr_credit :: u32

definition credit_ctxt_dec :: "u32 list \<Rightarrow> qdma_descq_credit_ctxt" where
  "credit_ctxt_dec ws =
     \<lparr>cr_credit = FIELD_GET CRED_CTXT_DATA_W0_CREDT_MASK (ws ! 0)\<rparr>"

definition eqdma_credit_context_read :: "'s mmio \<Rightarrow> bool \<Rightarrow> u8 \<Rightarrow> u16 \<Rightarrow> qdma_descq_credit_ctxt option \<Rightarrow> 's \<Rightarrow> int \<times> qdma_descq_credit_ctxt option \<times> 's" where
  "eqdma_credit_context_read mm dev_hndl c2h hw_qid ctxt s =
     (let sel = (if c2h \<noteq> 0 then QDMA_CTXT_SEL_CR_C2H else QDMA_CTXT_SEL_CR_H2C)
      in if \<not> dev_hndl \<or> ctxt = None then (neg_err QDMA_ERR_INV_PARAM, ctxt, s)
         else (case eqdma_indirect_reg_read mm sel hw_qid EQDMA_CR_CONTEXT_NUM_WORDS s of
             (Inl rv, s') \<Rightarrow> (rv, ctxt, s')
           | (Inr ws, s') \<Rightarrow> (err_code QDMA_SUCCESS, Some (credit_ctxt_dec ws), s')))"

definition eqdma_credit_context_clear :: "'s mmio \<Rightarrow> bool \<Rightarrow> u8 \<Rightarrow> u16 \<Rightarrow> 's \<Rightarrow> int \<times> 's" where
  "eqdma_credit_context_clear mm dev_hndl c2h hw_qid s =
     (let sel = (if c2h \<noteq> 0 then QDMA_CTXT_SEL_CR_C2H else QDMA_CTXT_SEL_CR_H2C)
      in if \<not> dev_hndl then (neg_err QDMA_ERR_INV_PARAM, s) else eqdma_indirect_reg_clear mm sel hw_qid s)"

definition eqdma_credit_context_invalidate :: "'s mmio \<Rightarrow> bool \<Rightarrow> u8 \<Rightarrow> u16 \<Rightarrow> 's \<Rightarrow> int \<times> 's" where
  "eqdma_credit_context_invalidate mm dev_hndl c2h hw_qid s =
     (let sel = (if c2h \<noteq> 0 then QDMA_CTXT_SEL_CR_C2H else QDMA_CTXT_SEL_CR_H2C)
      in if \<not> dev_hndl then (neg_err QDMA_ERR_INV_PARAM, s) else eqdma_indirect_reg_invalidate mm sel hw_qid s)"

definition eqdma_credit_ctx_conf :: "'s mmio \<Rightarrow> bool \<Rightarrow> u8 \<Rightarrow> u16 \<Rightarrow> qdma_descq_credit_ctxt option \<Rightarrow> qdma_hw_access_type \<Rightarrow> 's \<Rightarrow>
    int \<times> qdma_descq_credit_ctxt option \<times> 's" where
  "eqdma_credit_ctx_conf mm dev_hndl c2h hw_qid ctxt access_type s =
     (if 1 < c2h then (neg_err QDMA_ERR_INV_PARAM, ctxt, s) else
      case access_type of
        QDMA_HW_ACCESS_READ \<Rightarrow> eqdma_credit_context_read mm dev_hndl c2h hw_qid ctxt s
      | QDMA_HW_ACCESS_CLEAR \<Rightarrow> (let (rv, s') = eqdma_credit_context_clear mm dev_hndl c2h hw_qid s in (rv, ctxt, s'))
      | QDMA_HW_ACCESS_INVALIDATE \<Rightarrow> (let (rv, s') = eqdma_credit_context_invalidate mm dev_hndl c2h hw_qid s in (rv, ctxt, s'))
      | _ \<Rightarrow> (neg_err QDMA_ERR_INV_PARAM, ctxt, s))"

text \<open>A context of zeros.\<close>

definition fmap_zero :: qdma_fmap_cfg where
  "fmap_zero = \<lparr>fm_qbase = 0, fm_qmax = 0\<rparr>"

interpretation fmap_z: zero_codec fmap_enc fmap_dec EQDMA_FMAP_NUM_WORDS fmap_norm fmap_zero
  by unfold_locales
    (simp add: fmap_dec_def fmap_zero_def EQDMA_FMAP_NUM_WORDS_def Let_def FIELD_GET_zero FIELD_SET_zero)

subsection \<open>Properties\<close>

text \<open>
  The queue range of a function, base and size within their fields, is read back from the function map
  exactly as it was written.
\<close>

theorem fmap_write_read:
  assumes "context_device mm view" and "responsive mm" and "fmap_fits c"
  shows "\<exists>s1 s2. eqdma_fmap_conf mm True func_id (Some c) QDMA_HW_ACCESS_WRITE s = (0, Some c, s1) \<and>
    eqdma_fmap_conf mm True func_id (Some c0) QDMA_HW_ACCESS_READ s1 =
      (0, Some (c), s2)"
proof -
  let ?sel = "QDMA_CTXT_SEL_FMAP"
  obtain s1 d s2 where "eqdma_indirect_reg_write mm ?sel func_id (fmap_enc c) s = (0, s1)"
    "eqdma_indirect_reg_read mm ?sel func_id EQDMA_FMAP_NUM_WORDS s1 = (Inr d, s2)" "fmap_dec d = fmap_norm c"
    using fmap.write_then_read [OF assms(1,2)] by blast
  then show ?thesis
    using fmap_norm_fits [OF assms(3)]
    by (simp add: eqdma_fmap_conf_def eqdma_fmap_context_write_def eqdma_fmap_context_read_def Let_def)
qed

theorem fmap_write_read_witness:
  "\<exists>s1 s2. eqdma_fmap_conf sim True 5 (Some (fmap_zero\<lparr>fm_qbase := 512, fm_qmax := 2048\<rparr>)) QDMA_HW_ACCESS_WRITE sim_start =
      (0, Some (fmap_zero\<lparr>fm_qbase := 512, fm_qmax := 2048\<rparr>), s1) \<and>
    eqdma_fmap_conf sim True 5 (Some fmap_zero) QDMA_HW_ACCESS_READ s1 = (0, Some (fmap_zero\<lparr>fm_qbase := 512, fm_qmax := 2048\<rparr>), s2)"
proof -
  have "fmap_fits (fmap_zero\<lparr>fm_qbase := 512, fm_qmax := 2048\<rparr>)"
    by (simp add: fmap_fits_def fmap_zero_def fits_def)
  from fmap_write_read [OF sim_context_device sim_responsive this]
  show ?thesis by (simp add: fmap_zero_def)
qed

text \<open>
  After a clear, the context of the queue is read as zeros, whatever it was before.
\<close>

theorem fmap_clear_read:
  assumes "context_device mm view" and "responsive mm"
  shows "\<exists>s2. eqdma_fmap_conf mm True func_id (Some c0) QDMA_HW_ACCESS_READ
      (snd (snd (eqdma_fmap_conf mm True func_id c1 QDMA_HW_ACCESS_CLEAR s))) = (0, Some fmap_zero, s2)"
proof -
  let ?sel = "QDMA_CTXT_SEL_FMAP"
  let ?s1 = "snd (eqdma_indirect_reg_clear mm ?sel func_id s)"
  obtain d s2 where r: "eqdma_indirect_reg_read mm ?sel func_id EQDMA_FMAP_NUM_WORDS ?s1 = (Inr d, s2)"
    using indirect_read_effect(2) [OF assms(1) fmap.words_fit assms(2)] by blast
  have "fmap_dec d = fmap_zero" using fmap_z.read_after_clear [OF assms(1) r] .
  with r show ?thesis
    by (simp add: eqdma_fmap_conf_def eqdma_fmap_context_clear_def eqdma_fmap_context_read_def Let_def case_prod_beta)
qed

theorem fmap_clear_read_witness:
  "\<exists>s2. eqdma_fmap_conf sim True 5 (Some fmap_zero) QDMA_HW_ACCESS_READ
      (snd (snd (eqdma_fmap_conf sim True 5 None QDMA_HW_ACCESS_CLEAR (sim_start\<lparr>ctxts := \<lambda>_ _ _. 3\<rparr>)))) =
    (0, Some fmap_zero, s2)"
  using fmap_clear_read [OF sim_context_device sim_responsive] by blast

text \<open>
  The hardware and the credit contexts are read only: a write, a direction other than 0 or 1 and
  an unknown access are refused with an error, without any access to the device.
\<close>

theorem hw_credit_refused:
  assumes "1 < c2h \<or> access_type \<in> {QDMA_HW_ACCESS_WRITE, QDMA_HW_ACCESS_MAX}"
  shows "eqdma_hw_ctx_conf mm dev_hndl c2h hw_qid hctxt access_type s = (neg_err QDMA_ERR_INV_PARAM, hctxt, s) \<and>
    eqdma_credit_ctx_conf mm dev_hndl c2h hw_qid cctxt access_type s = (neg_err QDMA_ERR_INV_PARAM, cctxt, s)"
  using assms by (auto simp: eqdma_hw_ctx_conf_def eqdma_credit_ctx_conf_def)

theorem hw_credit_refused_witness:
  "fst (eqdma_hw_ctx_conf sim True 0 5 None QDMA_HW_ACCESS_WRITE sim_start) = neg_err QDMA_ERR_INV_PARAM"
  using hw_credit_refused [of 0 QDMA_HW_ACCESS_WRITE sim True 5 None sim_start None] by simp

text \<open>
  the member \<open>fetch_pnd\<close> of a hardware context that was read never tells how many fetches are
  pending: it repeats \<open>dsc_pend\<close>, whatever the device reports in its own four-bit field.
\<close>

theorem hw_ctxt_fetch_pnd_repeats:
  "hw_fetch_pnd (hw_ctxt_dec ws) = hw_dsc_pend (hw_ctxt_dec ws) \<and>
   hw_fetch_pnd (hw_ctxt_dec [0, FIELD_SET HW_IND_CTXT_DATA_W1_FETCH_PND_MASK 5]) = 0"
  by (simp add: hw_ctxt_dec_def mask_defs field_rules)

end
