(* ===== verification/Ctxt_Intr.thy ===== *)
theory Ctxt_Intr
  imports Ctxt_Codec
begin

section \<open>The interrupt aggregation context (eqdma\_soft\_access.c)\<close>

text \<open>
  The context of an interrupt aggregation ring: four words, with a page-aligned ring address in three
  pieces.
\<close>

definition INTR_CTXT_DATA_W3_FUNC_MASK :: u32 where [mask_defs]: "INTR_CTXT_DATA_W3_FUNC_MASK = GENMASK 29 18"
definition INTR_CTXT_DATA_W3_PASID_EN_MASK :: u32 where [mask_defs]: "INTR_CTXT_DATA_W3_PASID_EN_MASK = BIT 13"
definition INTR_CTXT_DATA_W3_PASID_H_MASK :: u32 where [mask_defs]: "INTR_CTXT_DATA_W3_PASID_H_MASK = GENMASK 12 0"
definition INTR_CTXT_DATA_W2_PASID_L_MASK :: u32 where [mask_defs]: "INTR_CTXT_DATA_W2_PASID_L_MASK = GENMASK 31 23"
definition INTR_CTXT_DATA_W2_HOST_ID_MASK :: u32 where [mask_defs]: "INTR_CTXT_DATA_W2_HOST_ID_MASK = GENMASK 22 19"
definition INTR_CTXT_DATA_W2_AT_MASK :: u32 where [mask_defs]: "INTR_CTXT_DATA_W2_AT_MASK = BIT 18"
definition INTR_CTXT_DATA_W2_PIDX_MASK :: u32 where [mask_defs]: "INTR_CTXT_DATA_W2_PIDX_MASK = GENMASK 17 6"
definition INTR_CTXT_DATA_W2_PAGE_SIZE_MASK :: u32 where [mask_defs]: "INTR_CTXT_DATA_W2_PAGE_SIZE_MASK = GENMASK 5 3"
definition INTR_CTXT_DATA_W2_BADDR_4K_H_MASK :: u32 where [mask_defs]: "INTR_CTXT_DATA_W2_BADDR_4K_H_MASK = GENMASK 2 0"
definition INTR_CTXT_DATA_W1_BADDR_4K_M_MASK :: u32 where [mask_defs]: "INTR_CTXT_DATA_W1_BADDR_4K_M_MASK = GENMASK 31 0"
definition INTR_CTXT_DATA_W0_BADDR_4K_L_MASK :: u32 where [mask_defs]: "INTR_CTXT_DATA_W0_BADDR_4K_L_MASK = GENMASK 31 15"
definition INTR_CTXT_DATA_W0_COLOR_MASK :: u32 where [mask_defs]: "INTR_CTXT_DATA_W0_COLOR_MASK = BIT 14"
definition INTR_CTXT_DATA_W0_INT_ST_MASK :: u32 where [mask_defs]: "INTR_CTXT_DATA_W0_INT_ST_MASK = BIT 13"
definition INTR_CTXT_DATA_W0_VEC_MASK :: u32 where [mask_defs]: "INTR_CTXT_DATA_W0_VEC_MASK = GENMASK 11 1"
definition INTR_CTXT_DATA_W0_VALID_MASK :: u32 where [mask_defs]: "INTR_CTXT_DATA_W0_VALID_MASK = BIT 0"
definition EQDMA_INTR_CTXT_PASID_GET_H_MASK :: u32 where [mask_defs]: "EQDMA_INTR_CTXT_PASID_GET_H_MASK = GENMASK 21 9"
definition EQDMA_INTR_CTXT_PASID_GET_L_MASK :: u32 where [mask_defs]: "EQDMA_INTR_CTXT_PASID_GET_L_MASK = GENMASK 8 0"
definition QDMA_INTR_CTXT_BADDR_GET_H_MASK :: u64 where [mask_defs]: "QDMA_INTR_CTXT_BADDR_GET_H_MASK = GENMASK 63 61"
definition QDMA_INTR_CTXT_BADDR_GET_M_MASK :: u64 where [mask_defs]: "QDMA_INTR_CTXT_BADDR_GET_M_MASK = GENMASK 60 29"
definition QDMA_INTR_CTXT_BADDR_GET_L_MASK :: u64 where [mask_defs]: "QDMA_INTR_CTXT_BADDR_GET_L_MASK = GENMASK 28 12"

definition EQDMA_IND_INTR_CONTEXT_NUM_WORDS :: nat where "EQDMA_IND_INTR_CONTEXT_NUM_WORDS = 4"

record qdma_indirect_intr_ctxt =
  in_baddr_4k :: u64
  in_vec :: u16
  in_pidx :: u16
  in_valid :: u8
  in_int_st :: u8
  in_color :: u8
  in_page_size :: u8
  in_at :: u8
  in_host_id :: u8
  in_pasid :: u32
  in_pasid_en :: u8
  in_func_id :: u16

subsection \<open>Packing and unpacking\<close>

definition intr_ctxt_enc :: "qdma_indirect_intr_ctxt \<Rightarrow> u32 list" where
  "intr_ctxt_enc c =
     (let baddr_l = ucast (FIELD_GET QDMA_INTR_CTXT_BADDR_GET_L_MASK (in_baddr_4k c));
         baddr_m = ucast (FIELD_GET QDMA_INTR_CTXT_BADDR_GET_M_MASK (in_baddr_4k c));
         baddr_h = ucast (FIELD_GET QDMA_INTR_CTXT_BADDR_GET_H_MASK (in_baddr_4k c));
         pasid_l = FIELD_GET EQDMA_INTR_CTXT_PASID_GET_L_MASK (in_pasid c);
         pasid_h = FIELD_GET EQDMA_INTR_CTXT_PASID_GET_H_MASK (in_pasid c)
      in [FIELD_SET INTR_CTXT_DATA_W0_VALID_MASK (ucast (in_valid c)) OR
          FIELD_SET INTR_CTXT_DATA_W0_VEC_MASK (ucast (in_vec c)) OR
          FIELD_SET INTR_CTXT_DATA_W0_INT_ST_MASK (ucast (in_int_st c)) OR
          FIELD_SET INTR_CTXT_DATA_W0_COLOR_MASK (ucast (in_color c)) OR
          FIELD_SET INTR_CTXT_DATA_W0_BADDR_4K_L_MASK baddr_l,
         FIELD_SET INTR_CTXT_DATA_W1_BADDR_4K_M_MASK baddr_m,
         FIELD_SET INTR_CTXT_DATA_W2_BADDR_4K_H_MASK baddr_h OR
          FIELD_SET INTR_CTXT_DATA_W2_PAGE_SIZE_MASK (ucast (in_page_size c)) OR
          FIELD_SET INTR_CTXT_DATA_W2_PIDX_MASK (ucast (in_pidx c)) OR
          FIELD_SET INTR_CTXT_DATA_W2_AT_MASK (ucast (in_at c)) OR
          FIELD_SET INTR_CTXT_DATA_W2_HOST_ID_MASK (ucast (in_host_id c)) OR
          FIELD_SET INTR_CTXT_DATA_W2_PASID_L_MASK pasid_l,
         FIELD_SET INTR_CTXT_DATA_W3_PASID_H_MASK pasid_h OR
          FIELD_SET INTR_CTXT_DATA_W3_PASID_EN_MASK (ucast (in_pasid_en c)) OR
          FIELD_SET INTR_CTXT_DATA_W3_FUNC_MASK (ucast (in_func_id c))])"

text \<open>
  Unpacking casts the low part of the process id, which has nine bits, to eight, as the C code does.
\<close>

definition intr_ctxt_dec :: "u32 list \<Rightarrow> qdma_indirect_intr_ctxt" where
  "intr_ctxt_dec ws =
     (let baddr_l = ucast (FIELD_GET INTR_CTXT_DATA_W0_BADDR_4K_L_MASK (ws ! 0));
         baddr_m = ucast (FIELD_GET INTR_CTXT_DATA_W1_BADDR_4K_M_MASK (ws ! 1));
         baddr_h = ucast (FIELD_GET INTR_CTXT_DATA_W2_BADDR_4K_H_MASK (ws ! 2));
         pasid_l = ucast (ucast (FIELD_GET INTR_CTXT_DATA_W2_PASID_L_MASK (ws ! 2)) :: u8);
         pasid_h = ucast (FIELD_GET INTR_CTXT_DATA_W3_PASID_H_MASK (ws ! 3))
      in \<lparr>in_baddr_4k = FIELD_SET QDMA_INTR_CTXT_BADDR_GET_L_MASK baddr_l OR
           FIELD_SET QDMA_INTR_CTXT_BADDR_GET_M_MASK baddr_m OR
           FIELD_SET QDMA_INTR_CTXT_BADDR_GET_H_MASK baddr_h,
         in_vec = ucast (FIELD_GET INTR_CTXT_DATA_W0_VEC_MASK (ws ! 0)),
         in_pidx = ucast (FIELD_GET INTR_CTXT_DATA_W2_PIDX_MASK (ws ! 2)),
         in_valid = ucast (FIELD_GET INTR_CTXT_DATA_W0_VALID_MASK (ws ! 0)),
         in_int_st = ucast (FIELD_GET INTR_CTXT_DATA_W0_INT_ST_MASK (ws ! 0)),
         in_color = ucast (FIELD_GET INTR_CTXT_DATA_W0_COLOR_MASK (ws ! 0)),
         in_page_size = ucast (FIELD_GET INTR_CTXT_DATA_W2_PAGE_SIZE_MASK (ws ! 2)),
         in_at = ucast (FIELD_GET INTR_CTXT_DATA_W2_AT_MASK (ws ! 2)),
         in_host_id = ucast (FIELD_GET INTR_CTXT_DATA_W2_HOST_ID_MASK (ws ! 2)),
         in_pasid = ucast (FIELD_SET (ucast EQDMA_INTR_CTXT_PASID_GET_L_MASK) pasid_l OR
           FIELD_SET (ucast EQDMA_INTR_CTXT_PASID_GET_H_MASK) (pasid_h :: u64)),
         in_pasid_en = ucast (FIELD_GET INTR_CTXT_DATA_W3_PASID_EN_MASK (ws ! 3)),
         in_func_id = ucast (FIELD_GET INTR_CTXT_DATA_W3_FUNC_MASK (ws ! 3))\<rparr>)"

subsection \<open>Operations\<close>

definition eqdma_indirect_intr_context_write :: "'s mmio \<Rightarrow> bool \<Rightarrow> u16 \<Rightarrow> qdma_indirect_intr_ctxt option \<Rightarrow> 's \<Rightarrow> int \<times> 's" where
  "eqdma_indirect_intr_context_write mm dev_hndl ring_index ctxt s =
     (let sel = QDMA_CTXT_SEL_INT_COAL
      in if \<not> dev_hndl then (neg_err QDMA_ERR_INV_PARAM, s)
         else (case ctxt of
             None \<Rightarrow> (neg_err QDMA_ERR_INV_PARAM, s)
           | Some c \<Rightarrow> eqdma_indirect_reg_write mm sel ring_index (intr_ctxt_enc c) s))"

definition eqdma_indirect_intr_context_read :: "'s mmio \<Rightarrow> bool \<Rightarrow> u16 \<Rightarrow> qdma_indirect_intr_ctxt option \<Rightarrow> 's \<Rightarrow> int \<times> qdma_indirect_intr_ctxt option \<times> 's" where
  "eqdma_indirect_intr_context_read mm dev_hndl ring_index ctxt s =
     (let sel = QDMA_CTXT_SEL_INT_COAL
      in if \<not> dev_hndl \<or> ctxt = None then (neg_err QDMA_ERR_INV_PARAM, ctxt, s)
         else (case eqdma_indirect_reg_read mm sel ring_index EQDMA_IND_INTR_CONTEXT_NUM_WORDS s of
             (Inl rv, s') \<Rightarrow> (rv, ctxt, s')
           | (Inr ws, s') \<Rightarrow> (err_code QDMA_SUCCESS, Some (intr_ctxt_dec ws), s')))"

definition eqdma_indirect_intr_context_clear :: "'s mmio \<Rightarrow> bool \<Rightarrow> u16 \<Rightarrow> 's \<Rightarrow> int \<times> 's" where
  "eqdma_indirect_intr_context_clear mm dev_hndl ring_index s =
     (let sel = QDMA_CTXT_SEL_INT_COAL
      in if \<not> dev_hndl then (neg_err QDMA_ERR_INV_PARAM, s) else eqdma_indirect_reg_clear mm sel ring_index s)"

definition eqdma_indirect_intr_context_invalidate :: "'s mmio \<Rightarrow> bool \<Rightarrow> u16 \<Rightarrow> 's \<Rightarrow> int \<times> 's" where
  "eqdma_indirect_intr_context_invalidate mm dev_hndl ring_index s =
     (let sel = QDMA_CTXT_SEL_INT_COAL
      in if \<not> dev_hndl then (neg_err QDMA_ERR_INV_PARAM, s) else eqdma_indirect_reg_invalidate mm sel ring_index s)"

definition eqdma_indirect_intr_ctx_conf :: "'s mmio \<Rightarrow> bool \<Rightarrow> u16 \<Rightarrow> qdma_indirect_intr_ctxt option \<Rightarrow> qdma_hw_access_type \<Rightarrow> 's \<Rightarrow>
    int \<times> qdma_indirect_intr_ctxt option \<times> 's" where
  "eqdma_indirect_intr_ctx_conf mm dev_hndl ring_index ctxt access_type s =
     (case access_type of
        QDMA_HW_ACCESS_READ \<Rightarrow> eqdma_indirect_intr_context_read mm dev_hndl ring_index ctxt s
      | QDMA_HW_ACCESS_WRITE \<Rightarrow> (let (rv, s') = eqdma_indirect_intr_context_write mm dev_hndl ring_index ctxt s in (rv, ctxt, s'))
      | QDMA_HW_ACCESS_CLEAR \<Rightarrow> (let (rv, s') = eqdma_indirect_intr_context_clear mm dev_hndl ring_index s in (rv, ctxt, s'))
      | QDMA_HW_ACCESS_INVALIDATE \<Rightarrow> (let (rv, s') = eqdma_indirect_intr_context_invalidate mm dev_hndl ring_index s in (rv, ctxt, s'))
      | _ \<Rightarrow> (neg_err QDMA_ERR_INV_PARAM, ctxt, s))"

subsection \<open>Packing and unpacking are inverse up to the widths of the fields\<close>

definition intr_ctxt_norm :: "qdma_indirect_intr_ctxt \<Rightarrow> qdma_indirect_intr_ctxt" where
  "intr_ctxt_norm c = \<lparr>in_baddr_4k = push_bit 12 (drop_bit 12 (in_baddr_4k c)),
    in_vec = take_bit 11 (in_vec c), in_pidx = take_bit 12 (in_pidx c),
    in_valid = take_bit 1 (in_valid c), in_int_st = take_bit 1 (in_int_st c),
    in_color = take_bit 1 (in_color c), in_page_size = take_bit 3 (in_page_size c),
    in_at = take_bit 1 (in_at c), in_host_id = take_bit 4 (in_host_id c),
    in_pasid = take_bit 8 (in_pasid c) OR push_bit 9 (take_bit 13 (drop_bit 9 (in_pasid c))),
    in_pasid_en = take_bit 1 (in_pasid_en c), in_func_id = take_bit 12 (in_func_id c)\<rparr>"

lemma baddr_4k_pieces:
  "FIELD_SET (GENMASK 28 12) (ucast (take_bit 17 (ucast (FIELD_GET (GENMASK 28 12) b) :: u32))) OR
   FIELD_SET (GENMASK 60 29) (ucast (ucast (FIELD_GET (GENMASK 60 29) b) :: u32)) OR
   FIELD_SET (GENMASK 63 61) (ucast (take_bit 3 (ucast (FIELD_GET (GENMASK 63 61) b) :: u32))) =
   push_bit 12 (drop_bit 12 (b :: u64))" (is "?l = ?r")
proof (rule bit_word_eqI)
  fix n assume n: "n < LENGTH(64)"
  consider "n < 12" | "12 \<le> n" "n \<le> 28" | "29 \<le> n" "n \<le> 60" | "61 \<le> n" by linarith
  then show "bit ?l n = bit ?r n"
    using n by cases (auto simp: bit_FIELD_SET bit_FIELD_GET bit_simps)
qed

lemma ucast_GENMASK_64: "h < 32 \<Longrightarrow> (ucast (GENMASK h l :: u32) :: u64) = GENMASK h l"
  by (rule bit_word_eqI) (auto simp: bit_simps bit_GENMASK)

lemma intr_pasid_pieces:
  "(ucast (FIELD_SET (GENMASK 8 0) (ucast (ucast (take_bit 9 (FIELD_GET (GENMASK 8 0) p)) :: u8)) OR
   FIELD_SET (GENMASK 21 9) (ucast (take_bit 13 (FIELD_GET (GENMASK 21 9) p))) :: u64) :: u32) =
   take_bit 8 p OR push_bit 9 (take_bit 13 (drop_bit 9 p))"
  by (rule bit_word_eqI) (auto simp: bit_FIELD_SET bit_FIELD_GET bit_simps)

lemma intr_ctxt_dec_enc: "intr_ctxt_dec (intr_ctxt_enc c) = intr_ctxt_norm c"
  unfolding intr_ctxt_enc_def intr_ctxt_dec_def intr_ctxt_norm_def Let_def
  by (simp add: mask_defs field_rules ucast_GENMASK_64 ucast_take_ucast ucast_mod_2 take_bit_all
      baddr_4k_pieces intr_pasid_pieces)

interpretation intr: ctxt_codec intr_ctxt_enc intr_ctxt_dec EQDMA_IND_INTR_CONTEXT_NUM_WORDS intr_ctxt_norm
  by unfold_locales (simp_all add: EQDMA_IND_INTR_CONTEXT_NUM_WORDS_def intr_ctxt_dec_enc, simp add: intr_ctxt_enc_def Let_def)

text \<open>Members that fit and a ring on a page boundary.\<close>

definition intr_ctxt_fits :: "qdma_indirect_intr_ctxt \<Rightarrow> bool" where
  "intr_ctxt_fits c \<longleftrightarrow> fits 11 (in_vec c) \<and> fits 12 (in_pidx c) \<and>
     fits 1 (in_valid c) \<and> fits 1 (in_int_st c) \<and> fits 1 (in_color c) \<and>
     fits 3 (in_page_size c) \<and> fits 1 (in_at c) \<and> fits 4 (in_host_id c) \<and>
     fits 1 (in_pasid_en c) \<and> fits 12 (in_func_id c) \<and>
     push_bit 12 (drop_bit 12 (in_baddr_4k c)) = in_baddr_4k c \<and> fits 22 (in_pasid c)"

lemma intr_ctxt_norm_fits:
  "intr_ctxt_fits c \<Longrightarrow> intr_ctxt_norm c = c\<lparr>in_pasid :=
     take_bit 8 (in_pasid c) OR push_bit 9 (take_bit 13 (drop_bit 9 (in_pasid c)))\<rparr>"
  by (simp add: intr_ctxt_fits_def intr_ctxt_norm_def take_bit_fits fits_mod_2)

text \<open>A context of zeros.\<close>

definition intr_ctxt_zero :: qdma_indirect_intr_ctxt where
  "intr_ctxt_zero = \<lparr>in_baddr_4k = 0, in_vec = 0, in_pidx = 0, in_valid = 0, in_int_st = 0,
    in_color = 0, in_page_size = 0, in_at = 0, in_host_id = 0, in_pasid = 0, in_pasid_en = 0,
    in_func_id = 0\<rparr>"

interpretation intr_z: zero_codec intr_ctxt_enc intr_ctxt_dec EQDMA_IND_INTR_CONTEXT_NUM_WORDS intr_ctxt_norm intr_ctxt_zero
  by unfold_locales
    (simp add: intr_ctxt_dec_def intr_ctxt_zero_def EQDMA_IND_INTR_CONTEXT_NUM_WORDS_def Let_def FIELD_GET_zero FIELD_SET_zero)

subsection \<open>Properties\<close>

text \<open>
  An interrupt aggregation context whose members fit their fields is read back as it was written,
  except that bit 8 of the process id is lost: the read cuts a nine-bit field to eight bits.
\<close>

theorem intr_ctxt_write_read:
  assumes "context_device mm view" and "responsive mm" and "intr_ctxt_fits c"
  shows "\<exists>s1 s2. eqdma_indirect_intr_ctx_conf mm True ring_index (Some c) QDMA_HW_ACCESS_WRITE s = (0, Some c, s1) \<and>
    eqdma_indirect_intr_ctx_conf mm True ring_index (Some c0) QDMA_HW_ACCESS_READ s1 =
      (0, Some (c\<lparr>in_pasid := take_bit 8 (in_pasid c) OR push_bit 9 (take_bit 13 (drop_bit 9 (in_pasid c)))\<rparr>), s2)"
proof -
  let ?sel = "QDMA_CTXT_SEL_INT_COAL"
  obtain s1 d s2 where "eqdma_indirect_reg_write mm ?sel ring_index (intr_ctxt_enc c) s = (0, s1)"
    "eqdma_indirect_reg_read mm ?sel ring_index EQDMA_IND_INTR_CONTEXT_NUM_WORDS s1 = (Inr d, s2)" "intr_ctxt_dec d = intr_ctxt_norm c"
    using intr.write_then_read [OF assms(1,2)] by blast
  then show ?thesis
    using intr_ctxt_norm_fits [OF assms(3)]
    by (simp add: eqdma_indirect_intr_ctx_conf_def eqdma_indirect_intr_context_write_def eqdma_indirect_intr_context_read_def Let_def)
qed

theorem intr_ctxt_write_read_witness:
  "\<exists>s1 s2. eqdma_indirect_intr_ctx_conf sim True 5 (Some (intr_ctxt_zero\<lparr>in_baddr_4k := 0xFFFFFFFF80001000, in_pidx := 4095, in_vec := 2000, in_func_id := 4000\<rparr>)) QDMA_HW_ACCESS_WRITE sim_start =
      (0, Some (intr_ctxt_zero\<lparr>in_baddr_4k := 0xFFFFFFFF80001000, in_pidx := 4095, in_vec := 2000, in_func_id := 4000\<rparr>), s1) \<and>
    eqdma_indirect_intr_ctx_conf sim True 5 (Some intr_ctxt_zero) QDMA_HW_ACCESS_READ s1 = (0, Some (intr_ctxt_zero\<lparr>in_baddr_4k := 0xFFFFFFFF80001000, in_pidx := 4095, in_vec := 2000, in_func_id := 4000\<rparr>), s2)"
proof -
  have "intr_ctxt_fits (intr_ctxt_zero\<lparr>in_baddr_4k := 0xFFFFFFFF80001000, in_pidx := 4095, in_vec := 2000, in_func_id := 4000\<rparr>)"
    by (simp add: intr_ctxt_fits_def intr_ctxt_zero_def fits_def)
  from intr_ctxt_write_read [OF sim_context_device sim_responsive this]
  show ?thesis by (simp add: intr_ctxt_zero_def)
qed

end
