(* ===== verification/Eqdma_Csr.thy ===== *)
theory Eqdma_Csr
  imports Ctxt_Codec
begin

section \<open>Global configuration of the EQDMA (eqdma\_soft\_access.c)\<close>

text \<open>
  The device attributes, the four tables of global values (ring sizes, timer counts, counter
  thresholds, buffer sizes), the writeback interval, the default configuration, the initialisation of
  the context memory, the memory-mapped channel and the user BAR. As in the context theories a pointer
  is an option and \<open>dev_hndl\<close> tells whether the handle is not NULL.
\<close>

named_theorems addr_defs

definition QDMA_OFFSET_GLBL2_PF_BARLITE_INT :: u32 where [addr_defs]: "QDMA_OFFSET_GLBL2_PF_BARLITE_INT = 0x104"
definition EQDMA_OFFSET_GLBL2_PF_BARLITE_EXT :: u32 where [addr_defs]: "EQDMA_OFFSET_GLBL2_PF_BARLITE_EXT = 0x10c"
definition EQDMA_OFFSET_VF_USER_BAR :: u32 where [addr_defs]: "EQDMA_OFFSET_VF_USER_BAR = 0x5018"
definition EQDMA_GLBL2_CHANNEL_CAP_ADDR :: u32 where [addr_defs]: "EQDMA_GLBL2_CHANNEL_CAP_ADDR = 0x120"
definition EQDMA_GLBL2_MISC_CAP_ADDR :: u32 where [addr_defs]: "EQDMA_GLBL2_MISC_CAP_ADDR = 0x134"
definition EQDMA_GLBL2_CHANNEL_MDMA_ADDR :: u32 where [addr_defs]: "EQDMA_GLBL2_CHANNEL_MDMA_ADDR = 0x118"
definition EQDMA_GLBL_RNG_SZ_1_ADDR :: u32 where [addr_defs]: "EQDMA_GLBL_RNG_SZ_1_ADDR = 0x204"
definition EQDMA_C2H_TIMER_CNT_ADDR :: u32 where [addr_defs]: "EQDMA_C2H_TIMER_CNT_ADDR = 0xa00"
definition EQDMA_C2H_CNT_TH_ADDR :: u32 where [addr_defs]: "EQDMA_C2H_CNT_TH_ADDR = 0xa40"
definition EQDMA_C2H_BUF_SZ_ADDR :: u32 where [addr_defs]: "EQDMA_C2H_BUF_SZ_ADDR = 0xab0"
definition EQDMA_GLBL_DSC_CFG_ADDR :: u32 where [addr_defs]: "EQDMA_GLBL_DSC_CFG_ADDR = 0x250"
definition EQDMA_C2H_MM_CTL_ADDR :: u32 where [addr_defs]: "EQDMA_C2H_MM_CTL_ADDR = 0x1004"
definition EQDMA_H2C_MM_CTL_ADDR :: u32 where [addr_defs]: "EQDMA_H2C_MM_CTL_ADDR = 0x1204"
definition EQDMA_C2H_PFCH_CACHE_DEPTH_ADDR :: u32 where [addr_defs]: "EQDMA_C2H_PFCH_CACHE_DEPTH_ADDR = 0xbe0"
definition EQDMA_C2H_PFCH_CFG_1_ADDR :: u32 where [addr_defs]: "EQDMA_C2H_PFCH_CFG_1_ADDR = 0xa80"
definition EQDMA_C2H_PFCH_CFG_2_ADDR :: u32 where [addr_defs]: "EQDMA_C2H_PFCH_CFG_2_ADDR = 0xa84"
definition EQDMA_C2H_INT_TIMER_TICK_ADDR :: u32 where [addr_defs]: "EQDMA_C2H_INT_TIMER_TICK_ADDR = 0xb0c"
definition EQDMA_C2H_WRB_COAL_BUF_DEPTH_ADDR :: u32 where [addr_defs]: "EQDMA_C2H_WRB_COAL_BUF_DEPTH_ADDR = 0xbe4"
definition EQDMA_C2H_WRB_COAL_CFG_ADDR :: u32 where [addr_defs]: "EQDMA_C2H_WRB_COAL_CFG_ADDR = 0xb50"
definition EQDMA_H2C_REQ_THROT_PCIE_ADDR :: u32 where [addr_defs]: "EQDMA_H2C_REQ_THROT_PCIE_ADDR = 0xe24"

definition GLBL2_CHANNEL_CAP_MULTIQ_MAX_MASK :: u32 where [mask_defs]: "GLBL2_CHANNEL_CAP_MULTIQ_MAX_MASK = GENMASK 11 0"
definition GLBL2_CHANNEL_MDMA_C2H_ST_MASK :: u32 where [mask_defs]: "GLBL2_CHANNEL_MDMA_C2H_ST_MASK = BIT 17"
definition GLBL2_CHANNEL_MDMA_H2C_ST_MASK :: u32 where [mask_defs]: "GLBL2_CHANNEL_MDMA_H2C_ST_MASK = BIT 16"
definition GLBL2_CHANNEL_MDMA_C2H_ENG_MASK :: u32 where [mask_defs]: "GLBL2_CHANNEL_MDMA_C2H_ENG_MASK = GENMASK 11 8"
definition GLBL2_CHANNEL_MDMA_H2C_ENG_MASK :: u32 where [mask_defs]: "GLBL2_CHANNEL_MDMA_H2C_ENG_MASK = GENMASK 3 0"
definition GLBL_DSC_CFG_MAXFETCH_MASK :: u32 where [mask_defs]: "GLBL_DSC_CFG_MAXFETCH_MASK = GENMASK 5 3"
definition GLBL_DSC_CFG_WB_ACC_INT_MASK :: u32 where [mask_defs]: "GLBL_DSC_CFG_WB_ACC_INT_MASK = GENMASK 2 0"
definition C2H_PFCH_CFG_1_EVT_QCNT_TH_MASK :: u32 where [mask_defs]: "C2H_PFCH_CFG_1_EVT_QCNT_TH_MASK = GENMASK 31 16"
definition C2H_PFCH_CFG_1_QCNT_MASK :: u32 where [mask_defs]: "C2H_PFCH_CFG_1_QCNT_MASK = GENMASK 15 0"
definition C2H_PFCH_CFG_2_FENCE_MASK :: u32 where [mask_defs]: "C2H_PFCH_CFG_2_FENCE_MASK = BIT 31"
definition C2H_WRB_COAL_CFG_MAX_BUF_SZ_MASK :: u32 where [mask_defs]: "C2H_WRB_COAL_CFG_MAX_BUF_SZ_MASK = GENMASK 31 26"
definition C2H_WRB_COAL_CFG_TICK_VAL_MASK :: u32 where [mask_defs]: "C2H_WRB_COAL_CFG_TICK_VAL_MASK = GENMASK 25 14"
definition C2H_WRB_COAL_CFG_TICK_CNT_MASK :: u32 where [mask_defs]: "C2H_WRB_COAL_CFG_TICK_CNT_MASK = GENMASK 13 2"
definition C2H_PFCH_CACHE_DEPTH_MASK :: u32 where [mask_defs]: "C2H_PFCH_CACHE_DEPTH_MASK = GENMASK 7 0"
definition H2C_REQ_THROT_PCIE_EN_REQ_MASK :: u32 where [mask_defs]: "H2C_REQ_THROT_PCIE_EN_REQ_MASK = BIT 31"
definition H2C_REQ_THROT_PCIE_MASK :: u32 where [mask_defs]: "H2C_REQ_THROT_PCIE_MASK = GENMASK 30 19"
definition H2C_REQ_THROT_PCIE_EN_DATA_MASK :: u32 where [mask_defs]: "H2C_REQ_THROT_PCIE_EN_DATA_MASK = BIT 18"
definition H2C_REQ_THROT_PCIE_DATA_THRESH_MASK :: u32 where [mask_defs]: "H2C_REQ_THROT_PCIE_DATA_THRESH_MASK = GENMASK 17 0"
definition QDMA_GLBL2_PF3_BAR_MAP_MASK :: u32 where [mask_defs]: "QDMA_GLBL2_PF3_BAR_MAP_MASK = GENMASK 23 18"
definition QDMA_GLBL2_PF2_BAR_MAP_MASK :: u32 where [mask_defs]: "QDMA_GLBL2_PF2_BAR_MAP_MASK = GENMASK 17 12"
definition QDMA_GLBL2_PF1_BAR_MAP_MASK :: u32 where [mask_defs]: "QDMA_GLBL2_PF1_BAR_MAP_MASK = GENMASK 11 6"
definition QDMA_GLBL2_PF0_BAR_MAP_MASK :: u32 where [mask_defs]: "QDMA_GLBL2_PF0_BAR_MAP_MASK = GENMASK 5 0"
definition EQDMA_GLBL2_DBG_MODE_EN_MASK :: u32 where [mask_defs]: "EQDMA_GLBL2_DBG_MODE_EN_MASK = BIT 4"
definition EQDMA_GLBL2_DESC_ENG_MODE_MASK :: u32 where [mask_defs]: "EQDMA_GLBL2_DESC_ENG_MODE_MASK = GENMASK 3 2"
definition EQDMA_GLBL2_FLR_PRESENT_MASK :: u32 where [mask_defs]: "EQDMA_GLBL2_FLR_PRESENT_MASK = BIT 1"
definition EQDMA_GLBL2_MAILBOX_EN_MASK :: u32 where [mask_defs]: "EQDMA_GLBL2_MAILBOX_EN_MASK = BIT 0"

definition QDMA_NUM_RING_SIZES :: nat where "QDMA_NUM_RING_SIZES = 16"
definition QDMA_NUM_C2H_TIMERS :: nat where "QDMA_NUM_C2H_TIMERS = 16"
definition QDMA_NUM_C2H_BUFFER_SIZES :: nat where "QDMA_NUM_C2H_BUFFER_SIZES = 16"
definition QDMA_NUM_C2H_COUNTERS :: nat where "QDMA_NUM_C2H_COUNTERS = 16"
definition QDMA_MM_CONTROL_STEP :: u32 where "QDMA_MM_CONTROL_STEP = 0x100"
definition QDMA_NUM_WRB_INTERVALS :: u32 where "QDMA_NUM_WRB_INTERVALS = 8"
definition QDMA_BAR_NUM :: nat where "QDMA_BAR_NUM = 6"

datatype qdma_global_csr_type = QDMA_CSR_RING_SZ | QDMA_CSR_TIMER_CNT | QDMA_CSR_CNT_TH | QDMA_CSR_BUF_SZ | QDMA_CSR_MAX

subsection \<open>Device attributes\<close>

text \<open>One- and two-bit members are kept in bytes; the values stored fit.\<close>

record qdma_dev_attributes =
  da_num_pfs :: u8
  da_num_qs :: u16
  da_flr_present :: u8
  da_st_en :: u8
  da_mm_en :: u8
  da_mm_cmpt_en :: u8
  da_mailbox_en :: u8
  da_debug_mode :: u8
  da_desc_eng_mode :: u8
  da_mm_channel_max :: u8
  da_qid2vec_ctx :: u8
  da_cmpt_ovf_chk_dis :: u8
  da_mailbox_intr :: u8
  da_sw_desc_64b :: u8
  da_cmpt_desc_64b :: u8
  da_dynamic_bar :: u8
  da_legacy_intr :: u8
  da_cmpt_trig_count_timer :: u8

definition bar_maps :: "u32 \<Rightarrow> nat" where
  "bar_maps v = length (filter (\<lambda>m. FIELD_GET m v \<noteq> 0)
     [QDMA_GLBL2_PF0_BAR_MAP_MASK, QDMA_GLBL2_PF1_BAR_MAP_MASK, QDMA_GLBL2_PF2_BAR_MAP_MASK, QDMA_GLBL2_PF3_BAR_MAP_MASK])"

definition device_attributes :: "'s mmio \<Rightarrow> 's \<Rightarrow> qdma_dev_attributes \<times> 's" where
  "device_attributes mm s =
     (let (v1, s1) = qdma_reg_read mm QDMA_OFFSET_GLBL2_PF_BARLITE_INT s;
          (v2, s2) = qdma_reg_read mm EQDMA_GLBL2_CHANNEL_CAP_ADDR s1;
          (v3, s3) = qdma_reg_read mm EQDMA_GLBL2_MISC_CAP_ADDR s2;
          (v4, s4) = qdma_reg_read mm EQDMA_GLBL2_CHANNEL_MDMA_ADDR s3
      in (\<lparr>da_num_pfs = of_nat (bar_maps v1),
           da_num_qs = ucast (FIELD_GET GLBL2_CHANNEL_CAP_MULTIQ_MAX_MASK v2),
           da_flr_present = ucast (FIELD_GET EQDMA_GLBL2_FLR_PRESENT_MASK v3),
           da_st_en = (if FIELD_GET GLBL2_CHANNEL_MDMA_C2H_ST_MASK v4 \<noteq> 0 \<and>
                          FIELD_GET GLBL2_CHANNEL_MDMA_H2C_ST_MASK v4 \<noteq> 0 then 1 else 0),
           da_mm_en = (if FIELD_GET GLBL2_CHANNEL_MDMA_C2H_ENG_MASK v4 \<noteq> 0 \<and>
                          FIELD_GET GLBL2_CHANNEL_MDMA_H2C_ENG_MASK v4 \<noteq> 0 then 1 else 0),
           da_mm_cmpt_en = 0,
           da_mailbox_en = ucast (FIELD_GET EQDMA_GLBL2_MAILBOX_EN_MASK v3),
           da_debug_mode = ucast (FIELD_GET EQDMA_GLBL2_DBG_MODE_EN_MASK v3),
           da_desc_eng_mode = ucast (FIELD_GET EQDMA_GLBL2_DESC_ENG_MODE_MASK v3),
           da_mm_channel_max = 1, da_qid2vec_ctx = 0, da_cmpt_ovf_chk_dis = 1, da_mailbox_intr = 1,
           da_sw_desc_64b = 1, da_cmpt_desc_64b = 1, da_dynamic_bar = 1, da_legacy_intr = 1,
           da_cmpt_trig_count_timer = 1\<rparr>, s4))"

definition eqdma_get_device_attributes :: "'s mmio \<Rightarrow> bool \<Rightarrow> qdma_dev_attributes option \<Rightarrow> 's \<Rightarrow>
    int \<times> qdma_dev_attributes option \<times> 's" where
  "eqdma_get_device_attributes mm dev_hndl dev_info s =
     (if \<not> dev_hndl \<or> dev_info = None then (neg_err QDMA_ERR_INV_PARAM, dev_info, s)
      else (let (a, s') = device_attributes mm s in (err_code QDMA_SUCCESS, Some a, s')))"

subsection \<open>The tables of global values\<close>

text \<open>
  \<open>index + count\<close> is computed as an int, so it does not wrap. A write takes the caller's array, a read
  gives it back with its first \<open>count\<close> elements replaced.
\<close>

definition filled :: "u32 list \<Rightarrow> u32 list \<Rightarrow> u32 list" where
  "filled vals old = vals @ drop (length vals) old"

definition eqdma_write_global_ring_sizes :: "'s mmio \<Rightarrow> bool \<Rightarrow> u8 \<Rightarrow> u8 \<Rightarrow> u32 list option \<Rightarrow> 's \<Rightarrow> int \<times> 's" where
  "eqdma_write_global_ring_sizes mm dev_hndl index count vals s =
     (case vals of
        None \<Rightarrow> (neg_err QDMA_ERR_INV_PARAM, s)
      | Some vs \<Rightarrow>
          if \<not> dev_hndl \<or> count = 0 then (neg_err QDMA_ERR_INV_PARAM, s)
          else if QDMA_NUM_RING_SIZES < unat index + unat count then (neg_err QDMA_ERR_INV_PARAM, s)
          else (err_code QDMA_SUCCESS, qdma_write_csr_values mm EQDMA_GLBL_RNG_SZ_1_ADDR (ucast index) (ucast count) vs s))"

definition eqdma_read_global_ring_sizes :: "'s mmio \<Rightarrow> bool \<Rightarrow> u8 \<Rightarrow> u8 \<Rightarrow> u32 list option \<Rightarrow> 's \<Rightarrow> int \<times> u32 list option \<times> 's" where
  "eqdma_read_global_ring_sizes mm dev_hndl index count vals s =
     (case vals of
        None \<Rightarrow> (neg_err QDMA_ERR_INV_PARAM, vals, s)
      | Some vs \<Rightarrow>
          if \<not> dev_hndl \<or> count = 0 then (neg_err QDMA_ERR_INV_PARAM, vals, s)
          else if QDMA_NUM_RING_SIZES < unat index + unat count then (neg_err QDMA_ERR_INV_PARAM, vals, s)
          else (let (new, s2) = qdma_read_csr_values mm EQDMA_GLBL_RNG_SZ_1_ADDR (ucast index) (ucast count) s
                    in (err_code QDMA_SUCCESS, Some (filled new vs), s2)))"

definition eqdma_write_global_timer_count :: "'s mmio \<Rightarrow> bool \<Rightarrow> u8 \<Rightarrow> u8 \<Rightarrow> u32 list option \<Rightarrow> 's \<Rightarrow> int \<times> 's" where
  "eqdma_write_global_timer_count mm dev_hndl index count vals s =
     (case vals of
        None \<Rightarrow> (neg_err QDMA_ERR_INV_PARAM, s)
      | Some vs \<Rightarrow>
          if \<not> dev_hndl \<or> count = 0 then (neg_err QDMA_ERR_INV_PARAM, s)
          else if QDMA_NUM_C2H_TIMERS < unat index + unat count then (neg_err QDMA_ERR_INV_PARAM, s)
          else (let (dev_cap, s1) = device_attributes mm s
                in if da_st_en dev_cap \<noteq> 0 \<or> da_mm_cmpt_en dev_cap \<noteq> 0
                   then (err_code QDMA_SUCCESS, qdma_write_csr_values mm EQDMA_C2H_TIMER_CNT_ADDR (ucast index) (ucast count) vs s1)
                   else (neg_err QDMA_ERR_HWACC_FEATURE_NOT_SUPPORTED, s1)))"

definition eqdma_read_global_timer_count :: "'s mmio \<Rightarrow> bool \<Rightarrow> u8 \<Rightarrow> u8 \<Rightarrow> u32 list option \<Rightarrow> 's \<Rightarrow> int \<times> u32 list option \<times> 's" where
  "eqdma_read_global_timer_count mm dev_hndl index count vals s =
     (case vals of
        None \<Rightarrow> (neg_err QDMA_ERR_INV_PARAM, vals, s)
      | Some vs \<Rightarrow>
          if \<not> dev_hndl \<or> count = 0 then (neg_err QDMA_ERR_INV_PARAM, vals, s)
          else if QDMA_NUM_C2H_TIMERS < unat index + unat count then (neg_err QDMA_ERR_INV_PARAM, vals, s)
          else (let (dev_cap, s1) = device_attributes mm s
                in if da_st_en dev_cap \<noteq> 0 \<or> da_mm_cmpt_en dev_cap \<noteq> 0
                   then (let (new, s2) = qdma_read_csr_values mm EQDMA_C2H_TIMER_CNT_ADDR (ucast index) (ucast count) s1
                    in (err_code QDMA_SUCCESS, Some (filled new vs), s2))
                   else (neg_err QDMA_ERR_HWACC_FEATURE_NOT_SUPPORTED, vals, s1)))"

definition eqdma_write_global_counter_threshold :: "'s mmio \<Rightarrow> bool \<Rightarrow> u8 \<Rightarrow> u8 \<Rightarrow> u32 list option \<Rightarrow> 's \<Rightarrow> int \<times> 's" where
  "eqdma_write_global_counter_threshold mm dev_hndl index count vals s =
     (case vals of
        None \<Rightarrow> (neg_err QDMA_ERR_INV_PARAM, s)
      | Some vs \<Rightarrow>
          if \<not> dev_hndl \<or> count = 0 then (neg_err QDMA_ERR_INV_PARAM, s)
          else if QDMA_NUM_C2H_COUNTERS < unat index + unat count then (neg_err QDMA_ERR_INV_PARAM, s)
          else (let (dev_cap, s1) = device_attributes mm s
                in if da_st_en dev_cap \<noteq> 0 \<or> da_mm_cmpt_en dev_cap \<noteq> 0
                   then (err_code QDMA_SUCCESS, qdma_write_csr_values mm EQDMA_C2H_CNT_TH_ADDR (ucast index) (ucast count) vs s1)
                   else (neg_err QDMA_ERR_HWACC_FEATURE_NOT_SUPPORTED, s1)))"

definition eqdma_read_global_counter_threshold :: "'s mmio \<Rightarrow> bool \<Rightarrow> u8 \<Rightarrow> u8 \<Rightarrow> u32 list option \<Rightarrow> 's \<Rightarrow> int \<times> u32 list option \<times> 's" where
  "eqdma_read_global_counter_threshold mm dev_hndl index count vals s =
     (case vals of
        None \<Rightarrow> (neg_err QDMA_ERR_INV_PARAM, vals, s)
      | Some vs \<Rightarrow>
          if \<not> dev_hndl \<or> count = 0 then (neg_err QDMA_ERR_INV_PARAM, vals, s)
          else if QDMA_NUM_C2H_COUNTERS < unat index + unat count then (neg_err QDMA_ERR_INV_PARAM, vals, s)
          else (let (dev_cap, s1) = device_attributes mm s
                in if da_st_en dev_cap \<noteq> 0 \<or> da_mm_cmpt_en dev_cap \<noteq> 0
                   then (let (new, s2) = qdma_read_csr_values mm EQDMA_C2H_CNT_TH_ADDR (ucast index) (ucast count) s1
                    in (err_code QDMA_SUCCESS, Some (filled new vs), s2))
                   else (neg_err QDMA_ERR_HWACC_FEATURE_NOT_SUPPORTED, vals, s1)))"

definition eqdma_write_global_buffer_sizes :: "'s mmio \<Rightarrow> bool \<Rightarrow> u8 \<Rightarrow> u8 \<Rightarrow> u32 list option \<Rightarrow> 's \<Rightarrow> int \<times> 's" where
  "eqdma_write_global_buffer_sizes mm dev_hndl index count vals s =
     (case vals of
        None \<Rightarrow> (neg_err QDMA_ERR_INV_PARAM, s)
      | Some vs \<Rightarrow>
          if \<not> dev_hndl \<or> count = 0 then (neg_err QDMA_ERR_INV_PARAM, s)
          else if QDMA_NUM_C2H_BUFFER_SIZES < unat index + unat count then (neg_err QDMA_ERR_INV_PARAM, s)
          else (let (dev_cap, s1) = device_attributes mm s
                in if da_st_en dev_cap \<noteq> 0
                   then (err_code QDMA_SUCCESS, qdma_write_csr_values mm EQDMA_C2H_BUF_SZ_ADDR (ucast index) (ucast count) vs s1)
                   else (neg_err QDMA_ERR_HWACC_FEATURE_NOT_SUPPORTED, s1)))"

definition eqdma_read_global_buffer_sizes :: "'s mmio \<Rightarrow> bool \<Rightarrow> u8 \<Rightarrow> u8 \<Rightarrow> u32 list option \<Rightarrow> 's \<Rightarrow> int \<times> u32 list option \<times> 's" where
  "eqdma_read_global_buffer_sizes mm dev_hndl index count vals s =
     (case vals of
        None \<Rightarrow> (neg_err QDMA_ERR_INV_PARAM, vals, s)
      | Some vs \<Rightarrow>
          if \<not> dev_hndl \<or> count = 0 then (neg_err QDMA_ERR_INV_PARAM, vals, s)
          else if QDMA_NUM_C2H_BUFFER_SIZES < unat index + unat count then (neg_err QDMA_ERR_INV_PARAM, vals, s)
          else (let (dev_cap, s1) = device_attributes mm s
                in if da_st_en dev_cap \<noteq> 0
                   then (let (new, s2) = qdma_read_csr_values mm EQDMA_C2H_BUF_SZ_ADDR (ucast index) (ucast count) s1
                    in (err_code QDMA_SUCCESS, Some (filled new vs), s2))
                   else (neg_err QDMA_ERR_HWACC_FEATURE_NOT_SUPPORTED, vals, s1)))"

definition eqdma_global_csr_conf :: "'s mmio \<Rightarrow> bool \<Rightarrow> u8 \<Rightarrow> u8 \<Rightarrow> u32 list option \<Rightarrow> qdma_global_csr_type \<Rightarrow>
    qdma_hw_access_type \<Rightarrow> 's \<Rightarrow> int \<times> u32 list option \<times> 's" where
  "eqdma_global_csr_conf mm dev_hndl index count csr_val csr_type access_type s =
     (let invalid = (neg_err QDMA_ERR_INV_PARAM, csr_val, s);
          wr = (\<lambda>f. let (rv, s') = f mm dev_hndl index count csr_val s in (rv, csr_val, s'))
      in case csr_type of
           QDMA_CSR_RING_SZ \<Rightarrow>
             (case access_type of
                QDMA_HW_ACCESS_READ \<Rightarrow> eqdma_read_global_ring_sizes mm dev_hndl index count csr_val s
              | QDMA_HW_ACCESS_WRITE \<Rightarrow> wr eqdma_write_global_ring_sizes
              | _ \<Rightarrow> invalid)
         | QDMA_CSR_TIMER_CNT \<Rightarrow>
             (case access_type of
                QDMA_HW_ACCESS_READ \<Rightarrow> eqdma_read_global_timer_count mm dev_hndl index count csr_val s
              | QDMA_HW_ACCESS_WRITE \<Rightarrow> wr eqdma_write_global_timer_count
              | _ \<Rightarrow> invalid)
         | QDMA_CSR_CNT_TH \<Rightarrow>
             (case access_type of
                QDMA_HW_ACCESS_READ \<Rightarrow> eqdma_read_global_counter_threshold mm dev_hndl index count csr_val s
              | QDMA_HW_ACCESS_WRITE \<Rightarrow> wr eqdma_write_global_counter_threshold
              | _ \<Rightarrow> invalid)
         | QDMA_CSR_BUF_SZ \<Rightarrow>
             (case access_type of
                QDMA_HW_ACCESS_READ \<Rightarrow> eqdma_read_global_buffer_sizes mm dev_hndl index count csr_val s
              | QDMA_HW_ACCESS_WRITE \<Rightarrow> wr eqdma_write_global_buffer_sizes
              | _ \<Rightarrow> invalid)
         | QDMA_CSR_MAX \<Rightarrow> invalid)"

subsection \<open>The writeback interval\<close>

definition eqdma_global_writeback_interval_write :: "'s mmio \<Rightarrow> bool \<Rightarrow> u32 \<Rightarrow> 's \<Rightarrow> int \<times> 's" where
  "eqdma_global_writeback_interval_write mm dev_hndl wb_int s =
     (if \<not> dev_hndl then (neg_err QDMA_ERR_INV_PARAM, s)
      else if QDMA_NUM_WRB_INTERVALS \<le> wb_int then (neg_err QDMA_ERR_INV_PARAM, s)
      else (let (dev_cap, s1) = device_attributes mm s
            in if da_st_en dev_cap \<noteq> 0 \<or> da_mm_cmpt_en dev_cap \<noteq> 0 then
                 (let (v, s2) = qdma_reg_read mm EQDMA_GLBL_DSC_CFG_ADDR s1;
                      reg_val = v OR FIELD_SET GLBL_DSC_CFG_WB_ACC_INT_MASK wb_int
                  in (err_code QDMA_SUCCESS, qdma_reg_write mm EQDMA_GLBL_DSC_CFG_ADDR reg_val s2))
               else (neg_err QDMA_ERR_HWACC_FEATURE_NOT_SUPPORTED, s1)))"

definition eqdma_global_writeback_interval_read :: "'s mmio \<Rightarrow> bool \<Rightarrow> u32 option \<Rightarrow> 's \<Rightarrow> int \<times> u32 option \<times> 's" where
  "eqdma_global_writeback_interval_read mm dev_hndl wb_int s =
     (if \<not> dev_hndl \<or> wb_int = None then (neg_err QDMA_ERR_INV_PARAM, wb_int, s)
      else (let (dev_cap, s1) = device_attributes mm s
            in if da_st_en dev_cap \<noteq> 0 \<or> da_mm_cmpt_en dev_cap \<noteq> 0 then
                 (let (v, s2) = qdma_reg_read mm EQDMA_GLBL_DSC_CFG_ADDR s1
                  in (err_code QDMA_SUCCESS, Some (FIELD_GET GLBL_DSC_CFG_WB_ACC_INT_MASK v), s2))
               else (neg_err QDMA_ERR_HWACC_FEATURE_NOT_SUPPORTED, wb_int, s1)))"

text \<open>A write through a NULL pointer faults: \<open>None\<close> is not returning.\<close>

definition eqdma_global_writeback_interval_conf :: "'s mmio \<Rightarrow> bool \<Rightarrow> u32 option \<Rightarrow> qdma_hw_access_type \<Rightarrow> 's \<Rightarrow>
    (int \<times> u32 option \<times> 's) option" where
  "eqdma_global_writeback_interval_conf mm dev_hndl wb_int access_type s =
     (case access_type of
        QDMA_HW_ACCESS_READ \<Rightarrow> Some (eqdma_global_writeback_interval_read mm dev_hndl wb_int s)
      | QDMA_HW_ACCESS_WRITE \<Rightarrow>
          (case wb_int of
             None \<Rightarrow> None
           | Some w \<Rightarrow> Some (let (rv, s') = eqdma_global_writeback_interval_write mm dev_hndl w s in (rv, wb_int, s')))
      | _ \<Rightarrow> Some (neg_err QDMA_ERR_INV_PARAM, wb_int, s))"

subsection \<open>Other operations\<close>

definition eqdma_mm_channel_conf :: "'s mmio \<Rightarrow> bool \<Rightarrow> u8 \<Rightarrow> u8 \<Rightarrow> u8 \<Rightarrow> 's \<Rightarrow> int \<times> 's" where
  "eqdma_mm_channel_conf mm dev_hndl channel is_c2h enable s =
     (let reg_addr = (if is_c2h \<noteq> 0 then EQDMA_C2H_MM_CTL_ADDR else EQDMA_H2C_MM_CTL_ADDR)
      in if \<not> dev_hndl then (neg_err QDMA_ERR_INV_PARAM, s)
         else (let (dev_cap, s1) = device_attributes mm s
               in (err_code QDMA_SUCCESS,
                   if da_mm_en dev_cap \<noteq> 0
                   then qdma_reg_write mm (reg_addr + ucast channel * QDMA_MM_CONTROL_STEP) (ucast enable) s1
                   else s1)))"

text \<open>
  The user BAR is the lowest bit set in the six bits of the function. A shift by 32 or more, for a
  function number past 5, is undefined in C; here it shifts everything out.
\<close>

definition eqdma_get_user_bar :: "'s mmio \<Rightarrow> bool \<Rightarrow> u8 \<Rightarrow> u16 \<Rightarrow> u8 option \<Rightarrow> 's \<Rightarrow> int \<times> u8 option \<times> 's" where
  "eqdma_get_user_bar mm dev_hndl is_vf func_id user_bar s =
     (let reg_addr = (if is_vf \<noteq> 0 then EQDMA_OFFSET_VF_USER_BAR else EQDMA_OFFSET_GLBL2_PF_BARLITE_EXT)
      in if \<not> dev_hndl \<or> user_bar = None then (neg_err QDMA_ERR_INV_PARAM, user_bar, s)
         else (let (v, s1) = qdma_reg_read mm reg_addr s;
                   user_bar_id = drop_bit (6 * unat func_id) v AND 0x3F
               in case find (\<lambda>i. bit user_bar_id i) [0..<QDMA_BAR_NUM] of
                    Some i \<Rightarrow> (err_code QDMA_SUCCESS, Some (of_nat i), s1)
                  | None \<Rightarrow> (neg_err QDMA_ERR_HWACC_BAR_NOT_FOUND, Some 0, s1)))"

definition dflt_rng_sz :: "u32 list" where
  "dflt_rng_sz = [2049, 65, 129, 193, 257, 385, 513, 769, 1025, 1537, 3073, 4097, 6145, 8193, 12289, 16385]"

definition dflt_tmr_cnt :: "u32 list" where
  "dflt_tmr_cnt = [1, 2, 4, 5, 8, 10, 15, 20, 25, 30, 50, 75, 100, 125, 150, 200]"

definition dflt_cnt_th :: "u32 list" where
  "dflt_cnt_th = [2, 4, 8, 16, 24, 32, 48, 64, 80, 96, 112, 128, 144, 160, 176, 192]"

definition dflt_buf_sz :: "u32 list" where
  "dflt_buf_sz = [4096, 256, 512, 1024, 2048, 3968, 4096, 4096, 4096, 4096, 4096, 4096, 4096, 8192, 9018, 16384]"

text \<open>
  The defaults: ring sizes always; thresholds, timers and the writeback interval when there is
  streaming or a memory-mapped completion; buffer sizes, prefetch, coalescing and throttling when there
  is streaming.
\<close>

definition default_streaming :: "'s mmio \<Rightarrow> 's \<Rightarrow> 's" where
  "default_streaming mm s =
     (let s1 = qdma_write_csr_values mm EQDMA_C2H_BUF_SZ_ADDR 0 16 dflt_buf_sz s;
          (v, s2) = qdma_reg_read mm EQDMA_C2H_PFCH_CACHE_DEPTH_ADDR s1;
          cfg_val = FIELD_GET C2H_PFCH_CACHE_DEPTH_MASK v;
          s3 = qdma_reg_write mm EQDMA_C2H_PFCH_CFG_1_ADDR
            (FIELD_SET C2H_PFCH_CFG_1_QCNT_MASK (drop_bit 2 cfg_val) OR
             FIELD_SET C2H_PFCH_CFG_1_EVT_QCNT_TH_MASK (drop_bit 2 cfg_val - 4)) s2;
          (v2, s4) = qdma_reg_read mm EQDMA_C2H_PFCH_CFG_2_ADDR s3;
          s5 = qdma_reg_write mm EQDMA_C2H_PFCH_CFG_2_ADDR (v2 OR FIELD_SET C2H_PFCH_CFG_2_FENCE_MASK 1) s4;
          s6 = qdma_reg_write mm EQDMA_C2H_INT_TIMER_TICK_ADDR 25 s5;
          (v3, s7) = qdma_reg_read mm EQDMA_C2H_WRB_COAL_BUF_DEPTH_ADDR s6;
          s8 = qdma_reg_write mm EQDMA_C2H_WRB_COAL_CFG_ADDR
            (FIELD_SET C2H_WRB_COAL_CFG_TICK_CNT_MASK 5 OR FIELD_SET C2H_WRB_COAL_CFG_TICK_VAL_MASK 25 OR
             FIELD_SET C2H_WRB_COAL_CFG_MAX_BUF_SZ_MASK v3) s7
      in qdma_reg_write mm EQDMA_H2C_REQ_THROT_PCIE_ADDR
           (FIELD_SET H2C_REQ_THROT_PCIE_DATA_THRESH_MASK 0x5000 OR FIELD_SET H2C_REQ_THROT_PCIE_EN_DATA_MASK 1 OR
            FIELD_SET H2C_REQ_THROT_PCIE_MASK 0xC0 OR FIELD_SET H2C_REQ_THROT_PCIE_EN_REQ_MASK 0) s8)"

definition eqdma_set_default_global_csr :: "'s mmio \<Rightarrow> bool \<Rightarrow> 's \<Rightarrow> int \<times> 's" where
  "eqdma_set_default_global_csr mm dev_hndl s =
     (if \<not> dev_hndl then (neg_err QDMA_ERR_INV_PARAM, s)
      else (let (dev_cap, s1) = device_attributes mm s;
                s2 = qdma_write_csr_values mm EQDMA_GLBL_RNG_SZ_1_ADDR 0 16 dflt_rng_sz s1;
                s3 = (if da_st_en dev_cap \<noteq> 0 \<or> da_mm_cmpt_en dev_cap \<noteq> 0 then
                        (let t1 = qdma_write_csr_values mm EQDMA_C2H_CNT_TH_ADDR 0 16 dflt_cnt_th s2;
                             t2 = qdma_write_csr_values mm EQDMA_C2H_TIMER_CNT_ADDR 0 16 dflt_tmr_cnt t1
                         in qdma_reg_write mm EQDMA_GLBL_DSC_CFG_ADDR
                              (FIELD_SET GLBL_DSC_CFG_MAXFETCH_MASK 6 OR FIELD_SET GLBL_DSC_CFG_WB_ACC_INT_MASK 5) t2)
                      else s2)
            in (err_code QDMA_SUCCESS, if da_st_en dev_cap \<noteq> 0 then default_streaming mm s3 else s3)))"

subsection \<open>Initialising the context memory\<close>

text \<open>
  Every queue, and for each the selectors from \<open>QDMA_CTXT_SEL_SW_C2H\<close> to \<open>QDMA_CTXT_SEL_PFTCH\<close>; the first
  failure ends the function. The function maps of the physical functions are cleared last and their
  status is ignored.
\<close>

fun clear_sels :: "'s mmio \<Rightarrow> u16 \<Rightarrow> ind_ctxt_cmd_sel list \<Rightarrow> 's \<Rightarrow> int \<times> 's" where
  "clear_sels mm i [] s = (0, s)"
| "clear_sels mm i (sel # sels) s =
     (let (rv, s1) = eqdma_indirect_reg_clear mm sel i s
      in if rv < 0 then (rv, s1) else clear_sels mm i sels s1)"

fun clear_queues :: "'s mmio \<Rightarrow> ind_ctxt_cmd_sel list \<Rightarrow> nat list \<Rightarrow> 's \<Rightarrow> int \<times> 's" where
  "clear_queues mm sels [] s = (0, s)"
| "clear_queues mm sels (i # is) s =
     (let (rv, s1) = clear_sels mm (of_nat i) sels s
      in if rv < 0 then (rv, s1) else clear_queues mm sels is s1)"

definition init_sels :: "u8 \<Rightarrow> ind_ctxt_cmd_sel list" where
  "init_sels st_en =
     filter (\<lambda>sel. \<not> (st_en = 0 \<and> (sel = QDMA_CTXT_SEL_PFTCH \<or> sel = QDMA_CTXT_SEL_CMPT)))
       [QDMA_CTXT_SEL_SW_C2H, QDMA_CTXT_SEL_SW_H2C, QDMA_CTXT_SEL_HW_C2H, QDMA_CTXT_SEL_HW_H2C,
        QDMA_CTXT_SEL_CR_C2H, QDMA_CTXT_SEL_CR_H2C, QDMA_CTXT_SEL_CMPT, QDMA_CTXT_SEL_PFTCH]"

definition eqdma_init_ctxt_memory :: "'s mmio \<Rightarrow> bool \<Rightarrow> 's \<Rightarrow> int \<times> 's" where
  "eqdma_init_ctxt_memory mm dev_hndl s =
     (if \<not> dev_hndl then (neg_err QDMA_ERR_INV_PARAM, s)
      else (let (dev_info, s1) = device_attributes mm s;
                (rv, s2) = clear_queues mm (init_sels (da_st_en dev_info)) [0..<unat (da_num_qs dev_info)] s1
            in if rv < 0 then (rv, s2)
               else (err_code QDMA_SUCCESS,
                     fold (\<lambda>i s. snd (eqdma_indirect_reg_clear mm QDMA_CTXT_SEL_FMAP (of_nat i) s))
                       [0..<unat (da_num_pfs dev_info)] s2)))"


subsection \<open>Lemmas\<close>

text \<open>The attributes are those of four registers, when these are plain.\<close>

definition attr_regs :: "u32 set" where
  "attr_regs = {QDMA_OFFSET_GLBL2_PF_BARLITE_INT, EQDMA_GLBL2_CHANNEL_CAP_ADDR, EQDMA_GLBL2_MISC_CAP_ADDR,
     EQDMA_GLBL2_CHANNEL_MDMA_ADDR}"

definition attrs_of :: "(u32 \<Rightarrow> u32) \<Rightarrow> qdma_dev_attributes" where
  "attrs_of v = fst (device_attributes ram v)"

fun csr_base :: "qdma_global_csr_type \<Rightarrow> u32" where
  "csr_base QDMA_CSR_RING_SZ = EQDMA_GLBL_RNG_SZ_1_ADDR"
| "csr_base QDMA_CSR_TIMER_CNT = EQDMA_C2H_TIMER_CNT_ADDR"
| "csr_base QDMA_CSR_CNT_TH = EQDMA_C2H_CNT_TH_ADDR"
| "csr_base _ = EQDMA_C2H_BUF_SZ_ADDR"

definition csr_regs :: "u32 set" where
  "csr_regs = {EQDMA_GLBL_DSC_CFG_ADDR} \<union> attr_regs \<union> {csr_base t + of_nat k * 4 |t k. k < 16}"

lemma device_attributes_plain:
  assumes "plain_registers mm val A" and "attr_regs \<subseteq> A"
  shows "device_attributes mm s = (attrs_of (val s), s)"
proof -
  have "qdma_reg_read mm a s = (val s a, s)" if "a \<in> attr_regs" for a
    using assms that by (auto simp: plain_registers_def)
  then show ?thesis
    by (simp add: attr_regs_def device_attributes_def attrs_of_def ram_def)
qed

lemma attr_regs_csr_regs: "attr_regs \<subseteq> csr_regs"
  by (auto simp: csr_regs_def)

lemma attrs_of_cong:
  "(\<And>a. a \<in> attr_regs \<Longrightarrow> v a = w a) \<Longrightarrow> attrs_of v = attrs_of w"
  by (simp add: attrs_of_def device_attributes_def ram_def attr_regs_def)

lemma table_addr:
  assumes "unat index + unat count \<le> 16" and "k < unat (count :: u8)"
  shows "csr_addr (csr_base t) (ucast (index :: u8)) k \<in> csr_regs"
    and "csr_addr (csr_base t) (ucast index) k \<notin> insert EQDMA_GLBL_DSC_CFG_ADDR attr_regs"
proof -
  have e: "csr_addr (csr_base t) (ucast index) k = csr_base t + of_nat (unat index + k) * 4"
    by (simp add: csr_addr_def)
  obtain j where j: "unat index + k = j" and k: "j < 16" using assms by simp
  then show "csr_addr (csr_base t) (ucast index) k \<in> csr_regs" unfolding e j csr_regs_def by blast
  have "j \<in> {0, 1, 2, 3, 4, 5, 6, 7, 8, 9, 10, 11, 12, 13, 14, 15}" using k unfolding numeral_nat by (auto simp: less_Suc_eq)
  then show "csr_addr (csr_base t) (ucast index) k \<notin> insert EQDMA_GLBL_DSC_CFG_ADDR attr_regs"
    unfolding e j by (cases t) (auto simp: attr_regs_def addr_defs)
qed

lemma table_write_read:
  assumes "plain_registers mm val csr_regs" and "unat index + unat (count :: u8) \<le> 16" and "length vs = unat count"
  shows "qdma_read_csr_values mm (csr_base t) (ucast index) (ucast count)
      (qdma_write_csr_values mm (csr_base t) (ucast (index :: u8)) (ucast count) vs s) =
      (vs, qdma_write_csr_values mm (csr_base t) (ucast index) (ucast count) vs s)"
    and "device_attributes mm (qdma_write_csr_values mm (csr_base t) (ucast index) (ucast count) vs s) =
      (attrs_of (val s), qdma_write_csr_values mm (csr_base t) (ucast index) (ucast count) vs s)"
proof -
  let ?s' = "qdma_write_csr_values mm (csr_base t) (ucast index) (ucast count) vs s"
  have u: "unat (ucast index :: u32) = unat index" "unat (ucast count :: u32) = unat count"
    using unsigned_less [of index, where ?'a = nat] unsigned_less [of count, where ?'a = nat]
    by (simp_all add: unsigned_ucast_eq take_bit_nat_eq_self)
  have le: "unat (ucast index :: u32) + unat (ucast count :: u32) \<le> 2 ^ 30" using assms(2) u by simp
  have in_A: "\<forall>k < unat (ucast count :: u32). csr_addr (csr_base t) (ucast index) k \<in> csr_regs"
    using table_addr(1) [OF assms(2)] u by simp
  have l: "length vs = unat (ucast count :: u32)" using assms(3) u by simp
  note wr = csr_write_read [OF assms(1) le in_A l, where s = s]
  show "qdma_read_csr_values mm (csr_base t) (ucast index) (ucast count) ?s' = (vs, ?s')" by (rule wr(1))
  have "val ?s' a = val s a" if "a \<in> attr_regs" for a
    using table_addr(2) [OF assms(2)] that u by (intro wr(2)) auto
  then have "attrs_of (val ?s') = attrs_of (val s)" by (rule attrs_of_cong)
  then show "device_attributes mm ?s' = (attrs_of (val s), ?s')"
    using device_attributes_plain [OF assms(1) attr_regs_csr_regs, of ?s'] by simp
qed

lemmas csr_ops = eqdma_write_global_ring_sizes_def eqdma_read_global_ring_sizes_def
  eqdma_write_global_timer_count_def eqdma_read_global_timer_count_def
  eqdma_write_global_counter_threshold_def eqdma_read_global_counter_threshold_def
  eqdma_write_global_buffer_sizes_def eqdma_read_global_buffer_sizes_def

lemmas csr_nums = QDMA_NUM_RING_SIZES_def QDMA_NUM_C2H_TIMERS_def QDMA_NUM_C2H_BUFFER_SIZES_def QDMA_NUM_C2H_COUNTERS_def

subsection \<open>Properties\<close>

text \<open>
  On a streaming design, what is written to a table of global values at an index is what a read of the
  same entries returns, for each of the four tables; the caller's array keeps its other elements.
\<close>

theorem global_csr_write_read:
  assumes "plain_registers mm val csr_regs" and "da_st_en (attrs_of (val s)) \<noteq> 0" and "csr_type \<noteq> QDMA_CSR_MAX"
    and "count \<noteq> 0" and "unat index + unat count \<le> 16" and "length vs = unat count"
  shows "\<exists>s1. eqdma_global_csr_conf mm True index count (Some vs) csr_type QDMA_HW_ACCESS_WRITE s = (0, Some vs, s1) \<and>
    eqdma_global_csr_conf mm True index count (Some old) csr_type QDMA_HW_ACCESS_READ s1 = (0, Some (filled vs old), s1)"
proof -
  have a: "device_attributes mm s = (attrs_of (val s), s)"
    by (rule device_attributes_plain [OF assms(1) attr_regs_csr_regs])
  note t = table_write_read [OF assms(1,5,6), where s = s]
  have n: "\<not> 16 < unat index + unat count" using assms(5) by simp
  show ?thesis
    using assms(2-4) n t [of csr_type]
    by (cases csr_type) (simp_all add: eqdma_global_csr_conf_def csr_ops csr_nums a)
qed

theorem global_csr_write_read_witness:
  "let s = (\<lambda>_. 0)(EQDMA_GLBL2_CHANNEL_MDMA_ADDR := 0x30000);
       (rv, vs, s1) = eqdma_global_csr_conf ram True 2 3 (Some [7, 8, 9]) QDMA_CSR_TIMER_CNT QDMA_HW_ACCESS_WRITE s
   in eqdma_global_csr_conf ram True 2 3 (Some [0, 0, 0, 5]) QDMA_CSR_TIMER_CNT QDMA_HW_ACCESS_READ s1 =
        (0, Some [7, 8, 9, 5], s1)"
proof -
  have "da_st_en (attrs_of ((\<lambda>_. 0)(EQDMA_GLBL2_CHANNEL_MDMA_ADDR := 0x30000))) = 1" by code_simp
  with global_csr_write_read [OF ram_plain, of "(\<lambda>_. 0)(EQDMA_GLBL2_CHANNEL_MDMA_ADDR := 0x30000)"
      QDMA_CSR_TIMER_CNT 3 2 "[7, 8, 9]" "[0, 0, 0, 5]"]
  show ?thesis by (auto simp: filled_def Let_def)
qed

text \<open>
  A table access with no elements, past the sixteenth entry or without an array, an unknown table and a
  clear or invalidate are refused, and the device is not touched.
\<close>

theorem global_csr_refused:
  assumes "count = 0 \<or> 16 < unat index + unat count \<or> csr_val = None \<or> \<not> dev_hndl \<or> csr_type = QDMA_CSR_MAX \<or>
    access_type \<in> {QDMA_HW_ACCESS_CLEAR, QDMA_HW_ACCESS_INVALIDATE}"
  shows "eqdma_global_csr_conf mm dev_hndl index count csr_val csr_type access_type s =
    (neg_err QDMA_ERR_INV_PARAM, csr_val, s)"
  using assms
  by (cases csr_type; cases access_type) (auto simp: eqdma_global_csr_conf_def csr_ops csr_nums split: option.split)

theorem global_csr_refused_witness:
  "eqdma_global_csr_conf ram True 250 10 (Some (replicate 10 1)) QDMA_CSR_RING_SZ QDMA_HW_ACCESS_WRITE (\<lambda>_. 0) =
     (- 1, Some (replicate 10 1), \<lambda>_. 0)"
  using global_csr_refused [of 10 250 "Some (replicate 10 1)" True] by simp

text \<open>
  writing the writeback interval sets the bits of the new value and clears none of the old one, so what is read
  back is the union of the two: an interval set once can only grow.
\<close>

theorem writeback_interval_accumulates:
  assumes "plain_registers mm val csr_regs" and "da_st_en (attrs_of (val s)) \<noteq> 0" and "w < 8"
  shows "\<exists>s1. eqdma_global_writeback_interval_conf mm True (Some w) QDMA_HW_ACCESS_WRITE s = Some (0, Some w, s1) \<and>
    eqdma_global_writeback_interval_conf mm True (Some 0) QDMA_HW_ACCESS_READ s1 =
      Some (0, Some (FIELD_GET GLBL_DSC_CFG_WB_ACC_INT_MASK (val s EQDMA_GLBL_DSC_CFG_ADDR) OR w), s1)"
proof -
  let ?r = "EQDMA_GLBL_DSC_CFG_ADDR"
  let ?s1 = "qdma_reg_write mm ?r (val s ?r OR FIELD_SET GLBL_DSC_CFG_WB_ACC_INT_MASK w) s"
  have A: "attr_regs \<subseteq> csr_regs" "?r \<in> csr_regs" by (auto simp: csr_regs_def)
  have rd: "qdma_reg_read mm ?r s' = (val s' ?r, s')" for s' using assms(1) A by (auto simp: plain_registers_def)
  have wr: "val ?s1 = (val s)(?r := val s ?r OR FIELD_SET GLBL_DSC_CFG_WB_ACC_INT_MASK w)"
    using assms(1) A by (auto simp: plain_registers_def)
  have "attrs_of (val ?s1) = attrs_of (val s)"
    unfolding wr by (rule attrs_of_cong) (auto simp: attr_regs_def addr_defs)
  note at = device_attributes_plain [OF assms(1) A(1)] this [unfolded wr]
  have "w = take_bit 3 w"
    using assms(3) by (simp add: word_unat_eq_iff unsigned_take_bit_eq take_bit_nat_eq_self word_less_nat_alt)
  then have "FIELD_GET GLBL_DSC_CFG_WB_ACC_INT_MASK (v OR FIELD_SET GLBL_DSC_CFG_WB_ACC_INT_MASK w) =
      FIELD_GET GLBL_DSC_CFG_WB_ACC_INT_MASK v OR w" for v
    by (simp add: mask_defs field_rules)
  then show ?thesis
    using assms(2,3) by (simp add: eqdma_global_writeback_interval_conf_def eqdma_global_writeback_interval_write_def
      eqdma_global_writeback_interval_read_def at rd wr QDMA_NUM_WRB_INTERVALS_def not_le)
qed

theorem writeback_interval_accumulates_witness:
  "let s = (\<lambda>_. 0)(EQDMA_GLBL2_CHANNEL_MDMA_ADDR := 0x30000, EQDMA_GLBL_DSC_CFG_ADDR := 5);
       w = eqdma_global_writeback_interval_conf ram True (Some 2) QDMA_HW_ACCESS_WRITE s
   in \<exists>s1. w = Some (0, Some 2, s1) \<and>
     eqdma_global_writeback_interval_conf ram True (Some 0) QDMA_HW_ACCESS_READ s1 = Some (0, Some 7, s1)"
proof -
  let ?s = "(\<lambda>_. 0)(EQDMA_GLBL2_CHANNEL_MDMA_ADDR := 0x30000, EQDMA_GLBL_DSC_CFG_ADDR := 5)"
  have "da_st_en (attrs_of ?s) = 1" by code_simp
  moreover have "FIELD_GET GLBL_DSC_CFG_WB_ACC_INT_MASK (?s EQDMA_GLBL_DSC_CFG_ADDR) OR 2 = 7" by code_simp
  ultimately show ?thesis
    using writeback_interval_accumulates [OF ram_plain, of ?s 2] by (simp add: Let_def)
qed

subsection \<open>The context memory after initialisation\<close>

definition all_clear :: "ind_view \<Rightarrow> (ind_ctxt_cmd_sel \<times> u16) set \<Rightarrow> bool" where
  "all_clear v C \<longleftrightarrow> (\<forall>sel q. (sel, q) \<in> C \<longrightarrow> ctxts v (sel_code sel) (ind_qid q) = (\<lambda>_. 0))"

lemma all_clear_step:
  assumes "context_device mm view" and "all_clear (view s) C"
  shows "all_clear (view (snd (eqdma_indirect_reg_clear mm sel q s))) (insert (sel, q) C)"
  using assms(2) unfolding all_clear_def indirect_command_effect(1) [OF assms(1)]
  by (auto simp: fun_upd_apply) metis

lemma clear_succeeds: "responsive mm \<Longrightarrow> fst (eqdma_indirect_reg_clear mm sel q s) = 0"
  by (simp add: eqdma_indirect_reg_clear_def Let_def responsive_def split: prod.split) (metis fst_conv)

lemma clear_sels_spec:
  assumes "context_device mm view" and "responsive mm" and "all_clear (view s) C"
  shows "fst (clear_sels mm i sels s) = 0 \<and>
    all_clear (view (snd (clear_sels mm i sels s))) (C \<union> (\<lambda>sel. (sel, i)) ` set sels)"
  using assms(3)
proof (induction sels arbitrary: s C)
  case (Cons sel sels)
  obtain s1 where c: "eqdma_indirect_reg_clear mm sel i s = (0, s1)"
    using clear_succeeds [OF assms(2)] by (metis prod.collapse)
  have "all_clear (view s1) (insert (sel, i) C)"
    using all_clear_step [OF assms(1) Cons.prems, of sel i] c by simp
  from Cons.IH [OF this] show ?case by (simp add: c)
qed simp

lemma clear_queues_spec:
  assumes "context_device mm view" and "responsive mm" and "all_clear (view s) C"
  shows "fst (clear_queues mm sels is s) = 0 \<and>
    all_clear (view (snd (clear_queues mm sels is s))) (C \<union> set sels \<times> of_nat ` set is)"
  using assms(3)
proof (induction "is" arbitrary: s C)
  case (Cons i "is")
  obtain s1 where c: "clear_sels mm (of_nat i) sels s = (0, s1)"
    using clear_sels_spec [OF assms(1,2) Cons.prems, of "of_nat i" sels] by (metis prod.collapse)
  have "all_clear (view s1) (C \<union> (\<lambda>sel. (sel, of_nat i)) ` set sels)"
    using clear_sels_spec [OF assms(1,2) Cons.prems, of "of_nat i" sels] c by simp
  from Cons.IH [OF this] show ?case
    by (auto simp: c all_clear_def)
qed simp

lemma clear_fold:
  assumes "context_device mm view" and "all_clear (view s) C"
  shows "all_clear (view (fold (\<lambda>i s. snd (eqdma_indirect_reg_clear mm sel (of_nat i) s)) is s))
    (C \<union> {sel} \<times> of_nat ` set is)"
  using assms(2)
proof (induction "is" arbitrary: s C)
  case (Cons i "is")
  from Cons.IH [OF all_clear_step [OF assms(1) Cons.prems, of sel "of_nat i"]] show ?case
    by (auto simp: all_clear_def)
qed simp

text \<open>The contexts of every selector that the loop runs over.\<close>

lemma init_ctxt_memory_zeros:
  assumes "context_device mm view" and "responsive mm" and "device_attributes mm s = (attrs, s1)"
  shows "\<exists>s'. eqdma_init_ctxt_memory mm True s = (0, s') \<and>
    (\<forall>sel \<in> set (init_sels (da_st_en attrs)). \<forall>q < unat (da_num_qs attrs).
       ctxts (view s') (sel_code sel) (ind_qid (of_nat q)) = (\<lambda>_. 0)) \<and>
    (\<forall>pf < unat (da_num_pfs attrs). ctxts (view s') (sel_code QDMA_CTXT_SEL_FMAP) (ind_qid (of_nat pf)) = (\<lambda>_. 0))"
proof -
  let ?sels = "init_sels (da_st_en attrs)" and ?qs = "[0..<unat (da_num_qs attrs)]" and ?pfs = "[0..<unat (da_num_pfs attrs)]"
  have "all_clear (view s1) {}" by (simp add: all_clear_def)
  note q = clear_queues_spec [OF assms(1,2) this, of ?sels ?qs]
  obtain s2 where s2: "clear_queues mm ?sels ?qs s1 = (0, s2)" using q by (metis prod.collapse)
  then have "all_clear (view s2) ({} \<union> set ?sels \<times> of_nat ` set ?qs)" using q by simp
  note f = clear_fold [OF assms(1) this, of QDMA_CTXT_SEL_FMAP ?pfs]
  let ?s3 = "fold (\<lambda>i s. snd (eqdma_indirect_reg_clear mm QDMA_CTXT_SEL_FMAP (of_nat i) s)) ?pfs s2"
  have "eqdma_init_ctxt_memory mm True s = (0, ?s3)"
    by (simp add: eqdma_init_ctxt_memory_def assms(3) s2)
  moreover have "(sel, of_nat i) \<in> {} \<union> set ?sels \<times> of_nat ` set ?qs \<union> {QDMA_CTXT_SEL_FMAP} \<times> of_nat ` set ?pfs"
    if "sel \<in> set ?sels \<and> i < unat (da_num_qs attrs) \<or> sel = QDMA_CTXT_SEL_FMAP \<and> i < unat (da_num_pfs attrs)" for sel i
    using that by auto
  then have "ctxts (view ?s3) (sel_code sel) (ind_qid (of_nat i)) = (\<lambda>_. 0)"
    if "sel \<in> set ?sels \<and> i < unat (da_num_qs attrs) \<or> sel = QDMA_CTXT_SEL_FMAP \<and> i < unat (da_num_pfs attrs)" for sel i
    using f that unfolding all_clear_def by blast
  ultimately show ?thesis by blast
qed

text \<open>
  C36: initialising the context memory of a device that behaves as documented and answers in time succeeds and leaves
  zeros in the software, hardware and credit context of both directions of every queue the device says it has, in the
  completion and the prefetch context of each of them when the device has streaming, and in the function map of every
  physical function.
\<close>
theorem init_ctxt_memory_clears:
  assumes "context_device mm view" and "responsive mm" and "device_attributes mm s = (attrs, s1)"
  shows "\<exists>s'. eqdma_init_ctxt_memory mm True s = (0, s') \<and>
    (\<forall>q < unat (da_num_qs attrs).
       (\<forall>sel \<in> {QDMA_CTXT_SEL_SW_C2H, QDMA_CTXT_SEL_SW_H2C, QDMA_CTXT_SEL_HW_C2H, QDMA_CTXT_SEL_HW_H2C,
           QDMA_CTXT_SEL_CR_C2H, QDMA_CTXT_SEL_CR_H2C}. ctxts (view s') (sel_code sel) (ind_qid (of_nat q)) = (\<lambda>_. 0)) \<and>
       (da_st_en attrs \<noteq> 0 \<longrightarrow> (\<forall>sel \<in> {QDMA_CTXT_SEL_CMPT, QDMA_CTXT_SEL_PFTCH}.
           ctxts (view s') (sel_code sel) (ind_qid (of_nat q)) = (\<lambda>_. 0)))) \<and>
    (\<forall>pf < unat (da_num_pfs attrs). ctxts (view s') (sel_code QDMA_CTXT_SEL_FMAP) (ind_qid (of_nat pf)) = (\<lambda>_. 0))"
  using init_ctxt_memory_zeros [OF assms] by (auto simp: init_sels_def)

text \<open>A device with four queues and both streaming engines.\<close>

definition sim_caps :: "ind_view mmio" where
  "sim_caps = sim\<lparr>qdma_reg_read := \<lambda>a s.
     if a = EQDMA_GLBL2_CHANNEL_CAP_ADDR then (4, s)
     else if a = EQDMA_GLBL2_CHANNEL_MDMA_ADDR then (0x30000, s) else qdma_reg_read sim a s\<rparr>"

lemma sim_caps_read:
  assumes "i < 8"
  shows "qdma_reg_read sim_caps (EQDMA_IND_CTXT_DATA_ADDR + 4 * of_nat i) = qdma_reg_read sim (EQDMA_IND_CTXT_DATA_ADDR + 4 * of_nat i)"
  using less_8_cases [OF assms]
  by (auto simp: sim_caps_def addr_defs EQDMA_IND_CTXT_DATA_ADDR_def)

lemma sim_caps_context_device: "context_device sim_caps (\<lambda>s. s)"
  using sim_context_device
  by (simp add: context_device_def data_write_law_def command_law_def quiet_law_def sim_caps_read)
    (simp add: sim_caps_def)

lemma sim_caps_responsive: "responsive sim_caps"
proof -
  have "qdma_reg_read sim_caps EQDMA_IND_CTXT_CMD_ADDR s = (0, s)" for s
    by (simp add: sim_caps_def sim_def sim_index_def addr_defs EQDMA_IND_CTXT_DATA_ADDR_def EQDMA_IND_CTXT_CMD_ADDR_def upt_rec)
  then have h: "poll_hit sim_caps EQDMA_IND_CTXT_CMD_ADDR IND_CTXT_CMD_BUSY_MASK 0 i s 0" for i s
    by (simp add: poll_hit_def)
  have "0 < poll_rounds QDMA_REG_POLL_DFLT_INTERVAL_US QDMA_REG_POLL_DFLT_TIMEOUT_US"
    by (simp add: dflt_poll)
  note c = hw_monitor_reg_cases [OF this, of sim_caps EQDMA_IND_CTXT_CMD_ADDR IND_CTXT_CMD_BUSY_MASK 0]
  show ?thesis
    unfolding responsive_def ind_wait_def c using h by auto
qed

theorem init_ctxt_memory_clears_witness:
  "\<exists>s'. eqdma_init_ctxt_memory sim_caps True (sim_start\<lparr>ctxts := \<lambda>_ _ _. 1\<rparr>) = (0, s') \<and>
     ctxts s' (sel_code QDMA_CTXT_SEL_PFTCH) (ind_qid 3) = (\<lambda>_. 0)"
proof -
  let ?s = "sim_start\<lparr>ctxts := \<lambda>_ _ _. 1\<rparr>"
  obtain a s1 where a: "device_attributes sim_caps ?s = (a, s1)" by fastforce
  have "da_num_qs (fst (device_attributes sim_caps ?s)) = 4 \<and> da_st_en (fst (device_attributes sim_caps ?s)) = 1"
    by code_simp
  then have c: "unat (da_num_qs a) = 4" "da_st_en a = 1" by (simp_all add: a)
  obtain s' where s': "eqdma_init_ctxt_memory sim_caps True ?s = (0, s')"
    "\<forall>q < 4. \<forall>sel \<in> {QDMA_CTXT_SEL_CMPT, QDMA_CTXT_SEL_PFTCH}. ctxts s' (sel_code sel) (ind_qid (of_nat q)) = (\<lambda>_. 0)"
    using init_ctxt_memory_clears [OF sim_caps_context_device sim_caps_responsive a] unfolding c by auto
  have "(3 :: nat) < 4" by simp
  with s' have "ctxts s' (sel_code QDMA_CTXT_SEL_PFTCH) (ind_qid (of_nat 3)) = (\<lambda>_. 0)" by blast
  with s'(1) show ?thesis by auto
qed

end
