(* ===== verification/Soft_Csr.thy ===== *)
theory Soft_Csr
  imports Eqdma_Csr
begin

section \<open>Global configuration and queue registers of the soft QDMA (qdma\_soft\_access.c)\<close>

text \<open>
  The device attributes, the tables of global values, the writeback interval, the memory-mapped channel
  and the user BAR of the soft QDMA, and the registers by which a queue is run: producer and consumer indices of
  descriptor, completion and interrupt rings. \<open>qdma_hw_access_init\<close> leaves the global values and the queue registers
  of this file in the table of an EQDMA device as well.
\<close>

definition QDMA_OFFSET_GLBL_RNG_SZ :: u32 where [addr_defs]: "QDMA_OFFSET_GLBL_RNG_SZ = 0x204"
definition QDMA_OFFSET_GLBL_DSC_CFG :: u32 where [addr_defs]: "QDMA_OFFSET_GLBL_DSC_CFG = 0x250"
definition QDMA_OFFSET_C2H_TIMER_CNT :: u32 where [addr_defs]: "QDMA_OFFSET_C2H_TIMER_CNT = 0xA00"
definition QDMA_OFFSET_C2H_CNT_TH :: u32 where [addr_defs]: "QDMA_OFFSET_C2H_CNT_TH = 0xA40"
definition QDMA_OFFSET_C2H_BUF_SZ :: u32 where [addr_defs]: "QDMA_OFFSET_C2H_BUF_SZ = 0xAB0"
definition QDMA_OFFSET_H2C_MM_CONTROL :: u32 where [addr_defs]: "QDMA_OFFSET_H2C_MM_CONTROL = 0x1204"
definition QDMA_OFFSET_C2H_MM_CONTROL :: u32 where [addr_defs]: "QDMA_OFFSET_C2H_MM_CONTROL = 0x1004"
definition QDMA_OFFSET_GLBL2_CHANNEL_MDMA :: u32 where [addr_defs]: "QDMA_OFFSET_GLBL2_CHANNEL_MDMA = 0x118"
definition QDMA_OFFSET_GLBL2_CHANNEL_QDMA_CAP :: u32 where [addr_defs]: "QDMA_OFFSET_GLBL2_CHANNEL_QDMA_CAP = 0x120"
definition QDMA_OFFSET_GLBL2_MISC_CAP :: u32 where [addr_defs]: "QDMA_OFFSET_GLBL2_MISC_CAP = 0x134"
definition QDMA_OFFSET_GLBL2_PF_BARLITE_EXT :: u32 where [addr_defs]: "QDMA_OFFSET_GLBL2_PF_BARLITE_EXT = 0x10C"
definition QDMA_OFFSET_VF_USER_BAR_ID :: u32 where [addr_defs]: "QDMA_OFFSET_VF_USER_BAR_ID = 0x1018"
definition QDMA_OFFSET_DMAP_SEL_INT_CIDX :: u32 where [addr_defs]: "QDMA_OFFSET_DMAP_SEL_INT_CIDX = 0x18000"
definition QDMA_OFFSET_DMAP_SEL_H2C_DSC_PIDX :: u32 where [addr_defs]: "QDMA_OFFSET_DMAP_SEL_H2C_DSC_PIDX = 0x18004"
definition QDMA_OFFSET_DMAP_SEL_C2H_DSC_PIDX :: u32 where [addr_defs]: "QDMA_OFFSET_DMAP_SEL_C2H_DSC_PIDX = 0x18008"
definition QDMA_OFFSET_DMAP_SEL_CMPT_CIDX :: u32 where [addr_defs]: "QDMA_OFFSET_DMAP_SEL_CMPT_CIDX = 0x1800C"
definition QDMA_OFFSET_VF_DMAP_SEL_INT_CIDX :: u32 where [addr_defs]: "QDMA_OFFSET_VF_DMAP_SEL_INT_CIDX = 0x3000"
definition QDMA_OFFSET_VF_DMAP_SEL_H2C_DSC_PIDX :: u32 where [addr_defs]: "QDMA_OFFSET_VF_DMAP_SEL_H2C_DSC_PIDX = 0x3004"
definition QDMA_OFFSET_VF_DMAP_SEL_C2H_DSC_PIDX :: u32 where [addr_defs]: "QDMA_OFFSET_VF_DMAP_SEL_C2H_DSC_PIDX = 0x3008"
definition QDMA_OFFSET_VF_DMAP_SEL_CMPT_CIDX :: u32 where [addr_defs]: "QDMA_OFFSET_VF_DMAP_SEL_CMPT_CIDX = 0x300C"

definition QDMA_GLBL_DSC_CFG_WB_ACC_INT_MASK :: u32 where [mask_defs]: "QDMA_GLBL_DSC_CFG_WB_ACC_INT_MASK = GENMASK 2 0"
definition QDMA_GLBL2_MULTQ_MAX_MASK :: u32 where [mask_defs]: "QDMA_GLBL2_MULTQ_MAX_MASK = GENMASK 11 0"
definition QDMA_GLBL2_ST_C2H_MASK :: u32 where [mask_defs]: "QDMA_GLBL2_ST_C2H_MASK = BIT 17"
definition QDMA_GLBL2_ST_H2C_MASK :: u32 where [mask_defs]: "QDMA_GLBL2_ST_H2C_MASK = BIT 16"
definition QDMA_GLBL2_MM_C2H_MASK :: u32 where [mask_defs]: "QDMA_GLBL2_MM_C2H_MASK = BIT 8"
definition QDMA_GLBL2_MM_H2C_MASK :: u32 where [mask_defs]: "QDMA_GLBL2_MM_H2C_MASK = BIT 0"
definition QDMA_GLBL2_MM_CMPT_EN_MASK :: u32 where [mask_defs]: "QDMA_GLBL2_MM_CMPT_EN_MASK = BIT 2"
definition QDMA_GLBL2_FLR_PRESENT_MASK :: u32 where [mask_defs]: "QDMA_GLBL2_FLR_PRESENT_MASK = BIT 1"
definition QDMA_GLBL2_MAILBOX_EN_MASK :: u32 where [mask_defs]: "QDMA_GLBL2_MAILBOX_EN_MASK = BIT 0"
definition QDMA_DMA_SEL_INT_SW_CIDX_MASK :: u32 where [mask_defs]: "QDMA_DMA_SEL_INT_SW_CIDX_MASK = GENMASK 15 0"
definition QDMA_DMA_SEL_INT_RING_IDX_MASK :: u32 where [mask_defs]: "QDMA_DMA_SEL_INT_RING_IDX_MASK = GENMASK 23 16"
definition QDMA_DMA_SEL_DESC_PIDX_MASK :: u32 where [mask_defs]: "QDMA_DMA_SEL_DESC_PIDX_MASK = GENMASK 15 0"
definition QDMA_DMA_SEL_IRQ_EN_MASK :: u32 where [mask_defs]: "QDMA_DMA_SEL_IRQ_EN_MASK = BIT 16"
definition QDMA_DMAP_SEL_CMPT_IRQ_EN_MASK :: u32 where [mask_defs]: "QDMA_DMAP_SEL_CMPT_IRQ_EN_MASK = BIT 28"
definition QDMA_DMAP_SEL_CMPT_STS_DESC_EN_MASK :: u32 where [mask_defs]: "QDMA_DMAP_SEL_CMPT_STS_DESC_EN_MASK = BIT 27"
definition QDMA_DMAP_SEL_CMPT_TRG_MODE_MASK :: u32 where [mask_defs]: "QDMA_DMAP_SEL_CMPT_TRG_MODE_MASK = GENMASK 26 24"
definition QDMA_DMAP_SEL_CMPT_TMR_CNT_MASK :: u32 where [mask_defs]: "QDMA_DMAP_SEL_CMPT_TMR_CNT_MASK = GENMASK 23 20"
definition QDMA_DMAP_SEL_CMPT_CNT_THRESH_MASK :: u32 where [mask_defs]: "QDMA_DMAP_SEL_CMPT_CNT_THRESH_MASK = GENMASK 19 16"
definition QDMA_DMAP_SEL_CMPT_WRB_CIDX_MASK :: u32 where [mask_defs]: "QDMA_DMAP_SEL_CMPT_WRB_CIDX_MASK = GENMASK 15 0"

definition QDMA_PIDX_STEP :: u32 where "QDMA_PIDX_STEP = 0x10"
definition QDMA_CMPT_CIDX_STEP :: u32 where "QDMA_CMPT_CIDX_STEP = 0x10"
definition QDMA_INT_CIDX_STEP :: u32 where "QDMA_INT_CIDX_STEP = 0x10"

subsection \<open>Device attributes\<close>

definition soft_device_attributes :: "'s mmio \<Rightarrow> 's \<Rightarrow> qdma_dev_attributes \<times> 's" where
  "soft_device_attributes mm s =
     (let (v1, s1) = qdma_reg_read mm QDMA_OFFSET_GLBL2_PF_BARLITE_INT s;
          (v2, s2) = qdma_reg_read mm QDMA_OFFSET_GLBL2_CHANNEL_QDMA_CAP s1;
          (v3, s3) = qdma_reg_read mm QDMA_OFFSET_GLBL2_MISC_CAP s2;
          (v4, s4) = qdma_reg_read mm QDMA_OFFSET_GLBL2_CHANNEL_MDMA s3
      in (\<lparr>da_num_pfs = of_nat (bar_maps v1),
           da_num_qs = ucast (FIELD_GET QDMA_GLBL2_MULTQ_MAX_MASK v2),
           da_flr_present = ucast (FIELD_GET QDMA_GLBL2_FLR_PRESENT_MASK v3),
           da_st_en = (if FIELD_GET QDMA_GLBL2_ST_C2H_MASK v4 \<noteq> 0 \<and> FIELD_GET QDMA_GLBL2_ST_H2C_MASK v4 \<noteq> 0
                       then 1 else 0),
           da_mm_en = (if FIELD_GET QDMA_GLBL2_MM_C2H_MASK v4 \<noteq> 0 \<and> FIELD_GET QDMA_GLBL2_MM_H2C_MASK v4 \<noteq> 0
                       then 1 else 0),
           da_mm_cmpt_en = ucast (FIELD_GET QDMA_GLBL2_MM_CMPT_EN_MASK v3),
           da_mailbox_en = ucast (FIELD_GET QDMA_GLBL2_MAILBOX_EN_MASK v3),
           da_debug_mode = 0, da_desc_eng_mode = 0,
           da_mm_channel_max = 1, da_qid2vec_ctx = 0, da_cmpt_ovf_chk_dis = 1, da_mailbox_intr = 1,
           da_sw_desc_64b = 1, da_cmpt_desc_64b = 1, da_dynamic_bar = 1, da_legacy_intr = 1,
           da_cmpt_trig_count_timer = 1\<rparr>, s4))"

definition qdma_get_device_attributes :: "'s mmio \<Rightarrow> bool \<Rightarrow> qdma_dev_attributes option \<Rightarrow> 's \<Rightarrow>
    int \<times> qdma_dev_attributes option \<times> 's" where
  "qdma_get_device_attributes mm dev_hndl dev_info s =
     (if \<not> dev_hndl \<or> dev_info = None then (neg_err QDMA_ERR_INV_PARAM, dev_info, s)
      else (let (a, s') = soft_device_attributes mm s in (err_code QDMA_SUCCESS, Some a, s')))"

subsection \<open>The tables of global values\<close>

definition qdma_write_global_ring_sizes :: "'s mmio \<Rightarrow> bool \<Rightarrow> u8 \<Rightarrow> u8 \<Rightarrow> u32 list option \<Rightarrow> 's \<Rightarrow> int \<times> 's" where
  "qdma_write_global_ring_sizes mm dev_hndl index count vals s =
     (case vals of
        None \<Rightarrow> (neg_err QDMA_ERR_INV_PARAM, s)
      | Some vs \<Rightarrow>
          if \<not> dev_hndl \<or> count = 0 then (neg_err QDMA_ERR_INV_PARAM, s)
          else if QDMA_NUM_RING_SIZES < unat index + unat count then (neg_err QDMA_ERR_INV_PARAM, s)
          else (err_code QDMA_SUCCESS, qdma_write_csr_values mm QDMA_OFFSET_GLBL_RNG_SZ (ucast index) (ucast count) vs s))"

definition qdma_read_global_ring_sizes :: "'s mmio \<Rightarrow> bool \<Rightarrow> u8 \<Rightarrow> u8 \<Rightarrow> u32 list option \<Rightarrow> 's \<Rightarrow> int \<times> u32 list option \<times> 's" where
  "qdma_read_global_ring_sizes mm dev_hndl index count vals s =
     (case vals of
        None \<Rightarrow> (neg_err QDMA_ERR_INV_PARAM, vals, s)
      | Some vs \<Rightarrow>
          if \<not> dev_hndl \<or> count = 0 then (neg_err QDMA_ERR_INV_PARAM, vals, s)
          else if QDMA_NUM_RING_SIZES < unat index + unat count then (neg_err QDMA_ERR_INV_PARAM, vals, s)
          else (let (new, s2) = qdma_read_csr_values mm QDMA_OFFSET_GLBL_RNG_SZ (ucast index) (ucast count) s
                    in (err_code QDMA_SUCCESS, Some (filled new vs), s2)))"

definition qdma_write_global_timer_count :: "'s mmio \<Rightarrow> bool \<Rightarrow> u8 \<Rightarrow> u8 \<Rightarrow> u32 list option \<Rightarrow> 's \<Rightarrow> int \<times> 's" where
  "qdma_write_global_timer_count mm dev_hndl index count vals s =
     (case vals of
        None \<Rightarrow> (neg_err QDMA_ERR_INV_PARAM, s)
      | Some vs \<Rightarrow>
          if \<not> dev_hndl \<or> count = 0 then (neg_err QDMA_ERR_INV_PARAM, s)
          else if QDMA_NUM_C2H_TIMERS < unat index + unat count then (neg_err QDMA_ERR_INV_PARAM, s)
          else (let (dev_cap, s1) = soft_device_attributes mm s
                in if da_st_en dev_cap \<noteq> 0 \<or> da_mm_cmpt_en dev_cap \<noteq> 0
                   then (err_code QDMA_SUCCESS, qdma_write_csr_values mm QDMA_OFFSET_C2H_TIMER_CNT (ucast index) (ucast count) vs s1)
                   else (neg_err QDMA_ERR_HWACC_FEATURE_NOT_SUPPORTED, s1)))"

definition qdma_read_global_timer_count :: "'s mmio \<Rightarrow> bool \<Rightarrow> u8 \<Rightarrow> u8 \<Rightarrow> u32 list option \<Rightarrow> 's \<Rightarrow> int \<times> u32 list option \<times> 's" where
  "qdma_read_global_timer_count mm dev_hndl index count vals s =
     (case vals of
        None \<Rightarrow> (neg_err QDMA_ERR_INV_PARAM, vals, s)
      | Some vs \<Rightarrow>
          if \<not> dev_hndl \<or> count = 0 then (neg_err QDMA_ERR_INV_PARAM, vals, s)
          else if QDMA_NUM_C2H_TIMERS < unat index + unat count then (neg_err QDMA_ERR_INV_PARAM, vals, s)
          else (let (dev_cap, s1) = soft_device_attributes mm s
                in if da_st_en dev_cap \<noteq> 0 \<or> da_mm_cmpt_en dev_cap \<noteq> 0
                   then (let (new, s2) = qdma_read_csr_values mm QDMA_OFFSET_C2H_TIMER_CNT (ucast index) (ucast count) s1
                    in (err_code QDMA_SUCCESS, Some (filled new vs), s2))
                   else (neg_err QDMA_ERR_HWACC_FEATURE_NOT_SUPPORTED, vals, s1)))"

definition qdma_write_global_counter_threshold :: "'s mmio \<Rightarrow> bool \<Rightarrow> u8 \<Rightarrow> u8 \<Rightarrow> u32 list option \<Rightarrow> 's \<Rightarrow> int \<times> 's" where
  "qdma_write_global_counter_threshold mm dev_hndl index count vals s =
     (case vals of
        None \<Rightarrow> (neg_err QDMA_ERR_INV_PARAM, s)
      | Some vs \<Rightarrow>
          if \<not> dev_hndl \<or> count = 0 then (neg_err QDMA_ERR_INV_PARAM, s)
          else if QDMA_NUM_C2H_COUNTERS < unat index + unat count then (neg_err QDMA_ERR_INV_PARAM, s)
          else (let (dev_cap, s1) = soft_device_attributes mm s
                in if da_st_en dev_cap \<noteq> 0 \<or> da_mm_cmpt_en dev_cap \<noteq> 0
                   then (err_code QDMA_SUCCESS, qdma_write_csr_values mm QDMA_OFFSET_C2H_CNT_TH (ucast index) (ucast count) vs s1)
                   else (neg_err QDMA_ERR_HWACC_FEATURE_NOT_SUPPORTED, s1)))"

definition qdma_read_global_counter_threshold :: "'s mmio \<Rightarrow> bool \<Rightarrow> u8 \<Rightarrow> u8 \<Rightarrow> u32 list option \<Rightarrow> 's \<Rightarrow> int \<times> u32 list option \<times> 's" where
  "qdma_read_global_counter_threshold mm dev_hndl index count vals s =
     (case vals of
        None \<Rightarrow> (neg_err QDMA_ERR_INV_PARAM, vals, s)
      | Some vs \<Rightarrow>
          if \<not> dev_hndl \<or> count = 0 then (neg_err QDMA_ERR_INV_PARAM, vals, s)
          else if QDMA_NUM_C2H_COUNTERS < unat index + unat count then (neg_err QDMA_ERR_INV_PARAM, vals, s)
          else (let (dev_cap, s1) = soft_device_attributes mm s
                in if da_st_en dev_cap \<noteq> 0 \<or> da_mm_cmpt_en dev_cap \<noteq> 0
                   then (let (new, s2) = qdma_read_csr_values mm QDMA_OFFSET_C2H_CNT_TH (ucast index) (ucast count) s1
                    in (err_code QDMA_SUCCESS, Some (filled new vs), s2))
                   else (neg_err QDMA_ERR_HWACC_FEATURE_NOT_SUPPORTED, vals, s1)))"

definition qdma_write_global_buffer_sizes :: "'s mmio \<Rightarrow> bool \<Rightarrow> u8 \<Rightarrow> u8 \<Rightarrow> u32 list option \<Rightarrow> 's \<Rightarrow> int \<times> 's" where
  "qdma_write_global_buffer_sizes mm dev_hndl index count vals s =
     (case vals of
        None \<Rightarrow> (neg_err QDMA_ERR_INV_PARAM, s)
      | Some vs \<Rightarrow>
          if \<not> dev_hndl \<or> count = 0 then (neg_err QDMA_ERR_INV_PARAM, s)
          else if QDMA_NUM_C2H_BUFFER_SIZES < unat index + unat count then (neg_err QDMA_ERR_INV_PARAM, s)
          else (let (dev_cap, s1) = soft_device_attributes mm s
                in if da_st_en dev_cap \<noteq> 0
                   then (err_code QDMA_SUCCESS, qdma_write_csr_values mm QDMA_OFFSET_C2H_BUF_SZ (ucast index) (ucast count) vs s1)
                   else (neg_err QDMA_ERR_HWACC_FEATURE_NOT_SUPPORTED, s1)))"

definition qdma_read_global_buffer_sizes :: "'s mmio \<Rightarrow> bool \<Rightarrow> u8 \<Rightarrow> u8 \<Rightarrow> u32 list option \<Rightarrow> 's \<Rightarrow> int \<times> u32 list option \<times> 's" where
  "qdma_read_global_buffer_sizes mm dev_hndl index count vals s =
     (case vals of
        None \<Rightarrow> (neg_err QDMA_ERR_INV_PARAM, vals, s)
      | Some vs \<Rightarrow>
          if \<not> dev_hndl \<or> count = 0 then (neg_err QDMA_ERR_INV_PARAM, vals, s)
          else if QDMA_NUM_C2H_BUFFER_SIZES < unat index + unat count then (neg_err QDMA_ERR_INV_PARAM, vals, s)
          else (let (dev_cap, s1) = soft_device_attributes mm s
                in if da_st_en dev_cap \<noteq> 0
                   then (let (new, s2) = qdma_read_csr_values mm QDMA_OFFSET_C2H_BUF_SZ (ucast index) (ucast count) s1
                    in (err_code QDMA_SUCCESS, Some (filled new vs), s2))
                   else (neg_err QDMA_ERR_HWACC_FEATURE_NOT_SUPPORTED, vals, s1)))"

definition qdma_global_csr_conf :: "'s mmio \<Rightarrow> bool \<Rightarrow> u8 \<Rightarrow> u8 \<Rightarrow> u32 list option \<Rightarrow> qdma_global_csr_type \<Rightarrow>
    qdma_hw_access_type \<Rightarrow> 's \<Rightarrow> int \<times> u32 list option \<times> 's" where
  "qdma_global_csr_conf mm dev_hndl index count csr_val csr_type access_type s =
     (let invalid = (neg_err QDMA_ERR_INV_PARAM, csr_val, s);
          wr = (\<lambda>f. let (rv, s') = f mm dev_hndl index count csr_val s in (rv, csr_val, s'))
      in case csr_type of
           QDMA_CSR_RING_SZ \<Rightarrow>
             (case access_type of
                QDMA_HW_ACCESS_READ \<Rightarrow> qdma_read_global_ring_sizes mm dev_hndl index count csr_val s
              | QDMA_HW_ACCESS_WRITE \<Rightarrow> wr qdma_write_global_ring_sizes
              | _ \<Rightarrow> invalid)
         | QDMA_CSR_TIMER_CNT \<Rightarrow>
             (case access_type of
                QDMA_HW_ACCESS_READ \<Rightarrow> qdma_read_global_timer_count mm dev_hndl index count csr_val s
              | QDMA_HW_ACCESS_WRITE \<Rightarrow> wr qdma_write_global_timer_count
              | _ \<Rightarrow> invalid)
         | QDMA_CSR_CNT_TH \<Rightarrow>
             (case access_type of
                QDMA_HW_ACCESS_READ \<Rightarrow> qdma_read_global_counter_threshold mm dev_hndl index count csr_val s
              | QDMA_HW_ACCESS_WRITE \<Rightarrow> wr qdma_write_global_counter_threshold
              | _ \<Rightarrow> invalid)
         | QDMA_CSR_BUF_SZ \<Rightarrow>
             (case access_type of
                QDMA_HW_ACCESS_READ \<Rightarrow> qdma_read_global_buffer_sizes mm dev_hndl index count csr_val s
              | QDMA_HW_ACCESS_WRITE \<Rightarrow> wr qdma_write_global_buffer_sizes
              | _ \<Rightarrow> invalid)
         | QDMA_CSR_MAX \<Rightarrow> invalid)"

subsection \<open>The writeback interval\<close>

definition qdma_global_writeback_interval_write :: "'s mmio \<Rightarrow> bool \<Rightarrow> u32 \<Rightarrow> 's \<Rightarrow> int \<times> 's" where
  "qdma_global_writeback_interval_write mm dev_hndl wb_int s =
     (if \<not> dev_hndl then (neg_err QDMA_ERR_INV_PARAM, s)
      else if QDMA_NUM_WRB_INTERVALS \<le> wb_int then (neg_err QDMA_ERR_INV_PARAM, s)
      else (let (dev_cap, s1) = soft_device_attributes mm s
            in if da_st_en dev_cap \<noteq> 0 \<or> da_mm_cmpt_en dev_cap \<noteq> 0 then
                 (let (v, s2) = qdma_reg_read mm QDMA_OFFSET_GLBL_DSC_CFG s1;
                      reg_val = v OR FIELD_SET QDMA_GLBL_DSC_CFG_WB_ACC_INT_MASK wb_int
                  in (err_code QDMA_SUCCESS, qdma_reg_write mm QDMA_OFFSET_GLBL_DSC_CFG reg_val s2))
               else (neg_err QDMA_ERR_HWACC_FEATURE_NOT_SUPPORTED, s1)))"

definition qdma_global_writeback_interval_read :: "'s mmio \<Rightarrow> bool \<Rightarrow> u32 option \<Rightarrow> 's \<Rightarrow> int \<times> u32 option \<times> 's" where
  "qdma_global_writeback_interval_read mm dev_hndl wb_int s =
     (if \<not> dev_hndl \<or> wb_int = None then (neg_err QDMA_ERR_INV_PARAM, wb_int, s)
      else (let (dev_cap, s1) = soft_device_attributes mm s
            in if da_st_en dev_cap \<noteq> 0 \<or> da_mm_cmpt_en dev_cap \<noteq> 0 then
                 (let (v, s2) = qdma_reg_read mm QDMA_OFFSET_GLBL_DSC_CFG s1
                  in (err_code QDMA_SUCCESS, Some (FIELD_GET QDMA_GLBL_DSC_CFG_WB_ACC_INT_MASK v), s2))
               else (neg_err QDMA_ERR_HWACC_FEATURE_NOT_SUPPORTED, wb_int, s1)))"

text \<open>A write through a NULL pointer faults: \<open>None\<close> is not returning.\<close>

definition qdma_global_writeback_interval_conf :: "'s mmio \<Rightarrow> bool \<Rightarrow> u32 option \<Rightarrow> qdma_hw_access_type \<Rightarrow> 's \<Rightarrow>
    (int \<times> u32 option \<times> 's) option" where
  "qdma_global_writeback_interval_conf mm dev_hndl wb_int access_type s =
     (case access_type of
        QDMA_HW_ACCESS_READ \<Rightarrow> Some (qdma_global_writeback_interval_read mm dev_hndl wb_int s)
      | QDMA_HW_ACCESS_WRITE \<Rightarrow>
          (case wb_int of
             None \<Rightarrow> None
           | Some w \<Rightarrow> Some (let (rv, s') = qdma_global_writeback_interval_write mm dev_hndl w s in (rv, wb_int, s')))
      | _ \<Rightarrow> Some (neg_err QDMA_ERR_INV_PARAM, wb_int, s))"

subsection \<open>Other operations\<close>

definition qdma_mm_channel_conf :: "'s mmio \<Rightarrow> bool \<Rightarrow> u8 \<Rightarrow> u8 \<Rightarrow> u8 \<Rightarrow> 's \<Rightarrow> int \<times> 's" where
  "qdma_mm_channel_conf mm dev_hndl channel is_c2h enable s =
     (let reg_addr = (if is_c2h \<noteq> 0 then QDMA_OFFSET_C2H_MM_CONTROL else QDMA_OFFSET_H2C_MM_CONTROL)
      in if \<not> dev_hndl then (neg_err QDMA_ERR_INV_PARAM, s)
         else (let (dev_cap, s1) = soft_device_attributes mm s
               in (err_code QDMA_SUCCESS,
                   if da_mm_en dev_cap \<noteq> 0
                   then qdma_reg_write mm (reg_addr + ucast channel * QDMA_MM_CONTROL_STEP) (ucast enable) s1
                   else s1)))"

text \<open>
  The function number selects the bits in the register of the physical functions; a virtual function
  reads its own register. As for the EQDMA, a shift past the word shifts everything out.
\<close>

definition qdma_get_user_bar :: "'s mmio \<Rightarrow> bool \<Rightarrow> u8 \<Rightarrow> u16 \<Rightarrow> u8 option \<Rightarrow> 's \<Rightarrow> int \<times> u8 option \<times> 's" where
  "qdma_get_user_bar mm dev_hndl is_vf fid user_bar s =
     (let reg_addr = (if is_vf \<noteq> 0 then QDMA_OFFSET_VF_USER_BAR_ID else QDMA_OFFSET_GLBL2_PF_BARLITE_EXT)
      in if \<not> dev_hndl \<or> user_bar = None then (neg_err QDMA_ERR_INV_PARAM, user_bar, s)
         else (let (v, s1) = qdma_reg_read mm reg_addr s;
                   user_bar_id = (if is_vf = 0 then drop_bit (6 * unat fid) v AND 0x3F else v AND 0x3F)
               in case find (\<lambda>i. bit user_bar_id i) [0..<QDMA_BAR_NUM] of
                    Some i \<Rightarrow> (err_code QDMA_SUCCESS, Some (of_nat i), s1)
                  | None \<Rightarrow> (neg_err QDMA_ERR_HWACC_BAR_NOT_FOUND, Some 0, s1)))"

subsection \<open>Queue registers\<close>

record qdma_q_pidx_reg_info =
  pi_pidx :: u16
  pi_irq_en :: u8

record qdma_intr_cidx_reg_info =
  ic_sw_cidx :: u16
  ic_rng_idx :: u8

record qdma_q_cmpt_cidx_reg_info =
  cc_wrb_cidx :: u16
  cc_counter_idx :: u8
  cc_timer_idx :: u8
  cc_trig_mode :: u8
  cc_wrb_en :: u8
  cc_irq_en :: u8

definition qdma_queue_pidx_update :: "'s mmio \<Rightarrow> bool \<Rightarrow> u8 \<Rightarrow> u16 \<Rightarrow> u8 \<Rightarrow> qdma_q_pidx_reg_info option \<Rightarrow> 's \<Rightarrow> int \<times> 's" where
  "qdma_queue_pidx_update mm dev_hndl is_vf qid is_c2h reg_info s =
     (if \<not> dev_hndl then (neg_err QDMA_ERR_INV_PARAM, s)
      else case reg_info of
        None \<Rightarrow> (neg_err QDMA_ERR_INV_PARAM, s)
      | Some r \<Rightarrow>
          (let reg_addr = (if is_vf = 0
                 then if is_c2h \<noteq> 0 then QDMA_OFFSET_DMAP_SEL_C2H_DSC_PIDX else QDMA_OFFSET_DMAP_SEL_H2C_DSC_PIDX
                 else if is_c2h \<noteq> 0 then QDMA_OFFSET_VF_DMAP_SEL_C2H_DSC_PIDX
                      else QDMA_OFFSET_VF_DMAP_SEL_H2C_DSC_PIDX);
               reg_val = FIELD_SET QDMA_DMA_SEL_DESC_PIDX_MASK (ucast (pi_pidx r)) OR
                 FIELD_SET QDMA_DMA_SEL_IRQ_EN_MASK (ucast (pi_irq_en r))
           in (err_code QDMA_SUCCESS, qdma_reg_write mm (reg_addr + ucast qid * QDMA_PIDX_STEP) reg_val s)))"

definition qdma_queue_cmpt_cidx_update :: "'s mmio \<Rightarrow> bool \<Rightarrow> u8 \<Rightarrow> u16 \<Rightarrow> qdma_q_cmpt_cidx_reg_info option \<Rightarrow> 's \<Rightarrow> int \<times> 's" where
  "qdma_queue_cmpt_cidx_update mm dev_hndl is_vf qid reg_info s =
     (let reg_addr = (if is_vf \<noteq> 0 then QDMA_OFFSET_VF_DMAP_SEL_CMPT_CIDX else QDMA_OFFSET_DMAP_SEL_CMPT_CIDX)
      in if \<not> dev_hndl then (neg_err QDMA_ERR_INV_PARAM, s)
         else case reg_info of
           None \<Rightarrow> (neg_err QDMA_ERR_INV_PARAM, s)
         | Some r \<Rightarrow>
             (let reg_val = FIELD_SET QDMA_DMAP_SEL_CMPT_WRB_CIDX_MASK (ucast (cc_wrb_cidx r)) OR
                    FIELD_SET QDMA_DMAP_SEL_CMPT_CNT_THRESH_MASK (ucast (cc_counter_idx r)) OR
                    FIELD_SET QDMA_DMAP_SEL_CMPT_TMR_CNT_MASK (ucast (cc_timer_idx r)) OR
                    FIELD_SET QDMA_DMAP_SEL_CMPT_TRG_MODE_MASK (ucast (cc_trig_mode r)) OR
                    FIELD_SET QDMA_DMAP_SEL_CMPT_STS_DESC_EN_MASK (ucast (cc_wrb_en r)) OR
                    FIELD_SET QDMA_DMAP_SEL_CMPT_IRQ_EN_MASK (ucast (cc_irq_en r))
              in (err_code QDMA_SUCCESS, qdma_reg_write mm (reg_addr + ucast qid * QDMA_CMPT_CIDX_STEP) reg_val s)))"

definition qdma_queue_intr_cidx_update :: "'s mmio \<Rightarrow> bool \<Rightarrow> u8 \<Rightarrow> u16 \<Rightarrow> qdma_intr_cidx_reg_info option \<Rightarrow> 's \<Rightarrow> int \<times> 's" where
  "qdma_queue_intr_cidx_update mm dev_hndl is_vf qid reg_info s =
     (let reg_addr = (if is_vf \<noteq> 0 then QDMA_OFFSET_VF_DMAP_SEL_INT_CIDX else QDMA_OFFSET_DMAP_SEL_INT_CIDX)
      in if \<not> dev_hndl then (neg_err QDMA_ERR_INV_PARAM, s)
         else case reg_info of
           None \<Rightarrow> (neg_err QDMA_ERR_INV_PARAM, s)
         | Some r \<Rightarrow>
             (let reg_val = FIELD_SET QDMA_DMA_SEL_INT_SW_CIDX_MASK (ucast (ic_sw_cidx r)) OR
                    FIELD_SET QDMA_DMA_SEL_INT_RING_IDX_MASK (ucast (ic_rng_idx r))
              in (err_code QDMA_SUCCESS, qdma_reg_write mm (reg_addr + ucast qid * QDMA_INT_CIDX_STEP) reg_val s)))"

text \<open>The read is in \<open>qdma_access_common.c\<close>.\<close>

definition qdma_queue_cmpt_cidx_read :: "'s mmio \<Rightarrow> bool \<Rightarrow> u8 \<Rightarrow> u16 \<Rightarrow> qdma_q_cmpt_cidx_reg_info option \<Rightarrow> 's \<Rightarrow>
    int \<times> qdma_q_cmpt_cidx_reg_info option \<times> 's" where
  "qdma_queue_cmpt_cidx_read mm dev_hndl is_vf qid reg_info s =
     (let reg_addr = (if is_vf \<noteq> 0 then QDMA_OFFSET_VF_DMAP_SEL_CMPT_CIDX else QDMA_OFFSET_DMAP_SEL_CMPT_CIDX)
      in if \<not> dev_hndl \<or> reg_info = None then (neg_err QDMA_ERR_INV_PARAM, reg_info, s)
         else (let (reg_val, s') = qdma_reg_read mm (reg_addr + ucast qid * QDMA_CMPT_CIDX_STEP) s
               in (err_code QDMA_SUCCESS,
                   Some \<lparr>cc_wrb_cidx = ucast (FIELD_GET QDMA_DMAP_SEL_CMPT_WRB_CIDX_MASK reg_val),
                         cc_counter_idx = ucast (FIELD_GET QDMA_DMAP_SEL_CMPT_CNT_THRESH_MASK reg_val),
                         cc_timer_idx = ucast (FIELD_GET QDMA_DMAP_SEL_CMPT_TMR_CNT_MASK reg_val),
                         cc_trig_mode = ucast (FIELD_GET QDMA_DMAP_SEL_CMPT_TRG_MODE_MASK reg_val),
                         cc_wrb_en = ucast (FIELD_GET QDMA_DMAP_SEL_CMPT_STS_DESC_EN_MASK reg_val),
                         cc_irq_en = ucast (FIELD_GET QDMA_DMAP_SEL_CMPT_IRQ_EN_MASK reg_val)\<rparr>, s')))"


subsection \<open>The two copies of the global configuration\<close>

lemmas soft_csr_ops = qdma_write_global_ring_sizes_def qdma_read_global_ring_sizes_def
  qdma_write_global_timer_count_def qdma_read_global_timer_count_def
  qdma_write_global_counter_threshold_def qdma_read_global_counter_threshold_def
  qdma_write_global_buffer_sizes_def qdma_read_global_buffer_sizes_def

lemmas same_addrs = QDMA_OFFSET_GLBL_RNG_SZ_def QDMA_OFFSET_C2H_TIMER_CNT_def QDMA_OFFSET_C2H_CNT_TH_def
  QDMA_OFFSET_C2H_BUF_SZ_def QDMA_OFFSET_GLBL_DSC_CFG_def
  QDMA_OFFSET_GLBL2_CHANNEL_QDMA_CAP_def QDMA_OFFSET_GLBL2_MISC_CAP_def QDMA_OFFSET_GLBL2_CHANNEL_MDMA_def
  EQDMA_GLBL_RNG_SZ_1_ADDR_def EQDMA_C2H_TIMER_CNT_ADDR_def EQDMA_C2H_CNT_TH_ADDR_def
  EQDMA_C2H_BUF_SZ_ADDR_def EQDMA_GLBL_DSC_CFG_ADDR_def
  EQDMA_GLBL2_CHANNEL_CAP_ADDR_def EQDMA_GLBL2_MISC_CAP_ADDR_def EQDMA_GLBL2_CHANNEL_MDMA_ADDR_def

lemma soft_attributes_agree:
  "snd (soft_device_attributes mm s) = snd (device_attributes mm s)"
  "da_st_en (fst (soft_device_attributes mm s)) = da_st_en (fst (device_attributes mm s))"
  "da_num_qs (fst (soft_device_attributes mm s)) = da_num_qs (fst (device_attributes mm s))"
  "da_num_pfs (fst (soft_device_attributes mm s)) = da_num_pfs (fst (device_attributes mm s))"
  "da_mm_cmpt_en (fst (device_attributes mm s)) = 0"
  by (simp_all add: soft_device_attributes_def device_attributes_def same_addrs case_prod_beta Let_def
    QDMA_GLBL2_ST_C2H_MASK_def QDMA_GLBL2_ST_H2C_MASK_def GLBL2_CHANNEL_MDMA_C2H_ST_MASK_def
    GLBL2_CHANNEL_MDMA_H2C_ST_MASK_def QDMA_GLBL2_MULTQ_MAX_MASK_def GLBL2_CHANNEL_CAP_MULTIQ_MAX_MASK_def)

text \<open>
  The soft QDMA and the EQDMA have their own copies of the table accesses. On a device without a
  memory-mapped completion engine they do the same, for every argument, access and state.
\<close>

theorem csr_conf_copies_agree:
  assumes "da_mm_cmpt_en (fst (soft_device_attributes mm s)) = 0"
  shows "qdma_global_csr_conf mm dev_hndl index count csr_val csr_type access_type s =
    eqdma_global_csr_conf mm dev_hndl index count csr_val csr_type access_type s"
  using assms
  by (cases csr_type; cases access_type; cases csr_val)
    (simp_all add: qdma_global_csr_conf_def eqdma_global_csr_conf_def soft_csr_ops csr_ops same_addrs
      case_prod_beta Let_def soft_attributes_agree)

theorem csr_conf_copies_agree_witness:
  "qdma_global_csr_conf ram True 0 16 (Some (replicate 16 0)) QDMA_CSR_CNT_TH QDMA_HW_ACCESS_READ (\<lambda>_. 0x30003) =
     eqdma_global_csr_conf ram True 0 16 (Some (replicate 16 0)) QDMA_CSR_CNT_TH QDMA_HW_ACCESS_READ (\<lambda>_. 0x30003)"
proof -
  have "da_mm_cmpt_en (fst (soft_device_attributes ram (\<lambda>_. 0x30003))) = 0" by code_simp
  then show ?thesis by (rule csr_conf_copies_agree)
qed

text \<open>
  The copies of the user BAR lookup differ: that of the EQDMA shifts the register of a virtual function by its
  function number too, so it misses the BAR of every virtual function but number 0.
\<close>

lemma eqdma_vf_user_bar_shifted:
  "qdma_get_user_bar ram True 1 4 (Some 0) (\<lambda>_. 4) = (0, Some 2, \<lambda>_. 4)"
  "eqdma_get_user_bar ram True 1 0 (Some 0) (\<lambda>_. 4) = (0, Some 2, \<lambda>_. 4)"
  "eqdma_get_user_bar ram True 1 4 (Some 0) (\<lambda>_. 4) = (- 6, Some 0, \<lambda>_. 4)"
  by (simp_all add: qdma_get_user_bar_def eqdma_get_user_bar_def ram_def QDMA_BAR_NUM_def upt_rec bit_simps)

subsection \<open>The registers of the queues\<close>

datatype queue_update =
    Pidx_Update u16 u8 qdma_q_pidx_reg_info | Cmpt_Update u16 qdma_q_cmpt_cidx_reg_info
  | Intr_Update u16 qdma_intr_cidx_reg_info

fun queue_update_exec :: "'s mmio \<Rightarrow> u8 \<Rightarrow> queue_update \<Rightarrow> 's \<Rightarrow> 's" where
  "queue_update_exec mm is_vf (Pidx_Update q c2h r) s = snd (qdma_queue_pidx_update mm True is_vf q c2h (Some r) s)"
| "queue_update_exec mm is_vf (Cmpt_Update q r) s = snd (qdma_queue_cmpt_cidx_update mm True is_vf q (Some r) s)"
| "queue_update_exec mm is_vf (Intr_Update q r) s = snd (qdma_queue_intr_cidx_update mm True is_vf q (Some r) s)"

fun update_queue :: "queue_update \<Rightarrow> nat \<times> u16" where
  "update_queue (Pidx_Update q c2h _) = (if c2h \<noteq> 0 then 8 else 4, q)"
| "update_queue (Cmpt_Update q _) = (12, q)"
| "update_queue (Intr_Update q _) = (0, q)"

definition queue_reg :: "u8 \<Rightarrow> nat \<times> u16 \<Rightarrow> u32" where
  "queue_reg is_vf kq = (if is_vf \<noteq> 0 then 0x3000 else 0x18000) + of_nat (fst kq) + ucast (snd kq) * 0x10"

definition queue_regs :: "u8 \<Rightarrow> u32 set" where
  "queue_regs is_vf = queue_reg is_vf ` ({0, 4, 8, 12} \<times> UNIV)"

lemma unat_queue_reg:
  assumes "k < 16"
  shows "unat (queue_reg is_vf (k, q)) = (if is_vf \<noteq> 0 then 0x3000 else 0x18000) + k + 16 * unat q"
proof -
  have q: "unat (ucast q :: u32) = unat q" "unat q < 65536"
    using unsigned_less [of q, where ?'a = nat] by (simp_all add: unsigned_ucast_eq take_bit_nat_eq_self)
  have k: "unat (of_nat k :: u32) = k" using assms by (simp add: unsigned_of_nat take_bit_nat_eq_self)
  show ?thesis using assms q
    by (auto simp: queue_reg_def unat_word_ariths k)
qed

lemma queue_reg_inj: "k < 16 \<Longrightarrow> k' < 16 \<Longrightarrow> queue_reg is_vf (k, q) = queue_reg is_vf (k', q') \<longleftrightarrow> k = k' \<and> q = q'"
proof
  assume k: "k < 16" "k' < 16" and "queue_reg is_vf (k, q) = queue_reg is_vf (k', q')"
  then have "k + 16 * unat q = k' + 16 * unat q'"
    using unat_queue_reg [of k is_vf q] unat_queue_reg [of k' is_vf q'] by (auto split: if_splits)
  then have "k = k'" "unat q = unat q'" using k by presburger+
  then show "k = k' \<and> q = q'" by (simp add: unsigned_word_eqI)
qed simp

lemmas queue_ops = qdma_queue_pidx_update_def qdma_queue_cmpt_cidx_update_def qdma_queue_intr_cidx_update_def

lemmas queue_offsets = QDMA_OFFSET_DMAP_SEL_INT_CIDX_def QDMA_OFFSET_DMAP_SEL_H2C_DSC_PIDX_def
  QDMA_OFFSET_DMAP_SEL_C2H_DSC_PIDX_def QDMA_OFFSET_DMAP_SEL_CMPT_CIDX_def QDMA_OFFSET_VF_DMAP_SEL_INT_CIDX_def
  QDMA_OFFSET_VF_DMAP_SEL_H2C_DSC_PIDX_def QDMA_OFFSET_VF_DMAP_SEL_C2H_DSC_PIDX_def
  QDMA_OFFSET_VF_DMAP_SEL_CMPT_CIDX_def QDMA_PIDX_STEP_def QDMA_CMPT_CIDX_STEP_def QDMA_INT_CIDX_STEP_def

lemma queue_update_exec_write:
  "\<exists>v. queue_update_exec mm is_vf u s = qdma_reg_write mm (queue_reg is_vf (update_queue u)) v s"
  by (cases u) (auto simp: queue_ops queue_offsets queue_reg_def Let_def)

lemma update_queue_regs: "queue_reg is_vf (update_queue u) \<in> queue_regs is_vf" "fst (update_queue u) < 16"
  by (cases u; auto simp: queue_regs_def)+

lemma queue_updates_other:
  assumes "plain_registers mm val (queue_regs is_vf)" and "k < 16" and "\<forall>u \<in> set us. update_queue u \<noteq> (k, q)"
  shows "val (fold (queue_update_exec mm is_vf) us s) (queue_reg is_vf (k, q)) = val s (queue_reg is_vf (k, q))"
  using assms(3)
proof (induction us arbitrary: s)
  case (Cons u us)
  obtain v where "queue_update_exec mm is_vf u s = qdma_reg_write mm (queue_reg is_vf (update_queue u)) v s"
    using queue_update_exec_write [of mm is_vf u s] by blast
  moreover have "queue_reg is_vf (update_queue u) \<noteq> queue_reg is_vf (k, q)"
    using queue_reg_inj [OF update_queue_regs(2) assms(2), of is_vf u "snd (update_queue u)" q] Cons.prems
    by (auto simp: prod_eq_iff)
  ultimately have "val (queue_update_exec mm is_vf u s) (queue_reg is_vf (k, q)) = val s (queue_reg is_vf (k, q))"
    using assms(1) update_queue_regs(1) [of is_vf u] by (auto simp: plain_registers_def)
  with Cons show ?case by simp
qed simp

definition cmpt_cidx_fits :: "qdma_q_cmpt_cidx_reg_info \<Rightarrow> bool" where
  "cmpt_cidx_fits r \<longleftrightarrow> fits 4 (cc_counter_idx r) \<and> fits 4 (cc_timer_idx r) \<and> fits 3 (cc_trig_mode r) \<and>
     fits 1 (cc_wrb_en r) \<and> fits 1 (cc_irq_en r)"

text \<open>
  What a completion consumer index update writes for a queue is what a read of that queue returns, as long as
  the fields fit, whatever updates of other queues and of the queue's other rings come in between.
\<close>

theorem cmpt_cidx_update_read:
  assumes "plain_registers mm val (queue_regs is_vf)" and "cmpt_cidx_fits r"
    and "\<forall>u \<in> set us. update_queue u \<noteq> (12, qid)"
    and "qdma_queue_cmpt_cidx_update mm True is_vf qid (Some r) s = (rv, s1)"
    and "s2 = fold (queue_update_exec mm is_vf) us s1"
  shows "rv = 0 \<and> qdma_queue_cmpt_cidx_read mm True is_vf qid (Some old) s2 = (0, Some r, s2)"
proof -
  let ?a = "queue_reg is_vf (12, qid)"
  let ?v = "FIELD_SET QDMA_DMAP_SEL_CMPT_WRB_CIDX_MASK (ucast (cc_wrb_cidx r)) OR
    FIELD_SET QDMA_DMAP_SEL_CMPT_CNT_THRESH_MASK (ucast (cc_counter_idx r)) OR
    FIELD_SET QDMA_DMAP_SEL_CMPT_TMR_CNT_MASK (ucast (cc_timer_idx r)) OR
    FIELD_SET QDMA_DMAP_SEL_CMPT_TRG_MODE_MASK (ucast (cc_trig_mode r)) OR
    FIELD_SET QDMA_DMAP_SEL_CMPT_STS_DESC_EN_MASK (ucast (cc_wrb_en r)) OR
    FIELD_SET QDMA_DMAP_SEL_CMPT_IRQ_EN_MASK (ucast (cc_irq_en r))"
  have A: "?a \<in> queue_regs is_vf" by (auto simp: queue_regs_def)
  have a: "(if is_vf \<noteq> 0 then QDMA_OFFSET_VF_DMAP_SEL_CMPT_CIDX else QDMA_OFFSET_DMAP_SEL_CMPT_CIDX) +
      ucast qid * QDMA_CMPT_CIDX_STEP = ?a"
    by (simp add: queue_reg_def queue_offsets)
  have w: "rv = 0" "s1 = qdma_reg_write mm ?a ?v s"
    using assms(4) a by (auto simp: qdma_queue_cmpt_cidx_update_def Let_def)
  then have "val s1 ?a = ?v" using assms(1) A by (auto simp: plain_registers_def)
  then have v: "val s2 ?a = ?v"
    using queue_updates_other [OF assms(1) _ assms(3), of s1] assms(5) by simp
  have rd: "qdma_reg_read mm ?a s2 = (?v, s2)" using assms(1) A v by (auto simp: plain_registers_def)
  show ?thesis
    using w(1) assms(2) take_bit_length_eq [of "cc_wrb_cidx r"] unfolding qdma_queue_cmpt_cidx_read_def Let_def a rd
    by (simp add: mask_defs field_rules cmpt_cidx_fits_def ucast_take_ucast take_bit_fits ucast_mod_2 fits_mod_2)
qed

theorem cmpt_cidx_update_read_witness:
  "let r = \<lparr>cc_wrb_cidx = 0x1234, cc_counter_idx = 5, cc_timer_idx = 3, cc_trig_mode = 1, cc_wrb_en = 1, cc_irq_en = 1\<rparr>;
       s1 = snd (qdma_queue_cmpt_cidx_update ram True 1 9 (Some r) (\<lambda>_. 0));
       s2 = snd (qdma_queue_pidx_update ram True 1 9 1 (Some \<lparr>pi_pidx = 7, pi_irq_en = 1\<rparr>) s1)
   in qdma_queue_cmpt_cidx_read ram True 1 9 (Some r) s2 = (0, Some r, s2)"
proof -
  let ?r = "\<lparr>cc_wrb_cidx = 0x1234, cc_counter_idx = 5, cc_timer_idx = 3, cc_trig_mode = 1, cc_wrb_en = 1, cc_irq_en = 1\<rparr>"
  obtain rv s1 where c: "qdma_queue_cmpt_cidx_update ram True 1 9 (Some ?r) (\<lambda>_. 0) = (rv, s1)" by fastforce
  have "cmpt_cidx_fits ?r" by (simp add: cmpt_cidx_fits_def fits_def)
  from cmpt_cidx_update_read [OF ram_plain this _ c refl, of "[Pidx_Update 9 1 \<lparr>pi_pidx = 7, pi_irq_en = 1\<rparr>]" ?r] c
  show ?thesis by simp
qed

end
