(* ===== verification/Memory.thy ===== *)
theory Memory
  imports Prelude
begin

section \<open>Bytes in memory\<close>

text \<open>
  A buffer as the C code sees it through its pointers and unions: bytes from its first address on.
  The function is total, so an access past the end of a buffer is an access to the bytes that follow
  it. Words are stored little endian, as on the hosts the driver is built for. \<open>load\<close> and \<open>store\<close> work
  for every word type; the layout of a struct is the list of its offsets.
\<close>

unbundle bit_operations_syntax

type_synonym mem = "nat \<Rightarrow> u8"

definition load :: "nat \<Rightarrow> mem \<Rightarrow> 'a::len word" where
  "load a m = foldr (\<lambda>i w. push_bit 8 w OR ucast (m (a + i))) [0..<LENGTH('a) div 8] 0"

definition store :: "nat \<Rightarrow> 'a::len word \<Rightarrow> mem \<Rightarrow> mem" where
  "store a v m = (\<lambda>x. if a \<le> x \<and> x < a + LENGTH('a) div 8 then ucast (drop_bit (8 * (x - a)) v) else m x)"

lemma bit_load_fold:
  fixes m :: mem
  shows "bit (foldr (\<lambda>i w. push_bit 8 w OR ucast (m (a + i))) [j..<j + k] (0 :: 'a::len word)) n
     \<longleftrightarrow> n < LENGTH('a) \<and> n < 8 * k \<and> bit (m (a + j + n div 8)) (n mod 8)"
proof (induction k arbitrary: j n)
  case 0
  then show ?case by simp
next
  case (Suc k)
  have e: "[j..<j + Suc k] = j # [Suc j..<Suc j + k]" by (simp add: upt_conv_Cons)
  show ?case
  proof (cases "n < 8")
    case True
    then show ?thesis unfolding e by (auto simp: bit_simps)
  next
    case False
    then obtain d where d: "n = d + 8" using le_Suc_ex by (metis add.commute not_less)
    have "\<not> bit (m (a + j)) (d + 8)" using bit_imp_le_length [of "m (a + j)" "d + 8"] by auto
    moreover have "(d + 8) div 8 = Suc (d div 8)" "(d + 8) mod 8 = d mod 8" by simp_all
    ultimately show ?thesis
      unfolding e d using Suc.IH [of "Suc j" d] by (auto simp del: upt_Suc simp: bit_simps)
  qed
qed

lemma bit_load:
  "bit (load a m :: 'a::len word) n \<longleftrightarrow> n < LENGTH('a) \<and> n < 8 * (LENGTH('a) div 8) \<and> bit (m (a + n div 8)) (n mod 8)"
  unfolding load_def using bit_load_fold [of m a 0 "LENGTH('a) div 8" n] by simp

lemma load_cong:
  assumes "\<And>x. a \<le> x \<Longrightarrow> x < a + LENGTH('a) div 8 \<Longrightarrow> m x = m' (x + b - a)"
  shows "(load a m :: 'a::len word) = load b m'"
proof (rule bit_word_eqI)
  fix n assume "n < LENGTH('a)"
  show "bit (load a m :: 'a word) n = bit (load b m' :: 'a word) n"
  proof (cases "n < 8 * (LENGTH('a) div 8)")
    case True
    then have "n div 8 < LENGTH('a) div 8" by (simp add: less_mult_imp_div_less mult.commute)
    then show ?thesis using assms [of "a + n div 8"] by (simp add: bit_load add.commute)
  next
    case False
    then show ?thesis by (simp add: bit_load)
  qed
qed

lemma load_store [simp]:
  fixes v :: "'a::len word"
  assumes "8 * (LENGTH('a) div 8) = LENGTH('a)"
  shows "load a (store a v m) = v"
proof (rule bit_word_eqI)
  fix n assume n: "n < LENGTH('a)"
  have "n div 8 < LENGTH('a) div 8"
    using n assms by (metis div_less_iff_less_mult mult.commute zero_less_numeral)
  then show "bit (load a (store a v m) :: 'a word) n = bit v n"
    using n assms by (simp add: bit_load store_def bit_simps)
qed

lemma load_store_other [simp]:
  fixes v :: "'b::len word"
  assumes "a + LENGTH('a) div 8 \<le> b \<or> b + LENGTH('b) div 8 \<le> a"
  shows "(load a (store b v m) :: 'a::len word) = load a m"
  using assms by (intro load_cong) (auto simp: store_def)

lemma store_outside [simp]:
  fixes v :: "'b::len word"
  assumes "x < b \<or> b + LENGTH('b) div 8 \<le> x"
  shows "store b v m x = m x"
  using assms by (auto simp: store_def)

subsection \<open>Bit-fields\<close>

definition bits :: "nat \<Rightarrow> nat \<Rightarrow> 'a::len word \<Rightarrow> 'a word" where
  "bits lo n w = take_bit n (drop_bit lo w)"

definition set_bits_at :: "nat \<Rightarrow> nat \<Rightarrow> 'a::len word \<Rightarrow> 'a word \<Rightarrow> 'a word" where
  "set_bits_at lo n v w = (w AND NOT (push_bit lo (mask n))) OR push_bit lo (take_bit n v)"

lemma bits_set_bits_at [simp]:
  assumes "lo + n \<le> LENGTH('a)"
  shows "bits lo n (set_bits_at lo n v w :: 'a::len word) = take_bit n v"
  using assms by (intro bit_word_eqI) (auto simp: bits_def set_bits_at_def bit_simps)

lemma bits_set_bits_at_other [simp]:
  assumes "lo + n \<le> lo' \<or> lo' + n' \<le> lo"
  shows "bits lo n (set_bits_at lo' n' v w :: 'a::len word) = bits lo n w"
  using assms by (intro bit_word_eqI) (auto simp: bits_def set_bits_at_def bit_simps dest: bit_imp_le_length)

subsection \<open>Copying\<close>

text \<open>The byte loops of \<open>qdma_mbox_memcpy\<close> and \<open>qdma_mbox_memset\<close>; the count is a \<open>uint8_t\<close>.\<close>

definition qdma_mbox_memcpy :: "nat \<Rightarrow> mem \<Rightarrow> nat \<Rightarrow> u8 \<Rightarrow> mem \<Rightarrow> mem" where
  "qdma_mbox_memcpy dst src from sz m = fold (\<lambda>i m. m(dst + i := src (from + i))) [0..<unat sz] m"

definition qdma_mbox_memset :: "nat \<Rightarrow> u8 \<Rightarrow> u8 \<Rightarrow> mem \<Rightarrow> mem" where
  "qdma_mbox_memset dst val sz m = fold (\<lambda>i m. m(dst + i := val)) [0..<unat sz] m"

lemma fold_upd: "fold (\<lambda>i m. m(dst + i := f i)) [0..<n] m x = (if dst \<le> x \<and> x < dst + n then f (x - dst) else m x)"
  by (induction n) auto

lemma memcpy_at [simp]:
  "qdma_mbox_memcpy dst src from sz m x = (if dst \<le> x \<and> x < dst + unat sz then src (from + (x - dst)) else m x)"
  unfolding qdma_mbox_memcpy_def by (rule fold_upd)

lemma memset_at [simp]:
  "qdma_mbox_memset dst val sz m x = (if dst \<le> x \<and> x < dst + unat sz then val else m x)"
  unfolding qdma_mbox_memset_def by (rule fold_upd)

lemma load_memcpy:
  assumes "dst \<le> a" and "a + LENGTH('a) div 8 \<le> dst + unat sz"
  shows "(load a (qdma_mbox_memcpy dst src from sz m) :: 'a::len word) = load (from + (a - dst)) src"
  using assms by (intro load_cong) (auto simp: algebra_simps)

lemma load_memcpy_other:
  assumes "a + LENGTH('a) div 8 \<le> dst \<or> dst + unat sz \<le> a"
  shows "(load a (qdma_mbox_memcpy dst src from sz m) :: 'a::len word) = load a m"
  using assms by (intro load_cong) auto

lemma load_zero: "(\<And>x. a \<le> x \<Longrightarrow> x < a + LENGTH('a) div 8 \<Longrightarrow> m x = 0) \<Longrightarrow> (load a m :: 'a::len word) = 0"
  using load_cong [of a m "\<lambda>_. 0" a, where ?'a = 'a]
  by (auto simp: bit_load intro!: bit_word_eqI)

lemma load_memset_0:
  assumes "dst \<le> a" and "a + LENGTH('a) div 8 \<le> dst + unat sz"
  shows "(load a (qdma_mbox_memset dst 0 sz m) :: 'a::len word) = 0"
  using assms by (intro load_zero) auto

end
