(* ===== verification/Mbox_Layout.thy ===== *)
theory Mbox_Layout
  imports Memory Resource_Mgmt Ctxt_Sw Ctxt_Pfetch Ctxt_Cmpt Ctxt_Misc Ctxt_Intr Eqdma_Csr
begin

section \<open>The structs of a mailbox message in memory\<close>

text \<open>
  A mailbox message is \<open>union qdma_mbox_txrx\<close> over a buffer of 32 words; the two sides and the handlers
  reach it through overlapping structs. This theory gives the offset of every field as the x86-64 ABI
  lays the structs out: members at multiples of their size, bit-fields from the least significant bit.
  \<open>load_x a m\<close> reads struct \<open>x\<close> at address \<open>a\<close>, \<open>store_x a c m\<close> assigns all its fields; padding keeps its bytes.
\<close>

unbundle bit_operations_syntax

named_theorems layout \<open>the offsets of the fields\<close>

subsection \<open>The message header\<close>

definition hdr_op :: "mem \<Rightarrow> u8" where [layout]: "hdr_op m = load 0 m"
definition hdr_status :: "mem \<Rightarrow> int" where [layout]: "hdr_status m = sint (load 1 m :: u8)"
definition hdr_src_func_id :: "mem \<Rightarrow> u16" where [layout]: "hdr_src_func_id m = load 2 m"
definition hdr_dst_func_id :: "mem \<Rightarrow> u16" where [layout]: "hdr_dst_func_id m = load 4 m"

definition set_op :: "u8 \<Rightarrow> mem \<Rightarrow> mem" where [layout]: "set_op v = store 0 v"
definition set_status :: "int \<Rightarrow> mem \<Rightarrow> mem" where [layout]: "set_status v = store 1 (word_of_int v :: u8)"
definition set_src_func_id :: "u16 \<Rightarrow> mem \<Rightarrow> mem" where [layout]: "set_src_func_id v = store 2 v"
definition set_dst_func_id :: "u16 \<Rightarrow> mem \<Rightarrow> mem" where [layout]: "set_dst_func_id v = store 4 v"

subsection \<open>Queue ranges, notifications, counts\<close>

definition fmap_qbase :: "mem \<Rightarrow> c_int" where [layout]: "fmap_qbase m = load 8 m"
definition fmap_qmax :: "mem \<Rightarrow> u32" where [layout]: "fmap_qmax m = load 12 m"
definition set_fmap :: "c_int \<Rightarrow> u32 \<Rightarrow> mem \<Rightarrow> mem" where [layout]: "set_fmap qb qm = store 8 qb \<circ> store 12 qm"

definition hello_dma_device_index :: "mem \<Rightarrow> u32" where [layout]: "hello_dma_device_index m = load 24 m"
definition set_hello_dma_device_index :: "u32 \<Rightarrow> mem \<Rightarrow> mem" where [layout]: "set_hello_dma_device_index = store 24"

fun q_type_code :: "qdma_dev_q_type \<Rightarrow> u32" where
  "q_type_code QDMA_DEV_Q_TYPE_H2C = 0"
| "q_type_code QDMA_DEV_Q_TYPE_C2H = 1"
| "q_type_code QDMA_DEV_Q_TYPE_CMPT = 2"
| "q_type_code QDMA_DEV_Q_TYPE_MAX = 3"

text \<open>The resource manager treats every number past the third alike.\<close>

definition q_type_of :: "u32 \<Rightarrow> qdma_dev_q_type" where
  "q_type_of v = (if v = 0 then QDMA_DEV_Q_TYPE_H2C else if v = 1 then QDMA_DEV_Q_TYPE_C2H
     else if v = 2 then QDMA_DEV_Q_TYPE_CMPT else QDMA_DEV_Q_TYPE_MAX)"

lemma q_type_of_code [simp]: "q_type_of (q_type_code t) = t"
  by (cases t) (simp_all add: q_type_of_def)

definition notify_qid_hw :: "mem \<Rightarrow> u16" where [layout]: "notify_qid_hw m = load 6 m"
definition notify_q_type :: "mem \<Rightarrow> qdma_dev_q_type" where [layout]: "notify_q_type m = q_type_of (load 8 m)"
definition set_notify :: "u16 \<Rightarrow> qdma_dev_q_type \<Rightarrow> mem \<Rightarrow> mem" where [layout]:
  "set_notify qid_hw q_type = store 6 qid_hw \<circ> store 8 (q_type_code q_type)"

definition qcnt_h2c_queues :: "mem \<Rightarrow> u32" where [layout]: "qcnt_h2c_queues m = load 8 m"
definition qcnt_c2h_queues :: "mem \<Rightarrow> u32" where [layout]: "qcnt_c2h_queues m = load 12 m"
definition qcnt_cmpt_queues :: "mem \<Rightarrow> u32" where [layout]: "qcnt_cmpt_queues m = load 16 m"

subsection \<open>Queue contexts\<close>

datatype mbox_cmpt_ctxt_type =
    QDMA_MBOX_CMPT_CTXT_ONLY | QDMA_MBOX_CMPT_WITH_MM | QDMA_MBOX_CMPT_WITH_ST | QDMA_MBOX_CMPT_CTXT_NONE

fun cmpt_type_code :: "mbox_cmpt_ctxt_type \<Rightarrow> u8" where
  "cmpt_type_code QDMA_MBOX_CMPT_CTXT_ONLY = 0"
| "cmpt_type_code QDMA_MBOX_CMPT_WITH_MM = 1"
| "cmpt_type_code QDMA_MBOX_CMPT_WITH_ST = 2"
| "cmpt_type_code QDMA_MBOX_CMPT_CTXT_NONE = 3"

definition cmpt_type_of :: "u8 \<Rightarrow> mbox_cmpt_ctxt_type" where
  "cmpt_type_of v = (if v = 0 then QDMA_MBOX_CMPT_CTXT_ONLY else if v = 1 then QDMA_MBOX_CMPT_WITH_MM
     else if v = 2 then QDMA_MBOX_CMPT_WITH_ST else QDMA_MBOX_CMPT_CTXT_NONE)"

lemma cmpt_type_of_code [simp]: "cmpt_type_of (take_bit 2 (cmpt_type_code t)) = t"
  by (cases t) (simp_all add: cmpt_type_of_def)

definition qctxt_qid_hw :: "mem \<Rightarrow> u16" where [layout]: "qctxt_qid_hw m = load 6 m"
definition qctxt_st :: "mem \<Rightarrow> u8" where [layout]: "qctxt_st m = bits 0 1 (load 8 m)"
definition qctxt_c2h :: "mem \<Rightarrow> u8" where [layout]: "qctxt_c2h m = bits 1 1 (load 8 m)"
definition qctxt_cmpt_ctxt_type :: "mem \<Rightarrow> mbox_cmpt_ctxt_type" where [layout]:
  "qctxt_cmpt_ctxt_type m = cmpt_type_of (bits 2 2 (load 8 m))"

definition set_qctxt :: "u16 \<Rightarrow> u8 \<Rightarrow> u8 \<Rightarrow> mbox_cmpt_ctxt_type \<Rightarrow> mem \<Rightarrow> mem" where [layout]:
  "set_qctxt qid_hw st c2h cmpt_ctxt_type m =
     store 8 (set_bits_at 2 2 (cmpt_type_code cmpt_ctxt_type) (set_bits_at 0 1 st (set_bits_at 1 1 c2h (load 8 m))))
       (store 6 qid_hw m)"

text \<open>The union of the write configuration and the contexts of a read starts at 16.\<close>

definition QCTXT_UNION :: nat where [layout]: "QCTXT_UNION = 16"

subsubsection \<open>The configuration of a queue\<close>

definition dc_ring_bs_addr :: "nat \<Rightarrow> mem \<Rightarrow> u64" where [layout]: "dc_ring_bs_addr a m = load a m"
definition dc_cmpt_ring_bs_addr :: "nat \<Rightarrow> mem \<Rightarrow> u64" where [layout]: "dc_cmpt_ring_bs_addr a m = load (a + 8) m"
definition dc_forced_en :: "nat \<Rightarrow> mem \<Rightarrow> u8" where [layout]: "dc_forced_en a m = ucast (bits 0 1 (load (a + 16) m :: u32))"
definition dc_en_bypass :: "nat \<Rightarrow> mem \<Rightarrow> u8" where [layout]: "dc_en_bypass a m = ucast (bits 1 1 (load (a + 16) m :: u32))"
definition dc_irq_arm :: "nat \<Rightarrow> mem \<Rightarrow> u8" where [layout]: "dc_irq_arm a m = ucast (bits 2 1 (load (a + 16) m :: u32))"
definition dc_wbi_intvl_en :: "nat \<Rightarrow> mem \<Rightarrow> u8" where [layout]: "dc_wbi_intvl_en a m = ucast (bits 3 1 (load (a + 16) m :: u32))"
definition dc_wbi_chk :: "nat \<Rightarrow> mem \<Rightarrow> u8" where [layout]: "dc_wbi_chk a m = ucast (bits 4 1 (load (a + 16) m :: u32))"
definition dc_at :: "nat \<Rightarrow> mem \<Rightarrow> u8" where [layout]: "dc_at a m = ucast (bits 5 1 (load (a + 16) m :: u32))"
definition dc_wbk_en :: "nat \<Rightarrow> mem \<Rightarrow> u8" where [layout]: "dc_wbk_en a m = ucast (bits 6 1 (load (a + 16) m :: u32))"
definition dc_irq_en :: "nat \<Rightarrow> mem \<Rightarrow> u8" where [layout]: "dc_irq_en a m = ucast (bits 7 1 (load (a + 16) m :: u32))"
definition dc_pfch_en :: "nat \<Rightarrow> mem \<Rightarrow> u8" where [layout]: "dc_pfch_en a m = ucast (bits 8 1 (load (a + 16) m :: u32))"
definition dc_en_bypass_prefetch :: "nat \<Rightarrow> mem \<Rightarrow> u8" where [layout]: "dc_en_bypass_prefetch a m = ucast (bits 9 1 (load (a + 16) m :: u32))"
definition dc_dis_overflow_check :: "nat \<Rightarrow> mem \<Rightarrow> u8" where [layout]: "dc_dis_overflow_check a m = ucast (bits 10 1 (load (a + 16) m :: u32))"
definition dc_cmpt_int_en :: "nat \<Rightarrow> mem \<Rightarrow> u8" where [layout]: "dc_cmpt_int_en a m = ucast (bits 11 1 (load (a + 16) m :: u32))"
definition dc_cmpt_at :: "nat \<Rightarrow> mem \<Rightarrow> u8" where [layout]: "dc_cmpt_at a m = ucast (bits 12 1 (load (a + 16) m :: u32))"
definition dc_cmpt_color :: "nat \<Rightarrow> mem \<Rightarrow> u8" where [layout]: "dc_cmpt_color a m = ucast (bits 13 1 (load (a + 16) m :: u32))"
definition dc_cmpt_full_upd :: "nat \<Rightarrow> mem \<Rightarrow> u8" where [layout]: "dc_cmpt_full_upd a m = ucast (bits 14 1 (load (a + 16) m :: u32))"
definition dc_cmpl_stat_en :: "nat \<Rightarrow> mem \<Rightarrow> u8" where [layout]: "dc_cmpl_stat_en a m = ucast (bits 15 1 (load (a + 16) m :: u32))"
definition dc_desc_sz :: "nat \<Rightarrow> mem \<Rightarrow> u8" where [layout]: "dc_desc_sz a m = ucast (bits 16 2 (load (a + 16) m :: u32))"
definition dc_cmpt_desc_sz :: "nat \<Rightarrow> mem \<Rightarrow> u8" where [layout]: "dc_cmpt_desc_sz a m = ucast (bits 18 2 (load (a + 16) m :: u32))"
definition dc_triggermode :: "nat \<Rightarrow> mem \<Rightarrow> u8" where [layout]: "dc_triggermode a m = ucast (bits 20 3 (load (a + 16) m :: u32))"
definition dc_func_id :: "nat \<Rightarrow> mem \<Rightarrow> u16" where [layout]: "dc_func_id a m = ucast (bits 0 16 (load (a + 20) m :: u32))"
definition dc_cnt_thres :: "nat \<Rightarrow> mem \<Rightarrow> u8" where [layout]: "dc_cnt_thres a m = ucast (bits 16 8 (load (a + 20) m :: u32))"
definition dc_timer_thres :: "nat \<Rightarrow> mem \<Rightarrow> u8" where [layout]: "dc_timer_thres a m = ucast (bits 24 8 (load (a + 20) m :: u32))"
definition dc_intr_id :: "nat \<Rightarrow> mem \<Rightarrow> u16" where [layout]: "dc_intr_id a m = bits 0 11 (load (a + 24) m :: u16)"
definition dc_intr_aggr :: "nat \<Rightarrow> mem \<Rightarrow> u8" where [layout]: "dc_intr_aggr a m = ucast (bits 11 1 (load (a + 24) m :: u16))"
definition dc_ringsz :: "nat \<Rightarrow> mem \<Rightarrow> u16" where [layout]: "dc_ringsz a m = load (a + 26) m"
definition dc_bufsz :: "nat \<Rightarrow> mem \<Rightarrow> u16" where [layout]: "dc_bufsz a m = load (a + 28) m"
definition dc_cmpt_ringsz :: "nat \<Rightarrow> mem \<Rightarrow> u16" where [layout]: "dc_cmpt_ringsz a m = load (a + 30) m"

definition set_dc_func_id :: "nat \<Rightarrow> u16 \<Rightarrow> mem \<Rightarrow> mem" where [layout]:
  "set_dc_func_id a v m = store (a + 20) (set_bits_at 0 16 (ucast v) (load (a + 20) m :: u32)) m"

subsubsection \<open>The contexts\<close>

definition load_fmap :: "nat \<Rightarrow> mem \<Rightarrow> qdma_fmap_cfg" where [layout]:
  "load_fmap a m = \<lparr>
     fm_qbase = load a m, fm_qmax = load (a + 2) m\<rparr>"

definition store_fmap :: "nat \<Rightarrow> qdma_fmap_cfg \<Rightarrow> mem \<Rightarrow> mem" where [layout]:
  "store_fmap a c =
     store a (fm_qbase c) \<circ> store (a + 2) (fm_qmax c)"

definition load_sw_ctxt :: "nat \<Rightarrow> mem \<Rightarrow> qdma_descq_sw_ctxt" where [layout]:
  "load_sw_ctxt a m = \<lparr>
     sw_ring_bs_addr = load a m, sw_vec = load (a + 8) m, sw_pidx = load (a + 10) m, sw_irq_arm = load (a + 12) m,
     sw_fnc_id = load (a + 13) m, sw_qen = load (a + 14) m, sw_frcd_en = load (a + 15) m,
     sw_wbi_chk = load (a + 16) m, sw_wbi_intvl_en = load (a + 17) m, sw_at = load (a + 18) m,
     sw_fetch_max = load (a + 19) m, sw_rngsz_idx = load (a + 20) m, sw_desc_sz = load (a + 21) m,
     sw_bypass = load (a + 22) m, sw_mm_chn = load (a + 23) m, sw_wbk_en = load (a + 24) m,
     sw_irq_en = load (a + 25) m, sw_port_id = load (a + 26) m, sw_irq_no_last = load (a + 27) m,
     sw_err = load (a + 28) m, sw_err_wb_sent = load (a + 29) m, sw_irq_req = load (a + 30) m,
     sw_mrkr_dis = load (a + 31) m, sw_is_mm = load (a + 32) m, sw_intr_aggr = load (a + 33) m,
     sw_pasid_en = load (a + 34) m, sw_dis_intr_on_vf = load (a + 35) m, sw_virtio_en = load (a + 36) m,
     sw_pack_byp_out = load (a + 37) m, sw_irq_byp = load (a + 38) m, sw_host_id = load (a + 39) m,
     sw_pasid = load (a + 40) m, sw_virtio_dsc_base = load (a + 48) m\<rparr>"

definition store_sw_ctxt :: "nat \<Rightarrow> qdma_descq_sw_ctxt \<Rightarrow> mem \<Rightarrow> mem" where [layout]:
  "store_sw_ctxt a c =
     store a (sw_ring_bs_addr c) \<circ> store (a + 8) (sw_vec c) \<circ> store (a + 10) (sw_pidx c) \<circ>
     store (a + 12) (sw_irq_arm c) \<circ> store (a + 13) (sw_fnc_id c) \<circ> store (a + 14) (sw_qen c) \<circ>
     store (a + 15) (sw_frcd_en c) \<circ> store (a + 16) (sw_wbi_chk c) \<circ>
     store (a + 17) (sw_wbi_intvl_en c) \<circ> store (a + 18) (sw_at c) \<circ>
     store (a + 19) (sw_fetch_max c) \<circ> store (a + 20) (sw_rngsz_idx c) \<circ>
     store (a + 21) (sw_desc_sz c) \<circ> store (a + 22) (sw_bypass c) \<circ> store (a + 23) (sw_mm_chn c) \<circ>
     store (a + 24) (sw_wbk_en c) \<circ> store (a + 25) (sw_irq_en c) \<circ> store (a + 26) (sw_port_id c) \<circ>
     store (a + 27) (sw_irq_no_last c) \<circ> store (a + 28) (sw_err c) \<circ>
     store (a + 29) (sw_err_wb_sent c) \<circ> store (a + 30) (sw_irq_req c) \<circ>
     store (a + 31) (sw_mrkr_dis c) \<circ> store (a + 32) (sw_is_mm c) \<circ>
     store (a + 33) (sw_intr_aggr c) \<circ> store (a + 34) (sw_pasid_en c) \<circ>
     store (a + 35) (sw_dis_intr_on_vf c) \<circ> store (a + 36) (sw_virtio_en c) \<circ>
     store (a + 37) (sw_pack_byp_out c) \<circ> store (a + 38) (sw_irq_byp c) \<circ>
     store (a + 39) (sw_host_id c) \<circ> store (a + 40) (sw_pasid c) \<circ> store (a + 48) (sw_virtio_dsc_base c)"

definition load_hw_ctxt :: "nat \<Rightarrow> mem \<Rightarrow> qdma_descq_hw_ctxt" where [layout]:
  "load_hw_ctxt a m = \<lparr>
     hw_cidx = load a m, hw_crd_use = load (a + 2) m, hw_dsc_pend = load (a + 4) m, hw_idl_stp_b = load (a + 5) m,
     hw_evt_pnd = load (a + 6) m, hw_fetch_pnd = load (a + 7) m\<rparr>"

definition store_hw_ctxt :: "nat \<Rightarrow> qdma_descq_hw_ctxt \<Rightarrow> mem \<Rightarrow> mem" where [layout]:
  "store_hw_ctxt a c =
     store a (hw_cidx c) \<circ> store (a + 2) (hw_crd_use c) \<circ> store (a + 4) (hw_dsc_pend c) \<circ>
     store (a + 5) (hw_idl_stp_b c) \<circ> store (a + 6) (hw_evt_pnd c) \<circ> store (a + 7) (hw_fetch_pnd c)"

definition load_credit_ctxt :: "nat \<Rightarrow> mem \<Rightarrow> qdma_descq_credit_ctxt" where [layout]:
  "load_credit_ctxt a m = \<lparr>
     cr_credit = load a m\<rparr>"

definition store_credit_ctxt :: "nat \<Rightarrow> qdma_descq_credit_ctxt \<Rightarrow> mem \<Rightarrow> mem" where [layout]:
  "store_credit_ctxt a c =
     store a (cr_credit c)"

definition load_pfetch_ctxt :: "nat \<Rightarrow> mem \<Rightarrow> qdma_descq_prefetch_ctxt" where [layout]:
  "load_pfetch_ctxt a m = \<lparr>
     pf_sw_crdt = load a m, pf_bypass = load (a + 2) m, pf_bufsz_idx = load (a + 3) m, pf_port_id = load (a + 4) m,
     pf_var_desc = load (a + 5) m, pf_num_pftch = load (a + 6) m, pf_err = load (a + 8) m,
     pf_pfch_en = load (a + 9) m, pf_pfch = load (a + 10) m, pf_valid = load (a + 11) m\<rparr>"

definition store_pfetch_ctxt :: "nat \<Rightarrow> qdma_descq_prefetch_ctxt \<Rightarrow> mem \<Rightarrow> mem" where [layout]:
  "store_pfetch_ctxt a c =
     store a (pf_sw_crdt c) \<circ> store (a + 2) (pf_bypass c) \<circ> store (a + 3) (pf_bufsz_idx c) \<circ>
     store (a + 4) (pf_port_id c) \<circ> store (a + 5) (pf_var_desc c) \<circ> store (a + 6) (pf_num_pftch c) \<circ>
     store (a + 8) (pf_err c) \<circ> store (a + 9) (pf_pfch_en c) \<circ> store (a + 10) (pf_pfch c) \<circ>
     store (a + 11) (pf_valid c)"

definition load_cmpt_ctxt :: "nat \<Rightarrow> mem \<Rightarrow> qdma_descq_cmpt_ctxt" where [layout]:
  "load_cmpt_ctxt a m = \<lparr>
     cm_bs_addr = load a m, cm_vec = load (a + 8) m, cm_pidx = load (a + 10) m, cm_cidx = load (a + 12) m,
     cm_en_stat_desc = load (a + 14) m, cm_en_int = load (a + 15) m, cm_trig_mode = load (a + 16) m,
     cm_fnc_id = load (a + 17) m, cm_counter_idx = load (a + 18) m, cm_timer_idx = load (a + 19) m,
     cm_in_st = load (a + 20) m, cm_color = load (a + 21) m, cm_ringsz_idx = load (a + 22) m,
     cm_desc_sz = load (a + 23) m, cm_valid = load (a + 24) m, cm_err = load (a + 25) m,
     cm_user_trig_pend = load (a + 26) m, cm_timer_running = load (a + 27) m, cm_full_upd = load (a + 28) m,
     cm_ovf_chk_dis = load (a + 29) m, cm_at = load (a + 30) m, cm_int_aggr = load (a + 31) m,
     cm_dis_intr_on_vf = load (a + 32) m, cm_vio = load (a + 33) m, cm_dir_c2h = load (a + 34) m,
     cm_host_id = load (a + 35) m, cm_pasid = load (a + 36) m, cm_pasid_en = load (a + 40) m,
     cm_vio_eop = load (a + 41) m, cm_sh_cmpt = load (a + 42) m\<rparr>"

definition store_cmpt_ctxt :: "nat \<Rightarrow> qdma_descq_cmpt_ctxt \<Rightarrow> mem \<Rightarrow> mem" where [layout]:
  "store_cmpt_ctxt a c =
     store a (cm_bs_addr c) \<circ> store (a + 8) (cm_vec c) \<circ> store (a + 10) (cm_pidx c) \<circ>
     store (a + 12) (cm_cidx c) \<circ> store (a + 14) (cm_en_stat_desc c) \<circ>
     store (a + 15) (cm_en_int c) \<circ> store (a + 16) (cm_trig_mode c) \<circ> store (a + 17) (cm_fnc_id c) \<circ>
     store (a + 18) (cm_counter_idx c) \<circ> store (a + 19) (cm_timer_idx c) \<circ>
     store (a + 20) (cm_in_st c) \<circ> store (a + 21) (cm_color c) \<circ> store (a + 22) (cm_ringsz_idx c) \<circ>
     store (a + 23) (cm_desc_sz c) \<circ> store (a + 24) (cm_valid c) \<circ> store (a + 25) (cm_err c) \<circ>
     store (a + 26) (cm_user_trig_pend c) \<circ> store (a + 27) (cm_timer_running c) \<circ>
     store (a + 28) (cm_full_upd c) \<circ> store (a + 29) (cm_ovf_chk_dis c) \<circ> store (a + 30) (cm_at c) \<circ>
     store (a + 31) (cm_int_aggr c) \<circ> store (a + 32) (cm_dis_intr_on_vf c) \<circ>
     store (a + 33) (cm_vio c) \<circ> store (a + 34) (cm_dir_c2h c) \<circ> store (a + 35) (cm_host_id c) \<circ>
     store (a + 36) (cm_pasid c) \<circ> store (a + 40) (cm_pasid_en c) \<circ> store (a + 41) (cm_vio_eop c) \<circ>
     store (a + 42) (cm_sh_cmpt c)"

definition load_intr_ctxt :: "nat \<Rightarrow> mem \<Rightarrow> qdma_indirect_intr_ctxt" where [layout]:
  "load_intr_ctxt a m = \<lparr>
     in_baddr_4k = load a m, in_vec = load (a + 8) m, in_pidx = load (a + 10) m, in_valid = load (a + 12) m,
     in_int_st = load (a + 13) m, in_color = load (a + 14) m, in_page_size = load (a + 15) m, in_at = load (a + 16) m,
     in_host_id = load (a + 17) m, in_pasid = load (a + 20) m, in_pasid_en = load (a + 24) m,
     in_func_id = load (a + 26) m\<rparr>"

definition store_intr_ctxt :: "nat \<Rightarrow> qdma_indirect_intr_ctxt \<Rightarrow> mem \<Rightarrow> mem" where [layout]:
  "store_intr_ctxt a c =
     store a (in_baddr_4k c) \<circ> store (a + 8) (in_vec c) \<circ> store (a + 10) (in_pidx c) \<circ>
     store (a + 12) (in_valid c) \<circ> store (a + 13) (in_int_st c) \<circ> store (a + 14) (in_color c) \<circ>
     store (a + 15) (in_page_size c) \<circ> store (a + 16) (in_at c) \<circ> store (a + 17) (in_host_id c) \<circ>
     store (a + 20) (in_pasid c) \<circ> store (a + 24) (in_pasid_en c) \<circ> store (a + 26) (in_func_id c)"

text \<open>The members of \<open>struct qdma_descq_context\<close>.\<close>

definition ctxt_fmap :: "nat \<Rightarrow> nat" where [layout]: "ctxt_fmap a = a + 4"
definition ctxt_sw :: "nat \<Rightarrow> nat" where [layout]: "ctxt_sw a = a + 8"
definition ctxt_hw :: "nat \<Rightarrow> nat" where [layout]: "ctxt_hw a = a + 64"
definition ctxt_cr :: "nat \<Rightarrow> nat" where [layout]: "ctxt_cr a = a + 72"
definition ctxt_pfetch :: "nat \<Rightarrow> nat" where [layout]: "ctxt_pfetch a = a + 76"
definition ctxt_cmpt :: "nat \<Rightarrow> nat" where [layout]: "ctxt_cmpt a = a + 88"

subsection \<open>Device attributes\<close>

definition load_dev_attributes :: "nat \<Rightarrow> mem \<Rightarrow> qdma_dev_attributes" where [layout]:
  "load_dev_attributes a m = \<lparr>
     da_num_pfs = load a m, da_num_qs = load (a + 2) m, da_flr_present = bits 0 1 (load (a + 4) m),
     da_st_en = bits 1 1 (load (a + 4) m), da_mm_en = bits 2 1 (load (a + 4) m),
     da_mm_cmpt_en = bits 3 1 (load (a + 4) m), da_mailbox_en = bits 4 1 (load (a + 4) m),
     da_debug_mode = bits 5 1 (load (a + 4) m), da_desc_eng_mode = bits 6 2 (load (a + 4) m),
     da_mm_channel_max = load (a + 5) m, da_qid2vec_ctx = bits 0 1 (load (a + 6) m),
     da_cmpt_ovf_chk_dis = bits 1 1 (load (a + 6) m), da_mailbox_intr = bits 2 1 (load (a + 6) m),
     da_sw_desc_64b = bits 3 1 (load (a + 6) m), da_cmpt_desc_64b = bits 4 1 (load (a + 6) m),
     da_dynamic_bar = bits 5 1 (load (a + 6) m), da_legacy_intr = bits 6 1 (load (a + 6) m),
     da_cmpt_trig_count_timer = bits 7 1 (load (a + 6) m)\<rparr>"

definition store_dev_attributes :: "nat \<Rightarrow> qdma_dev_attributes \<Rightarrow> mem \<Rightarrow> mem" where [layout]:
  "store_dev_attributes a c m =
     (let caps = set_bits_at 0 1 (da_flr_present c) (set_bits_at 1 1 (da_st_en c) (set_bits_at 2 1 (da_mm_en c)
            (set_bits_at 3 1 (da_mm_cmpt_en c) (set_bits_at 4 1 (da_mailbox_en c) (set_bits_at 5 1 (da_debug_mode c)
            (set_bits_at 6 2 (da_desc_eng_mode c) (load (a + 4) m)))))));
          more = set_bits_at 0 1 (da_qid2vec_ctx c) (set_bits_at 1 1 (da_cmpt_ovf_chk_dis c)
            (set_bits_at 2 1 (da_mailbox_intr c) (set_bits_at 3 1 (da_sw_desc_64b c) (set_bits_at 4 1 (da_cmpt_desc_64b c)
            (set_bits_at 5 1 (da_dynamic_bar c) (set_bits_at 6 1 (da_legacy_intr c)
            (set_bits_at 7 1 (da_cmpt_trig_count_timer c) (load (a + 6) m))))))))
      in store a (da_num_pfs c) (store (a + 2) (da_num_qs c) (store (a + 4) caps
           (store (a + 5) (da_mm_channel_max c) (store (a + 6) more m)))))"

subsection \<open>Global values, interrupt contexts, register lists\<close>

definition set_csr_ringsz :: "nat \<Rightarrow> u16 \<Rightarrow> mem \<Rightarrow> mem" where [layout]: "set_csr_ringsz i = store (6 + 2 * i)"
definition set_csr_bufsz :: "nat \<Rightarrow> u16 \<Rightarrow> mem \<Rightarrow> mem" where [layout]: "set_csr_bufsz i = store (38 + 2 * i)"
definition set_csr_timer_cnt :: "nat \<Rightarrow> u8 \<Rightarrow> mem \<Rightarrow> mem" where [layout]: "set_csr_timer_cnt i = store (70 + i)"
definition set_csr_cnt_thres :: "nat \<Rightarrow> u8 \<Rightarrow> mem \<Rightarrow> mem" where [layout]: "set_csr_cnt_thres i = store (86 + i)"

text \<open>The fields of a \<open>struct qdma_csr_info\<close> at an address.\<close>

definition csr_ringsz :: "nat \<Rightarrow> nat \<Rightarrow> mem \<Rightarrow> u16" where [layout]: "csr_ringsz a i m = load (a + 2 * i) m"
definition csr_bufsz :: "nat \<Rightarrow> nat \<Rightarrow> mem \<Rightarrow> u16" where [layout]: "csr_bufsz a i m = load (a + 32 + 2 * i) m"
definition csr_timer_cnt :: "nat \<Rightarrow> nat \<Rightarrow> mem \<Rightarrow> u8" where [layout]: "csr_timer_cnt a i m = load (a + 64 + i) m"
definition csr_cnt_thres :: "nat \<Rightarrow> nat \<Rightarrow> mem \<Rightarrow> u8" where [layout]: "csr_cnt_thres a i m = load (a + 80 + i) m"

definition intr_num_rings :: "mem \<Rightarrow> u8" where [layout]: "intr_num_rings m = load 8 m"
definition intr_ring_index :: "nat \<Rightarrow> mem \<Rightarrow> u32" where [layout]: "intr_ring_index i m = load (12 + 4 * i) m"
definition intr_ictxt :: "nat \<Rightarrow> nat" where [layout]: "intr_ictxt i = 16 + 32 * i"

definition reg_group_num :: "mem \<Rightarrow> u16" where [layout]: "reg_group_num m = load 6 m"
definition set_reg_group_num :: "u16 \<Rightarrow> mem \<Rightarrow> mem" where [layout]: "set_reg_group_num = store 6"
definition reg_num_regs :: "mem \<Rightarrow> u16" where [layout]: "reg_num_regs m = load 8 m"
definition set_reg_num_regs :: "u16 \<Rightarrow> mem \<Rightarrow> mem" where [layout]: "set_reg_num_regs = store 8"

fun store_regs :: "nat \<Rightarrow> (u32 \<times> u32) list \<Rightarrow> mem \<Rightarrow> mem" where
  "store_regs a [] m = m"
| "store_regs a ((reg_addr, reg_val) # rs) m = store_regs (a + 8) rs (store (a + 4) reg_val (store a reg_addr m))"

text \<open>
  \<open>sizeof(union qdma_mbox_txrx)\<close>: the contexts of a read make the union larger than its 32 words.
\<close>

definition sizeof_txrx :: u8 where [layout]: "sizeof_txrx = 152"
definition sizeof_descq_conf :: u8 where [layout]: "sizeof_descq_conf = 32"
definition sizeof_descq_context :: u8 where [layout]: "sizeof_descq_context = 136"
definition sizeof_intr_ctxt :: u8 where [layout]: "sizeof_intr_ctxt = 40"
definition sizeof_csr_info :: u8 where [layout]: "sizeof_csr_info = 98"

end
