(* ===== verification/Mbox_Msg.thy ===== *)
theory Mbox_Msg
  imports Mbox_Layout
begin

section \<open>Composing and reading mailbox messages (qdma\_mbox\_protocol.c)\<close>

text \<open>
  Every composer fills the caller's buffer, every reader takes values out of a received one. A
  buffer that may be NULL is an option; the others are only passed valid. The functions return the status
  of the C code and the changed memory.
\<close>

unbundle bit_operations_syntax

subsection \<open>Opcodes\<close>

named_theorems op_codes

definition MBOX_MSG_OP_RSP_OFFSET :: nat where [op_codes]: "MBOX_MSG_OP_RSP_OFFSET = 0x80"
definition MBOX_OP_VF_BYE :: u8 where [op_codes]: "MBOX_OP_VF_BYE = 0"
definition MBOX_OP_HELLO :: u8 where [op_codes]: "MBOX_OP_HELLO = 1"
definition MBOX_OP_FMAP :: u8 where [op_codes]: "MBOX_OP_FMAP = 2"
definition MBOX_OP_CSR :: u8 where [op_codes]: "MBOX_OP_CSR = 3"
definition MBOX_OP_QREQ :: u8 where [op_codes]: "MBOX_OP_QREQ = 4"
definition MBOX_OP_QNOTIFY_ADD :: u8 where [op_codes]: "MBOX_OP_QNOTIFY_ADD = 5"
definition MBOX_OP_QNOTIFY_DEL :: u8 where [op_codes]: "MBOX_OP_QNOTIFY_DEL = 6"
definition MBOX_OP_GET_QACTIVE_CNT :: u8 where [op_codes]: "MBOX_OP_GET_QACTIVE_CNT = 7"
definition MBOX_OP_QCTXT_WRT :: u8 where [op_codes]: "MBOX_OP_QCTXT_WRT = 8"
definition MBOX_OP_QCTXT_RD :: u8 where [op_codes]: "MBOX_OP_QCTXT_RD = 9"
definition MBOX_OP_QCTXT_CLR :: u8 where [op_codes]: "MBOX_OP_QCTXT_CLR = 10"
definition MBOX_OP_QCTXT_INV :: u8 where [op_codes]: "MBOX_OP_QCTXT_INV = 11"
definition MBOX_OP_INTR_CTXT_WRT :: u8 where [op_codes]: "MBOX_OP_INTR_CTXT_WRT = 12"
definition MBOX_OP_INTR_CTXT_RD :: u8 where [op_codes]: "MBOX_OP_INTR_CTXT_RD = 13"
definition MBOX_OP_INTR_CTXT_CLR :: u8 where [op_codes]: "MBOX_OP_INTR_CTXT_CLR = 14"
definition MBOX_OP_INTR_CTXT_INV :: u8 where [op_codes]: "MBOX_OP_INTR_CTXT_INV = 15"
definition MBOX_OP_RESET_PREPARE :: u8 where [op_codes]: "MBOX_OP_RESET_PREPARE = 16"
definition MBOX_OP_RESET_DONE :: u8 where [op_codes]: "MBOX_OP_RESET_DONE = 17"
definition MBOX_OP_REG_LIST_READ :: u8 where [op_codes]: "MBOX_OP_REG_LIST_READ = 18"
definition MBOX_OP_PF_BYE :: u8 where [op_codes]: "MBOX_OP_PF_BYE = 19"
definition MBOX_OP_PF_RESET_VF_BYE :: u8 where [op_codes]: "MBOX_OP_PF_RESET_VF_BYE = 20"
definition MBOX_OP_RESET_PREPARE_RESP :: u8 where [op_codes]: "MBOX_OP_RESET_PREPARE_RESP = 0x90"
definition MBOX_OP_RESET_DONE_RESP :: u8 where [op_codes]: "MBOX_OP_RESET_DONE_RESP = 0x91"
definition MBOX_OP_PF_BYE_RESP :: u8 where [op_codes]: "MBOX_OP_PF_BYE_RESP = 0x93"

text \<open>What the handlers tell their callers.\<close>

definition QDMA_MBOX_VF_ONLINE :: int where "QDMA_MBOX_VF_ONLINE = 1"
definition QDMA_MBOX_VF_OFFLINE :: int where "QDMA_MBOX_VF_OFFLINE = - 1"
definition QDMA_MBOX_VF_RESET :: int where "QDMA_MBOX_VF_RESET = 2"
definition QDMA_MBOX_PF_RESET_DONE :: int where "QDMA_MBOX_PF_RESET_DONE = 3"
definition QDMA_MBOX_PF_BYE :: int where "QDMA_MBOX_PF_BYE = 4"
definition QDMA_MBOX_VF_RESET_BYE :: int where "QDMA_MBOX_VF_RESET_BYE = 5"

subsection \<open>Composing\<close>

text \<open>The common part: refuse a NULL buffer, zero the union, set the opcode and the sender.\<close>

definition compose_msg :: "u8 \<Rightarrow> u16 \<Rightarrow> (mem \<Rightarrow> mem) \<Rightarrow> mem option \<Rightarrow> int \<times> mem option" where
  "compose_msg op src body raw_data =
     (case raw_data of
        None \<Rightarrow> (neg_err QDMA_ERR_INV_PARAM, None)
      | Some m \<Rightarrow> (err_code QDMA_SUCCESS,
          Some (body (set_src_func_id src (set_op op (qdma_mbox_memset 0 0 sizeof_txrx m))))))"

definition qmda_mbox_compose_vf_online :: "u16 \<Rightarrow> u16 \<Rightarrow> c_int \<Rightarrow> mem option \<Rightarrow> int \<times> mem option" where
  "qmda_mbox_compose_vf_online fid qm qb = compose_msg MBOX_OP_HELLO fid (set_fmap qb (ucast qm))"

definition qdma_mbox_compose_vf_offline :: "u16 \<Rightarrow> mem option \<Rightarrow> int \<times> mem option" where
  "qdma_mbox_compose_vf_offline fid = compose_msg MBOX_OP_VF_BYE fid id"

definition qdma_mbox_compose_vf_reset_offline :: "u16 \<Rightarrow> mem option \<Rightarrow> int \<times> mem option" where
  "qdma_mbox_compose_vf_reset_offline fid = compose_msg MBOX_OP_PF_RESET_VF_BYE fid id"

definition qdma_mbox_compose_vf_qreq :: "u16 \<Rightarrow> u16 \<Rightarrow> c_int \<Rightarrow> mem option \<Rightarrow> int \<times> mem option" where
  "qdma_mbox_compose_vf_qreq fid qm qb = compose_msg MBOX_OP_QREQ fid (set_fmap qb (ucast qm))"

definition qdma_mbox_compose_vf_fmap_prog :: "u16 \<Rightarrow> u16 \<Rightarrow> c_int \<Rightarrow> mem option \<Rightarrow> int \<times> mem option" where
  "qdma_mbox_compose_vf_fmap_prog fid qm qb = compose_msg MBOX_OP_FMAP fid (set_fmap qb (ucast qm))"

definition qdma_mbox_compose_vf_notify_qadd :: "u16 \<Rightarrow> u16 \<Rightarrow> qdma_dev_q_type \<Rightarrow> mem option \<Rightarrow> int \<times> mem option" where
  "qdma_mbox_compose_vf_notify_qadd fid qid_hw q_type = compose_msg MBOX_OP_QNOTIFY_ADD fid (set_notify qid_hw q_type)"

definition qdma_mbox_compose_vf_notify_qdel :: "u16 \<Rightarrow> u16 \<Rightarrow> qdma_dev_q_type \<Rightarrow> mem option \<Rightarrow> int \<times> mem option" where
  "qdma_mbox_compose_vf_notify_qdel fid qid_hw q_type = compose_msg MBOX_OP_QNOTIFY_DEL fid (set_notify qid_hw q_type)"

definition qdma_mbox_compose_vf_get_device_active_qcnt :: "u16 \<Rightarrow> mem option \<Rightarrow> int \<times> mem option" where
  "qdma_mbox_compose_vf_get_device_active_qcnt fid = compose_msg MBOX_OP_GET_QACTIVE_CNT fid id"

text \<open>The configuration is copied from the caller's struct, at address 0 of its memory.\<close>

definition qdma_mbox_compose_vf_qctxt_write :: "u16 \<Rightarrow> u16 \<Rightarrow> u8 \<Rightarrow> u8 \<Rightarrow> mbox_cmpt_ctxt_type \<Rightarrow> mem \<Rightarrow> mem option \<Rightarrow> int \<times> mem option" where
  "qdma_mbox_compose_vf_qctxt_write fid qid_hw st c2h cmpt_ctxt_type descq_conf = compose_msg MBOX_OP_QCTXT_WRT fid
     (qdma_mbox_memcpy QCTXT_UNION descq_conf 0 sizeof_descq_conf \<circ> set_qctxt qid_hw st c2h cmpt_ctxt_type)"

definition qdma_mbox_compose_vf_qctxt_read :: "u16 \<Rightarrow> u16 \<Rightarrow> u8 \<Rightarrow> u8 \<Rightarrow> mbox_cmpt_ctxt_type \<Rightarrow> mem option \<Rightarrow> int \<times> mem option" where
  "qdma_mbox_compose_vf_qctxt_read fid qid_hw st c2h cmpt_ctxt_type = compose_msg MBOX_OP_QCTXT_RD fid
     (set_qctxt qid_hw st c2h cmpt_ctxt_type)"

definition qdma_mbox_compose_vf_qctxt_invalidate :: "u16 \<Rightarrow> u16 \<Rightarrow> u8 \<Rightarrow> u8 \<Rightarrow> mbox_cmpt_ctxt_type \<Rightarrow> mem option \<Rightarrow> int \<times> mem option" where
  "qdma_mbox_compose_vf_qctxt_invalidate fid qid_hw st c2h cmpt_ctxt_type = compose_msg MBOX_OP_QCTXT_INV fid
     (set_qctxt qid_hw st c2h cmpt_ctxt_type)"

definition qdma_mbox_compose_vf_qctxt_clear :: "u16 \<Rightarrow> u16 \<Rightarrow> u8 \<Rightarrow> u8 \<Rightarrow> mbox_cmpt_ctxt_type \<Rightarrow> mem option \<Rightarrow> int \<times> mem option" where
  "qdma_mbox_compose_vf_qctxt_clear fid qid_hw st c2h cmpt_ctxt_type = compose_msg MBOX_OP_QCTXT_CLR fid
     (set_qctxt qid_hw st c2h cmpt_ctxt_type)"

definition qdma_mbox_compose_csr_read :: "u16 \<Rightarrow> mem option \<Rightarrow> int \<times> mem option" where
  "qdma_mbox_compose_csr_read fid = compose_msg MBOX_OP_CSR fid id"

definition qdma_mbox_compose_reg_read :: "u16 \<Rightarrow> u16 \<Rightarrow> mem option \<Rightarrow> int \<times> mem option" where
  "qdma_mbox_compose_reg_read fid group_num = compose_msg MBOX_OP_REG_LIST_READ fid (set_reg_group_num group_num)"

definition qdma_mbox_compose_vf_intr_ctxt_write :: "u16 \<Rightarrow> mem \<Rightarrow> mem option \<Rightarrow> int \<times> mem option" where
  "qdma_mbox_compose_vf_intr_ctxt_write fid intr_ctxt = compose_msg MBOX_OP_INTR_CTXT_WRT fid
     (qdma_mbox_memcpy 8 intr_ctxt 0 sizeof_intr_ctxt)"

definition qdma_mbox_compose_vf_intr_ctxt_read :: "u16 \<Rightarrow> mem \<Rightarrow> mem option \<Rightarrow> int \<times> mem option" where
  "qdma_mbox_compose_vf_intr_ctxt_read fid intr_ctxt = compose_msg MBOX_OP_INTR_CTXT_RD fid
     (qdma_mbox_memcpy 8 intr_ctxt 0 sizeof_intr_ctxt)"

definition qdma_mbox_compose_vf_intr_ctxt_clear :: "u16 \<Rightarrow> mem \<Rightarrow> mem option \<Rightarrow> int \<times> mem option" where
  "qdma_mbox_compose_vf_intr_ctxt_clear fid intr_ctxt = compose_msg MBOX_OP_INTR_CTXT_CLR fid
     (qdma_mbox_memcpy 8 intr_ctxt 0 sizeof_intr_ctxt)"

definition qdma_mbox_compose_vf_intr_ctxt_invalidate :: "u16 \<Rightarrow> mem \<Rightarrow> mem option \<Rightarrow> int \<times> mem option" where
  "qdma_mbox_compose_vf_intr_ctxt_invalidate fid intr_ctxt = compose_msg MBOX_OP_INTR_CTXT_INV fid
     (qdma_mbox_memcpy 8 intr_ctxt 0 sizeof_intr_ctxt)"

text \<open>The messages of a physical function take the function ids as bytes.\<close>

definition qdma_mbox_compose_vf_reset_message :: "u8 \<Rightarrow> u8 \<Rightarrow> mem option \<Rightarrow> int \<times> mem option" where
  "qdma_mbox_compose_vf_reset_message src_funcid dest_funcid = compose_msg MBOX_OP_RESET_PREPARE (ucast src_funcid) (set_dst_func_id (ucast dest_funcid))"

definition qdma_mbox_compose_pf_reset_done_message :: "u8 \<Rightarrow> u8 \<Rightarrow> mem option \<Rightarrow> int \<times> mem option" where
  "qdma_mbox_compose_pf_reset_done_message src_funcid dest_funcid = compose_msg MBOX_OP_RESET_DONE (ucast src_funcid) (set_dst_func_id (ucast dest_funcid))"

definition qdma_mbox_compose_pf_offline :: "u8 \<Rightarrow> u8 \<Rightarrow> mem option \<Rightarrow> int \<times> mem option" where
  "qdma_mbox_compose_pf_offline src_funcid dest_funcid = compose_msg MBOX_OP_PF_BYE (ucast src_funcid) (set_dst_func_id (ucast dest_funcid))"

subsection \<open>Reading a received message\<close>

text \<open>The opcode of the request plus the offset is compared as an int, without wrapping.\<close>

definition qdma_mbox_is_msg_response :: "mem \<Rightarrow> mem \<Rightarrow> u8" where
  "qdma_mbox_is_msg_response send_data rcv_data =
     (if unat (hdr_op send_data) + MBOX_MSG_OP_RSP_OFFSET = unat (hdr_op rcv_data) then 1 else 0)"

definition qdma_mbox_vf_response_status :: "mem \<Rightarrow> int" where
  "qdma_mbox_vf_response_status rcv_data = hdr_status rcv_data"

text \<open>The next two return a \<open>uint8_t\<close>: the upper half of the function id is lost.\<close>

definition qdma_mbox_vf_func_id_get :: "mem \<Rightarrow> u8 \<Rightarrow> u8" where
  "qdma_mbox_vf_func_id_get rcv_data is_vf =
     ucast (if is_vf \<noteq> 0 then hdr_dst_func_id rcv_data else hdr_src_func_id rcv_data)"

definition qdma_mbox_vf_parent_func_id_get :: "mem \<Rightarrow> u8" where
  "qdma_mbox_vf_parent_func_id_get rcv_data = ucast (hdr_src_func_id rcv_data)"

definition qdma_mbox_vf_active_queues_get :: "mem \<Rightarrow> qdma_dev_q_type \<Rightarrow> int" where
  "qdma_mbox_vf_active_queues_get rcv_data q_type =
     (let q0 = 0;
          q1 = (if q_type = QDMA_DEV_Q_TYPE_H2C then qcnt_h2c_queues rcv_data else q0);
          q2 = (if q_type = QDMA_DEV_Q_TYPE_C2H then qcnt_c2h_queues rcv_data else q1);
          q3 = (if q_type = QDMA_DEV_Q_TYPE_CMPT then qcnt_cmpt_queues rcv_data else q2)
      in sint q3)"

definition qdma_mbox_vf_dev_info_get :: "mem \<Rightarrow> int \<times> qdma_dev_attributes \<times> u32" where
  "qdma_mbox_vf_dev_info_get rcv_data =
     (hdr_status rcv_data, load_dev_attributes 16 rcv_data, hello_dma_device_index rcv_data)"

definition qdma_mbox_vf_qinfo_get :: "mem \<Rightarrow> int \<times> c_int \<times> u16" where
  "qdma_mbox_vf_qinfo_get rcv_data = (hdr_status rcv_data, fmap_qbase rcv_data, ucast (fmap_qmax rcv_data))"

text \<open>The copies go to the caller's struct, at address 0 of its memory.\<close>

definition qdma_mbox_vf_csr_get :: "mem \<Rightarrow> mem \<Rightarrow> int \<times> mem" where
  "qdma_mbox_vf_csr_get rcv_data csr = (hdr_status rcv_data, qdma_mbox_memcpy 0 rcv_data 6 sizeof_csr_info csr)"

text \<open>The number of bytes to copy is cut down to a byte.\<close>

definition qdma_mbox_vf_reg_list_get :: "mem \<Rightarrow> mem \<Rightarrow> int \<times> u16 \<times> mem" where
  "qdma_mbox_vf_reg_list_get rcv_data reg_list =
     (let num_regs = reg_num_regs rcv_data
      in (hdr_status rcv_data, num_regs, qdma_mbox_memcpy 0 rcv_data 12 (ucast num_regs * 8) reg_list))"

definition qdma_mbox_vf_context_get :: "mem \<Rightarrow> mem \<Rightarrow> int \<times> mem" where
  "qdma_mbox_vf_context_get rcv_data ctxt =
     (hdr_status rcv_data, qdma_mbox_memcpy 0 rcv_data QCTXT_UNION sizeof_descq_context ctxt)"

definition qdma_mbox_vf_intr_context_get :: "mem \<Rightarrow> mem \<Rightarrow> int \<times> mem" where
  "qdma_mbox_vf_intr_context_get rcv_data ictxt =
     (hdr_status rcv_data, qdma_mbox_memcpy 0 rcv_data 8 sizeof_intr_ctxt ictxt)"

subsection \<open>Messages a virtual function receives\<close>

definition vf_answer :: "mem \<Rightarrow> mem \<Rightarrow> mem" where
  "vf_answer rcv = set_src_func_id (hdr_dst_func_id rcv) \<circ> set_dst_func_id (hdr_src_func_id rcv) \<circ>
     set_op (hdr_op rcv + 0x80)"

definition qdma_mbox_vf_rcv_msg_handler :: "mem \<Rightarrow> mem \<Rightarrow> int \<times> mem" where
  "qdma_mbox_vf_rcv_msg_handler rcv resp =
     (if hdr_op rcv = MBOX_OP_RESET_PREPARE then (QDMA_MBOX_VF_RESET, vf_answer rcv resp)
      else if hdr_op rcv = MBOX_OP_RESET_DONE then (QDMA_MBOX_PF_RESET_DONE, vf_answer rcv resp)
      else if hdr_op rcv = MBOX_OP_PF_BYE then (QDMA_MBOX_PF_BYE, vf_answer rcv resp)
      else (0, resp))"


subsection \<open>The requests of a virtual function\<close>

text \<open>
  What a virtual function can ask for, each request with the composer that puts it into a message and
  the way the physical function reads it. A configuration or an interrupt context is its bytes.
\<close>

datatype vf_request =
    VF_Online u32 c_int | VF_Offline | VF_Reset_Offline
  | VF_Fmap u32 c_int | VF_Csr | VF_Qreq u32 c_int
  | VF_Notify_Add u16 qdma_dev_q_type | VF_Notify_Del u16 qdma_dev_q_type | VF_Active_Cnt
  | VF_Qctxt_Write u16 u8 u8 mbox_cmpt_ctxt_type "u8 list"
  | VF_Qctxt_Read u16 u8 u8 mbox_cmpt_ctxt_type
  | VF_Qctxt_Clear u16 u8 u8 mbox_cmpt_ctxt_type
  | VF_Qctxt_Invalidate u16 u8 u8 mbox_cmpt_ctxt_type
  | VF_Intr_Write "u8 list" | VF_Intr_Read "u8 list" | VF_Intr_Clear "u8 list" | VF_Intr_Invalidate "u8 list"
  | VF_Reg_Read u16

definition mem_of :: "u8 list \<Rightarrow> mem" where
  "mem_of bs = (\<lambda>i. if i < length bs then bs ! i else 0)"

fun compose_request :: "u16 \<Rightarrow> vf_request \<Rightarrow> mem option \<Rightarrow> int \<times> mem option" where
  "compose_request f (VF_Online qm qb) = qmda_mbox_compose_vf_online f (ucast qm) qb"
| "compose_request f VF_Offline = qdma_mbox_compose_vf_offline f"
| "compose_request f VF_Reset_Offline = qdma_mbox_compose_vf_reset_offline f"
| "compose_request f (VF_Fmap qm qb) = qdma_mbox_compose_vf_fmap_prog f (ucast qm) qb"
| "compose_request f VF_Csr = qdma_mbox_compose_csr_read f"
| "compose_request f (VF_Qreq qm qb) = qdma_mbox_compose_vf_qreq f (ucast qm) qb"
| "compose_request f (VF_Notify_Add q t) = qdma_mbox_compose_vf_notify_qadd f q t"
| "compose_request f (VF_Notify_Del q t) = qdma_mbox_compose_vf_notify_qdel f q t"
| "compose_request f VF_Active_Cnt = qdma_mbox_compose_vf_get_device_active_qcnt f"
| "compose_request f (VF_Qctxt_Write q st c2h ct bs) = qdma_mbox_compose_vf_qctxt_write f q st c2h ct (mem_of bs)"
| "compose_request f (VF_Qctxt_Read q st c2h ct) = qdma_mbox_compose_vf_qctxt_read f q st c2h ct"
| "compose_request f (VF_Qctxt_Clear q st c2h ct) = qdma_mbox_compose_vf_qctxt_clear f q st c2h ct"
| "compose_request f (VF_Qctxt_Invalidate q st c2h ct) = qdma_mbox_compose_vf_qctxt_invalidate f q st c2h ct"
| "compose_request f (VF_Intr_Write bs) = qdma_mbox_compose_vf_intr_ctxt_write f (mem_of bs)"
| "compose_request f (VF_Intr_Read bs) = qdma_mbox_compose_vf_intr_ctxt_read f (mem_of bs)"
| "compose_request f (VF_Intr_Clear bs) = qdma_mbox_compose_vf_intr_ctxt_clear f (mem_of bs)"
| "compose_request f (VF_Intr_Invalidate bs) = qdma_mbox_compose_vf_intr_ctxt_invalidate f (mem_of bs)"
| "compose_request f (VF_Reg_Read g) = qdma_mbox_compose_reg_read f g"

definition bytes_at :: "nat \<Rightarrow> nat \<Rightarrow> mem \<Rightarrow> u8 list" where
  "bytes_at a n m = map (\<lambda>i. m (a + i)) [0..<n]"

definition request_of :: "mem \<Rightarrow> vf_request option" where
  "request_of m =
     (let op = hdr_op m;
          q = qctxt_qid_hw m; st = qctxt_st m; c2h = qctxt_c2h m; ct = qctxt_cmpt_ctxt_type m
      in if op = MBOX_OP_HELLO then Some (VF_Online (fmap_qmax m) (fmap_qbase m))
         else if op = MBOX_OP_VF_BYE then Some VF_Offline
         else if op = MBOX_OP_PF_RESET_VF_BYE then Some VF_Reset_Offline
         else if op = MBOX_OP_FMAP then Some (VF_Fmap (fmap_qmax m) (fmap_qbase m))
         else if op = MBOX_OP_CSR then Some VF_Csr
         else if op = MBOX_OP_QREQ then Some (VF_Qreq (fmap_qmax m) (fmap_qbase m))
         else if op = MBOX_OP_QNOTIFY_ADD then Some (VF_Notify_Add (notify_qid_hw m) (notify_q_type m))
         else if op = MBOX_OP_QNOTIFY_DEL then Some (VF_Notify_Del (notify_qid_hw m) (notify_q_type m))
         else if op = MBOX_OP_GET_QACTIVE_CNT then Some VF_Active_Cnt
         else if op = MBOX_OP_QCTXT_WRT then Some (VF_Qctxt_Write q st c2h ct (bytes_at QCTXT_UNION (unat sizeof_descq_conf) m))
         else if op = MBOX_OP_QCTXT_RD then Some (VF_Qctxt_Read q st c2h ct)
         else if op = MBOX_OP_QCTXT_CLR then Some (VF_Qctxt_Clear q st c2h ct)
         else if op = MBOX_OP_QCTXT_INV then Some (VF_Qctxt_Invalidate q st c2h ct)
         else if op = MBOX_OP_INTR_CTXT_WRT then Some (VF_Intr_Write (bytes_at 8 (unat sizeof_intr_ctxt) m))
         else if op = MBOX_OP_INTR_CTXT_RD then Some (VF_Intr_Read (bytes_at 8 (unat sizeof_intr_ctxt) m))
         else if op = MBOX_OP_INTR_CTXT_CLR then Some (VF_Intr_Clear (bytes_at 8 (unat sizeof_intr_ctxt) m))
         else if op = MBOX_OP_INTR_CTXT_INV then Some (VF_Intr_Invalidate (bytes_at 8 (unat sizeof_intr_ctxt) m))
         else if op = MBOX_OP_REG_LIST_READ then Some (VF_Reg_Read (reg_group_num m))
         else None)"

text \<open>What fits into the fields of a message.\<close>

fun request_fits :: "vf_request \<Rightarrow> bool" where
  "request_fits (VF_Online qm qb) \<longleftrightarrow> unat qm < 2 ^ 16"
| "request_fits (VF_Fmap qm qb) \<longleftrightarrow> unat qm < 2 ^ 16"
| "request_fits (VF_Qreq qm qb) \<longleftrightarrow> unat qm < 2 ^ 16"
| "request_fits (VF_Qctxt_Write q st c2h ct bs) \<longleftrightarrow> st \<in> {0, 1} \<and> c2h \<in> {0, 1} \<and> length bs = 32"
| "request_fits (VF_Qctxt_Read q st c2h ct) \<longleftrightarrow> st \<in> {0, 1} \<and> c2h \<in> {0, 1}"
| "request_fits (VF_Qctxt_Clear q st c2h ct) \<longleftrightarrow> st \<in> {0, 1} \<and> c2h \<in> {0, 1}"
| "request_fits (VF_Qctxt_Invalidate q st c2h ct) \<longleftrightarrow> st \<in> {0, 1} \<and> c2h \<in> {0, 1}"
| "request_fits (VF_Intr_Write bs) \<longleftrightarrow> length bs = 40"
| "request_fits (VF_Intr_Read bs) \<longleftrightarrow> length bs = 40"
| "request_fits (VF_Intr_Clear bs) \<longleftrightarrow> length bs = 40"
| "request_fits (VF_Intr_Invalidate bs) \<longleftrightarrow> length bs = 40"
| "request_fits _ \<longleftrightarrow> True"

lemmas composers = qmda_mbox_compose_vf_online_def qdma_mbox_compose_vf_offline_def
  qdma_mbox_compose_vf_reset_offline_def qdma_mbox_compose_vf_qreq_def qdma_mbox_compose_vf_fmap_prog_def
  qdma_mbox_compose_vf_notify_qadd_def qdma_mbox_compose_vf_notify_qdel_def
  qdma_mbox_compose_vf_get_device_active_qcnt_def qdma_mbox_compose_vf_qctxt_write_def
  qdma_mbox_compose_vf_qctxt_read_def qdma_mbox_compose_vf_qctxt_invalidate_def qdma_mbox_compose_vf_qctxt_clear_def
  qdma_mbox_compose_csr_read_def qdma_mbox_compose_reg_read_def qdma_mbox_compose_vf_intr_ctxt_write_def
  qdma_mbox_compose_vf_intr_ctxt_read_def qdma_mbox_compose_vf_intr_ctxt_clear_def
  qdma_mbox_compose_vf_intr_ctxt_invalidate_def

lemma ucast_ucast_fits: "unat (w :: u32) < 2 ^ 16 \<Longrightarrow> (ucast (ucast w :: u16) :: u32) = w"
  by (simp add: word_unat_eq_iff unsigned_ucast_eq unsigned_take_bit_eq take_bit_nat_eq_self)

lemma mod_2_flag: "(v :: u8) = 0 \<or> v = 1 \<Longrightarrow> v mod 2 = v"
  by auto

lemma bytes_at_memcpy:
  assumes "length bs = unat sz"
  shows "bytes_at a (unat sz) (qdma_mbox_memcpy a (mem_of bs) 0 sz m) = bs"
  using assms by (intro nth_equalityI) (auto simp: bytes_at_def mem_of_def)

text \<open>The body of a composer changes nothing past the union and the header is set before it.\<close>

definition keeps_outside :: "(mem \<Rightarrow> mem) \<Rightarrow> bool" where
  "keeps_outside body \<longleftrightarrow> (\<forall>m x. x < 6 \<or> 128 \<le> x \<longrightarrow> body m x = m x)"

lemma keeps_outsideI:
  "keeps_outside id" "keeps_outside (set_fmap qb qm)" "keeps_outside (set_notify q t)"
  "keeps_outside (set_qctxt q st c2h ct)" "keeps_outside (set_reg_group_num g)"
  "keeps_outside (qdma_mbox_memcpy 8 src 0 sizeof_intr_ctxt)"
  "keeps_outside (qdma_mbox_memcpy QCTXT_UNION src 0 sizeof_descq_conf)"
  by (auto simp: keeps_outside_def layout)

lemma keeps_outside_comp: "keeps_outside f \<Longrightarrow> keeps_outside g \<Longrightarrow> keeps_outside (f \<circ> g)"
  by (auto simp: keeps_outside_def)

lemma compose_msg_spec:
  assumes "keeps_outside body" and "compose_msg op src body (Some m) = (rv, Some m')"
  shows "rv = 0" "hdr_op m' = op" "hdr_src_func_id m' = src" "hdr_dst_func_id m' = 0" "hdr_status m' = 0"
    "\<forall>x. 128 \<le> x \<longrightarrow> m' x = (if x < 152 then 0 else m x)"
    "m' = body (set_src_func_id src (set_op op (qdma_mbox_memset 0 0 sizeof_txrx m)))"
proof -
  let ?m = "set_src_func_id src (set_op op (qdma_mbox_memset 0 0 sizeof_txrx m))"
  show m': "m' = body ?m" and "rv = 0" using assms(2) by (auto simp: compose_msg_def)
  have l: "(load a m' :: 'b::len word) = load a ?m" if "a + LENGTH('b) div 8 \<le> 6" for a
    unfolding m' using assms(1) that by (intro load_cong) (auto simp: keeps_outside_def)
  show "hdr_op m' = op" "hdr_src_func_id m' = src" "hdr_dst_func_id m' = 0" "hdr_status m' = 0"
    by (simp_all add: layout l load_memset_0)
  show "\<forall>x. 128 \<le> x \<longrightarrow> m' x = (if x < 152 then 0 else m x)"
    unfolding m' using assms(1) by (auto simp: keeps_outside_def layout)
qed

lemma compose_request_msg:
  obtains op body where "compose_request f r = compose_msg op f body" and "keeps_outside body"
  by (cases r; simp add: composers; blast intro: keeps_outsideI keeps_outside_comp)

lemma request_of_composed:
  assumes "request_fits r" and "compose_request f r (Some m) = (rv, Some m')"
  shows "request_of m' = Some r"
  using assms
  by (cases r; clarsimp simp: composers compose_msg_def request_of_def Let_def layout op_codes load_memset_0 load_memcpy_other
      ucast_ucast_fits mod_2_flag bytes_at_memcpy [where sz = 32, simplified] bytes_at_memcpy [where sz = 40, simplified])

subsection \<open>Properties\<close>

text \<open>
  C30: each request a virtual function composes is the one the physical function reads from the message, with every
  argument, and the message names its sender; without a buffer a composer refuses.
\<close>

theorem compose_request_read:
  assumes "request_fits r"
  shows "compose_request f r None = (neg_err QDMA_ERR_INV_PARAM, None) \<and>
    (\<exists>m'. compose_request f r (Some m) = (0, Some m') \<and> hdr_src_func_id m' = f \<and> request_of m' = Some r)"
proof -
  obtain op body where c: "compose_request f r = compose_msg op f body" "keeps_outside body"
    by (rule compose_request_msg)
  obtain m' where m': "compose_msg op f body (Some m) = (0, Some m')" by (simp add: compose_msg_def)
  note s = compose_msg_spec [OF c(2) m']
  have "request_of m' = Some r" using m' by (intro request_of_composed [OF assms, of f m 0]) (simp add: c(1))
  with c(1) m' s(3) show ?thesis by (auto simp: compose_msg_def)
qed

theorem compose_request_read_witness:
  "\<exists>m'. qdma_mbox_compose_vf_qctxt_write 7 12 1 1 QDMA_MBOX_CMPT_WITH_ST (mem_of (replicate 32 9)) (Some (\<lambda>_. 255)) = (0, Some m') \<and>
     request_of m' = Some (VF_Qctxt_Write 12 1 1 QDMA_MBOX_CMPT_WITH_ST (replicate 32 9))"
  using compose_request_read [of "VF_Qctxt_Write 12 1 1 QDMA_MBOX_CMPT_WITH_ST (replicate 32 9)" 7 "\<lambda>_. 255"] by auto

text \<open>
  Every composer writes zeros to the 24 bytes that follow the 128-byte buffer of its caller, whatever they held.
\<close>

theorem compose_request_overruns:
  "\<exists>m'. compose_request f r (Some m) = (0, Some m') \<and> (\<forall>x. 128 \<le> x \<and> x < 152 \<longrightarrow> m' x = 0) \<and>
    (\<forall>x. 152 \<le> x \<longrightarrow> m' x = m x)"
proof -
  obtain op body where c: "compose_request f r = compose_msg op f body" "keeps_outside body"
    by (rule compose_request_msg)
  obtain m' where m': "compose_msg op f body (Some m) = (0, Some m')" by (simp add: compose_msg_def)
  show ?thesis using compose_msg_spec(6) [OF c(2) m'] m' c(1) by auto
qed

theorem compose_request_overruns_witness:
  "\<exists>m'. qdma_mbox_compose_vf_offline 7 (Some (\<lambda>_. 255)) = (0, Some m') \<and> m' 128 = 0 \<and> m' 151 = 0 \<and> m' 152 = 255"
  using compose_request_overruns [of 7 VF_Offline "\<lambda>_. 255"] by auto

end
