(* ===== verification/Mbox_Handler.thy ===== *)
theory Mbox_Handler
  imports Mbox_Msg Soft_Csr
begin

section \<open>The physical function's side of the mailbox (qdma\_mbox\_protocol.c)\<close>

text \<open>
  A physical function answers the requests of its virtual functions: it keeps their queue ranges in the
  resource manager and programs the contexts of their queues. The device is reached through the table of
  functions \<open>struct qdma_hw_access\<close> that \<open>qdma_hw_access_init\<close> fills for it.
\<close>

unbundle bit_operations_syntax

subsection \<open>The table of functions\<close>

text \<open>The members the mailbox uses; each function is already applied to the device handle.\<close>

record 's qdma_hw_access =
  hw_global_csr_conf :: "u8 \<Rightarrow> u8 \<Rightarrow> u32 list option \<Rightarrow> qdma_global_csr_type \<Rightarrow> qdma_hw_access_type \<Rightarrow> 's \<Rightarrow> int \<times> u32 list option \<times> 's"
  hw_fmap_conf :: "u16 \<Rightarrow> qdma_fmap_cfg option \<Rightarrow> qdma_hw_access_type \<Rightarrow> 's \<Rightarrow> int \<times> qdma_fmap_cfg option \<times> 's"
  hw_sw_ctx_conf :: "u8 \<Rightarrow> u16 \<Rightarrow> qdma_descq_sw_ctxt option \<Rightarrow> qdma_hw_access_type \<Rightarrow> 's \<Rightarrow> int \<times> qdma_descq_sw_ctxt option \<times> 's"
  hw_pfetch_ctx_conf :: "u16 \<Rightarrow> qdma_descq_prefetch_ctxt option \<Rightarrow> qdma_hw_access_type \<Rightarrow> 's \<Rightarrow> int \<times> qdma_descq_prefetch_ctxt option \<times> 's"
  hw_cmpt_ctx_conf :: "u16 \<Rightarrow> qdma_descq_cmpt_ctxt option \<Rightarrow> qdma_hw_access_type \<Rightarrow> 's \<Rightarrow> int \<times> qdma_descq_cmpt_ctxt option \<times> 's"
  hw_hw_ctx_conf :: "u8 \<Rightarrow> u16 \<Rightarrow> qdma_descq_hw_ctxt option \<Rightarrow> qdma_hw_access_type \<Rightarrow> 's \<Rightarrow> int \<times> qdma_descq_hw_ctxt option \<times> 's"
  hw_credit_ctx_conf :: "u8 \<Rightarrow> u16 \<Rightarrow> qdma_descq_credit_ctxt option \<Rightarrow> qdma_hw_access_type \<Rightarrow> 's \<Rightarrow> int \<times> qdma_descq_credit_ctxt option \<times> 's"
  hw_indirect_intr_ctx_conf :: "u16 \<Rightarrow> qdma_indirect_intr_ctxt option \<Rightarrow> qdma_hw_access_type \<Rightarrow> 's \<Rightarrow> int \<times> qdma_indirect_intr_ctxt option \<times> 's"
  hw_get_device_attributes :: "qdma_dev_attributes option \<Rightarrow> 's \<Rightarrow> int \<times> qdma_dev_attributes option \<times> 's"
  hw_read_reg_list :: "u8 \<Rightarrow> u16 \<Rightarrow> 's \<Rightarrow> int \<times> (u16 \<times> (u32 \<times> u32) list) option \<times> 's"
  mbox_base_pf :: u32
  mbox_base_vf :: u32

text \<open>
  The table of an EQDMA device. The accesses to the global values are those of the soft QDMA. Reading
  a register list, which walks the generated register tables, is a parameter: the number of registers and the
  pairs it stores, or nothing.
\<close>

definition EQDMA_OFFSET_MBOX_BASE_PF :: u32 where "EQDMA_OFFSET_MBOX_BASE_PF = 0x22400"
definition EQDMA_OFFSET_MBOX_BASE_VF :: u32 where "EQDMA_OFFSET_MBOX_BASE_VF = 0x5000"

definition eqdma_hw_access ::
    "'s mmio \<Rightarrow> (u8 \<Rightarrow> u16 \<Rightarrow> 's \<Rightarrow> int \<times> (u16 \<times> (u32 \<times> u32) list) option \<times> 's) \<Rightarrow> 's qdma_hw_access" where
  "eqdma_hw_access mm read_reg_list =
     \<lparr>hw_global_csr_conf = qdma_global_csr_conf mm True,
      hw_fmap_conf = eqdma_fmap_conf mm True,
      hw_sw_ctx_conf = eqdma_sw_ctx_conf mm True,
      hw_pfetch_ctx_conf = eqdma_pfetch_ctx_conf mm True,
      hw_cmpt_ctx_conf = eqdma_cmpt_ctx_conf mm True,
      hw_hw_ctx_conf = eqdma_hw_ctx_conf mm True,
      hw_credit_ctx_conf = eqdma_credit_ctx_conf mm True,
      hw_indirect_intr_ctx_conf = eqdma_indirect_intr_ctx_conf mm True,
      hw_get_device_attributes = eqdma_get_device_attributes mm True,
      hw_read_reg_list = read_reg_list,
      mbox_base_pf = EQDMA_OFFSET_MBOX_BASE_PF, mbox_base_vf = EQDMA_OFFSET_MBOX_BASE_VF\<rparr>"

text \<open>\<open>rv = f(); if (rv < 0) return rv;\<close> and then the rest. The context argument of a call without one is dropped.\<close>

definition then_do :: "int \<times> 's \<Rightarrow> ('s \<Rightarrow> int \<times> 's) \<Rightarrow> int \<times> 's" where
  "then_do r k = (if fst r < 0 then r else k (snd r))"

definition no_ctxt :: "int \<times> 'c \<times> 's \<Rightarrow> int \<times> 's" where
  "no_ctxt r = (fst r, snd (snd r))"

subsection \<open>Indices of global values\<close>

definition QDMA_GLOBAL_CSR_ARRAY_SZ :: nat where "QDMA_GLOBAL_CSR_ARRAY_SZ = 16"

text \<open>A table is read into an array of zeros; the status and the array come back.\<close>

definition csr_table :: "'s qdma_hw_access \<Rightarrow> qdma_global_csr_type \<Rightarrow> 's \<Rightarrow> int \<times> u32 list \<times> 's" where
  "csr_table hw t s =
     (let (rv, vals, s') = hw_global_csr_conf hw 0 (of_nat QDMA_GLOBAL_CSR_ARRAY_SZ)
            (Some (replicate QDMA_GLOBAL_CSR_ARRAY_SZ 0)) t QDMA_HW_ACCESS_READ s
      in (rv, case vals of Some vs \<Rightarrow> vs | None \<Rightarrow> replicate QDMA_GLOBAL_CSR_ARRAY_SZ 0, s'))"

text \<open>The lookups write their result through a pointer only when they find the value.\<close>

definition get_ring_idx :: "'s qdma_hw_access \<Rightarrow> u16 \<Rightarrow> u16 \<Rightarrow> 's \<Rightarrow> int \<times> u16 \<times> 's" where
  "get_ring_idx hw ring_sz rng_idx s =
     (let (rv, rng_sz, s') = csr_table hw QDMA_CSR_RING_SZ s
      in if rv \<noteq> 0 then (rv, rng_idx, s')
         else case find (\<lambda>i. ucast ring_sz = rng_sz ! i - 1) [0..<QDMA_GLOBAL_CSR_ARRAY_SZ] of
           Some i \<Rightarrow> (err_code QDMA_SUCCESS, of_nat i, s')
         | None \<Rightarrow> (neg_err QDMA_ERR_MBOX_INV_RINGSZ, rng_idx, s'))"

definition get_buf_idx :: "'s qdma_hw_access \<Rightarrow> u16 \<Rightarrow> u16 \<Rightarrow> 's \<Rightarrow> int \<times> u16 \<times> 's" where
  "get_buf_idx hw buf_sz buf_idx s =
     (let (rv, c2h_buf_sz, s') = csr_table hw QDMA_CSR_BUF_SZ s
      in if rv \<noteq> 0 then (rv, buf_idx, s')
         else case find (\<lambda>i. c2h_buf_sz ! i = ucast buf_sz) [0..<QDMA_GLOBAL_CSR_ARRAY_SZ] of
           Some i \<Rightarrow> (err_code QDMA_SUCCESS, of_nat i, s')
         | None \<Rightarrow> (neg_err QDMA_ERR_MBOX_INV_BUFSZ, buf_idx, s'))"

definition get_cntr_idx :: "'s qdma_hw_access \<Rightarrow> u8 \<Rightarrow> u8 \<Rightarrow> 's \<Rightarrow> int \<times> u8 \<times> 's" where
  "get_cntr_idx hw cntr_val cntr_idx s =
     (let (rv, cntr_th, s') = csr_table hw QDMA_CSR_CNT_TH s
      in if rv \<noteq> 0 then (rv, cntr_idx, s')
         else case find (\<lambda>i. cntr_th ! i = ucast cntr_val) [0..<QDMA_GLOBAL_CSR_ARRAY_SZ] of
           Some i \<Rightarrow> (err_code QDMA_SUCCESS, of_nat i, s')
         | None \<Rightarrow> (neg_err QDMA_ERR_MBOX_INV_CNTR_TH, cntr_idx, s'))"

definition get_tmr_idx :: "'s qdma_hw_access \<Rightarrow> u8 \<Rightarrow> u8 \<Rightarrow> 's \<Rightarrow> int \<times> u8 \<times> 's" where
  "get_tmr_idx hw tmr_val tmr_idx s =
     (let (rv, tmr_th, s') = csr_table hw QDMA_CSR_TIMER_CNT s
      in if rv \<noteq> 0 then (rv, tmr_idx, s')
         else case find (\<lambda>i. tmr_th ! i = ucast tmr_val) [0..<QDMA_GLOBAL_CSR_ARRAY_SZ] of
           Some i \<Rightarrow> (err_code QDMA_SUCCESS, of_nat i, s')
         | None \<Rightarrow> (neg_err QDMA_ERR_MBOX_INV_TMR_TH, tmr_idx, s'))"

subsection \<open>Contexts from a queue configuration\<close>

definition mbox_compose_sw_context :: "'s qdma_hw_access \<Rightarrow> mem option \<Rightarrow> qdma_descq_sw_ctxt option \<Rightarrow> 's \<Rightarrow>
    int \<times> qdma_descq_sw_ctxt option \<times> 's" where
  "mbox_compose_sw_context hw qctxt sw_ctxt s =
     (case (qctxt, sw_ctxt) of
        (Some q, Some c) \<Rightarrow>
          (let a = QCTXT_UNION; (rv, rng_idx, s') = get_ring_idx hw (dc_ringsz a q) 0 s
           in if rv < 0 then (rv, sw_ctxt, s')
              else (let c1 = c\<lparr>sw_vec := dc_intr_id a q, sw_intr_aggr := dc_intr_aggr a q,
                      sw_ring_bs_addr := dc_ring_bs_addr a q, sw_wbi_chk := dc_wbi_chk a q,
                      sw_wbi_intvl_en := dc_wbi_intvl_en a q, sw_rngsz_idx := ucast rng_idx,
                      sw_bypass := dc_en_bypass a q, sw_wbk_en := dc_wbk_en a q, sw_irq_en := dc_irq_en a q,
                      sw_is_mm := NOT (qctxt_st q), sw_mm_chn := 0, sw_qen := 1, sw_frcd_en := dc_forced_en a q,
                      sw_desc_sz := dc_desc_sz a q, sw_fnc_id := ucast (dc_func_id a q),
                      sw_irq_arm := dc_irq_arm a q\<rparr>;
                    c2 = (if qctxt_st q \<noteq> 0 \<and> qctxt_c2h q \<noteq> 0
                      then c1\<lparr>sw_irq_en := 0, sw_irq_arm := 0, sw_wbk_en := 0, sw_wbi_chk := 0\<rparr> else c1)
                 in (err_code QDMA_SUCCESS, Some c2, s')))
      | _ \<Rightarrow> (neg_err QDMA_ERR_INV_PARAM, sw_ctxt, s))"

definition mbox_compose_prefetch_context :: "'s qdma_hw_access \<Rightarrow> mem option \<Rightarrow> qdma_descq_prefetch_ctxt option \<Rightarrow> 's \<Rightarrow>
    int \<times> qdma_descq_prefetch_ctxt option \<times> 's" where
  "mbox_compose_prefetch_context hw qctxt pfetch_ctxt s =
     (case (qctxt, pfetch_ctxt) of
        (Some q, Some c) \<Rightarrow>
          (let a = QCTXT_UNION; (rv, buf_idx, s') = get_buf_idx hw (dc_bufsz a q) 0 s
           in if rv < 0 then (rv, pfetch_ctxt, s')
              else (err_code QDMA_SUCCESS,
                    Some (c\<lparr>pf_valid := 1, pf_bypass := dc_en_bypass_prefetch a q, pf_bufsz_idx := ucast buf_idx,
                            pf_pfch_en := dc_pfch_en a q\<rparr>), s'))
      | _ \<Rightarrow> (neg_err QDMA_ERR_INV_PARAM, pfetch_ctxt, s))"

definition mbox_compose_cmpt_context :: "'s qdma_hw_access \<Rightarrow> mem option \<Rightarrow> qdma_descq_cmpt_ctxt option \<Rightarrow> 's \<Rightarrow>
    int \<times> qdma_descq_cmpt_ctxt option \<times> 's" where
  "mbox_compose_cmpt_context hw qctxt cmpt_ctxt s =
     (case (qctxt, cmpt_ctxt) of
        (Some q, Some c) \<Rightarrow>
          (let a = QCTXT_UNION; (rv1, cntr_idx, s1) = get_cntr_idx hw (dc_cnt_thres a q) 0 s
           in if rv1 < 0 then (rv1, cmpt_ctxt, s1)
              else (let (rv2, tmr_idx, s2) = get_tmr_idx hw (dc_timer_thres a q) 0 s1
              in if rv2 < 0 then (rv2, cmpt_ctxt, s2)
              else (let (rv3, rng_idx, s3) = get_ring_idx hw (dc_cmpt_ringsz a q) 0 s2
              in if rv3 < 0 then (rv3, cmpt_ctxt, s3)
              else (err_code QDMA_SUCCESS,
                    Some (c\<lparr>cm_bs_addr := dc_cmpt_ring_bs_addr a q, cm_en_stat_desc := dc_cmpl_stat_en a q,
                            cm_en_int := dc_cmpt_int_en a q, cm_trig_mode := dc_triggermode a q,
                            cm_fnc_id := ucast (dc_func_id a q), cm_timer_idx := tmr_idx, cm_counter_idx := cntr_idx,
                            cm_color := 1, cm_ringsz_idx := ucast rng_idx, cm_desc_sz := dc_cmpt_desc_sz a q,
                            cm_valid := 1, cm_ovf_chk_dis := dc_dis_overflow_check a q, cm_vec := dc_intr_id a q,
                            cm_int_aggr := dc_intr_aggr a q\<rparr>), s3))))
      | _ \<Rightarrow> (neg_err QDMA_ERR_INV_PARAM, cmpt_ctxt, s))"

subsection \<open>The contexts of a queue\<close>

text \<open>
  A failed range check returns the status of the last call, which succeeded: the caller sees success.
  The resource manager is only read here.
\<close>

definition mbox_clear_queue_contexts :: "'s qdma_hw_access \<Rightarrow> u8 \<Rightarrow> u16 \<Rightarrow> u16 \<Rightarrow> u8 \<Rightarrow> u8 \<Rightarrow> mbox_cmpt_ctxt_type \<Rightarrow>
    rm_state \<Rightarrow> 's \<Rightarrow> int \<times> 's" where
  "mbox_clear_queue_contexts hw idx fid qid_hw st c2h cmpt_ctxt_type rm s =
     (if cmpt_ctxt_type = QDMA_MBOX_CMPT_CTXT_ONLY
      then then_do (no_ctxt (hw_cmpt_ctx_conf hw qid_hw None QDMA_HW_ACCESS_CLEAR s)) (\<lambda>s. (err_code QDMA_SUCCESS, s))
      else case qdma_dev_qinfo_get (ucast idx) fid rm of
        Inl rv \<Rightarrow> (rv, s)
      | Inr _ \<Rightarrow>
          if qdma_dev_is_queue_in_range (ucast idx) fid (ucast qid_hw) rm \<noteq> QDMA_DEV_Q_IN_RANGE
          then (err_code QDMA_SUCCESS, s)
          else then_do (no_ctxt (hw_sw_ctx_conf hw c2h qid_hw None QDMA_HW_ACCESS_CLEAR s)) (\<lambda>s.
               then_do (no_ctxt (hw_hw_ctx_conf hw c2h qid_hw None QDMA_HW_ACCESS_CLEAR s)) (\<lambda>s.
               then_do (no_ctxt (hw_credit_ctx_conf hw c2h qid_hw None QDMA_HW_ACCESS_CLEAR s)) (\<lambda>s.
               then_do (if st \<noteq> 0 \<and> c2h \<noteq> 0
                        then no_ctxt (hw_pfetch_ctx_conf hw qid_hw None QDMA_HW_ACCESS_CLEAR s)
                        else (0, s)) (\<lambda>s.
               then_do (if cmpt_ctxt_type = QDMA_MBOX_CMPT_WITH_MM \<or> cmpt_ctxt_type = QDMA_MBOX_CMPT_WITH_ST
                        then no_ctxt (hw_cmpt_ctx_conf hw qid_hw None QDMA_HW_ACCESS_CLEAR s)
                        else (0, s)) (\<lambda>s.
               (err_code QDMA_SUCCESS, s)))))))"

definition mbox_invalidate_queue_contexts :: "'s qdma_hw_access \<Rightarrow> u8 \<Rightarrow> u16 \<Rightarrow> u16 \<Rightarrow> u8 \<Rightarrow> u8 \<Rightarrow> mbox_cmpt_ctxt_type \<Rightarrow>
    rm_state \<Rightarrow> 's \<Rightarrow> int \<times> 's" where
  "mbox_invalidate_queue_contexts hw idx fid qid_hw st c2h cmpt_ctxt_type rm s =
     (if cmpt_ctxt_type = QDMA_MBOX_CMPT_CTXT_ONLY
      then then_do (no_ctxt (hw_cmpt_ctx_conf hw qid_hw None QDMA_HW_ACCESS_INVALIDATE s)) (\<lambda>s. (err_code QDMA_SUCCESS, s))
      else case qdma_dev_qinfo_get (ucast idx) fid rm of
        Inl rv \<Rightarrow> (rv, s)
      | Inr _ \<Rightarrow>
          if qdma_dev_is_queue_in_range (ucast idx) fid (ucast qid_hw) rm \<noteq> QDMA_DEV_Q_IN_RANGE
          then (err_code QDMA_SUCCESS, s)
          else then_do (no_ctxt (hw_sw_ctx_conf hw c2h qid_hw None QDMA_HW_ACCESS_INVALIDATE s)) (\<lambda>s.
               then_do (no_ctxt (hw_hw_ctx_conf hw c2h qid_hw None QDMA_HW_ACCESS_INVALIDATE s)) (\<lambda>s.
               then_do (no_ctxt (hw_credit_ctx_conf hw c2h qid_hw None QDMA_HW_ACCESS_INVALIDATE s)) (\<lambda>s.
               then_do (if st \<noteq> 0 \<and> c2h \<noteq> 0
                        then no_ctxt (hw_pfetch_ctx_conf hw qid_hw None QDMA_HW_ACCESS_INVALIDATE s)
                        else (0, s)) (\<lambda>s.
               then_do (if cmpt_ctxt_type = QDMA_MBOX_CMPT_WITH_MM \<or> cmpt_ctxt_type = QDMA_MBOX_CMPT_WITH_ST
                        then no_ctxt (hw_cmpt_ctx_conf hw qid_hw None QDMA_HW_ACCESS_INVALIDATE s)
                        else (0, s)) (\<lambda>s.
               (err_code QDMA_SUCCESS, s)))))))"

text \<open>The contexts are composed in a struct of zeros before any of them is programmed.\<close>

definition mbox_write_queue_contexts :: "'s qdma_hw_access \<Rightarrow> u8 \<Rightarrow> mem \<Rightarrow> rm_state \<Rightarrow> 's \<Rightarrow> int \<times> 's" where
  "mbox_write_queue_contexts hw idx qctxt rm s =
     (let fid = dc_func_id QCTXT_UNION qctxt; qid_hw = qctxt_qid_hw qctxt;
          st = qctxt_st qctxt; c2h = qctxt_c2h qctxt; ct = qctxt_cmpt_ctxt_type qctxt
      in case qdma_dev_qinfo_get (ucast idx) fid rm of
        Inl rv \<Rightarrow> (rv, s)
      | Inr _ \<Rightarrow>
          if qdma_dev_is_queue_in_range (ucast idx) fid (ucast qid_hw) rm \<noteq> QDMA_DEV_Q_IN_RANGE
          then (err_code QDMA_SUCCESS, s)
          else if ct = QDMA_MBOX_CMPT_CTXT_ONLY then
            (let (rv, cmpt, s1) = mbox_compose_cmpt_context hw (Some qctxt) (Some cmpt_ctxt_zero) s
             in then_do (rv, s1) (\<lambda>s.
                then_do (no_ctxt (hw_cmpt_ctx_conf hw qid_hw None QDMA_HW_ACCESS_CLEAR s)) (\<lambda>s.
                then_do (no_ctxt (hw_cmpt_ctx_conf hw qid_hw cmpt QDMA_HW_ACCESS_WRITE s)) (\<lambda>s.
                (err_code QDMA_SUCCESS, s)))))
          else
            (let with_st = (st \<noteq> 0 \<and> c2h \<noteq> 0);
                 with_cmpt = (ct = QDMA_MBOX_CMPT_WITH_MM \<or> ct = QDMA_MBOX_CMPT_WITH_ST);
                 (rv1, sw, s1) = mbox_compose_sw_context hw (Some qctxt) (Some sw_ctxt_zero) s
             in if rv1 < 0 then (rv1, s1)
                else (let (rv2, pfetch, s2) = (if with_st
                       then mbox_compose_prefetch_context hw (Some qctxt) (Some pfetch_ctxt_zero) s1
                       else (0, Some pfetch_ctxt_zero, s1))
             in if rv2 < 0 then (rv2, s2)
                else (let (rv3, cmpt, s3) = (if with_cmpt
                       then mbox_compose_cmpt_context hw (Some qctxt) (Some cmpt_ctxt_zero) s2
                       else (0, Some cmpt_ctxt_zero, s2))
             in if rv3 < 0 then (rv3, s3)
                else then_do (mbox_clear_queue_contexts hw idx fid qid_hw st c2h ct rm s3) (\<lambda>s.
                     then_do (no_ctxt (hw_sw_ctx_conf hw c2h qid_hw sw QDMA_HW_ACCESS_WRITE s)) (\<lambda>s.
                     then_do (if with_st
                              then no_ctxt (hw_pfetch_ctx_conf hw qid_hw pfetch QDMA_HW_ACCESS_WRITE s)
                              else (0, s)) (\<lambda>s.
                     then_do (if with_cmpt
                              then no_ctxt (hw_cmpt_ctx_conf hw qid_hw cmpt QDMA_HW_ACCESS_WRITE s)
                              else (0, s)) (\<lambda>s.
                     (err_code QDMA_SUCCESS, s)))))))))"

text \<open>
  A read fills the members of a \<open>struct qdma_descq_context\<close> at an address of the answer. A call that
  stores a context gives back the changed memory.
\<close>

definition into :: "(nat \<Rightarrow> mem \<Rightarrow> 'c) \<Rightarrow> (nat \<Rightarrow> 'c \<Rightarrow> mem \<Rightarrow> mem) \<Rightarrow> nat \<Rightarrow>
    ('c option \<Rightarrow> 's \<Rightarrow> int \<times> 'c option \<times> 's) \<Rightarrow> mem \<times> 's \<Rightarrow> int \<times> mem \<times> 's" where
  "into ld st a f ms =
     (case ms of (m, s) \<Rightarrow>
       (let (rv, c, s') = f (Some (ld a m)) s
        in (rv, case c of Some x \<Rightarrow> st a x m | None \<Rightarrow> m, s')))"

definition mbox_read_queue_contexts :: "'s qdma_hw_access \<Rightarrow> u16 \<Rightarrow> u16 \<Rightarrow> u8 \<Rightarrow> u8 \<Rightarrow> mbox_cmpt_ctxt_type \<Rightarrow> nat \<Rightarrow>
    mem \<Rightarrow> 's \<Rightarrow> int \<times> mem \<times> 's" where
  "mbox_read_queue_contexts hw fid qid_hw st c2h cmpt_ctxt_type a m s =
     (let rd = QDMA_HW_ACCESS_READ
      in then_do (into load_sw_ctxt store_sw_ctxt (ctxt_sw a) (\<lambda>c. hw_sw_ctx_conf hw c2h qid_hw c rd) (m, s)) (\<lambda>ms.
         then_do (into load_hw_ctxt store_hw_ctxt (ctxt_hw a) (\<lambda>c. hw_hw_ctx_conf hw c2h qid_hw c rd) ms) (\<lambda>ms.
         then_do (into load_credit_ctxt store_credit_ctxt (ctxt_cr a) (\<lambda>c. hw_credit_ctx_conf hw c2h qid_hw c rd) ms) (\<lambda>ms.
         then_do (into load_fmap store_fmap (ctxt_fmap a) (\<lambda>c. hw_fmap_conf hw fid c rd) ms) (\<lambda>ms.
         then_do (if st \<noteq> 0 \<and> c2h \<noteq> 0
                  then into load_pfetch_ctxt store_pfetch_ctxt (ctxt_pfetch a) (\<lambda>c. hw_pfetch_ctx_conf hw qid_hw c rd) ms
                  else (0, ms)) (\<lambda>ms.
         then_do (if cmpt_ctxt_type = QDMA_MBOX_CMPT_WITH_MM \<or> cmpt_ctxt_type = QDMA_MBOX_CMPT_WITH_ST
                  then into load_cmpt_ctxt store_cmpt_ctxt (ctxt_cmpt a) (\<lambda>c. hw_cmpt_ctx_conf hw qid_hw c rd) ms
                  else (0, ms)) (\<lambda>ms.
         (err_code QDMA_SUCCESS, ms))))))))"

subsection \<open>The requests\<close>

text \<open>What a request works on: the two messages, the resource manager and the device.\<close>

record 's pf_state =
  pf_rcv :: mem
  pf_resp :: mem
  pf_rm :: rm_state
  pf_dev :: 's

definition pf_src :: "'s pf_state \<Rightarrow> u16" where
  "pf_src p = hdr_src_func_id (pf_rcv p)"

text \<open>\<open>exit_func\<close>: the answer goes back to the sender; the status is stored as a char.\<close>

definition pf_exit :: "u16 \<Rightarrow> int \<times> 's pf_state \<Rightarrow> 's pf_state" where
  "pf_exit fid r =
     (let (rv, p) = r
      in p\<lparr>pf_resp := set_status rv (set_src_func_id fid (set_dst_func_id (pf_src p)
           (set_op (hdr_op (pf_rcv p) + 0x80) (pf_resp p))))\<rparr>)"

definition zero_fmap :: "'s qdma_hw_access \<Rightarrow> 's pf_state \<Rightarrow> int \<times> 's pf_state" where
  "zero_fmap hw p =
     (let (rv, _, s') = hw_fmap_conf hw (pf_src p) (Some \<lparr>fm_qbase = 0, fm_qmax = 0\<rparr>) QDMA_HW_ACCESS_WRITE (pf_dev p)
      in (rv, p\<lparr>pf_dev := s'\<rparr>))"

definition pf_vf_bye :: "'s qdma_hw_access \<Rightarrow> u8 \<Rightarrow> 's pf_state \<Rightarrow> int \<times> 's pf_state" where
  "pf_vf_bye hw idx p =
     (let (rv, p1) = zero_fmap hw p
      in (rv, p1\<lparr>pf_rm := qdma_dev_entry_destroy (ucast idx) (pf_src p) (pf_rm p1)\<rparr>))"

text \<open>
  The range of a known function is put into the request; a new function is entered and keeps the
  numbers of its request. The programming of the function map is not checked.
\<close>

definition pf_hello :: "'s qdma_hw_access \<Rightarrow> u8 \<Rightarrow> 's pf_state \<Rightarrow> int \<times> 's pf_state" where
  "pf_hello hw idx p =
     (let (rv, p1) = (case qdma_dev_qinfo_get (ucast idx) (pf_src p) (pf_rm p) of
            Inr (qb, qm) \<Rightarrow> (err_code QDMA_SUCCESS, p\<lparr>pf_rcv := set_fmap qb qm (pf_rcv p)\<rparr>)
          | Inl _ \<Rightarrow>
              (let (rv, rm') = qdma_dev_entry_create (ucast idx) (pf_src p) (pf_rm p) in (rv, p\<lparr>pf_rm := rm'\<rparr>)));
          p2 = (if rv = 0 then
                  (let resp = set_hello_dma_device_index (ucast idx)
                         (set_fmap (fmap_qbase (pf_rcv p1)) (fmap_qmax (pf_rcv p1)) (pf_resp p1));
                       (_, dev_cap, s') = hw_get_device_attributes hw (Some (load_dev_attributes 16 resp)) (pf_dev p1)
                   in p1\<lparr>pf_resp := (case dev_cap of Some c \<Rightarrow> store_dev_attributes 16 c resp | None \<Rightarrow> resp),
                         pf_dev := s'\<rparr>)
                else p1)
      in (rv, snd (zero_fmap hw p2)))"

definition pf_fmap :: "'s qdma_hw_access \<Rightarrow> 's pf_state \<Rightarrow> int \<times> 's pf_state" where
  "pf_fmap hw p =
     (let cfg = \<lparr>fm_qbase = ucast (fmap_qbase (pf_rcv p)), fm_qmax = ucast (fmap_qmax (pf_rcv p))\<rparr>;
          (rv, _, s') = hw_fmap_conf hw (pf_src p) (Some cfg) QDMA_HW_ACCESS_WRITE (pf_dev p)
      in (rv, p\<lparr>pf_dev := s'\<rparr>))"

text \<open>
  The global values. A table the design does not support keeps its zeros and its status is only
  looked at in the end; another error ends the request.
\<close>

definition attributes_zero :: qdma_dev_attributes where
  "attributes_zero = load_dev_attributes 0 (\<lambda>_. 0)"

definition csr_fails :: "int \<Rightarrow> bool" where
  "csr_fails rv \<longleftrightarrow> rv < 0 \<and> rv \<noteq> neg_err QDMA_ERR_HWACC_FEATURE_NOT_SUPPORTED"

definition store_csr_info :: "bool \<Rightarrow> u32 list \<Rightarrow> u32 list \<Rightarrow> u32 list \<Rightarrow> u32 list \<Rightarrow> mem \<Rightarrow> mem" where
  "store_csr_info all_read ringsz bufsz tmr_th cntr_th m =
     fold (\<lambda>i m.
       (let m1 = set_csr_ringsz i (ucast (ringsz ! i AND 0xFFFF)) m
        in if all_read
           then set_csr_cnt_thres i (ucast (cntr_th ! i AND 0xFF)) (set_csr_timer_cnt i (ucast (tmr_th ! i AND 0xFF))
                  (set_csr_bufsz i (ucast (bufsz ! i AND 0xFFFF)) m1))
           else m1)) [0..<QDMA_GLOBAL_CSR_ARRAY_SZ] m"

definition pf_csr :: "'s qdma_hw_access \<Rightarrow> 's pf_state \<Rightarrow> int \<times> 's pf_state" where
  "pf_csr hw p =
     (let none = replicate QDMA_GLOBAL_CSR_ARRAY_SZ 0; (rv1, ringsz, s1) = csr_table hw QDMA_CSR_RING_SZ (pf_dev p)
      in if rv1 < 0 then (rv1, p\<lparr>pf_dev := s1\<rparr>)
         else (let (_, cap, s2) = hw_get_device_attributes hw (Some attributes_zero) s1;
                   dev_cap = (case cap of Some c \<Rightarrow> c | None \<Rightarrow> attributes_zero);
                   st = (da_st_en dev_cap \<noteq> 0); st_mm = (da_st_en dev_cap \<noteq> 0 \<or> da_mm_cmpt_en dev_cap \<noteq> 0);
                   (rv2, bufsz, s3) = (if st then csr_table hw QDMA_CSR_BUF_SZ s2 else (rv1, none, s2))
      in if st \<and> csr_fails rv2 then (rv2, p\<lparr>pf_dev := s3\<rparr>)
         else (let (rv3, tmr_th, s4) = (if st_mm then csr_table hw QDMA_CSR_TIMER_CNT s3 else (rv2, none, s3))
      in if st_mm \<and> csr_fails rv3 then (rv3, p\<lparr>pf_dev := s4\<rparr>)
         else (let (rv4, cntr_th, s5) = (if st_mm then csr_table hw QDMA_CSR_CNT_TH s4 else (rv3, none, s4))
      in if st_mm \<and> csr_fails rv4 then (rv4, p\<lparr>pf_dev := s5\<rparr>)
         else (if rv4 = neg_err QDMA_ERR_HWACC_FEATURE_NOT_SUPPORTED then err_code QDMA_SUCCESS else rv4,
               p\<lparr>pf_resp := store_csr_info (rv4 = 0) ringsz bufsz tmr_th cntr_th (pf_resp p), pf_dev := s5\<rparr>)))))"

text \<open>A new range. The function map is cleared on success, until the function asks for it.\<close>

definition pf_qreq :: "'s qdma_hw_access \<Rightarrow> u8 \<Rightarrow> 's pf_state \<Rightarrow> int \<times> 's pf_state" where
  "pf_qreq hw idx p =
     (let (rv, qb, rm') = qdma_dev_update (ucast idx) (pf_src p) (fmap_qmax (pf_rcv p)) (fmap_qbase (pf_rcv p)) (pf_rm p);
          p1 = p\<lparr>pf_rm := rm', pf_rcv := store 8 qb (pf_rcv p)\<rparr>;
          (rv1, p2) = (if rv = 0
            then case qdma_dev_qinfo_get (ucast idx) (pf_src p) rm' of
                   Inl e \<Rightarrow> (e, p1)
                 | Inr (qb', qm') \<Rightarrow> (err_code QDMA_SUCCESS, p1\<lparr>pf_resp := set_fmap qb' qm' (pf_resp p1)\<rparr>)
            else (rv, p1))
      in if rv1 < 0 then (neg_err QDMA_ERR_MBOX_NUM_QUEUES, p2) else (rv1, snd (zero_fmap hw p2)))"

definition pf_qnotify_add :: "u8 \<Rightarrow> 's pf_state \<Rightarrow> int \<times> 's pf_state" where
  "pf_qnotify_add idx p =
     (if qdma_dev_is_queue_in_range (ucast idx) (pf_src p) (ucast (notify_qid_hw (pf_rcv p))) (pf_rm p) \<noteq> QDMA_DEV_Q_IN_RANGE
      then (neg_err QDMA_ERR_MBOX_INV_QID, p)
      else (let (rv, rm') = qdma_dev_increment_active_queue (ucast idx) (pf_src p) (notify_q_type (pf_rcv p)) (pf_rm p)
            in (rv, p\<lparr>pf_rm := rm'\<rparr>)))"

definition pf_qnotify_del :: "u8 \<Rightarrow> 's pf_state \<Rightarrow> int \<times> 's pf_state" where
  "pf_qnotify_del idx p =
     (if qdma_dev_is_queue_in_range (ucast idx) (pf_src p) (ucast (notify_qid_hw (pf_rcv p))) (pf_rm p) \<noteq> QDMA_DEV_Q_IN_RANGE
      then (neg_err QDMA_ERR_MBOX_INV_QID, p)
      else (let (rv, rm') = qdma_dev_decrement_active_queue (ucast idx) (pf_src p) (notify_q_type (pf_rcv p)) (pf_rm p)
            in (rv, p\<lparr>pf_rm := rm'\<rparr>)))"

text \<open>The count of the last kind is also what becomes the status.\<close>

definition pf_qactive_cnt :: "u8 \<Rightarrow> 's pf_state \<Rightarrow> int \<times> 's pf_state" where
  "pf_qactive_cnt idx p =
     (let n = (\<lambda>t. qdma_get_device_active_queue_count (ucast idx) (pf_src p) t (pf_rm p));
          w = (\<lambda>t. word_of_int (n t) :: u32)
      in (n QDMA_DEV_Q_TYPE_CMPT,
          p\<lparr>pf_resp := store 16 (w QDMA_DEV_Q_TYPE_CMPT) (store 12 (w QDMA_DEV_Q_TYPE_C2H)
            (store 8 (w QDMA_DEV_Q_TYPE_H2C) (pf_resp p)))\<rparr>))"

text \<open>
  Interrupt contexts, for as many rings as the message says; an error is stored as the status at once and
  the status of the last call is what is left in the end.
\<close>

definition intr_call :: "'s qdma_hw_access \<Rightarrow> nat \<Rightarrow> qdma_indirect_intr_ctxt option \<Rightarrow> qdma_hw_access_type \<Rightarrow>
    's pf_state \<Rightarrow> int \<times> 's pf_state" where
  "intr_call hw i ctxt acc p =
     (let (rv, _, s') = hw_indirect_intr_ctx_conf hw (ucast (intr_ring_index i (pf_rcv p))) ctxt acc (pf_dev p)
      in (rv, p\<lparr>pf_dev := s', pf_resp := (if rv < 0 then set_status rv (pf_resp p) else pf_resp p)\<rparr>))"

definition pf_intr_ctxt_wrt :: "'s qdma_hw_access \<Rightarrow> 's pf_state \<Rightarrow> int \<times> 's pf_state" where
  "pf_intr_ctxt_wrt hw p =
     fold (\<lambda>i (_, p). intr_call hw i (Some (load_intr_ctxt (intr_ictxt i) (pf_rcv p))) QDMA_HW_ACCESS_WRITE
         (snd (intr_call hw i None QDMA_HW_ACCESS_CLEAR p)))
       [0..<unat (intr_num_rings (pf_rcv p))] (0, p)"

definition pf_intr_ctxt_rd :: "'s qdma_hw_access \<Rightarrow> 's pf_state \<Rightarrow> int \<times> 's pf_state" where
  "pf_intr_ctxt_rd hw p =
     fold (\<lambda>i (_, p).
         (let (rv, resp, s') = into load_intr_ctxt store_intr_ctxt (intr_ictxt i)
                (\<lambda>c. hw_indirect_intr_ctx_conf hw (ucast (intr_ring_index i (pf_rcv p))) c QDMA_HW_ACCESS_READ)
                (pf_resp p, pf_dev p)
          in (rv, p\<lparr>pf_dev := s', pf_resp := (if rv < 0 then set_status rv resp else resp)\<rparr>)))
       [0..<unat (intr_num_rings (pf_rcv p))] (0, p)"

definition pf_intr_ctxt_clr :: "'s qdma_hw_access \<Rightarrow> 's pf_state \<Rightarrow> int \<times> 's pf_state" where
  "pf_intr_ctxt_clr hw p =
     fold (\<lambda>i (_, p). intr_call hw i None QDMA_HW_ACCESS_CLEAR p) [0..<unat (intr_num_rings (pf_rcv p))] (0, p)"

definition pf_intr_ctxt_inv :: "'s qdma_hw_access \<Rightarrow> 's pf_state \<Rightarrow> int \<times> 's pf_state" where
  "pf_intr_ctxt_inv hw p =
     fold (\<lambda>i (_, p). intr_call hw i None QDMA_HW_ACCESS_INVALIDATE p) [0..<unat (intr_num_rings (pf_rcv p))] (0, p)"

text \<open>Queue contexts; a write is done for the sender whatever function the configuration names.\<close>

definition pf_qctxt_inv :: "'s qdma_hw_access \<Rightarrow> u8 \<Rightarrow> 's pf_state \<Rightarrow> int \<times> 's pf_state" where
  "pf_qctxt_inv hw idx p =
     (let m = pf_rcv p; (rv, s') = mbox_invalidate_queue_contexts hw idx (pf_src p) (qctxt_qid_hw m) (qctxt_st m)
            (qctxt_c2h m) (qctxt_cmpt_ctxt_type m) (pf_rm p) (pf_dev p)
      in (rv, p\<lparr>pf_dev := s'\<rparr>))"

definition pf_qctxt_clr :: "'s qdma_hw_access \<Rightarrow> u8 \<Rightarrow> 's pf_state \<Rightarrow> int \<times> 's pf_state" where
  "pf_qctxt_clr hw idx p =
     (let m = pf_rcv p; (rv, s') = mbox_clear_queue_contexts hw idx (pf_src p) (qctxt_qid_hw m) (qctxt_st m)
            (qctxt_c2h m) (qctxt_cmpt_ctxt_type m) (pf_rm p) (pf_dev p)
      in (rv, p\<lparr>pf_dev := s'\<rparr>))"

definition pf_qctxt_rd :: "'s qdma_hw_access \<Rightarrow> 's pf_state \<Rightarrow> int \<times> 's pf_state" where
  "pf_qctxt_rd hw p =
     (let m = pf_rcv p; (rv, resp, s') = mbox_read_queue_contexts hw (pf_src p) (qctxt_qid_hw m) (qctxt_st m)
            (qctxt_c2h m) (qctxt_cmpt_ctxt_type m) QCTXT_UNION (pf_resp p) (pf_dev p)
      in (rv, p\<lparr>pf_resp := resp, pf_dev := s'\<rparr>))"

definition pf_qctxt_wrt :: "'s qdma_hw_access \<Rightarrow> u8 \<Rightarrow> 's pf_state \<Rightarrow> int \<times> 's pf_state" where
  "pf_qctxt_wrt hw idx p =
     (let m = set_dc_func_id QCTXT_UNION (pf_src p) (pf_rcv p);
          (rv, s') = mbox_write_queue_contexts hw idx m (pf_rm p) (pf_dev p)
      in (rv, p\<lparr>pf_rcv := m, pf_dev := s'\<rparr>))"

definition pf_reg_list_read :: "'s qdma_hw_access \<Rightarrow> 's pf_state \<Rightarrow> int \<times> 's pf_state" where
  "pf_reg_list_read hw p =
     (let (rv, regs, s') = hw_read_reg_list hw 1 (reg_group_num (pf_rcv p)) (pf_dev p);
          resp = (case regs of None \<Rightarrow> pf_resp p | Some (n, rs) \<Rightarrow> store_regs 12 rs (set_reg_num_regs n (pf_resp p)))
      in (if rv < 0 \<or> reg_num_regs resp = 0 then neg_err QDMA_ERR_MBOX_REG_READ_FAILED else rv,
          p\<lparr>pf_resp := resp, pf_dev := s'\<rparr>))"

text \<open>
  The switch. The answers to a reset and to a goodbye, an unknown request and a function map that cannot
  be programmed return without an answer.
\<close>

definition pf_dispatch :: "'s qdma_hw_access \<Rightarrow> u8 \<Rightarrow> u16 \<Rightarrow> 's pf_state \<Rightarrow> int \<times> 's pf_state" where
  "pf_dispatch hw idx fid p =
     (let op = hdr_op (pf_rcv p); answer = (\<lambda>ret r. (ret, pf_exit fid r))
      in if op = MBOX_OP_VF_BYE then answer QDMA_MBOX_VF_OFFLINE (pf_vf_bye hw idx p)
         else if op = MBOX_OP_PF_RESET_VF_BYE then answer QDMA_MBOX_VF_RESET_BYE (pf_vf_bye hw idx p)
         else if op = MBOX_OP_HELLO then answer QDMA_MBOX_VF_ONLINE (pf_hello hw idx p)
         else if op = MBOX_OP_FMAP then (if fst (pf_fmap hw p) < 0 then pf_fmap hw p else answer 0 (pf_fmap hw p))
         else if op = MBOX_OP_CSR then answer 0 (pf_csr hw p)
         else if op = MBOX_OP_QREQ then answer 0 (pf_qreq hw idx p)
         else if op = MBOX_OP_QNOTIFY_ADD then answer 0 (pf_qnotify_add idx p)
         else if op = MBOX_OP_QNOTIFY_DEL then answer 0 (pf_qnotify_del idx p)
         else if op = MBOX_OP_GET_QACTIVE_CNT then answer 0 (pf_qactive_cnt idx p)
         else if op = MBOX_OP_INTR_CTXT_WRT then answer 0 (pf_intr_ctxt_wrt hw p)
         else if op = MBOX_OP_INTR_CTXT_RD then answer 0 (pf_intr_ctxt_rd hw p)
         else if op = MBOX_OP_INTR_CTXT_CLR then answer 0 (pf_intr_ctxt_clr hw p)
         else if op = MBOX_OP_INTR_CTXT_INV then answer 0 (pf_intr_ctxt_inv hw p)
         else if op = MBOX_OP_QCTXT_INV then answer 0 (pf_qctxt_inv hw idx p)
         else if op = MBOX_OP_QCTXT_CLR then answer 0 (pf_qctxt_clr hw idx p)
         else if op = MBOX_OP_QCTXT_RD then answer 0 (pf_qctxt_rd hw p)
         else if op = MBOX_OP_QCTXT_WRT then answer 0 (pf_qctxt_wrt hw idx p)
         else if op = MBOX_OP_RESET_PREPARE_RESP then (QDMA_MBOX_VF_RESET, p)
         else if op = MBOX_OP_RESET_DONE_RESP then (QDMA_MBOX_PF_RESET_DONE, p)
         else if op = MBOX_OP_REG_LIST_READ then answer 0 (pf_reg_list_read hw p)
         else if op = MBOX_OP_PF_BYE_RESP then (QDMA_MBOX_PF_BYE, p)
         else (neg_err QDMA_ERR_MBOX_INV_MSG, p))"

definition qdma_mbox_pf_rcv_msg_handler :: "'s qdma_hw_access \<Rightarrow> u8 \<Rightarrow> u16 \<Rightarrow> mem option \<Rightarrow> mem \<Rightarrow> rm_state \<Rightarrow> 's \<Rightarrow>
    int \<times> mem option \<times> mem \<times> rm_state \<times> 's" where
  "qdma_mbox_pf_rcv_msg_handler hw idx fid rcv_msg resp_msg rm s =
     (case rcv_msg of
        None \<Rightarrow> (neg_err QDMA_ERR_INV_PARAM, None, resp_msg, rm, s)
      | Some rcv \<Rightarrow>
          (let (ret, p) = pf_dispatch hw idx fid \<lparr>pf_rcv = rcv, pf_resp = resp_msg, pf_rm = rm, pf_dev = s\<rparr>
           in (ret, Some (pf_rcv p), pf_resp p, pf_rm p, pf_dev p)))"

end
