(* ===== verification/Mbox_Isolation.thy ===== *)
theory Mbox_Isolation
  imports Mbox_Handler
begin

section \<open>Which contexts a mailbox request can touch\<close>

text \<open>
  What the table of functions promises about the contexts of queues is a locale: an operation on a queue changes the
  contexts of that queue only. From it follows what the handlers of the mailbox do; the EQDMA table
  satisfies it on every device that behaves as documented.
\<close>

subsection \<open>The contract of the table\<close>

locale queue_access =
  fixes hw :: "'s qdma_hw_access" and queue_ctxts :: "'s \<Rightarrow> u32 \<Rightarrow> 'c"
  assumes sw: "q \<noteq> ind_qid qid \<Longrightarrow> queue_ctxts (snd (snd (hw_sw_ctx_conf hw c2h qid sc acc s))) q = queue_ctxts s q"
    and hwc: "q \<noteq> ind_qid qid \<Longrightarrow> queue_ctxts (snd (snd (hw_hw_ctx_conf hw c2h qid hc acc s))) q = queue_ctxts s q"
    and cr: "q \<noteq> ind_qid qid \<Longrightarrow> queue_ctxts (snd (snd (hw_credit_ctx_conf hw c2h qid cc acc s))) q = queue_ctxts s q"
    and pf: "q \<noteq> ind_qid qid \<Longrightarrow> queue_ctxts (snd (snd (hw_pfetch_ctx_conf hw qid pc acc s))) q = queue_ctxts s q"
    and cm: "q \<noteq> ind_qid qid \<Longrightarrow> queue_ctxts (snd (snd (hw_cmpt_ctx_conf hw qid mc acc s))) q = queue_ctxts s q"
    and csr: "queue_ctxts (snd (snd (hw_global_csr_conf hw index count vals t QDMA_HW_ACCESS_READ s))) q = queue_ctxts s q"
begin

definition only_queue :: "u16 \<Rightarrow> 's \<Rightarrow> 's \<Rightarrow> bool" where
  "only_queue qid s s' \<longleftrightarrow> (\<forall>q. q \<noteq> ind_qid qid \<longrightarrow> queue_ctxts s' q = queue_ctxts s q)"

lemma only_queue_refl [simp]: "only_queue qid s s"
  by (simp add: only_queue_def)

lemma only_queue_trans [trans]: "only_queue qid s s1 \<Longrightarrow> only_queue qid s1 s2 \<Longrightarrow> only_queue qid s s2"
  by (simp add: only_queue_def)

lemma only_then_do:
  assumes "only_queue qid s (snd r)" and "\<And>s1. only_queue qid s1 (snd (k s1))"
  shows "only_queue qid s (snd (then_do r k))"
  using assms only_queue_trans by (fastforce simp: then_do_def)

lemma only_calls [simp]:
  "only_queue qid s (snd (no_ctxt (hw_sw_ctx_conf hw c2h qid sc acc s)))"
  "only_queue qid s (snd (no_ctxt (hw_hw_ctx_conf hw c2h qid hc acc s)))"
  "only_queue qid s (snd (no_ctxt (hw_credit_ctx_conf hw c2h qid cc acc s)))"
  "only_queue qid s (snd (no_ctxt (hw_pfetch_ctx_conf hw qid pc acc s)))"
  "only_queue qid s (snd (no_ctxt (hw_cmpt_ctx_conf hw qid mc acc s)))"
  by (simp_all add: only_queue_def no_ctxt_def sw hwc cr pf cm)

lemma csr_table_keeps: "csr_table hw t s = (rv, vals, s') \<Longrightarrow> queue_ctxts s' = queue_ctxts s"
  using csr by (fastforce simp: csr_table_def case_prod_beta Let_def)

lemma idx_keeps:
  "get_ring_idx hw v i s = (rv, j, s') \<Longrightarrow> queue_ctxts s' = queue_ctxts s"
  "get_buf_idx hw v i s = (rv, j, s') \<Longrightarrow> queue_ctxts s' = queue_ctxts s"
  "get_cntr_idx hw w k s = (rv, l, s') \<Longrightarrow> queue_ctxts s' = queue_ctxts s"
  "get_tmr_idx hw w k s = (rv, l, s') \<Longrightarrow> queue_ctxts s' = queue_ctxts s"
  unfolding get_ring_idx_def get_buf_idx_def get_cntr_idx_def get_tmr_idx_def
  by (auto simp: Let_def split: prod.splits if_splits option.splits dest: csr_table_keeps)

lemma compose_keeps:
  "mbox_compose_sw_context hw q c s = (rv, c', s') \<Longrightarrow> queue_ctxts s' = queue_ctxts s"
  "mbox_compose_prefetch_context hw q pc s = (rv, pc', s') \<Longrightarrow> queue_ctxts s' = queue_ctxts s"
  "mbox_compose_cmpt_context hw q mc s = (rv, mc', s') \<Longrightarrow> queue_ctxts s' = queue_ctxts s"
  unfolding mbox_compose_sw_context_def mbox_compose_prefetch_context_def mbox_compose_cmpt_context_def
  by (auto simp: Let_def split: prod.splits if_splits option.splits dest!: idx_keeps)

lemma only_queue_start: "queue_ctxts s1 = queue_ctxts s \<Longrightarrow> only_queue qid s1 s2 \<Longrightarrow> only_queue qid s s2"
  by (simp add: only_queue_def)

lemma clear_only: "only_queue qid s (snd (mbox_clear_queue_contexts hw idx fid qid st c2h ct rm s))"
  unfolding mbox_clear_queue_contexts_def
  by (auto intro!: only_then_do split: sum.split)

lemma invalidate_only: "only_queue qid s (snd (mbox_invalidate_queue_contexts hw idx fid qid st c2h ct rm s))"
  unfolding mbox_invalidate_queue_contexts_def
  by (auto intro!: only_then_do split: sum.split)

lemma only_compose:
  assumes "\<And>rv c s1. r = (rv, c, s1) \<Longrightarrow> queue_ctxts s1 = queue_ctxts s" and "\<And>c s1. only_queue qid s1 (snd (k c s1))"
  shows "only_queue qid s (snd (case r of (rv :: int, c, s1) \<Rightarrow> if rv < 0 then (rv, s1) else k c s1))"
  using assms by (cases r) (auto simp: only_queue_def)

lemma only_cmpt:
  "only_queue qid s (snd (case mbox_compose_cmpt_context hw m c s of (rv, c, s1) \<Rightarrow> then_do (rv, s1) (k c)))"
  if "\<And>c s1. only_queue qid s1 (snd (k c s1))"
  using that compose_keeps(3) [of m c s]
  by (cases "mbox_compose_cmpt_context hw m c s") (auto simp: only_queue_def then_do_def)

lemma only_if:
  "(b \<Longrightarrow> only_queue qid s (snd x)) \<Longrightarrow> (\<not> b \<Longrightarrow> only_queue qid s (snd y)) \<Longrightarrow> only_queue qid s (snd (if b then x else y))"
  by simp

lemma only_queue_refl': "only_queue qid s (snd (rv, s))"
  by simp

lemma if_compose_keeps:
  "(if b then mbox_compose_prefetch_context hw q pc s else (0, pc0, s)) = (rv, pc', s') \<Longrightarrow> queue_ctxts s' = queue_ctxts s"
  "(if b then mbox_compose_cmpt_context hw q mc s else (0, mc0, s)) = (rv, mc', s') \<Longrightarrow> queue_ctxts s' = queue_ctxts s"
  by (auto split: if_splits dest: compose_keeps)

lemma write_only: "only_queue (qctxt_qid_hw m) s (snd (mbox_write_queue_contexts hw idx m rm s))"
proof (cases "qdma_dev_qinfo_get (ucast idx) (dc_func_id QCTXT_UNION m) rm")
  case (Inr r)
  show ?thesis
    unfolding mbox_write_queue_contexts_def Let_def Inr sum.case
    by (intro only_if only_cmpt only_compose only_then_do clear_only only_calls only_queue_refl')
      (erule compose_keeps if_compose_keeps)+
qed (simp add: mbox_write_queue_contexts_def)

text \<open>Out of the sender's range nothing happens, and the sender is told that all went well.\<close>

lemma refused:
  assumes "qdma_dev_is_queue_in_range (ucast idx) fid (ucast qid) rm \<noteq> QDMA_DEV_Q_IN_RANGE"
  shows "ct \<noteq> QDMA_MBOX_CMPT_CTXT_ONLY \<Longrightarrow> snd (mbox_clear_queue_contexts hw idx fid qid st c2h ct rm s) = s"
    and "ct \<noteq> QDMA_MBOX_CMPT_CTXT_ONLY \<Longrightarrow> snd (mbox_invalidate_queue_contexts hw idx fid qid st c2h ct rm s) = s"
  using assms
  by (auto simp: mbox_clear_queue_contexts_def mbox_invalidate_queue_contexts_def split: sum.split)

lemma write_refused:
  assumes "qdma_dev_is_queue_in_range (ucast idx) (dc_func_id QCTXT_UNION m) (ucast (qctxt_qid_hw m)) rm \<noteq> QDMA_DEV_Q_IN_RANGE"
  shows "snd (mbox_write_queue_contexts hw idx m rm s) = s"
  using assms by (auto simp: mbox_write_queue_contexts_def Let_def split: sum.split)

end

subsection \<open>The EQDMA table\<close>

text \<open>One indirect operation changes the contexts of its queue at most.\<close>

lemma indirect_other:
  assumes "context_device mm view" and "q' \<noteq> ind_qid q"
  shows "ctxts (view (snd (eqdma_indirect_reg_write mm sel q data s))) sel' q' = ctxts (view s) sel' q'"
    and "ctxts (view (snd (eqdma_indirect_reg_clear mm sel q s))) sel' q' = ctxts (view s) sel' q'"
    and "ctxts (view (snd (eqdma_indirect_reg_invalidate mm sel q s))) sel' q' = ctxts (view s) sel' q'"
proof -
  show "ctxts (view (snd (eqdma_indirect_reg_write mm sel q data s))) sel' q' = ctxts (view s) sel' q'"
    using assms(2) by (intro indirect_write_effect(2) [OF assms(1)]) simp
  show "ctxts (view (snd (eqdma_indirect_reg_clear mm sel q s))) sel' q' = ctxts (view s) sel' q'"
    using assms(2) by (simp add: indirect_command_effect(1) [OF assms(1)])
  obtain c where "ctxts (view (snd (eqdma_indirect_reg_invalidate mm sel q s))) =
      (ctxts (view s))(sel_code sel := (ctxts (view s) (sel_code sel))(ind_qid q := c))"
    using indirect_command_effect(2) [OF assms(1)] by blast
  then show "ctxts (view (snd (eqdma_indirect_reg_invalidate mm sel q s))) sel' q' = ctxts (view s) sel' q'"
    using assms(2) by simp
qed

lemma indirect_read_keeps:
  assumes "context_device mm view" and "n \<le> 8"
  shows "ctxts (view (snd (eqdma_indirect_reg_read mm sel q n s))) = ctxts (view s)"
  using indirect_read_effect(1) [OF assms, where sel = sel and q = q and s = s]
  by (cases "eqdma_indirect_reg_read mm sel q n s"; cases "fst (eqdma_indirect_reg_read mm sel q n s)") auto

lemma ctx_conf_other:
  assumes "context_device mm view" and "q \<noteq> ind_qid qid"
  shows "ctxts (view (snd (snd (eqdma_sw_ctx_conf mm dh c2h qid sc acc s)))) sel q = ctxts (view s) sel q"
    and "ctxts (view (snd (snd (eqdma_hw_ctx_conf mm dh c2h qid hc acc s)))) sel q = ctxts (view s) sel q"
    and "ctxts (view (snd (snd (eqdma_credit_ctx_conf mm dh c2h qid cc acc s)))) sel q = ctxts (view s) sel q"
    and "ctxts (view (snd (snd (eqdma_pfetch_ctx_conf mm dh qid pc acc s)))) sel q = ctxts (view s) sel q"
    and "ctxts (view (snd (snd (eqdma_cmpt_ctx_conf mm dh qid mc acc s)))) sel q = ctxts (view s) sel q"
proof -
  note o = indirect_other [OF assms]
  note r = indirect_read_keeps [OF assms(1)]
  show "ctxts (view (snd (snd (eqdma_sw_ctx_conf mm dh c2h qid sc acc s)))) sel q = ctxts (view s) sel q"
    by (cases acc) (auto simp: eqdma_sw_ctx_conf_def eqdma_sw_context_write_def eqdma_sw_context_read_def
      eqdma_sw_context_clear_def eqdma_sw_context_invalidate_def Let_def case_prod_beta o EQDMA_SW_CONTEXT_NUM_WORDS_def
      r split: option.split sum.split)
  show "ctxts (view (snd (snd (eqdma_hw_ctx_conf mm dh c2h qid hc acc s)))) sel q = ctxts (view s) sel q"
    by (cases acc) (auto simp: eqdma_hw_ctx_conf_def eqdma_hw_context_read_def
      eqdma_hw_context_clear_def eqdma_hw_context_invalidate_def Let_def case_prod_beta o EQDMA_HW_CONTEXT_NUM_WORDS_def
      r split: option.split sum.split)
  show "ctxts (view (snd (snd (eqdma_credit_ctx_conf mm dh c2h qid cc acc s)))) sel q = ctxts (view s) sel q"
    by (cases acc) (auto simp: eqdma_credit_ctx_conf_def eqdma_credit_context_read_def
      eqdma_credit_context_clear_def eqdma_credit_context_invalidate_def Let_def case_prod_beta o EQDMA_CR_CONTEXT_NUM_WORDS_def
      r split: option.split sum.split)
  show "ctxts (view (snd (snd (eqdma_pfetch_ctx_conf mm dh qid pc acc s)))) sel q = ctxts (view s) sel q"
    by (cases acc) (auto simp: eqdma_pfetch_ctx_conf_def eqdma_pfetch_context_write_def eqdma_pfetch_context_read_def
      eqdma_pfetch_context_clear_def eqdma_pfetch_context_invalidate_def Let_def case_prod_beta o
      EQDMA_PFETCH_CONTEXT_NUM_WORDS_def r split: option.split sum.split)
  show "ctxts (view (snd (snd (eqdma_cmpt_ctx_conf mm dh qid mc acc s)))) sel q = ctxts (view s) sel q"
    by (cases acc) (auto simp: eqdma_cmpt_ctx_conf_def eqdma_cmpt_context_write_def eqdma_cmpt_context_read_def
      eqdma_cmpt_context_clear_def eqdma_cmpt_context_invalidate_def Let_def case_prod_beta o
      EQDMA_CMPT_CONTEXT_NUM_WORDS_def r split: option.split sum.split)
qed

lemma read_csr_loop_keeps:
  assumes "context_device mm view"
  shows "view (snd (read_csr_loop mm a cnt i s)) = view s"
  using assms
proof (induction mm a cnt i s rule: read_csr_loop.induct)
  case (1 mm a cnt i s)
  show ?case
  proof (cases "i < cnt")
    case True
    obtain v s1 where r: "qdma_reg_read mm (a + i * 4) s = (v, s1)" by fastforce
    have "view (snd (read_csr_loop mm a cnt (i + 1) s1)) = view s1" using 1 True r by simp
    moreover have "view s1 = view s" using context_deviceD(1) [OF 1(2)] r by (metis snd_conv)
    ultimately show ?thesis by (subst read_csr_loop.simps) (simp add: True r case_prod_beta Let_def)
  qed (subst read_csr_loop.simps, simp)
qed

lemma csr_read_keeps:
  assumes "context_device mm view"
  shows "view (snd (snd (qdma_global_csr_conf mm dh index count vals t QDMA_HW_ACCESS_READ s))) = view s"
proof -
  note rd = context_deviceD(1) [OF assms]
  have a: "view (snd (soft_device_attributes mm s)) = view s" for s
    by (simp add: soft_device_attributes_def case_prod_beta Let_def rd)
  have v: "view (snd (qdma_read_csr_values mm a i c s)) = view s" for a i c s
    by (simp add: qdma_read_csr_values_def read_csr_loop_keeps [OF assms])
  show ?thesis
    by (cases t) (simp_all add: qdma_global_csr_conf_def soft_csr_ops case_prod_beta Let_def a v split: option.split)
qed

locale eqdma_device =
  fixes mm :: "'s mmio" and view :: "'s \<Rightarrow> ind_view"
    and read_reg_list :: "u8 \<Rightarrow> u16 \<Rightarrow> 's \<Rightarrow> int \<times> (u16 \<times> (u32 \<times> u32) list) option \<times> 's"
  assumes device: "context_device mm view"

sublocale eqdma_device \<subseteq> access: queue_access "eqdma_hw_access mm read_reg_list" "\<lambda>s q sel. ctxts (view s) sel q"
  by unfold_locales (simp_all add: eqdma_hw_access_def ctx_conf_other [OF device] csr_read_keeps [OF device])

definition no_regs :: "u8 \<Rightarrow> u16 \<Rightarrow> 's \<Rightarrow> int \<times> (u16 \<times> (u32 \<times> u32) list) option \<times> 's" where
  "no_regs is_vf group_num s = (neg_err QDMA_ERR_HWACC_FEATURE_NOT_SUPPORTED, None, s)"

interpretation sim_device: eqdma_device sim "\<lambda>s. s" no_regs
  by unfold_locales (rule sim_context_device)

text \<open>The contexts of the queues a function owns, by the index the hardware uses.\<close>

definition own_indices :: "rm_state \<Rightarrow> u8 \<Rightarrow> u16 \<Rightarrow> u32 set" where
  "own_indices rm idx f = (\<lambda>n. ind_qid (of_nat n)) ` owned rm (ucast idx) f"

lemma own_indicesI:
  assumes "rm_inv rm" and "qdma_dev_is_queue_in_range (ucast idx) f (ucast (qid :: u16)) rm = QDMA_DEV_Q_IN_RANGE"
  shows "ind_qid qid \<in> own_indices rm idx f"
proof -
  have "unat (ucast qid :: u32) = unat qid"
    using unsigned_less [of qid, where ?'a = nat] by (simp add: unsigned_ucast_eq take_bit_nat_eq_self)
  then have "unat qid \<in> owned rm (ucast idx) f" using in_range_owned [OF assms(1)] assms(2) by metis
  moreover have "ind_qid qid = ind_qid (of_nat (unat qid))" by simp
  ultimately show ?thesis unfolding own_indices_def by (rule rev_image_eqI)
qed

lemma set_func_id_fields [simp]:
  "dc_func_id QCTXT_UNION (set_dc_func_id QCTXT_UNION f m) = f"
  "qctxt_qid_hw (set_dc_func_id QCTXT_UNION f m) = qctxt_qid_hw m"
  "hdr_src_func_id (set_dc_func_id QCTXT_UNION f m) = hdr_src_func_id m"
  "hdr_op (set_dc_func_id QCTXT_UNION f m) = hdr_op m"
proof -
  have "ucast (take_bit 16 (ucast f :: u32)) = f" using ucast_take_ucast [where 'a = 16 and 'b = 32, of 16 f] take_bit_length_eq [of f] by simp
  then show "dc_func_id QCTXT_UNION (set_dc_func_id QCTXT_UNION f m) = f" by (simp add: layout)
qed (simp_all add: layout)

text \<open>The requests that program the contexts of a queue after a range check.\<close>

definition checked_request :: "mem \<Rightarrow> bool" where
  "checked_request m \<longleftrightarrow> hdr_op m = MBOX_OP_QCTXT_WRT \<or>
     hdr_op m \<in> {MBOX_OP_QCTXT_CLR, MBOX_OP_QCTXT_INV} \<and> qctxt_cmpt_ctxt_type m \<noteq> QDMA_MBOX_CMPT_CTXT_ONLY"

context eqdma_device
begin

lemma queue_request_only:
  assumes "rm_inv (pf_rm p)" and "checked_request (pf_rcv p)"
    and "q \<notin> own_indices (pf_rm p) idx (pf_src p)"
  shows "ctxts (view (pf_dev (snd (pf_dispatch (eqdma_hw_access mm read_reg_list) idx fid p)))) sel q = ctxts (view (pf_dev p)) sel q"
proof -
  let ?hw = "eqdma_hw_access mm read_reg_list" and ?qid = "qctxt_qid_hw (pf_rcv p)"
  have only: "ctxts (view s') sel q = ctxts (view s) sel q" if "access.only_queue ?qid s s'" and "q \<noteq> ind_qid ?qid" for s s'
    using that by (auto simp: access.only_queue_def dest: fun_cong)
  show ?thesis
  proof (cases "qdma_dev_is_queue_in_range (ucast idx) (pf_src p) (ucast ?qid) (pf_rm p) = QDMA_DEV_Q_IN_RANGE")
    case True
    then have q: "q \<noteq> ind_qid ?qid" using own_indicesI [OF assms(1)] assms(3) by blast
    from assms(2) consider "hdr_op (pf_rcv p) = MBOX_OP_QCTXT_WRT" | "hdr_op (pf_rcv p) = MBOX_OP_QCTXT_CLR" | "hdr_op (pf_rcv p) = MBOX_OP_QCTXT_INV"
      by (auto simp: checked_request_def)
    then show ?thesis
      by cases (auto simp: pf_dispatch_def op_codes pf_exit_def pf_qctxt_wrt_def pf_qctxt_clr_def pf_qctxt_inv_def
          case_prod_beta Let_def intro!: only q access.clear_only access.invalidate_only
          access.write_only [of "set_dc_func_id QCTXT_UNION (pf_src p) (pf_rcv p)", simplified])
  next
    case False
    from assms(2) consider "hdr_op (pf_rcv p) = MBOX_OP_QCTXT_WRT"
      | "hdr_op (pf_rcv p) = MBOX_OP_QCTXT_CLR" "qctxt_cmpt_ctxt_type (pf_rcv p) \<noteq> QDMA_MBOX_CMPT_CTXT_ONLY"
      | "hdr_op (pf_rcv p) = MBOX_OP_QCTXT_INV" "qctxt_cmpt_ctxt_type (pf_rcv p) \<noteq> QDMA_MBOX_CMPT_CTXT_ONLY"
      by (auto simp: checked_request_def)
    then show ?thesis
      by cases (simp_all add: pf_dispatch_def op_codes pf_exit_def pf_qctxt_wrt_def pf_qctxt_clr_def pf_qctxt_inv_def
          case_prod_beta Let_def False access.refused access.write_refused)
  qed
qed

end

subsection \<open>Properties\<close>

text \<open>
  C6: a virtual function that writes queue contexts through the mailbox, or clears or invalidates them with any
  type but the one for completion contexts alone, changes no context of a queue it does not own, whatever the message holds.
\<close>

theorem mbox_queue_isolation:
  assumes "context_device mm view" and "rm_inv rm" and "checked_request rcv"
    and "qdma_mbox_pf_rcv_msg_handler (eqdma_hw_access mm regs) idx fid (Some rcv) resp rm s = (ret, rcv', resp', rm', s')"
    and "q \<notin> own_indices rm idx (hdr_src_func_id rcv)"
  shows "ctxts (view s') sel q = ctxts (view s) sel q"
proof -
  have d: "eqdma_device mm view" using assms(1) by unfold_locales
  show ?thesis
    using eqdma_device.queue_request_only [OF d, of "\<lparr>pf_rcv = rcv, pf_resp = resp, pf_rm = rm, pf_dev = s\<rparr>" q idx regs fid sel]
      assms(2-5) by (auto simp: qdma_mbox_pf_rcv_msg_handler_def case_prod_beta Let_def pf_src_def)
qed

text \<open>A message that asks for contexts of queue 7, which function 5 owns, and one that asks for those of queue 50.\<close>

definition clear_msg :: "u16 \<Rightarrow> u16 \<Rightarrow> mbox_cmpt_ctxt_type \<Rightarrow> mem" where
  "clear_msg f qid ct = the (snd (qdma_mbox_compose_vf_qctxt_clear f qid 1 1 ct (Some (\<lambda>_. 0))))"

lemma clear_msg_fields [simp]:
  "hdr_op (clear_msg f qid ct) = MBOX_OP_QCTXT_CLR" "hdr_src_func_id (clear_msg f qid ct) = f"
  "qctxt_qid_hw (clear_msg f qid ct) = qid" "qctxt_cmpt_ctxt_type (clear_msg f qid ct) = ct"
  "qctxt_st (clear_msg f qid ct) = 1" "qctxt_c2h (clear_msg f qid ct) = 1"
  by (simp_all add: clear_msg_def qdma_mbox_compose_vf_qctxt_clear_def compose_msg_def layout load_memset_0)

theorem mbox_queue_isolation_witness:
  "let (ret, rcv', resp', rm', s') = qdma_mbox_pf_rcv_msg_handler (eqdma_hw_access sim no_regs) 0 1
         (Some (clear_msg 5 7 QDMA_MBOX_CMPT_WITH_ST)) (\<lambda>_. 0) demo_state (sim_start\<lparr>ctxts := \<lambda>_ _ _. 1\<rparr>)
   in ctxts s' 6 50 = (\<lambda>_. 1)"
proof -
  have "n < 10 \<Longrightarrow> ind_qid (of_nat n) \<noteq> 50" for n :: nat
    unfolding numeral_nat by (auto simp: less_Suc_eq ind_qid_def)
  then have own: "50 \<notin> own_indices demo_state 0 5"
    by (auto simp: own_indices_def demo_state_facts(4))
  have "checked_request (clear_msg 5 7 QDMA_MBOX_CMPT_WITH_ST)" by (simp add: checked_request_def)
  note i = mbox_queue_isolation [OF sim_context_device _ this]
  show ?thesis
    using i [of demo_state no_regs 0 1 "\<lambda>_. 0" "sim_start\<lparr>ctxts := \<lambda>_ _ _. 1\<rparr>" _ _ _ _ _ 50 6] own demo_state_facts
    by (auto simp: Let_def split: prod.split)
qed

text \<open>
  the check is missing for completion contexts alone: a request to clear one is carried out for any queue, whoever
  sends it and whatever the resource manager holds.
\<close>

theorem mbox_cmpt_only_unchecked:
  assumes "context_device mm view" and "hdr_op rcv = MBOX_OP_QCTXT_CLR" and "qctxt_cmpt_ctxt_type rcv = QDMA_MBOX_CMPT_CTXT_ONLY"
    and "qdma_mbox_pf_rcv_msg_handler (eqdma_hw_access mm regs) idx fid (Some rcv) resp rm s = (ret, rcv', resp', rm', s')"
  shows "ctxts (view s') (sel_code QDMA_CTXT_SEL_CMPT) (ind_qid (qctxt_qid_hw rcv)) = (\<lambda>_. 0)"
proof -
  have "s' = snd (eqdma_indirect_reg_clear mm QDMA_CTXT_SEL_CMPT (qctxt_qid_hw rcv) s)"
    using assms(2-4)
    by (auto simp: qdma_mbox_pf_rcv_msg_handler_def pf_dispatch_def op_codes pf_exit_def pf_qctxt_clr_def Let_def case_prod_beta
        mbox_clear_queue_contexts_def then_do_def no_ctxt_def eqdma_hw_access_def eqdma_cmpt_ctx_conf_def eqdma_cmpt_context_clear_def)
  then show ?thesis by (simp add: indirect_command_effect(1) [OF assms(1)])
qed

theorem mbox_cmpt_only_unchecked_witness:
  "let (ret, rcv', resp', rm', s') = qdma_mbox_pf_rcv_msg_handler (eqdma_hw_access sim no_regs) 0 1
         (Some (clear_msg 6 7 QDMA_MBOX_CMPT_CTXT_ONLY)) (\<lambda>_. 0) demo_state (sim_start\<lparr>ctxts := \<lambda>_ _ _. 1\<rparr>)
   in 7 \<in> owned demo_state 0 5 \<and> 7 \<notin> owned demo_state 0 6 \<and> ctxts s' 6 7 = (\<lambda>_. 0)"
proof -
  have "owned demo_state 0 6 = {}"
    by (simp add: demo_state_eval owned_def qdma_get_dev_entry_def qdma_get_master_resource_entry_def demo_dev_def
        qs_def lo_def hi_def)
  then show ?thesis
    using mbox_cmpt_only_unchecked [OF sim_context_device, of "clear_msg 6 7 QDMA_MBOX_CMPT_CTXT_ONLY" no_regs 0 1
      "\<lambda>_. 0" demo_state "sim_start\<lparr>ctxts := \<lambda>_ _ _. 1\<rparr>"] demo_state_facts(4)
    by (auto simp: ind_qid_def split: prod.split)
qed

text \<open>
  C39: a checked request for a queue outside the range of a known sender changes nothing on the device, and the
  sender is told that it succeeded.
\<close>

theorem mbox_out_of_range_succeeds:
  assumes "checked_request rcv" and "qdma_dev_qinfo_get (ucast idx) (hdr_src_func_id rcv) rm = Inr held"
    and "qdma_dev_is_queue_in_range (ucast idx) (hdr_src_func_id rcv) (ucast (qctxt_qid_hw rcv)) rm \<noteq> QDMA_DEV_Q_IN_RANGE"
    and "qdma_mbox_pf_rcv_msg_handler hw idx fid (Some rcv) resp rm s = (ret, rcv', resp', rm', s')"
  shows "s' = s \<and> rm' = rm \<and> ret = 0 \<and> qdma_mbox_vf_response_status resp' = err_code QDMA_SUCCESS"
proof -
  have "qdma_mbox_vf_response_status (set_status 0 m) = 0" for m
    by (simp add: qdma_mbox_vf_response_status_def layout)
  then show ?thesis
    using assms
    by (auto simp: checked_request_def qdma_mbox_pf_rcv_msg_handler_def pf_dispatch_def op_codes pf_exit_def pf_src_def
        pf_qctxt_clr_def pf_qctxt_inv_def pf_qctxt_wrt_def Let_def mbox_clear_queue_contexts_def
        mbox_invalidate_queue_contexts_def mbox_write_queue_contexts_def)
qed

theorem mbox_out_of_range_succeeds_witness:
  "let (ret, rcv', resp', rm', s') = qdma_mbox_pf_rcv_msg_handler (eqdma_hw_access sim no_regs) 0 1
         (Some (clear_msg 5 50 QDMA_MBOX_CMPT_WITH_ST)) (\<lambda>_. 0) demo_state (sim_start\<lparr>ctxts := \<lambda>_ _ _. 1\<rparr>)
   in s' = sim_start\<lparr>ctxts := \<lambda>_ _ _. 1\<rparr> \<and> qdma_mbox_vf_response_status resp' = 0"
proof -
  have "checked_request (clear_msg 5 50 QDMA_MBOX_CMPT_WITH_ST)" by (simp add: checked_request_def)
  moreover have "qdma_dev_qinfo_get 0 5 demo_state = Inr (0, 10)" by code_simp
  moreover have "qdma_dev_is_queue_in_range 0 5 50 demo_state \<noteq> QDMA_DEV_Q_IN_RANGE" by code_simp
  ultimately show ?thesis
    using mbox_out_of_range_succeeds [of "clear_msg 5 50 QDMA_MBOX_CMPT_WITH_ST" 0 demo_state "(0, 10)"
      "eqdma_hw_access sim no_regs" 1 "\<lambda>_. 0" "sim_start\<lparr>ctxts := \<lambda>_ _ _. 1\<rparr>"]
    by (auto split: prod.split)
qed

end
