(* ===== verification/Mbox_Service.thy ===== *)
theory Mbox_Service
  imports Mbox_Isolation
begin

section \<open>What a virtual function gets from the mailbox\<close>

text \<open>
  The answers and the effect of a request on the resource manager. Abstractly a message is at most one
  operation of the manager on the sender's own entry; the handler refines that.
\<close>

subsection \<open>A message as operations of the resource manager\<close>

definition rm_request :: "u8 \<Rightarrow> mem \<Rightarrow> rm_state \<Rightarrow> rm_op list" where
  "rm_request idx m rm =
     (let i = ucast idx; f = hdr_src_func_id m; op = hdr_op m;
          mine = (qdma_dev_is_queue_in_range i f (ucast (notify_qid_hw m)) rm = QDMA_DEV_Q_IN_RANGE)
      in if op = MBOX_OP_VF_BYE \<or> op = MBOX_OP_PF_RESET_VF_BYE then [RM_Dev_Destroy i f]
         else if op = MBOX_OP_HELLO then (case qdma_dev_qinfo_get i f rm of Inl _ \<Rightarrow> [RM_Dev_Create i f] | Inr _ \<Rightarrow> [])
         else if op = MBOX_OP_QREQ then [RM_Dev_Update i f (fmap_qmax m) (fmap_qbase m)]
         else if op = MBOX_OP_QNOTIFY_ADD \<and> mine then [RM_Increment i f (notify_q_type m)]
         else if op = MBOX_OP_QNOTIFY_DEL \<and> mine then [RM_Decrement i f (notify_q_type m)]
         else [])"

text \<open>Operations on the entry of one function, and that they leave the other entries alone.\<close>

fun by_dev :: "u32 \<Rightarrow> u16 \<Rightarrow> rm_op \<Rightarrow> bool" where
  "by_dev i f (RM_Dev_Create j g) \<longleftrightarrow> j = i \<and> g = f"
| "by_dev i f (RM_Dev_Destroy j g) \<longleftrightarrow> j = i \<and> g = f"
| "by_dev i f (RM_Dev_Update j g _ _) \<longleftrightarrow> j = i \<and> g = f"
| "by_dev i f (RM_Increment j g _) \<longleftrightarrow> j = i \<and> g = f"
| "by_dev i f (RM_Decrement j g _) \<longleftrightarrow> j = i \<and> g = f"
| "by_dev i f _ \<longleftrightarrow> False"

lemma rm_request_by_dev: "list_all (by_dev (ucast idx) (hdr_src_func_id m)) (rm_request idx m rm)"
  by (simp add: rm_request_def Let_def split: sum.split)

lemma get_dev_put_list:
  assumes "\<And>m. dma_device_index (k m) = dma_device_index m"
    and "\<And>m. j = i \<Longrightarrow> find (\<lambda>d. func_id d = g) (dev_list (k m)) = find (\<lambda>d. func_id d = g) (dev_list m)"
  shows "qdma_get_dev_entry (put_master i k s) j g = qdma_get_dev_entry s j g"
  by (auto simp: qdma_get_dev_entry_def get_master_put [OF assms(1)] assms(2) split: option.split)

lemma dev_create_frame:
  assumes "(j, g) \<noteq> (i, f)"
  shows "qdma_get_dev_entry (snd (qdma_dev_entry_create i f s)) j g = qdma_get_dev_entry s j g"
  using assms
  by (auto simp: qdma_dev_entry_create_def Let_def case_prod_beta get_dev_put_list find_app split: option.split)

lemma dev_destroy_frame:
  assumes "(j, g) \<noteq> (i, f)"
  shows "qdma_get_dev_entry (qdma_dev_entry_destroy i f s) j g = qdma_get_dev_entry s j g"
proof -
  have "g \<noteq> f \<Longrightarrow> find (\<lambda>d. func_id d = g) (delete_first (\<lambda>d. func_id d = f) l) = find (\<lambda>d. func_id d = g) l"
    for l :: "dev_entry list"
    by (intro find_delete_first_other) auto
  then show ?thesis
    using assms by (auto simp: qdma_dev_entry_destroy_def Let_def case_prod_beta get_dev_put_list split: option.split)
qed

lemma dev_update_frame:
  "(j, g) \<noteq> (i, f) \<Longrightarrow> qdma_get_dev_entry (snd (snd (qdma_dev_update i f qm qb s))) j g = qdma_get_dev_entry s j g"
  by (cases "qdma_dev_update i f qm qb s") (simp add: qdma_dev_update_frame)

lemma counts_frame:
  assumes "(j, g) \<noteq> (i, f)"
  shows "qdma_get_dev_entry (snd (qdma_dev_increment_active_queue i f t s)) j g = qdma_get_dev_entry s j g"
    and "qdma_get_dev_entry (snd (qdma_dev_decrement_active_queue i f t s)) j g = qdma_get_dev_entry s j g"
  using assms
  by (auto simp: qdma_dev_increment_active_queue_def qdma_dev_decrement_active_queue_def get_dev_put split: option.split)

lemma rm_exec_frame:
  assumes "by_dev i f op" and "(j, g) \<noteq> (i, f)"
  shows "qdma_get_dev_entry (rm_exec op s) j g = qdma_get_dev_entry s j g"
  using assms
  by (cases op) (simp_all add: dev_create_frame dev_destroy_frame dev_update_frame counts_frame)

lemma rm_run_frame:
  assumes "list_all (by_dev i f) ops" and "(j, g) \<noteq> (i, f)"
  shows "qdma_get_dev_entry (rm_run ops s) j g = qdma_get_dev_entry s j g"
  using assms(1)
  by (induction ops arbitrary: s) (simp_all add: rm_run_def rm_exec_frame [OF _ assms(2)])

subsection \<open>What the handlers leave of the messages and the manager\<close>

definition same_header :: "'s pf_state \<Rightarrow> 's pf_state \<Rightarrow> bool" where
  "same_header p p' \<longleftrightarrow> hdr_op (pf_rcv p') = hdr_op (pf_rcv p) \<and> hdr_src_func_id (pf_rcv p') = hdr_src_func_id (pf_rcv p)"

lemma header_stores [simp]:
  "hdr_op (set_fmap qb qm m) = hdr_op m" "hdr_src_func_id (set_fmap qb qm m) = hdr_src_func_id m"
  "hdr_op (store 8 (v :: u32) m) = hdr_op m" "hdr_src_func_id (store 8 v m) = hdr_src_func_id m"
  by (simp_all add: layout)

lemma zero_fmap_parts [simp]:
  "pf_rcv (snd (zero_fmap hw p)) = pf_rcv p" "pf_resp (snd (zero_fmap hw p)) = pf_resp p" "pf_rm (snd (zero_fmap hw p)) = pf_rm p"
  by (simp_all add: zero_fmap_def case_prod_beta Let_def)

lemma fold_parts:
  assumes "\<And>i r. h (snd (step i r)) = h (snd r)"
  shows "h (snd (fold step is r)) = h (snd r)"
  using assms by (induction "is" arbitrary: r) simp_all

lemma intr_call_parts [simp]:
  "pf_rcv (snd (intr_call hw i c acc p)) = pf_rcv p" "pf_rm (snd (intr_call hw i c acc p)) = pf_rm p"
  by (simp_all add: intr_call_def case_prod_beta Let_def)

lemma intr_parts [simp]:
  "pf_rcv (snd (pf_intr_ctxt_wrt hw p)) = pf_rcv p" "pf_rm (snd (pf_intr_ctxt_wrt hw p)) = pf_rm p"
  "pf_rcv (snd (pf_intr_ctxt_rd hw p)) = pf_rcv p" "pf_rm (snd (pf_intr_ctxt_rd hw p)) = pf_rm p"
  "pf_rcv (snd (pf_intr_ctxt_clr hw p)) = pf_rcv p" "pf_rm (snd (pf_intr_ctxt_clr hw p)) = pf_rm p"
  "pf_rcv (snd (pf_intr_ctxt_inv hw p)) = pf_rcv p" "pf_rm (snd (pf_intr_ctxt_inv hw p)) = pf_rm p"
  unfolding pf_intr_ctxt_wrt_def pf_intr_ctxt_rd_def pf_intr_ctxt_clr_def pf_intr_ctxt_inv_def
  by (rule fold_parts [THEN trans], simp_all add: case_prod_beta Let_def)+

lemma handlers_header:
  "same_header p (snd (pf_vf_bye hw idx p))" "same_header p (snd (pf_hello hw idx p))" "same_header p (snd (pf_fmap hw p))"
  "same_header p (snd (pf_csr hw p))" "same_header p (snd (pf_qreq hw idx p))" "same_header p (snd (pf_qnotify_add idx p))"
  "same_header p (snd (pf_qnotify_del idx p))" "same_header p (snd (pf_qactive_cnt idx p))"
  "same_header p (snd (pf_intr_ctxt_wrt hw p))" "same_header p (snd (pf_intr_ctxt_rd hw p))"
  "same_header p (snd (pf_intr_ctxt_clr hw p))" "same_header p (snd (pf_intr_ctxt_inv hw p))"
  "same_header p (snd (pf_qctxt_inv hw idx p))" "same_header p (snd (pf_qctxt_clr hw idx p))"
  "same_header p (snd (pf_qctxt_rd hw p))" "same_header p (snd (pf_qctxt_wrt hw idx p))"
  "same_header p (snd (pf_reg_list_read hw p))"
  by (auto simp: same_header_def pf_vf_bye_def pf_hello_def pf_fmap_def pf_csr_def pf_qreq_def pf_qnotify_add_def
    pf_qnotify_del_def pf_qactive_cnt_def pf_qctxt_inv_def pf_qctxt_clr_def pf_qctxt_rd_def pf_qctxt_wrt_def
    pf_reg_list_read_def case_prod_beta Let_def split: sum.split)

lemma handlers_rm [simp]:
  "pf_rm (snd (pf_fmap hw p)) = pf_rm p" "pf_rm (snd (pf_csr hw p)) = pf_rm p" "pf_rm (snd (pf_qactive_cnt idx p)) = pf_rm p"
  "pf_rm (snd (pf_qctxt_inv hw idx p)) = pf_rm p" "pf_rm (snd (pf_qctxt_clr hw idx p)) = pf_rm p"
  "pf_rm (snd (pf_qctxt_rd hw p)) = pf_rm p" "pf_rm (snd (pf_qctxt_wrt hw idx p)) = pf_rm p"
  "pf_rm (snd (pf_reg_list_read hw p)) = pf_rm p"
  by (auto simp: pf_fmap_def pf_csr_def pf_qactive_cnt_def pf_qctxt_inv_def pf_qctxt_clr_def pf_qctxt_rd_def
    pf_qctxt_wrt_def pf_reg_list_read_def case_prod_beta Let_def)

lemma handlers_rm_ops:
  "pf_rm (snd (pf_vf_bye hw idx p)) = rm_run [RM_Dev_Destroy (ucast idx) (pf_src p)] (pf_rm p)"
  "pf_rm (snd (pf_hello hw idx p)) = rm_run (case qdma_dev_qinfo_get (ucast idx) (pf_src p) (pf_rm p) of
     Inl _ \<Rightarrow> [RM_Dev_Create (ucast idx) (pf_src p)] | Inr _ \<Rightarrow> []) (pf_rm p)"
  "pf_rm (snd (pf_qreq hw idx p)) =
     rm_run [RM_Dev_Update (ucast idx) (pf_src p) (fmap_qmax (pf_rcv p)) (fmap_qbase (pf_rcv p))] (pf_rm p)"
  "pf_rm (snd (pf_qnotify_add idx p)) = rm_run (if qdma_dev_is_queue_in_range (ucast idx) (pf_src p)
       (ucast (notify_qid_hw (pf_rcv p))) (pf_rm p) = QDMA_DEV_Q_IN_RANGE
     then [RM_Increment (ucast idx) (pf_src p) (notify_q_type (pf_rcv p))] else []) (pf_rm p)"
  "pf_rm (snd (pf_qnotify_del idx p)) = rm_run (if qdma_dev_is_queue_in_range (ucast idx) (pf_src p)
       (ucast (notify_qid_hw (pf_rcv p))) (pf_rm p) = QDMA_DEV_Q_IN_RANGE
     then [RM_Decrement (ucast idx) (pf_src p) (notify_q_type (pf_rcv p))] else []) (pf_rm p)"
  by (auto simp: rm_run_def pf_vf_bye_def pf_hello_def pf_qreq_def pf_qnotify_add_def pf_qnotify_del_def
    case_prod_beta Let_def split: sum.split)

lemma pf_exit_rm [simp]: "pf_rm (pf_exit fid r) = pf_rm (snd r)"
  by (cases r) (simp add: pf_exit_def)

text \<open>The answer after \<open>exit_func\<close>.\<close>

definition answers :: "u16 \<Rightarrow> 's pf_state \<Rightarrow> 's pf_state \<Rightarrow> bool" where
  "answers fid p p' \<longleftrightarrow> hdr_op (pf_resp p') = hdr_op (pf_rcv p) + 0x80 \<and>
     hdr_dst_func_id (pf_resp p') = hdr_src_func_id (pf_rcv p) \<and> hdr_src_func_id (pf_resp p') = fid"

lemma pf_exit_answers: "same_header p (snd r) \<Longrightarrow> answers fid p (pf_exit fid r)"
  by (cases r) (simp add: pf_exit_def answers_def same_header_def pf_src_def layout)

text \<open>The requests that are answered.\<close>

definition request_ops :: "u8 set" where
  "request_ops = {MBOX_OP_VF_BYE, MBOX_OP_PF_RESET_VF_BYE, MBOX_OP_HELLO, MBOX_OP_FMAP, MBOX_OP_CSR, MBOX_OP_QREQ,
     MBOX_OP_QNOTIFY_ADD, MBOX_OP_QNOTIFY_DEL, MBOX_OP_GET_QACTIVE_CNT, MBOX_OP_INTR_CTXT_WRT, MBOX_OP_INTR_CTXT_RD,
     MBOX_OP_INTR_CTXT_CLR, MBOX_OP_INTR_CTXT_INV, MBOX_OP_QCTXT_INV, MBOX_OP_QCTXT_CLR, MBOX_OP_QCTXT_RD,
     MBOX_OP_QCTXT_WRT, MBOX_OP_REG_LIST_READ}"

lemma pf_dispatch_rm:
  "pf_rm (snd (pf_dispatch hw idx fid p)) = rm_run (rm_request idx (pf_rcv p) (pf_rm p)) (pf_rm p)"
proof -
  have n: "rm_run [] s = s" for s by (simp add: rm_run_def)
  show ?thesis
    by (simp add: pf_dispatch_def rm_request_def op_codes handlers_rm_ops pf_src_def Let_def n split: sum.split cong: if_cong)
qed

lemma pf_dispatch_answers:
  assumes "hdr_op (pf_rcv p) \<in> request_ops" and "pf_dispatch hw idx fid p = (ret, p')"
    and "hdr_op (pf_rcv p) = MBOX_OP_FMAP \<Longrightarrow> 0 \<le> ret"
  shows "answers fid p p'"
  using assms
  by (auto simp: request_ops_def pf_dispatch_def op_codes Let_def split: if_splits intro!: pf_exit_answers handlers_header)

subsection \<open>Properties\<close>

text \<open>
  C20: every request is answered: the answer goes to the sender, names the physical function and is recognised as the
  response to this request. Any other message changes nothing. (A function map that cannot be programmed is the exception: it
  returns early without an answer.)
\<close>

theorem mbox_answers:
  assumes "qdma_mbox_pf_rcv_msg_handler hw idx fid (Some rcv) resp rm s = (ret, rcv', resp', rm', s')"
    and "hdr_op rcv = MBOX_OP_FMAP \<Longrightarrow> 0 \<le> ret"
  shows "if hdr_op rcv \<in> request_ops
    then hdr_dst_func_id resp' = hdr_src_func_id rcv \<and> hdr_src_func_id resp' = fid \<and> qdma_mbox_is_msg_response rcv resp' = 1
    else rcv' = Some rcv \<and> resp' = resp \<and> rm' = rm \<and> s' = s"
proof (cases "hdr_op rcv \<in> request_ops")
  case True
  let ?p = "\<lparr>pf_rcv = rcv, pf_resp = resp, pf_rm = rm, pf_dev = s\<rparr>"
  obtain p' where p': "pf_dispatch hw idx fid ?p = (ret, p')" "resp' = pf_resp p'"
    using assms(1) by (auto simp: qdma_mbox_pf_rcv_msg_handler_def case_prod_beta Let_def prod_eq_iff)
  have "unat (hdr_op rcv + 0x80) = unat (hdr_op rcv) + 0x80"
    using True by (auto simp: request_ops_def op_codes)
  then show ?thesis
    using pf_dispatch_answers [OF _ p'(1)] True assms(2)
    by (simp add: answers_def p'(2) qdma_mbox_is_msg_response_def MBOX_MSG_OP_RSP_OFFSET_def)
next
  case False
  then show ?thesis
    using assms(1)
    by (auto simp: request_ops_def qdma_mbox_pf_rcv_msg_handler_def pf_dispatch_def Let_def split: if_splits)
qed

theorem mbox_answers_witness:
  "let (ret, rcv', resp', rm', s') = qdma_mbox_pf_rcv_msg_handler (eqdma_hw_access sim no_regs) 0 1
         (Some (clear_msg 5 7 QDMA_MBOX_CMPT_WITH_ST)) (\<lambda>_. 0) demo_state sim_start
   in hdr_dst_func_id resp' = 5 \<and> hdr_src_func_id resp' = 1 \<and>
      qdma_mbox_is_msg_response (clear_msg 5 7 QDMA_MBOX_CMPT_WITH_ST) resp' = 1"
  using mbox_answers [of "eqdma_hw_access sim no_regs" 0 1 "clear_msg 5 7 QDMA_MBOX_CMPT_WITH_ST" "\<lambda>_. 0" demo_state sim_start]
  by (auto simp: request_ops_def op_codes split: prod.split)

text \<open>
  C7: on the resource manager a message is exactly its operation, done for the sender: nothing else changes it.
\<close>

theorem mbox_rm_refinement:
  assumes "qdma_mbox_pf_rcv_msg_handler hw idx fid (Some rcv) resp rm s = (ret, rcv', resp', rm', s')"
  shows "rm' = rm_run (rm_request idx rcv rm) rm \<and> list_all (by_dev (ucast idx) (hdr_src_func_id rcv)) (rm_request idx rcv rm)"
  using assms pf_dispatch_rm [of hw idx fid "\<lparr>pf_rcv = rcv, pf_resp = resp, pf_rm = rm, pf_dev = s\<rparr>"] rm_request_by_dev
  by (auto simp: qdma_mbox_pf_rcv_msg_handler_def case_prod_beta Let_def)

text \<open>A function that says goodbye.\<close>

definition bye_msg :: "u16 \<Rightarrow> mem" where
  "bye_msg f = the (snd (qdma_mbox_compose_vf_offline f (Some (\<lambda>_. 0))))"

lemma bye_msg_fields [simp]: "hdr_op (bye_msg f) = MBOX_OP_VF_BYE" "hdr_src_func_id (bye_msg f) = f"
  by (simp_all add: bye_msg_def qdma_mbox_compose_vf_offline_def compose_msg_def layout)

theorem mbox_rm_refinement_witness:
  "let (ret, rcv', resp', rm', s') = qdma_mbox_pf_rcv_msg_handler (eqdma_hw_access sim no_regs) 0 1
         (Some (bye_msg 5)) (\<lambda>_. 0) demo_state sim_start
   in rm' = qdma_dev_entry_destroy 0 5 demo_state"
  using mbox_rm_refinement [of "eqdma_hw_access sim no_regs" 0 1 "bye_msg 5" "\<lambda>_. 0" demo_state sim_start]
  by (auto simp: rm_request_def rm_run_def op_codes split: prod.split)

text \<open>
  C22: no message of a function changes which queues another function owns, on this device or another, and the
  invariant of the resource manager is kept as long as a requested range does not wrap.
\<close>

theorem mbox_owners:
  assumes "rm_inv rm" and "hdr_op rcv = MBOX_OP_QREQ \<Longrightarrow> hint_ok (fmap_qmax rcv) (fmap_qbase rcv)"
    and "qdma_mbox_pf_rcv_msg_handler hw idx fid (Some rcv) resp rm s = (ret, rcv', resp', rm', s')"
  shows "rm_inv rm' \<and> (\<forall>j g. (j, g) \<noteq> (ucast idx, hdr_src_func_id rcv) \<longrightarrow> owned rm' j g = owned rm j g)"
proof -
  have rm': "rm' = rm_run (rm_request idx rcv rm) rm"
    using assms(3) pf_dispatch_rm [of hw idx fid "\<lparr>pf_rcv = rcv, pf_resp = resp, pf_rm = rm, pf_dev = s\<rparr>"]
    by (auto simp: qdma_mbox_pf_rcv_msg_handler_def case_prod_beta Let_def)
  have "list_all rm_op_ok (rm_request idx rcv rm)"
    using assms(2) by (auto simp: rm_request_def Let_def split: sum.split)
  then have "rm_inv rm'" using rm.runs_inv [OF assms(1)] by (simp add: rm' rm_run_def)
  moreover have "qdma_get_dev_entry rm' j g = qdma_get_dev_entry rm j g" if "(j, g) \<noteq> (ucast idx, hdr_src_func_id rcv)" for j g
    unfolding rm' using rm_run_frame [OF rm_request_by_dev that] .
  ultimately show ?thesis by (auto simp: owned_def)
qed

theorem mbox_owners_witness:
  "let (ret, rcv', resp', rm', s') = qdma_mbox_pf_rcv_msg_handler (eqdma_hw_access sim no_regs) 0 1
         (Some (bye_msg 6)) (\<lambda>_. 0) demo_state sim_start
   in rm_inv rm' \<and> owned rm' 0 5 = {0..<10}"
  using mbox_owners [OF demo_state_facts(1), of "bye_msg 6" "eqdma_hw_access sim no_regs" 0 1 "\<lambda>_. 0" sim_start]
    demo_state_facts(4)
  by (auto simp: op_codes split: prod.split)

lemma answer_reads:
  "hdr_status (set_status v m) = sint (word_of_int v :: u8)"
  "fmap_qbase (set_status v (set_src_func_id f (set_dst_func_id g (set_op x m)))) = fmap_qbase m"
  "fmap_qmax (set_status v (set_src_func_id f (set_dst_func_id g (set_op x m)))) = fmap_qmax m"
  "fmap_qbase (set_fmap qb qm m) = qb" "fmap_qmax (set_fmap qb qm m) = qm"
  by (simp_all add: layout)

text \<open>
  C23: a virtual function that asks for queues learns from the answer the range the resource manager gave it, or
  that there was none.
\<close>

theorem mbox_qreq_served:
  assumes "qdma_mbox_compose_vf_qreq f qm qb (Some m) = (rv0, Some rcv)"
    and "qdma_mbox_pf_rcv_msg_handler hw idx fid (Some rcv) resp rm s = (ret, rcv', resp', rm', s')"
    and "qdma_dev_update (ucast idx) f (ucast qm) qb rm = (rv, qb', rm1)"
  shows "rm' = rm1 \<and>
    (rv = 0 \<longrightarrow> (\<exists>n. qdma_dev_qinfo_get (ucast idx) f rm1 = Inr (qb', n) \<and> qdma_mbox_vf_qinfo_get resp' = (0, qb', ucast n))) \<and>
    (rv < 0 \<longrightarrow> qdma_mbox_vf_response_status resp' = neg_err QDMA_ERR_MBOX_NUM_QUEUES)"
proof -
  let ?p = "\<lparr>pf_rcv = rcv, pf_resp = resp, pf_rm = rm, pf_dev = s\<rparr>"
  have rcv: "hdr_op rcv = MBOX_OP_QREQ" "hdr_src_func_id rcv = f" "fmap_qmax rcv = ucast qm" "fmap_qbase rcv = qb"
    using assms(1) by (auto simp: qdma_mbox_compose_vf_qreq_def compose_msg_def layout)
  have h: "rm' = pf_rm (snd (pf_qreq hw idx ?p))" "resp' = pf_resp (pf_exit fid (pf_qreq hw idx ?p))"
    using assms(2) by (auto simp: qdma_mbox_pf_rcv_msg_handler_def pf_dispatch_def rcv(1) op_codes case_prod_beta Let_def)
  have "\<exists>n. qdma_dev_qinfo_get (ucast idx) f rm1 = Inr (qb', n)" if "rv = 0"
    using assms(3)
  proof (cases rule: qdma_dev_update_cases)
    case (requested m' d pre post e' free' mem')
    then show ?thesis
      by (auto simp: qdma_dev_qinfo_get_def get_dev_put get_master_put)
  qed (use that in simp)
  then show ?thesis
    using assms(3)
    by (auto simp: h pf_exit_def pf_qreq_def pf_src_def rcv case_prod_beta Let_def qdma_mbox_vf_qinfo_get_def
        qdma_mbox_vf_response_status_def answer_reads)
qed

theorem mbox_qreq_served_witness:
  "let rcv = the (snd (qdma_mbox_compose_vf_qreq 6 20 (- 1) (Some (\<lambda>_. 0))));
       (ret, rcv', resp', rm', s') = qdma_mbox_pf_rcv_msg_handler (eqdma_hw_access sim no_regs) 0 1 (Some rcv) (\<lambda>_. 0) demo_state sim_start
   in qdma_mbox_vf_qinfo_get resp' = (0, 10, 20)"
proof -
  obtain rv qb rm1 where u: "qdma_dev_update 0 6 20 (- 1) demo_state = (rv, qb, rm1)" by (metis prod_cases3)
  have "fst (qdma_dev_update 0 6 20 (- 1) demo_state) = 0 \<and> fst (snd (qdma_dev_update 0 6 20 (- 1) demo_state)) = 10 \<and>
      qdma_dev_qinfo_get 0 6 (snd (snd (qdma_dev_update 0 6 20 (- 1) demo_state))) = Inr (10, 20)"
    by code_simp
  then have v: "rv = 0" "qb = 10" "qdma_dev_qinfo_get 0 6 rm1 = Inr (10, 20)" by (simp_all add: u)
  obtain rcv where c: "qdma_mbox_compose_vf_qreq 6 20 (- 1) (Some (\<lambda>_. 0)) = (0, Some rcv)"
    by (simp add: qdma_mbox_compose_vf_qreq_def compose_msg_def)
  show ?thesis
    using mbox_qreq_served [OF c, of "eqdma_hw_access sim no_regs" 0 1 "\<lambda>_. 0" demo_state sim_start] u v c
    by (auto simp: Let_def split: prod.split)
qed

end
