(* ===== verification/Mbox_Hw.thy ===== *)
theory Mbox_Hw
  imports Mbox_Handler
begin

section \<open>The mailbox registers (qdma\_mbox\_protocol.c)\<close>

text \<open>
  A function sends a message by writing its 32 words and a command, and receives one by reading them and
  acknowledging. A physical function also selects its peer in the target register.
\<close>

unbundle bit_operations_syntax

named_theorems mbox_regs

definition MBOX_FN_STATUS :: u32 where [mbox_regs]: "MBOX_FN_STATUS = 0x0"
definition F_MBOX_FN_STATUS_OUT_MSG :: u32 where [mbox_regs]: "F_MBOX_FN_STATUS_OUT_MSG = 2"
definition F_MBOX_FN_STATUS_ACK :: u32 where [mbox_regs]: "F_MBOX_FN_STATUS_ACK = 4"
definition M_MBOX_FN_STATUS_IN_MSG :: u32 where [mbox_regs]: "M_MBOX_FN_STATUS_IN_MSG = 1"
definition G_MBOX_FN_STATUS_SRC :: "u32 \<Rightarrow> u32" where [mbox_regs]: "G_MBOX_FN_STATUS_SRC x = drop_bit 4 x AND 0xFFF"
definition MBOX_FN_CMD :: u32 where [mbox_regs]: "MBOX_FN_CMD = 0x4"
definition F_MBOX_FN_CMD_SND :: u32 where [mbox_regs]: "F_MBOX_FN_CMD_SND = 1"
definition F_MBOX_FN_CMD_RCV :: u32 where [mbox_regs]: "F_MBOX_FN_CMD_RCV = 2"
definition MBOX_ISR_VEC :: u32 where [mbox_regs]: "MBOX_ISR_VEC = 0x8"
definition MBOX_FN_TARGET :: u32 where [mbox_regs]: "MBOX_FN_TARGET = 0xC"
definition V_MBOX_FN_TARGET_ID :: "u32 \<Rightarrow> u32" where [mbox_regs]: "V_MBOX_FN_TARGET_ID x = x AND 0xFFF"
definition MBOX_ISR_EN :: u32 where [mbox_regs]: "MBOX_ISR_EN = 0x10"
definition MBOX_PF_ACK_BASE :: u32 where [mbox_regs]: "MBOX_PF_ACK_BASE = 0x20"
definition MBOX_PF_ACK_STEP :: u32 where [mbox_regs]: "MBOX_PF_ACK_STEP = 4"
definition MBOX_PF_ACK_COUNT :: nat where [mbox_regs]: "MBOX_PF_ACK_COUNT = 8"
definition MBOX_IN_MSG_BASE :: u32 where [mbox_regs]: "MBOX_IN_MSG_BASE = 0x800"
definition MBOX_OUT_MSG_BASE :: u32 where [mbox_regs]: "MBOX_OUT_MSG_BASE = 0xc00"
definition MBOX_MSG_STEP :: u32 where [mbox_regs]: "MBOX_MSG_STEP = 4"
definition MBOX_MSG_REG_MAX :: nat where [mbox_regs]: "MBOX_MSG_REG_MAX = 32"

definition get_mbox_offset :: "'s qdma_hw_access \<Rightarrow> u8 \<Rightarrow> u32" where
  "get_mbox_offset hw is_vf = (if is_vf \<noteq> 0 then mbox_base_vf hw else mbox_base_pf hw)"

definition mbox_pf_hw_clear_func_ack :: "'s mmio \<Rightarrow> 's qdma_hw_access \<Rightarrow> u16 \<Rightarrow> 's \<Rightarrow> 's" where
  "mbox_pf_hw_clear_func_ack mm hw fid s =
     (let idx = fid div 32; b = unat (fid mod 32)
      in qdma_reg_write mm (get_mbox_offset hw 0 + MBOX_PF_ACK_BASE + ucast idx * MBOX_PF_ACK_STEP) (push_bit b 1) s)"

fun clear_ack_regs :: "'s mmio \<Rightarrow> u32 \<Rightarrow> nat \<Rightarrow> 's \<Rightarrow> 's" where
  "clear_ack_regs mm reg 0 s = s"
| "clear_ack_regs mm reg (Suc n) s =
     (let (v, s1) = qdma_reg_read mm reg s
      in clear_ack_regs mm (reg + MBOX_PF_ACK_STEP) n (if v = 0 then s1 else qdma_reg_write mm reg v s1))"

definition qdma_mbox_pf_hw_clear_ack :: "'s mmio \<Rightarrow> 's qdma_hw_access \<Rightarrow> 's \<Rightarrow> 's" where
  "qdma_mbox_pf_hw_clear_ack mm hw s =
     (let base = get_mbox_offset hw 0; (v, s1) = qdma_reg_read mm (base + MBOX_FN_STATUS) s
      in if v AND F_MBOX_FN_STATUS_ACK = 0 then s1
         else clear_ack_regs mm (base + MBOX_PF_ACK_BASE) MBOX_PF_ACK_COUNT s1)"

subsection \<open>Sending and receiving\<close>

definition msg_word :: "nat \<Rightarrow> mem \<Rightarrow> u32" where
  "msg_word i m = load (4 * i) m"

definition write_msg :: "'s mmio \<Rightarrow> u32 \<Rightarrow> mem \<Rightarrow> 's \<Rightarrow> 's" where
  "write_msg mm base raw s =
     fold (\<lambda>i s. qdma_reg_write mm (base + (MBOX_OUT_MSG_BASE + of_nat i * MBOX_MSG_STEP)) (msg_word i raw) s)
       [0..<MBOX_MSG_REG_MAX] s"

definition qdma_mbox_send :: "'s mmio \<Rightarrow> 's qdma_hw_access \<Rightarrow> u8 \<Rightarrow> mem \<Rightarrow> 's \<Rightarrow> int \<times> 's" where
  "qdma_mbox_send mm hw is_vf raw s =
     (let dst = hdr_dst_func_id raw; base = get_mbox_offset hw is_vf;
          (v, s1) = qdma_reg_read mm (base + MBOX_FN_STATUS) s
      in if v AND F_MBOX_FN_STATUS_OUT_MSG \<noteq> 0 then (neg_err QDMA_ERR_MBOX_SEND_BUSY, s1)
         else (let s2 = (if is_vf = 0
                 then qdma_reg_write mm (base + MBOX_FN_TARGET) (V_MBOX_FN_TARGET_ID (ucast dst)) s1 else s1);
                   s3 = write_msg mm base raw s2;
                   s4 = (if is_vf = 0 then mbox_pf_hw_clear_func_ack mm hw dst s3 else s3)
               in (err_code QDMA_SUCCESS, qdma_reg_write mm (base + MBOX_FN_CMD) F_MBOX_FN_CMD_SND s4)))"

text \<open>The words are stored as they are read; the flag tells whether all of them were zero.\<close>

definition read_word :: "'s mmio \<Rightarrow> u32 \<Rightarrow> nat \<Rightarrow> bool \<times> mem \<times> 's \<Rightarrow> bool \<times> mem \<times> 's" where
  "read_word mm base i = (\<lambda>(z, m, s).
     let (w, s') = qdma_reg_read mm (base + (MBOX_IN_MSG_BASE + of_nat i * MBOX_MSG_STEP)) s
     in (z \<and> w = 0, store (4 * i) w m, s'))"

definition read_msg :: "'s mmio \<Rightarrow> u32 \<Rightarrow> mem \<Rightarrow> 's \<Rightarrow> bool \<times> mem \<times> 's" where
  "read_msg mm base raw s = fold (read_word mm base) [0..<MBOX_MSG_REG_MAX] (True, raw, s)"

definition qdma_mbox_rcv :: "'s mmio \<Rightarrow> 's qdma_hw_access \<Rightarrow> u8 \<Rightarrow> mem \<Rightarrow> 's \<Rightarrow> int \<times> mem \<times> 's" where
  "qdma_mbox_rcv mm hw is_vf raw s =
     (let base = get_mbox_offset hw is_vf; (v, s1) = qdma_reg_read mm (base + MBOX_FN_STATUS) s
      in if v AND M_MBOX_FN_STATUS_IN_MSG = 0 then (neg_err QDMA_ERR_MBOX_NO_MSG_IN, raw, s1)
         else (let from_id = (if is_vf = 0 then G_MBOX_FN_STATUS_SRC v else 0);
                   s2 = (if is_vf = 0 then qdma_reg_write mm (base + MBOX_FN_TARGET) from_id s1 else s1);
                   (all_zero_msg, m, s3) = read_msg mm base raw s2;
                   s4 = qdma_reg_write mm (base + MBOX_FN_CMD) F_MBOX_FN_CMD_RCV s3
               in if all_zero_msg then (neg_err QDMA_ERR_MBOX_ALL_ZERO_MSG, m, s4)
                  else (err_code QDMA_SUCCESS,
                        if is_vf = 0 \<and> from_id \<noteq> ucast (hdr_src_func_id m) then set_src_func_id (ucast from_id) m else m,
                        s4)))"

subsection \<open>Set-up and interrupts\<close>

definition qdma_mbox_hw_init :: "'s mmio \<Rightarrow> 's qdma_hw_access \<Rightarrow> u8 \<Rightarrow> 's \<Rightarrow> 's" where
  "qdma_mbox_hw_init mm hw is_vf s =
     (let base = get_mbox_offset hw is_vf
      in if is_vf \<noteq> 0 then
           (let (v, s1) = qdma_reg_read mm (base + MBOX_FN_STATUS) s
            in if v AND M_MBOX_FN_STATUS_IN_MSG \<noteq> 0 then qdma_reg_write mm (base + MBOX_FN_CMD) F_MBOX_FN_CMD_RCV s1
               else s1)
         else qdma_mbox_pf_hw_clear_ack mm hw s)"

definition qdma_mbox_enable_interrupts :: "'s mmio \<Rightarrow> 's qdma_hw_access \<Rightarrow> u8 \<Rightarrow> 's \<Rightarrow> 's" where
  "qdma_mbox_enable_interrupts mm hw is_vf s =
     qdma_reg_write mm (get_mbox_offset hw is_vf + MBOX_ISR_EN) 1
       (qdma_reg_write mm (get_mbox_offset hw is_vf + MBOX_ISR_VEC) 0 s)"

definition qdma_mbox_disable_interrupts :: "'s mmio \<Rightarrow> 's qdma_hw_access \<Rightarrow> u8 \<Rightarrow> 's \<Rightarrow> 's" where
  "qdma_mbox_disable_interrupts mm hw is_vf s = qdma_reg_write mm (get_mbox_offset hw is_vf + MBOX_ISR_EN) 0 s"

definition qdma_mbox_out_status :: "'s mmio \<Rightarrow> 's qdma_hw_access \<Rightarrow> u8 \<Rightarrow> 's \<Rightarrow> u8 \<times> 's" where
  "qdma_mbox_out_status mm hw is_vf s =
     (let (v, s1) = qdma_reg_read mm (get_mbox_offset hw is_vf + MBOX_FN_STATUS) s
      in (if v AND F_MBOX_FN_STATUS_OUT_MSG \<noteq> 0 then 1 else 0, s1))"

subsection \<open>The link between the two sides\<close>

text \<open>
  What the mailbox of a virtual function \<open>src\<close> and its physical function share: the outgoing words, the words that
  arrived, and whether a message waits to be acknowledged. Sending moves the words across; the status registers show
  the waiting message on both sides and, to the physical function, the sender the hardware knows.
\<close>

record mbox_view =
  mv_out :: "nat \<Rightarrow> u32"
  mv_in :: "nat \<Rightarrow> u32"
  mv_full :: bool

definition sender_law :: "'s mmio \<Rightarrow> u32 \<Rightarrow> ('s \<Rightarrow> mbox_view) \<Rightarrow> bool" where
  "sender_law mm base view \<longleftrightarrow> (\<forall>s.
     (\<forall>i < MBOX_MSG_REG_MAX. \<forall>w. view (qdma_reg_write mm (base + (MBOX_OUT_MSG_BASE + of_nat i * MBOX_MSG_STEP)) w s) =
        (view s)\<lparr>mv_out := (mv_out (view s))(i := w)\<rparr>) \<and>
     view (qdma_reg_write mm (base + MBOX_FN_CMD) F_MBOX_FN_CMD_SND s) =
       (view s)\<lparr>mv_in := mv_out (view s), mv_full := True\<rparr> \<and>
     (fst (qdma_reg_read mm (base + MBOX_FN_STATUS) s) AND F_MBOX_FN_STATUS_OUT_MSG \<noteq> 0 \<longleftrightarrow> mv_full (view s)) \<and>
     view (snd (qdma_reg_read mm (base + MBOX_FN_STATUS) s)) = view s)"

definition receiver_law :: "'s mmio \<Rightarrow> u32 \<Rightarrow> u32 \<Rightarrow> ('s \<Rightarrow> mbox_view) \<Rightarrow> bool" where
  "receiver_law mm base src view \<longleftrightarrow> (\<forall>s.
     (\<forall>i < MBOX_MSG_REG_MAX. fst (qdma_reg_read mm (base + (MBOX_IN_MSG_BASE + of_nat i * MBOX_MSG_STEP)) s) = mv_in (view s) i \<and>
        view (snd (qdma_reg_read mm (base + (MBOX_IN_MSG_BASE + of_nat i * MBOX_MSG_STEP)) s)) = view s) \<and>
     (fst (qdma_reg_read mm (base + MBOX_FN_STATUS) s) AND M_MBOX_FN_STATUS_IN_MSG \<noteq> 0 \<longleftrightarrow> mv_full (view s)) \<and>
     (mv_full (view s) \<longrightarrow> G_MBOX_FN_STATUS_SRC (fst (qdma_reg_read mm (base + MBOX_FN_STATUS) s)) = src) \<and>
     view (snd (qdma_reg_read mm (base + MBOX_FN_STATUS) s)) = view s \<and>
     (\<forall>w. view (qdma_reg_write mm (base + MBOX_FN_TARGET) w s) = view s) \<and>
     view (qdma_reg_write mm (base + MBOX_FN_CMD) F_MBOX_FN_CMD_RCV s) = (view s)\<lparr>mv_full := False\<rparr>)"

lemma store_load: "store a (load a m :: u32) r x = (if a \<le> x \<and> x < a + 4 then m x else r x)"
proof (cases "a \<le> x \<and> x < a + 4")
  case True
  then obtain d where d: "x = a + d" "d < 4" using le_Suc_ex by auto
  have "ucast (drop_bit (8 * d) (load a m :: u32)) = m x"
  proof (rule bit_word_eqI)
    fix n assume n: "n < LENGTH(8)"
    then have "(8 * d + n) div 8 = d" "(8 * d + n) mod 8 = n" "8 * d + n < 32" using d(2) by simp_all
    then show "bit (ucast (drop_bit (8 * d) (load a m :: u32)) :: u8) n = bit (m x) n"
      using n by (simp add: bit_simps bit_load d(1))
  qed
  then show ?thesis using True d by (simp add: store_def)
qed (auto simp: store_def)

lemma write_msg_view:
  assumes "sender_law mm base view" and "n \<le> 32"
  shows "view (fold (\<lambda>i s. qdma_reg_write mm (base + (MBOX_OUT_MSG_BASE + of_nat i * MBOX_MSG_STEP)) (msg_word i m) s) [0..<n] s) =
    (view s)\<lparr>mv_out := (\<lambda>i. if i < n then msg_word i m else mv_out (view s) i)\<rparr>"
  using assms(2)
proof (induction n)
  case (Suc n)
  then have "n < MBOX_MSG_REG_MAX" by (simp add: MBOX_MSG_REG_MAX_def)
  with Suc assms(1) show ?case by (auto simp: sender_law_def fun_eq_iff less_Suc_eq)
qed simp

lemma read_msg_mem:
  assumes "receiver_law mm base src view" and "n \<le> 32" and "\<forall>i < 32. mv_in (view s) i = msg_word i m"
  shows "\<exists>s'. fold (read_word mm base) [0..<n] (True, raw, s) =
      (\<forall>i < n. msg_word i m = 0, (\<lambda>x. if x < 4 * n then m x else raw x), s') \<and> view s' = view s"
  using assms(2)
proof (induction n)
  case (Suc n)
  then obtain s' where IH: "fold (read_word mm base) [0..<n] (True, raw, s) =
      (\<forall>i < n. msg_word i m = 0, (\<lambda>x. if x < 4 * n then m x else raw x), s')" "view s' = view s" by auto
  obtain w s'' where r: "qdma_reg_read mm (base + (MBOX_IN_MSG_BASE + of_nat n * MBOX_MSG_STEP)) s' = (w, s'')" by fastforce
  have n: "n < MBOX_MSG_REG_MAX" "n < 32" using Suc.prems by (simp_all add: MBOX_MSG_REG_MAX_def)
  then have w: "w = msg_word n m" "view s'' = view s"
    using assms(1,3) r IH(2) unfolding receiver_law_def by (metis fst_conv, metis snd_conv)
  moreover have "store (4 * n) (msg_word n m) (\<lambda>x. if x < 4 * n then m x else raw x) = (\<lambda>x. if x < 4 * Suc n then m x else raw x)"
    unfolding msg_word_def by (rule ext) (simp add: store_load)
  ultimately have "read_word mm base n (fold (read_word mm base) [0..<n] (True, raw, s)) =
      (\<forall>i < Suc n. msg_word i m = 0, (\<lambda>x. if x < 4 * Suc n then m x else raw x), s'')"
    unfolding IH(1) by (simp add: read_word_def r All_less_Suc conj_commute)
  with w(2) show ?case by simp
qed simp

lemma send_effect:
  assumes "sender_law mm (mbox_base_vf hw) view" and "is_vf \<noteq> 0"
  shows "mv_full (view s) \<Longrightarrow> fst (qdma_mbox_send mm hw is_vf m s) = neg_err QDMA_ERR_MBOX_SEND_BUSY"
    and "\<not> mv_full (view s) \<Longrightarrow> \<exists>s'. qdma_mbox_send mm hw is_vf m s = (0, s') \<and> mv_full (view s') \<and>
      (\<forall>i < 32. mv_in (view s') i = msg_word i m)"
proof -
  obtain v s1 where r: "qdma_reg_read mm (mbox_base_vf hw + MBOX_FN_STATUS) s = (v, s1)" by fastforce
  have v: "v AND F_MBOX_FN_STATUS_OUT_MSG \<noteq> 0 \<longleftrightarrow> mv_full (view s)" "view s1 = view s"
    using assms(1) r unfolding sender_law_def by (metis fst_conv, metis snd_conv)
  have b: "get_mbox_offset hw is_vf = mbox_base_vf hw" using assms(2) by (simp add: get_mbox_offset_def)
  show "mv_full (view s) \<Longrightarrow> fst (qdma_mbox_send mm hw is_vf m s) = neg_err QDMA_ERR_MBOX_SEND_BUSY"
    using v(1) by (simp add: qdma_mbox_send_def b r)
  show "\<exists>s'. qdma_mbox_send mm hw is_vf m s = (0, s') \<and> mv_full (view s') \<and> (\<forall>i < 32. mv_in (view s') i = msg_word i m)"
    if "\<not> mv_full (view s)"
    using that v(1) write_msg_view [OF assms(1), of 32 m s1] assms(1)
    by (simp add: qdma_mbox_send_def b r assms(2) write_msg_def MBOX_MSG_REG_MAX_def sender_law_def Let_def)
qed

lemma rcv_effect:
  assumes "receiver_law mm (mbox_base_pf hw) src view"
  shows "\<not> mv_full (view s) \<Longrightarrow> fst (qdma_mbox_rcv mm hw 0 raw s) = neg_err QDMA_ERR_MBOX_NO_MSG_IN"
    and "mv_full (view s) \<Longrightarrow> \<forall>i < 32. mv_in (view s) i = msg_word i m \<Longrightarrow> \<exists>i < 32. msg_word i m \<noteq> 0 \<Longrightarrow> unat src < 2 ^ 12 \<Longrightarrow>
      \<exists>m' s'. qdma_mbox_rcv mm hw 0 raw s = (0, m', s') \<and> hdr_src_func_id m' = ucast src \<and> \<not> mv_full (view s') \<and>
        (\<forall>x. x \<notin> {2, 3} \<longrightarrow> m' x = (if x < 128 then m x else raw x))"
    and "mv_full (view s) \<Longrightarrow> \<forall>i < 32. mv_in (view s) i = msg_word i m \<Longrightarrow> \<forall>i < 32. msg_word i m = 0 \<Longrightarrow>
      \<exists>s'. qdma_mbox_rcv mm hw 0 raw s = (neg_err QDMA_ERR_MBOX_ALL_ZERO_MSG, \<lambda>x. if x < 128 then m x else raw x, s') \<and>
        \<not> mv_full (view s')"
proof -
  obtain v s1 where r: "qdma_reg_read mm (mbox_base_pf hw + MBOX_FN_STATUS) s = (v, s1)" by fastforce
  have v: "v AND M_MBOX_FN_STATUS_IN_MSG \<noteq> 0 \<longleftrightarrow> mv_full (view s)" "mv_full (view s) \<longrightarrow> G_MBOX_FN_STATUS_SRC v = src" "view s1 = view s"
    using assms r unfolding receiver_law_def by (metis fst_conv, metis fst_conv, metis snd_conv)
  have b: "get_mbox_offset hw 0 = mbox_base_pf hw" by (simp add: get_mbox_offset_def)
  show "\<not> mv_full (view s) \<Longrightarrow> fst (qdma_mbox_rcv mm hw 0 raw s) = neg_err QDMA_ERR_MBOX_NO_MSG_IN"
    using v(1) by (simp add: qdma_mbox_rcv_def b r)
  assume full: "mv_full (view s)" and words: "\<forall>i < 32. mv_in (view s) i = msg_word i m"
  let ?s2 = "qdma_reg_write mm (mbox_base_pf hw + MBOX_FN_TARGET) src s1"
  have v2: "view ?s2 = view s" using assms v(3) by (simp add: receiver_law_def)
  let ?m = "\<lambda>x. if x < 128 then m x else raw x"
  obtain s3 where s3: "read_msg mm (mbox_base_pf hw) raw ?s2 = (\<forall>i < 32. msg_word i m = 0, ?m, s3)"
    using read_msg_mem [OF assms, of 32 ?s2 m raw] words v2 unfolding read_msg_def MBOX_MSG_REG_MAX_def by fastforce
  let ?s4 = "qdma_reg_write mm (mbox_base_pf hw + MBOX_FN_CMD) F_MBOX_FN_CMD_RCV s3"
  have v4: "\<not> mv_full (view ?s4)" using assms by (simp add: receiver_law_def)
  {
    assume "\<forall>i < 32. msg_word i m = 0"
    then have z: "(\<forall>i < 32. msg_word i m = 0) = True" by (rule eqTrueI)
    show "\<exists>s'. qdma_mbox_rcv mm hw 0 raw s = (neg_err QDMA_ERR_MBOX_ALL_ZERO_MSG, ?m, s') \<and> \<not> mv_full (view s')"
      using full v v4 by (simp add: qdma_mbox_rcv_def b r s3 [unfolded z])
  }
  assume some: "\<exists>i < 32. msg_word i m \<noteq> 0" and src: "unat src < 2 ^ 12"
  then have z: "(\<forall>i < 32. msg_word i m = 0) = False" by blast
  let ?m' = "if src \<noteq> ucast (hdr_src_func_id ?m) then set_src_func_id (ucast src) ?m else ?m"
  have rcv: "qdma_mbox_rcv mm hw 0 raw s = (0, ?m', ?s4)"
    using full v by (simp add: qdma_mbox_rcv_def b r s3 [unfolded z])
  have "hdr_src_func_id ?m' = ucast src"
  proof (cases "src = ucast (hdr_src_func_id ?m)")
    case True
    have "ucast (ucast (hdr_src_func_id ?m) :: u32) = hdr_src_func_id ?m" by (rule bit_word_eqI) (simp add: bit_simps)
    with True show ?thesis by simp
  qed (simp add: layout)
  moreover have "?m' x = ?m x" if "x \<notin> {2, 3}" for x
    using that by (auto simp: set_src_func_id_def store_def)
  ultimately show "\<exists>m' s'. qdma_mbox_rcv mm hw 0 raw s = (0, m', s') \<and> hdr_src_func_id m' = ucast src \<and> \<not> mv_full (view s') \<and>
        (\<forall>x. x \<notin> {2, 3} \<longrightarrow> m' x = (if x < 128 then m x else raw x))"
    using rcv v4 by blast
qed


subsection \<open>Properties\<close>

text \<open>
  C21: A message a virtual function sends is the message its physical function receives. With mailbox registers that keep
  their documented contract and report a function number of at most twelve bits as the source, on an idle link the send
  succeeds, and a second send is refused as busy until the first is received. When some word of the message is not zero,
  the physical function then gets every byte of it, except that its source field names the function the hardware reports
  and not what the sender wrote there; a message of zeros arrives too, but is reported as the error for such messages. In
  both cases the rest of the receiver's buffer is untouched, and the link is idle again, so that receiving once more
  reports that no message is there.
\<close>
theorem mbox_send_receive:
  assumes "sender_law mmv (mbox_base_vf hwv) view" and "receiver_law mmp (mbox_base_pf hwp) src view"
    and "\<not> mv_full (view s)" and "is_vf \<noteq> 0" and "unat src < 2 ^ 12"
  shows "let (rv, s1) = qdma_mbox_send mmv hwv is_vf m s; (rv', m', s2) = qdma_mbox_rcv mmp hwp 0 raw s1
    in rv = 0 \<and> fst (qdma_mbox_send mmv hwv is_vf m2 s1) = neg_err QDMA_ERR_MBOX_SEND_BUSY \<and>
       (if \<exists>i < 32. msg_word i m \<noteq> 0
        then rv' = 0 \<and> hdr_src_func_id m' = ucast src \<and> (\<forall>x. x \<notin> {2, 3} \<longrightarrow> m' x = (if x < 128 then m x else raw x))
        else rv' = neg_err QDMA_ERR_MBOX_ALL_ZERO_MSG \<and> (\<forall>x. m' x = (if x < 128 then m x else raw x))) \<and>
       \<not> mv_full (view s2) \<and> fst (qdma_mbox_rcv mmp hwp 0 raw s2) = neg_err QDMA_ERR_MBOX_NO_MSG_IN"
proof -
  obtain s1 where s1: "qdma_mbox_send mmv hwv is_vf m s = (0, s1)" "mv_full (view s1)" "\<forall>i < 32. mv_in (view s1) i = msg_word i m"
    using send_effect(2) [OF assms(1,4,3)] by blast
  note busy = send_effect(1) [OF assms(1,4) s1(2)] and none = rcv_effect(1) [OF assms(2)]
  show ?thesis
  proof (cases "\<exists>i < 32. msg_word i m \<noteq> 0")
    case True
    obtain m' s2 where "qdma_mbox_rcv mmp hwp 0 raw s1 = (0, m', s2)" "hdr_src_func_id m' = ucast src" "\<not> mv_full (view s2)"
        "\<forall>x. x \<notin> {2, 3} \<longrightarrow> m' x = (if x < 128 then m x else raw x)"
      using rcv_effect(2) [OF assms(2) s1(2,3) True assms(5)] by blast
    with True s1 busy none show ?thesis by simp
  next
    case False
    then have zero: "\<forall>i < 32. msg_word i m = 0" by blast
    obtain s2 where "qdma_mbox_rcv mmp hwp 0 raw s1 = (neg_err QDMA_ERR_MBOX_ALL_ZERO_MSG, \<lambda>x. if x < 128 then m x else raw x, s2)"
        "\<not> mv_full (view s2)"
      using rcv_effect(3) [OF assms(2) s1(2,3) zero] by blast
    with False s1 busy none show ?thesis by simp
  qed
qed

text \<open>A link between one virtual function and its physical function, as the registers of both sides show it.\<close>

definition link_vf :: "mbox_view mmio" where
  "link_vf = \<lparr>qdma_reg_read = (\<lambda>a s. (if a = 0x5000 \<and> mv_full s then 2 else 0, s)),
     qdma_reg_write = (\<lambda>a w s.
       if a = 0x5004 then s\<lparr>mv_in := mv_out s, mv_full := True\<rparr>
       else if 0x5c00 \<le> a \<and> a < 0x5c80 then s\<lparr>mv_out := (mv_out s)((unat (a - 0x5c00) div 4) := w)\<rparr> else s),
     qdma_udelay = (\<lambda>_ s. s), qdma_reg_access_lock = (\<lambda>s. s), qdma_reg_access_release = (\<lambda>s. s)\<rparr>"

definition link_pf :: "u32 \<Rightarrow> mbox_view mmio" where
  "link_pf src = \<lparr>qdma_reg_read = (\<lambda>a s.
       (if a = 0x22400 \<and> mv_full s then push_bit 4 src OR 1
        else if 0x22c00 \<le> a \<and> a < 0x22c80 then mv_in s (unat (a - 0x22c00) div 4) else 0, s)),
     qdma_reg_write = (\<lambda>a w s. if a = 0x22404 then s\<lparr>mv_full := False\<rparr> else s),
     qdma_udelay = (\<lambda>_ s. s), qdma_reg_access_lock = (\<lambda>s. s), qdma_reg_access_release = (\<lambda>s. s)\<rparr>"

lemma all_words: "(\<forall>i < MBOX_MSG_REG_MAX. P i) \<longleftrightarrow> (\<forall>i \<in> set [0..<32]. P i)"
  by (auto simp: MBOX_MSG_REG_MAX_def)

lemma word_indices: "[0..<32] = [0, 1, 2, 3, 4, 5, 6, 7, 8, 9, 10, 11, 12, 13, 14, 15, 16, 17, 18, 19, 20, 21, 22, 23, 24, 25, 26, 27, 28, 29, 30, 31]"
  by (simp add: upt_rec)

lemma link_vf_law: "sender_law link_vf 0x5000 (\<lambda>s. s)"
  unfolding sender_law_def all_words word_indices
  by (simp add: link_vf_def mbox_regs)

lemma link_pf_law: "receiver_law (link_pf 9) 0x22400 9 (\<lambda>s. s)"
  unfolding receiver_law_def all_words word_indices
  by (simp add: link_pf_def mbox_regs)

definition no_fmap :: "u8 \<Rightarrow> u16 \<Rightarrow> 's \<Rightarrow> int \<times> (u16 \<times> (u32 \<times> u32) list) option \<times> 's" where
  "no_fmap is_vf fid s = (neg_err QDMA_ERR_INV_PARAM, None, s)"

lemma mbox_send_receive_witness:
  "let m = store 0 (MBOX_OP_HELLO :: u8) (\<lambda>_. 0);
       (rv, s1) = qdma_mbox_send link_vf (eqdma_hw_access link_vf no_fmap) 1 m \<lparr>mv_out = (\<lambda>_. 0), mv_in = (\<lambda>_. 0), mv_full = False\<rparr>;
       (rv', m', s2) = qdma_mbox_rcv (link_pf 9) (eqdma_hw_access (link_pf 9) no_fmap) 0 (\<lambda>_. 0) s1
   in rv = 0 \<and> rv' = 0 \<and> hdr_src_func_id m' = 9 \<and> m' 0 = MBOX_OP_HELLO"
proof -
  let ?m = "store 0 (MBOX_OP_HELLO :: u8) (\<lambda>_. 0)"
  have b: "sender_law link_vf (mbox_base_vf (eqdma_hw_access link_vf no_fmap)) (\<lambda>s. s)" "receiver_law (link_pf 9) (mbox_base_pf (eqdma_hw_access (link_pf 9) no_fmap)) 9 (\<lambda>s. s)"
    using link_vf_law link_pf_law by (simp_all add: eqdma_hw_access_def EQDMA_OFFSET_MBOX_BASE_VF_def EQDMA_OFFSET_MBOX_BASE_PF_def)
  have "msg_word 0 ?m = 1" by code_simp
  then have w: "\<exists>i < 32. msg_word i ?m \<noteq> 0" by (intro exI [of _ 0]) simp
  have "?m 0 = MBOX_OP_HELLO" by code_simp
  then show ?thesis
    using mbox_send_receive [OF b, where s = "\<lparr>mv_out = (\<lambda>_. 0), mv_in = (\<lambda>_. 0), mv_full = False\<rparr>" and is_vf = 1
        and m = ?m and raw = "\<lambda>_. 0"] w
    by (simp add: Let_def split_beta)
qed
end
