(* ===== verification/Dma_Bytes.thy ===== *)
theory Dma_Bytes
  imports Prelude
begin

section \<open>What the data paths of both drivers share\<close>

text \<open>
  The errors of the kernel, the direction of a transfer, the scatter list of a request as the blocks of memory it
  names, and the bytes of those blocks by their bus address and in order.
\<close>

named_theorems errno_defs

definition EIO :: int where [errno_defs]: "EIO = 5"
definition ENXIO :: int where [errno_defs]: "ENXIO = 6"
definition EBUSY :: int where [errno_defs]: "EBUSY = 16"
definition EINVAL :: int where [errno_defs]: "EINVAL = 22"

datatype dma_data_direction = DMA_TO_DEVICE | DMA_FROM_DEVICE

text \<open>The blocks of a scatter list are given by their bus address and length.\<close>

type_synonym sg_list = "(u64 \<times> u32) list"

text \<open>The bytes a list of blocks covers, by their bus address and in order.\<close>

definition block_bytes :: "u64 \<Rightarrow> u32 \<Rightarrow> u64 list" where
  "block_bytes a len = map (\<lambda>i. a + of_nat i) [0..<unat len]"

definition sg_bytes :: "sg_list \<Rightarrow> u64 list" where
  "sg_bytes sg = concat (map (\<lambda>(a, len). block_bytes a len) sg)"

lemma block_bytes_split:
  assumes "unat m \<le> unat len"
  shows "block_bytes a len = block_bytes a m @ block_bytes (a + ucast m) (len - m)"
proof -
  have "m \<le> len" using assms by (simp add: word_le_nat_alt)
  then have l: "unat (len - m) = unat len - unat m" by (simp add: unat_sub)
  have m: "(of_nat (unat m) :: u64) = ucast m" by simp
  have "[0..<unat len] = [0..<unat m] @ [unat m..<unat len]"
    using assms upt_add_eq_append [of 0 "unat m" "unat len - unat m"] by simp
  moreover have "[unat m..<unat len] = map (\<lambda>i. i + unat m) [0..<unat len - unat m]"
    using assms map_add_upt [of "unat m" "unat len - unat m"] by simp
  ultimately have "block_bytes a len = block_bytes a m @ map (\<lambda>i. a + of_nat (i + unat m)) [0..<unat len - unat m]"
    by (simp add: block_bytes_def)
  then show ?thesis by (simp add: block_bytes_def l ac_simps)
qed

lemma length_block_bytes [simp]: "length (block_bytes a len) = unat len"
  by (simp add: block_bytes_def)

lemma int_sum_list: "(\<Sum>x\<leftarrow>xs. int (f x)) = int (\<Sum>x\<leftarrow>xs. f x)"
  by (induction xs) simp_all

lemma unat_sum_list: "(\<Sum>x\<leftarrow>xs. unat (f x)) < 2 ^ 32 \<Longrightarrow> unat (\<Sum>x\<leftarrow>xs. f x :: u32) = (\<Sum>x\<leftarrow>xs. unat (f x))"
proof (induction xs)
  case (Cons x xs)
  then show ?case by (auto intro!: unat_add_lem [THEN iffD1] trans [OF unat_add_lem [THEN iffD1]])
qed simp

lemma unat_u32: "unat (x :: u32) < 2 ^ 32"
  using unsigned_less [of x] by simp

lemma unat_ucast_64 [simp]: "unat (ucast (x :: u32) :: u64) = unat x"
proof -
  have "unat x < 2 ^ 64" by (rule less_trans [OF unat_u32]) simp
  then show ?thesis by (simp add: unsigned_ucast_eq take_bit_nat_eq_self)
qed

lemma map_from: "map (\<lambda>i. f (a + i)) [0..<l] = map f [a..<a + l]"
  by (induction l) simp_all

lemma zip_maps: "zip (map f xs) (map g xs) = map (\<lambda>x. (f x, g x)) xs"
  by (induction xs) simp_all

end
