(* ===== verification/Xdma_Desc.thy ===== *)
theory Xdma_Desc
  imports Dma_Bytes
begin

section \<open>XDMA requests, transfers and descriptors (libxdma.c)\<close>

text \<open>
  A request is a list of memory blocks that the driver cuts into software descriptors no longer than the hardware
  takes. A transfer puts as many of them as fit into the descriptor ring of an engine, linked by bus addresses, and
  tells the engine how many descriptors it may fetch at once. Pointers into the ring and into the result array are
  indices, the bus is little endian like the host, and an \<open>int\<close> is a 32-bit word.
\<close>

unbundle bit_operations_syntax

named_theorems xdma_consts

definition XDMA_MAX_ADJ_BLOCK_SIZE :: u32 where [xdma_consts]: "XDMA_MAX_ADJ_BLOCK_SIZE = 0x40"
definition XDMA_PAGE_SIZE :: u32 where [xdma_consts]: "XDMA_PAGE_SIZE = 0x1000"
definition XDMA_DESC_STOPPED :: u32 where [xdma_consts]: "XDMA_DESC_STOPPED = 1"
definition XDMA_DESC_COMPLETED :: u32 where [xdma_consts]: "XDMA_DESC_COMPLETED = 2"
definition XDMA_DESC_EOP :: u32 where [xdma_consts]: "XDMA_DESC_EOP = 0x10"
definition LS_BYTE_MASK :: u32 where [xdma_consts]: "LS_BYTE_MASK = 0xFF"
definition DESC_MAGIC :: u32 where [xdma_consts]: "DESC_MAGIC = 0xAD4B0000"
definition XDMA_DESC_BLEN_MAX :: u32 where [xdma_consts]: "XDMA_DESC_BLEN_MAX = push_bit 28 1 - 1"
definition MAGIC_ENGINE :: u32 where [xdma_consts]: "MAGIC_ENGINE = 0xEEEEEEEE"
declare errno_defs [xdma_consts]

definition PCI_DMA_H :: "u64 \<Rightarrow> u32" where
  "PCI_DMA_H a = ucast (drop_bit 16 (drop_bit 16 a))"

definition PCI_DMA_L :: "u64 \<Rightarrow> u32" where
  "PCI_DMA_L a = ucast (a AND 0xffffffff)"

record xdma_desc =
  d_control :: u32
  d_bytes :: u32
  d_src_addr_lo :: u32
  d_src_addr_hi :: u32
  d_dst_addr_lo :: u32
  d_dst_addr_hi :: u32
  d_next_lo :: u32
  d_next_hi :: u32

record xdma_result =
  r_status :: u32
  r_length :: u32

record sw_desc =
  sd_addr :: u64
  sd_len :: u32

datatype transfer_state =
    TRANSFER_STATE_NEW | TRANSFER_STATE_SUBMITTED | TRANSFER_STATE_COMPLETED | TRANSFER_STATE_FAILED
  | TRANSFER_STATE_ABORTED

record xdma_transfer =
  xf_desc_virt :: nat
  xf_res_virt :: nat
  xf_res_bus :: u64
  xf_desc_bus :: u64
  xf_desc_adjacent :: u32
  xf_desc_num :: u32
  xf_desc_index :: u32
  xf_desc_cmpl :: u32
  xf_desc_cmpl_th :: u32
  xf_dir :: dma_data_direction
  xf_state :: transfer_state
  xf_flags :: u32
  xf_cyclic :: bool
  xf_last_in_request :: bool
  xf_len :: u32
  xf_cb :: bool

record xdma_request_cb =
  rq_sgt :: sg_list
  rq_ep_addr :: u64
  rq_total_len :: u32
  rq_sw_desc_idx :: u32
  rq_sw_desc_cnt :: u32
  rq_sdesc :: "sw_desc list"

text \<open>
  An engine. Its registers are given by their offset in the configuration BAR, its queue holds the numbers of the
  transfers, and a running performance test is its count of iterations and whether it stopped.
\<close>

record xdma_engine =
  en_magic :: u32
  en_regs :: u32
  en_bypass_offset :: u32
  en_dir :: dma_data_direction
  en_addr_align :: u8
  en_len_granularity :: u8
  en_addr_bits :: u8
  en_channel :: u8
  en_streaming :: bool
  en_running :: bool
  en_non_incr_addr :: bool
  en_eop_flush :: bool
  en_shutdown :: u32
  en_desc_dequeued :: u32
  en_desc_max :: u32
  en_status :: u32
  en_interrupt_enable_mask_value :: u32
  en_transfer_list :: "nat list"
  en_cyclic_result :: "xdma_result list"
  en_cyclic_result_bus :: u64
  en_poll_mode_bus :: u64
  en_irq_bitmask :: u32
  en_desc_bus :: u64
  en_desc :: "xdma_desc list"
  en_desc_idx :: u32
  en_desc_used :: u32
  en_xdma_perf :: "(u32 \<times> bool) option"

subsection \<open>Requests\<close>

text \<open>
  The loop over one block. It advances by \<open>desc_blen_max\<close>, a module parameter, and so ends only when
  that is not zero.
\<close>

partial_function (option) split_entry :: "u32 \<Rightarrow> u64 \<Rightarrow> u32 \<Rightarrow> sw_desc list option" where
  "split_entry blen addr tlen =
     (if tlen = 0 then Some []
      else if blen < tlen
      then Option.bind (split_entry blen (addr + ucast blen) (tlen - blen))
             (\<lambda>ds. Some (\<lparr>sd_addr = addr, sd_len = blen\<rparr> # ds))
      else Some [\<lparr>sd_addr = addr, sd_len = tlen\<rparr>])"

fun split_list :: "u32 \<Rightarrow> sg_list \<Rightarrow> sw_desc list option" where
  "split_list blen [] = Some []"
| "split_list blen ((addr, len) # sg) =
     Option.bind (split_entry blen addr len) (\<lambda>ds. Option.bind (split_list blen sg) (\<lambda>es. Some (ds @ es)))"

definition extra_descs :: "u32 \<Rightarrow> sg_list \<Rightarrow> u32" where
  "extra_descs blen sg = fold (\<lambda>(_, len) extra. if blen < len then extra + (len + blen - 1) div blen else extra) sg 0"

text \<open>
  The outer option tells whether the call returns, the inner one is the pointer returned. \<open>mem\<close> tells whether
  the allocation succeeds. The check of the count comes after the descriptors are written.
\<close>

definition xdma_init_request :: "u32 \<Rightarrow> bool \<Rightarrow> sg_list \<Rightarrow> u64 \<Rightarrow> xdma_request_cb option option" where
  "xdma_init_request desc_blen_max mem sgt ep_addr =
     (let max = of_nat (length sgt) + extra_descs desc_blen_max sgt
      in if \<not> mem then Some None
         else Option.bind (split_list desc_blen_max sgt) (\<lambda>sds.
           if max <s of_nat (length sds) then Some None
           else Some (Some \<lparr>rq_sgt = sgt, rq_ep_addr = ep_addr, rq_total_len = sum_list (map snd sgt),
                            rq_sw_desc_idx = 0, rq_sw_desc_cnt = of_nat (length sds), rq_sdesc = sds\<rparr>)))"

subsection \<open>Descriptors\<close>

definition xdma_get_next_adj :: "u32 \<Rightarrow> u32 \<Rightarrow> u32" where
  "xdma_get_next_adj remaining next_lo =
     (if remaining \<le> 1 then 0
      else let next_index = drop_bit 5 (next_lo AND (XDMA_PAGE_SIZE - 1)) mod XDMA_MAX_ADJ_BLOCK_SIZE
           in min (XDMA_MAX_ADJ_BLOCK_SIZE - next_index - 1) (remaining - 1))"

definition xdma_desc_link :: "u64 option \<Rightarrow> xdma_desc \<Rightarrow> xdma_desc" where
  "xdma_desc_link second_bus d =
     (case second_bus of
        Some bus \<Rightarrow> d\<lparr>d_next_lo := PCI_DMA_L bus, d_next_hi := PCI_DMA_H bus,
          d_control := (d_control d AND 0x00FFC0ff) OR DESC_MAGIC\<rparr>
      | None \<Rightarrow> d\<lparr>d_next_lo := 0, d_next_hi := 0, d_control := (d_control d AND 0x00FFC0ff) OR DESC_MAGIC\<rparr>)"

definition xdma_desc_adjacent :: "u32 \<Rightarrow> xdma_desc \<Rightarrow> xdma_desc" where
  "xdma_desc_adjacent next_adjacent d =
     d\<lparr>d_control := (d_control d AND 0x0000f0ff) OR (0xAD4B0000 OR push_bit 8 next_adjacent)\<rparr>"

definition xdma_desc_control_set :: "u32 \<Rightarrow> xdma_desc \<Rightarrow> int \<times> xdma_desc" where
  "xdma_desc_control_set control_field d =
     (if control_field AND NOT LS_BYTE_MASK \<noteq> 0 then (- EINVAL, d)
      else (0, d\<lparr>d_control := (d_control d AND NOT LS_BYTE_MASK) OR control_field\<rparr>))"

definition xdma_desc_set :: "u64 \<Rightarrow> u64 \<Rightarrow> u32 \<Rightarrow> dma_data_direction \<Rightarrow> xdma_desc \<Rightarrow> xdma_desc" where
  "xdma_desc_set rc_bus_addr ep_addr len dir d =
     (if dir = DMA_TO_DEVICE
      then d\<lparr>d_bytes := len, d_src_addr_lo := PCI_DMA_L rc_bus_addr, d_src_addr_hi := PCI_DMA_H rc_bus_addr,
             d_dst_addr_lo := PCI_DMA_L ep_addr, d_dst_addr_hi := PCI_DMA_H ep_addr\<rparr>
      else d\<lparr>d_bytes := len, d_src_addr_lo := PCI_DMA_L ep_addr, d_src_addr_hi := PCI_DMA_H ep_addr,
             d_dst_addr_lo := PCI_DMA_L rc_bus_addr, d_dst_addr_hi := PCI_DMA_H rc_bus_addr\<rparr>)"

definition xdma_desc_done :: "nat \<Rightarrow> nat \<Rightarrow> xdma_desc list \<Rightarrow> xdma_desc list" where
  "xdma_desc_done v count ds =
     fold (\<lambda>i ds. ds[v + i := \<lparr>d_control = 0, d_bytes = 0, d_src_addr_lo = 0, d_src_addr_hi = 0, d_dst_addr_lo = 0,
                              d_dst_addr_hi = 0, d_next_lo = 0, d_next_hi = 0\<rparr>]) [0..<count] ds"

subsection \<open>Transfers\<close>

text \<open>A loop that changes the elements from \<open>v\<close> on, one after the other.\<close>

definition each_desc :: "nat \<Rightarrow> nat \<Rightarrow> (nat \<Rightarrow> 'a \<Rightarrow> 'a) \<Rightarrow> 'a list \<Rightarrow> 'a list" where
  "each_desc v n f ds = fold (\<lambda>i ds. ds[v + i := f i (ds ! (v + i))]) [0..<n] ds"

text \<open>Descriptors take 32 bytes on the bus, results too.\<close>

definition transfer_desc_init :: "nat \<Rightarrow> u64 \<Rightarrow> nat \<Rightarrow> xdma_desc list \<Rightarrow> xdma_desc list" where
  "transfer_desc_init v desc_bus count ds =
     (let linked = each_desc v (count - 1) (\<lambda>i d.
            d\<lparr>d_next_lo := PCI_DMA_L (desc_bus + 32 * (of_nat i + 1)), d_next_hi := PCI_DMA_H (desc_bus + 32 * (of_nat i + 1)),
              d_bytes := 0, d_control := DESC_MAGIC\<rparr>) ds;
          l = v + (count - 1)
      in linked[l := (linked ! l)\<lparr>d_next_lo := 0, d_next_hi := 0, d_bytes := 0, d_control := DESC_MAGIC\<rparr>])"

text \<open>One round of the loop that fills the descriptors: the ring, the results, the end point address and the length.\<close>

definition build_step :: "xdma_engine \<Rightarrow> sw_desc list \<Rightarrow> xdma_transfer \<Rightarrow> nat \<Rightarrow>
    xdma_desc list \<times> xdma_result list \<times> u64 \<times> u32 \<Rightarrow> xdma_desc list \<times> xdma_result list \<times> u64 \<times> u32" where
  "build_step en sdesc x j = (\<lambda>(ds, rs, ep_addr, len).
     (let sd = sdesc ! j; k = xf_desc_virt x + j; bus = xf_res_bus x + 32 * of_nat j;
          d = xdma_desc_set (sd_addr sd) ep_addr (sd_len sd) (xf_dir x) (ds ! k);
          st_c2h = (en_streaming en \<and> en_dir en = DMA_FROM_DEVICE)
      in (ds[k := (if st_c2h then d\<lparr>d_src_addr_lo := PCI_DMA_L bus, d_src_addr_hi := PCI_DMA_H bus\<rparr> else d)],
          if st_c2h then rs[xf_res_virt x + j := \<lparr>r_status = 0, r_length = 0\<rparr>] else rs,
          if en_non_incr_addr en then ep_addr else ep_addr + ucast (sd_len sd),
          len + sd_len sd)))"

definition transfer_build :: "xdma_engine \<Rightarrow> xdma_request_cb \<Rightarrow> xdma_transfer \<Rightarrow> nat \<Rightarrow>
    xdma_engine \<times> xdma_request_cb \<times> xdma_transfer" where
  "transfer_build en req x desc_max =
     (let (ds, rs, ep_addr, len) = fold (build_step en (drop (unat (rq_sw_desc_idx req)) (rq_sdesc req)) x) [0..<desc_max]
            (en_desc en, en_cyclic_result en, rq_ep_addr req, xf_len x)
      in (en\<lparr>en_desc := ds, en_cyclic_result := rs\<rparr>,
          req\<lparr>rq_ep_addr := ep_addr, rq_sw_desc_idx := rq_sw_desc_idx req + of_nat desc_max\<rparr>,
          x\<lparr>xf_len := len\<rparr>))"

definition transfer_max :: "xdma_engine \<Rightarrow> xdma_request_cb \<Rightarrow> u32" where
  "transfer_max en req =
     (let desc_max = min (rq_sw_desc_cnt req - rq_sw_desc_idx req) (en_desc_max en)
      in if en_desc_max en \<le> en_desc_idx en + desc_max then en_desc_max en - en_desc_idx en else desc_max)"

definition new_transfer :: "xdma_engine \<Rightarrow> xdma_transfer" where
  "new_transfer en =
     \<lparr>xf_desc_virt = unat (en_desc_idx en), xf_res_virt = unat (en_desc_idx en),
      xf_res_bus = en_cyclic_result_bus en + 32 * ucast (en_desc_idx en),
      xf_desc_bus = en_desc_bus en + 32 * ucast (en_desc_idx en),
      xf_desc_adjacent = 0, xf_desc_num = 0, xf_desc_index = en_desc_idx en, xf_desc_cmpl = 0, xf_desc_cmpl_th = 0,
      xf_dir = en_dir en, xf_state = TRANSFER_STATE_NEW, xf_flags = 0, xf_cyclic = False, xf_last_in_request = False,
      xf_len = 0, xf_cb = False\<rparr>"

definition set_adjacent :: "nat \<Rightarrow> nat \<Rightarrow> xdma_desc list \<Rightarrow> xdma_desc list" where
  "set_adjacent v n ds = each_desc v n (\<lambda>i d. xdma_desc_adjacent (xdma_get_next_adj (of_nat n - of_nat i - 1) (d_next_lo d)) d) ds"

definition transfer_init :: "xdma_engine \<Rightarrow> xdma_request_cb \<Rightarrow> xdma_engine \<times> xdma_request_cb \<times> xdma_transfer" where
  "transfer_init en req =
     (let desc_max = transfer_max en req; n = unat desc_max; x = new_transfer en; v = xf_desc_virt x;
          en1 = en\<lparr>en_desc := transfer_desc_init v (xf_desc_bus x) n (en_desc en)\<rparr>;
          (en2, req2, x2) = transfer_build en1 req x n;
          ctl = (\<lambda>c i ds. ds[v + i := snd (xdma_desc_control_set c (ds ! (v + i)))]);
          ds3 = ctl (XDMA_DESC_STOPPED OR XDMA_DESC_EOP OR XDMA_DESC_COMPLETED) (n - 1) (en_desc en2);
          ds4 = (if en_eop_flush en then fold (ctl XDMA_DESC_COMPLETED) [0..<n - 1] ds3 else ds3)
      in (en2\<lparr>en_desc := set_adjacent v n ds4, en_desc_idx := (en_desc_idx en + desc_max) mod en_desc_max en,
             en_desc_used := en_desc_used en + desc_max\<rparr>,
          req2,
          x2\<lparr>xf_desc_adjacent := desc_max, xf_desc_cmpl_th := (if en_eop_flush en then 1 else desc_max),
             xf_desc_num := desc_max\<rparr>))"

subsection \<open>The ring after a transfer is set up\<close>

lemma each_desc_Suc: "each_desc v (Suc n) f ds = (let ds' = each_desc v n f ds in ds'[v + n := f n (ds' ! (v + n))])"
  by (simp add: each_desc_def Let_def)

lemma each_desc_0 [simp]: "each_desc v 0 f ds = ds"
  by (simp add: each_desc_def)

lemma length_each_desc [simp]: "length (each_desc v n f ds) = length ds"
  by (induction n) (simp_all add: each_desc_Suc Let_def)

lemma nth_each_desc:
  "v + n \<le> length ds \<Longrightarrow> each_desc v n f ds ! k = (if v \<le> k \<and> k < v + n then f (k - v) (ds ! k) else ds ! k)"
proof (induction n)
  case (Suc n)
  then show ?case by (cases "k = v + n") (simp_all add: each_desc_Suc Let_def)
qed auto

definition addr_of :: "u32 \<Rightarrow> u32 \<Rightarrow> u64" where
  "addr_of hi lo = push_bit 32 (ucast hi) OR ucast lo"

lemma addr_of_dma [simp]: "addr_of (PCI_DMA_H a) (PCI_DMA_L a) = a"
proof (rule bit_word_eqI)
  fix n assume "n < LENGTH(64)"
  moreover have "bit (0xffffffff :: u64) n \<longleftrightarrow> n < 32" if "n < 64"
  proof -
    have m: "(0xffffffff :: u64) = mask 32" by (simp add: mask_eq_exp_minus_1)
    show ?thesis unfolding m using that by (simp add: bit_mask_iff)
  qed
  ultimately show "bit (addr_of (PCI_DMA_H a) (PCI_DMA_L a)) n = bit a n"
    by (auto simp: addr_of_def PCI_DMA_H_def PCI_DMA_L_def bit_simps)
qed

lemma unat_dma_l: "unat (PCI_DMA_L a) mod 4096 = unat a mod 4096"
proof -
  have m: "(0xffffffff :: u64) = mask 32" by (simp add: mask_eq_exp_minus_1)
  have "PCI_DMA_L a = ucast a"
    unfolding PCI_DMA_L_def m by (intro bit_word_eqI) (simp add: bit_simps bit_mask_iff)
  then have "unat (PCI_DMA_L a) = unat a mod 2 ^ 32"
    by (simp add: unsigned_ucast_eq take_bit_eq_mod)
  then show ?thesis by (simp add: mod_mod_cancel)
qed

definition d_src :: "xdma_desc \<Rightarrow> u64" where "d_src d = addr_of (d_src_addr_hi d) (d_src_addr_lo d)"
definition d_dst :: "xdma_desc \<Rightarrow> u64" where "d_dst d = addr_of (d_dst_addr_hi d) (d_dst_addr_lo d)"
definition d_next :: "xdma_desc \<Rightarrow> u64" where "d_next d = addr_of (d_next_hi d) (d_next_lo d)"
definition d_adj :: "xdma_desc \<Rightarrow> u32" where "d_adj d = drop_bit 8 (d_control d) AND 0x3f"
definition d_stop :: "xdma_desc \<Rightarrow> bool" where "d_stop d \<longleftrightarrow> d_control d AND XDMA_DESC_STOPPED \<noteq> 0"

text \<open>The number of descriptors after the one at \<open>a\<close> that the engine may fetch with it, when \<open>r\<close> are left from \<open>a\<close> on.\<close>

definition adj_at :: "nat \<Rightarrow> nat \<Rightarrow> nat" where
  "adj_at a r = min (63 - a mod 4096 div 32 mod 64) (r - 1)"

lemma next_adj_nat:
  assumes "r < 2 ^ 32"
  shows "unat (xdma_get_next_adj (of_nat r) (PCI_DMA_L a)) = adj_at (unat a) r"
proof (cases "r \<le> 1")
  case True
  then have "(of_nat r :: u32) \<le> 1" by (cases r) auto
  with True show ?thesis by (simp add: xdma_get_next_adj_def adj_at_def)
next
  case False
  define i where "i = drop_bit 5 (PCI_DMA_L a AND (XDMA_PAGE_SIZE - 1)) mod XDMA_MAX_ADJ_BLOCK_SIZE"
  have r: "unat (of_nat r :: u32) = r" using assms by (simp add: unat_of_nat)
  have "(XDMA_PAGE_SIZE - 1) = mask 12" by (simp add: xdma_consts mask_eq_exp_minus_1)
  then have "PCI_DMA_L a AND (XDMA_PAGE_SIZE - 1) = take_bit 12 (PCI_DMA_L a)" by (simp add: take_bit_eq_mask)
  then have i: "unat i = unat a mod 4096 div 32 mod 64"
    using unat_dma_l [of a]
    by (simp add: i_def xdma_consts unat_mod unat_div unat_drop_bit_eq drop_bit_eq_div unsigned_take_bit_eq take_bit_eq_mod)
  then have "unat i < 64" by simp
  then have le: "i \<le> 63" by (simp add: word_le_nat_alt)
  have m: "unat (63 - i) = 63 - unat a mod 4096 div 32 mod 64"
    using le i by (simp add: unat_sub)
  have one: "\<not> (of_nat r :: u32) \<le> 1" using False r by (simp add: word_le_nat_alt)
  then have "unat ((of_nat r :: u32) - 1) = r - 1" using r by (simp add: unat_sub word_le_nat_alt)
  moreover have "xdma_get_next_adj (of_nat r) (PCI_DMA_L a) = min (63 - i) (of_nat r - 1)"
    using one unfolding xdma_get_next_adj_def Let_def i_def [symmetric] by (simp add: xdma_consts)
  ultimately show ?thesis
    using m by (simp add: adj_at_def min_def word_le_nat_alt)
qed

lemma adjacent_control:
  assumes "unat adj < 64" and "d_control d AND 0xf000 = 0"
  shows "d_adj (xdma_desc_adjacent adj d) = adj"
    and "d_stop (xdma_desc_adjacent adj d) \<longleftrightarrow> bit (d_control d) 0"
proof -
  let ?c = "d_control d"
  have a: "bit adj n \<Longrightarrow> n < 6" for n
  proof -
    assume b: "bit adj n"
    have "unat adj = take_bit 6 (unat adj)" using assms(1) by (simp add: take_bit_eq_mod)
    then have "adj = take_bit 6 adj" by (metis unsigned_take_bit_eq word_unat_eq_iff)
    then show "n < 6" using b by (metis bit_take_bit_iff)
  qed
  have m: "(0x3f :: u32) = mask 6" "(0xff :: u32) = mask 8" by (simp_all add: mask_eq_exp_minus_1)
  have "?c AND (0xf000 OR 0xff) = (?c AND 0xf000) OR (?c AND 0xff)" by (rule bit.conj_disj_distrib)
  then have "?c AND 0xf0ff = (?c AND 0xf000) OR (?c AND 0xff)" by simp
  then have c: "?c AND 0xf0ff = take_bit 8 ?c" using assms(2) by (simp add: m(2) take_bit_eq_mask)
  have g: "bit (0xAD4B0000 :: u32) k \<Longrightarrow> 16 \<le> k" for k
  proof -
    have "bit (push_bit 16 (x :: u32)) k \<Longrightarrow> 16 \<le> k" for x by (simp add: bit_push_bit_iff)
    from this [of "0xAD4B"] show "bit (0xAD4B0000 :: u32) k \<Longrightarrow> 16 \<le> k" by simp
  qed
  have ctl: "d_control (xdma_desc_adjacent adj d) = take_bit 8 ?c OR (0xAD4B0000 OR push_bit 8 adj)"
    by (simp add: xdma_desc_adjacent_def c)
  show "d_adj (xdma_desc_adjacent adj d) = adj"
  proof (rule bit_word_eqI)
    fix n assume "n < LENGTH(32)"
    then show "bit (d_adj (xdma_desc_adjacent adj d)) n = bit adj n"
      using a [of n] g [of "8 + n"]
      unfolding d_adj_def ctl m(1) bit_and_iff bit_drop_bit_eq comp_apply bit_or_iff
        bit_mask_iff bit_push_bit_iff bit_take_bit_iff by auto
  qed
  have "x AND 1 \<noteq> 0 \<longleftrightarrow> bit x 0" for x :: u32
    by (simp add: and_one_eq bit_0 mod_2_eq_odd)
  then show "d_stop (xdma_desc_adjacent adj d) \<longleftrightarrow> bit ?c 0"
    using g [of 0]
    by (simp add: d_stop_def ctl XDMA_DESC_STOPPED_def bit_or_iff bit_push_bit_iff bit_take_bit_iff)
qed

subsection \<open>What a transfer leaves in the ring\<close>

text \<open>The data a list of software descriptors moves, as source, destination and length.\<close>

fun moves :: "bool \<Rightarrow> dma_data_direction \<Rightarrow> u64 \<Rightarrow> sw_desc list \<Rightarrow> (u64 \<times> u64 \<times> u32) list" where
  "moves fixed dir ep [] = []"
| "moves fixed dir ep (sd # sds) =
     (if dir = DMA_TO_DEVICE then (sd_addr sd, ep, sd_len sd) else (ep, sd_addr sd, sd_len sd)) #
     moves fixed dir (if fixed then ep else ep + ucast (sd_len sd)) sds"

definition ep_after :: "bool \<Rightarrow> u64 \<Rightarrow> sw_desc list \<Rightarrow> u64" where
  "ep_after fixed ep sds = (if fixed then ep else ep + sum_list (map (\<lambda>sd. ucast (sd_len sd)) sds))"

definition desc_move :: "xdma_desc \<Rightarrow> u64 \<times> u64 \<times> u32" where
  "desc_move d = (d_src d, d_dst d, d_bytes d)"

lemma length_moves [simp]: "length (moves fixed dir ep sds) = length sds"
  by (induction sds arbitrary: ep) auto

lemma nth_moves:
  "j < length sds \<Longrightarrow> moves fixed dir ep sds ! j =
     (let e = ep_after fixed ep (take j sds); sd = sds ! j
      in if dir = DMA_TO_DEVICE then (sd_addr sd, e, sd_len sd) else (e, sd_addr sd, sd_len sd))"
proof (induction sds arbitrary: ep j)
  case (Cons sd sds)
  then show ?case by (cases j) (auto simp: ep_after_def Let_def add.assoc)
qed simp

lemma moves_append:
  "moves fixed dir ep (xs @ ys) = moves fixed dir ep xs @ moves fixed dir (ep_after fixed ep xs) ys"
  by (induction xs arbitrary: ep) (auto simp: ep_after_def add.assoc)

lemma desc_move_set [simp]:
  "desc_move (xdma_desc_set rc ep len dir d) = (if dir = DMA_TO_DEVICE then (rc, ep, len) else (ep, rc, len))"
  by (simp add: desc_move_def d_src_def d_dst_def xdma_desc_set_def)

lemma xdma_desc_set_keeps [simp]:
  "d_control (xdma_desc_set rc ep len dir d) = d_control d" "d_next_lo (xdma_desc_set rc ep len dir d) = d_next_lo d"
  "d_next_hi (xdma_desc_set rc ep len dir d) = d_next_hi d"
  by (simp_all add: xdma_desc_set_def)

text \<open>
  The descriptors are filled one by one. A stream from the card has the address of its result where others have the next
  end point address, and its results are cleared.
\<close>

definition set_source :: "xdma_engine \<Rightarrow> u64 \<Rightarrow> xdma_desc \<Rightarrow> xdma_desc" where
  "set_source en bus d = (if en_streaming en \<and> en_dir en = DMA_FROM_DEVICE
     then d\<lparr>d_src_addr_lo := PCI_DMA_L bus, d_src_addr_hi := PCI_DMA_H bus\<rparr> else d)"

definition fill_desc :: "xdma_engine \<Rightarrow> u64 \<Rightarrow> u64 \<Rightarrow> sw_desc list \<Rightarrow> nat \<Rightarrow> xdma_desc \<Rightarrow> xdma_desc" where
  "fill_desc en res ep sdesc j d = set_source en (res + 32 * of_nat j)
     (xdma_desc_set (sd_addr (sdesc ! j)) (ep_after (en_non_incr_addr en) ep (take j sdesc)) (sd_len (sdesc ! j)) (en_dir en) d)"

definition clear_results :: "xdma_engine \<Rightarrow> nat \<Rightarrow> nat \<Rightarrow> xdma_result list \<Rightarrow> xdma_result list" where
  "clear_results en v n rs = (if en_streaming en \<and> en_dir en = DMA_FROM_DEVICE
     then each_desc v n (\<lambda>_ _. \<lparr>r_status = 0, r_length = 0\<rparr>) rs else rs)"

text \<open>What the descriptors of a transfer move.\<close>

definition transfer_moves :: "xdma_engine \<Rightarrow> u64 \<Rightarrow> u64 \<Rightarrow> sw_desc list \<Rightarrow> (u64 \<times> u64 \<times> u32) list" where
  "transfer_moves en res ep sds = (if en_streaming en \<and> en_dir en = DMA_FROM_DEVICE
     then map (\<lambda>j. (res + 32 * of_nat j, sd_addr (sds ! j), sd_len (sds ! j))) [0..<length sds]
     else moves (en_non_incr_addr en) (en_dir en) ep sds)"

lemma length_transfer_moves [simp]: "length (transfer_moves en res ep sds) = length sds"
  by (simp add: transfer_moves_def)

lemma set_source_keeps [simp]:
  "d_control (set_source en b d) = d_control d" "d_next_lo (set_source en b d) = d_next_lo d"
  "d_next_hi (set_source en b d) = d_next_hi d"
  by (simp_all add: set_source_def)

lemma fill_desc_keeps [simp]:
  "d_control (fill_desc en res ep sdesc j d) = d_control d" "d_next_lo (fill_desc en res ep sdesc j d) = d_next_lo d"
  "d_next_hi (fill_desc en res ep sdesc j d) = d_next_hi d"
  by (simp_all add: fill_desc_def)

lemma desc_move_fill:
  "j < length sdesc \<Longrightarrow> desc_move (fill_desc en res ep sdesc j d) = transfer_moves en res ep sdesc ! j"
  by (auto simp: fill_desc_def set_source_def transfer_moves_def nth_moves Let_def desc_move_def d_src_def d_dst_def xdma_desc_set_def)

lemma take_transfer_moves:
  "n \<le> length sds \<Longrightarrow> i < n \<Longrightarrow> transfer_moves en res ep (take n sds) ! i = transfer_moves en res ep sds ! i"
  by (auto simp: transfer_moves_def nth_moves Let_def min_def)

lemma build_fold:
  assumes "n \<le> length sdesc"
  shows "fold (build_step en sdesc x) [0..<n] (ds, rs, ep, len) =
    (each_desc (xf_desc_virt x) n (\<lambda>j d. set_source en (xf_res_bus x + 32 * of_nat j)
       (xdma_desc_set (sd_addr (sdesc ! j)) (ep_after (en_non_incr_addr en) ep (take j sdesc)) (sd_len (sdesc ! j)) (xf_dir x) d)) ds,
     clear_results en (xf_res_virt x) n rs, ep_after (en_non_incr_addr en) ep (take n sdesc), len + sum_list (map sd_len (take n sdesc)))"
  using assms
proof (induction n)
  case (Suc n)
  then show ?case
    by (auto simp: build_step_def Let_def each_desc_Suc take_Suc_conv_app_nth ep_after_def add.assoc clear_results_def set_source_def)
qed (simp add: ep_after_def clear_results_def)

lemma transfer_desc_init_nth:
  assumes "0 < n" and "v + n \<le> length ds" and "i < n"
  shows "transfer_desc_init v bus n ds ! (v + i) =
    (ds ! (v + i))\<lparr>d_next_lo := (if i + 1 = n then 0 else PCI_DMA_L (bus + 32 * (of_nat i + 1))),
      d_next_hi := (if i + 1 = n then 0 else PCI_DMA_H (bus + 32 * (of_nat i + 1))), d_bytes := 0, d_control := DESC_MAGIC\<rparr>"
  using assms by (cases "i + 1 = n") (auto simp: transfer_desc_init_def Let_def nth_each_desc nth_list_update)

lemma length_transfer_desc_init [simp]: "length (transfer_desc_init v bus n ds) = length ds"
  by (simp add: transfer_desc_init_def Let_def)

definition engine_ok :: "xdma_engine \<Rightarrow> bool" where
  "engine_ok en \<longleftrightarrow> length (en_desc en) = unat (en_desc_max en) \<and> en_desc_idx en < en_desc_max en \<and>
     32 dvd unat (en_desc_bus en) \<and> unat (en_desc_bus en) + 32 * unat (en_desc_max en) < 2 ^ 64 \<and>
     unat (en_desc_max en) < 2 ^ 31"

definition request_ok :: "xdma_request_cb \<Rightarrow> bool" where
  "request_ok rq \<longleftrightarrow> rq_sw_desc_idx rq < rq_sw_desc_cnt rq \<and> unat (rq_sw_desc_cnt rq) = length (rq_sdesc rq)"

lemma transfer_max_nat:
  assumes "engine_ok en" and "request_ok rq"
  shows "unat (transfer_max en rq) =
    min (unat (rq_sw_desc_cnt rq) - unat (rq_sw_desc_idx rq)) (unat (en_desc_max en) - unat (en_desc_idx en))"
proof -
  let ?d = "min (rq_sw_desc_cnt rq - rq_sw_desc_idx rq) (en_desc_max en)"
  have i: "unat (en_desc_idx en) < unat (en_desc_max en)" "unat (en_desc_max en) < 2 ^ 31"
    "unat (rq_sw_desc_idx rq) < unat (rq_sw_desc_cnt rq)"
    using assms by (simp_all add: engine_ok_def request_ok_def word_less_nat_alt)
  have d: "unat ?d = min (unat (rq_sw_desc_cnt rq) - unat (rq_sw_desc_idx rq)) (unat (en_desc_max en))"
    using i by (auto simp: min_def word_le_nat_alt unat_sub)
  then have "unat (en_desc_idx en + ?d) = unat (en_desc_idx en) + unat ?d"
    using i by (intro unat_add_lem [THEN iffD1]) simp
  then show ?thesis
    using i d by (auto simp: transfer_max_def Let_def word_le_nat_alt unat_sub min_def split: if_splits)
qed

text \<open>The ring a transfer of \<open>n\<close> descriptors from \<open>v\<close> on leaves, stage by stage.\<close>

definition chain_ring :: "xdma_engine \<Rightarrow> sw_desc list \<Rightarrow> nat \<Rightarrow> nat \<Rightarrow> u64 \<Rightarrow> u64 \<Rightarrow> u64 \<Rightarrow> xdma_desc list \<Rightarrow> xdma_desc list" where
  "chain_ring en sdesc v n bus res ep ds =
     (let ds1 = transfer_desc_init v bus n ds;
          ds2 = each_desc v n (fill_desc en res ep sdesc) ds1;
          ds3 = ds2[v + (n - 1) := snd (xdma_desc_control_set 0x13 (ds2 ! (v + (n - 1))))];
          ds4 = (if en_eop_flush en then each_desc v (n - 1) (\<lambda>_ d. snd (xdma_desc_control_set 2 d)) ds3 else ds3)
      in set_adjacent v n ds4)"

lemma control_set_spec:
  "snd (xdma_desc_control_set 0x13 d) = d\<lparr>d_control := (d_control d AND NOT 0xFF) OR 0x13\<rparr>"
  "snd (xdma_desc_control_set 2 d) = d\<lparr>d_control := (d_control d AND NOT 0xFF) OR 2\<rparr>"
  by (simp_all add: xdma_desc_control_set_def xdma_consts)

lemma desc_move_simps [simp]:
  "desc_move (d\<lparr>d_control := c\<rparr>) = desc_move d" "desc_move (xdma_desc_adjacent a d) = desc_move d"
  "d_next (d\<lparr>d_control := c\<rparr>) = d_next d" "d_next (xdma_desc_adjacent a d) = d_next d"
  by (simp_all add: desc_move_def d_src_def d_dst_def d_next_def xdma_desc_adjacent_def)

lemma chain_ring_outside:
  assumes "0 < n" and "v + n \<le> length ds" and "k < v \<or> v + n \<le> k"
  shows "chain_ring en sdesc v n bus res ep ds ! k = ds ! k"
  using assms by (auto simp: chain_ring_def Let_def set_adjacent_def transfer_desc_init_def nth_each_desc)

lemma chain_ring_nth:
  fixes en :: xdma_engine and ep bus res :: u64
  assumes "0 < n" and "v + n \<le> length ds" and "i < n" and "n < 2 ^ 31" and "n \<le> length sdesc"
    and "unat bus + 32 * n < 2 ^ 64"
  defines "d \<equiv> chain_ring en sdesc v n bus res ep ds ! (v + i)"
  shows "desc_move d = transfer_moves en res ep sdesc ! i"
    and "i + 1 < n \<Longrightarrow> d_next d = bus + 32 * (of_nat i + 1)"
    and "i + 1 < n \<Longrightarrow> unat (d_adj d) = adj_at (unat bus + 32 * (i + 1)) (n - i - 1)"
    and "d_stop d \<longleftrightarrow> i + 1 = n"
proof -
  define ds1 where "ds1 = transfer_desc_init v bus n ds"
  define ds2 where "ds2 = each_desc v n (fill_desc en res ep sdesc) ds1"
  define ds3 where "ds3 = ds2[v + (n - 1) := snd (xdma_desc_control_set 0x13 (ds2 ! (v + (n - 1))))]"
  define ds4 where "ds4 = (if en_eop_flush en then each_desc v (n - 1) (\<lambda>_ d. snd (xdma_desc_control_set 2 d)) ds3 else ds3)"
  have len: "length ds1 = length ds" "length ds2 = length ds" "length ds3 = length ds" "length ds4 = length ds"
    by (simp_all add: ds1_def ds2_def ds3_def ds4_def)
  have d1: "ds1 ! (v + i) = (ds ! (v + i))\<lparr>d_next_lo := (if i + 1 = n then 0 else PCI_DMA_L (bus + 32 * (of_nat i + 1))),
      d_next_hi := (if i + 1 = n then 0 else PCI_DMA_H (bus + 32 * (of_nat i + 1))), d_bytes := 0, d_control := DESC_MAGIC\<rparr>"
    unfolding ds1_def by (rule transfer_desc_init_nth) (use assms in auto)
  have d2: "ds2 ! (v + i) = fill_desc en res ep sdesc i (ds1 ! (v + i))"
    using assms(2,3) len by (simp add: ds2_def nth_each_desc)
  obtain c where d4: "ds4 ! (v + i) = (ds2 ! (v + i))\<lparr>d_control := c\<rparr>" and c: "c AND 0xf000 = 0" "bit c 0 \<longleftrightarrow> i + 1 = n"
  proof (cases "i + 1 = n")
    case True
    then have "ds3 ! (v + i) = (ds2 ! (v + i))\<lparr>d_control := (DESC_MAGIC AND NOT 0xFF) OR 0x13\<rparr>"
      using assms(2) len by (auto simp: ds3_def control_set_spec d2 d1)
    moreover have "ds4 ! (v + i) = ds3 ! (v + i)"
      using True assms(2) len by (auto simp: ds4_def nth_each_desc)
    ultimately show thesis
      using True by (intro that [of "(DESC_MAGIC AND NOT 0xFF) OR 0x13"]) (simp_all add: xdma_consts bit_0)
  next
    case False
    then have "ds3 ! (v + i) = (ds2 ! (v + i))\<lparr>d_control := DESC_MAGIC\<rparr>"
      using assms(3) by (simp add: ds3_def d2 d1 fill_desc_def set_source_def xdma_desc_set_def)
    then show thesis
      using False assms(2,3) len
      by (intro that [of "if en_eop_flush en then (DESC_MAGIC AND NOT 0xFF) OR 2 else DESC_MAGIC"])
        (auto simp: ds4_def nth_each_desc control_set_spec xdma_consts bit_0)
  qed
  define a where "a = xdma_get_next_adj (of_nat n - of_nat i - 1) (d_next_lo (ds4 ! (v + i)))"
  have d: "d = xdma_desc_adjacent a (ds4 ! (v + i))"
  proof -
    have "chain_ring en sdesc v n bus res ep ds = set_adjacent v n ds4"
      unfolding chain_ring_def Let_def ds4_def ds3_def ds2_def ds1_def by (rule refl)
    then show ?thesis
      using assms(2,3) len by (simp add: d_def set_adjacent_def nth_each_desc a_def)
  qed
  have rem: "(of_nat n :: u32) - of_nat i - 1 = of_nat (n - i - 1)"
    using assms(3) by (simp add: of_nat_diff)
  have bus: "unat (bus + 32 * (of_nat i + 1)) = unat bus + 32 * (i + 1)"
  proof -
    have "bus + 32 * (of_nat i + 1) = of_nat (unat bus + 32 * (i + 1))" by simp
    also have "unat \<dots> = unat bus + 32 * (i + 1)"
      using assms(3,6) by (subst unat_of_nat) (simp add: take_bit_nat_eq_self)
    finally show ?thesis .
  qed
  have adj: "unat a = (if i + 1 = n then 0 else adj_at (unat bus + 32 * (i + 1)) (n - i - 1))"
  proof (cases "i + 1 = n")
    case False
    then have "d_next_lo (ds4 ! (v + i)) = PCI_DMA_L (bus + 32 * (of_nat i + 1))" by (simp add: d4 d2 d1)
    moreover have "n - i - 1 < 2 ^ 32" using assms(4) by simp
    ultimately show ?thesis using False bus next_adj_nat unfolding a_def rem by simp
  qed (auto simp: a_def xdma_get_next_adj_def)
  then have "unat a < 64" by (auto simp: adj_at_def min_less_iff_disj)
  then have ad: "d_adj d = a" "d_stop d \<longleftrightarrow> bit c 0"
    using adjacent_control [of a "ds4 ! (v + i)"] c(1) by (simp_all add: d d4)
  show "desc_move d = transfer_moves en res ep sdesc ! i"
    using assms(3,5) by (simp add: d d4 d2 desc_move_fill)
  show "i + 1 < n \<Longrightarrow> d_next d = bus + 32 * (of_nat i + 1)"
    by (simp add: d d4 d2 d1) (simp add: d_next_def d1)
  show "i + 1 < n \<Longrightarrow> unat (d_adj d) = adj_at (unat bus + 32 * (i + 1)) (n - i - 1)"
    using adj by (simp add: ad)
  show "d_stop d \<longleftrightarrow> i + 1 = n"
    using ad c(2) by simp
qed

subsection \<open>Fetching descriptors\<close>

text \<open>
  How the engine reads a chain: a block of as many descriptors as it was told, then the block the last of them
  links to. It stops at a descriptor that says so. A block comes with its address.
\<close>

fun until_stop :: "xdma_desc list \<Rightarrow> xdma_desc list" where
  "until_stop [] = []"
| "until_stop (d # ds) = (if d_stop d then [d] else d # until_stop ds)"

fun fetch_chain :: "(u64 \<Rightarrow> xdma_desc option) \<Rightarrow> nat \<Rightarrow> u64 \<Rightarrow> u32 \<Rightarrow> (u64 \<times> xdma_desc list) list option" where
  "fetch_chain mem 0 a adj = None"
| "fetch_chain mem (Suc f) a adj =
     (case those (map (\<lambda>i. mem (a + 32 * of_nat i)) [0..<Suc (unat adj)]) of
        None \<Rightarrow> None
      | Some ds \<Rightarrow>
          if list_ex d_stop ds then Some [(a, until_stop ds)]
          else map_option (\<lambda>bs. (a, ds) # bs) (fetch_chain mem f (d_next (last ds)) (d_adj (last ds))))"

definition ring_at :: "xdma_engine \<Rightarrow> u64 \<Rightarrow> xdma_desc option" where
  "ring_at en a =
     (let k = (unat a - unat (en_desc_bus en)) div 32
      in if unat (en_desc_bus en) \<le> unat a \<and> 32 dvd unat a - unat (en_desc_bus en) \<and> k < length (en_desc en)
         then Some (en_desc en ! k) else None)"

definition in_one_page :: "u64 \<times> xdma_desc list \<Rightarrow> bool" where
  "in_one_page b \<longleftrightarrow> unat (fst b) div 4096 = (unat (fst b) + 32 * length (snd b) - 1) div 4096"

lemma until_stop_last: "xs \<noteq> [] \<Longrightarrow> \<forall>d \<in> set (butlast xs). \<not> d_stop d \<Longrightarrow> until_stop xs = xs"
proof (induction xs)
  case (Cons x xs)
  then show ?case by (cases xs) auto
qed simp

lemma those_map_Some: "\<forall>i \<in> set xs. f i = Some (g i) \<Longrightarrow> those (map f xs) = Some (map g xs)"
  by (induction xs) auto

lemma adj_page:
  assumes "32 dvd a" and "m \<le> adj_at a r"
  shows "a div 4096 = (a + 32 * Suc m - 1) div 4096"
proof -
  obtain k where k: "a = 32 * k" using assms(1) by blast
  define q p where "q = k div 128" and "p = k mod 128"
  have "k = 128 * q + p" and p: "p < 128" by (simp_all add: q_def p_def)
  then have a: "a = 4096 * q + 32 * p" by (simp add: k)
  have "a mod 4096 = 32 * p" using p by (simp add: a)
  then have m: "m \<le> 63 - p mod 64" using assms(2) by (simp add: adj_at_def)
  have "p mod 64 = (if p < 64 then p else p - 64)" using p by (simp add: mod_if)
  then have pm: "p + m < 128" using m p by (auto split: if_splits)
  have "(a + 32 * Suc m - 1) div 4096 = q"
    by (rule div_nat_eqI) (use pm in \<open>simp_all add: a\<close>)
  moreover have "a div 4096 = q" by (rule div_nat_eqI) (use p in \<open>simp_all add: a\<close>)
  ultimately show ?thesis by simp
qed

lemma ring_at_nth:
  assumes "unat bus = unat (en_desc_bus en) + 32 * v" and "v + j < length (en_desc en)" and "unat bus + 32 * j < 2 ^ 64"
  shows "ring_at en (bus + 32 * of_nat j) = Some (en_desc en ! (v + j))"
proof -
  have "bus + 32 * of_nat j = of_nat (unat bus + 32 * j)" by simp
  then have "unat (bus + 32 * of_nat j) = unat bus + 32 * j"
    using assms(3) by (simp add: unat_of_nat take_bit_nat_eq_self del: of_nat_add)
  then show ?thesis using assms(1,2) by (simp add: ring_at_def)
qed

lemma fetch_ring:
  assumes bus: "unat bus = unat (en_desc_bus en) + 32 * v" "32 dvd unat bus" "unat bus + 32 * n < 2 ^ 64" "v + n \<le> length (en_desc en)"
    and nxt: "\<And>i. i + 1 < n \<Longrightarrow> d_next (en_desc en ! (v + i)) = bus + 32 * (of_nat i + 1)"
    and adj: "\<And>i. i + 1 < n \<Longrightarrow> unat (d_adj (en_desc en ! (v + i))) = adj_at (unat bus + 32 * (i + 1)) (n - i - 1)"
    and stop: "\<And>i. i < n \<Longrightarrow> d_stop (en_desc en ! (v + i)) \<longleftrightarrow> i + 1 = n"
    and p: "p < n" "n - p \<le> f" "unat w = adj_at (unat bus + 32 * p) (n - p)"
  shows "\<exists>bs. fetch_chain (ring_at en) f (bus + 32 * of_nat p) w = Some bs \<and>
    concat (map snd bs) = take (n - p) (drop (v + p) (en_desc en)) \<and> (\<forall>b \<in> set bs. in_one_page b)"
  using p
proof (induction f arbitrary: p w)
  case (Suc f)
  define m where "m = unat w"
  have m: "m \<le> n - p - 1" using Suc.prems(3) by (simp add: m_def adj_at_def)
  let ?a = "bus + 32 * of_nat p"
  let ?b = "map (\<lambda>i. en_desc en ! (v + p + i)) [0..<Suc m]"
  have a: "unat ?a = unat bus + 32 * p"
  proof -
    have "?a = of_nat (unat bus + 32 * p)" by simp
    then show ?thesis
      using bus(3) Suc.prems(1) by (simp add: unat_of_nat take_bit_nat_eq_self del: of_nat_add)
  qed
  have "those (map (\<lambda>i. ring_at en (?a + 32 * of_nat i)) [0..<Suc m]) = Some ?b"
  proof (rule those_map_Some, intro ballI)
    fix i assume "i \<in> set [0..<Suc m]"
    then have "i \<le> m" by auto
    then show "ring_at en (?a + 32 * of_nat i) = Some (en_desc en ! (v + p + i))"
      using ring_at_nth [OF bus(1), of "p + i"] bus(3,4) m Suc.prems(1) by (simp add: algebra_simps)
  qed
  then have fetch: "fetch_chain (ring_at en) (Suc f) ?a w = (if list_ex d_stop ?b then Some [(?a, until_stop ?b)]
      else map_option (\<lambda>bs. (?a, ?b) # bs) (fetch_chain (ring_at en) f (d_next (last ?b)) (d_adj (last ?b))))"
    unfolding fetch_chain.simps m_def [symmetric] by simp
  have page: "in_one_page (?a, ?b)"
    unfolding in_one_page_def fst_conv snd_conv length_map length_upt a
    using adj_page [of "unat bus + 32 * p" m "n - p"] bus(2) Suc.prems(3) by (simp add: m_def)
  have b: "?b = take (Suc m) (drop (v + p) (en_desc en))"
    using bus(4) Suc.prems(1) m by (intro nth_equalityI) (auto simp del: upt_Suc)
  have stop': "d_stop (en_desc en ! (v + p + i)) \<longleftrightarrow> p + i + 1 = n" if "i \<le> m" for i
    using stop [of "p + i"] that m Suc.prems(1) by (simp add: add.assoc)
  show ?case
  proof (cases "p + m + 1 = n")
    case True
    have "list_ex d_stop ?b" using stop' [of m] True by simp
    moreover have "until_stop ?b = ?b"
      using stop' True by (intro until_stop_last) (auto simp: butlast_append)
    moreover have "n - p = Suc m" using True by simp
    ultimately show ?thesis using fetch page b by simp
  next
    case False
    then have lt: "p + m + 1 < n" using m Suc.prems(1) by simp
    have f: "n - (p + m + 1) \<le> f" using Suc.prems(2) by arith
    have "\<not> list_ex d_stop ?b" using stop' False lt by (auto simp: list_ex_iff)
    moreover have "d_next (last ?b) = bus + 32 * of_nat (p + m + 1)" "unat (d_adj (last ?b)) = adj_at (unat bus + 32 * (p + m + 1)) (n - (p + m + 1))"
      using nxt [of "p + m"] adj [of "p + m"] lt by (simp_all add: add.assoc algebra_simps)
    moreover obtain bs where bs: "fetch_chain (ring_at en) f (bus + 32 * of_nat (p + m + 1)) (d_adj (last ?b)) = Some bs"
        "concat (map snd bs) = take (n - (p + m + 1)) (drop (v + (p + m + 1)) (en_desc en))" "\<forall>b \<in> set bs. in_one_page b"
      using Suc.IH [OF lt f calculation(3)] by blast
    moreover have "take (n - p) (drop (v + p) (en_desc en)) = ?b @ take (n - (p + m + 1)) (drop (v + (p + m + 1)) (en_desc en))"
    proof -
      have "n - p = Suc m + (n - (p + m + 1))" using lt by simp
      then show ?thesis unfolding b by (simp only: take_add drop_drop) (simp add: add.commute add.left_commute)
    qed
    ultimately show ?thesis using fetch page by auto
  qed
qed simp

lemma transfer_init_spec:
  assumes "engine_ok en" and "request_ok rq" and "transfer_init en rq = (en', rq', x)"
  defines "n \<equiv> unat (transfer_max en rq)" and "v \<equiv> unat (en_desc_idx en)"
    and "sds \<equiv> drop (unat (rq_sw_desc_idx rq)) (rq_sdesc rq)"
  shows "xf_desc_num x = of_nat n" and "xf_desc_adjacent x = of_nat n" and "xf_desc_virt x = v"
    and "unat (xf_desc_bus x) = unat (en_desc_bus en) + 32 * v"
    and "xf_len x = sum_list (map sd_len (take n sds))"
    and "rq' = rq\<lparr>rq_ep_addr := ep_after (en_non_incr_addr en) (rq_ep_addr rq) (take n sds),
      rq_sw_desc_idx := rq_sw_desc_idx rq + of_nat n\<rparr>"
    and "en' = en\<lparr>en_desc := chain_ring en sds v n (xf_desc_bus x) (xf_res_bus x) (rq_ep_addr rq) (en_desc en),
      en_desc_idx := (en_desc_idx en + of_nat n) mod en_desc_max en, en_desc_used := en_desc_used en + of_nat n,
      en_cyclic_result := clear_results en v n (en_cyclic_result en)\<rparr>"
    and "0 < n" and "v + n \<le> length (en_desc en)" and "n \<le> length sds" and "n < 2 ^ 31"
proof -
  have n: "n = min (unat (rq_sw_desc_cnt rq) - unat (rq_sw_desc_idx rq)) (unat (en_desc_max en) - unat (en_desc_idx en))"
    unfolding n_def by (rule transfer_max_nat [OF assms(1,2)])
  then show "0 < n" "v + n \<le> length (en_desc en)" "n < 2 ^ 31"
    using assms(1,2) by (auto simp: engine_ok_def request_ok_def word_less_nat_alt v_def)
  show len: "n \<le> length sds" using n assms(2) by (simp add: request_ok_def sds_def)
  have t: "transfer_max en rq = of_nat n" by (simp add: n_def)
  have bus: "unat (en_desc_bus en + 32 * ucast (en_desc_idx en)) = unat (en_desc_bus en) + 32 * v"
  proof -
    have "en_desc_bus en + 32 * ucast (en_desc_idx en) = of_nat (unat (en_desc_bus en) + 32 * v)"
      by (simp add: v_def unsigned_ucast_eq)
    moreover have "unat (en_desc_bus en) + 32 * v < 2 ^ 64"
      using assms(1) by (simp add: engine_ok_def v_def word_less_nat_alt)
    ultimately show ?thesis by (simp add: unat_of_nat take_bit_nat_eq_self del: of_nat_add)
  qed
  have c: "XDMA_DESC_STOPPED OR XDMA_DESC_EOP OR XDMA_DESC_COMPLETED = 0x13" "XDMA_DESC_COMPLETED = 2"
    by (simp_all add: xdma_consts)
  let ?x = "new_transfer en"
  let ?en1 = "en\<lparr>en_desc := transfer_desc_init (xf_desc_virt ?x) (xf_desc_bus ?x) n (en_desc en)\<rparr>"
  have x: "xf_desc_virt ?x = v" "xf_res_virt ?x = v" "xf_dir ?x = en_dir en" "xf_len ?x = 0" by (simp_all add: new_transfer_def v_def)
  let ?set = "fill_desc en (xf_res_bus ?x) (rq_ep_addr rq) sds"
  let ?rq = "rq\<lparr>rq_ep_addr := ep_after (en_non_incr_addr en) (rq_ep_addr rq) (take n sds),
      rq_sw_desc_idx := rq_sw_desc_idx rq + of_nat n\<rparr>"
  let ?x2 = "?x\<lparr>xf_len := sum_list (map sd_len (take n sds))\<rparr>"
  have build: "transfer_build ?en1 rq ?x n = (?en1\<lparr>en_desc := each_desc v n ?set (en_desc ?en1), en_cyclic_result := clear_results en v n (en_cyclic_result en)\<rparr>, ?rq, ?x2)"
    using len by (simp add: transfer_build_def build_fold x fill_desc_def [abs_def] flip: sds_def) (simp add: set_source_def clear_results_def)
  have init: "transfer_init en rq = (en\<lparr>en_desc := chain_ring en sds v n (xf_desc_bus ?x) (xf_res_bus ?x) (rq_ep_addr rq) (en_desc en),
      en_desc_idx := (en_desc_idx en + of_nat n) mod en_desc_max en, en_desc_used := en_desc_used en + of_nat n,
      en_cyclic_result := clear_results en v n (en_cyclic_result en)\<rparr>, ?rq,
      ?x2\<lparr>xf_desc_adjacent := of_nat n, xf_desc_cmpl_th := (if en_eop_flush en then 1 else of_nat n), xf_desc_num := of_nat n\<rparr>)"
    unfolding transfer_init_def Let_def n_def [symmetric] unfolding build prod.case chain_ring_def Let_def unfolding c(1) unfolding c(2) x(1) t
    by (simp add: each_desc_def)
  show "xf_desc_num x = of_nat n" "xf_desc_adjacent x = of_nat n" "xf_desc_virt x = v"
    "unat (xf_desc_bus x) = unat (en_desc_bus en) + 32 * v" "xf_len x = sum_list (map sd_len (take n sds))"
    "rq' = ?rq"
    "en' = en\<lparr>en_desc := chain_ring en sds v n (xf_desc_bus x) (xf_res_bus x) (rq_ep_addr rq) (en_desc en),
      en_desc_idx := (en_desc_idx en + of_nat n) mod en_desc_max en, en_desc_used := en_desc_used en + of_nat n,
      en_cyclic_result := clear_results en v n (en_cyclic_result en)\<rparr>"
    using assms(3) bus unfolding init by (auto simp: new_transfer_def v_def)
qed

lemma transfer_executes:
  assumes "engine_ok en" and "request_ok rq" and "transfer_init en rq = (en', rq', x)"
  defines "sds \<equiv> take (unat (xf_desc_num x)) (drop (unat (rq_sw_desc_idx rq)) (rq_sdesc rq))"
  shows "\<exists>blocks. fetch_chain (ring_at en') (unat (xf_desc_num x)) (xf_desc_bus x)
        (xdma_get_next_adj (xf_desc_adjacent x) (PCI_DMA_L (xf_desc_bus x))) = Some blocks \<and>
      (\<forall>b \<in> set blocks. in_one_page b) \<and>
      map desc_move (concat (map snd blocks)) = transfer_moves en (xf_res_bus x) (rq_ep_addr rq) sds"
    and "sds \<noteq> []" and "length sds = unat (xf_desc_num x)" and "xf_len x = sum_list (map sd_len sds)"
    and "rq_ep_addr rq' = ep_after (en_non_incr_addr en) (rq_ep_addr rq) sds"
    and "unat (rq_sw_desc_idx rq') = unat (rq_sw_desc_idx rq) + length sds" and "engine_ok en'"
    and "\<forall>k. k < xf_desc_virt x \<or> xf_desc_virt x + length sds \<le> k \<longrightarrow> en_desc en' ! k = en_desc en ! k"
proof -
  note s = transfer_init_spec [OF assms(1-3)]
  let ?n = "unat (transfer_max en rq)" and ?v = "unat (en_desc_idx en)"
  let ?all = "drop (unat (rq_sw_desc_idx rq)) (rq_sdesc rq)"
  have n: "unat (xf_desc_num x) = ?n" using s(1) by simp
  have sds: "sds = take ?n ?all" by (simp add: sds_def n)
  have e: "unat (en_desc_bus en) + 32 * length (en_desc en) < 2 ^ 64" "length (en_desc en) = unat (en_desc_max en)"
    "32 dvd unat (en_desc_bus en)" "en_desc_idx en < en_desc_max en" "unat (en_desc_max en) < 2 ^ 31"
    using assms(1) by (simp_all add: engine_ok_def)
  let ?ring = "chain_ring en ?all ?v ?n (xf_desc_bus x) (xf_res_bus x) (rq_ep_addr rq) (en_desc en)"
  have len: "length ?ring = length (en_desc en)" by (simp add: chain_ring_def Let_def set_adjacent_def)
  have end': "unat (xf_desc_bus x) + 32 * ?n < 2 ^ 64" using s(4,9) e(1) by simp
  note chain = chain_ring_nth [OF s(8,9) _ s(11,10) end', where en = en and ep = "rq_ep_addr rq" and res = "xf_res_bus x"]
  have dvd: "32 dvd unat (xf_desc_bus x)" using s(4) e(3) by simp
  obtain bs where bs: "fetch_chain (ring_at en') ?n (xf_desc_bus x) (xdma_get_next_adj (xf_desc_adjacent x) (PCI_DMA_L (xf_desc_bus x))) = Some bs"
      "concat (map snd bs) = take ?n (drop ?v ?ring)" "\<forall>b \<in> set bs. in_one_page b"
  proof -
    have "unat (xdma_get_next_adj (xf_desc_adjacent x) (PCI_DMA_L (xf_desc_bus x))) = adj_at (unat (xf_desc_bus x) + 32 * 0) (?n - 0)"
      using next_adj_nat [of ?n "xf_desc_bus x"] s(2,11) by simp
    moreover have ring: "en_desc en' = ?ring" "unat (xf_desc_bus x) = unat (en_desc_bus en') + 32 * ?v" "?v + ?n \<le> length (en_desc en')"
      using s(4,7,9) len by simp_all
    have "d_next (en_desc en' ! (?v + i)) = xf_desc_bus x + 32 * (of_nat i + 1)" if "i + 1 < ?n" for i
      using chain(2) [of i] that by (simp add: ring(1))
    moreover have "unat (d_adj (en_desc en' ! (?v + i))) = adj_at (unat (xf_desc_bus x) + 32 * (i + 1)) (?n - i - 1)" if "i + 1 < ?n" for i
      using chain(3) [of i] that by (simp add: ring(1))
    moreover have "d_stop (en_desc en' ! (?v + i)) \<longleftrightarrow> i + 1 = ?n" if "i < ?n" for i
      using chain(4) [of i] that by (simp add: ring(1))
    ultimately have "\<exists>bs. fetch_chain (ring_at en') ?n (xf_desc_bus x + 32 * of_nat 0) (xdma_get_next_adj (xf_desc_adjacent x) (PCI_DMA_L (xf_desc_bus x))) = Some bs \<and>
        concat (map snd bs) = take (?n - 0) (drop (?v + 0) (en_desc en')) \<and> (\<forall>b \<in> set bs. in_one_page b)"
      by (intro fetch_ring [OF _ dvd end']) (use s(8) ring in simp_all)
    then show thesis using that s(7) by auto
  qed
  have mv: "map desc_move (take ?n (drop ?v ?ring)) = transfer_moves en (xf_res_bus x) (rq_ep_addr rq) sds"
  proof (rule nth_equalityI)
    fix i assume "i < length (map desc_move (take ?n (drop ?v ?ring)))"
    then have i: "i < ?n" by simp
    then have "desc_move (?ring ! (?v + i)) = transfer_moves en (xf_res_bus x) (rq_ep_addr rq) ?all ! i" by (rule chain(1))
    also have "\<dots> = transfer_moves en (xf_res_bus x) (rq_ep_addr rq) sds ! i"
      using i s(10) by (simp add: sds take_transfer_moves)
    finally show "map desc_move (take ?n (drop ?v ?ring)) ! i = transfer_moves en (xf_res_bus x) (rq_ep_addr rq) sds ! i"
      using i s(9) len by simp
  qed (use s(9,10) len in \<open>simp add: sds\<close>)
  have ok: "engine_ok en'"
    using assms(1) s(7) len by (simp add: engine_ok_def word_less_nat_alt unat_mod)
  have idx: "unat (rq_sw_desc_idx rq') = unat (rq_sw_desc_idx rq) + length sds"
  proof -
    have "unat (rq_sw_desc_idx rq) + ?n \<le> unat (rq_sw_desc_cnt rq)"
      using s(8,10) assms(2) by (simp add: request_ok_def)
    also have "\<dots> < 2 ^ 32" using unsigned_less [of "rq_sw_desc_cnt rq"] by simp
    finally have "unat (rq_sw_desc_idx rq + transfer_max en rq) = unat (rq_sw_desc_idx rq) + ?n"
      by (intro unat_add_lem [THEN iffD1]) simp
    then show ?thesis using s(6,10) by (simp add: sds)
  qed
  have out: "\<forall>k. k < ?v \<or> ?v + ?n \<le> k \<longrightarrow> ?ring ! k = en_desc en ! k"
    using chain_ring_outside [OF s(8,9)] by simp
  show "\<exists>blocks. fetch_chain (ring_at en') (unat (xf_desc_num x)) (xf_desc_bus x)
        (xdma_get_next_adj (xf_desc_adjacent x) (PCI_DMA_L (xf_desc_bus x))) = Some blocks \<and>
      (\<forall>b \<in> set blocks. in_one_page b) \<and>
      map desc_move (concat (map snd blocks)) = transfer_moves en (xf_res_bus x) (rq_ep_addr rq) sds"
    using bs mv by (auto simp: n)
  show "sds \<noteq> []" "length sds = unat (xf_desc_num x)" "xf_len x = sum_list (map sd_len sds)"
    "rq_ep_addr rq' = ep_after (en_non_incr_addr en) (rq_ep_addr rq) sds"
    using s(5,6,8,10) by (auto simp: n sds)
  show "unat (rq_sw_desc_idx rq') = unat (rq_sw_desc_idx rq) + length sds" "engine_ok en'" by (fact idx, fact ok)
  show "\<forall>k. k < xf_desc_virt x \<or> xf_desc_virt x + length sds \<le> k \<longrightarrow> en_desc en' ! k = en_desc en ! k"
    using out s(3,7,10) by (simp add: sds)
qed

text \<open>
  C15: The hardware executes a transfer as the request says, for engines in either direction, streaming or not. The
  ring of the engine lies at an aligned bus address below \<open>2 ^ 64\<close>, with fewer than \<open>2 ^ 31\<close> descriptors
  and the next one to use inside it, and the request has software descriptors left.
  Started at the address and with the count the driver writes to the engine, fetching the chain in the ring ends,
  reads only whole blocks that lie in one 4096-byte page and belong to the transfer, and finds every descriptor of the
  transfer once and in order: each moves the bytes of its software descriptor between its memory address and the next
  end point address; on a stream from the card it names the memory address and, where others have the end point
  address, its entry of the result buffer. The request goes on after them, and the ring outside the transfer is
  untouched.
\<close>
theorem xdma_transfer_executes:
  assumes "engine_ok en" and "request_ok rq" and "transfer_init en rq = (en', rq', x)"
  defines "sds \<equiv> take (unat (xf_desc_num x)) (drop (unat (rq_sw_desc_idx rq)) (rq_sdesc rq))"
  shows "\<exists>blocks. fetch_chain (ring_at en') (unat (xf_desc_num x)) (xf_desc_bus x)
        (xdma_get_next_adj (xf_desc_adjacent x) (PCI_DMA_L (xf_desc_bus x))) = Some blocks \<and>
      (\<forall>b \<in> set blocks. in_one_page b) \<and>
      map desc_move (concat (map snd blocks)) = transfer_moves en (xf_res_bus x) (rq_ep_addr rq) sds \<and>
      sds \<noteq> [] \<and> length sds = unat (xf_desc_num x) \<and> xf_len x = sum_list (map sd_len sds) \<and>
      rq_ep_addr rq' = ep_after (en_non_incr_addr en) (rq_ep_addr rq) sds \<and>
      unat (rq_sw_desc_idx rq') = unat (rq_sw_desc_idx rq) + length sds \<and> engine_ok en' \<and>
      (\<forall>k. k < xf_desc_virt x \<or> xf_desc_virt x + length sds \<le> k \<longrightarrow> en_desc en' ! k = en_desc en ! k)"
  using transfer_executes [OF assms(1-3)] unfolding sds_def by blast

text \<open>An engine at rest with a ring of four descriptors, and a request for four.\<close>

definition demo_engine :: xdma_engine where
  "demo_engine = \<lparr>en_magic = MAGIC_ENGINE, en_regs = 0, en_bypass_offset = 0, en_dir = DMA_TO_DEVICE, en_addr_align = 1,
     en_len_granularity = 1, en_addr_bits = 64, en_channel = 0, en_streaming = False, en_running = False,
     en_non_incr_addr = False, en_eop_flush = False, en_shutdown = 0, en_desc_dequeued = 0, en_desc_max = 4, en_status = 0,
     en_interrupt_enable_mask_value = 0, en_transfer_list = [], en_cyclic_result = replicate 4 \<lparr>r_status = 0, r_length = 0\<rparr>,
     en_cyclic_result_bus = 0, en_poll_mode_bus = 0, en_irq_bitmask = 1, en_desc_bus = 0x1000,
     en_desc = replicate 4 \<lparr>d_control = 0, d_bytes = 0, d_src_addr_lo = 0, d_src_addr_hi = 0, d_dst_addr_lo = 0,
       d_dst_addr_hi = 0, d_next_lo = 0, d_next_hi = 0\<rparr>, en_desc_idx = 1, en_desc_used = 0, en_xdma_perf = None\<rparr>"

definition demo_request :: xdma_request_cb where
  "demo_request = \<lparr>rq_sgt = [(0x9000, 40), (0xA000, 16)], rq_ep_addr = 0x80, rq_total_len = 56, rq_sw_desc_idx = 0, rq_sw_desc_cnt = 4,
     rq_sdesc = [\<lparr>sd_addr = 0x9000, sd_len = 16\<rparr>, \<lparr>sd_addr = 0x9010, sd_len = 16\<rparr>, \<lparr>sd_addr = 0x9020, sd_len = 8\<rparr>,
       \<lparr>sd_addr = 0xA000, sd_len = 16\<rparr>]\<rparr>"

lemma demo_engine_ok: "engine_ok demo_engine"
  by (simp add: engine_ok_def demo_engine_def dvd_def)

theorem xdma_transfer_executes_witness:
  "\<exists>en' rq' x blocks. transfer_init demo_engine demo_request = (en', rq', x) \<and>
     fetch_chain (ring_at en') 3 (xf_desc_bus x) (xdma_get_next_adj (xf_desc_adjacent x) (PCI_DMA_L (xf_desc_bus x))) = Some blocks \<and>
     map desc_move (concat (map snd blocks)) = [(0x9000, 0x80, 16), (0x9010, 0x90, 16), (0x9020, 0xA0, 8)]"
proof -
  obtain en' rq' x where t: "transfer_init demo_engine demo_request = (en', rq', x)" by (metis prod_cases3)
  have a: "request_ok demo_request" by (simp add: request_ok_def demo_request_def)
  have "transfer_max demo_engine demo_request = 3"
    by (simp add: transfer_max_def demo_engine_def demo_request_def)
  then have n: "unat (xf_desc_num x) = 3" using transfer_init_spec(1) [OF demo_engine_ok a t] by simp
  show ?thesis
    using xdma_transfer_executes [OF demo_engine_ok a t] t unfolding n
    by (auto simp: demo_request_def demo_engine_def transfer_moves_def numeral_3_eq_3)
qed

subsection \<open>Cutting a request\<close>

text \<open>The bytes that software descriptors cover, by their bus address and in order.\<close>

definition sw_bytes :: "sw_desc list \<Rightarrow> u64 list" where
  "sw_bytes sds = concat (map (\<lambda>sd. block_bytes (sd_addr sd) (sd_len sd)) sds)"

lemma split_entry_spec:
  assumes "blen \<noteq> 0"
  shows "\<exists>ds. split_entry blen addr tlen = Some ds \<and> sw_bytes ds = block_bytes addr tlen \<and>
    (\<forall>sd \<in> set ds. 0 < sd_len sd \<and> sd_len sd \<le> blen) \<and> length ds = (unat tlen + unat blen - 1) div unat blen \<and>
    sum_list (map sd_len ds) = tlen"
proof (induction "unat tlen" arbitrary: addr tlen rule: less_induct)
  case less
  have b: "0 < unat blen" using assms by (simp add: unat_gt_0)
  show ?case
  proof (cases "blen < tlen")
    case True
    then have lt: "unat blen < unat tlen" by (simp add: word_less_nat_alt)
    then have sub: "unat (tlen - blen) = unat tlen - unat blen" by (simp add: unat_sub word_le_nat_alt)
    obtain ds where ds: "split_entry blen (addr + ucast blen) (tlen - blen) = Some ds" "sw_bytes ds = block_bytes (addr + ucast blen) (tlen - blen)"
      "\<forall>sd \<in> set ds. 0 < sd_len sd \<and> sd_len sd \<le> blen" "length ds = (unat (tlen - blen) + unat blen - 1) div unat blen"
      "sum_list (map sd_len ds) = tlen - blen"
      using less [of "tlen - blen" "addr + ucast blen"] sub lt b by auto
    have "split_entry blen addr tlen = Some (\<lparr>sd_addr = addr, sd_len = blen\<rparr> # ds)"
      using True ds(1) by (subst split_entry.simps) auto
    moreover have "sw_bytes (\<lparr>sd_addr = addr, sd_len = blen\<rparr> # ds) = block_bytes addr tlen"
      using block_bytes_split [of blen tlen addr] lt ds(2) by (simp add: sw_bytes_def)
    moreover have "Suc (length ds) = (unat tlen + unat blen - 1) div unat blen"
    proof -
      have "unat tlen + unat blen - 1 = (unat (tlen - blen) + unat blen - 1) + unat blen" using lt by (simp add: sub)
      then show ?thesis unfolding ds(4) using b by (simp only: div_add_self2)
    qed
    ultimately show ?thesis using ds(3,5) assms by (auto simp: word_gt_0)
  next
    case False
    show ?thesis
    proof (cases "tlen = 0")
      case True
      then show ?thesis using b by (subst split_entry.simps) (auto simp: sw_bytes_def block_bytes_def)
    next
      case nz: False
      then have "unat tlen \<le> unat blen" "0 < unat tlen" using False by (simp_all add: word_less_nat_alt unat_gt_0)
      then have "(unat tlen + unat blen - 1) div unat blen = 1" by (intro div_nat_eqI) auto
      then show ?thesis
        using False nz by (subst split_entry.simps) (auto simp: sw_bytes_def word_gt_0 not_less)
    qed
  qed
qed

definition pieces :: "u32 \<Rightarrow> u32 \<Rightarrow> nat" where
  "pieces blen len = (unat len + unat blen - 1) div unat blen"

lemma split_list_spec:
  assumes "blen \<noteq> 0"
  shows "\<exists>ds. split_list blen sg = Some ds \<and> sw_bytes ds = sg_bytes sg \<and>
    (\<forall>sd \<in> set ds. 0 < sd_len sd \<and> sd_len sd \<le> blen) \<and> length ds = (\<Sum>(a, len)\<leftarrow>sg. pieces blen len) \<and>
    sum_list (map sd_len ds) = sum_list (map snd sg)"
proof (induction sg)
  case (Cons e sg)
  obtain a len where e: "e = (a, len)" by fastforce
  show ?case
    using Cons split_entry_spec [OF assms, of a len]
    by (auto simp: e sw_bytes_def sg_bytes_def pieces_def)
qed (simp add: sw_bytes_def sg_bytes_def)

lemma extra_descs_acc:
  "fold (\<lambda>(_, len) extra. if blen < len then extra + (len + blen - 1) div blen else extra) sg e =
    e + sum_list (map (\<lambda>(_, len). if blen < len then (len + blen - 1) div blen else 0) sg)"
  by (induction sg arbitrary: e) (auto simp: add.assoc split: prod.splits)

lemma extra_descs_enough:
  assumes "blen \<noteq> 0" and "\<forall>(a, len) \<in> set sg. unat len + unat blen \<le> 2 ^ 32"
    and "length sg + (\<Sum>(a, len)\<leftarrow>sg. pieces blen len) < 2 ^ 31"
  shows "(\<Sum>(a, len)\<leftarrow>sg. pieces blen len) \<le> unat ((of_nat (length sg) :: u32) + extra_descs blen sg)"
    and "unat ((of_nat (length sg) :: u32) + extra_descs blen sg) < 2 ^ 31"
proof -
  have b: "0 < unat blen" using assms(1) by (simp add: unat_gt_0)
  let ?e = "\<lambda>sg. sum_list (map (\<lambda>(_, len). if blen < len then (len + blen - 1) div blen else (0 :: u32)) sg)"
  have "(\<Sum>(a, len)\<leftarrow>sg. pieces blen len) \<le> length sg + unat (?e sg) \<and> unat (?e sg) \<le> (\<Sum>(a, len)\<leftarrow>sg. pieces blen len)"
    using assms(2,3)
  proof (induction sg)
    case (Cons e sg)
    obtain a len where e: "e = (a, len)" by fastforce
    have IH: "(\<Sum>(a, len)\<leftarrow>sg. pieces blen len) \<le> length sg + unat (?e sg)" "unat (?e sg) \<le> (\<Sum>(a, len)\<leftarrow>sg. pieces blen len)"
      using Cons by (auto simp: e)
    have small: "unat (?e sg) + pieces blen len < 2 ^ 31" using IH(2) Cons.prems(2) by (simp add: e)
    show ?case
    proof (cases "blen < len")
      case True
      have "unat (len + blen - 1) = unat len + unat blen - 1"
      proof -
        have s: "unat len + unat blen - 1 < 2 ^ 32" using Cons.prems(1) b by (auto simp: e)
        have "len + blen - 1 = of_nat (unat len + unat blen - 1)" using b by (simp add: of_nat_diff)
        then show ?thesis using s by (simp add: unat_of_nat take_bit_nat_eq_self del: of_nat_add of_nat_diff)
      qed
      then have p: "unat ((len + blen - 1) div blen) = pieces blen len" by (simp add: unat_div pieces_def)
      then have "unat ((len + blen - 1) div blen + ?e sg) = pieces blen len + unat (?e sg)"
        using small by (intro trans [OF unat_add_lem [THEN iffD1]]) simp_all
      then show ?thesis using IH True by (simp add: e)
    next
      case False
      then have "pieces blen len \<le> 1"
      proof -
        have "unat len + unat blen - 1 < 2 * unat blen" using False b by (simp add: word_less_nat_alt)
        then have "pieces blen len < 2" unfolding pieces_def using b by (simp add: div_less_iff_less_mult)
        then show ?thesis by simp
      qed
      then show ?thesis using IH False by (simp add: e)
    qed
  qed simp
  moreover have "extra_descs blen sg = ?e sg" by (simp add: extra_descs_def extra_descs_acc)
  moreover have "unat ((of_nat (length sg) :: u32) + ?e sg) = length sg + unat (?e sg)"
  proof -
    have "unat (of_nat (length sg) :: u32) = length sg" using assms(3) by (simp add: unat_of_nat take_bit_nat_eq_self)
    then show ?thesis using calculation(1) assms(3) by (intro trans [OF unat_add_lem [THEN iffD1]]) simp_all
  qed
  ultimately show "(\<Sum>(a, len)\<leftarrow>sg. pieces blen len) \<le> unat ((of_nat (length sg) :: u32) + extra_descs blen sg)"
    and "unat ((of_nat (length sg) :: u32) + extra_descs blen sg) < 2 ^ 31"
    using assms(3) by auto
qed

lemma request_covers:
  assumes "blen \<noteq> 0" and "\<forall>(a, len) \<in> set sgt. unat len + unat blen \<le> 2 ^ 32"
    and "length sgt + (\<Sum>(a, len)\<leftarrow>sgt. pieces blen len) < 2 ^ 31"
  shows "\<exists>rq. xdma_init_request blen True sgt ep = Some (Some rq) \<and> rq_ep_addr rq = ep \<and> rq_sw_desc_idx rq = 0 \<and>
    sw_bytes (rq_sdesc rq) = sg_bytes sgt \<and> (\<forall>sd \<in> set (rq_sdesc rq). 0 < sd_len sd \<and> sd_len sd \<le> blen) \<and>
    unat (rq_sw_desc_cnt rq) = length (rq_sdesc rq) \<and> length (rq_sdesc rq) < 2 ^ 31 \<and>
    length (rq_sdesc rq) \<le> unat ((of_nat (length sgt) :: u32) + extra_descs blen sgt) \<and>
    rq_total_len rq = sum_list (map sd_len (rq_sdesc rq))"
proof -
  obtain ds where ds: "split_list blen sgt = Some ds" "sw_bytes ds = sg_bytes sgt" "\<forall>sd \<in> set ds. 0 < sd_len sd \<and> sd_len sd \<le> blen"
    "length ds = (\<Sum>(a, len)\<leftarrow>sgt. pieces blen len)" "sum_list (map sd_len ds) = sum_list (map snd sgt)"
    using split_list_spec [OF assms(1)] by blast
  note e = extra_descs_enough [OF assms]
  let ?max = "(of_nat (length sgt) :: u32) + extra_descs blen sgt"
  have len: "unat (of_nat (length ds) :: u32) = length ds" "length ds < 2 ^ 31"
    using assms(3) by (simp_all add: ds(4) unat_of_nat take_bit_nat_eq_self)
  have si: "sint (of_nat (length ds) :: u32) = int (length ds)" using len by (simp add: sint_eq_unat)
  have "\<not> ?max <s of_nat (length ds)"
    unfolding word_sless_alt si sint_eq_unat [OF e(2)] of_nat_less_iff not_less using e(1) ds(4) by simp
  then show ?thesis
    using ds e(1) len by (simp add: xdma_init_request_def Let_def)
qed



text \<open>
  The sum \<open>len + desc_blen_max - 1\<close> wraps for a block of nearly four gigabytes: seventeen descriptors are written
  into an array for one before the count is checked.
\<close>

lemma xdma_request_overruns:
  "xdma_init_request XDMA_DESC_BLEN_MAX True [(0, 0xFFFFFFFF)] ep = Some None \<and>
   (of_nat (length [(0 :: u64, 0xFFFFFFFF :: u32)]) :: u32) + extra_descs XDMA_DESC_BLEN_MAX [(0, 0xFFFFFFFF)] = 1 \<and>
   (\<exists>ds. split_list XDMA_DESC_BLEN_MAX [(0, 0xFFFFFFFF)] = Some ds \<and> length ds = 17)"
proof -
  obtain ds where ds: "split_list XDMA_DESC_BLEN_MAX [(0, 0xFFFFFFFF)] = Some ds" "length ds = 17"
    using split_list_spec [of XDMA_DESC_BLEN_MAX "[(0, 0xFFFFFFFF)]"] by (auto simp: pieces_def XDMA_DESC_BLEN_MAX_def)
  moreover have e: "(of_nat (length [(0 :: u64, 0xFFFFFFFF :: u32)]) :: u32) + extra_descs XDMA_DESC_BLEN_MAX [(0, 0xFFFFFFFF)] = 1"
    by (simp add: extra_descs_def XDMA_DESC_BLEN_MAX_def)
  moreover have "(1 :: u32) <s of_nat (length ds)" by (simp add: ds(2) word_sless_alt)
  ultimately show ?thesis
    unfolding xdma_init_request_def Let_def e ds(1) by simp
qed

end
