(* ===== verification/Xdma_Engine.thy ===== *)
theory Xdma_Engine
  imports Xdma_Desc
begin

section \<open>The XDMA engine (libxdma.c)\<close>

text \<open>
  An engine runs the transfers on its queue. A state holds the engine, the transfers by their number, the device
  and what the driver told others: who was woken, which callbacks ran. The engine lock makes each of these operations
  one step.
\<close>

unbundle bit_operations_syntax

named_theorems xdma_regs

record 's xio =
  read_register :: "u32 \<Rightarrow> 's \<Rightarrow> u32 \<times> 's"
  write_register :: "u32 \<Rightarrow> u32 \<Rightarrow> 's \<Rightarrow> 's"

record xdma_params =
  poll_mode :: bool
  enable_st_c2h_credit :: bool

datatype xdma_event = Wake_transfer nat | Io_done nat int | Wake_shutdown | Wake_perf | Map_sg | Unmap_sg

record 's xworld =
  xw_engine :: xdma_engine
  xw_tfer :: "nat \<Rightarrow> xdma_transfer"
  xw_dev :: 's
  xw_events :: "xdma_event list"

subsection \<open>Registers\<close>

definition R_identifier :: u32 where [xdma_regs]: "R_identifier = 0x00"
definition R_control :: u32 where [xdma_regs]: "R_control = 0x04"
definition R_control_w1s :: u32 where [xdma_regs]: "R_control_w1s = 0x08"
definition R_control_w1c :: u32 where [xdma_regs]: "R_control_w1c = 0x0c"
definition R_status :: u32 where [xdma_regs]: "R_status = 0x40"
definition R_status_rc :: u32 where [xdma_regs]: "R_status_rc = 0x44"
definition R_completed_desc_count :: u32 where [xdma_regs]: "R_completed_desc_count = 0x48"
definition R_alignments :: u32 where [xdma_regs]: "R_alignments = 0x4c"
definition R_poll_mode_wb_lo :: u32 where [xdma_regs]: "R_poll_mode_wb_lo = 0x88"
definition R_poll_mode_wb_hi :: u32 where [xdma_regs]: "R_poll_mode_wb_hi = 0x8c"
definition R_interrupt_enable_mask :: u32 where [xdma_regs]: "R_interrupt_enable_mask = 0x90"
definition R_interrupt_enable_mask_w1s :: u32 where [xdma_regs]: "R_interrupt_enable_mask_w1s = 0x94"
definition R_interrupt_enable_mask_w1c :: u32 where [xdma_regs]: "R_interrupt_enable_mask_w1c = 0x98"
definition SGDMA_OFFSET_FROM_CHANNEL :: u32 where [xdma_regs]: "SGDMA_OFFSET_FROM_CHANNEL = 0x4000"
definition XDMA_OFS_INT_CTRL :: u32 where [xdma_regs]: "XDMA_OFS_INT_CTRL = 0x2000"
definition R_channel_int_enable_w1s :: u32 where [xdma_regs]: "R_channel_int_enable_w1s = 0x14"
definition R_first_desc_lo :: u32 where [xdma_regs]: "R_first_desc_lo = 0x80"
definition R_first_desc_hi :: u32 where [xdma_regs]: "R_first_desc_hi = 0x84"
definition R_first_desc_adjacent :: u32 where [xdma_regs]: "R_first_desc_adjacent = 0x88"
definition R_credits :: u32 where [xdma_regs]: "R_credits = 0x8c"

definition XDMA_CTRL_RUN_STOP :: u32 where [xdma_regs]: "XDMA_CTRL_RUN_STOP = 1"
definition XDMA_CTRL_IE_DESC_STOPPED :: u32 where [xdma_regs]: "XDMA_CTRL_IE_DESC_STOPPED = 2"
definition XDMA_CTRL_IE_DESC_COMPLETED :: u32 where [xdma_regs]: "XDMA_CTRL_IE_DESC_COMPLETED = 4"
definition XDMA_CTRL_IE_DESC_ALIGN_MISMATCH :: u32 where [xdma_regs]: "XDMA_CTRL_IE_DESC_ALIGN_MISMATCH = 8"
definition XDMA_CTRL_IE_MAGIC_STOPPED :: u32 where [xdma_regs]: "XDMA_CTRL_IE_MAGIC_STOPPED = 0x10"
definition XDMA_CTRL_IE_IDLE_STOPPED :: u32 where [xdma_regs]: "XDMA_CTRL_IE_IDLE_STOPPED = 0x40"
definition XDMA_CTRL_IE_READ_ERROR :: u32 where [xdma_regs]: "XDMA_CTRL_IE_READ_ERROR = push_bit 9 0x1F"
definition XDMA_CTRL_IE_DESC_ERROR :: u32 where [xdma_regs]: "XDMA_CTRL_IE_DESC_ERROR = push_bit 19 0x1F"
definition XDMA_CTRL_NON_INCR_ADDR :: u32 where [xdma_regs]: "XDMA_CTRL_NON_INCR_ADDR = push_bit 25 1"
definition XDMA_CTRL_POLL_MODE_WB :: u32 where [xdma_regs]: "XDMA_CTRL_POLL_MODE_WB = push_bit 26 1"

definition XDMA_STAT_BUSY :: u32 where [xdma_regs]: "XDMA_STAT_BUSY = 1"
definition XDMA_STAT_DESC_STOPPED :: u32 where [xdma_regs]: "XDMA_STAT_DESC_STOPPED = 2"
definition XDMA_STAT_DESC_COMPLETED :: u32 where [xdma_regs]: "XDMA_STAT_DESC_COMPLETED = 4"
definition XDMA_STAT_COMMON_ERR_MASK :: u32 where [xdma_regs]: "XDMA_STAT_COMMON_ERR_MASK = 0x38"
definition XDMA_STAT_DESC_ERR_MASK :: u32 where [xdma_regs]: "XDMA_STAT_DESC_ERR_MASK = push_bit 19 0x1F"
definition XDMA_STAT_H2C_R_ERR_MASK :: u32 where [xdma_regs]: "XDMA_STAT_H2C_R_ERR_MASK = push_bit 9 0x1F"
definition XDMA_STAT_H2C_W_ERR_MASK :: u32 where [xdma_regs]: "XDMA_STAT_H2C_W_ERR_MASK = push_bit 14 3"
definition XDMA_STAT_C2H_R_ERR_MASK :: u32 where [xdma_regs]: "XDMA_STAT_C2H_R_ERR_MASK = push_bit 9 3"
definition XDMA_STAT_H2C_ERR_MASK :: u32 where [xdma_regs]:
  "XDMA_STAT_H2C_ERR_MASK = XDMA_STAT_COMMON_ERR_MASK OR XDMA_STAT_DESC_ERR_MASK OR XDMA_STAT_H2C_R_ERR_MASK OR XDMA_STAT_H2C_W_ERR_MASK"
definition XDMA_STAT_C2H_ERR_MASK :: u32 where [xdma_regs]:
  "XDMA_STAT_C2H_ERR_MASK = XDMA_STAT_COMMON_ERR_MASK OR XDMA_STAT_DESC_ERR_MASK OR XDMA_STAT_C2H_R_ERR_MASK"

definition BLOCK_ID_MASK :: u32 where [xdma_regs]: "BLOCK_ID_MASK = 0xFFF00000"
definition BLOCK_ID_HEAD :: u32 where [xdma_regs]: "BLOCK_ID_HEAD = 0x1FC00000"
definition WB_COUNT_MASK :: u32 where [xdma_regs]: "WB_COUNT_MASK = 0x00ffffff"
definition WB_ERR_MASK :: u32 where [xdma_regs]: "WB_ERR_MASK = push_bit 31 1"
definition RX_STATUS_EOP :: u32 where [xdma_regs]: "RX_STATUS_EOP = 1"
definition XFER_FLAG_NEED_UNMAP :: u32 where [xdma_regs]: "XFER_FLAG_NEED_UNMAP = 1"
definition XFER_FLAG_ST_C2H_EOP_RCVED :: u32 where [xdma_regs]: "XFER_FLAG_ST_C2H_EOP_RCVED = 2"
definition ENGINE_SHUTDOWN_NONE :: u32 where [xdma_regs]: "ENGINE_SHUTDOWN_NONE = 0"
definition ENGINE_SHUTDOWN_REQUEST :: u32 where [xdma_regs]: "ENGINE_SHUTDOWN_REQUEST = 1"
definition ENGINE_SHUTDOWN_IDLE :: u32 where [xdma_regs]: "ENGINE_SHUTDOWN_IDLE = 2"

definition engine_read :: "'s xio \<Rightarrow> u32 \<Rightarrow> 's xworld \<Rightarrow> u32 \<times> 's xworld" where
  "engine_read io off w =
     (let (v, s) = read_register io (en_regs (xw_engine w) + off) (xw_dev w) in (v, w\<lparr>xw_dev := s\<rparr>))"

definition engine_write :: "'s xio \<Rightarrow> u32 \<Rightarrow> u32 \<Rightarrow> 's xworld \<Rightarrow> 's xworld" where
  "engine_write io off v w = w\<lparr>xw_dev := write_register io (en_regs (xw_engine w) + off) v (xw_dev w)\<rparr>"

abbreviation sgdma_write :: "'s xio \<Rightarrow> u32 \<Rightarrow> u32 \<Rightarrow> 's xworld \<Rightarrow> 's xworld" where
  "sgdma_write io off \<equiv> engine_write io (SGDMA_OFFSET_FROM_CHANNEL + off)"

definition notify_event :: "xdma_event \<Rightarrow> 's xworld \<Rightarrow> 's xworld" where
  "notify_event e w = w\<lparr>xw_events := xw_events w @ [e]\<rparr>"

definition set_tfer :: "nat \<Rightarrow> (xdma_transfer \<Rightarrow> xdma_transfer) \<Rightarrow> 's xworld \<Rightarrow> 's xworld" where
  "set_tfer t f w = w\<lparr>xw_tfer := (xw_tfer w)(t := f (xw_tfer w t))\<rparr>"

definition set_engine :: "(xdma_engine \<Rightarrow> xdma_engine) \<Rightarrow> 's xworld \<Rightarrow> 's xworld" where
  "set_engine f w = w\<lparr>xw_engine := f (xw_engine w)\<rparr>"

definition st_c2h :: "xdma_engine \<Rightarrow> bool" where
  "st_c2h en \<longleftrightarrow> en_streaming en \<and> en_dir en = DMA_FROM_DEVICE"

subsection \<open>Status, start and stop\<close>

definition engine_reg_dump :: "'s xio \<Rightarrow> 's xworld \<Rightarrow> int \<times> 's xworld" where
  "engine_reg_dump io w =
     (let (v, w1) = engine_read io R_identifier w
      in if v AND BLOCK_ID_MASK \<noteq> BLOCK_ID_HEAD then (- EINVAL, w1)
         else (0, fold (\<lambda>off w. snd (engine_read io off w))
           [R_status, R_control, SGDMA_OFFSET_FROM_CHANNEL + R_first_desc_lo, SGDMA_OFFSET_FROM_CHANNEL + R_first_desc_hi,
            SGDMA_OFFSET_FROM_CHANNEL + R_first_desc_adjacent, R_completed_desc_count, R_interrupt_enable_mask] w1))"

definition engine_status_read :: "'s xio \<Rightarrow> bool \<Rightarrow> bool \<Rightarrow> 's xworld \<Rightarrow> int \<times> 's xworld" where
  "engine_status_read io clear dump w =
     (let (rv, w1) = (if dump then engine_reg_dump io w else (0, w))
      in if rv < 0 then (rv, w1)
         else (let (v, w2) = engine_read io (if clear then R_status_rc else R_status) w1
               in (rv, set_engine (\<lambda>en. en\<lparr>en_status := v\<rparr>) w2)))"

definition xdma_engine_stop :: "xdma_params \<Rightarrow> 's xio \<Rightarrow> 's xworld \<Rightarrow> int \<times> 's xworld" where
  "xdma_engine_stop p io w =
     (let w1 = (if enable_st_c2h_credit p \<and> st_c2h (xw_engine w) then sgdma_write io R_credits 0 w else w);
          v = XDMA_CTRL_IE_DESC_ALIGN_MISMATCH OR XDMA_CTRL_IE_MAGIC_STOPPED OR XDMA_CTRL_IE_READ_ERROR OR XDMA_CTRL_IE_DESC_ERROR OR
              (if poll_mode p then XDMA_CTRL_POLL_MODE_WB else XDMA_CTRL_IE_DESC_STOPPED OR XDMA_CTRL_IE_DESC_COMPLETED)
      in (0, set_engine (\<lambda>en. en\<lparr>en_running := False\<rparr>) (engine_write io R_control v w1)))"

definition engine_start_mode_config :: "xdma_params \<Rightarrow> 's xio \<Rightarrow> 's xworld \<Rightarrow> int \<times> 's xworld" where
  "engine_start_mode_config p io w =
     (let w1 = (if en_xdma_perf (xw_engine w) \<noteq> None
            then engine_write io R_interrupt_enable_mask
              (XDMA_CTRL_IE_DESC_STOPPED OR XDMA_CTRL_IE_DESC_COMPLETED OR XDMA_CTRL_IE_DESC_ALIGN_MISMATCH OR
               XDMA_CTRL_IE_MAGIC_STOPPED OR XDMA_CTRL_IE_IDLE_STOPPED OR XDMA_CTRL_IE_READ_ERROR OR XDMA_CTRL_IE_DESC_ERROR) w
            else w);
          v = XDMA_CTRL_RUN_STOP OR XDMA_CTRL_IE_READ_ERROR OR XDMA_CTRL_IE_DESC_ERROR OR XDMA_CTRL_IE_DESC_ALIGN_MISMATCH OR
              XDMA_CTRL_IE_MAGIC_STOPPED OR
              (if poll_mode p then XDMA_CTRL_POLL_MODE_WB else XDMA_CTRL_IE_DESC_STOPPED OR XDMA_CTRL_IE_DESC_COMPLETED) OR
              (if en_non_incr_addr (xw_engine w) then XDMA_CTRL_NON_INCR_ADDR else 0);
          w2 = engine_write io R_control v w1
      in (0, snd (engine_read io R_status w2)))"

definition engine_start :: "xdma_params \<Rightarrow> 's xio \<Rightarrow> 's xworld \<Rightarrow> nat option \<times> 's xworld" where
  "engine_start p io w =
     (if en_running (xw_engine w) then (None, w)
      else case en_transfer_list (xw_engine w) of
        [] \<Rightarrow> (None, w)
      | t # _ \<Rightarrow>
          (let x = xw_tfer w t;
               w1 = set_engine (\<lambda>en. en\<lparr>en_shutdown := ENGINE_SHUTDOWN_NONE\<rparr>) w;
               w2 = (if enable_st_c2h_credit p \<and> st_c2h (xw_engine w1)
                     then sgdma_write io R_credits (en_desc_used (xw_engine w1)) w1 else w1);
               w3 = set_engine (\<lambda>en. en\<lparr>en_desc_dequeued := 0\<rparr>) w2;
               w4 = sgdma_write io R_first_desc_lo (PCI_DMA_L (xf_desc_bus x)) w3;
               w5 = sgdma_write io R_first_desc_hi (PCI_DMA_H (xf_desc_bus x)) w4;
               w6 = sgdma_write io R_first_desc_adjacent (xdma_get_next_adj (xf_desc_adjacent x) (PCI_DMA_L (xf_desc_bus x))) w5;
               (rv, w7) = engine_start_mode_config p io w6
           in if rv < 0 then (None, w7)
              else (let (rv, w8) = engine_status_read io False False w7
                    in if rv < 0 then (None, w8)
                       else (Some t, set_engine (\<lambda>en. en\<lparr>en_running := True\<rparr>) w8))))"

subsection \<open>Service\<close>

definition engine_service_shutdown :: "xdma_params \<Rightarrow> 's xio \<Rightarrow> 's xworld \<Rightarrow> int \<times> 's xworld" where
  "engine_service_shutdown p io w =
     (let (rv, w1) = xdma_engine_stop p io w in if rv < 0 then (rv, w1) else (0, notify_event Wake_shutdown w1))"

definition engine_transfer_completion :: "nat \<Rightarrow> 's xworld \<Rightarrow> 's xworld" where
  "engine_transfer_completion t w =
     (let w1 = notify_event (Wake_transfer t) w; x = xw_tfer w1 t
      in if xf_cb x \<and> xf_last_in_request x then notify_event (Io_done t 0) w1 else w1)"

text \<open>All completed transfers but the last are taken off the queue, which is the list of the recursion.\<close>

fun engine_service_transfer_list :: "nat list \<Rightarrow> u32 \<Rightarrow> 's xworld \<Rightarrow> nat option \<times> u32 \<times> 's xworld" where
  "engine_service_transfer_list [] c w = (None, c, w)"
| "engine_service_transfer_list (t # ts) c w =
     (let x = xw_tfer w t
      in if \<not> xf_cyclic x \<and> xf_desc_num x < c
         then engine_service_transfer_list ts (c - xf_desc_num x)
           (engine_transfer_completion t
             (set_tfer t (\<lambda>x. x\<lparr>xf_state := TRANSFER_STATE_COMPLETED\<rparr>)
               (set_engine (\<lambda>en. en\<lparr>en_transfer_list := ts, en_desc_dequeued := en_desc_dequeued en + xf_desc_num x\<rparr>) w)))
         else (Some t, c, w))"

definition engine_err_handle :: "xdma_params \<Rightarrow> 's xio \<Rightarrow> nat \<Rightarrow> 's xworld \<Rightarrow> int \<times> 's xworld" where
  "engine_err_handle p io t w =
     (let w1 = (if en_status (xw_engine w) AND XDMA_STAT_BUSY \<noteq> 0 then snd (engine_read io R_status w) else w)
      in xdma_engine_stop p io (set_tfer t (\<lambda>x. x\<lparr>xf_state := TRANSFER_STATE_FAILED\<rparr>) w1))"

definition engine_error :: "xdma_engine \<Rightarrow> bool" where
  "engine_error en \<longleftrightarrow>
     en_status en AND (if en_dir en = DMA_FROM_DEVICE then XDMA_STAT_C2H_ERR_MASK else XDMA_STAT_H2C_ERR_MASK) \<noteq> 0"

definition eop_received :: "xdma_engine \<Rightarrow> xdma_transfer \<Rightarrow> u32 \<Rightarrow> bool" where
  "eop_received en x c =
     list_ex (\<lambda>i. r_status (en_cyclic_result en ! (xf_res_virt x + i)) AND RX_STATUS_EOP \<noteq> 0) [0..<unat c]"

text \<open>The end of the service of a transfer: off the queue, and its waiters told.\<close>

definition transfer_del :: "nat \<Rightarrow> 's xworld \<Rightarrow> 's xworld" where
  "transfer_del t w =
     engine_transfer_completion t (set_engine (\<lambda>en. en\<lparr>en_transfer_list := tl (en_transfer_list en)\<rparr>) w)"

definition engine_service_final_transfer :: "xdma_params \<Rightarrow> 's xio \<Rightarrow> nat option \<Rightarrow> u32 \<Rightarrow> 's xworld \<Rightarrow> 's xworld" where
  "engine_service_final_transfer p io transfer c w =
     (case transfer of
        None \<Rightarrow> w
      | Some t \<Rightarrow>
          (let x = xw_tfer w t; en = xw_engine w
           in if engine_error en then transfer_del t (snd (engine_err_handle p io t w))
              else if c < xf_desc_num x then
                (if en_eop_flush en then
                   (let x1 = x\<lparr>xf_flags := (if eop_received en x c then xf_flags x OR XFER_FLAG_ST_C2H_EOP_RCVED else xf_flags x),
                               xf_desc_cmpl := xf_desc_cmpl x + c\<rparr>;
                        w1 = set_tfer t (\<lambda>_. x1) w
                    in if xf_flags x1 AND XFER_FLAG_ST_C2H_EOP_RCVED = 0 then w1
                       else transfer_del t
                         (set_engine (\<lambda>en. en\<lparr>en_desc_dequeued := en_desc_dequeued en + xf_desc_cmpl x1\<rparr>)
                           (set_tfer t (\<lambda>x. x\<lparr>xf_state := TRANSFER_STATE_COMPLETED\<rparr>) (snd (engine_service_shutdown p io w1)))))
                 else transfer_del t
                   (set_tfer t (\<lambda>x. x\<lparr>xf_state := TRANSFER_STATE_FAILED, xf_desc_cmpl := c\<rparr>)
                     (set_engine (\<lambda>en. en\<lparr>en_desc_dequeued := en_desc_dequeued en + xf_desc_num x\<rparr>) w)))
              else transfer_del t
                (set_engine (\<lambda>en. en\<lparr>en_desc_dequeued := en_desc_dequeued en + xf_desc_num x\<rparr>)
                  (set_tfer t (\<lambda>x. x\<lparr>xf_state := TRANSFER_STATE_COMPLETED, xf_desc_cmpl := xf_desc_num x\<rparr>) w))))"

definition engine_service_perf :: "u32 \<Rightarrow> 's xworld \<Rightarrow> 's xworld" where
  "engine_service_perf desc_completed w =
     (case en_xdma_perf (xw_engine w) of
        None \<Rightarrow> w
      | Some (iterations, stopped) \<Rightarrow>
          (let st = en_status (xw_engine w);
               it = (if st AND XDMA_STAT_DESC_COMPLETED \<noteq> 0 then desc_completed else iterations);
               stop = (st AND XDMA_STAT_DESC_STOPPED \<noteq> 0);
               w1 = set_engine (\<lambda>en. en\<lparr>en_xdma_perf := Some (it, stopped \<or> stop)\<rparr>) w
           in if stop then notify_event Wake_perf w1 else w1))"

definition engine_service_resume :: "xdma_params \<Rightarrow> 's xio \<Rightarrow> 's xworld \<Rightarrow> int \<times> 's xworld" where
  "engine_service_resume p io w =
     (let en = xw_engine w
      in if \<not> en_running en then
           (if en_transfer_list en \<noteq> [] then
              (let (started, w1) = engine_start p io w in (if started = None then - EINVAL else 0, w1))
            else if en_shutdown en AND ENGINE_SHUTDOWN_REQUEST \<noteq> 0 then
              (0, notify_event Wake_shutdown (set_engine (\<lambda>en. en\<lparr>en_shutdown := en_shutdown en OR ENGINE_SHUTDOWN_IDLE\<rparr>) w))
            else (0, w))
         else if en_transfer_list en = [] then (0, snd (engine_service_shutdown p io w)) else (0, w))"

definition engine_service :: "xdma_params \<Rightarrow> 's xio \<Rightarrow> u32 \<Rightarrow> 's xworld \<Rightarrow> int \<times> 's xworld" where
  "engine_service p io desc_writeback w =
     (let desc_count = desc_writeback AND WB_COUNT_MASK; err_flag = desc_writeback AND WB_ERR_MASK;
          result = (if err_flag \<noteq> 0 then - 1 else 0)
      in if \<not> en_running (xw_engine w) then (let (rv, w1) = engine_status_read io True False w in (if rv < 0 then rv else 0, w1))
         else (let (rv1, w1) = (if desc_count = 0 \<or> err_flag \<noteq> 0 then engine_status_read io True False w else (0, w))
           in if rv1 < 0 then (rv1, w1)
              else (let en1 = xw_engine w1;
                        (rv2, w2) = (if en_running en1 \<and> en_status en1 AND XDMA_STAT_BUSY = 0 \<or> \<not> en_eop_flush en1 \<and> desc_count \<noteq> 0
                                     then engine_service_shutdown p io w1 else (0, w1))
                    in if rv2 < 0 then (rv2, w2)
                       else (let (c, w3) = (if desc_count = 0 then engine_read io R_completed_desc_count w2 else (desc_count, w2))
                             in if c = 0 then (result, w3)
                                else (let q = en_transfer_list (xw_engine w3);
                                          w4 = (if q \<noteq> [] then engine_service_perf c w3 else w3);
                                          (transfer, c5, w5) = engine_service_transfer_list q (c - en_desc_dequeued (xw_engine w4)) w4;
                                          w6 = engine_service_final_transfer p io transfer c5 w5;
                                          w7 = (if en_eop_flush (xw_engine w6) then w6 else snd (engine_service_resume p io w6))
                                      in (result, w7))))))"

text \<open>The bottom half of a channel interrupt.\<close>

definition channel_interrupts_enable :: "'s xio \<Rightarrow> u32 \<Rightarrow> 's xworld \<Rightarrow> 's xworld" where
  "channel_interrupts_enable io bits w = w\<lparr>xw_dev := write_register io (XDMA_OFS_INT_CTRL + R_channel_int_enable_w1s) bits (xw_dev w)\<rparr>"

definition engine_service_work :: "xdma_params \<Rightarrow> 's xio \<Rightarrow> bool \<Rightarrow> 's xworld \<Rightarrow> 's xworld" where
  "engine_service_work p io msix_enabled w =
     (if en_magic (xw_engine w) \<noteq> MAGIC_ENGINE then w
      else (let (rv, w1) = engine_service p io 0 w
            in if rv < 0 then w1
               else if msix_enabled
               then engine_write io R_interrupt_enable_mask_w1s (en_interrupt_enable_mask_value (xw_engine w1)) w1
               else channel_interrupts_enable io (en_irq_bitmask (xw_engine w1)) w1))"

subsection \<open>The queue\<close>

definition transfer_abort :: "nat \<Rightarrow> 's xworld \<Rightarrow> int \<times> 's xworld" where
  "transfer_abort t w =
     (if xf_desc_num (xw_tfer w t) = 0 then (- EINVAL, w)
      else (let q = en_transfer_list (xw_engine w);
                w1 = (case q of h # q' \<Rightarrow> if h = t then set_engine (\<lambda>en. en\<lparr>en_transfer_list := q'\<rparr>) w else w | [] \<Rightarrow> w)
            in (0, if xf_state (xw_tfer w t) = TRANSFER_STATE_SUBMITTED
                   then set_tfer t (\<lambda>x. x\<lparr>xf_state := TRANSFER_STATE_ABORTED\<rparr>) w1 else w1)))"

definition transfer_queue :: "xdma_params \<Rightarrow> 's xio \<Rightarrow> bool \<Rightarrow> nat \<Rightarrow> 's xworld \<Rightarrow> int \<times> 's xworld" where
  "transfer_queue p io offline t w =
     (if xf_desc_num (xw_tfer w t) = 0 then (- EINVAL, w)
      else if offline then (- EBUSY, w)
      else if en_shutdown (xw_engine w) AND ENGINE_SHUTDOWN_REQUEST \<noteq> 0 then (- EBUSY, w)
      else (let w1 = set_engine (\<lambda>en. en\<lparr>en_transfer_list := en_transfer_list en @ [t]\<rparr>)
                       (set_tfer t (\<lambda>x. x\<lparr>xf_state := TRANSFER_STATE_SUBMITTED\<rparr>) w)
            in (0, if en_running (xw_engine w1) then w1 else snd (engine_start p io w1))))"

subsection \<open>What the operations leave alone\<close>

named_theorems xw_simps

lemma engine_read_keeps [xw_simps]:
  "engine_read io off w = (v, w') \<Longrightarrow> xw_engine w' = xw_engine w \<and> xw_tfer w' = xw_tfer w \<and> xw_events w' = xw_events w"
  by (auto simp: engine_read_def split: prod.splits)

lemma engine_read_simps [simp]:
  "xw_engine (snd (engine_read io off w)) = xw_engine w" "xw_tfer (snd (engine_read io off w)) = xw_tfer w"
  "xw_events (snd (engine_read io off w)) = xw_events w"
  by (simp_all add: engine_read_def split: prod.splits)

lemma engine_write_simps [simp]:
  "xw_engine (engine_write io off v w) = xw_engine w" "xw_tfer (engine_write io off v w) = xw_tfer w"
  "xw_events (engine_write io off v w) = xw_events w"
  by (simp_all add: engine_write_def)

lemma set_engine_simps [simp]:
  "xw_engine (set_engine f w) = f (xw_engine w)" "xw_tfer (set_engine f w) = xw_tfer w"
  "xw_events (set_engine f w) = xw_events w" "xw_dev (set_engine f w) = xw_dev w"
  by (simp_all add: set_engine_def)

lemma set_tfer_simps [simp]:
  "xw_engine (set_tfer t f w) = xw_engine w" "xw_tfer (set_tfer t f w) = (xw_tfer w)(t := f (xw_tfer w t))"
  "xw_events (set_tfer t f w) = xw_events w" "xw_dev (set_tfer t f w) = xw_dev w"
  by (simp_all add: set_tfer_def)

lemma notify_event_simps [simp]:
  "xw_engine (notify_event e w) = xw_engine w" "xw_tfer (notify_event e w) = xw_tfer w"
  "xw_events (notify_event e w) = xw_events w @ [e]" "xw_dev (notify_event e w) = xw_dev w"
  by (simp_all add: notify_event_def)

lemma xdma_engine_stop_simps [simp]:
  "fst (xdma_engine_stop p io w) = 0"
  "xw_engine (snd (xdma_engine_stop p io w)) = (xw_engine w)\<lparr>en_running := False\<rparr>"
  "xw_tfer (snd (xdma_engine_stop p io w)) = xw_tfer w" "xw_events (snd (xdma_engine_stop p io w)) = xw_events w"
  by (simp_all add: xdma_engine_stop_def Let_def)

lemma engine_service_shutdown_simps [simp]:
  "fst (engine_service_shutdown p io w) = 0"
  "xw_engine (snd (engine_service_shutdown p io w)) = (xw_engine w)\<lparr>en_running := False\<rparr>"
  "xw_tfer (snd (engine_service_shutdown p io w)) = xw_tfer w"
  "xw_events (snd (engine_service_shutdown p io w)) = xw_events w @ [Wake_shutdown]"
  by (simp_all add: engine_service_shutdown_def case_prod_beta)

lemma engine_status_read_simps:
  "fst (engine_status_read io clear False w) = 0"
  "xw_engine (snd (engine_status_read io clear False w)) =
     (xw_engine w)\<lparr>en_status := fst (engine_read io (if clear then R_status_rc else R_status) w)\<rparr>"
  "xw_tfer (snd (engine_status_read io clear False w)) = xw_tfer w"
  "xw_events (snd (engine_status_read io clear False w)) = xw_events w"
  by (simp_all add: engine_status_read_def case_prod_beta Let_def)

lemma engine_start_mode_config_simps [simp]:
  "fst (engine_start_mode_config p io w) = 0" "xw_engine (snd (engine_start_mode_config p io w)) = xw_engine w"
  "xw_tfer (snd (engine_start_mode_config p io w)) = xw_tfer w" "xw_events (snd (engine_start_mode_config p io w)) = xw_events w"
  by (simp_all add: engine_start_mode_config_def Let_def)

text \<open>An idle engine with work starts.\<close>

lemma engine_start_runs:
  assumes "\<not> en_running (xw_engine w)" and "en_transfer_list (xw_engine w) = t # ts"
  shows "\<exists>v w'. engine_start p io w = (Some t, w') \<and> xw_tfer w' = xw_tfer w \<and> xw_events w' = xw_events w \<and>
    xw_engine w' = (xw_engine w)\<lparr>en_shutdown := ENGINE_SHUTDOWN_NONE, en_desc_dequeued := 0, en_status := v, en_running := True\<rparr>"
  using assms by (auto simp: engine_start_def Let_def case_prod_beta engine_status_read_simps)

lemma engine_transfer_completion_simps [simp]:
  "xw_engine (engine_transfer_completion t w) = xw_engine w" "xw_tfer (engine_transfer_completion t w) = xw_tfer w"
  "xw_dev (engine_transfer_completion t w) = xw_dev w"
  by (simp_all add: engine_transfer_completion_def Let_def)

definition completion_events :: "(nat \<Rightarrow> xdma_transfer) \<Rightarrow> nat \<Rightarrow> xdma_event list" where
  "completion_events tf t = Wake_transfer t # (if xf_cb (tf t) \<and> xf_last_in_request (tf t) then [Io_done t 0] else [])"

lemma engine_transfer_completion_events [simp]:
  "xw_events (engine_transfer_completion t w) = xw_events w @ completion_events (xw_tfer w) t"
  by (simp add: engine_transfer_completion_def completion_events_def Let_def)

subsection \<open>No transfer waits on an idle engine\<close>

definition served :: "'s xworld \<Rightarrow> bool" where
  "served w \<longleftrightarrow> (en_transfer_list (xw_engine w) \<noteq> [] \<longrightarrow> en_running (xw_engine w))"

lemma engine_start_served:
  assumes "\<not> en_running (xw_engine w)"
  shows "served (snd (engine_start p io w))"
proof (cases "en_transfer_list (xw_engine w)")
  case Nil
  then show ?thesis by (simp add: engine_start_def served_def)
next
  case (Cons t ts)
  then show ?thesis using engine_start_runs [OF assms Cons, of p io] by (auto simp: served_def)
qed

lemma transfer_queue_served:
  assumes "served w"
  shows "served (snd (transfer_queue p io offline t w))"
proof -
  let ?w = "set_engine (\<lambda>en. en\<lparr>en_transfer_list := en_transfer_list en @ [t]\<rparr>)
                       (set_tfer t (\<lambda>x. x\<lparr>xf_state := TRANSFER_STATE_SUBMITTED\<rparr>) w)"
  have "served (snd (engine_start p io ?w))" if "\<not> en_running (xw_engine ?w)"
    by (rule engine_start_served [OF that])
  moreover have "served ?w" if "en_running (xw_engine ?w)" using that by (simp add: served_def)
  ultimately show ?thesis using assms by (simp add: transfer_queue_def Let_def)
qed

lemma engine_service_resume_served: "served (snd (engine_service_resume p io w))"
  using engine_start_served [of w p io] engine_start_runs [of w]
  by (auto simp: engine_service_resume_def Let_def case_prod_beta served_def)

lemma service_list_spec:
  assumes "en_transfer_list (xw_engine w) = done @ t # rest" and "\<forall>d \<in> set done. \<not> xf_cyclic (xw_tfer w d)"
    and "unat c = (\<Sum>d\<leftarrow>done. unat (xf_desc_num (xw_tfer w d))) + m" and "0 < m"
    and "xf_cyclic (xw_tfer w t) \<or> m \<le> unat (xf_desc_num (xw_tfer w t))"
  shows "\<exists>w'. engine_service_transfer_list (done @ t # rest) c w = (Some t, of_nat m, w') \<and>
    xw_engine w' = (xw_engine w)\<lparr>en_transfer_list := t # rest,
      en_desc_dequeued := en_desc_dequeued (xw_engine w) + (\<Sum>d\<leftarrow>done. xf_desc_num (xw_tfer w d))\<rparr> \<and>
    xw_tfer w' = (\<lambda>i. if i \<in> set done then (xw_tfer w i)\<lparr>xf_state := TRANSFER_STATE_COMPLETED\<rparr> else xw_tfer w i) \<and>
    xw_events w' = xw_events w @ concat (map (completion_events (xw_tfer w)) done) \<and> xw_dev w' = xw_dev w"
  using assms
proof (induction "done" arbitrary: c w)
  case Nil
  have "m = unat c" using Nil(3) by simp
  then have "of_nat m = c" by simp
  moreover have "\<not> xf_desc_num (xw_tfer w t) < c \<or> xf_cyclic (xw_tfer w t)" using Nil(3,5) by (auto simp: word_less_nat_alt)
  ultimately show ?case using Nil(1) by auto
next
  case (Cons d ds)
  let ?n = "xf_desc_num (xw_tfer w d)"
  let ?w = "engine_transfer_completion d (set_tfer d (\<lambda>x. x\<lparr>xf_state := TRANSFER_STATE_COMPLETED\<rparr>)
     (set_engine (\<lambda>en. en\<lparr>en_transfer_list := ds @ t # rest, en_desc_dequeued := en_desc_dequeued en + ?n\<rparr>) w))"
  have c: "unat c = unat ?n + ((\<Sum>d\<leftarrow>ds. unat (xf_desc_num (xw_tfer w d))) + m)" using Cons.prems(3) by simp
  have lt: "?n < c" using c Cons.prems(4) by (simp add: word_less_nat_alt)
  then have sub: "unat (c - ?n) = (\<Sum>d\<leftarrow>ds. unat (xf_desc_num (xw_tfer w d))) + m" using c by (simp add: unat_sub word_less_nat_alt word_le_nat_alt)
  have num: "xf_desc_num (xw_tfer ?w i) = xf_desc_num (xw_tfer w i)" "xf_cyclic (xw_tfer ?w i) = xf_cyclic (xw_tfer w i)"
    "completion_events (xw_tfer ?w) i = completion_events (xw_tfer w) i" for i
    by (auto simp: completion_events_def)
  have q: "en_transfer_list (xw_engine ?w) = ds @ t # rest" by simp
  have nums: "map (\<lambda>d. unat (xf_desc_num (xw_tfer ?w d))) ds = map (\<lambda>d. unat (xf_desc_num (xw_tfer w d))) ds"
    "map (\<lambda>d. xf_desc_num (xw_tfer ?w d)) ds = map (\<lambda>d. xf_desc_num (xw_tfer w d)) ds"
    "map (completion_events (xw_tfer ?w)) ds = map (completion_events (xw_tfer w)) ds"
    unfolding num by simp_all
  have "\<exists>w'. engine_service_transfer_list (ds @ t # rest) (c - ?n) ?w = (Some t, of_nat m, w') \<and>
    xw_engine w' = (xw_engine ?w)\<lparr>en_transfer_list := t # rest,
      en_desc_dequeued := en_desc_dequeued (xw_engine ?w) + (\<Sum>d\<leftarrow>ds. xf_desc_num (xw_tfer ?w d))\<rparr> \<and>
    xw_tfer w' = (\<lambda>i. if i \<in> set ds then (xw_tfer ?w i)\<lparr>xf_state := TRANSFER_STATE_COMPLETED\<rparr> else xw_tfer ?w i) \<and>
    xw_events w' = xw_events ?w @ concat (map (completion_events (xw_tfer ?w)) ds) \<and> xw_dev w' = xw_dev ?w"
    by (rule Cons.IH [OF q]) (use Cons.prems sub in \<open>auto simp: num nums simp del: engine_transfer_completion_simps\<close>)
  then obtain w' where w': "engine_service_transfer_list (ds @ t # rest) (c - ?n) ?w = (Some t, of_nat m, w')"
    "xw_engine w' = (xw_engine ?w)\<lparr>en_transfer_list := t # rest,
      en_desc_dequeued := en_desc_dequeued (xw_engine ?w) + (\<Sum>d\<leftarrow>ds. xf_desc_num (xw_tfer w d))\<rparr>"
    "xw_tfer w' = (\<lambda>i. if i \<in> set ds then (xw_tfer ?w i)\<lparr>xf_state := TRANSFER_STATE_COMPLETED\<rparr> else xw_tfer ?w i)"
    "xw_events w' = xw_events ?w @ concat (map (completion_events (xw_tfer w)) ds)" "xw_dev w' = xw_dev ?w"
    unfolding nums by blast
  have "engine_service_transfer_list ((d # ds) @ t # rest) c w = (Some t, of_nat m, w')"
    using Cons.prems(2) lt w'(1) by (simp add: Let_def)
  moreover have "completion_events ((xw_tfer w)(d := (xw_tfer w d)\<lparr>xf_state := TRANSFER_STATE_COMPLETED\<rparr>)) d = completion_events (xw_tfer w) d"
    by (simp add: completion_events_def)
  ultimately show ?case using w'(2-5) by (auto simp: fun_eq_iff add.assoc)
qed

text \<open>The events that a run of transfers causes, without those that tell of an engine at rest.\<close>

abbreviation told :: "xdma_event list \<Rightarrow> xdma_event list" where
  "told \<equiv> filter (\<lambda>e. e \<noteq> Wake_shutdown)"

lemma told_completion [simp]: "told (completion_events tf t) = completion_events tf t"
  by (simp add: completion_events_def)

lemma told_completions [simp]: "told (concat (map (completion_events tf) ts)) = concat (map (completion_events tf) ts)"
  by (induction ts) simp_all

lemma resume_spec:
  assumes "\<not> en_running (xw_engine w)"
  shows "\<exists>w'. engine_service_resume p io w = (0, w') \<and> xw_tfer w' = xw_tfer w \<and> told (xw_events w') = told (xw_events w) \<and>
    en_transfer_list (xw_engine w') = en_transfer_list (xw_engine w) \<and> en_desc (xw_engine w') = en_desc (xw_engine w) \<and>
    (en_running (xw_engine w') \<longleftrightarrow> en_transfer_list (xw_engine w) \<noteq> []) \<and>
    (en_transfer_list (xw_engine w) \<noteq> [] \<longrightarrow> en_desc_dequeued (xw_engine w') = 0) \<and>
    (en_transfer_list (xw_engine w) = [] \<longrightarrow> xw_dev w' = xw_dev w \<and>
       (\<exists>sh. xw_engine w' = (xw_engine w)\<lparr>en_shutdown := sh\<rparr> \<and> (sh = en_shutdown (xw_engine w) \<or> en_shutdown (xw_engine w) AND ENGINE_SHUTDOWN_REQUEST \<noteq> 0)))"
proof (cases "en_transfer_list (xw_engine w)")
  case Nil
  have "xw_engine w = (xw_engine w)\<lparr>en_shutdown := en_shutdown (xw_engine w)\<rparr>" by simp
  with Nil show ?thesis using assms by (auto simp: engine_service_resume_def Let_def)
next
  case (Cons t ts)
  then show ?thesis
    using assms engine_start_runs [OF assms Cons, of p io] by (auto simp: engine_service_resume_def Let_def)
qed

subsection \<open>What the operations do to the device\<close>

named_theorems xw_steps

text \<open>Every operation reaches the device through reads and writes of registers only.\<close>

inductive io_steps :: "'s xio \<Rightarrow> 's \<Rightarrow> 's \<Rightarrow> bool" for io where
  io_none [intro, simp]: "io_steps io s s"
| io_read: "io_steps io s s' \<Longrightarrow> io_steps io s (snd (read_register io a s'))"
| io_write: "io_steps io s s' \<Longrightarrow> io_steps io s (write_register io a v s')"

lemma io_steps_keep:
  assumes "io_steps io s s'" and "\<And>a s. obs (snd (read_register io a s)) = obs s"
    and "\<And>a v s. obs (write_register io a v s) = obs s"
  shows "obs s' = obs s"
  using assms(1) by induction (simp_all add: assms(2,3))

lemma steps_engine_read [xw_steps]: "io_steps io s (xw_dev w) \<Longrightarrow> io_steps io s (xw_dev (snd (engine_read io off w)))"
  by (simp add: engine_read_def case_prod_beta io_steps.io_read)

lemma steps_engine_write [xw_steps]: "io_steps io s (xw_dev w) \<Longrightarrow> io_steps io s (xw_dev (engine_write io off v w))"
  by (simp add: engine_write_def io_steps.io_write)

lemma steps_status_read [xw_steps]:
  "io_steps io s (xw_dev w) \<Longrightarrow> io_steps io s (xw_dev (snd (engine_status_read io clear False w)))"
  by (auto simp: engine_status_read_def case_prod_beta Let_def intro!: xw_steps)

lemma steps_engine_stop [xw_steps]: "io_steps io s (xw_dev w) \<Longrightarrow> io_steps io s (xw_dev (snd (xdma_engine_stop p io w)))"
  by (auto simp: xdma_engine_stop_def Let_def intro!: xw_steps)

lemma steps_service_shutdown [xw_steps]:
  "io_steps io s (xw_dev w) \<Longrightarrow> io_steps io s (xw_dev (snd (engine_service_shutdown p io w)))"
  by (auto simp: engine_service_shutdown_def case_prod_beta intro!: xw_steps)

lemma steps_mode_config [xw_steps]:
  "io_steps io s (xw_dev w) \<Longrightarrow> io_steps io s (xw_dev (snd (engine_start_mode_config p io w)))"
  by (auto simp: engine_start_mode_config_def Let_def intro!: xw_steps)

lemma steps_engine_start [xw_steps]: "io_steps io s (xw_dev w) \<Longrightarrow> io_steps io s (xw_dev (snd (engine_start p io w)))"
  by (cases "en_transfer_list (xw_engine w)")
    (auto simp: engine_start_def Let_def case_prod_beta engine_status_read_simps intro!: xw_steps)

lemma steps_service_resume [xw_steps]:
  "io_steps io s (xw_dev w) \<Longrightarrow> io_steps io s (xw_dev (snd (engine_service_resume p io w)))"
  by (auto simp: engine_service_resume_def Let_def case_prod_beta intro!: xw_steps)

lemma steps_service_perf [simp]: "xw_dev (engine_service_perf c w) = xw_dev w"
  by (simp add: engine_service_perf_def Let_def split: option.split)

lemma steps_service_list:
  "engine_service_transfer_list ts c w = (r, c', w') \<Longrightarrow> xw_dev w' = xw_dev w"
  by (induction ts c w rule: engine_service_transfer_list.induct) (auto simp: Let_def split: if_splits)

lemma steps_final_transfer [xw_steps]:
  "io_steps io s (xw_dev w) \<Longrightarrow> io_steps io s (xw_dev (engine_service_final_transfer p io r c w))"
  by (auto simp: engine_service_final_transfer_def engine_err_handle_def transfer_del_def Let_def intro!: xw_steps split: option.split)

lemma service_completes:
  assumes "en_running (xw_engine w)" and "\<not> en_eop_flush (xw_engine w)" and "en_xdma_perf (xw_engine w) = None"
    and "en_transfer_list (xw_engine w) = done @ t # rest" and "\<forall>d \<in> set done. \<not> xf_cyclic (xw_tfer w d)" and "t \<notin> set done"
    and "en_status (xw_engine (snd (engine_status_read io True False w))) = st" and "st AND XDMA_STAT_BUSY = 0"
    and "st AND (if en_dir (xw_engine w) = DMA_FROM_DEVICE then XDMA_STAT_C2H_ERR_MASK else XDMA_STAT_H2C_ERR_MASK) = 0"
    and "fst (engine_read io R_completed_desc_count (snd (engine_service_shutdown p io (snd (engine_status_read io True False w))))) = c"
    and "unat c = unat (en_desc_dequeued (xw_engine w)) + (\<Sum>d\<leftarrow>done. unat (xf_desc_num (xw_tfer w d))) + m"
    and "0 < m" and "m \<le> unat (xf_desc_num (xw_tfer w t))"
  shows "\<exists>w'. engine_service p io 0 w = (0, w') \<and>
    xw_tfer w' = (\<lambda>i. if i \<in> set done then (xw_tfer w i)\<lparr>xf_state := TRANSFER_STATE_COMPLETED\<rparr>
      else if i = t then (xw_tfer w t)\<lparr>xf_state := (if m = unat (xf_desc_num (xw_tfer w t)) then TRANSFER_STATE_COMPLETED else TRANSFER_STATE_FAILED),
                                       xf_desc_cmpl := of_nat m\<rparr>
      else xw_tfer w i) \<and>
    told (xw_events w') = told (xw_events w) @ concat (map (completion_events (xw_tfer w)) (done @ [t])) \<and>
    en_transfer_list (xw_engine w') = rest \<and> (en_running (xw_engine w') \<longleftrightarrow> rest \<noteq> []) \<and>
    io_steps io (xw_dev w) (xw_dev w') \<and>
    (rest = [] \<and> en_shutdown (xw_engine w) AND ENGINE_SHUTDOWN_REQUEST = 0 \<longrightarrow>
       (\<exists>dq. xw_engine w' = (xw_engine w)\<lparr>en_status := st, en_running := False, en_desc_dequeued := dq, en_transfer_list := []\<rparr>))"
proof -
  let ?en = "xw_engine w"
  note sr = engine_status_read_simps [of io True w]
  obtain w1 where e1: "engine_status_read io True False w = (0, w1)" using sr(1) by (metis prod.collapse)
  have "fst (engine_read io R_status_rc w) = st" using assms(7) unfolding sr(2) by simp
  then have w1: "engine_status_read io True False w = (0, w1)" "xw_engine w1 = ?en\<lparr>en_status := st\<rparr>" "xw_tfer w1 = xw_tfer w" "xw_events w1 = xw_events w"
    using sr(2-4) e1 by simp_all
  obtain w2 where w2: "engine_service_shutdown p io w1 = (0, w2)" "xw_engine w2 = ?en\<lparr>en_status := st, en_running := False\<rparr>" "xw_tfer w2 = xw_tfer w"
    "xw_events w2 = xw_events w @ [Wake_shutdown]"
    using engine_service_shutdown_simps [of p io w1] w1 by (cases "engine_service_shutdown p io w1") auto
  obtain w3 where w3: "engine_read io R_completed_desc_count w2 = (c, w3)" "xw_engine w3 = ?en\<lparr>en_status := st, en_running := False\<rparr>" "xw_tfer w3 = xw_tfer w"
    "xw_events w3 = xw_events w @ [Wake_shutdown]"
    using assms(10) engine_read_simps [of io R_completed_desc_count w2] unfolding w1(1) snd_conv w2 by (cases "engine_read io R_completed_desc_count w2") auto
  have c: "c \<noteq> 0" "unat (c - en_desc_dequeued ?en) = (\<Sum>d\<leftarrow>done. unat (xf_desc_num (xw_tfer w3 d))) + m"
    using assms(11,12) by (auto simp: unat_sub word_le_nat_alt w3(3))
  obtain w5 where w5: "engine_service_transfer_list (done @ t # rest) (c - en_desc_dequeued ?en) w3 = (Some t, of_nat m, w5)"
    "xw_engine w5 = (xw_engine w3)\<lparr>en_transfer_list := t # rest, en_desc_dequeued := en_desc_dequeued (xw_engine w3) + (\<Sum>d\<leftarrow>done. xf_desc_num (xw_tfer w3 d))\<rparr>"
    "xw_tfer w5 = (\<lambda>i. if i \<in> set done then (xw_tfer w i)\<lparr>xf_state := TRANSFER_STATE_COMPLETED\<rparr> else xw_tfer w i)"
    "xw_events w5 = xw_events w @ [Wake_shutdown] @ concat (map (completion_events (xw_tfer w)) done)" "xw_dev w5 = xw_dev w3"
    using service_list_spec [of w3 "done" t rest "c - en_desc_dequeued ?en" m] c(2) assms(4,5,12,13) w3(2-4) by (auto cong: if_cong)
  define w6 where "w6 = engine_service_final_transfer p io (Some t) (of_nat m) w5"
  have m: "unat (of_nat m :: u32) = m" using assms(13) unsigned_less [of "xf_desc_num (xw_tfer w t)", where ?'a = nat]
    by (simp add: unat_of_nat take_bit_nat_eq_self)
  have tf: "xw_tfer w5 t = xw_tfer w t" using assms(6) w5(3) by simp
  have ne: "\<not> engine_error (xw_engine w5)" using assms(9) by (simp add: engine_error_def w5(2) w3(2))
  have num: "of_nat m = xf_desc_num (xw_tfer w t) \<longleftrightarrow> m = unat (xf_desc_num (xw_tfer w t))" using m by auto
  have w6s: "xw_tfer w6 = (\<lambda>i. if i \<in> set done then (xw_tfer w i)\<lparr>xf_state := TRANSFER_STATE_COMPLETED\<rparr>
      else if i = t then (xw_tfer w t)\<lparr>xf_state := (if m = unat (xf_desc_num (xw_tfer w t)) then TRANSFER_STATE_COMPLETED else TRANSFER_STATE_FAILED),
                                       xf_desc_cmpl := of_nat m\<rparr> else xw_tfer w i)"
    "told (xw_events w6) = told (xw_events w) @ concat (map (completion_events (xw_tfer w)) (done @ [t]))"
    "en_transfer_list (xw_engine w6) = rest" "\<not> en_running (xw_engine w6)" "\<not> en_eop_flush (xw_engine w6)"
    using ne assms(2,6,13) m num
    by (auto simp: w6_def engine_service_final_transfer_def Let_def tf w5 w3 transfer_del_def word_less_nat_alt fun_eq_iff
        completion_events_def)
  obtain w7 where w7: "engine_service_resume p io w6 = (0, w7)" "xw_tfer w7 = xw_tfer w6" "told (xw_events w7) = told (xw_events w6)"
    "en_transfer_list (xw_engine w7) = rest" "en_running (xw_engine w7) \<longleftrightarrow> rest \<noteq> []"
    "rest = [] \<longrightarrow> (\<exists>sh. xw_engine w7 = (xw_engine w6)\<lparr>en_shutdown := sh\<rparr> \<and>
       (sh = en_shutdown (xw_engine w6) \<or> en_shutdown (xw_engine w6) AND ENGINE_SHUTDOWN_REQUEST \<noteq> 0))"
    using resume_spec [OF w6s(4), of p io] unfolding w6s(3) by metis
  have en6: "\<exists>dq. xw_engine w6 = ?en\<lparr>en_status := st, en_running := False, en_desc_dequeued := dq, en_transfer_list := rest\<rparr>"
    using ne assms(2) m by (auto simp: w6_def engine_service_final_transfer_def Let_def tf w5 w3 transfer_del_def)
  have "rest = [] \<and> en_shutdown ?en AND ENGINE_SHUTDOWN_REQUEST = 0 \<longrightarrow>
      (\<exists>dq. xw_engine w7 = ?en\<lparr>en_status := st, en_running := False, en_desc_dequeued := dq, en_transfer_list := []\<rparr>)"
    using en6 w7(6) by auto
  moreover have "io_steps io (xw_dev w) (xw_dev w7)"
  proof -
    have "io_steps io (xw_dev w) (xw_dev w1)" using steps_status_read [of io "xw_dev w" w True] w1(1) by simp
    then have "io_steps io (xw_dev w) (xw_dev w2)" using steps_service_shutdown [of io "xw_dev w" w1 p] w2(1) by simp
    then have "io_steps io (xw_dev w) (xw_dev w5)" using steps_engine_read [of io "xw_dev w" w2 R_completed_desc_count] w3(1) w5(5) by simp
    then have "io_steps io (xw_dev w) (xw_dev w6)" unfolding w6_def by (rule steps_final_transfer)
    then show ?thesis using steps_service_resume [of io "xw_dev w" w6 p] w7(1) by simp
  qed
  ultimately have extra: "io_steps io (xw_dev w) (xw_dev w7)" "rest = [] \<and> en_shutdown ?en AND ENGINE_SHUTDOWN_REQUEST = 0 \<longrightarrow>
      (\<exists>dq. xw_engine w7 = ?en\<lparr>en_status := st, en_running := False, en_desc_dequeued := dq, en_transfer_list := []\<rparr>)" by blast+
  have "engine_service p io 0 w = (0, w7)"
    using assms(1-4,8) w1(1,2) w2(1,2) w3(1,2) c(1) w5(1) w6s(5) w7(1)
    by (simp add: engine_service_def Let_def engine_service_perf_def flip: w6_def)
  with w6s w7 extra show ?thesis by auto
qed

text \<open>
  C16: The service after a run of the engine completes what the hardware completed. Take an engine that the driver
  started and that does not write its count back to memory, without a flush at the end of packets (under which a partly counted transfer is not failed, and nothing is
  resumed) and without a performance test, whose registers say that it has stopped without an error, and let the
  descriptors they count since the last service be those of some transfers at the head of the queue, none of them
  cyclic, and one or more, up to all, of the next one. Then the transfers before that one are completed in the order of the
  queue, the next one is completed if all its descriptors are counted and fails otherwise, the waiters of each are
  woken once and its callback runs, all other transfers keep their state, and the engine runs again exactly if more
  transfers wait.
\<close>
theorem xdma_service_completes:
  assumes "en_running (xw_engine w)" and "\<not> en_eop_flush (xw_engine w)" and "en_xdma_perf (xw_engine w) = None"
    and "en_transfer_list (xw_engine w) = done @ t # rest" and "\<forall>d \<in> set done. \<not> xf_cyclic (xw_tfer w d)" and "t \<notin> set done"
    and "\<forall>s. fst (read_register io (en_regs (xw_engine w) + R_status_rc) s) = st" and "st AND XDMA_STAT_BUSY = 0"
    and "st AND (if en_dir (xw_engine w) = DMA_FROM_DEVICE then XDMA_STAT_C2H_ERR_MASK else XDMA_STAT_H2C_ERR_MASK) = 0"
    and "\<forall>s. fst (read_register io (en_regs (xw_engine w) + R_completed_desc_count) s) = c"
    and "unat c = unat (en_desc_dequeued (xw_engine w)) + (\<Sum>d\<leftarrow>done. unat (xf_desc_num (xw_tfer w d))) + m"
    and "0 < m" and "m \<le> unat (xf_desc_num (xw_tfer w t))"
  shows "\<exists>w'. engine_service p io 0 w = (0, w') \<and>
    xw_tfer w' = (\<lambda>i. if i \<in> set done then (xw_tfer w i)\<lparr>xf_state := TRANSFER_STATE_COMPLETED\<rparr>
      else if i = t then (xw_tfer w t)\<lparr>xf_state := (if m = unat (xf_desc_num (xw_tfer w t)) then TRANSFER_STATE_COMPLETED else TRANSFER_STATE_FAILED),
                                       xf_desc_cmpl := of_nat m\<rparr>
      else xw_tfer w i) \<and>
    told (xw_events w') = told (xw_events w) @ concat (map (completion_events (xw_tfer w)) (done @ [t])) \<and>
    en_transfer_list (xw_engine w') = rest \<and> (en_running (xw_engine w') \<longleftrightarrow> rest \<noteq> [])"
proof -
  have "fst (engine_status_read io True False w) = 0" by (simp add: engine_status_read_simps)
  moreover have "en_status (xw_engine (snd (engine_status_read io True False w))) = st"
    using assms(7) by (simp add: engine_status_read_simps engine_read_def case_prod_beta)
  moreover have "fst (engine_read io R_completed_desc_count (snd (engine_service_shutdown p io (snd (engine_status_read io True False w))))) = c"
    using assms(10) by (simp add: engine_status_read_simps engine_read_def case_prod_beta)
  ultimately show ?thesis
    using service_completes [OF assms(1-6) _ assms(8,9) _ assms(11-13)] by blast
qed

text \<open>A device whose registers say that the engine stopped and how many descriptors it completed.\<close>

definition count_io :: "u32 \<Rightarrow> unit xio" where
  "count_io c = \<lparr>read_register = (\<lambda>a s. (if a = R_status_rc then 6 else if a = R_completed_desc_count then c else 0, s)),
     write_register = (\<lambda>a v s. s)\<rparr>"

text \<open>Three transfers of two descriptors each, on a running engine.\<close>

definition busy_world :: "unit xworld" where
  "busy_world = \<lparr>xw_engine = demo_engine\<lparr>en_running := True, en_transfer_list := [0, 1, 2]\<rparr>,
     xw_tfer = (\<lambda>_. (new_transfer demo_engine)\<lparr>xf_desc_num := 2, xf_state := TRANSFER_STATE_SUBMITTED\<rparr>), xw_dev = (), xw_events = []\<rparr>"

definition demo_params :: xdma_params where
  "demo_params = \<lparr>poll_mode = False, enable_st_c2h_credit = False\<rparr>"

theorem xdma_service_completes_witness:
  "\<exists>w'. engine_service demo_params (count_io 4) 0 busy_world = (0, w') \<and> en_transfer_list (xw_engine w') = [2] \<and>
     en_running (xw_engine w') \<and> map (\<lambda>i. xf_state (xw_tfer w' i)) [0, 1, 2] =
       [TRANSFER_STATE_COMPLETED, TRANSFER_STATE_COMPLETED, TRANSFER_STATE_SUBMITTED] \<and>
     told (xw_events w') = [Wake_transfer 0, Wake_transfer 1]"
  using xdma_service_completes [of busy_world "[0]" 1 "[2]" "count_io 4" 6 4 2 demo_params]
  by (auto simp: busy_world_def demo_engine_def count_io_def new_transfer_def xdma_regs completion_events_def)

lemma eop_flush_list: "engine_service_transfer_list ts c w = (r, c', w') \<Longrightarrow> en_eop_flush (xw_engine w') = en_eop_flush (xw_engine w)"
  by (induction ts c w rule: engine_service_transfer_list.induct) (auto simp: Let_def split: if_splits)

lemma eop_flush_final [simp]:
  "en_eop_flush (xw_engine (engine_service_final_transfer p io r c w)) = en_eop_flush (xw_engine w)"
  by (auto simp: engine_service_final_transfer_def engine_err_handle_def transfer_del_def Let_def split: option.split)

lemma engine_service_perf_simps [simp]:
  "en_eop_flush (xw_engine (engine_service_perf c w)) = en_eop_flush (xw_engine w)"
  by (auto simp: engine_service_perf_def Let_def split: option.split)

text \<open>
  C29: No transfer waits on an idle engine: queueing a transfer keeps the engine running while its queue is not empty, and
  so does the service of an engine without end-of-packet flushing, except in exactly one case. When the hardware stopped
  before it completed any descriptor, the engine is stopped and the transfers stay queued.
\<close>
theorem xdma_queue_served:
  assumes "served w" and "\<not> en_eop_flush (xw_engine w)"
    and "\<forall>s. fst (read_register io (en_regs (xw_engine w) + R_status_rc) s) = st"
    and "\<forall>s. fst (read_register io (en_regs (xw_engine w) + R_completed_desc_count) s) = c"
  shows "served (snd (transfer_queue p io offline t w)) \<and>
    (served (snd (engine_service p io 0 w)) \<longleftrightarrow> c \<noteq> 0 \<or> st AND XDMA_STAT_BUSY \<noteq> 0 \<or> en_transfer_list (xw_engine w) = [])"
proof (cases "en_running (xw_engine w)")
  case False
  then have "en_transfer_list (xw_engine w) = []" using assms(1) by (auto simp: served_def)
  with False show ?thesis
    using transfer_queue_served [OF assms(1)]
    by (simp add: engine_service_def Let_def case_prod_beta engine_status_read_simps served_def)
next
  case run: True
  let ?en = "xw_engine w"
  obtain w1 where w1: "engine_status_read io True False w = (0, w1)" "xw_engine w1 = ?en\<lparr>en_status := st\<rparr>"
    using assms(3) engine_status_read_simps [of io True w] by (cases "engine_status_read io True False w") (auto simp: engine_read_def case_prod_beta)
  define w2 where "w2 = (if st AND XDMA_STAT_BUSY = 0 then snd (engine_service_shutdown p io w1) else w1)"
  have w2: "xw_engine w2 = ?en\<lparr>en_status := st, en_running := (st AND XDMA_STAT_BUSY \<noteq> 0)\<rparr>"
    using w1 run by (auto simp: w2_def)
  obtain w3 where w3: "engine_read io R_completed_desc_count w2 = (c, w3)" "xw_engine w3 = xw_engine w2"
    using assms(4) w2 engine_read_simps [of io R_completed_desc_count w2] by (cases "engine_read io R_completed_desc_count w2") (auto simp: engine_read_def case_prod_beta)
  define w4 where "w4 = (if en_transfer_list (xw_engine w3) \<noteq> [] then engine_service_perf c w3 else w3)"
  obtain transfer c5 w5 where w5: "engine_service_transfer_list (en_transfer_list (xw_engine w3)) (c - en_desc_dequeued (xw_engine w4)) w4 = (transfer, c5, w5)"
    by (metis prod_cases3)
  define w6 where "w6 = engine_service_final_transfer p io transfer c5 w5"
  have e: "\<not> en_eop_flush (xw_engine w6)"
    using eop_flush_list [OF w5] assms(2) by (auto simp: w6_def w4_def w3(2) w2)
  have sd: "(if st AND XDMA_STAT_BUSY = 0 then engine_service_shutdown p io w1 else (0, w1)) = (0, w2)"
    using engine_service_shutdown_simps(1) [of p io w1] by (auto simp: w2_def prod_eq_iff)
  have "snd (engine_service p io 0 w) = (if c = 0 then w3 else snd (engine_service_resume p io w6))"
    using e eop_flush_final [of p io transfer c5 w5] unfolding engine_service_def Let_def
    by (simp add: run w1 sd w3(1) w5 flip: w4_def w6_def)
  then have "served (snd (engine_service p io 0 w)) \<longleftrightarrow> c \<noteq> 0 \<or> st AND XDMA_STAT_BUSY \<noteq> 0 \<or> en_transfer_list (xw_engine w) = []"
    using engine_service_resume_served [of p io w6] by (auto simp: served_def w3(2) w2)
  then show ?thesis using transfer_queue_served [OF assms(1)] by blast
qed

text \<open>Queueing keeps the engine running, and the service leaves it idle when nothing was completed.\<close>

theorem xdma_queue_served_witness:
  "served (snd (transfer_queue demo_params (count_io 0) False 3 busy_world)) \<and>
   \<not> served (snd (engine_service demo_params (count_io 0) 0 busy_world))"
  using xdma_queue_served [of busy_world "count_io 0" 6 0 demo_params False 3]
  by (simp add: served_def busy_world_def demo_engine_def count_io_def xdma_regs)

end
