(* ===== verification/Xdma_Submit.thy ===== *)
theory Xdma_Submit
  imports Xdma_Engine
begin

section \<open>Submitting a request to an XDMA engine (libxdma.c)\<close>

text \<open>
  \<open>xdma_xfer_submit\<close> maps the memory, cuts the request, and runs one transfer after the other: it sets the transfer up,
  queues it, and waits. What happens while it waits, the hardware and the interrupt service, is a function of the state
  that the definitions take as an argument. The lock of the descriptor ring keeps other requests out.
\<close>

unbundle bit_operations_syntax

definition ENOMEM :: int where [xdma_consts]: "ENOMEM = 12"
definition ERESTARTSYS :: int where [xdma_consts]: "ERESTARTSYS = 512"

text \<open>The device as far as a submission asks: whether the handle is known, whether it is offline, its channels.\<close>

record xdma_dev =
  xd_known :: bool
  xd_offline :: bool
  xd_h2c_channel_max :: nat
  xd_c2h_channel_max :: nat

definition transfer_destroy :: "nat \<Rightarrow> bool \<Rightarrow> 's xworld \<Rightarrow> bool \<times> 's xworld" where
  "transfer_destroy t mapped w =
     (let x = xw_tfer w t;
          w1 = set_engine (\<lambda>en. en\<lparr>en_desc := xdma_desc_done (xf_desc_virt x) (unat (xf_desc_num x)) (en_desc en)\<rparr>) w
      in if xf_last_in_request x \<and> xf_flags x AND XFER_FLAG_NEED_UNMAP \<noteq> 0 \<and> mapped then (False, notify_event Unmap_sg w1)
         else (mapped, w1))"

definition xfer_bytes :: "xdma_engine \<Rightarrow> xdma_transfer \<Rightarrow> int" where
  "xfer_bytes en x =
     (if st_c2h en then (\<Sum>i\<leftarrow>[0..<unat (xf_desc_cmpl x)]. uint (r_length (en_cyclic_result en ! (xf_res_virt x + i))))
      else uint (xf_len x))"

text \<open>What the driver finds when it wakes: the status, the descriptors left, the bytes done.\<close>

definition xfer_outcome :: "xdma_params \<Rightarrow> 's xio \<Rightarrow> nat \<Rightarrow> u32 \<Rightarrow> int \<Rightarrow> 's xworld \<Rightarrow> int \<times> u32 \<times> int \<times> 's xworld" where
  "xfer_outcome p io t nents done w =
     (let x = xw_tfer w t; en = xw_engine w
      in case xf_state x of
           TRANSFER_STATE_COMPLETED \<Rightarrow> (0, if st_c2h en \<and> en_eop_flush en then 0 else nents, done + xfer_bytes en x, w)
         | TRANSFER_STATE_FAILED \<Rightarrow> (- EIO, nents, done, w)
         | _ \<Rightarrow>
             (- ERESTARTSYS, nents, done,
               let (rv, wa) = engine_status_read io False True w
               in if rv < 0 then wa
                  else (let (rv, wb) = transfer_abort t wa in if rv < 0 then wb else snd (xdma_engine_stop p io wb))))"

text \<open>
  One round of the loop: the status, the request, the descriptors left, whether the memory is still mapped, and the bytes
  done. A transfer that could not be queued ends the round early.
\<close>

definition xfer_round :: "xdma_params \<Rightarrow> 's xio \<Rightarrow> (nat \<Rightarrow> 's xworld \<Rightarrow> 's xworld) \<Rightarrow> bool \<Rightarrow> bool \<Rightarrow> nat \<Rightarrow>
    xdma_request_cb \<times> u32 \<times> bool \<times> int \<times> 's xworld \<Rightarrow> int \<times> xdma_request_cb \<times> u32 \<times> bool \<times> int \<times> 's xworld" where
  "xfer_round p io wait offline dma_mapped t = (\<lambda>(rq, nents, mapped, done, w).
     (let (en, rq1, x) = transfer_init (xw_engine w) rq;
          x1 = (if dma_mapped then x else x\<lparr>xf_flags := XFER_FLAG_NEED_UNMAP\<rparr>);
          nents1 = nents - xf_desc_num x1;
          x2 = (if nents1 = 0 then x1\<lparr>xf_last_in_request := True\<rparr> else x1);
          (rv, w1) = transfer_queue p io offline t (set_tfer t (\<lambda>_. x2) (set_engine (\<lambda>_. en) w))
      in if rv < 0 then (rv, rq1, nents1, mapped, done, w1)
         else
           (let (rv2, nents2, done2, w3) = xfer_outcome p io t nents1 done (wait t w1);
                w4 = set_engine (\<lambda>en. en\<lparr>en_desc_used := en_desc_used en - xf_desc_num (xw_tfer w3 t)\<rparr>) w3;
                (mapped', w5) = transfer_destroy t mapped w4
            in (rv2, rq1, nents2, mapped', done2, w5))))"

partial_function (option) xfer_loop :: "xdma_params \<Rightarrow> 's xio \<Rightarrow> (nat \<Rightarrow> 's xworld \<Rightarrow> 's xworld) \<Rightarrow> bool \<Rightarrow> bool \<Rightarrow> nat \<Rightarrow>
    xdma_request_cb \<Rightarrow> u32 \<Rightarrow> bool \<Rightarrow> int \<Rightarrow> 's xworld \<Rightarrow> (int \<times> bool \<times> int \<times> 's xworld) option" where
  "xfer_loop p io wait offline dma_mapped t rq nents mapped done w =
     (if nents = 0 then Some (0, mapped, done, w)
      else case xfer_round p io wait offline dma_mapped t (rq, nents, mapped, done, w) of
        (rv, rq', nents', mapped', done', w') \<Rightarrow>
          if rv < 0 then Some (rv, mapped', done', w')
          else xfer_loop p io wait offline dma_mapped t rq' nents' mapped' done' w')"

definition xfer_finish :: "bool \<Rightarrow> int \<times> bool \<times> int \<times> 's xworld \<Rightarrow> int \<times> 's xworld" where
  "xfer_finish dma_mapped = (\<lambda>(rv, mapped, done, w).
     (if done \<noteq> 0 then done else rv, if \<not> dma_mapped \<and> mapped then notify_event Unmap_sg w else w))"

text \<open>
  \<open>map_sg\<close> is the DMA mapping of the kernel: what it makes of the list, nothing when it fails. A mapping that succeeds
  is recorded, as releasing it is.
\<close>

definition xdma_xfer_submit :: "xdma_params \<Rightarrow> 's xio \<Rightarrow> (nat \<Rightarrow> 's xworld \<Rightarrow> 's xworld) \<Rightarrow> (sg_list \<Rightarrow> sg_list) \<Rightarrow> u32 \<Rightarrow> bool \<Rightarrow>
    xdma_dev \<Rightarrow> nat \<Rightarrow> bool \<Rightarrow> u64 \<Rightarrow> sg_list \<Rightarrow> bool \<Rightarrow> nat \<Rightarrow> 's xworld \<Rightarrow> (int \<times> 's xworld) option" where
  "xdma_xfer_submit p io wait map_sg desc_blen_max mem xdev channel write ep_addr sgt dma_mapped t w =
     (let en = xw_engine w; dir = (if write then DMA_TO_DEVICE else DMA_FROM_DEVICE)
      in if \<not> xd_known xdev then Some (- EINVAL, w)
         else if (if write then xd_h2c_channel_max xdev else xd_c2h_channel_max xdev) \<le> channel then Some (- EINVAL, w)
         else if en_magic en \<noteq> MAGIC_ENGINE then Some (- EINVAL, w)
         else if xd_offline xdev then Some (- EBUSY, w)
         else if en_dir en \<noteq> dir then Some (- EINVAL, w)
         else (let sg = (if dma_mapped then sgt else map_sg sgt)
               in if sg = [] then Some (- EIO, w)
                  else (let w = (if dma_mapped then w else notify_event Map_sg w)
                        in Option.bind (xdma_init_request desc_blen_max mem sg ep_addr) (\<lambda>req.
                             case req of
                               None \<Rightarrow> Some (xfer_finish dma_mapped (- ENOMEM, True, 0, w))
                             | Some rq \<Rightarrow>
                                 Option.bind (xfer_loop p io wait (xd_offline xdev) dma_mapped t rq (rq_sw_desc_cnt rq) True 0 w)
                                   (\<lambda>r. Some (xfer_finish dma_mapped r))))))"

end
