(* ===== verification/Xdma_Moves.thy ===== *)
theory Xdma_Moves
  imports Xdma_Submit
begin

section \<open>What a submission moves\<close>

text \<open>
  The hardware of the engine as a contract, and the composition of the driver with it: a transfer runs to its end, rounds
  follow each other, and a request moves the bytes it names.
\<close>

subsection \<open>Rounds\<close>

text \<open>An engine between transfers.\<close>

definition engine_idle :: "u32 \<Rightarrow> xdma_engine \<Rightarrow> bool" where
  "engine_idle regs en \<longleftrightarrow> engine_ok en \<and> \<not> en_running en \<and> en_transfer_list en = [] \<and> \<not> en_eop_flush en \<and>
     \<not> st_c2h en \<and> en_xdma_perf en = None \<and> en_regs en = regs \<and> en_magic en = MAGIC_ENGINE \<and>
     en_shutdown en AND ENGINE_SHUTDOWN_REQUEST = 0"

lemma ring_at_cong: "en_desc en' = en_desc en \<Longrightarrow> en_desc_bus en' = en_desc_bus en \<Longrightarrow> ring_at en' = ring_at en"
  by (rule ext) (simp add: ring_at_def Let_def)

lemma length_desc_done [simp]: "length (xdma_desc_done v n ds) = length ds"
  unfolding xdma_desc_done_def by (induction n) simp_all

text \<open>What the driver waits for: the hardware runs, and then its interrupt is served.\<close>

definition irq_wait :: "xdma_params \<Rightarrow> 's xio \<Rightarrow> bool \<Rightarrow> ((u64 \<Rightarrow> xdma_desc option) \<Rightarrow> 's \<Rightarrow> 's) \<Rightarrow> nat \<Rightarrow>
    's xworld \<Rightarrow> 's xworld" where
  "irq_wait p io msix run t w = engine_service_work p io msix (w\<lparr>xw_dev := run (ring_at (xw_engine w)) (xw_dev w)\<rparr>)"

lemma engine_service_work_simps:
  assumes "engine_service p io 0 w = (0, w')" and "en_magic (xw_engine w) = MAGIC_ENGINE"
  shows "xw_engine (engine_service_work p io msix w) = xw_engine w'" "xw_tfer (engine_service_work p io msix w) = xw_tfer w'"
    and "xw_events (engine_service_work p io msix w) = xw_events w'"
    and "io_steps io s (xw_dev w') \<Longrightarrow> io_steps io s (xw_dev (engine_service_work p io msix w))"
  using assms by (auto simp: engine_service_work_def channel_interrupts_enable_def intro!: xw_steps io_write)

lemma transfer_destroy_simps [simp]:
  "xw_engine (snd (transfer_destroy t m w)) = (xw_engine w)\<lparr>en_desc := xdma_desc_done (xf_desc_virt (xw_tfer w t))
     (unat (xf_desc_num (xw_tfer w t))) (en_desc (xw_engine w))\<rparr>"
  "xw_dev (snd (transfer_destroy t m w)) = xw_dev w"
  by (simp_all add: transfer_destroy_def Let_def)

lemma engine_ok_cong:
  "length (en_desc en') = length (en_desc en) \<Longrightarrow> en_desc_max en' = en_desc_max en \<Longrightarrow> en_desc_idx en' = en_desc_idx en \<Longrightarrow>
   en_desc_bus en' = en_desc_bus en \<Longrightarrow> engine_ok en' = engine_ok en"
  by (simp add: engine_ok_def)

subsection \<open>The engine hardware\<close>

text \<open>
  The FPGA's DMA engine is a parameter. The contract names the documented behaviour that the driver relies on: reading a
  register returns the status or the count and moves no data, writing the start registers and the control register sets
  what the engine will do, and a running engine fetches the chain of descriptors, moves the data of each, and stops.
\<close>

locale xdma_hardware =
  fixes io :: "'s xio" and regs :: u32 and run :: "(u64 \<Rightarrow> xdma_desc option) \<Rightarrow> 's \<Rightarrow> 's"
    and first :: "'s \<Rightarrow> u32 \<times> u32 \<times> u32" and running :: "'s \<Rightarrow> bool" and status count :: "'s \<Rightarrow> u32"
    and moved :: "'s \<Rightarrow> (u64 \<times> u64 \<times> u32) list"
  assumes read_first: "first (snd (read_register io a s)) = first s"
    and read_running: "running (snd (read_register io a s)) = running s"
    and read_count: "count (snd (read_register io a s)) = count s"
    and read_moved: "moved (snd (read_register io a s)) = moved s"
    and status_rc: "fst (read_register io (regs + R_status_rc) s) = status s"
    and completed_count: "fst (read_register io (regs + R_completed_desc_count) s) = count s"
    and write_moved: "moved (write_register io a v s) = moved s"
    and write_first: "first (write_register io a v s) =
      (if a = regs + (SGDMA_OFFSET_FROM_CHANNEL + R_first_desc_hi) then v else fst (first s),
       if a = regs + (SGDMA_OFFSET_FROM_CHANNEL + R_first_desc_lo) then v else fst (snd (first s)),
       if a = regs + (SGDMA_OFFSET_FROM_CHANNEL + R_first_desc_adjacent) then v else snd (snd (first s)))"
    and write_control: "running (write_register io (regs + R_control) v s) \<longleftrightarrow> v AND XDMA_CTRL_RUN_STOP \<noteq> 0"
    and stop_keeps_count: "v AND XDMA_CTRL_RUN_STOP = 0 \<Longrightarrow> count (write_register io (regs + R_control) v s) = count s"
    and run_moves: "running s \<Longrightarrow> first s = (hi, lo, adj) \<Longrightarrow> fetch_chain mem n (addr_of hi lo) adj = Some blocks \<Longrightarrow>
      n < 2 ^ 32 \<Longrightarrow> moved (run mem s) = moved s @ map desc_move (concat (map snd blocks)) \<and>
      status (run mem s) = XDMA_STAT_DESC_STOPPED OR XDMA_STAT_DESC_COMPLETED \<and>
      count (run mem s) = of_nat (length (concat (map snd blocks)))"
begin

lemma steps_moved: "io_steps io s s' \<Longrightarrow> moved s' = moved s"
  by (rule io_steps_keep [where io = io]) (simp_all add: read_moved write_moved)

lemma run_bit: "(XDMA_CTRL_RUN_STOP OR v) AND XDMA_CTRL_RUN_STOP \<noteq> 0"
proof -
  have "bit ((XDMA_CTRL_RUN_STOP OR v) AND XDMA_CTRL_RUN_STOP) 0"
    by (simp add: XDMA_CTRL_RUN_STOP_def bit_simps)
  then show ?thesis by (metis bit_0_eq bot_apply bot_bool_def)
qed

text \<open>Starting the engine tells the hardware the first descriptor of the transfer and how many may be fetched with it.\<close>

lemma engine_start_ready:
  fixes p
  assumes "\<not> en_running (xw_engine w)" and "en_transfer_list (xw_engine w) = t # ts" and "en_regs (xw_engine w) = regs"
  defines "s \<equiv> xw_dev (snd (engine_start p io w))" and "x \<equiv> xw_tfer w t"
  shows "running s" and "moved s = moved (xw_dev w)"
    and "first s = (PCI_DMA_H (xf_desc_bus x), PCI_DMA_L (xf_desc_bus x),
      xdma_get_next_adj (xf_desc_adjacent x) (PCI_DMA_L (xf_desc_bus x)))"
proof -
  show "moved s = moved (xw_dev w)" unfolding s_def by (intro steps_moved steps_engine_start) simp
  show "running s"
    using assms(1-3) run_bit
    by (simp add: s_def engine_start_def Let_def case_prod_beta engine_status_read_def engine_read_def read_running
        engine_start_mode_config_def engine_write_def write_control engine_status_read_simps or.assoc)
  show "first s = (PCI_DMA_H (xf_desc_bus x), PCI_DMA_L (xf_desc_bus x),
      xdma_get_next_adj (xf_desc_adjacent x) (PCI_DMA_L (xf_desc_bus x)))"
    using assms(1-3)
    by (simp add: s_def x_def engine_start_def Let_def case_prod_beta engine_status_read_def engine_read_def read_first
        engine_start_mode_config_def engine_write_def write_first engine_status_read_simps xdma_regs)
qed

lemma stopped_count:
  assumes "en_regs (xw_engine w) = regs" and "\<not> st_c2h (xw_engine w)"
  shows "en_status (xw_engine (snd (engine_status_read io True False w))) = status (xw_dev w)"
    and "fst (engine_read io R_completed_desc_count (snd (engine_service_shutdown p io (snd (engine_status_read io True False w))))) =
      count (xw_dev w)"
proof -
  show "en_status (xw_engine (snd (engine_status_read io True False w))) = status (xw_dev w)"
    using assms(1) by (simp add: engine_status_read_simps engine_read_def case_prod_beta status_rc)
  have v: "(XDMA_CTRL_IE_DESC_ALIGN_MISMATCH OR XDMA_CTRL_IE_MAGIC_STOPPED OR XDMA_CTRL_IE_READ_ERROR OR XDMA_CTRL_IE_DESC_ERROR OR
      (if poll_mode p then XDMA_CTRL_POLL_MODE_WB else XDMA_CTRL_IE_DESC_STOPPED OR XDMA_CTRL_IE_DESC_COMPLETED)) AND XDMA_CTRL_RUN_STOP = 0"
    by (simp add: xdma_regs)
  show "fst (engine_read io R_completed_desc_count (snd (engine_service_shutdown p io (snd (engine_status_read io True False w))))) =
      count (xw_dev w)"
    using assms stop_keeps_count [OF v]
    by (auto simp: engine_service_shutdown_def xdma_engine_stop_def Let_def case_prod_beta engine_status_read_simps engine_read_def
        engine_write_def completed_count read_count engine_status_read_def st_c2h_def)
qed

text \<open>A queued transfer runs to its end: its data is moved, it is completed, and the engine is at rest again.\<close>

lemma transfer_runs:
  fixes p :: xdma_params and msix :: bool and w :: "'s xworld" and t :: nat
  defines "en \<equiv> xw_engine w" and "x \<equiv> xw_tfer w t"
  assumes a: "\<not> en_running en" "en_transfer_list en = []" "\<not> en_eop_flush en" "\<not> st_c2h en" "en_xdma_perf en = None"
    "en_regs en = regs" "en_magic en = MAGIC_ENGINE" "en_shutdown en AND ENGINE_SHUTDOWN_REQUEST = 0"
      "xf_desc_num x \<noteq> 0"
    and chain: "fetch_chain (ring_at en) f (xf_desc_bus x) (xdma_get_next_adj (xf_desc_adjacent x) (PCI_DMA_L (xf_desc_bus x))) = Some blocks"
      "f < 2 ^ 32" "length (concat (map snd blocks)) = unat (xf_desc_num x)"
  shows "\<exists>w1 w2 st dq. transfer_queue p io False t w = (0, w1) \<and> irq_wait p io msix run t w1 = w2 \<and>
    xw_tfer w2 t = x\<lparr>xf_state := TRANSFER_STATE_COMPLETED, xf_desc_cmpl := xf_desc_num x\<rparr> \<and>
    xw_engine w2 = en\<lparr>en_status := st, en_shutdown := ENGINE_SHUTDOWN_NONE, en_desc_dequeued := dq\<rparr> \<and>
    moved (xw_dev w2) = moved (xw_dev w) @ map desc_move (concat (map snd blocks))"
proof -
  define w0 where "w0 = set_engine (\<lambda>en. en\<lparr>en_transfer_list := [t]\<rparr>) (set_tfer t (\<lambda>x. x\<lparr>xf_state := TRANSFER_STATE_SUBMITTED\<rparr>) w)"
  have w0: "\<not> en_running (xw_engine w0)" "en_transfer_list (xw_engine w0) = [t]" "en_regs (xw_engine w0) = regs"
    "xw_tfer w0 t = x\<lparr>xf_state := TRANSFER_STATE_SUBMITTED\<rparr>" "xw_dev w0 = xw_dev w"
    using a(1,2,6) by (simp_all add: w0_def en_def x_def)
  obtain st w1 where w1: "engine_start p io w0 = (Some t, w1)" "xw_tfer w1 = xw_tfer w0"
    "xw_engine w1 = (xw_engine w0)\<lparr>en_shutdown := ENGINE_SHUTDOWN_NONE, en_desc_dequeued := 0, en_status := st, en_running := True\<rparr>"
    using engine_start_runs [OF w0(1,2)] by blast
  have q: "transfer_queue p io False t w = (0, w1)"
  proof -
    have "(\<lambda>en. en\<lparr>en_transfer_list := en_transfer_list en @ [t]\<rparr>) (xw_engine w) = (xw_engine w)\<lparr>en_transfer_list := [t]\<rparr>"
      using a(2) by (simp add: en_def)
    then have "set_engine (\<lambda>en. en\<lparr>en_transfer_list := en_transfer_list en @ [t]\<rparr>) (set_tfer t (\<lambda>x. x\<lparr>xf_state := TRANSFER_STATE_SUBMITTED\<rparr>) w) = w0"
      by (simp add: w0_def set_engine_def set_tfer_def)
    then show ?thesis
      using a(8,9) w0(1) w1(1) unfolding transfer_queue_def Let_def by (simp add: en_def x_def)
  qed
  note ready = engine_start_ready [where p = p, OF w0(1-3), unfolded w1(1) snd_conv w0(4,5), simplified]
  define s where "s = run (ring_at (xw_engine w1)) (xw_dev w1)"
  have ring: "ring_at (xw_engine w1) = ring_at en" by (rule ring_at_cong) (simp_all add: w1(3) w0_def en_def)
  have s: "moved s = moved (xw_dev w) @ map desc_move (concat (map snd blocks))"
    "status s = XDMA_STAT_DESC_STOPPED OR XDMA_STAT_DESC_COMPLETED" "count s = xf_desc_num x"
    using run_moves [OF ready(1,3), of "ring_at en" f blocks] chain ready(2) by (simp_all add: s_def ring)
  define w1' where "w1' = w1\<lparr>xw_dev := s\<rparr>"
  have e: "xw_engine w1' = xw_engine w1" "xw_tfer w1' = xw_tfer w0" "xw_dev w1' = s" by (simp_all add: w1'_def w1(2))
  have st: "en_status (xw_engine (snd (engine_status_read io True False w1'))) = XDMA_STAT_DESC_STOPPED OR XDMA_STAT_DESC_COMPLETED"
    "fst (engine_read io R_completed_desc_count (snd (engine_service_shutdown p io (snd (engine_status_read io True False w1'))))) = xf_desc_num x"
  proof -
    have "en_regs (xw_engine w1') = regs" "\<not> st_c2h (xw_engine w1')" using a(4,6) by (simp_all add: e w1(3) w0_def en_def st_c2h_def)
    note c = stopped_count(1) [OF this] stopped_count(2) [where p = p, OF this]
    show "en_status (xw_engine (snd (engine_status_read io True False w1'))) = XDMA_STAT_DESC_STOPPED OR XDMA_STAT_DESC_COMPLETED"
      by (rule trans [OF c(1)]) (simp only: e(3) s(2))
    show "fst (engine_read io R_completed_desc_count (snd (engine_service_shutdown p io (snd (engine_status_read io True False w1'))))) = xf_desc_num x"
      by (rule trans [OF c(2)]) (simp only: e(3) s(3))
  qed
  have "\<exists>w'. engine_service p io 0 w1' = (0, w') \<and> xw_tfer w' t = x\<lparr>xf_state := TRANSFER_STATE_COMPLETED, xf_desc_cmpl := xf_desc_num x\<rparr> \<and>
    io_steps io s (xw_dev w') \<and> (\<exists>dq. xw_engine w' = (xw_engine w1)\<lparr>en_status := XDMA_STAT_DESC_STOPPED OR XDMA_STAT_DESC_COMPLETED,
      en_running := False, en_desc_dequeued := dq, en_transfer_list := []\<rparr>)"
  proof -
    have h1: "en_running (xw_engine w1')" "\<not> en_eop_flush (xw_engine w1')" "en_xdma_perf (xw_engine w1') = None"
      "en_transfer_list (xw_engine w1') = [] @ t # []"
      using a(3,5) by (simp_all add: e w1(3) w0_def en_def)
    have h2: "(XDMA_STAT_DESC_STOPPED OR XDMA_STAT_DESC_COMPLETED) AND XDMA_STAT_BUSY = 0"
      "(XDMA_STAT_DESC_STOPPED OR XDMA_STAT_DESC_COMPLETED) AND
        (if en_dir (xw_engine w1') = DMA_FROM_DEVICE then XDMA_STAT_C2H_ERR_MASK else XDMA_STAT_H2C_ERR_MASK) = 0"
      by (simp_all add: xdma_regs)
    have h3: "unat (xf_desc_num x) = unat (en_desc_dequeued (xw_engine w1')) + (\<Sum>d\<leftarrow>[]. unat (xf_desc_num (xw_tfer w1' d))) + unat (xf_desc_num x)"
      "0 < unat (xf_desc_num x)" "unat (xf_desc_num x) \<le> unat (xf_desc_num (xw_tfer w1' t))" "en_shutdown (xw_engine w1') AND ENGINE_SHUTDOWN_REQUEST = 0"
      using a(9) by (simp_all add: e w1(3) w0(4) unat_gt_0 ENGINE_SHUTDOWN_NONE_def)
    show ?thesis
    proof (rule exE [OF service_completes [OF h1 _ _ st(1) h2 st(2) h3(1-3)]], goal_cases)
      case (3 w')
      note r = 3 [THEN conjunct1] 3 [THEN conjunct2]
      have t: "xw_tfer w' t = x\<lparr>xf_state := TRANSFER_STATE_COMPLETED, xf_desc_cmpl := xf_desc_num x\<rparr>"
        unfolding r(2) [THEN conjunct1] by (simp add: e w0(4))
      have rest1: "io_steps io (xw_dev w1') (xw_dev w')"
        using r(2) by (elim conjE)
      have rest2: "\<exists>dq. xw_engine w' = (xw_engine w1')\<lparr>en_status := XDMA_STAT_DESC_STOPPED OR XDMA_STAT_DESC_COMPLETED,
            en_running := False, en_desc_dequeued := dq, en_transfer_list := []\<rparr>"
        using r(2) h3(4) by (elim conjE) (drule mp, rule conjI [OF refl], assumption+)
      show ?case
        using r(1) t rest1 rest2 unfolding e by blast
    qed simp_all
  qed
  then obtain w2 dq where w2: "engine_service p io 0 w1' = (0, w2)" "xw_tfer w2 t = x\<lparr>xf_state := TRANSFER_STATE_COMPLETED, xf_desc_cmpl := xf_desc_num x\<rparr>"
    "io_steps io s (xw_dev w2)" "xw_engine w2 = (xw_engine w1)\<lparr>en_status := XDMA_STAT_DESC_STOPPED OR XDMA_STAT_DESC_COMPLETED,
      en_running := False, en_desc_dequeued := dq, en_transfer_list := []\<rparr>" by blast
  have "en_magic (xw_engine w1') = MAGIC_ENGINE" using a(7) by (simp add: e w1(3) w0_def en_def)
  note work = engine_service_work_simps [where msix = msix, OF w2(1) this]
  have wait: "irq_wait p io msix run t w1 = engine_service_work p io msix w1'" by (simp add: irq_wait_def w1'_def s_def)
  have "moved (xw_dev (engine_service_work p io msix w1')) = moved s" using steps_moved work(4) [OF w2(3)] by blast
  moreover have "xw_engine w2 = en\<lparr>en_status := XDMA_STAT_DESC_STOPPED OR XDMA_STAT_DESC_COMPLETED,
      en_shutdown := ENGINE_SHUTDOWN_NONE, en_desc_dequeued := dq\<rparr>"
    using a(1,2) by (simp add: w2(4) w1(3) w0_def en_def)
  ultimately show ?thesis
    using q wait work(1,2) w2(2) s(1) by (intro exI) auto
qed

text \<open>One round runs one transfer: its data is moved, and the engine is at rest again.\<close>

lemma xfer_round_moves:
  fixes p :: xdma_params and msix dma_mapped mapped :: bool and w :: "'s xworld" and t :: nat
  assumes idle: "engine_idle regs (xw_engine w)" and rq: "request_ok rq" and nents: "nents = rq_sw_desc_cnt rq - rq_sw_desc_idx rq"
    and small: "(\<Sum>sd\<leftarrow>drop (unat (rq_sw_desc_idx rq)) (rq_sdesc rq). unat (sd_len sd)) < 2 ^ 32"
  defines "en \<equiv> xw_engine w"
  defines "n \<equiv> unat (transfer_max en rq)"
  defines "sds \<equiv> take n (drop (unat (rq_sw_desc_idx rq)) (rq_sdesc rq))"
  shows "\<exists>rq' mapped' w'. xfer_round p io (irq_wait p io msix run) False dma_mapped t (rq, nents, mapped, d, w) =
      (0, rq', rq_sw_desc_cnt rq' - rq_sw_desc_idx rq', mapped', d + (\<Sum>sd\<leftarrow>sds. int (unat (sd_len sd))), w') \<and>
    engine_idle regs (xw_engine w') \<and> en_non_incr_addr (xw_engine w') = en_non_incr_addr en \<and> en_dir (xw_engine w') = en_dir en \<and>
    rq_sdesc rq' = rq_sdesc rq \<and> rq_sw_desc_cnt rq' = rq_sw_desc_cnt rq \<and>
    unat (rq_sw_desc_idx rq') = unat (rq_sw_desc_idx rq) + n \<and> 0 < n \<and>
    rq_ep_addr rq' = ep_after (en_non_incr_addr en) (rq_ep_addr rq) sds \<and>
    moved (xw_dev w') = moved (xw_dev w) @ moves (en_non_incr_addr en) (en_dir en) (rq_ep_addr rq) sds"
proof -
  have ok: "engine_ok en" "\<not> (en_streaming en \<and> en_dir en = DMA_FROM_DEVICE)" "\<not> en_running en" "en_transfer_list en = []"
    "\<not> en_eop_flush en" "en_xdma_perf en = None" "en_regs en = regs" "en_magic en = MAGIC_ENGINE" "en_shutdown en AND ENGINE_SHUTDOWN_REQUEST = 0"
    using idle by (simp_all add: engine_idle_def en_def st_c2h_def)
  obtain en1 rq' x where ti: "transfer_init en rq = (en1, rq', x)" by (metis prod_cases3)
  note s = transfer_init_spec [OF ok(1) rq ti, folded n_def]
  note ex = transfer_executes [OF ok(1) rq ti, unfolded transfer_moves_def if_not_P [OF ok(2)]]
  have num: "unat (xf_desc_num x) = n" using s(1,11) by (simp add: unat_of_nat take_bit_nat_eq_self)
  have nn: "n = unat (transfer_max en rq)" by (simp add: n_def en_def)
  have sds: "take (unat (xf_desc_num x)) (drop (unat (rq_sw_desc_idx rq)) (rq_sdesc rq)) = sds" by (simp add: num sds_def)
  define x2 where "x2 = (let x1 = (if dma_mapped then x else x\<lparr>xf_flags := XFER_FLAG_NEED_UNMAP\<rparr>)
      in if nents - xf_desc_num x1 = 0 then x1\<lparr>xf_last_in_request := True\<rparr> else x1)"
  have x2: "xf_desc_num x2 = xf_desc_num x" "xf_desc_bus x2 = xf_desc_bus x" "xf_desc_adjacent x2 = xf_desc_adjacent x" "xf_len x2 = xf_len x"
    by (simp_all add: x2_def Let_def)
  note x2' = x2_def [unfolded Let_def, symmetric]
  define w0 where "w0 = set_tfer t (\<lambda>_. x2) (set_engine (\<lambda>_. en1) w)"
  have w0: "xw_engine w0 = en1" "xw_tfer w0 t = x2" "xw_dev w0 = xw_dev w" by (simp_all add: w0_def)
  obtain blocks where b: "fetch_chain (ring_at en1) n (xf_desc_bus x) (xdma_get_next_adj (xf_desc_adjacent x) (PCI_DMA_L (xf_desc_bus x))) = Some blocks"
    "map desc_move (concat (map snd blocks)) = moves (en_non_incr_addr en) (en_dir en) (rq_ep_addr rq) sds"
    using ex(1) unfolding sds unfolding num by blast
  have len: "length sds = n" using ex(3) unfolding sds unfolding num .
  have bl: "length (concat (map snd blocks)) = unat (xf_desc_num x)" using arg_cong [OF b(2), of length] len num by simp
  have "\<exists>w1 w2 st dq. transfer_queue p io False t w0 = (0, w1) \<and> irq_wait p io msix run t w1 = w2 \<and>
    xw_tfer w2 t = (xw_tfer w0 t)\<lparr>xf_state := TRANSFER_STATE_COMPLETED, xf_desc_cmpl := xf_desc_num (xw_tfer w0 t)\<rparr> \<and>
    xw_engine w2 = (xw_engine w0)\<lparr>en_status := st, en_shutdown := ENGINE_SHUTDOWN_NONE, en_desc_dequeued := dq\<rparr> \<and>
    moved (xw_dev w2) = moved (xw_dev w0) @ map desc_move (concat (map snd blocks))"
    by (rule transfer_runs) (use ok s(7) s(8) num b(1) bl s(11) in \<open>auto simp: w0 x2 st_c2h_def\<close>)
  then obtain w1 w2 st dq where q: "transfer_queue p io False t w0 = (0, w1)" "irq_wait p io msix run t w1 = w2"
    "xw_tfer w2 t = x2\<lparr>xf_state := TRANSFER_STATE_COMPLETED, xf_desc_cmpl := xf_desc_num x\<rparr>"
    "xw_engine w2 = en1\<lparr>en_status := st, en_shutdown := ENGINE_SHUTDOWN_NONE, en_desc_dequeued := dq\<rparr>"
    "moved (xw_dev w2) = moved (xw_dev w) @ moves (en_non_incr_addr en) (en_dir en) (rq_ep_addr rq) sds"
    unfolding w0 x2 b(2) by blast
  have en2: "engine_idle regs ((xw_engine w2)\<lparr>en_desc_used := u, en_desc := xdma_desc_done v m ds\<rparr>)" if "length ds = length (en_desc en1)" for u v m ds
  proof -
    have "engine_ok ((xw_engine w2)\<lparr>en_desc_used := u, en_desc := xdma_desc_done v m ds\<rparr>)"
      using ex(7) that engine_ok_cong [of "(xw_engine w2)\<lparr>en_desc_used := u, en_desc := xdma_desc_done v m ds\<rparr>" en1] by (simp add: q(4))
    then show ?thesis using ok by (simp add: engine_idle_def q(4) s(7) st_c2h_def ENGINE_SHUTDOWN_NONE_def)
  qed
  have c2h: "\<not> st_c2h (xw_engine w2)" using ok(2) by (simp add: q(4) s(7) st_c2h_def)
  have "(\<Sum>sd\<leftarrow>sds. unat (sd_len sd)) \<le> (\<Sum>sd\<leftarrow>drop (unat (rq_sw_desc_idx rq)) (rq_sdesc rq). unat (sd_len sd))"
    using append_take_drop_id [of n "drop (unat (rq_sw_desc_idx rq)) (rq_sdesc rq)"]
    by (metis le_add1 map_append sds_def sum_list_append)
  then have u: "unat (\<Sum>sd\<leftarrow>sds. sd_len sd) = (\<Sum>sd\<leftarrow>sds. unat (sd_len sd))" using small by (intro unat_sum_list) simp
  have "uint (xf_len x) = int (unat (\<Sum>sd\<leftarrow>sds. sd_len sd))" using s(5) by (simp flip: sds_def)
  then have bytes: "uint (xf_len x) = (\<Sum>sd\<leftarrow>sds. int (unat (sd_len sd)))" by (simp only: u int_sum_list)
  define w4 where "w4 = set_engine (\<lambda>en. en\<lparr>en_desc_used := en_desc_used en - xf_desc_num x\<rparr>) w2"
  define wF where "wF = snd (transfer_destroy t mapped w4)"
  have "xfer_round p io (irq_wait p io msix run) False dma_mapped t (rq, nents, mapped, d, w) =
      (0, rq', nents - xf_desc_num x, fst (transfer_destroy t mapped w4), d + uint (xf_len x), wF)"
    unfolding xfer_round_def prod.case Let_def ti [unfolded en_def] unfolding x2' w0_def [symmetric] q(1) prod.case
    using c2h by (simp add: xfer_outcome_def Let_def q(2,3) x2 xfer_bytes_def case_prod_beta wF_def flip: w4_def)
  moreover have "nents - xf_desc_num x = rq_sw_desc_cnt rq' - rq_sw_desc_idx rq'"
    using nents s(1,6) by (simp add: diff_diff_eq)
  moreover have "engine_idle regs (xw_engine wF)"
    using en2 [OF refl, where u = "en_desc_used en1 - xf_desc_num x" and v = "xf_desc_virt (xw_tfer w2 t)"
      and m = "unat (xf_desc_num (xw_tfer w2 t))"]
    by (simp add: wF_def w4_def q(4))
  moreover have "en_non_incr_addr (xw_engine wF) = en_non_incr_addr en" "en_dir (xw_engine wF) = en_dir en"
    by (simp_all add: wF_def w4_def q(4) s(7))
  moreover have "moved (xw_dev wF) = moved (xw_dev w) @ moves (en_non_incr_addr en) (en_dir en) (rq_ep_addr rq) sds"
    by (simp add: wF_def w4_def q(5))
  moreover have "unat (rq_sw_desc_idx rq') = unat (rq_sw_desc_idx rq) + n" "rq_ep_addr rq' = ep_after (en_non_incr_addr en) (rq_ep_addr rq) sds"
    using ex(5,6) len unfolding sds by simp_all
  moreover have "rq_sdesc rq' = rq_sdesc rq" "rq_sw_desc_cnt rq' = rq_sw_desc_cnt rq" using s(6) by simp_all
  ultimately show ?thesis using s(8) bytes by auto
qed

lemma xfer_loop_moves:
  fixes p :: xdma_params and msix dma_mapped mapped :: bool and w :: "'s xworld" and t :: nat and d :: int
  assumes "engine_idle regs (xw_engine w)" and "unat (rq_sw_desc_cnt rq) = length (rq_sdesc rq)"
    and "rq_sw_desc_idx rq \<le> rq_sw_desc_cnt rq" and "nents = rq_sw_desc_cnt rq - rq_sw_desc_idx rq"
    and "(\<Sum>sd\<leftarrow>drop (unat (rq_sw_desc_idx rq)) (rq_sdesc rq). unat (sd_len sd)) < 2 ^ 32"
  shows "\<exists>mapped' w'. xfer_loop p io (irq_wait p io msix run) False dma_mapped t rq nents mapped d w =
      Some (0, mapped', d + (\<Sum>sd\<leftarrow>drop (unat (rq_sw_desc_idx rq)) (rq_sdesc rq). int (unat (sd_len sd))), w') \<and>
    engine_idle regs (xw_engine w') \<and>
    moved (xw_dev w') = moved (xw_dev w) @ moves (en_non_incr_addr (xw_engine w)) (en_dir (xw_engine w)) (rq_ep_addr rq)
      (drop (unat (rq_sw_desc_idx rq)) (rq_sdesc rq))"
  using assms
proof (induction "length (rq_sdesc rq) - unat (rq_sw_desc_idx rq)" arbitrary: rq nents mapped d w rule: less_induct)
  case less
  let ?c = "rq_sw_desc_cnt rq" and ?i = "unat (rq_sw_desc_idx rq)"
  show ?case
  proof (cases "nents = 0")
    case True
    then have "?c = rq_sw_desc_idx rq" using less.prems(4) by simp
    then show ?thesis using True less.prems(1,2) by (subst xfer_loop.simps) simp
  next
    case False
    then have lt: "rq_sw_desc_idx rq < ?c" using less.prems(3,4) by auto
    then have ok: "request_ok rq" using less.prems(2) by (simp add: request_ok_def)
    let ?en = "xw_engine w"
    define n where "n = unat (transfer_max ?en rq)"
    define sds where "sds = take n (drop ?i (rq_sdesc rq))"
    obtain rq' mapped' w' where r: "xfer_round p io (irq_wait p io msix run) False dma_mapped t (rq, nents, mapped, d, w) =
        (0, rq', rq_sw_desc_cnt rq' - rq_sw_desc_idx rq', mapped', d + (\<Sum>sd\<leftarrow>sds. int (unat (sd_len sd))), w')"
      "engine_idle regs (xw_engine w')" "en_non_incr_addr (xw_engine w') = en_non_incr_addr ?en" "en_dir (xw_engine w') = en_dir ?en"
      "rq_sdesc rq' = rq_sdesc rq" "rq_sw_desc_cnt rq' = ?c" "unat (rq_sw_desc_idx rq') = ?i + n" "0 < n"
      "rq_ep_addr rq' = ep_after (en_non_incr_addr ?en) (rq_ep_addr rq) sds"
      "moved (xw_dev w') = moved (xw_dev w) @ moves (en_non_incr_addr ?en) (en_dir ?en) (rq_ep_addr rq) sds"
      using xfer_round_moves [OF less.prems(1) ok less.prems(4,5), of p msix dma_mapped t mapped d]
      unfolding n_def [symmetric] sds_def [symmetric] by metis
    have split: "drop ?i (rq_sdesc rq) = sds @ drop (?i + n) (rq_sdesc rq)"
      unfolding sds_def by (simp add: add.commute flip: drop_drop)
    have il: "?i + n \<le> length (rq_sdesc rq)"
    proof -
      have "engine_ok ?en" using less.prems(1) by (simp add: engine_idle_def)
      from transfer_max_nat [OF this ok] show ?thesis using lt less.prems(2) by (simp add: n_def word_less_nat_alt)
    qed
    have "\<exists>mapped'' w''. xfer_loop p io (irq_wait p io msix run) False dma_mapped t rq' (rq_sw_desc_cnt rq' - rq_sw_desc_idx rq') mapped'
        (d + (\<Sum>sd\<leftarrow>sds. int (unat (sd_len sd)))) w' =
        Some (0, mapped'', d + (\<Sum>sd\<leftarrow>sds. int (unat (sd_len sd))) +
          (\<Sum>sd\<leftarrow>drop (unat (rq_sw_desc_idx rq')) (rq_sdesc rq'). int (unat (sd_len sd))), w'') \<and>
      engine_idle regs (xw_engine w'') \<and>
      moved (xw_dev w'') = moved (xw_dev w') @ moves (en_non_incr_addr (xw_engine w')) (en_dir (xw_engine w')) (rq_ep_addr rq')
        (drop (unat (rq_sw_desc_idx rq')) (rq_sdesc rq'))"
      by (rule less.hyps) (use r lt il less.prems(2,5) split in \<open>auto simp: word_less_nat_alt word_le_nat_alt\<close>)
    then obtain mapped'' w'' where s: "xfer_loop p io (irq_wait p io msix run) False dma_mapped t rq' (rq_sw_desc_cnt rq' - rq_sw_desc_idx rq') mapped'
        (d + (\<Sum>sd\<leftarrow>sds. int (unat (sd_len sd)))) w' =
        Some (0, mapped'', d + (\<Sum>sd\<leftarrow>sds. int (unat (sd_len sd))) + (\<Sum>sd\<leftarrow>drop (?i + n) (rq_sdesc rq). int (unat (sd_len sd))), w'')"
      "engine_idle regs (xw_engine w'')"
      "moved (xw_dev w'') = moved (xw_dev w') @ moves (en_non_incr_addr ?en) (en_dir ?en)
        (ep_after (en_non_incr_addr ?en) (rq_ep_addr rq) sds) (drop (?i + n) (rq_sdesc rq))"
      unfolding r(3-7,9) by blast
    have "xfer_loop p io (irq_wait p io msix run) False dma_mapped t rq nents mapped d w = Some (0, mapped'',
        d + (\<Sum>sd\<leftarrow>drop ?i (rq_sdesc rq). int (unat (sd_len sd))), w'')"
      using False s(1) by (subst xfer_loop.simps) (simp add: r(1) split add.assoc)
    moreover have "moved (xw_dev w'') = moved (xw_dev w) @ moves (en_non_incr_addr ?en) (en_dir ?en) (rq_ep_addr rq) (drop ?i (rq_sdesc rq))"
      unfolding split s(3) r(10) moves_append by simp
    ultimately show ?thesis using s(2) by blast
  qed
qed

end

subsection \<open>Requests\<close>

text \<open>The bytes a move carries, as pairs of the memory address and the end point address.\<close>

fun move_bytes :: "bool \<Rightarrow> dma_data_direction \<Rightarrow> u64 \<times> u64 \<times> u32 \<Rightarrow> (u64 \<times> u64) list" where
  "move_bytes fixed dir (src, dst, len) =
     map (\<lambda>i. (case dir of
         DMA_TO_DEVICE \<Rightarrow> (src + of_nat i, if fixed then dst else dst + of_nat i)
       | DMA_FROM_DEVICE \<Rightarrow> (dst + of_nat i, if fixed then src else src + of_nat i))) [0..<unat len]"

definition ep_bytes :: "bool \<Rightarrow> u64 \<Rightarrow> nat \<Rightarrow> u64 list" where
  "ep_bytes fixed ep n = map (\<lambda>i. if fixed then ep else ep + of_nat i) [0..<n]"

lemma ep_bytes_append:
  "ep_bytes fixed ep (unat m + n) = ep_bytes fixed ep (unat (m :: u32)) @ ep_bytes fixed (if fixed then ep else ep + ucast m) n"
proof -
  have "[0..<unat m + n] = [0..<unat m] @ map (\<lambda>i. i + unat m) [0..<n]"
    using upt_add_eq_append [of 0 "unat m" n] map_add_upt [of "unat m" n] by (simp add: add.commute)
  moreover have "(of_nat (unat m) :: u64) = ucast m" by simp
  ultimately show ?thesis by (simp add: ep_bytes_def ac_simps)
qed

lemma length_ep_bytes [simp]: "length (ep_bytes fixed ep n) = n"
  by (simp add: ep_bytes_def)

lemma move_bytes_zip:
  "move_bytes fixed dir (if dir = DMA_TO_DEVICE then (a, ep, len) else (ep, a, len)) = zip (block_bytes a len) (ep_bytes fixed ep (unat len))"
  by (cases dir) (simp_all add: block_bytes_def ep_bytes_def zip_maps)

lemma bytes_of_moves:
  "concat (map (move_bytes fixed dir) (moves fixed dir ep sds)) = zip (sw_bytes sds) (ep_bytes fixed ep (length (sw_bytes sds)))"
proof (induction sds arbitrary: ep)
  case (Cons sd sds)
  have "moves fixed dir ep (sd # sds) = (if dir = DMA_TO_DEVICE then (sd_addr sd, ep, sd_len sd) else (ep, sd_addr sd, sd_len sd)) #
     moves fixed dir (if fixed then ep else ep + ucast (sd_len sd)) sds" by simp
  then show ?case
    using Cons [of "if fixed then ep else ep + ucast (sd_len sd)"]
    by (simp only: list.map concat.simps move_bytes_zip) (simp add: sw_bytes_def ep_bytes_append)
qed (simp add: sw_bytes_def)

lemma length_sw_bytes: "length (sw_bytes sds) = (\<Sum>sd\<leftarrow>sds. unat (sd_len sd))"
  by (induction sds) (simp_all add: sw_bytes_def)

text \<open>
  C5: A request moves exactly the bytes it names. Let the hardware keep its contract, the device be known and online
  with the channel asked for, and its engine be at rest: of the right direction, its ring at an aligned address, not a
  stream from the card (which
  returns the lengths of what it received), with an empty queue, and neither a flush at the end of a packet, nor a
  performance test, nor a shutdown under way. Let the limit for the length of a descriptor be
  positive, the mapped list not be empty, its total be below \<open>2 ^
  32\<close> bytes, each block at least one descriptor length short of that, and the number of descriptors below
  \<open>2 ^ 31\<close>, and let there be memory for the request. Then a submission returns the number of bytes of the
  memory it was given, and the moves that the hardware made meanwhile are those of that memory, byte by byte and in
  order: the byte at position \<open>i\<close> goes to or comes from the end point address plus \<open>i\<close>, or
  the same end point address throughout when the engine does not increment. However many transfers the ring needs for
  it, none is lost or repeated, and the engine is at rest again.
\<close>
theorem xdma_submit_moves:
  assumes "xdma_hardware io regs run first running status count moved" and "engine_idle regs (xw_engine w)"
    and "xd_known xdev" and "channel < (if to_device then xd_h2c_channel_max xdev else xd_c2h_channel_max xdev)" and "\<not> xd_offline xdev"
    and "en_dir (xw_engine w) = (if to_device then DMA_TO_DEVICE else DMA_FROM_DEVICE)"
    and "sg = (if dma_mapped then sgt else map_sg sgt)" and "sg \<noteq> []" and "blen \<noteq> 0"
    and "\<forall>(a, len) \<in> set sg. unat len + unat blen \<le> 2 ^ 32" and "length sg + (\<Sum>(a, len)\<leftarrow>sg. pieces blen len) < 2 ^ 31"
    and "length (sg_bytes sg) < 2 ^ 32"
  shows "\<exists>w' ms. xdma_xfer_submit p io (irq_wait p io msix run) map_sg blen True xdev channel to_device ep sgt dma_mapped t w =
      Some (int (length (sg_bytes sg)), w') \<and>
    moved (xw_dev w') = moved (xw_dev w) @ ms \<and>
    concat (map (move_bytes (en_non_incr_addr (xw_engine w)) (en_dir (xw_engine w))) ms) =
      zip (sg_bytes sg) (ep_bytes (en_non_incr_addr (xw_engine w)) ep (length (sg_bytes sg))) \<and>
    engine_idle regs (xw_engine w')"
proof -
  obtain rq where rq: "xdma_init_request blen True sg ep = Some (Some rq)" "rq_ep_addr rq = ep" "rq_sw_desc_idx rq = 0"
    "sw_bytes (rq_sdesc rq) = sg_bytes sg" "unat (rq_sw_desc_cnt rq) = length (rq_sdesc rq)"
    using request_covers [OF assms(9-11)] by blast
  have sum: "(\<Sum>sd\<leftarrow>drop (unat (rq_sw_desc_idx rq)) (rq_sdesc rq). unat (sd_len sd)) = length (sg_bytes sg)"
    by (simp add: rq(3) length_sw_bytes flip: rq(4))
  define w0 where "w0 = (if dma_mapped then w else notify_event Map_sg w)"
  have w0: "xw_engine w0 = xw_engine w" "xw_dev w0 = xw_dev w" by (simp_all add: w0_def)
  have idle: "engine_idle regs (xw_engine w0)" using assms(2) by (simp add: w0)
  obtain mapped' w' where l: "xfer_loop p io (irq_wait p io msix run) False dma_mapped t rq (rq_sw_desc_cnt rq) True 0 w0 =
      Some (0, mapped', 0 + (\<Sum>sd\<leftarrow>drop (unat (rq_sw_desc_idx rq)) (rq_sdesc rq). int (unat (sd_len sd))), w')"
    "engine_idle regs (xw_engine w')" "moved (xw_dev w') = moved (xw_dev w) @
      moves (en_non_incr_addr (xw_engine w)) (en_dir (xw_engine w)) (rq_ep_addr rq) (drop (unat (rq_sw_desc_idx rq)) (rq_sdesc rq))"
    using xdma_hardware.xfer_loop_moves [OF assms(1) idle rq(5), of "rq_sw_desc_cnt rq" p msix dma_mapped t True 0] assms(12) sum rq(3)
    by (auto simp: w0)
  have l1: "xfer_loop p io (irq_wait p io msix run) False dma_mapped t rq (rq_sw_desc_cnt rq) True 0 w0 =
      Some (0, mapped', int (length (sg_bytes sg)), w')"
    using l(1) unfolding int_sum_list sum by simp
  let ?w = "snd (xfer_finish dma_mapped (0, mapped', int (length (sg_bytes sg)), w'))"
  have fin: "fst (xfer_finish dma_mapped (0, mapped', int (length (sg_bytes sg)), w')) = int (length (sg_bytes sg))"
    "xw_engine ?w = xw_engine w'" "xw_dev ?w = xw_dev w'"
    by (simp_all add: xfer_finish_def)
  have "xdma_xfer_submit p io (irq_wait p io msix run) map_sg blen True xdev channel to_device ep sgt dma_mapped t w =
      Some (int (length (sg_bytes sg)), ?w)"
    using assms(3-6,8) assms(2) l1 rq(1) fin(1)
    by (simp add: xdma_xfer_submit_def Let_def engine_idle_def prod_eq_iff flip: assms(7) w0_def)
  then show ?thesis
    using l(2,3) bytes_of_moves [of "en_non_incr_addr (xw_engine w)" "en_dir (xw_engine w)" ep "rq_sdesc rq"]
    by (intro exI [of _ ?w] exI [of _ "moves (en_non_incr_addr (xw_engine w)) (en_dir (xw_engine w)) ep (rq_sdesc rq)"] conjI)
      (simp_all add: fin rq)
qed

text \<open>
  An engine that keeps the contract: a file of registers, beside the status, the count, and the moves it made. It
  fetches up to four thousand million blocks.
\<close>

record xdma_sim =
  sim_regs :: "u32 \<Rightarrow> u32"
  sim_status :: u32
  sim_count :: u32
  sim_moved :: "(u64 \<times> u64 \<times> u32) list"

definition sim_xio :: "xdma_sim xio" where
  "sim_xio = \<lparr>read_register = (\<lambda>a s. if a = R_status_rc then (sim_status s, s\<lparr>sim_status := 0\<rparr>)
       else (if a = R_status then sim_status s else if a = R_completed_desc_count then sim_count s else sim_regs s a, s)),
     write_register = (\<lambda>a v s. s\<lparr>sim_regs := (sim_regs s)(a := v)\<rparr>)\<rparr>"

definition sim_first :: "xdma_sim \<Rightarrow> u32 \<times> u32 \<times> u32" where
  "sim_first s = (sim_regs s (SGDMA_OFFSET_FROM_CHANNEL + R_first_desc_hi), sim_regs s (SGDMA_OFFSET_FROM_CHANNEL + R_first_desc_lo),
     sim_regs s (SGDMA_OFFSET_FROM_CHANNEL + R_first_desc_adjacent))"

definition sim_running :: "xdma_sim \<Rightarrow> bool" where
  "sim_running s \<longleftrightarrow> sim_regs s R_control AND XDMA_CTRL_RUN_STOP \<noteq> 0"

definition sim_run :: "(u64 \<Rightarrow> xdma_desc option) \<Rightarrow> xdma_sim \<Rightarrow> xdma_sim" where
  "sim_run mem s =
     (case sim_first s of (hi, lo, adj) \<Rightarrow>
        (case fetch_chain mem (2 ^ 32) (addr_of hi lo) adj of
           None \<Rightarrow> s
         | Some blocks \<Rightarrow> s\<lparr>sim_status := XDMA_STAT_DESC_STOPPED OR XDMA_STAT_DESC_COMPLETED,
             sim_count := of_nat (length (concat (map snd blocks))),
             sim_moved := sim_moved s @ map desc_move (concat (map snd blocks))\<rparr>))"

lemma fetch_chain_mono:
  "fetch_chain mem n a adj = Some bs \<Longrightarrow> n \<le> m \<Longrightarrow> fetch_chain mem m a adj = Some bs"
proof (induction n arbitrary: m a adj bs)
  case (Suc n)
  then obtain k where k: "m = Suc k" "n \<le> k" by (cases m) auto
  show ?case
    using Suc.prems(1) Suc.IH [OF _ k(2)] unfolding k(1) fetch_chain.simps
    by (auto split: option.splits if_splits simp del: upt_Suc)
qed simp

interpretation xsim: xdma_hardware sim_xio 0 sim_run sim_first sim_running sim_status sim_count sim_moved
proof (unfold_locales, goal_cases)
  case (11 s hi lo adj mem n blocks)
  then have "fetch_chain mem (2 ^ 32) (addr_of hi lo) adj = Some blocks"
    by (intro fetch_chain_mono [OF 11(3)] less_imp_le)
  then show ?case unfolding sim_run_def 11(2) prod.case by simp
qed (simp_all add: sim_xio_def sim_first_def sim_running_def xdma_regs)

definition demo_world :: "xdma_sim xworld" where
  "demo_world = \<lparr>xw_engine = demo_engine, xw_tfer = (\<lambda>_. new_transfer demo_engine),
     xw_dev = \<lparr>sim_regs = (\<lambda>_. 0), sim_status = 0, sim_count = 0, sim_moved = []\<rparr>, xw_events = []\<rparr>"

definition demo_dev :: xdma_dev where
  "demo_dev = \<lparr>xd_known = True, xd_offline = False, xd_h2c_channel_max = 1, xd_c2h_channel_max = 0\<rparr>"

lemma demo_idle: "engine_idle 0 (xw_engine demo_world)"
  using demo_engine_ok by (simp add: engine_idle_def demo_world_def) (simp add: demo_engine_def st_c2h_def)

lemmas demo_defs = demo_world_def demo_engine_def demo_dev_def

text \<open>Four descriptors, of which the ring takes three and then one.\<close>

theorem xdma_submit_moves_witness:
  "\<exists>w' ms. xdma_xfer_submit demo_params sim_xio
      (irq_wait demo_params sim_xio True sim_run) (\<lambda>sg. sg) 16 True demo_dev 0 True 0x80
      [(0x9000, 40), (0xA000, 16)] False 0 demo_world = Some (56, w') \<and>
    sim_moved (xw_dev w') = ms \<and>
    concat (map (move_bytes False DMA_TO_DEVICE) ms) =
      zip (sg_bytes [(0x9000, 40), (0xA000, 16)]) (ep_bytes False 0x80 56)"
proof -
  have len: "length (sg_bytes [(0x9000, 40), (0xA000, 16)]) = 56" by (simp add: sg_bytes_def)
  have w: "xd_known demo_dev" "0 < xd_h2c_channel_max demo_dev" "\<not> xd_offline demo_dev" "en_dir (xw_engine demo_world) = DMA_TO_DEVICE"
    "en_non_incr_addr (xw_engine demo_world) = False" "sim_moved (xw_dev demo_world) = []"
    by (simp_all add: demo_defs)
  show ?thesis
    using xdma_submit_moves [OF xsim.xdma_hardware_axioms demo_idle w(1), of 0 True "[(0x9000, 40), (0xA000, 16)]" False
        "[(0x9000, 40), (0xA000, 16)]" "\<lambda>sg. sg" 16 demo_params True "0x80" 0]
    unfolding len w by (simp add: w(2,3) pieces_def) blast
qed

end
