(* ===== verification/Xdma_Returns.thy ===== *)
theory Xdma_Returns
  imports Xdma_Moves
begin

section \<open>Every submission ends\<close>

text \<open>
  A submission whatever the hardware does while the driver waits: it returns, and gives the memory back once.
\<close>

subsection \<open>Requests that end otherwise\<close>

text \<open>The place of an engine in its ring, which no operation but the set-up of a transfer changes.\<close>

definition ring_place :: "xdma_engine \<Rightarrow> nat \<times> u32 \<times> u32 \<times> u64" where
  "ring_place en = (length (en_desc en), en_desc_max en, en_desc_idx en, en_desc_bus en)"

definition mappings :: "'s xworld \<Rightarrow> xdma_event list" where
  "mappings w = filter (\<lambda>e. e = Map_sg \<or> e = Unmap_sg) (xw_events w)"

text \<open>What is still to come when the memory is mapped, or no longer.\<close>

abbreviation release :: "bool \<Rightarrow> xdma_event list" where
  "release mapped \<equiv> (if mapped then [Unmap_sg] else [])"

definition wait_ok :: "(nat \<Rightarrow> 's xworld \<Rightarrow> 's xworld) \<Rightarrow> bool" where
  "wait_ok wait \<longleftrightarrow> (\<forall>t w. ring_place (xw_engine (wait t w)) = ring_place (xw_engine w) \<and> mappings (wait t w) = mappings w \<and>
     xf_flags (xw_tfer (wait t w) t) AND XFER_FLAG_NEED_UNMAP = xf_flags (xw_tfer w t) AND XFER_FLAG_NEED_UNMAP)"

lemma engine_ok_place: "ring_place en' = ring_place en \<Longrightarrow> engine_ok en' = engine_ok en"
  by (rule engine_ok_cong) (simp_all add: ring_place_def)

lemma mappings_simps [simp]:
  "mappings (set_engine f w) = mappings w" "mappings (set_tfer t g w) = mappings w"
  "mappings (notify_event e w) = mappings w @ (if e = Map_sg \<or> e = Unmap_sg then [e] else [])"
  "mappings (snd (engine_read io off w)) = mappings w" "mappings (engine_write io off v w) = mappings w"
  "mappings (snd (xdma_engine_stop p io w)) = mappings w"
  by (simp_all add: mappings_def)

lemma ring_place_simps [simp]:
  "ring_place (en\<lparr>en_running := r\<rparr>) = ring_place en" "ring_place (en\<lparr>en_status := s\<rparr>) = ring_place en"
  "ring_place (en\<lparr>en_transfer_list := q\<rparr>) = ring_place en" "ring_place (en\<lparr>en_desc_used := u\<rparr>) = ring_place en"
  "ring_place (en\<lparr>en_desc := xdma_desc_done v n (en_desc en)\<rparr>) = ring_place en"
  by (simp_all add: ring_place_def)

lemma engine_reg_dump_keeps [simp]:
  "xw_engine (snd (engine_reg_dump io w)) = xw_engine w" "xw_tfer (snd (engine_reg_dump io w)) = xw_tfer w"
  "xw_events (snd (engine_reg_dump io w)) = xw_events w"
  by (simp_all add: engine_reg_dump_def Let_def case_prod_beta)

lemma engine_status_read_keeps [simp]:
  "ring_place (xw_engine (snd (engine_status_read io c dump w))) = ring_place (xw_engine w)"
  "xw_tfer (snd (engine_status_read io c dump w)) = xw_tfer w" "mappings (snd (engine_status_read io c dump w)) = mappings w"
  by (simp_all add: engine_status_read_def Let_def case_prod_beta mappings_def)

lemma transfer_abort_keeps [simp]:
  "ring_place (xw_engine (snd (transfer_abort t w))) = ring_place (xw_engine w)" "mappings (snd (transfer_abort t w)) = mappings w"
  "xf_flags (xw_tfer (snd (transfer_abort t w)) t) = xf_flags (xw_tfer w t)"
  by (auto simp: transfer_abort_def Let_def split: list.split)

lemma engine_start_keeps [simp]:
  "ring_place (xw_engine (snd (engine_start p io w))) = ring_place (xw_engine w)" "mappings (snd (engine_start p io w)) = mappings w"
  "xw_tfer (snd (engine_start p io w)) = xw_tfer w"
proof -
  have "ring_place (xw_engine (snd (engine_start p io w))) = ring_place (xw_engine w) \<and> mappings (snd (engine_start p io w)) = mappings w \<and>
     xw_tfer (snd (engine_start p io w)) = xw_tfer w"
  proof (cases "en_running (xw_engine w) \<or> en_transfer_list (xw_engine w) = []")
    case True
    then show ?thesis by (auto simp: engine_start_def)
  next
    case False
    then obtain t ts where "\<not> en_running (xw_engine w)" "en_transfer_list (xw_engine w) = t # ts" by (cases "en_transfer_list (xw_engine w)") auto
    from engine_start_runs [OF this, of p io] show ?thesis by (auto simp: ring_place_def mappings_def)
  qed
  then show "ring_place (xw_engine (snd (engine_start p io w))) = ring_place (xw_engine w)" "mappings (snd (engine_start p io w)) = mappings w"
    "xw_tfer (snd (engine_start p io w)) = xw_tfer w" by simp_all
qed

lemma transfer_queue_keeps [simp]:
  "ring_place (xw_engine (snd (transfer_queue p io off t w))) = ring_place (xw_engine w)"
  "mappings (snd (transfer_queue p io off t w)) = mappings w"
  "xf_flags (xw_tfer (snd (transfer_queue p io off t w)) t) = xf_flags (xw_tfer w t)"
  by (simp_all add: transfer_queue_def Let_def)

lemma build_step_keeps:
  "fold (build_step en sdesc x) js (ds, rs, ep, len) = (ds', rs', ep', len') \<Longrightarrow> length ds' = length ds"
proof (induction js arbitrary: ds rs ep len)
  case (Cons j js)
  then show ?case by (cases "build_step en sdesc x j (ds, rs, ep, len)") (auto simp: build_step_def Let_def)
qed simp

text \<open>The set-up of a transfer takes some of the descriptors that are left, whatever the engine.\<close>

lemma transfer_init_place:
  assumes "engine_ok en" and "request_ok rq" and "transfer_init en rq = (en', rq', x)"
  shows "engine_ok en'" and "xf_desc_num x = transfer_max en rq" and "xf_flags x = 0"
    and "rq' = rq\<lparr>rq_ep_addr := rq_ep_addr rq', rq_sw_desc_idx := rq_sw_desc_idx rq + transfer_max en rq\<rparr>"
proof -
  let ?en1 = "en\<lparr>en_desc := transfer_desc_init (xf_desc_virt (new_transfer en)) (xf_desc_bus (new_transfer en)) (unat (transfer_max en rq)) (en_desc en)\<rparr>"
  obtain en2 rq2 x2 where b: "transfer_build ?en1 rq (new_transfer en) (unat (transfer_max en rq)) = (en2, rq2, x2)"
    by (metis prod_cases3)
  obtain ds rs ep len where f: "fold (build_step ?en1 (drop (unat (rq_sw_desc_idx rq)) (rq_sdesc rq)) (new_transfer en)) [0..<unat (transfer_max en rq)]
      (en_desc ?en1, en_cyclic_result ?en1, rq_ep_addr rq, xf_len (new_transfer en)) = (ds, rs, ep, len)"
    by (metis prod_cases4)
  have p: "en2 = ?en1\<lparr>en_desc := ds, en_cyclic_result := rs\<rparr>" "rq2 = rq\<lparr>rq_ep_addr := ep, rq_sw_desc_idx := rq_sw_desc_idx rq + transfer_max en rq\<rparr>"
    "x2 = (new_transfer en)\<lparr>xf_len := len\<rparr>"
    using b unfolding transfer_build_def f by simp_all
  have l: "length ds = length (en_desc en)" using build_step_keeps [OF f] by simp
  have fl: "length (fold (\<lambda>i ds. ds[a + i := snd (xdma_desc_control_set c (ds ! (a + i)))]) js xs) = length xs" for a c js and xs :: "xdma_desc list"
    by (induction js arbitrary: xs) simp_all
  have i: "transfer_init en rq = (en', rq', x)" by fact
  have "length (en_desc en') = length (en_desc en) \<and> en_desc_max en' = en_desc_max en \<and> en_desc_bus en' = en_desc_bus en \<and>
      en_desc_idx en' = (en_desc_idx en + transfer_max en rq) mod en_desc_max en \<and> rq' = rq2 \<and> xf_desc_num x = transfer_max en rq \<and> xf_flags x = 0"
    using i unfolding transfer_init_def Let_def b prod.case
    by (auto simp: p l fl new_transfer_def set_adjacent_def)
  then show "engine_ok en'" "xf_desc_num x = transfer_max en rq" "xf_flags x = 0"
    "rq' = rq\<lparr>rq_ep_addr := rq_ep_addr rq', rq_sw_desc_idx := rq_sw_desc_idx rq + transfer_max en rq\<rparr>"
    using assms(1) p(2) by (auto simp: engine_ok_def word_less_nat_alt unat_mod)
qed

lemma transfer_destroy_keeps:
  assumes "transfer_destroy t m w = (m', w')"
  shows "ring_place (xw_engine w') = ring_place (xw_engine w)"
    and "mappings w' @ release m' = mappings w @ release m"
    and "xf_flags (xw_tfer w t) AND XFER_FLAG_NEED_UNMAP = 0 \<Longrightarrow> m' = m"
  using assms by (auto simp: transfer_destroy_def Let_def ring_place_def split: if_splits)

lemma xfer_outcome_keeps:
  assumes "xfer_outcome p io t nents d w = (rv, nents', d', w')"
  shows "ring_place (xw_engine w') = ring_place (xw_engine w)" and "mappings w' = mappings w"
    and "xf_flags (xw_tfer w' t) = xf_flags (xw_tfer w t)" and "nents' = nents \<or> nents' = 0"
  using assms by (auto simp: xfer_outcome_def Let_def case_prod_beta split: transfer_state.splits if_splits)

lemma xfer_round_keeps:
  assumes "engine_ok (xw_engine w)" and "request_ok rq" and "wait_ok wait"
    and "xfer_round p io wait off dma_mapped t (rq, nents, mapped, d, w) = (rv, rq', nents', mapped', d', w')"
  shows "engine_ok (xw_engine w')" and "mappings w' @ release mapped' = mappings w @ release mapped"
    and "dma_mapped \<Longrightarrow> mapped' = mapped"
    and "rq' = rq\<lparr>rq_ep_addr := rq_ep_addr rq', rq_sw_desc_idx := rq_sw_desc_idx rq + transfer_max (xw_engine w) rq\<rparr>"
    and "nents' = nents - transfer_max (xw_engine w) rq \<or> nents' = 0"
proof -
  obtain en rq1 x where ti: "transfer_init (xw_engine w) rq = (en, rq1, x)" by (metis prod_cases3)
  note pl = transfer_init_place [OF assms(1,2) ti]
  define x2 where "x2 = (let x1 = (if dma_mapped then x else x\<lparr>xf_flags := XFER_FLAG_NEED_UNMAP\<rparr>)
      in if nents - xf_desc_num x1 = 0 then x1\<lparr>xf_last_in_request := True\<rparr> else x1)"
  note x2' = x2_def [unfolded Let_def, symmetric]
  define w0 where "w0 = set_tfer t (\<lambda>_. x2) (set_engine (\<lambda>_. en) w)"
  have w0: "engine_ok (xw_engine w0)" "mappings w0 = mappings w" "dma_mapped \<Longrightarrow> xf_flags (xw_tfer w0 t) = 0"
    using pl(1,3) by (simp_all add: w0_def x2_def Let_def)
  obtain qv w1 where q: "transfer_queue p io off t w0 = (qv, w1)" by fastforce
  then have w1: "ring_place (xw_engine w1) = ring_place (xw_engine w0)" "mappings w1 = mappings w0"
    "xf_flags (xw_tfer w1 t) = xf_flags (xw_tfer w0 t)"
    using transfer_queue_keeps [of p io off t w0] by simp_all
  have n: "xf_desc_num (if dma_mapped then x else x\<lparr>xf_flags := XFER_FLAG_NEED_UNMAP\<rparr>) = transfer_max (xw_engine w) rq"
    using pl(2) by simp
  note round = assms(4) [unfolded xfer_round_def prod.case Let_def ti, unfolded x2', unfolded w0_def [symmetric] q prod.case n]
  have "engine_ok (xw_engine w') \<and> mappings w' @ release mapped' = mappings w @ release mapped \<and>
    (dma_mapped \<longrightarrow> mapped' = mapped) \<and> rq' = rq1 \<and> (nents' = nents - transfer_max (xw_engine w) rq \<or> nents' = 0)"
  proof (cases "qv < 0")
    case True
    then show ?thesis using round w0(1,2) w1 engine_ok_place [OF w1(1)] by auto
  next
    case False
    obtain rv2 n2 d2 w3 where o: "xfer_outcome p io t (nents - transfer_max (xw_engine w) rq) d (wait t w1) = (rv2, n2, d2, w3)"
      by (metis prod_cases4)
    note ok = xfer_outcome_keeps [OF o]
    define w4 where "w4 = set_engine (\<lambda>en. en\<lparr>en_desc_used := en_desc_used en - xf_desc_num (xw_tfer w3 t)\<rparr>) w3"
    obtain m5 w5 where d: "transfer_destroy t mapped w4 = (m5, w5)" by fastforce
    note dk = transfer_destroy_keeps [OF d]
    have r: "rq' = rq1" "nents' = n2" "mapped' = m5" "w' = w5"
      using round False unfolding o prod.case w4_def [symmetric] d by auto
    have wt: "ring_place (xw_engine (wait t w1)) = ring_place (xw_engine w1)" "mappings (wait t w1) = mappings w1"
      "xf_flags (xw_tfer (wait t w1) t) AND XFER_FLAG_NEED_UNMAP = xf_flags (xw_tfer w1 t) AND XFER_FLAG_NEED_UNMAP"
      using assms(3) by (simp_all add: wait_ok_def)
    have "ring_place (xw_engine w5) = ring_place (xw_engine w0)"
      using dk(1) ok(1) wt(1) w1(1) by (simp add: w4_def)
    from engine_ok_place [OF this] have "engine_ok (xw_engine w5)" using w0(1) by simp
    moreover have "mappings w5 @ release m5 = mappings w @ release mapped"
      using dk(2) ok(2) wt(2) w1(2) w0(2) by (simp add: w4_def)
    moreover have "m5 = mapped" if dma_mapped
      using dk(3) ok(3) wt(3) w1(3) w0(3) [OF that] by (simp add: w4_def)
    ultimately show ?thesis using ok(4) by (simp add: r)
  qed
  then show "engine_ok (xw_engine w')" "mappings w' @ release mapped' = mappings w @ release mapped"
    "dma_mapped \<Longrightarrow> mapped' = mapped"
    "rq' = rq\<lparr>rq_ep_addr := rq_ep_addr rq', rq_sw_desc_idx := rq_sw_desc_idx rq + transfer_max (xw_engine w) rq\<rparr>"
    "nents' = nents - transfer_max (xw_engine w) rq \<or> nents' = 0"
    using pl(4) by auto
qed

lemma xfer_loop_returns:
  assumes "wait_ok wait" and "engine_ok (xw_engine w)" and "unat (rq_sw_desc_cnt rq) = length (rq_sdesc rq)"
    and "rq_sw_desc_idx rq \<le> rq_sw_desc_cnt rq" and "nents = rq_sw_desc_cnt rq - rq_sw_desc_idx rq \<or> nents = 0"
  shows "\<exists>rv mapped' d' w'. xfer_loop p io wait off dma_mapped t rq nents mapped d w = Some (rv, mapped', d', w') \<and>
    mappings w' @ release mapped' = mappings w @ release mapped \<and> (dma_mapped \<longrightarrow> mapped' = mapped)"
  using assms(2-5)
proof (induction "length (rq_sdesc rq) - unat (rq_sw_desc_idx rq)" arbitrary: rq nents mapped d w rule: less_induct)
  case less
  show ?case
  proof (cases "nents = 0")
    case True
    then show ?thesis by (subst xfer_loop.simps) simp
  next
    case False
    then have lt: "rq_sw_desc_idx rq < rq_sw_desc_cnt rq" using less.prems(3,4) by auto
    then have ok: "request_ok rq" using less.prems(2) by (simp add: request_ok_def)
    obtain rv rq' nents' mapped' d' w' where r: "xfer_round p io wait off dma_mapped t (rq, nents, mapped, d, w) = (rv, rq', nents', mapped', d', w')"
      by (metis prod_cases6)
    note k = xfer_round_keeps [OF less.prems(1) ok assms(1) r]
    let ?n = "transfer_max (xw_engine w) rq"
    show ?thesis
    proof (cases "rv < 0")
      case True
      then show ?thesis using k(2,3) by (subst xfer_loop.simps) (auto simp: False r)
    next
      case go: False
      have n: "unat ?n = min (unat (rq_sw_desc_cnt rq) - unat (rq_sw_desc_idx rq)) (unat (en_desc_max (xw_engine w)) - unat (en_desc_idx (xw_engine w)))"
        by (rule transfer_max_nat [OF less.prems(1) ok])
      have "0 < unat ?n" using n lt less.prems(1) by (simp add: engine_ok_def word_less_nat_alt)
      have le: "unat (rq_sw_desc_idx rq) + unat ?n \<le> unat (rq_sw_desc_cnt rq)" using n lt by (simp add: word_less_nat_alt)
      also have "\<dots> < 2 ^ 32" using unsigned_less [of "rq_sw_desc_cnt rq"] by simp
      finally have i: "unat (rq_sw_desc_idx rq + ?n) = unat (rq_sw_desc_idx rq) + unat ?n"
        by (intro unat_add_lem [THEN iffD1]) simp
      have rq': "rq_sw_desc_cnt rq' = rq_sw_desc_cnt rq" "rq_sdesc rq' = rq_sdesc rq" "rq_sw_desc_idx rq' = rq_sw_desc_idx rq + ?n"
        by (subst k(4), simp)+
      have "\<exists>rv mapped'' d'' w''. xfer_loop p io wait off dma_mapped t rq' nents' mapped' d' w' = Some (rv, mapped'', d'', w'') \<and>
        mappings w'' @ release mapped'' = mappings w' @ release mapped' \<and> (dma_mapped \<longrightarrow> mapped'' = mapped')"
      proof (rule less.hyps)
        show "length (rq_sdesc rq') - unat (rq_sw_desc_idx rq') < length (rq_sdesc rq) - unat (rq_sw_desc_idx rq)"
          using \<open>0 < unat ?n\<close> lt less.prems(2) by (simp add: rq' i word_less_nat_alt)
        show "nents' = rq_sw_desc_cnt rq' - rq_sw_desc_idx rq' \<or> nents' = 0"
          using k(5) less.prems(4) False by (auto simp: rq' diff_diff_eq)
      qed (use k(1) less.prems(2) le in \<open>simp_all add: rq' i word_le_nat_alt\<close>)
      then show ?thesis
        using go k(2,3) by (subst xfer_loop.simps) (auto simp: False r)
    qed
  qed
qed

text \<open>
  C14: A submission always returns, and maps and releases the memory exactly once. For an engine whose ring lies at
  an aligned address below \<open>2 ^ 64\<close>, with fewer than \<open>2 ^ 31\<close> descriptors and the next one to use
  inside it, a positive limit for the length of a descriptor, and a request that needs less than
  \<open>2 ^ 31\<close> descriptors, and whatever happens while the driver waits, as long as each wait ends (by an interrupt or its
  timeout), leaves the ring where it is and the mark of a transfer that it has to release
  the memory as it is, and maps and releases nothing itself: the call ends, with transfers that complete,
  fail or time out, with the engine shut down, without memory for the request, and for the end of a packet. If the
  device, the channel, the engine and the direction are right, the device is online, and the kernel can map the memory,
  the driver maps it once and then unmaps it once. A request that is refused at once, and one whose memory is mapped by
  the caller, maps and unmaps nothing.
\<close>
theorem xdma_submit_returns:
  assumes "wait_ok wait" and "engine_ok (xw_engine w)" and "blen \<noteq> 0"
    and "sg = (if dma_mapped then sgt else map_sg sgt)" and "length sg + (\<Sum>(a, len)\<leftarrow>sg. pieces blen len) < 2 ^ 31"
    and "accepted \<longleftrightarrow> xd_known xdev \<and> channel < (if to_device then xd_h2c_channel_max xdev else xd_c2h_channel_max xdev) \<and>
      en_magic (xw_engine w) = MAGIC_ENGINE \<and> \<not> xd_offline xdev \<and>
      en_dir (xw_engine w) = (if to_device then DMA_TO_DEVICE else DMA_FROM_DEVICE) \<and> sg \<noteq> []"
  shows "\<exists>rv w'. xdma_xfer_submit p io wait map_sg blen mem xdev channel to_device ep sgt dma_mapped t w = Some (rv, w') \<and>
    mappings w' = mappings w @ (if accepted \<and> \<not> dma_mapped then [Map_sg, Unmap_sg] else [])"
proof (cases accepted)
  case False
  then show ?thesis using assms(6) by (auto simp: xdma_xfer_submit_def Let_def assms(4) not_less)
next
  case True
  have fin: "mappings (snd (xfer_finish dma_mapped (rv, m, d, v))) = mappings v @ release (\<not> dma_mapped \<and> m)" for rv m d v
    by (simp add: xfer_finish_def)
  obtain ds where ds: "split_list blen sg = Some ds" "length ds = (\<Sum>(a, len)\<leftarrow>sg. pieces blen len)"
    using split_list_spec [OF assms(3)] by blast
  define w0 where "w0 = (if dma_mapped then w else notify_event Map_sg w)"
  have w0: "engine_ok (xw_engine w0)" "mappings w0 = mappings w @ (if dma_mapped then [] else [Map_sg])"
    using assms(2) by (simp_all add: w0_def)
  have sub: "xdma_xfer_submit p io wait map_sg blen mem xdev channel to_device ep sgt dma_mapped t w =
      Option.bind (xdma_init_request blen mem sg ep) (\<lambda>req. case req of
          None \<Rightarrow> Some (xfer_finish dma_mapped (- ENOMEM, True, 0, w0))
        | Some rq \<Rightarrow> Option.bind (xfer_loop p io wait False dma_mapped t rq (rq_sw_desc_cnt rq) True 0 w0)
            (\<lambda>r. Some (xfer_finish dma_mapped r)))"
    using True assms(6) by (simp add: xdma_xfer_submit_def Let_def not_le flip: assms(4) w0_def)
  consider "xdma_init_request blen mem sg ep = Some None"
    | rq where "xdma_init_request blen mem sg ep = Some (Some rq)" "unat (rq_sw_desc_cnt rq) = length (rq_sdesc rq)" "rq_sw_desc_idx rq = 0"
  proof -
    have len: "unat (of_nat (length ds) :: u32) = length ds" using ds(2) assms(5) by (simp add: unat_of_nat take_bit_nat_eq_self)
    let ?rq = "\<lparr>rq_sgt = sg, rq_ep_addr = ep, rq_total_len = sum_list (map snd sg), rq_sw_desc_idx = 0,
      rq_sw_desc_cnt = of_nat (length ds), rq_sdesc = ds\<rparr>"
    have "xdma_init_request blen mem sg ep = Some None \<or> xdma_init_request blen mem sg ep = Some (Some ?rq)"
      by (simp add: xdma_init_request_def Let_def ds(1))
    then show thesis using that(1) that(2) [of ?rq] len by auto
  qed
  then show ?thesis
  proof cases
    case 1
    then show ?thesis using True fin [of "- ENOMEM" True 0 w0] w0(2) unfolding sub by (simp add: prod_eq_iff)
  next
    case (2 rq)
    have "rq_sw_desc_idx rq \<le> rq_sw_desc_cnt rq" "rq_sw_desc_cnt rq = rq_sw_desc_cnt rq - rq_sw_desc_idx rq \<or> rq_sw_desc_cnt rq = 0"
      using 2(3) by simp_all
    from xfer_loop_returns [OF assms(1) w0(1) 2(2) this, of p io False dma_mapped t True 0]
    obtain rv m d v where l: "xfer_loop p io wait False dma_mapped t rq (rq_sw_desc_cnt rq) True 0 w0 = Some (rv, m, d, v)"
      "mappings v @ release m = mappings w0 @ [Unmap_sg]" "dma_mapped \<longrightarrow> m" by auto
    show ?thesis
      using True l(2,3) fin [of rv m d v] w0(2) unfolding sub 2(1) Option.bind.simps option.case l(1)
      by (cases m) (auto simp: prod_eq_iff split: if_splits)
  qed
qed

text \<open>A transfer that nobody serves times out.\<close>

theorem xdma_submit_returns_witness:
  "\<exists>rv w'. xdma_xfer_submit demo_params sim_xio (\<lambda>t w. w) (\<lambda>sg. sg) 16 True demo_dev 0 True 0x80
      [(0x9000, 40), (0xA000, 16)] False 0 demo_world = Some (rv, w') \<and> mappings w' = [Map_sg, Unmap_sg]"
proof -
  have "wait_ok (\<lambda>t w. w)" "engine_ok (xw_engine demo_world)" "mappings demo_world = []"
    using demo_idle by (simp_all add: wait_ok_def engine_idle_def mappings_def demo_world_def)
  then show ?thesis
    using xdma_submit_returns [of "\<lambda>t w. w" demo_world 16 "[(0x9000, 40), (0xA000, 16)]" False "[(0x9000, 40), (0xA000, 16)]"
        "\<lambda>sg. sg" True demo_dev 0 True demo_params sim_xio True "0x80" 0]
    by (simp add: pieces_def demo_defs)
qed

end
