(* ===== verification/Descq.thy ===== *)
theory Descq
  imports Dma_Bytes Soft_Csr
begin

section \<open>The descriptor rings of the QDMA driver (qdma\_descq.c)\<close>

text \<open>
  A queue of the QDMA driver is a ring of descriptors in host memory. Submitted requests wait on the work list; the
  processing functions cut them into descriptors as long as there is room, announce those by writing the producer index,
  and move a request to the pending list once all of it is in the ring. The hardware reports how far it has come by
  writing its consumer index to host memory, and the driver completes the pending requests with the descriptors so
  returned.

  A pointer to a request is its number, and \<open>descq->desc\<close>, cast to the descriptor type of the queue, is a list of
  descriptors with the producer index for the pointer into it. Each section that holds the lock of the queue is one step.
\<close>

unbundle bit_operations_syntax

subsection \<open>State\<close>

datatype queue_type_t = Q_H2C | Q_C2H | Q_CMPT | Q_H2C_C2H

datatype qdma_drv_mode = AUTO_MODE | POLL_MODE | DIRECT_INTR_MODE | INDIRECT_INTR_MODE | LEGACY_INTR_MODE

datatype q_state_t = Q_STATE_DISABLED | Q_STATE_ENABLED | Q_STATE_ONLINE

record qdma_mm_desc =
  md_src_addr :: u64
  md_flag_len :: u32
  md_rsvd0 :: u32
  md_dst_addr :: u64
  md_rsvd1 :: u64

record qdma_h2c_desc =
  hd_cdh_flags :: u16
  hd_pld_len :: u16
  hd_len :: u16
  hd_flags :: u16
  hd_src_addr :: u64

datatype ring_desc = MmDesc qdma_mm_desc | H2cDesc qdma_h2c_desc

fun mm_desc :: "ring_desc \<Rightarrow> qdma_mm_desc" where
  "mm_desc (MmDesc d) = d"
| "mm_desc (H2cDesc d) = \<lparr>md_src_addr = 0, md_flag_len = 0, md_rsvd0 = 0, md_dst_addr = 0, md_rsvd1 = 0\<rparr>"

fun h2c_desc :: "ring_desc \<Rightarrow> qdma_h2c_desc" where
  "h2c_desc (H2cDesc d) = d"
| "h2c_desc (MmDesc d) = \<lparr>hd_cdh_flags = 0, hd_pld_len = 0, hd_len = 0, hd_flags = 0, hd_src_addr = 0\<rparr>"

text \<open>An entry of a scatter list: its page, or 0 for none, and where in the page the data is.\<close>

record qdma_sw_sg =
  sg_pg :: u64
  sg_offset :: u32
  sg_len :: u32
  sg_dma_addr :: u64

text \<open>A request and the control block that the driver keeps in its opaque part.\<close>

record qdma_request =
  req_fp_done :: bool
  req_timeout_ms :: u32
  req_count :: u32
  req_ep_addr :: u64
  req_write :: bool
  req_dma_mapped :: bool
  req_sgl :: "qdma_sw_sg list"
  cb_desc_nr :: u32
  cb_offset :: u32
  cb_sg_offset :: u32
  cb_sg :: "nat option"
  cb_status :: int
  cb_done :: bool
  cb_unmap_needed :: bool

record qdma_queue_conf =
  qc_rngsz :: u32
  qc_st :: bool
  qc_q_type :: queue_type_t
  qc_aperture_size :: u32
  qc_desc_bypass :: bool
  qc_pidx_acc :: u8
  qc_fp_descq_c2h_packet :: bool

record qdma_descq =
  dq_conf :: qdma_queue_conf
  dq_drv_mode :: qdma_drv_mode
  dq_q_state :: q_state_t
  dq_q_stop_wait :: bool
  dq_proc_req_running :: bool
  dq_pend_list_empty :: bool
  dq_work_list :: "nat list"
  dq_work_req_pend :: u32
  dq_pend_list :: "nat list"
  dq_cmplthp :: bool
  dq_avail :: u32
  dq_pidx :: u32
  dq_cidx :: u32
  dq_credit :: u32
  dq_desc :: "ring_desc list"
  dq_desc_pend :: u8
  dq_pidx_info :: qdma_q_pidx_reg_info
  dq_total_cmpl_descs :: u64

text \<open>
  What the driver does to others: it calls the completion function of a request, wakes the thread that waits for one or
  for the queue to stop, wakes the completion thread, and gives pages back.
\<close>

datatype dq_event =
    FpDone nat u32 int | Wakeup nat | WakeupStop | WakeupThread | MapPage u64 | UnmapPage u64

text \<open>
  The hardware: \<open>read_cidx\<close> reads the consumer index from the completion status, which the hardware updates as it
  works through the ring, and \<open>pidx_update\<close> is the hardware access function for the producer index, with the value it
  returns.
\<close>

record 's dq_io =
  read_cidx :: "ring_desc list \<Rightarrow> 's \<Rightarrow> u16 \<times> 's"
  pidx_update :: "qdma_q_pidx_reg_info \<Rightarrow> 's \<Rightarrow> int \<times> 's"

record 's dq_world =
  dw_q :: qdma_descq
  dw_req :: "nat \<Rightarrow> qdma_request"
  dw_dev :: 's
  dw_events :: "dq_event list"

definition set_q :: "(qdma_descq \<Rightarrow> qdma_descq) \<Rightarrow> 's dq_world \<Rightarrow> 's dq_world" where
  "set_q f w = w\<lparr>dw_q := f (dw_q w)\<rparr>"

definition set_req :: "nat \<Rightarrow> (qdma_request \<Rightarrow> qdma_request) \<Rightarrow> 's dq_world \<Rightarrow> 's dq_world" where
  "set_req r f w = w\<lparr>dw_req := (dw_req w)(r := f (dw_req w r))\<rparr>"

definition dq_event :: "dq_event \<Rightarrow> 's dq_world \<Rightarrow> 's dq_world" where
  "dq_event e w = w\<lparr>dw_events := dw_events w @ [e]\<rparr>"

lemma set_q_simps [simp]:
  "dw_q (set_q f w) = f (dw_q w)" "dw_req (set_q f w) = dw_req w" "dw_dev (set_q f w) = dw_dev w"
  "dw_events (set_q f w) = dw_events w"
  by (simp_all add: set_q_def)

lemma set_req_simps [simp]:
  "dw_q (set_req r f w) = dw_q w" "dw_req (set_req r f w) = (dw_req w)(r := f (dw_req w r))"
  "dw_dev (set_req r f w) = dw_dev w" "dw_events (set_req r f w) = dw_events w"
  by (simp_all add: set_req_def)

lemma dq_event_simps [simp]:
  "dw_q (dq_event e w) = dw_q w" "dw_req (dq_event e w) = dw_req w" "dw_dev (dq_event e w) = dw_dev w"
  "dw_events (dq_event e w) = dw_events w @ [e]"
  by (simp_all add: dq_event_def)

subsection \<open>Lists of requests\<close>

text \<open>A request is on one list at most, so unlinking it needs no list.\<close>

definition list_del :: "nat \<Rightarrow> qdma_descq \<Rightarrow> qdma_descq" where
  "list_del r q = q\<lparr>dq_work_list := remove1 r (dq_work_list q), dq_pend_list := remove1 r (dq_pend_list q)\<rparr>"

definition qdma_work_queue_add :: "nat \<Rightarrow> qdma_descq \<Rightarrow> qdma_descq" where
  "qdma_work_queue_add r q = q\<lparr>dq_work_list := dq_work_list q @ [r], dq_work_req_pend := dq_work_req_pend q + 1\<rparr>"

definition qdma_work_queue_del :: "nat \<Rightarrow> qdma_descq \<Rightarrow> qdma_descq" where
  "qdma_work_queue_del r q = (list_del r q)\<lparr>dq_work_req_pend := dq_work_req_pend q - 1\<rparr>"

definition qdma_work_queue_len :: "qdma_descq \<Rightarrow> u32" where
  "qdma_work_queue_len q = dq_work_req_pend q"

text \<open>
  The entry of the scatter list where the rest of a request begins, and how far into that entry; \<open>None\<close> for the error.
\<close>

fun sgl_find :: "u32 \<Rightarrow> qdma_sw_sg list \<Rightarrow> nat \<Rightarrow> u32 \<Rightarrow> nat \<times> u32" where
  "sgl_find off [] i len = (i, 0)"
| "sgl_find off (sg # sgl) i len =
     (let len = len + sg_len sg
      in if len = off then (Suc i, 0)
         else if off < len then (i, sg_len sg - (len - off))
         else sgl_find off sgl (Suc i) len)"

definition qdma_sgl_find_offset :: "qdma_request \<Rightarrow> (nat \<times> u32) option" where
  "qdma_sgl_find_offset rq =
     (if req_count rq = 0 then Some (0, 0)
      else let (i, off) = sgl_find (cb_offset rq) (req_sgl rq) 0 0
           in if i < length (req_sgl rq) then Some (i, off) else None)"

definition qdma_update_request :: "nat \<Rightarrow> u32 \<Rightarrow> u32 \<Rightarrow> u32 \<Rightarrow> nat option \<Rightarrow> 's dq_world \<Rightarrow> 's dq_world" where
  "qdma_update_request r num_desc data_cnt sg_off sg w =
     (let w = set_req r (\<lambda>rq. rq\<lparr>cb_desc_nr := cb_desc_nr rq + num_desc, cb_offset := cb_offset rq + data_cnt,
           cb_sg_offset := sg_off, cb_sg := sg\<rparr>) w
      in if req_count (dw_req w r) \<le> cb_offset (dw_req w r)
         then set_q (\<lambda>q. (qdma_work_queue_del r q)\<lparr>dq_pend_list := dq_pend_list (qdma_work_queue_del r q) @ [r]\<rparr>) w
         else w)"

subsection \<open>Mapping\<close>

text \<open>
  \<open>pci_map_page\<close> gives the bus address of a page, and \<open>pci_dma_mapping_error\<close> tells an address from an error.
\<close>

record pci_map =
  pci_map_page :: "u64 \<Rightarrow> u64"
  pci_dma_mapping_error :: "u64 \<Rightarrow> bool"

fun sgl_unmap :: "nat \<Rightarrow> qdma_sw_sg list \<Rightarrow> qdma_sw_sg list \<times> dq_event list" where
  "sgl_unmap (Suc n) (sg # sgl) =
     (if sg_pg sg = 0 then (sg # sgl, [])
      else let (sgl', es) = sgl_unmap n sgl
           in if sg_dma_addr sg \<noteq> 0 then (sg\<lparr>sg_dma_addr := 0\<rparr> # sgl', UnmapPage (sg_dma_addr sg - ucast (sg_offset sg)) # es)
              else (sg # sgl', es))"
| "sgl_unmap n sgl = (sgl, [])"

text \<open>The entries before the one that fails are unmapped again; that one is left with the address that is an error.\<close>

fun sgl_map_from :: "pci_map \<Rightarrow> qdma_sw_sg list \<Rightarrow> qdma_sw_sg list \<Rightarrow> int \<times> qdma_sw_sg list \<times> dq_event list" where
  "sgl_map_from pm pre [] = (0, pre, [])"
| "sgl_map_from pm pre (sg # sgl) =
     (let a = pci_map_page pm (sg_pg sg)
      in if pci_dma_mapping_error pm a
         then (case (if pre \<noteq> [] then sgl_unmap (length pre) pre else (pre, [])) of
                 (pre', es) \<Rightarrow> (- EIO, pre' @ sg\<lparr>sg_dma_addr := a\<rparr> # sgl, es))
         else (case sgl_map_from pm (pre @ [sg\<lparr>sg_dma_addr := a + ucast (sg_offset sg)\<rparr>]) sgl of
                 (rv, sgl', es) \<Rightarrow> (rv, sgl', MapPage a # es)))"

definition sgl_map :: "pci_map \<Rightarrow> qdma_sw_sg list \<Rightarrow> int \<times> qdma_sw_sg list \<times> dq_event list" where
  "sgl_map pm sgl = sgl_map_from pm [] sgl"

definition unmap_request :: "nat \<Rightarrow> 's dq_world \<Rightarrow> 's dq_world" where
  "unmap_request r w =
     (case sgl_unmap (length (req_sgl (dw_req w r))) (req_sgl (dw_req w r)) of
        (sgl, es) \<Rightarrow> set_req r (\<lambda>rq. rq\<lparr>req_sgl := sgl\<rparr>) (w\<lparr>dw_events := dw_events w @ es\<rparr>))"

subsection \<open>Completion\<close>

text \<open>
  A request is done: it is unlinked and unmapped, and its owner is told. Whether all descriptors are back decides
  whether the queue may stop.
\<close>

definition st_c2h_queue :: "qdma_descq \<Rightarrow> bool" where
  "st_c2h_queue q \<longleftrightarrow> qc_st (dq_conf q) \<and> qc_q_type (dq_conf q) = Q_C2H"

definition done_unmap :: "nat \<Rightarrow> 's dq_world \<Rightarrow> 's dq_world" where
  "done_unmap r w =
     (if cb_unmap_needed (dw_req w r) then set_req r (\<lambda>rq. rq\<lparr>cb_unmap_needed := False\<rparr>) (unmap_request r w) else w)"

definition done_tell :: "nat \<Rightarrow> int \<Rightarrow> 's dq_world \<Rightarrow> 's dq_world" where
  "done_tell r error w =
     (let rq = dw_req w r
      in if req_fp_done rq
         then let error = (if cb_offset rq \<noteq> req_count rq \<and> \<not> st_c2h_queue (dw_q w) then - EINVAL else error)
              in dq_event (FpDone r (cb_offset rq) error) (set_req r (\<lambda>rq. rq\<lparr>cb_status := error, cb_done := True\<rparr>) w)
         else dq_event (Wakeup r) (set_req r (\<lambda>rq. rq\<lparr>cb_status := error, cb_done := True\<rparr>) w))"

definition done_drained :: "'s dq_world \<Rightarrow> 's dq_world" where
  "done_drained w =
     (if \<not> qc_fp_descq_c2h_packet (dq_conf (dw_q w))
      then let w = set_q (\<lambda>q. q\<lparr>dq_pend_list_empty :=
                 (if st_c2h_queue q then dq_avail q = 0 else dq_avail q = qc_rngsz (dq_conf q) - 1)\<rparr>) w
           in if dq_q_stop_wait (dw_q w) \<and> dq_pend_list_empty (dw_q w) then dq_event WakeupStop w else w
      else set_q (\<lambda>q. q\<lparr>dq_pend_list_empty := True\<rparr>) w)"

definition qdma_sgt_req_done :: "nat \<Rightarrow> int \<Rightarrow> 's dq_world \<Rightarrow> 's dq_world" where
  "qdma_sgt_req_done r error w = done_drained (done_tell r error (done_unmap r (set_q (list_del r) w)))"

text \<open>The producer index register of the queue.\<close>

definition queue_pidx_update :: "'s dq_io \<Rightarrow> 's dq_world \<Rightarrow> int \<times> 's dq_world" where
  "queue_pidx_update io w =
     (case pidx_update io (dq_pidx_info (dw_q w)) (dw_dev w) of (rv, s) \<Rightarrow> (rv, w\<lparr>dw_dev := s\<rparr>))"

definition qdma_pidx_update :: "'s dq_io \<Rightarrow> bool \<Rightarrow> 's dq_world \<Rightarrow> int \<times> 's dq_world" where
  "qdma_pidx_update io force w =
     (let q = dw_q w; desc_avail_max = qc_rngsz (dq_conf q) - 1
      in if \<not> force \<and> \<not> desc_avail_max - ucast (qc_pidx_acc (dq_conf q)) < dq_avail q \<and> dq_desc_pend q < qc_pidx_acc (dq_conf q)
         then (0, w)
         else case queue_pidx_update io w of
                (ret, w) \<Rightarrow> if ret < 0 then (- EINVAL, w) else (ret, set_q (\<lambda>q. q\<lparr>dq_desc_pend := 0\<rparr>) w))"

text \<open>The returned descriptors are spent on the pending requests in their order.\<close>

fun complete_reqs :: "nat list \<Rightarrow> u32 \<Rightarrow> 's dq_world \<Rightarrow> u32 \<times> 's dq_world" where
  "complete_reqs [] cr w = (cr, w)"
| "complete_reqs (r # rs) cr w =
     (if cb_desc_nr (dw_req w r) \<le> cr
      then let cr' = cr - cb_desc_nr (dw_req w r); w' = qdma_sgt_req_done r 0 w
           in if cr' = 0 then (cr', w') else complete_reqs rs cr' w'
      else (0, set_req r (\<lambda>rq. rq\<lparr>cb_desc_nr := cb_desc_nr rq - cr\<rparr>) w))"

definition descq_mm_n_h2c_cmpl_status :: "'s dq_io \<Rightarrow> 's dq_world \<Rightarrow> 's dq_world" where
  "descq_mm_n_h2c_cmpl_status io w =
     (if dq_pidx (dw_q w) = dq_cidx (dw_q w) then w
      else case read_cidx io (dq_desc (dw_q w)) (dw_dev w) of
        (v, s) \<Rightarrow>
          (let w = w\<lparr>dw_dev := s\<rparr>; cidx = dq_cidx (dw_q w); cidx_hw = ucast v
           in if cidx_hw = cidx then w
              else let cr = (if cidx_hw < cidx then qc_rngsz (dq_conf (dw_q w)) - cidx + cidx_hw else cidx_hw - cidx);
                       w = set_q (\<lambda>q. q\<lparr>dq_cidx := cidx_hw, dq_avail := dq_avail q + cr, dq_credit := dq_credit q + cr,
                             dq_total_cmpl_descs := dq_total_cmpl_descs q + ucast cr\<rparr>) w
                   in (case complete_reqs (dq_pend_list (dw_q w)) (dq_credit (dw_q w)) w of
                         (cr, w) \<Rightarrow> snd (qdma_pidx_update io True (set_q (\<lambda>q. q\<lparr>dq_credit := cr\<rparr>) w)))))"

definition dq_poll_mode :: "qdma_descq \<Rightarrow> bool" where
  "dq_poll_mode q \<longleftrightarrow> dq_drv_mode q = POLL_MODE \<or> dq_drv_mode q = AUTO_MODE"

definition descq_poll_mm_n_h2c_cmpl_status :: "'s dq_io \<Rightarrow> 's dq_world \<Rightarrow> 's dq_world" where
  "descq_poll_mm_n_h2c_cmpl_status io w =
     (if dq_poll_mode (dw_q w)
      then descq_mm_n_h2c_cmpl_status io (set_q (\<lambda>q. q\<lparr>dq_proc_req_running := True\<rparr>) w)
      else w)"

end
