(* ===== verification/Descq_Proc.thy ===== *)
theory Descq_Proc
  imports Descq
begin

section \<open>Filling the descriptor rings (qdma\_descq.c, libqdma\_export.c)\<close>

text \<open>
  The processing functions of memory mapped queues and of host-to-card streams, the service routine that interrupts and
  threads call, and the submission of a request. Queues with a descriptor bypass hook, whose descriptors another module
  fills, and card-to-host streams are left aside. The loops over a scatter list stop when the room in the ring is used
  up, and are defined by recursion on that room.
\<close>

unbundle bit_operations_syntax

definition QDMA_DESC_BLEN_MAX :: u32 where "QDMA_DESC_BLEN_MAX = push_bit 28 1 - 1"
definition QDMA_PAGE_SIZE :: u32 where "QDMA_PAGE_SIZE = 0x1000"
definition DESC_F_DV :: u32 where "DESC_F_DV = push_bit 28 1"
definition DESC_F_SOP :: u32 where "DESC_F_SOP = push_bit 29 1"
definition DESC_F_EOP :: u32 where "DESC_F_EOP = push_bit 30 1"
definition S_H2C_DESC_F_SOP :: u16 where "S_H2C_DESC_F_SOP = 1"
definition S_H2C_DESC_F_EOP :: u16 where "S_H2C_DESC_F_EOP = 2"
definition S_H2C_DESC_F_ZERO_CDH :: u16 where "S_H2C_DESC_F_ZERO_CDH = 13"

text \<open>
  The variables of the loops: the ring, the producer index that walks it, the bytes and descriptors so far, the offset
  that is left in the scatter list entry, for a memory mapped queue the address at the end point, and the last descriptor
  written.
\<close>

record dq_fill =
  fl_desc :: "ring_desc list"
  fl_pidx :: u32
  fl_ep_addr :: u64
  fl_data_cnt :: u32
  fl_desc_cnt :: u32
  fl_sg_offset :: u32
  fl_desc_end :: "nat option"

text \<open>The index after this one, and the descriptor at an index.\<close>

definition pidx_next :: "u32 \<Rightarrow> u32 \<Rightarrow> u32" where
  "pidx_next rngsz pidx = (if pidx + 1 = rngsz then 0 else pidx + 1)"

definition upd_desc :: "(ring_desc \<Rightarrow> ring_desc) \<Rightarrow> nat \<Rightarrow> ring_desc list \<Rightarrow> ring_desc list" where
  "upd_desc f i ds = ds[i := f (ds ! i)]"

subsection \<open>Memory mapped queues\<close>

definition dq_keyhole :: "qdma_queue_conf \<Rightarrow> bool" where
  "dq_keyhole qc \<longleftrightarrow> qc_aperture_size qc \<noteq> 0"

definition dq_aperture :: "qdma_queue_conf \<Rightarrow> u32" where
  "dq_aperture qc = (if qc_aperture_size qc \<noteq> 0 then qc_aperture_size qc else QDMA_DESC_BLEN_MAX)"

text \<open>Where the next descriptor begins at the end point, and how long it is.\<close>

definition mm_window :: "qdma_queue_conf \<Rightarrow> u64 \<Rightarrow> u64 \<Rightarrow> u32 \<Rightarrow> u64 \<times> u32" where
  "mm_window qc req_ep ep_addr tlen =
     (let ep_addr_max = req_ep + ucast (dq_aperture qc) - 1; len = min tlen (dq_aperture qc)
      in if dq_keyhole qc
         then let ep_addr = (if ep_addr_max < ep_addr then req_ep else ep_addr)
              in (ep_addr, if ep_addr_max < ep_addr + ucast len then ucast (ep_addr_max - ep_addr + 1) else len)
         else (ep_addr, len))"

definition mm_write :: "qdma_queue_conf \<Rightarrow> u64 \<Rightarrow> u64 \<Rightarrow> u32 \<Rightarrow> qdma_mm_desc" where
  "mm_write qc src_addr ep_addr len =
     \<lparr>md_src_addr = (if qc_q_type qc = Q_C2H then ep_addr else src_addr), md_flag_len = len OR DESC_F_DV, md_rsvd0 = 0,
      md_dst_addr = (if qc_q_type qc = Q_C2H then src_addr else ep_addr), md_rsvd1 = 0\<rparr>"

text \<open>
  The inner loop, over one entry, with room for \<open>k\<close> descriptors: it gives the room and the length that remain.
\<close>

fun mm_fill_entry :: "qdma_queue_conf \<Rightarrow> u64 \<Rightarrow> nat \<Rightarrow> u64 \<Rightarrow> u32 \<Rightarrow> dq_fill \<Rightarrow> nat \<times> u32 \<times> dq_fill" where
  "mm_fill_entry qc req_ep 0 src_addr tlen fl = (0, tlen, fl)"
| "mm_fill_entry qc req_ep (Suc k) src_addr tlen fl =
     (let (ep_addr, len) = mm_window qc req_ep (fl_ep_addr fl) tlen;
          i = unat (fl_pidx fl);
          fl = fl\<lparr>fl_desc := (fl_desc fl)[i := MmDesc (mm_write qc src_addr ep_addr len)],
            fl_pidx := pidx_next (qc_rngsz qc) (fl_pidx fl), fl_ep_addr := ep_addr + ucast len,
            fl_data_cnt := fl_data_cnt fl + len, fl_desc_cnt := fl_desc_cnt fl + 1,
            fl_sg_offset := fl_sg_offset fl + len, fl_desc_end := Some i\<rparr>;
          tlen = tlen - len
      in if k = 0 \<or> tlen = 0 then (k, tlen, fl) else mm_fill_entry qc req_ep k (src_addr + ucast len) tlen fl)"

text \<open>The outer loop, over the entries from number \<open>i\<close>; it gives the number of the entry it stops at.\<close>

fun mm_fill_sgl :: "qdma_queue_conf \<Rightarrow> u64 \<Rightarrow> nat \<Rightarrow> nat \<Rightarrow> qdma_sw_sg list \<Rightarrow> dq_fill \<Rightarrow> nat \<times> dq_fill" where
  "mm_fill_sgl qc req_ep k i [] fl = (i, fl)"
| "mm_fill_sgl qc req_ep k i (sg # sgl) fl =
     (if k = 0 then (i, fl)
      else let off = fl_sg_offset fl;
               fl = fl\<lparr>fl_desc := upd_desc (\<lambda>d. MmDesc ((mm_desc d)\<lparr>md_flag_len := 0\<rparr>)) (unat (fl_pidx fl)) (fl_desc fl),
                 fl_sg_offset := 0\<rparr>;
               (k, tlen, fl) = mm_fill_entry qc req_ep k (sg_dma_addr sg + ucast off) (sg_len sg - off) fl
           in mm_fill_sgl qc req_ep k (Suc i) sgl (if tlen = 0 then fl\<lparr>fl_sg_offset := 0\<rparr> else fl))"

text \<open>
  One round of the loop of \<open>descq_mm_proc_request\<close> for the first request of the work list. The state beside the world is
  the producer index and the number of descriptors written; the first component tells whether the loop goes on.
\<close>

definition mm_set_flag :: "u32 \<Rightarrow> ring_desc \<Rightarrow> ring_desc" where
  "mm_set_flag f d = MmDesc ((mm_desc d)\<lparr>md_flag_len := md_flag_len (mm_desc d) OR f\<rparr>)"

definition mm_round :: "'s dq_io \<Rightarrow> nat \<Rightarrow> u32 \<times> u32 \<times> 's dq_world \<Rightarrow> bool \<times> u32 \<times> u32 \<times> 's dq_world" where
  "mm_round io r st =
     (case st of (pidx, desc_written, w) \<Rightarrow>
        (let rq = dw_req w r; qc = dq_conf (dw_q w);
             ep_addr = (if \<not> dq_keyhole qc then req_ep_addr rq + ucast (cb_offset rq)
               else req_ep_addr rq + ucast (cb_offset rq AND (dq_aperture qc - 1)));
             w = (if dq_avail (dw_q w) = 0 then descq_poll_mm_n_h2c_cmpl_status io w else w);
             desc_max = dq_avail (dw_q w); rq = dw_req w r
         in if desc_max = 0 then (False, pidx, desc_written, w)
            else case qdma_sgl_find_offset rq of
              None \<Rightarrow> (True, pidx, desc_written, qdma_update_request r 0 0 0 None w)
            | Some (i, sg_off) \<Rightarrow>
                (let desc_start = unat pidx;
                     (i, fl) = mm_fill_sgl qc (req_ep_addr rq) (unat desc_max) i (drop i (req_sgl rq))
                       \<lparr>fl_desc = dq_desc (dw_q w), fl_pidx = pidx, fl_ep_addr = ep_addr, fl_data_cnt = 0,
                        fl_desc_cnt = 0, fl_sg_offset = sg_off, fl_desc_end = None\<rparr>;
                     w = set_q (\<lambda>q. q\<lparr>dq_desc := fl_desc fl\<rparr>) w;
                     (sg, sg_off) = (if i = length (req_sgl rq) then (None, 0) else (Some i, fl_sg_offset fl))
                 in case fl_desc_end fl of
                      None \<Rightarrow> (False, fl_pidx fl, desc_written, w)
                    | Some desc_end \<Rightarrow>
                        (let w = set_q (\<lambda>q. q\<lparr>dq_desc := upd_desc (mm_set_flag DESC_F_SOP) desc_start
                                   (upd_desc (mm_set_flag DESC_F_EOP) desc_end (dq_desc q))\<rparr>) w;
                             w = qdma_update_request r (fl_desc_cnt fl) (fl_data_cnt fl) sg_off sg w;
                             w = set_q (\<lambda>q. q\<lparr>dq_pidx := fl_pidx fl, dq_avail := dq_avail q - fl_desc_cnt fl\<rparr>) w
                         in (True, fl_pidx fl, desc_written + fl_desc_cnt fl, w)))))"

text \<open>The loop holds the lock and has no bound of its own: \<open>None\<close> stands for never returning.\<close>

partial_function (option) mm_loop :: "'s dq_io \<Rightarrow> u32 \<times> u32 \<times> 's dq_world \<Rightarrow> (u32 \<times> u32 \<times> 's dq_world) option" where
  "mm_loop io st =
     (case dq_work_list (dw_q (snd (snd st))) of
        [] \<Rightarrow> Some st
      | r # rs \<Rightarrow> (case mm_round io r st of (go_on, st') \<Rightarrow> if go_on then mm_loop io st' else Some st'))"

text \<open>
  The common frame of the processing functions: what they do before and after their loop. The fill loop of the queue is
  the argument.
\<close>

definition proc_finish :: "'s dq_io \<Rightarrow> u32 \<Rightarrow> 's dq_world \<Rightarrow> int \<times> 's dq_world" where
  "proc_finish io desc_written w =
     (let (rv, w) =
        (if desc_written \<noteq> 0
         then let w = set_q (\<lambda>q. q\<lparr>dq_pend_list_empty := False,
                    dq_pidx_info := (dq_pidx_info q)\<lparr>pi_pidx := ucast (dq_pidx q)\<rparr>\<rparr>) w;
                  (rv, w) = queue_pidx_update io w
              in if rv < 0 then (- EINVAL, w) else (0, descq_poll_mm_n_h2c_cmpl_status io w)
         else (0, w))
      in if rv < 0 then (rv, w)
         else let w = set_q (\<lambda>q. q\<lparr>dq_proc_req_running := False\<rparr>) w
              in (0, if desc_written \<noteq> 0 \<and> dq_cmplthp (dw_q w) then dq_event WakeupThread w else w))"

definition descq_mm_proc_request :: "'s dq_io \<Rightarrow> 's dq_world \<Rightarrow> (int \<times> 's dq_world) option" where
  "descq_mm_proc_request io w =
     (if dq_q_stop_wait (dw_q w) then Some (0, descq_mm_n_h2c_cmpl_status io w)
      else if dq_q_state (dw_q w) \<noteq> Q_STATE_ONLINE then Some (0, w)
      else if dq_proc_req_running (dw_q w) then Some (0, w)
      else case mm_loop io (dq_pidx (dw_q w), 0, descq_poll_mm_n_h2c_cmpl_status io w) of
             None \<Rightarrow> None
           | Some (pidx, desc_written, w) \<Rightarrow> Some (proc_finish io desc_written w))"

subsection \<open>Host-to-card streams\<close>

definition st_pktsz :: "qdma_request \<Rightarrow> u32" where
  "st_pktsz rq = (if req_ep_addr rq \<noteq> 0 then min (ucast (req_ep_addr rq)) QDMA_PAGE_SIZE else QDMA_PAGE_SIZE)"

text \<open>Entry number \<open>i\<close> of \<open>sg_max\<close>. The flags of the descriptor are cleared when the index moves on, except at the wrap.\<close>

definition st_clear :: "ring_desc \<Rightarrow> ring_desc" where
  "st_clear d = H2cDesc ((h2c_desc d)\<lparr>hd_flags := 0, hd_cdh_flags := 0\<rparr>)"

definition st_write :: "qdma_queue_conf \<Rightarrow> nat \<Rightarrow> nat \<Rightarrow> u64 \<Rightarrow> u32 \<Rightarrow> ring_desc \<Rightarrow> ring_desc" where
  "st_write qc sg_max i src_addr len d =
     (let h = h2c_desc d
      in H2cDesc \<lparr>hd_cdh_flags = hd_cdh_flags h OR S_H2C_DESC_F_ZERO_CDH, hd_pld_len = ucast len, hd_len = ucast len,
           hd_flags = hd_flags h OR (if qc_desc_bypass qc \<and> i = 0 then S_H2C_DESC_F_SOP else 0)
             OR (if qc_desc_bypass qc \<and> Suc i = sg_max then S_H2C_DESC_F_EOP else 0),
           hd_src_addr = src_addr\<rparr>)"

fun st_fill_entry :: "qdma_queue_conf \<Rightarrow> u32 \<Rightarrow> nat \<Rightarrow> nat \<Rightarrow> nat \<Rightarrow> u64 \<Rightarrow> u32 \<Rightarrow> dq_fill \<Rightarrow> nat \<times> u32 \<times> dq_fill" where
  "st_fill_entry qc pktsz sg_max i 0 src_addr tlen fl = (0, tlen, fl)"
| "st_fill_entry qc pktsz sg_max i (Suc k) src_addr tlen fl =
     (let len = min tlen pktsz; j = unat (fl_pidx fl); next = pidx_next (qc_rngsz qc) (fl_pidx fl);
          ds = upd_desc (st_write qc sg_max i src_addr len) j (fl_desc fl);
          fl = fl\<lparr>fl_desc := (if next = 0 then ds else upd_desc st_clear (unat next) ds), fl_pidx := next,
            fl_data_cnt := fl_data_cnt fl + len, fl_desc_cnt := fl_desc_cnt fl + 1,
            fl_sg_offset := fl_sg_offset fl + len, fl_desc_end := Some j\<rparr>;
          tlen = tlen - len
      in if k = 0 \<or> tlen = 0 then (k, tlen, fl) else st_fill_entry qc pktsz sg_max i k (src_addr + ucast len) tlen fl)"

fun st_fill_sgl :: "qdma_queue_conf \<Rightarrow> u32 \<Rightarrow> nat \<Rightarrow> nat \<Rightarrow> nat \<Rightarrow> qdma_sw_sg list \<Rightarrow> dq_fill \<Rightarrow> nat \<times> dq_fill" where
  "st_fill_sgl qc pktsz sg_max k i [] fl = (i, fl)"
| "st_fill_sgl qc pktsz sg_max k i (sg # sgl) fl =
     (if k = 0 then (i, fl)
      else let off = fl_sg_offset fl;
               (k, tlen, fl) = st_fill_entry qc pktsz sg_max i k (sg_dma_addr sg + ucast off) (sg_len sg - off) (fl\<lparr>fl_sg_offset := 0\<rparr>)
           in st_fill_sgl qc pktsz sg_max k (Suc i) sgl (if tlen = 0 then fl\<lparr>fl_sg_offset := 0\<rparr> else fl))"

definition st_round :: "'s dq_io \<Rightarrow> nat \<Rightarrow> u32 \<times> u32 \<times> 's dq_world \<Rightarrow> bool \<times> u32 \<times> u32 \<times> 's dq_world" where
  "st_round io r st =
     (case st of (pidx, desc_written, w) \<Rightarrow>
        (let w = (if dq_avail (dw_q w) = 0 then descq_poll_mm_n_h2c_cmpl_status io w else w);
             desc_max = dq_avail (dw_q w); rq = dw_req w r
         in if desc_max = 0 then (False, pidx, desc_written, w)
            else case qdma_sgl_find_offset rq of
              None \<Rightarrow> (True, pidx, desc_written, qdma_update_request r 0 0 0 None w)
            | Some (i, sg_off) \<Rightarrow>
                (let (i, fl) = st_fill_sgl (dq_conf (dw_q w)) (st_pktsz rq) (length (req_sgl rq)) (unat desc_max) i (drop i (req_sgl rq))
                       \<lparr>fl_desc = upd_desc st_clear (unat pidx) (dq_desc (dw_q w)), fl_pidx = pidx, fl_ep_addr = 0,
                        fl_data_cnt = 0, fl_desc_cnt = 0, fl_sg_offset = sg_off, fl_desc_end = None\<rparr>;
                     (sg, sg_off) = (if i = length (req_sgl rq) then (None, 0) else (Some i, fl_sg_offset fl));
                     w = set_q (\<lambda>q. q\<lparr>dq_desc := fl_desc fl\<rparr>) w;
                     w = qdma_update_request r (fl_desc_cnt fl) (fl_data_cnt fl) sg_off sg w;
                     w = set_q (\<lambda>q. q\<lparr>dq_pidx := fl_pidx fl, dq_avail := dq_avail q - fl_desc_cnt fl\<rparr>) w
                 in (fl_desc_cnt fl \<noteq> 0, fl_pidx fl, desc_written + fl_desc_cnt fl, w))))"

partial_function (option) st_loop :: "'s dq_io \<Rightarrow> u32 \<times> u32 \<times> 's dq_world \<Rightarrow> (u32 \<times> u32 \<times> 's dq_world) option" where
  "st_loop io st =
     (case dq_work_list (dw_q (snd (snd st))) of
        [] \<Rightarrow> Some st
      | r # rs \<Rightarrow> (case st_round io r st of (go_on, st') \<Rightarrow> if go_on then st_loop io st' else Some st'))"

declare mm_loop.simps [code] st_loop.simps [code]

definition descq_proc_st_h2c_request :: "'s dq_io \<Rightarrow> 's dq_world \<Rightarrow> (int \<times> 's dq_world) option" where
  "descq_proc_st_h2c_request io w =
     (if dq_q_stop_wait (dw_q w) then Some (0, descq_mm_n_h2c_cmpl_status io w)
      else if dq_q_state (dw_q w) \<noteq> Q_STATE_ONLINE then Some (0, w)
      else if dq_proc_req_running (dw_q w) then Some (0, w)
      else let w = descq_poll_mm_n_h2c_cmpl_status io w
           in case st_loop io (dq_pidx (dw_q w), 0, w) of
                None \<Rightarrow> None
              | Some (pidx, desc_written, w) \<Rightarrow> Some (proc_finish io desc_written w))"

subsection \<open>Entry points\<close>

text \<open>A descriptor bypass hook is another module's; here are the queues without one.\<close>

definition qdma_descq_proc_sgt_request :: "'s dq_io \<Rightarrow> 's dq_world \<Rightarrow> (int \<times> 's dq_world) option" where
  "qdma_descq_proc_sgt_request io w =
     (if \<not> qc_st (dq_conf (dw_q w)) then descq_mm_proc_request io w
      else if qc_q_type (dq_conf (dw_q w)) = Q_H2C then descq_proc_st_h2c_request io w
      else Some (- EINVAL, w))"

text \<open>The service of a queue that is not a card-to-host stream, for interrupts and polling threads.\<close>

definition qdma_descq_service_cmpl_update :: "'s dq_io \<Rightarrow> 's dq_world \<Rightarrow> (int \<times> 's dq_world) option" where
  "qdma_descq_service_cmpl_update io w =
     (if dq_poll_mode (dw_q w)
      then (if \<not> dq_proc_req_running (dw_q w)
            then Option.bind (qdma_descq_proc_sgt_request io w) (\<lambda>(_, w). Some (0, w))
            else Some (0, w))
      else let w = descq_mm_n_h2c_cmpl_status io w
           in if qdma_work_queue_len (dw_q w) \<noteq> 0 \<or> dq_desc_pend (dw_q w) \<noteq> 0
              then qdma_descq_proc_sgt_request io w
              else Some (0, w))"

text \<open>
  The submission of a request on such a queue, up to the point where it is on the work list and the lock is free again.
\<close>

definition submit_unmap :: "nat \<Rightarrow> 's dq_world \<Rightarrow> 's dq_world" where
  "submit_unmap r w = (if \<not> req_dma_mapped (dw_req w r) then unmap_request r w else w)"

definition submit_map :: "pci_map \<Rightarrow> nat \<Rightarrow> 's dq_world \<Rightarrow> int \<times> 's dq_world" where
  "submit_map pm r w =
     (if req_dma_mapped (dw_req w r) then (0, w)
      else case sgl_map pm (req_sgl (dw_req w r)) of
             (rv, sgl, es) \<Rightarrow>
               (let w = set_req r (\<lambda>rq. rq\<lparr>req_sgl := sgl\<rparr>) (w\<lparr>dw_events := dw_events w @ es\<rparr>)
                in if rv < 0 then (rv, w) else (0, set_req r (\<lambda>rq. rq\<lparr>cb_unmap_needed := True\<rparr>) w)))"

definition submit_queue :: "pci_map \<Rightarrow> nat \<Rightarrow> 's dq_world \<Rightarrow> int \<times> 's dq_world" where
  "submit_queue pm r w =
     (let rq = dw_req w r; ty = qc_q_type (dq_conf (dw_q w))
      in if ty = Q_CMPT then (- EINVAL, w)
         else if req_write rq \<and> ty \<noteq> Q_H2C \<or> \<not> req_write rq \<and> ty \<noteq> Q_C2H then (- EINVAL, w)
         else let w = set_req r (\<lambda>rq. rq\<lparr>cb_desc_nr := 0, cb_offset := 0, cb_sg_offset := 0, cb_sg := None, cb_status := 0,
                    cb_done := False, cb_unmap_needed := False\<rparr>) w;
                  (rv, w) = submit_map pm r w
              in if rv < 0 then (rv, submit_unmap r w)
                 else if dq_q_state (dw_q w) \<noteq> Q_STATE_ONLINE then (- EINVAL, submit_unmap r w)
                 else (0, set_q (qdma_work_queue_add r) w))"

text \<open>
  A request without a completion function is waited for. \<open>wait\<close> is what the others do with the queue until the
  request is done or its time is over.
\<close>

definition qdma_request_wait_for_cmpl :: "(nat \<Rightarrow> 's dq_world \<Rightarrow> 's dq_world) \<Rightarrow> nat \<Rightarrow> 's dq_world \<Rightarrow> int \<times> 's dq_world" where
  "qdma_request_wait_for_cmpl wait r w =
     (let w = wait r w;
          w = (if \<not> cb_done (dw_req w r) then set_q (list_del r) w else w)
      in if \<not> cb_done (dw_req w r) \<or> cb_status (dw_req w r) \<noteq> 0 then (- EIO, w) else (0, w))"

definition qdma_request_submit :: "'s dq_io \<Rightarrow> pci_map \<Rightarrow> (nat \<Rightarrow> 's dq_world \<Rightarrow> 's dq_world) \<Rightarrow> nat \<Rightarrow> 's dq_world \<Rightarrow>
    (int \<times> 's dq_world) option" where
  "qdma_request_submit io pm wait r w =
     (case submit_queue pm r w of
        (rv, w) \<Rightarrow>
          if rv < 0 then Some (rv, w)
          else case qdma_descq_proc_sgt_request io w of
            None \<Rightarrow> None
          | Some (_, w) \<Rightarrow>
              Some (if req_fp_done (dw_req w r) then (0, w)
                else case qdma_request_wait_for_cmpl wait r w of
                       (rv, w) \<Rightarrow> if rv < 0 then (rv, submit_unmap r w) else (int (unat (cb_offset (dw_req w r))), w)))"

text \<open>
  Stopping a queue, up to the point where its contexts are cleared: whoever still waits is told that the queue is gone.
\<close>

definition stop_notify :: "(nat \<Rightarrow> qdma_descq \<Rightarrow> qdma_descq) \<Rightarrow> nat \<Rightarrow> 's dq_world \<Rightarrow> 's dq_world" where
  "stop_notify unlink r w =
     (let w = set_req r (\<lambda>rq. rq\<lparr>cb_done := True, cb_status := - ENXIO\<rparr>) w
      in if req_fp_done (dw_req w r) then dq_event (FpDone r 0 (- ENXIO)) (set_q (unlink r) w)
         else dq_event (Wakeup r) w)"

definition qdma_queue_stop :: "('s dq_world \<Rightarrow> 's dq_world) \<Rightarrow> 's dq_world \<Rightarrow> int \<times> 's dq_world" where
  "qdma_queue_stop wait w =
     (if dq_q_state (dw_q w) \<noteq> Q_STATE_ONLINE then (- EINVAL, w)
      else let empty = dq_pend_list_empty (dw_q w);
               w = set_q (\<lambda>q. q\<lparr>dq_q_stop_wait := True\<rparr>) w;
               w = (if \<not> empty then wait w else w);
               w = set_q (\<lambda>q. q\<lparr>dq_q_state := Q_STATE_ENABLED, dq_q_stop_wait := False\<rparr>) w;
               w = fold (stop_notify list_del) (dq_pend_list (dw_q w)) w;
               w = fold (stop_notify qdma_work_queue_del) (dq_work_list (dw_q w)) w
           in (0, set_q (\<lambda>q. q\<lparr>dq_total_cmpl_descs := 0\<rparr>) w))"

text \<open>
  Starting one again: the size of the ring, given that of the configured register, and the pointers (lines of
  \<open>qdma_descq_config_complete\<close> for queues that are not card-to-host streams), then the state.
\<close>

definition qdma_descq_config_complete :: "u32 \<Rightarrow> u8 \<Rightarrow> 's dq_world \<Rightarrow> 's dq_world" where
  "qdma_descq_config_complete ring_sz irq_en w =
     set_q (\<lambda>q. q\<lparr>dq_conf := (dq_conf q)\<lparr>qc_rngsz := ring_sz - 1\<rparr>,
       dq_pidx_info := (dq_pidx_info q)\<lparr>pi_irq_en := irq_en\<rparr>, dq_avail := ring_sz - 1 - 1, dq_pend_list_empty := True,
       dq_pidx := 0, dq_cidx := 0, dq_credit := 0, dq_work_req_pend := 0\<rparr>) w"

end
