(* ===== verification/Descq_Fill.thy ===== *)
theory Descq_Fill
  imports Descq_Proc
begin

section \<open>What the fill loops put into a ring\<close>

text \<open>
  The descriptors ever written to a ring are a list, its history: the one with number \<open>a\<close> is in slot \<open>a mod n\<close>. A fill loop
  extends the history by descriptors that name the next bytes of the request, one after the other.
\<close>

unbundle bit_operations_syntax

subsection \<open>Rings and their histories\<close>

definition ring_holds :: "nat \<Rightarrow> 'd list \<Rightarrow> nat \<Rightarrow> 'd list \<Rightarrow> bool" where
  "ring_holds n ring lo H \<longleftrightarrow> length ring = n \<and> lo \<le> length H \<and> length H < lo + n \<and>
     (\<forall>a. lo \<le> a \<longrightarrow> a < length H \<longrightarrow> ring ! (a mod n) = H ! a)"

lemma mod_differ:
  assumes "(a :: nat) < b" and "b < a + n"
  shows "a mod n \<noteq> b mod n"
proof
  assume "a mod n = b mod n"
  then have "n dvd b - a" using mod_eq_dvd_iff_nat [of a b n] assms(1) by simp
  then show False using assms by (auto dest: dvd_imp_le)
qed

lemma ring_holds_free:
  assumes "ring_holds n ring lo H"
  shows "ring_holds n (ring[length H mod n := d]) lo H"
proof -
  have "ring[length H mod n := d] ! (a mod n) = ring ! (a mod n)" if "lo \<le> a" "a < length H" for a
  proof -
    have "length H mod n \<noteq> a mod n" using mod_differ [of a "length H" n] that assms by (simp add: ring_holds_def)
    then show ?thesis by simp
  qed
  then show ?thesis using assms by (simp add: ring_holds_def)
qed

lemma ring_holds_write:
  assumes "ring_holds n ring lo H" and "Suc (length H) < lo + n"
  shows "ring_holds n (ring[length H mod n := d]) lo (H @ [d])"
proof -
  have "0 < n" using assms(2) by (cases n) (use assms(1) in \<open>auto simp: ring_holds_def\<close>)
  then have "length H mod n < n" by simp
  then show ?thesis
    using ring_holds_free [OF assms(1), of d] assms
    unfolding ring_holds_def by (auto simp: nth_append less_Suc_eq)
qed

lemma ring_holds_lo:
  assumes "ring_holds n ring lo H" and "lo \<le> lo'" and "lo' \<le> length H"
  shows "ring_holds n ring lo' H"
  using assms unfolding ring_holds_def by auto

text \<open>Indices move with the history.\<close>

lemma pidx_next_nat:
  assumes "unat pidx = h mod n" and "n = unat rngsz" and "0 < n" and "n < 2 ^ 32"
  shows "unat (pidx_next rngsz pidx) = Suc h mod n"
proof -
  have lt: "unat pidx < n" using assms(1,3) by simp
  have s: "unat (pidx + 1) = Suc (unat pidx)" using lt assms(4) by (subst unat_add_lem [THEN iffD1]) simp_all
  have "pidx + 1 = rngsz \<longleftrightarrow> Suc (unat pidx) = n" using s assms(2) by (metis word_unat_eq_iff)
  then show ?thesis using assms(1) lt s by (auto simp: pidx_next_def mod_Suc)
qed

subsection \<open>The state of a fill loop\<close>

text \<open>
  \<open>B p\<close> is byte \<open>p\<close> of the request, and \<open>db\<close> gives the bytes that a descriptor names. The loop has written the
  descriptors \<open>ds\<close> for the \<open>m\<close> bytes from \<open>pos\<close> on.
\<close>

definition fill_at :: "nat \<Rightarrow> nat \<Rightarrow> (ring_desc \<Rightarrow> 'b list) \<Rightarrow> (nat \<Rightarrow> 'b) \<Rightarrow> ring_desc list \<Rightarrow> nat \<Rightarrow> ring_desc list \<Rightarrow> nat \<Rightarrow>
    dq_fill \<Rightarrow> bool" where
  "fill_at n lo db B H pos ds m fl \<longleftrightarrow>
     ring_holds n (fl_desc fl) lo (H @ ds) \<and> unat (fl_pidx fl) = length (H @ ds) mod n \<and>
     fl_data_cnt fl = of_nat m \<and> fl_desc_cnt fl = of_nat (length ds) \<and>
     concat (map db ds) = map B [pos..<pos + m] \<and>
     fl_desc_end fl = (if ds = [] then None else Some (length (H @ butlast ds) mod n))"

lemma fill_at_step:
  assumes "fill_at n lo db B H pos ds m fl" and "Suc (length (H @ ds)) < lo + n" and "n = unat rngsz" "n < 2 ^ 32"
    and "db d = map B [pos + m..<pos + m + l]"
    and "fl_desc fl' = (fl_desc fl)[unat (fl_pidx fl) := d] \<or>
      (\<exists>c. fl_desc fl' = ((fl_desc fl)[unat (fl_pidx fl) := d])[unat (pidx_next rngsz (fl_pidx fl)) := c])"
    and "fl_pidx fl' = pidx_next rngsz (fl_pidx fl)" and "fl_data_cnt fl' = fl_data_cnt fl + of_nat l"
    and "fl_desc_cnt fl' = fl_desc_cnt fl + 1" and "fl_desc_end fl' = Some (unat (fl_pidx fl))"
  shows "fill_at n lo db B H pos (ds @ [d]) (m + l) fl'"
proof -
  have r: "ring_holds n (fl_desc fl) lo (H @ ds)" and i: "unat (fl_pidx fl) = length (H @ ds) mod n"
    using assms(1) by (simp_all only: fill_at_def)
  have n: "0 < n" using r assms(2) by (cases n) (auto simp: ring_holds_def)
  have i': "unat (fl_pidx fl') = length (H @ ds @ [d]) mod n"
    using pidx_next_nat [OF i assms(3) n assms(4)] by (simp add: assms(7))
  have w: "ring_holds n ((fl_desc fl)[unat (fl_pidx fl) := d]) lo (H @ ds @ [d])"
    using ring_holds_write [OF r assms(2)] by (simp add: i)
  have "ring_holds n (fl_desc fl') lo (H @ ds @ [d])"
    using assms(6)
  proof
    assume "\<exists>c. fl_desc fl' = ((fl_desc fl)[unat (fl_pidx fl) := d])[unat (pidx_next rngsz (fl_pidx fl)) := c]"
    then show ?thesis using ring_holds_free [OF w] i' by (auto simp: assms(7))
  qed (use w in simp)
  moreover have "concat (map db (ds @ [d])) = map B [pos..<pos + (m + l)]"
  proof -
    have "[pos..<pos + (m + l)] = [pos..<pos + m] @ [pos + m..<pos + m + l]"
      using upt_add_eq_append [of pos "pos + m" l] by (simp add: add.assoc)
    then show ?thesis using assms(1,5) by (simp add: fill_at_def)
  qed
  ultimately show ?thesis
    using assms(1,8-10) i i' by (simp add: fill_at_def)
qed

text \<open>Byte \<open>j\<close> of the entries that remain, the first of them from an offset on.\<close>

abbreviation sgl_blocks :: "qdma_sw_sg list \<Rightarrow> sg_list" where
  "sgl_blocks sgl \<equiv> map (\<lambda>sg. (sg_dma_addr sg, sg_len sg)) sgl"

lemma sg_bytes_Cons [simp]: "sg_bytes ((a, l) # bs) = block_bytes a l @ sg_bytes bs"
  by (simp add: sg_bytes_def)

lemma length_sg_bytes: "length (sg_bytes (sgl_blocks sgl)) = (\<Sum>sg\<leftarrow>sgl. unat (sg_len sg))"
  by (induction sgl) (simp_all add: sg_bytes_def)

text \<open>Entries without data get a descriptor too.\<close>

definition empty_entries :: "qdma_sw_sg list \<Rightarrow> nat" where
  "empty_entries sgl = length (filter (\<lambda>sg. sg_len sg = 0) sgl)"

subsection \<open>Where the rest of a request begins\<close>

lemma sgl_find_spec:
  assumes "sgl_find off sgl i len = (i', o')" and "unat len \<le> unat off"
    and "unat off < unat len + (\<Sum>sg\<leftarrow>sgl. unat (sg_len sg))" and "unat len + (\<Sum>sg\<leftarrow>sgl. unat (sg_len sg)) < 2 ^ 32"
  shows "i \<le> i' \<and> i' < i + length sgl \<and> unat len + (\<Sum>sg\<leftarrow>take (i' - i) sgl. unat (sg_len sg)) + unat o' = unat off \<and>
    (unat o' < unat (sg_len (sgl ! (i' - i))) \<or> unat o' = 0)"
  using assms
proof (induction sgl arbitrary: i len)
  case (Cons sg sgl)
  let ?l = "len + sg_len sg"
  have l: "unat ?l = unat len + unat (sg_len sg)" using Cons.prems(4) by (simp add: unat_add_lem [THEN iffD1])
  consider "?l = off" | "?l \<noteq> off" "off < ?l" | "?l \<noteq> off" "\<not> off < ?l" by blast
  then show ?case
  proof cases
    case 1
    then have "i' = Suc i" "o' = 0" using Cons.prems(1) by auto
    then show ?thesis using 1 l Cons.prems(3) by (cases sgl) auto
  next
    case 2
    then have r: "i' = i" "o' = sg_len sg - (?l - off)" using Cons.prems(1) by auto
    have d: "unat (?l - off) = unat len + unat (sg_len sg) - unat off" using 2 l by (simp add: unat_sub word_less_nat_alt word_le_nat_alt)
    then have "unat o' = unat off - unat len"
      unfolding r(2) using Cons.prems(2) 2 l by (subst unat_sub) (auto simp: word_le_nat_alt word_less_nat_alt)
    then show ?thesis using r(1) Cons.prems(2) 2 l by (auto simp: word_less_nat_alt)
  next
    case 3
    have "Suc i \<le> i' \<and> i' < Suc i + length sgl \<and> unat ?l + (\<Sum>sg\<leftarrow>take (i' - Suc i) sgl. unat (sg_len sg)) + unat o' = unat off \<and>
      (unat o' < unat (sg_len (sgl ! (i' - Suc i))) \<or> unat o' = 0)"
      by (rule Cons.IH) (use Cons.prems 3 l in \<open>auto simp: word_less_nat_alt\<close>)
    moreover from this have "i' - i = Suc (i' - Suc i)" by auto
    ultimately show ?thesis using l by auto
  qed
qed simp

text \<open>
  A request whose length is the sum of its entries', either all of them with data or one entry without: where the
  driver resumes it is where its next byte is.
\<close>

definition sgl_ok :: "qdma_request \<Rightarrow> bool" where
  "sgl_ok rq \<longleftrightarrow> unat (req_count rq) = (\<Sum>sg\<leftarrow>req_sgl rq. unat (sg_len sg)) \<and> unat (req_count rq) < 2 ^ 31 \<and>
     ((\<forall>sg \<in> set (req_sgl rq). sg_len sg \<noteq> 0) \<and> req_sgl rq \<noteq> [] \<or> (\<exists>sg. req_sgl rq = [sg] \<and> sg_len sg = 0))"

lemma find_offset_ok:
  assumes "sgl_ok rq" and "cb_offset rq < req_count rq \<or> req_count rq = 0 \<and> cb_offset rq = 0"
  obtains i off where "qdma_sgl_find_offset rq = Some (i, off)" and "i < length (req_sgl rq)"
    and "(\<Sum>sg\<leftarrow>take i (req_sgl rq). unat (sg_len sg)) + unat off = unat (cb_offset rq)"
    and "unat off < unat (sg_len (req_sgl rq ! i)) \<or> sg_len (req_sgl rq ! i) = 0 \<and> unat off = 0"
proof (cases "req_count rq = 0")
  case True
  then have "\<forall>sg \<in> set (req_sgl rq). sg_len sg = 0" "req_sgl rq \<noteq> []"
    using assms(1) by (auto simp: sgl_ok_def unat_eq_0)
  then show thesis using that [of 0 0] True assms(2) by (auto simp: qdma_sgl_find_offset_def)
next
  case False
  then have all: "\<forall>sg \<in> set (req_sgl rq). sg_len sg \<noteq> 0" using assms(1) by (auto simp: sgl_ok_def unat_eq_0)
  obtain i off where f: "sgl_find (cb_offset rq) (req_sgl rq) 0 0 = (i, off)" by fastforce
  have "0 \<le> i \<and> i < 0 + length (req_sgl rq) \<and> unat (0 :: u32) + (\<Sum>sg\<leftarrow>take (i - 0) (req_sgl rq). unat (sg_len sg)) + unat off = unat (cb_offset rq) \<and>
      (unat off < unat (sg_len (req_sgl rq ! (i - 0))) \<or> unat off = 0)"
    by (rule sgl_find_spec [OF f]) (use assms False in \<open>auto simp: sgl_ok_def word_less_nat_alt\<close>)
  then have s: "i < length (req_sgl rq)" "(\<Sum>sg\<leftarrow>take i (req_sgl rq). unat (sg_len sg)) + unat off = unat (cb_offset rq)"
    "unat off < unat (sg_len (req_sgl rq ! i)) \<or> unat off = 0" by auto
  have "sg_len (req_sgl rq ! i) \<noteq> 0" using all s(1) by simp
  then show thesis using that [of i off] f False s by (auto simp: qdma_sgl_find_offset_def unat_gt_0)
qed

lemma sg_bytes_drop:
  assumes "(\<Sum>sg\<leftarrow>take i sgl. unat (sg_len sg)) = s"
  shows "sg_bytes (sgl_blocks (drop i sgl)) = drop s (sg_bytes (sgl_blocks sgl))"
  using assms
proof (induction i arbitrary: sgl s)
  case (Suc i)
  then show ?case by (cases sgl) (auto simp: drop_Cons')
qed simp

subsection \<open>The loop over the scatter list\<close>

text \<open>
  Both kinds of queues have the same two nested loops; they differ in the descriptors. What the outer loop relies on: the
  inner loop extends the history by descriptors for the next bytes of the entry, up to its end or the room, where the byte
  at a memory address and a position of the request is \<open>byte\<close> and \<open>I\<close> is what the inner loop keeps of its own.
\<close>

locale fill_loop =
  fixes qc :: qdma_queue_conf and db :: "ring_desc \<Rightarrow> 'b list" and byte :: "u64 \<Rightarrow> nat \<Rightarrow> 'b" and I :: "nat \<Rightarrow> dq_fill \<Rightarrow> bool"
    and entry :: "nat \<Rightarrow> nat \<Rightarrow> u64 \<Rightarrow> u32 \<Rightarrow> dq_fill \<Rightarrow> nat \<times> u32 \<times> dq_fill" and prep :: "dq_fill \<Rightarrow> dq_fill"
    and loop :: "nat \<Rightarrow> nat \<Rightarrow> qdma_sw_sg list \<Rightarrow> dq_fill \<Rightarrow> nat \<times> dq_fill"
  assumes entry_spec: "fill_at (unat (qc_rngsz qc)) lo db B H pos ds m fl \<Longrightarrow> 0 < k \<Longrightarrow>
      length (H @ ds) + k < lo + unat (qc_rngsz qc) \<Longrightarrow> I (pos + m) fl \<Longrightarrow>
      (\<And>j. j < unat tlen \<Longrightarrow> B (pos + m + j) = byte (src + of_nat j) (pos + m + j)) \<Longrightarrow>
      \<exists>ds' m' fl'. entry i k src tlen fl = (k - length ds', tlen - of_nat m', fl') \<and>
        fill_at (unat (qc_rngsz qc)) lo db B H pos (ds @ ds') (m + m') fl' \<and> ds' \<noteq> [] \<and> length ds' \<le> k \<and> m' \<le> unat tlen \<and>
        (m' = unat tlen \<or> length ds' = k) \<and> length ds' \<le> m' + of_bool (tlen = 0) \<and> I (pos + (m + m')) fl'"
    and prep_at: "fill_at n lo db B H pos ds m fl \<Longrightarrow> fill_at n lo db B H pos ds m (prep fl)"
    and prep_I: "I p fl \<Longrightarrow> I p (prep fl)" and sg_offset_I: "I p fl \<Longrightarrow> I p (fl\<lparr>fl_sg_offset := v\<rparr>)"
    and loop_Nil: "loop k i [] fl = (i, fl)"
    and loop_Cons: "loop k i (sg # sgl) fl =
      (if k = 0 then (i, fl)
       else let (k, tlen, fl) = entry i k (sg_dma_addr sg + ucast (fl_sg_offset fl)) (sg_len sg - fl_sg_offset fl) (prep fl)
            in loop k (Suc i) sgl (if tlen = 0 then fl\<lparr>fl_sg_offset := 0\<rparr> else fl))"
begin

text \<open>The outer loop: the entries that remain, the first of them from the offset on.\<close>

lemma loop_spec:
  assumes "fill_at (unat (qc_rngsz qc)) lo db B H pos ds m fl" 
    and "length (H @ ds) + k < lo + unat (qc_rngsz qc)" and "I (pos + m) fl"
    and "k \<noteq> 0 \<Longrightarrow> unat (fl_sg_offset fl) = off" and "k \<noteq> 0 \<Longrightarrow> sgl = [] \<longrightarrow> off = 0" and "k \<noteq> 0 \<Longrightarrow> sgl \<noteq> [] \<longrightarrow> off \<le> unat (sg_len (hd sgl))"
    and "\<And>j. j < length (sg_bytes (sgl_blocks sgl)) - off \<Longrightarrow>
      B (pos + m + j) = byte (sg_bytes (sgl_blocks sgl) ! (off + j)) (pos + m + j)"
  shows "\<exists>ds' m' fl' i'. loop k i sgl fl = (i', fl') \<and>
    fill_at (unat (qc_rngsz qc)) lo db B H pos (ds @ ds') (m + m') fl' \<and> (k \<noteq> 0 \<and> sgl \<noteq> [] \<longrightarrow> ds' \<noteq> []) \<and> length ds' \<le> k \<and>
    m' \<le> length (sg_bytes (sgl_blocks sgl)) - off \<and> (length ds' = k \<or> m' = length (sg_bytes (sgl_blocks sgl)) - off) \<and>
    ((k \<noteq> 0 \<and> sgl \<noteq> [] \<longrightarrow> off < unat (sg_len (hd sgl)) \<or> sg_len (hd sgl) = 0) \<longrightarrow> length ds' \<le> m' + empty_entries sgl)"
  using assms
proof (induction sgl arbitrary: i k fl ds m off)
  case Nil
  then show ?case by (intro exI [of _ "[]"] exI [of _ 0]) (auto simp: sg_bytes_def loop_Nil)
next
  case (Cons sg sgl)
  show ?case
  proof (cases "k = 0")
    case True
    then show ?thesis using Cons.prems(1) by (intro exI [of _ "[]"] exI [of _ 0]) (auto simp: loop_Cons)
  next
    case False
    note p = Cons.prems(1-3) Cons.prems(4-6) [OF False] Cons.prems(7)
    let ?rest = "sg_bytes (sgl_blocks sgl)" and ?tlen = "sg_len sg - fl_sg_offset fl"
    let ?fl = "prep fl"
    have off: "off \<le> unat (sg_len sg)" using p(6) by simp
    have tl: "unat ?tlen = unat (sg_len sg) - off" using off p(4) by (subst unat_sub) (simp_all add: word_le_nat_alt)
    have bytes: "sg_bytes (sgl_blocks (sg # sgl)) = block_bytes (sg_dma_addr sg) (sg_len sg) @ ?rest" by simp
    have at: "fill_at (unat (qc_rngsz qc)) lo db B H pos ds m ?fl"
      by (rule prep_at [OF p(1)])
    have eok: "I (pos + m) ?fl" by (rule prep_I [OF p(3)])
    have "\<exists>ds' m' fl'. entry i k (sg_dma_addr sg + ucast (fl_sg_offset fl)) ?tlen ?fl = (k - length ds', ?tlen - of_nat m', fl') \<and>
      fill_at (unat (qc_rngsz qc)) lo db B H pos (ds @ ds') (m + m') fl' \<and> ds' \<noteq> [] \<and> length ds' \<le> k \<and> m' \<le> unat ?tlen \<and>
      (m' = unat ?tlen \<or> length ds' = k) \<and> length ds' \<le> m' + of_bool (?tlen = 0) \<and> I (pos + (m + m')) fl'"
    proof (rule entry_spec [OF at _ p(2) eok])
      fix j
      assume j: "j < unat ?tlen"
      have o: "of_nat off = (ucast (fl_sg_offset fl) :: u64)" using p(4) by auto
      have "B (pos + m + j) = byte (sg_bytes (sgl_blocks (sg # sgl)) ! (off + j)) (pos + m + j)"
        by (rule p(7)) (use j tl in \<open>simp add: bytes\<close>)
      moreover have "sg_bytes (sgl_blocks (sg # sgl)) ! (off + j) = sg_dma_addr sg + ucast (fl_sg_offset fl) + of_nat j"
      proof -
        have "off + j < unat (sg_len sg)" using j tl by simp
        then show ?thesis using o unfolding bytes by (simp add: nth_append block_bytes_def add.assoc)
      qed
      ultimately show "B (pos + m + j) = byte (sg_dma_addr sg + ucast (fl_sg_offset fl) + of_nat j) (pos + m + j)"
        by simp
    qed (use False in simp)
    then obtain ds1 m1 fl1 where e: "entry i k (sg_dma_addr sg + ucast (fl_sg_offset fl)) ?tlen ?fl = (k - length ds1, ?tlen - of_nat m1, fl1)"
      "fill_at (unat (qc_rngsz qc)) lo db B H pos (ds @ ds1) (m + m1) fl1" "ds1 \<noteq> []" "length ds1 \<le> k" "m1 \<le> unat ?tlen"
      "m1 = unat ?tlen \<or> length ds1 = k" "length ds1 \<le> m1 + of_bool (?tlen = 0)" "I (pos + (m + m1)) fl1" by blast
    define fl2 where "fl2 = (if ?tlen - of_nat m1 = 0 then fl1\<lparr>fl_sg_offset := 0\<rparr> else fl1)"
    have step: "loop k i (sg # sgl) fl = loop (k - length ds1) (Suc i) sgl fl2"
      using False e(1) by (simp add: fl2_def loop_Cons)
    have at2: "fill_at (unat (qc_rngsz qc)) lo db B H pos (ds @ ds1) (m + m1) fl2" using e(2) by (simp add: fl2_def fill_at_def)
    have eok2: "I (pos + (m + m1)) fl2" using e(8) by (simp add: fl2_def sg_offset_I)
    have full: "m1 = unat ?tlen" if "k - length ds1 \<noteq> 0" using that e(6) by auto
    have off2: "unat (fl_sg_offset fl2) = 0" if "k - length ds1 \<noteq> 0" using full [OF that] by (simp add: fl2_def)
    have "\<exists>ds' m' fl' i'. loop (k - length ds1) (Suc i) sgl fl2 = (i', fl') \<and>
      fill_at (unat (qc_rngsz qc)) lo db B H pos ((ds @ ds1) @ ds') (m + m1 + m') fl' \<and> (k - length ds1 \<noteq> 0 \<and> sgl \<noteq> [] \<longrightarrow> ds' \<noteq> []) \<and>
      length ds' \<le> k - length ds1 \<and> m' \<le> length ?rest - 0 \<and> (length ds' = k - length ds1 \<or> m' = length ?rest - 0) \<and>
      ((k - length ds1 \<noteq> 0 \<and> sgl \<noteq> [] \<longrightarrow> 0 < unat (sg_len (hd sgl)) \<or> sg_len (hd sgl) = 0) \<longrightarrow> length ds' \<le> m' + empty_entries sgl)" if "k - length ds1 \<noteq> 0"
    proof (rule Cons.IH [OF at2 _ eok2 off2])
      fix j
      assume j: "j < length ?rest - 0"
      have "B (pos + m + (m1 + j)) = byte (sg_bytes (sgl_blocks (sg # sgl)) ! (off + (m1 + j))) (pos + m + (m1 + j))"
        using j full [OF that] tl off by (intro p(7)) (simp add: bytes)
      then show "B (pos + (m + m1) + j) = byte (?rest ! (0 + j)) (pos + (m + m1) + j)"
        using full [OF that] tl off by (simp add: bytes nth_append add.assoc)
    qed (use p(2) e(4) in auto)
    moreover have "\<exists>i'. loop (k - length ds1) (Suc i) sgl fl2 = (i', fl2)" if "k - length ds1 = 0"
      using that by (cases sgl) (simp_all add: loop_Nil loop_Cons)
    ultimately obtain ds2 m2 fl3 i' where r: "loop k i (sg # sgl) fl = (i', fl3)"
      "fill_at (unat (qc_rngsz qc)) lo db B H pos (ds @ (ds1 @ ds2)) (m + (m1 + m2)) fl3" "length (ds1 @ ds2) \<le> k"
      "m2 \<le> length ?rest" "length (ds1 @ ds2) = k \<or> (k - length ds1 \<noteq> 0 \<and> m2 = length ?rest)"
      "length ds2 \<le> m2 + empty_entries sgl" "k - length ds1 = 0 \<longrightarrow> m2 = 0"
    proof (cases "k - length ds1 = 0")
      case True
      then obtain i' where "loop (k - length ds1) (Suc i) sgl fl2 = (i', fl2)"
        using \<open>k - length ds1 = 0 \<Longrightarrow> \<exists>i'. _\<close> by blast
      then have s: "loop k i (sg # sgl) fl = (i', fl2)" by (simp only: step)
      have k: "length ds1 = k" using True e(4) by simp
      show thesis
      proof (rule that [of i' fl2 "[]" 0])
        show "fill_at (unat (qc_rngsz qc)) lo db B H pos (ds @ (ds1 @ [])) (m + (m1 + 0)) fl2" using at2 by simp
      qed (use s k in simp_all)
    next
      case False
      then obtain ds' m' fl' i' where r: "loop (k - length ds1) (Suc i) sgl fl2 = (i', fl')"
        "fill_at (unat (qc_rngsz qc)) lo db B H pos ((ds @ ds1) @ ds') (m + m1 + m') fl'" "length ds' \<le> k - length ds1" "m' \<le> length ?rest - 0"
        "length ds' = k - length ds1 \<or> m' = length ?rest - 0"
        "(k - length ds1 \<noteq> 0 \<and> sgl \<noteq> [] \<longrightarrow> 0 < unat (sg_len (hd sgl)) \<or> sg_len (hd sgl) = 0) \<longrightarrow> length ds' \<le> m' + empty_entries sgl"
        using \<open>k - length ds1 \<noteq> 0 \<Longrightarrow> \<exists>ds' m' fl' i'. _\<close> by blast
      have z: "length ds' \<le> m' + empty_entries sgl"
        using r(6) by (cases sgl) (auto simp: unat_gt_0)
      show thesis
      proof (rule that [of i' fl' ds' m'])
        show "loop k i (sg # sgl) fl = (i', fl')" using r(1) by (simp only: step)
        show "fill_at (unat (qc_rngsz qc)) lo db B H pos (ds @ (ds1 @ ds')) (m + (m1 + m')) fl'" using r(2) by (simp add: add.assoc)
        show "length (ds1 @ ds') = k \<or> (k - length ds1 \<noteq> 0 \<and> m' = length ?rest)" using r(5) False e(4) by auto
      qed (use r(3,4) False e(4) z in auto)
    qed
    show ?thesis
    proof (intro exI conjI impI)
      show "loop k i (sg # sgl) fl = (i', fl3)" by (fact r(1))
      show "fill_at (unat (qc_rngsz qc)) lo db B H pos (ds @ (ds1 @ ds2)) (m + (m1 + m2)) fl3" by (fact r(2))
      show "length (ds1 @ ds2) \<le> k" by (fact r(3))
      show "ds1 @ ds2 \<noteq> []" using e(3) by simp
      show "m1 + m2 \<le> length (sg_bytes (sgl_blocks (sg # sgl))) - off" using e(5) r(4) tl off by (simp add: bytes)
      show "length (ds1 @ ds2) = k \<or> m1 + m2 = length (sg_bytes (sgl_blocks (sg # sgl))) - off"
        using r(5) full tl off by (auto simp: bytes)
      assume "k \<noteq> 0 \<and> sg # sgl \<noteq> [] \<longrightarrow> off < unat (sg_len (hd (sg # sgl))) \<or> sg_len (hd (sg # sgl)) = 0"
      then have "off < unat (sg_len sg) \<or> sg_len sg = 0" using False by simp
      then show "length (ds1 @ ds2) \<le> m1 + m2 + empty_entries (sg # sgl)"
        using e(7) r(6) tl by (auto simp: word_unat_eq_iff empty_entries_def)
    qed
  qed
qed


text \<open>A round from where the request was left.\<close>

lemma loop_request:
  assumes "sgl_ok rq" and "cb_offset rq < req_count rq \<or> req_count rq = 0 \<and> cb_offset rq = 0"
    and "ring_holds (unat (qc_rngsz qc)) ring lo H" and "unat pidx = length H mod unat (qc_rngsz qc)"
    and "0 < k" and "length H + k < lo + unat (qc_rngsz qc)"
    and "\<And>off. I (unat (cb_offset rq)) \<lparr>fl_desc = ring, fl_pidx = pidx, fl_ep_addr = ep_addr, fl_data_cnt = 0, fl_desc_cnt = 0,
      fl_sg_offset = off, fl_desc_end = None\<rparr>"
  obtains i off ds m fl i' where "qdma_sgl_find_offset rq = Some (i, off)"
    and "loop k i (drop i (req_sgl rq)) \<lparr>fl_desc = ring, fl_pidx = pidx, fl_ep_addr = ep_addr, fl_data_cnt = 0, fl_desc_cnt = 0,
      fl_sg_offset = off, fl_desc_end = None\<rparr> = (i', fl)"
    and "fill_at (unat (qc_rngsz qc)) lo db (\<lambda>p. byte (sg_bytes (sgl_blocks (req_sgl rq)) ! p) p) H (unat (cb_offset rq)) ds m fl"
    and "ds \<noteq> []" and "length ds \<le> k" and "unat (cb_offset rq) + m \<le> unat (req_count rq)"
    and "unat (cb_offset rq) + m = unat (req_count rq) \<or> length ds = k"
    and "length ds \<le> m \<or> req_count rq = 0 \<and> length ds \<le> 1"
proof -
  obtain i off where f: "qdma_sgl_find_offset rq = Some (i, off)" "i < length (req_sgl rq)"
    "(\<Sum>sg\<leftarrow>take i (req_sgl rq). unat (sg_len sg)) + unat off = unat (cb_offset rq)"
    "unat off < unat (sg_len (req_sgl rq ! i)) \<or> sg_len (req_sgl rq ! i) = 0 \<and> unat off = 0"
    using find_offset_ok [OF assms(1,2)] by blast
  define fl0 where "fl0 = \<lparr>fl_desc = ring, fl_pidx = pidx, fl_ep_addr = ep_addr, fl_data_cnt = 0, fl_desc_cnt = 0,
    fl_sg_offset = off, fl_desc_end = None\<rparr>"
  define B where "B = (\<lambda>p. byte (sg_bytes (sgl_blocks (req_sgl rq)) ! p) p)"
  let ?sgl = "drop i (req_sgl rq)" and ?pos = "unat (cb_offset rq)"
  define s where "s = (\<Sum>sg\<leftarrow>take i (req_sgl rq). unat (sg_len sg))"
  have bytes: "sg_bytes (sgl_blocks ?sgl) = drop s (sg_bytes (sgl_blocks (req_sgl rq)))" by (rule sg_bytes_drop) (simp add: s_def)
  have total: "length (sg_bytes (sgl_blocks (req_sgl rq))) = unat (req_count rq)"
    using assms(1) by (simp add: length_sg_bytes sgl_ok_def)
  have le: "?pos \<le> unat (req_count rq)" using assms(2) by (auto simp: word_less_nat_alt)
  have left: "length (sg_bytes (sgl_blocks ?sgl)) - unat off = unat (req_count rq) - ?pos"
    unfolding bytes length_drop total using f(3) by (simp add: s_def)
  have hd: "?sgl \<noteq> []" "hd ?sgl = req_sgl rq ! i" using f(2) by (simp_all add: hd_drop_conv_nth)
  have at: "fill_at (unat (qc_rngsz qc)) lo db B H ?pos [] 0 fl0" using assms(3,4) by (simp add: fill_at_def fl0_def)
  have "\<exists>ds' m' fl' i'. loop k i ?sgl fl0 = (i', fl') \<and> fill_at (unat (qc_rngsz qc)) lo db B H ?pos ([] @ ds') (0 + m') fl' \<and>
    (k \<noteq> 0 \<and> ?sgl \<noteq> [] \<longrightarrow> ds' \<noteq> []) \<and> length ds' \<le> k \<and> m' \<le> length (sg_bytes (sgl_blocks ?sgl)) - unat off \<and>
    (length ds' = k \<or> m' = length (sg_bytes (sgl_blocks ?sgl)) - unat off) \<and>
    ((k \<noteq> 0 \<and> ?sgl \<noteq> [] \<longrightarrow> unat off < unat (sg_len (hd ?sgl)) \<or> sg_len (hd ?sgl) = 0) \<longrightarrow> length ds' \<le> m' + empty_entries ?sgl)"
  proof (rule loop_spec [OF at])
    fix j
    assume "j < length (sg_bytes (sgl_blocks ?sgl)) - unat off"
    have e: "s + (unat off + j) = ?pos + j" using f(3) by (simp add: s_def)
    have "s \<le> length (sg_bytes (sgl_blocks (req_sgl rq)))" using f(3) le unfolding total by (simp add: s_def)
    then have "sg_bytes (sgl_blocks ?sgl) ! (unat off + j) = sg_bytes (sgl_blocks (req_sgl rq)) ! (?pos + j)"
      unfolding bytes by (subst nth_drop) (simp_all only: e)
    then show "B (?pos + 0 + j) = byte (sg_bytes (sgl_blocks ?sgl) ! (unat off + j)) (?pos + 0 + j)"
      by (simp add: B_def)
  qed (use assms(6,7) hd f(4) in \<open>auto simp: fl0_def\<close>)
  then obtain ds m fl i' where r: "loop k i ?sgl fl0 = (i', fl)" "fill_at (unat (qc_rngsz qc)) lo db B H ?pos ds m fl" "ds \<noteq> []"
    "length ds \<le> k" "m \<le> unat (req_count rq) - ?pos" "length ds = k \<or> m = unat (req_count rq) - ?pos"
    "length ds \<le> m + empty_entries ?sgl"
    using assms(5) hd f(4) unfolding left by auto
  have "length ds \<le> m \<or> req_count rq = 0 \<and> length ds \<le> 1"
  proof (cases "req_count rq = 0")
    case True
    then have "length (req_sgl rq) = 1" using assms(1) by (auto simp: sgl_ok_def unat_eq_0)
    then have "empty_entries ?sgl \<le> 1" using length_filter_le [of "\<lambda>sg. sg_len sg = 0" ?sgl] by (simp add: empty_entries_def)
    then show ?thesis using r(5,7) True by simp
  next
    case False
    then have "\<forall>sg \<in> set (req_sgl rq). sg_len sg \<noteq> 0" using assms(1) by (auto simp: sgl_ok_def unat_eq_0)
    then have "empty_entries ?sgl = 0" by (auto simp: empty_entries_def filter_empty_conv dest: in_set_dropD)
    then show ?thesis using r(7) by simp
  qed
  then show thesis
    using that [OF f(1) r(1)[unfolded fl0_def] r(2)[unfolded B_def] r(3,4)] r(5,6) le by auto
qed

end

subsection \<open>Descriptors of memory mapped queues\<close>

text \<open>Where position \<open>p\<close> of a request is at the end point: a keyhole starts over at the end of its aperture.\<close>

definition ep_at :: "qdma_queue_conf \<Rightarrow> u64 \<Rightarrow> nat \<Rightarrow> u64" where
  "ep_at qc ep p = ep + of_nat (if dq_keyhole qc then p mod unat (dq_aperture qc) else p)"

text \<open>The bytes a descriptor moves: the memory address and the end point address of each.\<close>

definition mm_bytes :: "qdma_queue_conf \<Rightarrow> ring_desc \<Rightarrow> (u64 \<times> u64 option) list" where
  "mm_bytes qc d =
     (let m = mm_desc d;
          (mem, ep) = (if qc_q_type qc = Q_C2H then (md_dst_addr m, md_src_addr m) else (md_src_addr m, md_dst_addr m))
      in map (\<lambda>i. (mem + of_nat i, Some (ep + of_nat i))) [0..<unat (md_flag_len m AND QDMA_DESC_BLEN_MAX)])"

definition mm_byte :: "qdma_queue_conf \<Rightarrow> qdma_request \<Rightarrow> nat \<Rightarrow> u64 \<times> u64 option" where
  "mm_byte qc rq p = (sg_bytes (sgl_blocks (req_sgl rq)) ! p, Some (ep_at qc (req_ep_addr rq) p))"

text \<open>The aperture fits the length field, and the end point's addresses do not wrap within it.\<close>

definition aperture_ok :: "qdma_queue_conf \<Rightarrow> u64 \<Rightarrow> bool" where
  "aperture_ok qc ep \<longleftrightarrow> unat (dq_aperture qc) < 2 ^ 28 \<and> (dq_keyhole qc \<longrightarrow> unat ep + 2 * unat (dq_aperture qc) < 2 ^ 64)"

definition ep_ok :: "qdma_queue_conf \<Rightarrow> u64 \<Rightarrow> nat \<Rightarrow> u64 \<Rightarrow> bool" where
  "ep_ok qc ep p a \<longleftrightarrow> a = ep_at qc ep p \<or>
     dq_keyhole qc \<and> p mod unat (dq_aperture qc) = 0 \<and> a = ep + ucast (dq_aperture qc)"

lemma aperture_pos [simp]: "0 < unat (dq_aperture qc)"
  by (simp add: dq_aperture_def QDMA_DESC_BLEN_MAX_def unat_gt_0)

lemma len_mask:
  assumes "unat len < 2 ^ 28"
  shows "(len OR DESC_F_DV) AND QDMA_DESC_BLEN_MAX = len"
proof -
  have m: "QDMA_DESC_BLEN_MAX = mask 28" by (simp add: QDMA_DESC_BLEN_MAX_def mask_eq_decr_exp push_bit_eq_mult)
  have "len AND mask 28 = len"
    using assms by (simp add: word_unat_eq_iff unsigned_take_bit_eq take_bit_nat_eq_self flip: take_bit_eq_mask)
  moreover have "DESC_F_DV AND mask 28 = 0" by (simp add: DESC_F_DV_def mask_eq_decr_exp)
  ultimately show ?thesis by (simp add: m bit.conj_disj_distrib2)
qed

text \<open>How many bytes from position \<open>p\<close> on one descriptor takes at most.\<close>

definition mm_chunk :: "qdma_queue_conf \<Rightarrow> nat \<Rightarrow> nat" where
  "mm_chunk qc p = (if dq_keyhole qc then unat (dq_aperture qc) - p mod unat (dq_aperture qc) else unat (dq_aperture qc))"

lemma mm_chunk_pos: "0 < mm_chunk qc p" and mm_chunk_le: "mm_chunk qc p \<le> unat (dq_aperture qc)"
  using mod_less_divisor [OF aperture_pos, of p qc] by (auto simp: mm_chunk_def)

lemma mm_window_spec:
  assumes "aperture_ok qc ep" and "ep_ok qc ep p a"
  shows "\<exists>len. mm_window qc ep a tlen = (ep_at qc ep p, len) \<and> unat len = min (unat tlen) (mm_chunk qc p)"
proof (cases "dq_keyhole qc")
  case False
  then show ?thesis using assms(2) by (auto simp: mm_window_def mm_chunk_def ep_ok_def min_def word_le_nat_alt Let_def)
next
  case True
  let ?ap = "unat (dq_aperture qc)"
  define qm where "qm = p mod ?ap"
  have chunk: "mm_chunk qc p = ?ap - qm" using True by (simp add: mm_chunk_def qm_def)
  have epat: "ep_at qc ep p = ep + of_nat qm" using True by (simp add: ep_at_def qm_def)
  have fit: "unat ep + 2 * ?ap < 2 ^ 64" and ap: "?ap < 2 ^ 28" using assms(1) True by (auto simp: aperture_ok_def)
  have q: "qm < ?ap" by (simp add: qm_def)
  have at: "unat (ep_at qc ep p) = unat ep + qm"
  proof -
    have "qm < 2 ^ 64" by (rule less_trans [OF q less_trans [OF ap]]) simp
    then have "unat (of_nat qm :: u64) = qm" by (simp add: unat_of_nat take_bit_nat_eq_self)
    moreover have "unat ep + qm < 2 ^ 64" using fit q by linarith
    ultimately show ?thesis by (simp add: epat unat_add_lem [THEN iffD1])
  qed
  have top: "unat (ep + ucast (dq_aperture qc)) = unat ep + ?ap"
    using fit by (simp add: unat_add_lem [THEN iffD1])
  have mx: "unat (ep + ucast (dq_aperture qc) - 1) = unat ep + ?ap - 1"
  proof -
    have "ep + ucast (dq_aperture qc) \<noteq> 0" using top by (metis add_is_0 aperture_pos not_gr_zero unat_0)
    then show ?thesis by (simp add: unat_minus_one top)
  qed
  let ?mx = "ep + ucast (dq_aperture qc) - 1"
  have start: "(if ?mx < a then ep else a) = ep_at qc ep p"
  proof (cases "a = ep_at qc ep p")
    case True
    moreover have "\<not> ?mx < ep_at qc ep p" unfolding word_less_nat_alt mx at using q by linarith
    ultimately show ?thesis by simp
  next
    case False
    then have "qm = 0" and "a = ep + ucast (dq_aperture qc)" using assms(2) by (auto simp: ep_ok_def qm_def)
    then show ?thesis using top by (auto simp: word_less_nat_alt mx epat)
  qed
  define l where "l = min tlen (dq_aperture qc)"
  have l: "unat l = min (unat tlen) ?ap" by (auto simp: l_def min_def word_le_nat_alt)
  have e: "unat (ep_at qc ep p + ucast l) = unat ep + qm + unat l"
  proof -
    have "unat ep + qm + unat l < 2 ^ 64" using fit q l by linarith
    then show ?thesis using at by (simp add: unat_add_lem [THEN iffD1])
  qed
  show ?thesis
  proof (cases "?mx < ep_at qc ep p + ucast l")
    case False
    then have "unat l \<le> ?ap - qm - 1" using q by (simp add: word_less_nat_alt mx e)
    then have "unat l = min (unat tlen) (mm_chunk qc p)" using l q by (simp add: chunk)
    then show ?thesis using True False start by (simp add: mm_window_def Let_def flip: l_def)
  next
    case lt: True
    have "unat (?mx - ep_at qc ep p + 1) = ?ap - qm"
    proof -
      have "unat (?mx - ep_at qc ep p) = ?ap - qm - 1"
        using q by (subst unat_sub) (simp_all add: word_le_nat_alt mx at)
      then show ?thesis using q ap by (subst unat_add_lem [THEN iffD1]) simp_all
    qed
    then have c: "unat (ucast (?mx - ep_at qc ep p + 1) :: u32) = ?ap - qm"
      using ap by (simp add: unsigned_ucast_eq take_bit_nat_eq_self)
    have "min (unat tlen) (mm_chunk qc p) = ?ap - qm"
      using lt l q by (auto simp: word_less_nat_alt mx e chunk min_def split: if_splits)
    then show ?thesis using True lt start c by (simp add: mm_window_def Let_def flip: l_def)
  qed
qed

text \<open>One descriptor names the bytes from position \<open>p\<close> on.\<close>

lemma ep_at_within:
  assumes "i < mm_chunk qc p"
  shows "ep_at qc ep p + of_nat i = ep_at qc ep (p + i)"
proof (cases "dq_keyhole qc")
  case True
  then have "p mod unat (dq_aperture qc) + i < unat (dq_aperture qc)" using assms by (simp add: mm_chunk_def)
  then have "(p + i) mod unat (dq_aperture qc) = p mod unat (dq_aperture qc) + i"
    by (metis mod_add_left_eq mod_less)
  then show ?thesis using True by (simp add: ep_at_def add.assoc)
qed (simp add: ep_at_def add.assoc)

lemma ep_ok_next:
  assumes "l \<le> mm_chunk qc p" and "ep_at qc ep p + of_nat l = a" and "unat (dq_aperture qc) < 2 ^ 28"
  shows "ep_ok qc ep (p + l) a"
proof (cases "l < mm_chunk qc p")
  case True
  then show ?thesis using assms(2) ep_at_within [OF True, of ep] by (simp add: ep_ok_def)
next
  case False
  then have l: "l = mm_chunk qc p" using assms(1) by simp
  show ?thesis
  proof (cases "dq_keyhole qc")
    case key: True
    let ?ap = "unat (dq_aperture qc)"
    have s: "p mod ?ap + l = ?ap" using key l mod_less_divisor [OF aperture_pos, of p qc] by (simp add: mm_chunk_def)
    have "(p + l) mod ?ap = 0" by (metis mod_add_left_eq mod_self s)
    moreover have "a = ep + of_nat (p mod ?ap + l)" using assms(2) key by (simp add: ep_at_def add.assoc)
    ultimately show ?thesis using key by (simp add: ep_ok_def s)
  qed (use assms(2) in \<open>simp add: ep_ok_def ep_at_def add.assoc\<close>)
qed

lemma mm_write_bytes:
  assumes "unat len < 2 ^ 28"
  shows "mm_bytes qc (MmDesc (mm_write qc src ep len)) = map (\<lambda>i. (src + of_nat i, Some (ep + of_nat i))) [0..<unat len]"
  by (simp add: mm_bytes_def mm_write_def len_mask [OF assms])

text \<open>The inner loop: the descriptors it adds name the next bytes of the entry, up to its end or the room.\<close>

lemma mm_fill_entry_spec:
  assumes "fill_at n lo (mm_bytes qc) B H pos ds m fl" and "n = unat (qc_rngsz qc)" and "0 < k"
    and "length (H @ ds) + k < lo + n" and "aperture_ok qc ep" and "ep_ok qc ep (pos + m) (fl_ep_addr fl)"
    and "\<And>j. j < unat tlen \<Longrightarrow> B (pos + m + j) = (src + of_nat j, Some (ep_at qc ep (pos + m + j)))"
  shows "\<exists>ds' m' fl'. mm_fill_entry qc ep k src tlen fl = (k - length ds', tlen - of_nat m', fl') \<and>
    fill_at n lo (mm_bytes qc) B H pos (ds @ ds') (m + m') fl' \<and> ds' \<noteq> [] \<and> length ds' \<le> k \<and> m' \<le> unat tlen \<and>
    (m' = unat tlen \<or> length ds' = k) \<and> length ds' \<le> m' + of_bool (tlen = 0) \<and> ep_ok qc ep (pos + (m + m')) (fl_ep_addr fl')"
  using assms
proof (induction k arbitrary: src tlen fl ds m)
  case (Suc k)
  let ?p = "pos + m"
  obtain len where win: "mm_window qc ep (fl_ep_addr fl) tlen = (ep_at qc ep ?p, len)"
    and len: "unat len = min (unat tlen) (mm_chunk qc ?p)"
    using mm_window_spec [OF Suc.prems(5,6)] by blast
  define l where "l = unat len"
  have ap: "unat (dq_aperture qc) < 2 ^ 28" using Suc.prems(5) by (simp add: aperture_ok_def)
  have l: "l \<le> unat tlen" "l \<le> mm_chunk qc ?p" "l < 2 ^ 28" "unat tlen \<noteq> 0 \<longrightarrow> 0 < l"
    using len ap mm_chunk_le [of qc ?p] mm_chunk_pos [of qc ?p] by (auto simp: l_def)
  have ll: "of_nat l = len" "(of_nat l :: u64) = ucast len" by (simp_all add: l_def)
  define d where "d = MmDesc (mm_write qc src (ep_at qc ep ?p) len)"
  have bytes: "mm_bytes qc d = map B [?p..<?p + l]"
  proof -
    have "mm_bytes qc d = map (\<lambda>i. (src + of_nat i, Some (ep_at qc ep ?p + of_nat i))) [0..<l]"
      unfolding d_def using l(3) by (subst mm_write_bytes) (simp_all add: l_def)
    also have "\<dots> = map (\<lambda>i. B (?p + i)) [0..<l]"
      using l(1,2) by (intro map_cong) (simp_all add: Suc.prems(7) ep_at_within)
    also have "\<dots> = map B [?p..<?p + l]"
      by (rule map_from)
    finally show ?thesis .
  qed
  define fl1 where "fl1 = fl\<lparr>fl_desc := (fl_desc fl)[unat (fl_pidx fl) := d], fl_pidx := pidx_next (qc_rngsz qc) (fl_pidx fl),
    fl_ep_addr := ep_at qc ep ?p + ucast len, fl_data_cnt := fl_data_cnt fl + len, fl_desc_cnt := fl_desc_cnt fl + 1,
    fl_sg_offset := fl_sg_offset fl + len, fl_desc_end := Some (unat (fl_pidx fl))\<rparr>"
  have n32: "n < 2 ^ 32" unfolding Suc.prems(2) by (rule unat_u32)
  have at: "fill_at n lo (mm_bytes qc) B H pos (ds @ [d]) (m + l) fl1"
    by (rule fill_at_step [OF Suc.prems(1) _ Suc.prems(2) n32 bytes]) (use Suc.prems(4) in \<open>simp_all add: fl1_def ll\<close>)
  have eok: "ep_ok qc ep (pos + (m + l)) (fl_ep_addr fl1)"
    using ep_ok_next [OF l(2) _ ap, of ep] by (simp add: fl1_def ll add.assoc)
  have rest: "unat (tlen - len) = unat tlen - l"
    using l(1) by (subst unat_sub) (simp_all add: l_def word_le_nat_alt)
  have unfold: "mm_fill_entry qc ep (Suc k) src tlen fl =
      (if k = 0 \<or> tlen - len = 0 then (k, tlen - len, fl1) else mm_fill_entry qc ep k (src + ucast len) (tlen - len) fl1)"
    by (simp add: win fl1_def d_def Let_def)
  show ?case
  proof (cases "k = 0 \<or> tlen - len = 0")
    case True
    then have "l = unat tlen \<or> k = 0" using rest l(1) by (auto simp: word_unat_eq_iff)
    then show ?thesis
      using True at eok l(1,4) unfold ll(1) by (intro exI [of _ "[d]"] exI [of _ l] exI [of _ fl1]) (auto simp: unat_eq_0)
  next
    case False
    have "\<exists>ds' m' fl'. mm_fill_entry qc ep k (src + ucast len) (tlen - len) fl1 = (k - length ds', tlen - len - of_nat m', fl') \<and>
      fill_at n lo (mm_bytes qc) B H pos ((ds @ [d]) @ ds') (m + l + m') fl' \<and> ds' \<noteq> [] \<and> length ds' \<le> k \<and> m' \<le> unat (tlen - len) \<and>
      (m' = unat (tlen - len) \<or> length ds' = k) \<and> length ds' \<le> m' + of_bool (tlen - len = 0) \<and> ep_ok qc ep (pos + (m + l + m')) (fl_ep_addr fl')"
    proof (rule Suc.IH [OF at Suc.prems(2) _ _ Suc.prems(5) eok])
      fix j
      assume "j < unat (tlen - len)"
      then have "B (pos + m + (l + j)) = (src + of_nat (l + j), Some (ep_at qc ep (pos + m + (l + j))))"
        using rest by (intro Suc.prems(7)) simp
      then show "B (pos + (m + l) + j) = (src + ucast len + of_nat j, Some (ep_at qc ep (pos + (m + l) + j)))"
        by (simp add: ll(2) add.assoc)
    qed (use False Suc.prems(4) in auto)
    then obtain ds' m' fl' where r: "mm_fill_entry qc ep k (src + ucast len) (tlen - len) fl1 = (k - length ds', tlen - len - of_nat m', fl')"
      "fill_at n lo (mm_bytes qc) B H pos ((ds @ [d]) @ ds') (m + l + m') fl'" "ds' \<noteq> []" "length ds' \<le> k" "m' \<le> unat (tlen - len)"
      "m' = unat (tlen - len) \<or> length ds' = k" "length ds' \<le> m' + of_bool (tlen - len = 0)" "ep_ok qc ep (pos + (m + l + m')) (fl_ep_addr fl')"
      by blast
    have e: "tlen - len - of_nat m' = tlen - of_nat (l + m')" by (simp add: ll(1) algebra_simps)
    have "l \<noteq> 0" using False l(4) rest by (auto simp: word_unat_eq_iff)
    then show ?thesis
      using r(2-8) r(1)[unfolded e] False unfold rest l(1)
      by (intro exI [of _ "d # ds'"] exI [of _ "l + m'"] exI [of _ fl']) (auto simp: add.assoc)
  qed
qed simp

interpretation mm_fill: fill_loop qc "mm_bytes qc" "\<lambda>a p. (a, Some (ep_at qc ep p))"
  "\<lambda>p fl. aperture_ok qc ep \<and> ep_ok qc ep p (fl_ep_addr fl)" "\<lambda>i. mm_fill_entry qc ep"
  "\<lambda>fl. fl\<lparr>fl_desc := upd_desc (\<lambda>d. MmDesc ((mm_desc d)\<lparr>md_flag_len := 0\<rparr>)) (unat (fl_pidx fl)) (fl_desc fl), fl_sg_offset := 0\<rparr>"
  "mm_fill_sgl qc ep" for qc ep
proof (unfold_locales, goal_cases)
  case (1 lo B H pos ds m fl k tlen src i)
  have "aperture_ok qc ep" "ep_ok qc ep (pos + m) (fl_ep_addr fl)" using 1(4) by simp_all
  then show ?case using mm_fill_entry_spec [OF 1(1) refl 1(2,3) _ _ 1(5)] by simp
next
  case (2 n lo B H pos ds m fl)
  then show ?case using ring_holds_free [of n "fl_desc fl" lo "H @ ds"] by (auto simp: fill_at_def upd_desc_def)
qed (simp_all add: Let_def split: prod.splits)

subsection \<open>Descriptors of host-to-card streams\<close>

text \<open>A descriptor of a stream names memory only.\<close>

definition st_bytes :: "ring_desc \<Rightarrow> (u64 \<times> u64 option) list" where
  "st_bytes d = map (\<lambda>i. (hd_src_addr (h2c_desc d) + of_nat i, None)) [0..<unat (hd_len (h2c_desc d))]"

definition st_byte :: "qdma_request \<Rightarrow> nat \<Rightarrow> u64 \<times> u64 option" where
  "st_byte rq p = (sg_bytes (sgl_blocks (req_sgl rq)) ! p, None)"

lemma st_write_bytes:
  assumes "unat len < 2 ^ 16"
  shows "st_bytes (st_write qc sg_max i src len d) = map (\<lambda>i. (src + of_nat i, None)) [0..<unat len]"
proof -
  have "unat (ucast len :: u16) = unat len" using assms by (simp add: unsigned_ucast_eq take_bit_nat_eq_self)
  then show ?thesis by (simp add: st_bytes_def st_write_def Let_def)
qed

lemma st_fill_entry_spec:
  assumes "fill_at (unat (qc_rngsz qc)) lo st_bytes B H pos ds m fl" and "0 < k"
    and "length (H @ ds) + k < lo + unat (qc_rngsz qc)" and "pktsz \<noteq> 0" "unat pktsz < 2 ^ 16"
    and "\<And>j. j < unat tlen \<Longrightarrow> B (pos + m + j) = (src + of_nat j, None)"
  shows "\<exists>ds' m' fl'. st_fill_entry qc pktsz sg_max i k src tlen fl = (k - length ds', tlen - of_nat m', fl') \<and>
    fill_at (unat (qc_rngsz qc)) lo st_bytes B H pos (ds @ ds') (m + m') fl' \<and> ds' \<noteq> [] \<and> length ds' \<le> k \<and> m' \<le> unat tlen \<and>
    (m' = unat tlen \<or> length ds' = k) \<and> length ds' \<le> m' + of_bool (tlen = 0)"
  using assms
proof (induction k arbitrary: src tlen fl ds m)
  case (Suc k)
  let ?p = "pos + m"
  define len where "len = min tlen pktsz"
  define l where "l = unat len"
  have l: "l \<le> unat tlen" "l < 2 ^ 16" "tlen \<noteq> 0 \<longrightarrow> 0 < l"
    using Suc.prems(4,5) by (auto simp: l_def len_def min_def word_le_nat_alt unat_gt_0)
  have ll: "of_nat l = len" "(of_nat l :: u64) = ucast len" by (simp_all add: l_def)
  define j where "j = unat (fl_pidx fl)"
  define next' where "next' = pidx_next (qc_rngsz qc) (fl_pidx fl)"
  define d where "d = st_write qc sg_max i src len (fl_desc fl ! j)"
  have bytes: "st_bytes d = map B [?p..<?p + l]"
  proof -
    have "st_bytes d = map (\<lambda>i. (src + of_nat i, None)) [0..<l]"
      unfolding d_def using l(2) by (subst st_write_bytes) (simp_all add: l_def)
    also have "\<dots> = map (\<lambda>i. B (?p + i)) [0..<l]" using l(1) by (intro map_cong) (simp_all add: Suc.prems(6))
    finally show ?thesis unfolding map_from .
  qed
  define fl1 where "fl1 = fl\<lparr>fl_desc := (if next' = 0 then (fl_desc fl)[j := d] else upd_desc st_clear (unat next') ((fl_desc fl)[j := d])),
    fl_pidx := next', fl_data_cnt := fl_data_cnt fl + len, fl_desc_cnt := fl_desc_cnt fl + 1,
    fl_sg_offset := fl_sg_offset fl + len, fl_desc_end := Some j\<rparr>"
  have at: "fill_at (unat (qc_rngsz qc)) lo st_bytes B H pos (ds @ [d]) (m + l) fl1"
    by (rule fill_at_step [OF Suc.prems(1) _ refl unat_u32 bytes])
      (use Suc.prems(3) in \<open>auto simp: fl1_def ll j_def next'_def upd_desc_def\<close>)
  have rest: "unat (tlen - len) = unat tlen - l"
    using l(1) by (subst unat_sub) (simp_all add: l_def word_le_nat_alt)
  have unfold: "st_fill_entry qc pktsz sg_max i (Suc k) src tlen fl =
      (if k = 0 \<or> tlen - len = 0 then (k, tlen - len, fl1) else st_fill_entry qc pktsz sg_max i k (src + ucast len) (tlen - len) fl1)"
    by (simp add: fl1_def d_def len_def j_def next'_def upd_desc_def Let_def)
  show ?case
  proof (cases "k = 0 \<or> tlen - len = 0")
    case True
    then have "l = unat tlen \<or> k = 0" using rest l(1) by (auto simp: word_unat_eq_iff)
    then show ?thesis
      using True at l(1,3) unfold ll(1) by (intro exI [of _ "[d]"] exI [of _ l] exI [of _ fl1]) (auto simp: unat_eq_0)
  next
    case False
    have "\<exists>ds' m' fl'. st_fill_entry qc pktsz sg_max i k (src + ucast len) (tlen - len) fl1 = (k - length ds', tlen - len - of_nat m', fl') \<and>
      fill_at (unat (qc_rngsz qc)) lo st_bytes B H pos ((ds @ [d]) @ ds') (m + l + m') fl' \<and> ds' \<noteq> [] \<and> length ds' \<le> k \<and> m' \<le> unat (tlen - len) \<and>
      (m' = unat (tlen - len) \<or> length ds' = k) \<and> length ds' \<le> m' + of_bool (tlen - len = 0)"
    proof (rule Suc.IH [OF at _ _ Suc.prems(4,5)])
      fix j
      assume "j < unat (tlen - len)"
      then have "B (pos + m + (l + j)) = (src + of_nat (l + j), None)" using rest by (intro Suc.prems(6)) simp
      then show "B (pos + (m + l) + j) = (src + ucast len + of_nat j, None)" by (simp add: ll(2) add.assoc)
    qed (use False Suc.prems(3) in auto)
    then obtain ds' m' fl' where r: "st_fill_entry qc pktsz sg_max i k (src + ucast len) (tlen - len) fl1 = (k - length ds', tlen - len - of_nat m', fl')"
      "fill_at (unat (qc_rngsz qc)) lo st_bytes B H pos ((ds @ [d]) @ ds') (m + l + m') fl'" "ds' \<noteq> []" "length ds' \<le> k" "m' \<le> unat (tlen - len)"
      "m' = unat (tlen - len) \<or> length ds' = k" "length ds' \<le> m' + of_bool (tlen - len = 0)"
      by blast
    have e: "tlen - len - of_nat m' = tlen - of_nat (l + m')" by (simp add: ll(1) algebra_simps)
    have "l \<noteq> 0" using False l(3) rest by (auto simp: word_unat_eq_iff)
    then show ?thesis
      using r(2-7) r(1)[unfolded e] False unfold rest l(1)
      by (intro exI [of _ "d # ds'"] exI [of _ "l + m'"] exI [of _ fl']) (auto simp: add.assoc)
  qed
qed simp

interpretation st_fill: fill_loop qc st_bytes "\<lambda>a p. (a, None)" "\<lambda>p fl. pktsz \<noteq> 0 \<and> unat pktsz < 2 ^ 16"
  "st_fill_entry qc pktsz sg_max" "\<lambda>fl. fl\<lparr>fl_sg_offset := 0\<rparr>" "st_fill_sgl qc pktsz sg_max" for qc pktsz sg_max
proof (unfold_locales, goal_cases)
  case (1 lo B H pos ds m fl k tlen src i)
  then show ?case using st_fill_entry_spec [OF 1(1-3) _ _ 1(5)] by simp
qed (simp_all add: fill_at_def Let_def split: prod.splits)

end
