(* ===== verification/Descq_Queue.thy ===== *)
theory Descq_Queue
  imports Descq_Fill
begin

section \<open>A queue and its hardware\<close>

text \<open>
  The contract of the hardware, the invariant that ties the queue's variables to the descriptors written, announced, moved
  and reported so far, and its preservation by completions and by the rounds of the processing loop.
\<close>

unbundle bit_operations_syntax

subsection \<open>The hardware\<close>

text \<open>
  Counted from the start of the queue, the hardware knows of \<open>ann\<close> descriptors, has carried out those in \<open>moved\<close>, and
  has reported \<open>rep\<close> of them; in between it works on. A producer index announces the descriptors up to it, unless its
  write fails.
\<close>

locale descq_hardware =
  fixes io :: "'s dq_io" and n :: nat and ann rep :: "'s \<Rightarrow> nat" and moved :: "'s \<Rightarrow> ring_desc list"
  assumes hw_read: "read_cidx io ring s = (v, s') \<Longrightarrow> length ring = n \<Longrightarrow> rep s \<le> length (moved s) \<Longrightarrow> length (moved s) \<le> ann s \<Longrightarrow>
      v = of_nat (rep s' mod n) \<and> ann s' = ann s \<and> rep s \<le> rep s' \<and> rep s' \<le> length (moved s') \<and>
      length (moved s) \<le> length (moved s') \<and> length (moved s') \<le> ann s \<and>
      moved s' = moved s @ map (\<lambda>a. ring ! (a mod n)) [length (moved s)..<length (moved s')]"
    and hw_pidx: "pidx_update io pi s = (rv, s') \<Longrightarrow> rep s' = rep s \<and> moved s' = moved s \<and>
      ann s' = (if rv < 0 then ann s else ann s + (unat (pi_pidx pi) + n - ann s mod n) mod n)"

subsection \<open>The invariant\<close>

definition ring_inv :: "nat \<Rightarrow> nat \<Rightarrow> ring_desc list \<Rightarrow> qdma_descq \<Rightarrow> bool" where
  "ring_inv n C H q \<longleftrightarrow> ring_holds n (dq_desc q) C H \<and> unat (dq_cidx q) = C mod n \<and> unat (dq_pidx q) = length H mod n \<and>
     unat (dq_avail q) + (length H - C) = n - 1"

definition hw_inv :: "nat \<Rightarrow> nat \<Rightarrow> nat \<Rightarrow> ring_desc list \<Rightarrow> nat \<Rightarrow> ring_desc list \<Rightarrow> qdma_descq \<Rightarrow> bool" where
  "hw_inv n r a m P H q \<longleftrightarrow> r \<le> length m \<and> length m \<le> a \<and> a \<le> P \<and> P \<le> length H \<and> m = take (length m) H \<and>
     (unat (pi_pidx (dq_pidx_info q)) = P mod n \<or> P = 0)"

text \<open>The parts of a request that the driver does not change while it is in the queue.\<close>

definition same_request :: "qdma_request \<Rightarrow> qdma_request \<Rightarrow> bool" where
  "same_request rq rq' \<longleftrightarrow> req_sgl rq = req_sgl rq' \<and> req_count rq = req_count rq' \<and> req_ep_addr rq = req_ep_addr rq' \<and>
     req_fp_done rq = req_fp_done rq'"

text \<open>
  \<open>seg r\<close> are the descriptors of request \<open>r\<close>, \<open>R r\<close> is the request as it was submitted, and \<open>fin\<close> are the requests that
  are done. Only the first request of the work list has been begun.
\<close>

definition pend_ok :: "(ring_desc \<Rightarrow> 'b list) \<Rightarrow> (qdma_request \<Rightarrow> nat \<Rightarrow> 'b) \<Rightarrow> qdma_request \<Rightarrow> ring_desc list \<Rightarrow> bool" where
  "pend_ok db byte rq ds \<longleftrightarrow> concat (map db ds) = map (byte rq) [0..<unat (req_count rq)] \<and> ds \<noteq> [] \<and> length ds \<le> 2 ^ 31"

definition work_ok :: "(ring_desc \<Rightarrow> 'b list) \<Rightarrow> (qdma_request \<Rightarrow> nat \<Rightarrow> 'b) \<Rightarrow> qdma_request \<Rightarrow> qdma_request \<Rightarrow> ring_desc list \<Rightarrow> bool" where
  "work_ok db byte rq cb ds \<longleftrightarrow> same_request cb rq \<and> concat (map db ds) = map (byte rq) [0..<unat (cb_offset cb)] \<and>
     (cb_offset cb < req_count cb \<or> req_count cb = 0 \<and> cb_offset cb = 0) \<and> unat (cb_desc_nr cb) = length ds \<and>
     length ds \<le> unat (cb_offset cb) \<and> unat (req_count rq) < 2 ^ 31"

definition req_inv :: "(ring_desc \<Rightarrow> 'b list) \<Rightarrow> (qdma_request \<Rightarrow> nat \<Rightarrow> 'b) \<Rightarrow> (nat \<Rightarrow> qdma_request) \<Rightarrow> (nat \<Rightarrow> ring_desc list) \<Rightarrow>
    nat list \<Rightarrow> 's dq_world \<Rightarrow> bool" where
  "req_inv db byte R seg fin w \<longleftrightarrow>
     distinct (fin @ dq_pend_list (dw_q w) @ dq_work_list (dw_q w)) \<and>
     (\<forall>r \<in> set (fin @ dq_pend_list (dw_q w)). pend_ok db byte (R r) (seg r)) \<and>
     (\<forall>r \<in> set (dq_pend_list (dw_q w)). same_request (dw_req w r) (R r) \<and> cb_offset (dw_req w r) = req_count (R r) \<and>
        unat (cb_desc_nr (dw_req w r)) \<le> length (seg r)) \<and>
     (\<forall>r \<in> set (tl (dq_pend_list (dw_q w))). unat (cb_desc_nr (dw_req w r)) = length (seg r)) \<and>
     (\<forall>r \<in> set (dq_work_list (dw_q w)). work_ok db byte (R r) (dw_req w r) (seg r)) \<and>
     (\<forall>r \<in> set (tl (dq_work_list (dw_q w))). seg r = [])"

definition written :: "(nat \<Rightarrow> ring_desc list) \<Rightarrow> nat list \<Rightarrow> ring_desc list" where
  "written seg rs = concat (map seg rs)"

text \<open>
  The credit is what the completed descriptors exceed those of the requests done and the part of the first pending request
  that is accounted for.
\<close>

definition credit_inv :: "(nat \<Rightarrow> ring_desc list) \<Rightarrow> nat list \<Rightarrow> nat \<Rightarrow> nat \<Rightarrow> 's dq_world \<Rightarrow> bool" where
  "credit_inv seg fin C cr w \<longleftrightarrow>
     (case dq_pend_list (dw_q w) of
        [] \<Rightarrow> C = length (written seg fin) + cr
      | p # ps \<Rightarrow> C + unat (cb_desc_nr (dw_req w p)) = length (written seg fin) + length (seg p) + cr)"

text \<open>The first pending request still waits for descriptors.\<close>

definition waiting :: "nat \<Rightarrow> 's dq_world \<Rightarrow> bool" where
  "waiting cr w \<longleftrightarrow> (\<forall>p ps. dq_pend_list (dw_q w) = p # ps \<longrightarrow> cr < unat (cb_desc_nr (dw_req w p)))"

text \<open>The requests whose owners were told that they are done, and that they were told so without an error.\<close>

fun finished :: "dq_event list \<Rightarrow> nat list" where
  "finished [] = []"
| "finished (FpDone r off err # es) = r # finished es"
| "finished (Wakeup r # es) = r # finished es"
| "finished (e # es) = finished es"

definition told_ok :: "(nat \<Rightarrow> qdma_request) \<Rightarrow> dq_event list \<Rightarrow> bool" where
  "told_ok R es \<longleftrightarrow> (\<forall>r off err. FpDone r off err \<in> set es \<longrightarrow> off = req_count (R r) \<and> err = 0)"

lemma finished_append [simp]: "finished (es @ es') = finished es @ finished es'"
  by (induction es rule: finished.induct) simp_all

lemma told_ok_append [simp]: "told_ok R (es @ es') \<longleftrightarrow> told_ok R es \<and> told_ok R es'"
  by (auto simp: told_ok_def)

lemma sgl_unmap_events: "sgl_unmap k sgl = (sgl', es) \<Longrightarrow> finished es = [] \<and> told_ok R es"
  by (induction k sgl arbitrary: sgl' es rule: sgl_unmap.induct)
    (auto simp: told_ok_def Let_def split: if_splits prod.splits)

lemma written_simps [simp]:
  "written seg [] = []" "written seg (r # rs) = seg r @ written seg rs" "written seg (rs @ rs') = written seg rs @ written seg rs'"
  by (simp_all add: written_def)

subsection \<open>Completion\<close>

text \<open>What finishing a pending request changes.\<close>

lemma done_unmap_spec:
  "dw_q (done_unmap r w) = dw_q w" "dw_dev (done_unmap r w) = dw_dev w"
  "r' \<noteq> r \<Longrightarrow> dw_req (done_unmap r w) r' = dw_req w r'"
  "cb_offset (dw_req (done_unmap r w) r) = cb_offset (dw_req w r)"
  "req_count (dw_req (done_unmap r w) r) = req_count (dw_req w r)"
  "finished (dw_events (done_unmap r w)) = finished (dw_events w)"
  "told_ok R (dw_events (done_unmap r w)) = told_ok R (dw_events w)"
proof -
  obtain sgl es where u: "sgl_unmap (length (req_sgl (dw_req w r))) (req_sgl (dw_req w r)) = (sgl, es)" by fastforce
  note e = sgl_unmap_events [OF u, of R]
  show "dw_q (done_unmap r w) = dw_q w" "dw_dev (done_unmap r w) = dw_dev w"
    "r' \<noteq> r \<Longrightarrow> dw_req (done_unmap r w) r' = dw_req w r'"
    "cb_offset (dw_req (done_unmap r w) r) = cb_offset (dw_req w r)"
    "req_count (dw_req (done_unmap r w) r) = req_count (dw_req w r)"
    "finished (dw_events (done_unmap r w)) = finished (dw_events w)"
    "told_ok R (dw_events (done_unmap r w)) = told_ok R (dw_events w)"
    using e by (simp_all add: done_unmap_def unmap_request_def u)
qed

lemma done_tell_spec:
  assumes "cb_offset (dw_req w r) = req_count (dw_req w r)"
  shows "dw_q (done_tell r 0 w) = dw_q w" "dw_dev (done_tell r 0 w) = dw_dev w"
    "r' \<noteq> r \<Longrightarrow> dw_req (done_tell r 0 w) r' = dw_req w r'"
    "finished (dw_events (done_tell r 0 w)) = finished (dw_events w) @ [r]"
    "told_ok R (dw_events w) \<Longrightarrow> req_count (dw_req w r) = req_count (R r) \<Longrightarrow> told_ok R (dw_events (done_tell r 0 w))"
  using assms by (auto simp: done_tell_def Let_def told_ok_def)

lemma done_drained_spec:
  "\<exists>e. dw_q (done_drained w) = (dw_q w)\<lparr>dq_pend_list_empty := e\<rparr>" "dw_dev (done_drained w) = dw_dev w"
  "dw_req (done_drained w) = dw_req w" "finished (dw_events (done_drained w)) = finished (dw_events w)"
  "told_ok R (dw_events (done_drained w)) = told_ok R (dw_events w)"
  by (auto simp: done_drained_def Let_def told_ok_def)

lemma req_done_spec:
  assumes "cb_offset (dw_req w r) = req_count (dw_req w r)" and "r \<notin> set (dq_work_list (dw_q w))"
  defines "w' \<equiv> qdma_sgt_req_done r 0 w"
  shows "dw_dev w' = dw_dev w" "\<And>r'. r' \<noteq> r \<Longrightarrow> dw_req w' r' = dw_req w r'"
    and "\<exists>e. dw_q w' = (dw_q w)\<lparr>dq_pend_list := remove1 r (dq_pend_list (dw_q w)), dq_pend_list_empty := e\<rparr>"
    and "finished (dw_events w') = finished (dw_events w) @ [r]"
    and "told_ok R (dw_events w) \<Longrightarrow> req_count (dw_req w r) = req_count (R r) \<Longrightarrow> told_ok R (dw_events w')"
proof -
  have q: "list_del r (dw_q w) = (dw_q w)\<lparr>dq_pend_list := remove1 r (dq_pend_list (dw_q w))\<rparr>"
    using assms(2) by (simp add: list_del_def remove1_idem)
  let ?w = "done_unmap r (set_q (list_del r) w)"
  have c: "cb_offset (dw_req ?w r) = req_count (dw_req ?w r)" by (simp add: done_unmap_spec assms(1))
  note s = done_tell_spec [OF c] done_unmap_spec done_drained_spec(2-5)
  show "dw_dev w' = dw_dev w" "\<And>r'. r' \<noteq> r \<Longrightarrow> dw_req w' r' = dw_req w r'" "finished (dw_events w') = finished (dw_events w) @ [r]"
    "told_ok R (dw_events w) \<Longrightarrow> req_count (dw_req w r) = req_count (R r) \<Longrightarrow> told_ok R (dw_events w')"
    by (simp_all add: w'_def qdma_sgt_req_done_def s)
  show "\<exists>e. dw_q w' = (dw_q w)\<lparr>dq_pend_list := remove1 r (dq_pend_list (dw_q w)), dq_pend_list_empty := e\<rparr>"
    using done_drained_spec(1) [of "done_tell r 0 ?w"] by (simp add: w'_def qdma_sgt_req_done_def s q)
qed

text \<open>The requests part of the invariant depends only on the lists and on the requests on them.\<close>

lemma req_inv_done:
  assumes "req_inv db byte R seg fin w" and "dq_pend_list (dw_q w) = r # rs"
    and "dq_pend_list (dw_q w') = rs" "dq_work_list (dw_q w') = dq_work_list (dw_q w)"
    and "\<And>r'. r' \<noteq> r \<Longrightarrow> dw_req w' r' = dw_req w r'"
  shows "req_inv db byte R seg (fin @ [r]) w'"
proof -
  have "r \<notin> set rs" "r \<notin> set (dq_work_list (dw_q w))" using assms(1,2) by (auto simp: req_inv_def)
  then have same: "dw_req w' r' = dw_req w r'" if "r' \<in> set rs \<union> set (dq_work_list (dw_q w))" for r'
    using that by (intro assms(5)) auto
  have "set (tl rs) \<subseteq> set rs" by (cases rs) auto
  then show ?thesis
    using assms(1-4) same unfolding req_inv_def by auto
qed

lemma complete_reqs_spec:
  assumes "req_inv db byte R seg fin w" and "credit_inv seg fin C (unat cr) w"
    and "finished (dw_events w) = fin" and "told_ok R (dw_events w)"
  shows "\<exists>fin' cr' w' e. complete_reqs (dq_pend_list (dw_q w)) cr w = (cr', w') \<and>
    req_inv db byte R seg fin' w' \<and> credit_inv seg fin' C (unat cr') w' \<and> waiting (unat cr') w' \<and>
    finished (dw_events w') = fin' \<and> told_ok R (dw_events w') \<and> fin' @ dq_pend_list (dw_q w') = fin @ dq_pend_list (dw_q w) \<and>
    dw_dev w' = dw_dev w \<and> (\<forall>r. r \<notin> set (dq_pend_list (dw_q w)) \<longrightarrow> dw_req w' r = dw_req w r) \<and>
    dw_q w' = (dw_q w)\<lparr>dq_pend_list := dq_pend_list (dw_q w'), dq_pend_list_empty := e\<rparr>"
  using assms
proof (induction "dq_pend_list (dw_q w)" arbitrary: cr w fin)
  case Nil
  then show ?case by (intro exI [of _ fin] exI [of _ cr] exI [of _ w] exI [of _ "dq_pend_list_empty (dw_q w)"]) (auto simp: waiting_def)
next
  case (Cons r rs)
  note inv = Cons.prems(1)
  have r: "same_request (dw_req w r) (R r)" "cb_offset (dw_req w r) = req_count (R r)" "unat (cb_desc_nr (dw_req w r)) \<le> length (seg r)"
    "r \<notin> set (dq_work_list (dw_q w))" "r \<notin> set rs" "seg r \<noteq> []"
    using inv unfolding req_inv_def Cons.hyps(2) [symmetric] by (auto simp: pend_ok_def)
  have rs: "unat (cb_desc_nr (dw_req w p)) = length (seg p)" "seg p \<noteq> []" if "p \<in> set rs" for p
    using inv that unfolding req_inv_def Cons.hyps(2) [symmetric] by (auto simp: pend_ok_def)
  have cred: "C + unat (cb_desc_nr (dw_req w r)) = length (written seg fin) + length (seg r) + unat cr"
    using Cons.prems(2) by (simp add: credit_inv_def flip: Cons.hyps(2))
  show ?case
  proof (cases "cb_desc_nr (dw_req w r) \<le> cr")
    case False
    define w' where "w' = set_req r (\<lambda>rq. rq\<lparr>cb_desc_nr := cb_desc_nr rq - cr\<rparr>) w"
    have sub: "unat (cb_desc_nr (dw_req w r) - cr) = unat (cb_desc_nr (dw_req w r)) - unat cr"
      using False by (simp add: unat_sub)
    have lt: "unat cr < unat (cb_desc_nr (dw_req w r))" using False by (simp add: word_le_nat_alt)
    have e: "complete_reqs (dq_pend_list (dw_q w)) cr w = (0, w')" using False by (simp add: w'_def flip: Cons.hyps(2))
    have "req_inv db byte R seg fin w'"
      using inv r(4,5) sub r(3) unfolding req_inv_def by (auto simp: w'_def same_request_def simp flip: Cons.hyps(2))
    moreover have "credit_inv seg fin C 0 w'" using cred lt sub by (simp add: credit_inv_def w'_def flip: Cons.hyps(2))
    moreover have "waiting 0 w'" using lt sub by (simp add: waiting_def w'_def flip: Cons.hyps(2))
    ultimately show ?thesis
      using e Cons.prems(3,4) by (intro exI [of _ fin] exI [of _ 0] exI [of _ w'] exI [of _ "dq_pend_list_empty (dw_q w)"])
        (simp add: w'_def flip: Cons.hyps(2))
  next
    case True
    define cr1 where "cr1 = cr - cb_desc_nr (dw_req w r)"
    define w1 where "w1 = qdma_sgt_req_done r 0 w"
    have c: "cb_offset (dw_req w r) = req_count (dw_req w r)" "req_count (dw_req w r) = req_count (R r)"
      using r(1,2) by (simp_all add: same_request_def)
    note d = req_done_spec [OF c(1) r(4), folded w1_def]
    have cr1: "unat cr1 = unat cr - unat (cb_desc_nr (dw_req w r))" "unat (cb_desc_nr (dw_req w r)) \<le> unat cr"
      using True by (simp_all add: cr1_def unat_sub word_le_nat_alt)
    obtain e1 where q1: "dw_q w1 = (dw_q w)\<lparr>dq_pend_list := rs, dq_pend_list_empty := e1\<rparr>"
      using d(3) unfolding Cons.hyps(2) [symmetric] by auto
    have inv1: "req_inv db byte R seg (fin @ [r]) w1"
      by (rule req_inv_done [OF inv Cons.hyps(2) [symmetric]]) (simp_all add: q1 d(2))
    have cred1: "credit_inv seg (fin @ [r]) C (unat cr1) w1"
    proof (cases rs)
      case Nil
      then show ?thesis using cred cr1 by (simp add: credit_inv_def q1)
    next
      case (Cons p ps)
      then have "p \<noteq> r" using r(5) by auto
      then show ?thesis using cred cr1 rs(1) [of p] Cons by (simp add: credit_inv_def q1 d(2))
    qed
    note ev = d(4) [unfolded Cons.prems(3)] d(5) [OF Cons.prems(4) c(2)]
    have step: "complete_reqs (dq_pend_list (dw_q w)) cr w = (if cr1 = 0 then (cr1, w1) else complete_reqs (dq_pend_list (dw_q w1)) cr1 w1)"
      using True by (simp add: cr1_def w1_def q1 [unfolded w1_def] flip: Cons.hyps(2))
    show ?thesis
    proof (cases "cr1 = 0")
      case zero: True
      have "waiting (unat cr1) w1"
      proof (unfold waiting_def, intro allI impI)
        fix p ps
        assume "dq_pend_list (dw_q w1) = p # ps"
        then have p: "p \<in> set rs" "p \<noteq> r" using r(5) by (auto simp: q1)
        then show "unat cr1 < unat (cb_desc_nr (dw_req w1 p))" using rs [OF p(1)] by (simp add: zero d(2))
      qed
      then show ?thesis
        using step zero inv1 cred1 ev d(1,2) q1
        by (intro exI [of _ "fin @ [r]"] exI [of _ cr1] exI [of _ w1] exI [of _ e1]) (auto simp flip: Cons.hyps(2))
    next
      case False
      have "rs = dq_pend_list (dw_q w1)" by (simp add: q1)
      from Cons.hyps(1) [OF this inv1 cred1 ev]
      obtain fin' cr' w' e where r': "complete_reqs (dq_pend_list (dw_q w1)) cr1 w1 = (cr', w')" "req_inv db byte R seg fin' w'"
        "credit_inv seg fin' C (unat cr') w'" "waiting (unat cr') w'" "finished (dw_events w') = fin'" "told_ok R (dw_events w')"
        "fin' @ dq_pend_list (dw_q w') = (fin @ [r]) @ dq_pend_list (dw_q w1)" "dw_dev w' = dw_dev w1"
        "\<forall>r. r \<notin> set (dq_pend_list (dw_q w1)) \<longrightarrow> dw_req w' r = dw_req w1 r"
        "dw_q w' = (dw_q w1)\<lparr>dq_pend_list := dq_pend_list (dw_q w'), dq_pend_list_empty := e\<rparr>" by blast
      have "dw_q w' = (dw_q w)\<lparr>dq_pend_list := dq_pend_list (dw_q w'), dq_pend_list_empty := e\<rparr>"
        using r'(10) by (simp add: q1)
      then show ?thesis
        using step False r'(1-9) d(1,2)
        by (intro exI [of _ fin'] exI [of _ cr'] exI [of _ w'] exI [of _ e]) (simp add: q1 flip: Cons.hyps(2))
    qed
  qed
qed

subsection \<open>Positions in the ring\<close>

lemma mod_add_small:
  assumes "(d :: nat) < n"
  shows "(a + d) mod n = (if a mod n + d < n then a mod n + d else a mod n + d - n)"
proof -
  have "a mod n < n" using assms by simp
  moreover have "(a + d) mod n = (a mod n + d) mod n" by (simp add: mod_add_left_eq)
  moreover have "(a mod n + d) mod n = a mod n + d - n" if "\<not> a mod n + d < n"
  proof -
    have "a mod n + d - n < n" using \<open>a mod n < n\<close> assms by linarith
    then show ?thesis using that by (simp add: le_mod_geq)
  qed
  ultimately show ?thesis by simp
qed

lemma ring_distance:
  assumes "(a :: nat) \<le> p" and "p < a + n"
  shows "a + (p mod n + n - a mod n) mod n = p"
proof -
  define d where "d = p - a"
  have d: "p = a + d" "d < n" using assms by (auto simp: d_def)
  have "a mod n < n" using d(2) by simp
  then have "(a + d) mod n + n - a mod n = (if a mod n + d < n then d + n else d)"
    unfolding mod_add_small [OF d(2)] by auto
  then show ?thesis unfolding d(1) using d(2) by simp
qed

text \<open>The number of descriptors between two indices of the ring.\<close>

lemma ring_credits:
  fixes c v rngsz :: u32
  assumes "unat c = a mod n" and "unat v = b mod n" and "unat rngsz = n" and "a \<le> b" and "b < a + n"
  shows "unat (if v < c then rngsz - c + v else v - c) = b - a" and "v = c \<longleftrightarrow> b = a"
proof -
  define d where "d = b - a"
  have d: "b = a + d" "d < n" using assms(4,5) by (auto simp: d_def)
  have c: "a mod n < n" using d(2) by simp
  note m = mod_add_small [OF d(2), of a]
  have r: "unat (rngsz - c) = n - a mod n" using c assms(1,3) by (subst unat_sub) (simp_all add: word_le_nat_alt)
  show "unat (if v < c then rngsz - c + v else v - c) = b - a"
  proof (cases "v < c")
    case True
    then have lt: "(a + d) mod n < a mod n" using assms(1,2) d(1) by (simp add: word_less_nat_alt)
    then have e: "(a + d) mod n = a mod n + d - n" "n \<le> a mod n + d" using m by (auto split: if_splits)
    have "n - a mod n + (a + d) mod n < 2 ^ 32" using e d(2) c unat_u32 [of rngsz] assms(3) by linarith
    then have "unat (rngsz - c + v) = n - a mod n + (a + d) mod n"
      using r assms(2) d(1) by (subst unat_add_lem [THEN iffD1]) simp_all
    then show ?thesis using True e c d(1) by simp
  next
    case False
    then have ge: "a mod n \<le> (a + d) mod n" using assms(1,2) d(1) by (simp add: word_less_nat_alt)
    then have "unat (v - c) = (a + d) mod n - a mod n"
      using assms(1,2) d(1) by (subst unat_sub) (simp_all add: word_le_nat_alt)
    then show ?thesis using False ge m d c by (auto split: if_splits)
  qed
  show "v = c \<longleftrightarrow> b = a"
    using assms(1,2) m d c by (auto simp: word_unat_eq_iff split: if_splits)
qed

subsection \<open>Completions keep the invariant\<close>

definition queue_inv :: "qdma_queue_conf \<Rightarrow> nat \<Rightarrow> ('s \<Rightarrow> nat) \<Rightarrow> ('s \<Rightarrow> nat) \<Rightarrow> ('s \<Rightarrow> ring_desc list) \<Rightarrow> (ring_desc \<Rightarrow> 'b list) \<Rightarrow>
    (qdma_request \<Rightarrow> nat \<Rightarrow> 'b) \<Rightarrow> (nat \<Rightarrow> qdma_request) \<Rightarrow> ring_desc list \<Rightarrow> nat \<Rightarrow> (nat \<Rightarrow> ring_desc list) \<Rightarrow> nat list \<Rightarrow> 's dq_world \<Rightarrow> bool" where
  "queue_inv qc n ann rep moved db byte R H P seg fin w \<longleftrightarrow>
     dq_conf (dw_q w) = qc \<and> unat (qc_rngsz qc) = n \<and> 1 < n \<and> n \<le> 2 ^ 16 \<and> ring_inv n (rep (dw_dev w)) H (dw_q w) \<and>
     hw_inv n (rep (dw_dev w)) (ann (dw_dev w)) (moved (dw_dev w)) P H (dw_q w) \<and>
     req_inv db byte R seg fin w \<and> credit_inv seg fin (rep (dw_dev w)) (unat (dq_credit (dw_q w))) w \<and>
     waiting (unat (dq_credit (dw_q w))) w \<and>
     H = written seg (fin @ dq_pend_list (dw_q w) @ dq_work_list (dw_q w)) \<and>
     finished (dw_events w) = fin \<and> told_ok R (dw_events w) \<and> dq_work_req_pend (dw_q w) = of_nat (length (dq_work_list (dw_q w)))"

lemma queue_invD:
  assumes "queue_inv qc n ann rep moved db byte R H P seg fin w"
  shows "dq_conf (dw_q w) = qc" "unat (qc_rngsz qc) = n" "1 < n" "n \<le> 2 ^ 16" "ring_inv n (rep (dw_dev w)) H (dw_q w)"
    "hw_inv n (rep (dw_dev w)) (ann (dw_dev w)) (moved (dw_dev w)) P H (dw_q w)"
    "req_inv db byte R seg fin w" "credit_inv seg fin (rep (dw_dev w)) (unat (dq_credit (dw_q w))) w"
    "waiting (unat (dq_credit (dw_q w))) w" "H = written seg (fin @ dq_pend_list (dw_q w) @ dq_work_list (dw_q w))"
    "finished (dw_events w) = fin" "told_ok R (dw_events w)" "dq_work_req_pend (dw_q w) = of_nat (length (dq_work_list (dw_q w)))"
  using assms unfolding queue_inv_def by blast+

text \<open>What the completion of descriptors leaves alone.\<close>

definition keeps :: "'s dq_world \<Rightarrow> 's dq_world \<Rightarrow> bool" where
  "keeps w w' \<longleftrightarrow> dq_conf (dw_q w') = dq_conf (dw_q w) \<and> dq_work_list (dw_q w') = dq_work_list (dw_q w) \<and>
     dq_work_req_pend (dw_q w') = dq_work_req_pend (dw_q w) \<and> dq_pidx (dw_q w') = dq_pidx (dw_q w) \<and>
     dq_q_state (dw_q w') = dq_q_state (dw_q w) \<and> dq_drv_mode (dw_q w') = dq_drv_mode (dw_q w) \<and>
     dq_q_stop_wait (dw_q w') = dq_q_stop_wait (dw_q w) \<and>
     (\<forall>r. r \<notin> set (dq_pend_list (dw_q w)) \<longrightarrow> dw_req w' r = dw_req w r)"

lemma keeps_refl [simp]: "keeps w w" by (simp add: keeps_def)

text \<open>The credit stays in range: it is less than the descriptors of one request and of one ring.\<close>

lemma credit_bound:
  assumes "queue_inv qc n ann rep moved db byte R H P seg fin w"
  shows "unat (dq_credit (dw_q w)) \<le> 2 ^ 31 + n"
proof (cases "dq_pend_list (dw_q w)")
  case (Cons p ps)
  then have "unat (dq_credit (dw_q w)) < unat (cb_desc_nr (dw_req w p))" "unat (cb_desc_nr (dw_req w p)) \<le> length (seg p)" "length (seg p) \<le> 2 ^ 31"
    using assms by (auto simp: queue_inv_def waiting_def req_inv_def pend_ok_def)
  then show ?thesis by simp
next
  case Nil
  have "length (concat (map seg rs)) \<le> 2 ^ 31" if "\<forall>r \<in> set (tl rs). seg r = []" "\<forall>r \<in> set rs. length (seg r) \<le> 2 ^ 31" for rs
  proof (cases rs)
    case (Cons a list)
    then have "concat (map seg list) = []" using that(1) by simp
    then show ?thesis using that(2) Cons by (simp del: concat_eq_Nil_conv)
  qed simp
  moreover have "length (seg r) \<le> 2 ^ 31" if "r \<in> set (dq_work_list (dw_q w))" for r
  proof -
    have w: "work_ok db byte (R r) (dw_req w r) (seg r)" using assms that by (auto simp: queue_inv_def req_inv_def)
    then have "unat (cb_offset (dw_req w r)) \<le> unat (req_count (R r))"
      by (auto simp: work_ok_def same_request_def word_less_nat_alt)
    then show ?thesis using w by (simp add: work_ok_def)
  qed
  ultimately have "length (written seg (dq_work_list (dw_q w))) \<le> 2 ^ 31"
    using assms by (auto simp: queue_inv_def req_inv_def written_def)
  then show ?thesis
    using assms Nil by (auto simp: queue_inv_def credit_inv_def ring_inv_def ring_holds_def)
qed

text \<open>The parts about requests see only the lists and the requests, and the invariant none of the driver's flags.\<close>

lemma req_parts_cong:
  assumes "dq_pend_list (dw_q w') = dq_pend_list (dw_q w)" and "dq_work_list (dw_q w') = dq_work_list (dw_q w)"
    and "dw_req w' = dw_req w"
  shows "req_inv db byte R seg fin w' = req_inv db byte R seg fin w" "credit_inv seg fin C cr w' = credit_inv seg fin C cr w"
    and "waiting cr w' = waiting cr w"
  using assms by (simp_all add: req_inv_def credit_inv_def waiting_def split: list.split)

definition same_view :: "'s dq_world \<Rightarrow> 's dq_world \<Rightarrow> bool" where
  "same_view w' w \<longleftrightarrow> dq_conf (dw_q w') = dq_conf (dw_q w) \<and> dq_desc (dw_q w') = dq_desc (dw_q w) \<and> dq_cidx (dw_q w') = dq_cidx (dw_q w) \<and>
     dq_pidx (dw_q w') = dq_pidx (dw_q w) \<and> dq_avail (dw_q w') = dq_avail (dw_q w) \<and> dq_credit (dw_q w') = dq_credit (dw_q w) \<and>
     dq_pend_list (dw_q w') = dq_pend_list (dw_q w) \<and> dq_work_list (dw_q w') = dq_work_list (dw_q w) \<and>
     dq_pidx_info (dw_q w') = dq_pidx_info (dw_q w) \<and> dq_work_req_pend (dw_q w') = dq_work_req_pend (dw_q w) \<and> dw_req w' = dw_req w \<and> dw_dev w' = dw_dev w \<and>
     finished (dw_events w') = finished (dw_events w) \<and> (\<forall>R. told_ok R (dw_events w') = told_ok R (dw_events w))"

lemma same_view_refl [simp]: "same_view w w" by (simp add: same_view_def)

lemma queue_inv_view:
  assumes "same_view w' w"
  shows "queue_inv qc n ann rep moved db byte R H P seg fin w' = queue_inv qc n ann rep moved db byte R H P seg fin w"
proof -
  note a = assms [unfolded same_view_def]
  have c: "dq_pend_list (dw_q w') = dq_pend_list (dw_q w)" "dq_work_list (dw_q w') = dq_work_list (dw_q w)" "dw_req w' = dw_req w"
    using a by simp_all
  have e: "dq_work_req_pend (dw_q w') = dq_work_req_pend (dw_q w)" "dw_dev w' = dw_dev w" "finished (dw_events w') = finished (dw_events w)" "told_ok R (dw_events w') = told_ok R (dw_events w)"
    "dq_credit (dw_q w') = dq_credit (dw_q w)" "dq_conf (dw_q w') = dq_conf (dw_q w)"
    "ring_inv n C H (dw_q w') = ring_inv n C H (dw_q w)" "hw_inv n C A m P H (dw_q w') = hw_inv n C A m P H (dw_q w)" for C A m
    using a by (simp_all add: ring_inv_def hw_inv_def)
  show ?thesis unfolding queue_inv_def req_parts_cong [OF c] c e ..
qed

context descq_hardware begin

lemma read_inv:
  assumes "hw_inv n (rep s) (ann s) (moved s) P H q" and "ring_holds n ring (rep s) H" and "read_cidx io ring s = (v, s')"
    and "0 < n" and "n \<le> 2 ^ 16"
  shows "hw_inv n (rep s') (ann s') (moved s') P H q" and "unat (ucast v :: u32) = rep s' mod n" and "rep s \<le> rep s'"
    and "rep s' \<le> length H" and "ann s' = ann s"
proof -
  have r: "v = of_nat (rep s' mod n)" "ann s' = ann s" "rep s \<le> rep s'" "rep s' \<le> length (moved s')" "length (moved s) \<le> length (moved s')"
    "length (moved s') \<le> ann s" "moved s' = moved s @ map (\<lambda>a. ring ! (a mod n)) [length (moved s)..<length (moved s')]"
    using hw_read [OF assms(3)] assms(1,2) by (simp_all add: hw_inv_def ring_holds_def)
  show "rep s \<le> rep s'" "ann s' = ann s" by (fact r)+
  have le: "length (moved s') \<le> length H" using assms(1) r(6) by (simp add: hw_inv_def)
  then show "rep s' \<le> length H" using r(4) by simp
  have "moved s' = take (length (moved s')) H"
  proof -
    have "map (\<lambda>a. ring ! (a mod n)) [length (moved s)..<length (moved s')] = map (\<lambda>a. H ! a) [length (moved s)..<length (moved s')]"
      using assms(1,2) le by (intro map_cong) (auto simp: ring_holds_def hw_inv_def)
    also have "\<dots> = drop (length (moved s)) (take (length (moved s')) H)"
      using le by (intro nth_equalityI) simp_all
    finally have e: "moved s' = moved s @ drop (length (moved s)) (take (length (moved s')) H)" using r(7) by simp
    have "moved s = take (length (moved s)) (take (length (moved s')) H)"
      using assms(1) r(5) by (simp add: hw_inv_def min_def)
    then show ?thesis using e by (metis append_take_drop_id)
  qed
  then show "hw_inv n (rep s') (ann s') (moved s') P H q"
    using assms(1) r(2,4,6) by (simp add: hw_inv_def)
  have "rep s' mod n < 2 ^ 16" by (rule less_le_trans [OF mod_less_divisor [OF assms(4)] assms(5)])
  then have "unat v = rep s' mod n" by (simp add: r(1) unat_of_nat take_bit_nat_eq_self)
  moreover have "unat (ucast v :: u32) = unat v"
    using \<open>rep s' mod n < 2 ^ 16\<close> \<open>unat v = rep s' mod n\<close> by (simp add: unsigned_ucast_eq take_bit_nat_eq_self)
  ultimately show "unat (ucast v :: u32) = rep s' mod n" by simp
qed

lemma pidx_write_inv:
  assumes "hw_inv n (rep s) (ann s) (moved s) P H q" and "length H < rep s + n" and "unat (pi_pidx (dq_pidx_info q)) = P mod n"
    and "pidx_update io (dq_pidx_info q) s = (rv, s')"
  shows "hw_inv n (rep s') (ann s') (moved s') P H q" and "rep s' = rep s" and "0 \<le> rv \<Longrightarrow> ann s' = P"
proof -
  note w = hw_pidx [OF assms(4)]
  have "ann s \<le> P" "P < ann s + n" using assms(1,2) by (auto simp: hw_inv_def)
  then have "ann s + (unat (pi_pidx (dq_pidx_info q)) + n - ann s mod n) mod n = P" unfolding assms(3) by (rule ring_distance)
  then show "hw_inv n (rep s') (ann s') (moved s') P H q" "0 \<le> rv \<Longrightarrow> ann s' = P" "rep s' = rep s"
    using w assms(1) by (auto simp: hw_inv_def split: if_splits)
qed

lemma cmpl_status_inv:
  fixes w
  assumes inv: "queue_inv qc n ann rep moved db byte R H P seg fin w"
  defines "w' \<equiv> descq_mm_n_h2c_cmpl_status io w"
  shows "\<exists>fin'. queue_inv qc n ann rep moved db byte R H P seg fin' w' \<and> keeps w w' \<and>
    fin' @ dq_pend_list (dw_q w') = fin @ dq_pend_list (dw_q w) \<and> dq_proc_req_running (dw_q w') = dq_proc_req_running (dw_q w) \<and>
    (ann (dw_dev w) = P \<longrightarrow> ann (dw_dev w') = P) \<and> rep (dw_dev w) \<le> rep (dw_dev w') \<and>
    (dq_pidx (dw_q w) = dq_cidx (dw_q w) \<and> w' = w \<or>
     (\<exists>v s. read_cidx io (dq_desc (dw_q w)) (dw_dev w) = (v, s) \<and> rep (dw_dev w') = rep s))"
proof (cases "dq_pidx (dw_q w) = dq_cidx (dw_q w)")
  case True
  then show ?thesis using inv by (auto simp: w'_def descq_mm_n_h2c_cmpl_status_def)
next
  case False
  note i = queue_invD [OF inv]
  note n = i(2-4,1) and ring = i(5) and hw = i(6)
  obtain v s where v: "read_cidx io (dq_desc (dw_q w)) (dw_dev w) = (v, s)" by fastforce
  have holds: "ring_holds n (dq_desc (dw_q w)) (rep (dw_dev w)) H" using ring by (simp add: ring_inv_def)
  note r = read_inv [OF hw holds v, of]
  have r1: "hw_inv n (rep s) (ann s) (moved s) P H (dw_q w)" "unat (ucast v :: u32) = rep s mod n" "rep (dw_dev w) \<le> rep s" "rep s \<le> length H"
    using r n(2,3) by simp_all
  have lt: "length H < rep (dw_dev w) + n" using holds by (simp add: ring_holds_def)
  define w1 where "w1 = w\<lparr>dw_dev := s\<rparr>"
  have cidx: "unat (dq_cidx (dw_q w)) = rep (dw_dev w) mod n" using ring by (simp add: ring_inv_def)
  define cr where "cr = (if (ucast v :: u32) < dq_cidx (dw_q w) then qc_rngsz qc - dq_cidx (dw_q w) + ucast v else ucast v - dq_cidx (dw_q w))"
  have "rep s < rep (dw_dev w) + n" using r1(4) lt by simp
  note c = ring_credits [OF cidx r1(2) n(1) r1(3) this, folded cr_def]
  show ?thesis
  proof (cases "(ucast v :: u32) = dq_cidx (dw_q w)")
    case True
    then have "w' = w1" using False v by (simp add: w'_def descq_mm_n_h2c_cmpl_status_def w1_def)
    moreover have "rep s = rep (dw_dev w)" using True c(2) by simp
    moreover have "queue_inv qc n ann rep moved db byte R H P seg fin w1"
    proof -
      have c: "dq_pend_list (dw_q w1) = dq_pend_list (dw_q w)" "dq_work_list (dw_q w1) = dq_work_list (dw_q w)" "dw_req w1 = dw_req w"
        by (simp_all add: w1_def)
      show ?thesis
        unfolding queue_inv_def req_parts_cong [OF c] c
        using i r1(1) \<open>rep s = rep (dw_dev w)\<close> by (simp add: w1_def)
    qed
    moreover have "ann s = ann (dw_dev w)" using r n(2,3) by simp
    ultimately show ?thesis using v r1(3) by (intro exI [of _ fin]) (simp add: w1_def keeps_def)
  next
    case new: False
    define w2 where "w2 = set_q (\<lambda>q. q\<lparr>dq_cidx := ucast v, dq_avail := dq_avail q + cr, dq_credit := dq_credit q + cr,
      dq_total_cmpl_descs := dq_total_cmpl_descs q + ucast cr\<rparr>) w1"
    have avail: "unat (dq_avail (dw_q w) + cr) + (length H - rep s) = n - 1"
    proof -
      have a: "unat (dq_avail (dw_q w)) + (length H - rep (dw_dev w)) = n - 1" using ring by (simp add: ring_inv_def)
      then have "unat (dq_avail (dw_q w)) + unat cr < 2 ^ 32" using c(1) r1(3,4) n(2,3) by simp
      then show ?thesis using a c(1) r1(3,4) by (simp add: unat_add_lem [THEN iffD1])
    qed
    have credit: "unat (dq_credit (dw_q w) + cr) = unat (dq_credit (dw_q w)) + (rep s - rep (dw_dev w))"
    proof -
      have "unat (dq_credit (dw_q w)) + unat cr < 2 ^ 32" using credit_bound [OF inv] c(1) r1(4) lt n(3) by simp
      then show ?thesis using c(1) by (simp add: unat_add_lem [THEN iffD1])
    qed
    have q2: "dq_pend_list (dw_q w2) = dq_pend_list (dw_q w)" "dq_work_list (dw_q w2) = dq_work_list (dw_q w)" "dw_req w2 = dw_req w"
      by (simp_all add: w2_def w1_def)
    have "req_inv db byte R seg fin w2" using i(7) by (simp add: req_parts_cong(1) [OF q2])
    moreover have "credit_inv seg fin (rep s) (unat (dq_credit (dw_q w2))) w2"
    proof -
      have "credit_inv seg fin (rep (dw_dev w)) (unat (dq_credit (dw_q w))) w" by (fact i(8))
      moreover have "unat (dq_credit (dw_q w2)) = unat (dq_credit (dw_q w)) + (rep s - rep (dw_dev w))"
        using credit by (simp add: w2_def w1_def)
      ultimately show ?thesis
        using r1(3) unfolding credit_inv_def q2 by (auto split: list.splits)
    qed
    moreover have "finished (dw_events w2) = fin" "told_ok R (dw_events w2)" using i(11,12) by (simp_all add: w2_def w1_def)
    ultimately obtain fin' cr' w3 e where k: "complete_reqs (dq_pend_list (dw_q w2)) (dq_credit (dw_q w2)) w2 = (cr', w3)"
      "req_inv db byte R seg fin' w3" "credit_inv seg fin' (rep s) (unat cr') w3" "waiting (unat cr') w3"
      "finished (dw_events w3) = fin'" "told_ok R (dw_events w3)" "fin' @ dq_pend_list (dw_q w3) = fin @ dq_pend_list (dw_q w2)"
      "dw_dev w3 = dw_dev w2" "\<forall>r. r \<notin> set (dq_pend_list (dw_q w2)) \<longrightarrow> dw_req w3 r = dw_req w2 r"
      "dw_q w3 = (dw_q w2)\<lparr>dq_pend_list := dq_pend_list (dw_q w3), dq_pend_list_empty := e\<rparr>"
      using complete_reqs_spec by blast
    define ps where "ps = dq_pend_list (dw_q w3)"
    have q3: "dw_q w3 = (dw_q w)\<lparr>dq_cidx := ucast v, dq_avail := dq_avail (dw_q w) + cr, dq_credit := dq_credit (dw_q w) + cr,
      dq_total_cmpl_descs := dq_total_cmpl_descs (dw_q w) + ucast cr, dq_pend_list := ps, dq_pend_list_empty := e\<rparr>"
      using k(10) by (simp add: ps_def w2_def w1_def)
    define w4 where "w4 = set_q (\<lambda>q. q\<lparr>dq_credit := cr'\<rparr>) w3"
    obtain rv s' where p: "pidx_update io (dq_pidx_info (dw_q w4)) (dw_dev w4) = (rv, s')" by fastforce
    have dev: "dw_dev w4 = s" by (simp add: w4_def k(8) w2_def w1_def)
    have w': "w' = snd (qdma_pidx_update io True w4)"
    proof -
      have "w' = (case complete_reqs (dq_pend_list (dw_q w2)) (dq_credit (dw_q w2)) w2 of
          (cr, w) \<Rightarrow> snd (qdma_pidx_update io True (set_q (\<lambda>q. q\<lparr>dq_credit := cr\<rparr>) w)))"
        using False new v n(4)
        by (simp add: w'_def descq_mm_n_h2c_cmpl_status_def Let_def cr_def w2_def w1_def)
      then show ?thesis by (simp only: k(1) prod.case w4_def)
    qed
    define w5 where "w5 = w4\<lparr>dw_dev := s'\<rparr>"
    have w5: "w' = w5 \<or> w' = set_q (\<lambda>q. q\<lparr>dq_desc_pend := 0\<rparr>) w5"
      using p by (simp add: w' qdma_pidx_update_def queue_pidx_update_def w5_def)
    have h4: "hw_inv n (rep s) (ann s) (moved s) P H (dw_q w4)" using r1(1) by (simp add: hw_inv_def w4_def q3)
    have "rep s \<noteq> 0" using new c(2) r1(3) by auto
    then have "P \<noteq> 0" using r1(1) by (auto simp: hw_inv_def)
    then have "unat (pi_pidx (dq_pidx_info (dw_q w4))) = P mod n" using h4 by (simp add: hw_inv_def)
    note h5 = pidx_write_inv [OF h4 _ this p [unfolded dev]]
    have rep: "rep s' = rep s" and hw5: "hw_inv n (rep s') (ann s') (moved s') P H (dw_q w5)"
      using h5 lt r1(3) by (simp_all add: w5_def)
    have lists: "dq_pend_list (dw_q w5) = ps" "dq_work_list (dw_q w5) = dq_work_list (dw_q w)" "dw_req w5 = dw_req w3"
      "dq_work_list (dw_q w3) = dq_work_list (dw_q w)" "dw_events w5 = dw_events w3"
      by (simp_all add: w5_def w4_def q3)
    have c5: "dq_pend_list (dw_q w5) = dq_pend_list (dw_q w3)" "dq_work_list (dw_q w5) = dq_work_list (dw_q w3)"
      by (simp_all add: lists ps_def)
    have "queue_inv qc n ann rep moved db byte R H P seg fin' w5"
      unfolding queue_inv_def
    proof (intro conjI)
      show "dq_conf (dw_q w5) = qc" using n(4) by (simp add: w5_def w4_def q3)
      show "ring_inv n (rep (dw_dev w5)) H (dw_q w5)"
        using ring avail r1(2) ring_holds_lo [OF holds r1(3,4)] by (simp add: ring_inv_def w5_def w4_def q3 rep)
      show "hw_inv n (rep (dw_dev w5)) (ann (dw_dev w5)) (moved (dw_dev w5)) P H (dw_q w5)" using hw5 by (simp add: w5_def)
      show "req_inv db byte R seg fin' w5" using k(2) by (simp add: req_parts_cong(1) [OF c5 lists(3)])
      show "credit_inv seg fin' (rep (dw_dev w5)) (unat (dq_credit (dw_q w5))) w5"
        using k(3) by (simp add: req_parts_cong(2) [OF c5 lists(3)]) (simp add: w5_def w4_def rep)
      show "waiting (unat (dq_credit (dw_q w5))) w5"
        using k(4) by (simp add: req_parts_cong(3) [OF c5 lists(3)]) (simp add: w5_def w4_def)
      have "fin' @ ps = fin @ dq_pend_list (dw_q w)" using k(7) by (simp add: ps_def q2)
      then show "H = written seg (fin' @ dq_pend_list (dw_q w5) @ dq_work_list (dw_q w5))"
        using i(10) unfolding lists by (metis append.assoc)
      show "dq_work_req_pend (dw_q w5) = of_nat (length (dq_work_list (dw_q w5)))" using i(13) by (simp add: w5_def w4_def q3)
    qed (use n k(5,6) lists(5) in simp_all)
    moreover have "keeps w w5"
      using k(9) lists by (auto simp: keeps_def q2 w5_def w4_def q3)
    moreover have "fin' @ dq_pend_list (dw_q w5) = fin @ dq_pend_list (dw_q w)" using k(7) by (simp add: lists ps_def q2)
    moreover have "dq_proc_req_running (dw_q w5) = dq_proc_req_running (dw_q w)" by (simp add: w5_def w4_def q3)
    moreover have "same_view (set_q (\<lambda>q. q\<lparr>dq_desc_pend := 0\<rparr>) w5) w5" by (simp add: same_view_def)
    then have "queue_inv qc n ann rep moved db byte R H P seg fin' (set_q (\<lambda>q. q\<lparr>dq_desc_pend := 0\<rparr>) w5) =
      queue_inv qc n ann rep moved db byte R H P seg fin' w5" by (rule queue_inv_view)
    moreover have "ann (dw_dev w) = P \<longrightarrow> ann (dw_dev w5) = P"
    proof
      assume "ann (dw_dev w) = P"
      moreover have "ann s = ann (dw_dev w)" using r n(2,3) by simp
      ultimately show "ann (dw_dev w5) = P" using h5(3) lt r1(3) hw_pidx [OF p [unfolded dev]] by (cases "rv < 0") (simp_all add: w5_def)
    qed
    moreover have "dw_dev w' = dw_dev w5" using w5 by auto
    moreover have "rep (dw_dev w5) = rep s" by (simp add: w5_def rep)
    ultimately show ?thesis using w5 v r1(3) by (intro exI [of _ fin']) (auto simp: keeps_def)
  qed
qed

end

subsection \<open>A round keeps the invariant\<close>

text \<open>A round puts descriptors for the next bytes of the first request into the ring.\<close>

definition round_done :: "nat \<Rightarrow> u32 \<Rightarrow> ring_desc list \<Rightarrow> ring_desc list \<Rightarrow> nat \<Rightarrow> u32 \<Rightarrow> nat option \<Rightarrow> 's dq_world \<Rightarrow> 's dq_world" where
  "round_done r pidx ring ds m off sg w =
     set_q (\<lambda>q. q\<lparr>dq_pidx := pidx, dq_avail := dq_avail q - of_nat (length ds)\<rparr>)
       (qdma_update_request r (of_nat (length ds)) (of_nat m) off sg (set_q (\<lambda>q. q\<lparr>dq_desc := ring\<rparr>) w))"

definition fills :: "nat \<Rightarrow> nat \<Rightarrow> (ring_desc \<Rightarrow> 'b list) \<Rightarrow> (nat \<Rightarrow> 'b) \<Rightarrow> ring_desc list \<Rightarrow> qdma_request \<Rightarrow> nat \<Rightarrow> u32 \<Rightarrow> ring_desc list \<Rightarrow>
    ring_desc list \<Rightarrow> nat \<Rightarrow> bool" where
  "fills n C db B H rq k pidx ring ds m \<longleftrightarrow>
     ring_holds n ring C (H @ ds) \<and> unat pidx = length (H @ ds) mod n \<and>
     concat (map db ds) = map B [unat (cb_offset rq)..<unat (cb_offset rq) + m] \<and> ds \<noteq> [] \<and> length ds \<le> k \<and>
     unat (cb_offset rq) + m \<le> unat (req_count rq) \<and> (unat (cb_offset rq) + m = unat (req_count rq) \<or> length ds = k) \<and>
     (length ds \<le> m \<or> req_count rq = 0 \<and> length ds \<le> 1)"

lemma filled_inv:
  fixes w off sg pidx ring ds m r
  assumes inv: "queue_inv qc n ann rep moved db byte R H P seg fin w" and work: "dq_work_list (dw_q w) = r # rs"
    and f: "fills n (rep (dw_dev w)) db (byte (dw_req w r)) H (dw_req w r) (unat (dq_avail (dw_q w))) pidx ring ds m"
    and byte: "\<And>rq rq'. same_request rq rq' \<Longrightarrow> byte rq = byte rq'"
  defines "w' \<equiv> round_done r pidx ring ds m off sg w" and "tot \<equiv> unat (cb_offset (dw_req w r)) + m"
  shows "queue_inv qc n ann rep moved db byte R (H @ ds) P (seg(r := seg r @ ds)) fin w'"
    and "dq_work_list (dw_q w') = (if tot = unat (req_count (dw_req w r)) then rs else r # rs)"
    and "dq_pend_list (dw_q w') @ dq_work_list (dw_q w') = dq_pend_list (dw_q w) @ dq_work_list (dw_q w)"
    and "unat (cb_offset (dw_req w' r)) = tot" "same_request (dw_req w' r) (dw_req w r)" "\<And>r'. r' \<noteq> r \<Longrightarrow> dw_req w' r' = dw_req w r'"
    and "dq_pidx (dw_q w') = pidx" "dw_dev w' = dw_dev w" "dq_drv_mode (dw_q w') = dq_drv_mode (dw_q w)"
    and "dq_q_state (dw_q w') = dq_q_state (dw_q w)" "dq_q_stop_wait (dw_q w') = dq_q_stop_wait (dw_q w)"
    and "dq_proc_req_running (dw_q w') = dq_proc_req_running (dw_q w)"
proof -
  note i = queue_invD [OF inv]
  let ?rq = "dw_req w r" and ?C = "rep (dw_dev w)" and ?p = "unat (cb_offset (dw_req w r))" and ?seg = "seg(r := seg r @ ds)"
  note f' = f [unfolded fills_def]
  have wk: "work_ok db byte (R r) ?rq (seg r)" and tl: "\<forall>r \<in> set rs. seg r = []"
    using i(7) by (simp_all add: req_inv_def work)
  note wk' = wk [unfolded work_ok_def]
  have new: "r \<notin> set fin" "r \<notin> set (dq_pend_list (dw_q w))" "r \<notin> set rs"
    using i(7) by (auto simp: req_inv_def work)
  have same: "same_request ?rq (R r)" using wk' by simp
  then have count: "req_count ?rq = req_count (R r)" by (simp add: same_request_def)
  have small: "unat (req_count ?rq) < 2 ^ 31" using wk' count by simp
  have len: "length (seg r) + length ds \<le> 2 ^ 31" "req_count ?rq \<noteq> 0 \<Longrightarrow> length (seg r) + length ds \<le> tot"
    using f' wk' small by (auto simp: tot_def)
  have off: "unat (cb_offset ?rq + of_nat m) = tot"
  proof -
    have "tot < 2 ^ 32" using f' small by (simp add: tot_def)
    then show ?thesis by (simp add: tot_def unat_word_ariths unat_of_nat take_bit_eq_mod)
  qed
  have nr: "unat (cb_desc_nr ?rq + of_nat (length ds)) = length (seg r) + length ds"
  proof -
    have "length (seg r) + length ds < 2 ^ 32" using len(1) by simp
    then show ?thesis using wk' by (simp add: unat_word_ariths unat_of_nat take_bit_eq_mod)
  qed
  define rq' where "rq' = ?rq\<lparr>cb_desc_nr := cb_desc_nr ?rq + of_nat (length ds), cb_offset := cb_offset ?rq + of_nat m,
    cb_sg_offset := off, cb_sg := sg\<rparr>"
  have full: "req_count rq' \<le> cb_offset rq' \<longleftrightarrow> tot = unat (req_count ?rq)"
    using f' by (auto simp: rq'_def word_le_nat_alt off tot_def)
  have req: "dw_req w' = (dw_req w)(r := rq')" and dev: "dw_dev w' = dw_dev w" and ev: "dw_events w' = dw_events w"
    by (simp_all add: w'_def round_done_def qdma_update_request_def Let_def rq'_def)
  define q where "q = (dw_q w)\<lparr>dq_desc := ring, dq_pidx := pidx, dq_avail := dq_avail (dw_q w) - of_nat (length ds)\<rparr>"
  have wq: "dw_q w' = (if tot = unat (req_count ?rq)
      then q\<lparr>dq_work_list := rs, dq_work_req_pend := of_nat (length rs), dq_pend_list := dq_pend_list (dw_q w) @ [r]\<rparr> else q)"
    using full new(2) i(13) work
    by (simp add: w'_def round_done_def qdma_update_request_def Let_def q_def qdma_work_queue_del_def list_del_def remove1_idem flip: rq'_def)
  show "dq_work_list (dw_q w') = (if tot = unat (req_count ?rq) then rs else r # rs)" by (simp add: wq q_def work)
  show "dq_pend_list (dw_q w') @ dq_work_list (dw_q w') = dq_pend_list (dw_q w) @ dq_work_list (dw_q w)" by (simp add: wq q_def work)
  show "unat (cb_offset (dw_req w' r)) = tot" "same_request (dw_req w' r) ?rq" "\<And>r'. r' \<noteq> r \<Longrightarrow> dw_req w' r' = dw_req w r'"
    by (simp_all add: req rq'_def off same_request_def)
  show "dq_pidx (dw_q w') = pidx" "dw_dev w' = dw_dev w" "dq_drv_mode (dw_q w') = dq_drv_mode (dw_q w)"
    "dq_q_state (dw_q w') = dq_q_state (dw_q w)" "dq_q_stop_wait (dw_q w') = dq_q_stop_wait (dw_q w)"
    "dq_proc_req_running (dw_q w') = dq_proc_req_running (dw_q w)"
    by (simp_all add: wq q_def dev)
  have bytes: "concat (map db (?seg r)) = map (byte (R r)) [0..<tot]"
  proof -
    have "[0..<tot] = [0..<?p] @ [?p..<?p + m]" by (simp add: tot_def upt_add_eq_append [of 0])
    then show ?thesis using wk' f' byte [OF same] by simp
  qed
  have segs: "written ?seg xs = written seg xs" if "r \<notin> set xs" for xs
    using that by (induction xs) simp_all
  have rs0: "written seg rs = []" using tl by (induction rs) simp_all
  have hist: "H @ ds = written ?seg (fin @ dq_pend_list (dw_q w') @ dq_work_list (dw_q w'))"
    using i(10) new work rs0 by (simp add: wq q_def segs)
  have C: "?C \<le> length H" using i(6) by (simp add: hw_inv_def)
  have others: "\<And>p. p \<in> set (dq_pend_list (dw_q w)) \<Longrightarrow> dw_req w' p = dw_req w p \<and> ?seg p = seg p"
    "\<And>p. p \<in> set rs \<Longrightarrow> dw_req w' p = dw_req w p \<and> ?seg p = seg p" using new by (auto simp: req)
  have reqs: "req_inv db byte R ?seg fin w'"
  proof (cases "tot = unat (req_count ?rq)")
    case True
    have r: "pend_ok db byte (R r) (?seg r)" "same_request (dw_req w' r) (R r)" "cb_offset (dw_req w' r) = req_count (R r)"
      "unat (cb_desc_nr (dw_req w' r)) = length (?seg r)"
      using bytes True count f' len(1) same nr off by (simp_all add: pend_ok_def req rq'_def same_request_def word_unat_eq_iff)
    have "dq_pend_list (dw_q w') = dq_pend_list (dw_q w) @ [r]" "dq_work_list (dw_q w') = rs" using True by (simp_all add: wq q_def)
    moreover have "\<forall>p \<in> set (tl (dq_pend_list (dw_q w) @ [r])). unat (cb_desc_nr (dw_req w' p)) = length (?seg p)"
    proof
      fix p
      assume "p \<in> set (tl (dq_pend_list (dw_q w) @ [r]))"
      then consider "p = r" | "p \<in> set (tl (dq_pend_list (dw_q w)))" by (cases "dq_pend_list (dw_q w)") auto
      then show "unat (cb_desc_nr (dw_req w' p)) = length (?seg p)"
      proof cases
        case 2
        then have "p \<in> set (dq_pend_list (dw_q w))" by (cases "dq_pend_list (dw_q w)") auto
        then show ?thesis using others(1) [of p] i(7) 2 by (simp add: req_inv_def)
      qed (use r(4) in simp)
    qed
    moreover have "\<forall>p \<in> set (tl rs). ?seg p = []"
    proof
      fix p
      assume "p \<in> set (tl rs)"
      then have "p \<in> set rs" by (cases rs) auto
      then show "?seg p = []" using others(2) [of p] tl by simp
    qed
    moreover have "?seg p = seg p" if "p \<in> set fin" for p using that new by auto
    ultimately show ?thesis
      using i(7) r others new tl unfolding req_inv_def work by (auto simp del: fun_upd_apply)
  next
    case False
    have "work_ok db byte (R r) (dw_req w' r) (?seg r)"
      using bytes False f' len wk' off nr small count same
      by (auto simp: work_ok_def req rq'_def same_request_def word_less_nat_alt tot_def)
    moreover have "dq_pend_list (dw_q w') = dq_pend_list (dw_q w)" "dq_work_list (dw_q w') = r # rs" using False by (simp_all add: wq q_def work)
    moreover have "\<forall>p \<in> set (tl (dq_pend_list (dw_q w))). unat (cb_desc_nr (dw_req w' p)) = length (?seg p)"
    proof
      fix p
      assume p: "p \<in> set (tl (dq_pend_list (dw_q w)))"
      then have "p \<in> set (dq_pend_list (dw_q w))" by (cases "dq_pend_list (dw_q w)") auto
      then show "unat (cb_desc_nr (dw_req w' p)) = length (?seg p)" using others(1) [of p] i(7) p by (simp add: req_inv_def)
    qed
    moreover have "?seg p = seg p" if "p \<in> set fin" for p using that new by auto
    ultimately show ?thesis
      using i(7) others new tl unfolding req_inv_def work by (auto simp del: fun_upd_apply)
  qed
  show "queue_inv qc n ann rep moved db byte R (H @ ds) P ?seg fin w'"
    unfolding queue_inv_def
  proof (intro conjI)
    have "dq_avail (dw_q w) \<ge> of_nat (length ds)" "unat (of_nat (length ds) :: u32) = length ds"
    proof -
      have "length ds \<le> unat (dq_avail (dw_q w))" using f' by simp
      then have "length ds < 2 ^ 32" using unat_u32 [of "dq_avail (dw_q w)"] by linarith
      then show "unat (of_nat (length ds) :: u32) = length ds" by (simp add: unat_of_nat take_bit_nat_eq_self)
      then show "dq_avail (dw_q w) \<ge> of_nat (length ds)" using \<open>length ds \<le> _\<close> by (simp add: word_le_nat_alt)
    qed
    then have "unat (dq_avail (dw_q w) - of_nat (length ds)) = unat (dq_avail (dw_q w)) - length ds" by (simp add: unat_sub)
    then show "ring_inv n (rep (dw_dev w')) (H @ ds) (dw_q w')"
      using i(5) f' C by (auto simp: ring_inv_def wq q_def dev)
    show "hw_inv n (rep (dw_dev w')) (ann (dw_dev w')) (moved (dw_dev w')) P (H @ ds) (dw_q w')"
      using i(6) by (auto simp: hw_inv_def wq q_def dev)
    have cw: "credit_inv ?seg fin ?C (unat (dq_credit (dw_q w))) w' \<and> waiting (unat (dq_credit (dw_q w))) w'"
    proof (cases "dq_pend_list (dw_q w)")
      case Nil
      then have c: "?C = length (written seg fin) + unat (dq_credit (dw_q w))" using i(8) by (simp add: credit_inv_def)
      have "length H = length (written seg fin) + length (seg r)" using i(10) Nil work rs0 by simp
      then have "unat (dq_credit (dw_q w)) < length (seg r) + length ds" 
      proof -
        have "0 < length ds" using f' by simp
        then show ?thesis using c C \<open>length H = _\<close> by linarith
      qed
      then show ?thesis using c Nil new nr by (simp add: credit_inv_def waiting_def wq q_def req rq'_def segs)
    next
      case (Cons p ps)
      then have "p \<noteq> r" using new by auto
      then show ?thesis using i(8,9) Cons new by (simp add: credit_inv_def waiting_def wq q_def req segs)
    qed
    have "dq_credit (dw_q w') = dq_credit (dw_q w)" by (simp add: wq q_def)
    then show "credit_inv ?seg fin (rep (dw_dev w')) (unat (dq_credit (dw_q w'))) w'" "waiting (unat (dq_credit (dw_q w'))) w'"
      using cw by (simp_all add: dev)
  qed (use i hist reqs ev wq q_def in simp_all)
qed

end
