(* ===== verification/Descq_Run.thy ===== *)
theory Descq_Run
  imports Descq_Queue
begin

section \<open>What a queue moves\<close>

text \<open>
  The loops of the processing functions on top of a contract for their rounds, which the memory mapped queues and the
  host-to-card streams provide, the queue as a state machine that submissions, processing and services drive in any
  order, and the bytes that the hardware moves meanwhile.
\<close>

unbundle bit_operations_syntax

subsection \<open>Progress\<close>

text \<open>The bytes that the requests of the work list lack, with one more for each of them.\<close>

definition left :: "'s dq_world \<Rightarrow> nat" where
  "left w = (\<Sum>r\<leftarrow>dq_work_list (dw_q w). Suc (unat (req_count (dw_req w r)) - unat (cb_offset (dw_req w r))))"

definition advances :: "('s \<Rightarrow> nat) \<Rightarrow> ring_desc list \<Rightarrow> nat list \<Rightarrow> 's dq_world \<Rightarrow> ring_desc list \<Rightarrow> nat list \<Rightarrow> 's dq_world \<Rightarrow> bool" where
  "advances rep H fin w H' fin' w' \<longleftrightarrow> length H \<le> length H' \<and>
     fin' @ dq_pend_list (dw_q w') @ dq_work_list (dw_q w') = fin @ dq_pend_list (dw_q w) @ dq_work_list (dw_q w) \<and>
     set (dq_work_list (dw_q w')) \<subseteq> set (dq_work_list (dw_q w)) \<and> dq_drv_mode (dw_q w') = dq_drv_mode (dw_q w) \<and>
     dq_q_state (dw_q w') = dq_q_state (dw_q w) \<and> dq_q_stop_wait (dw_q w') = dq_q_stop_wait (dw_q w) \<and>
     left w' + length H' \<le> left w + length H \<and> rep (dw_dev w) \<le> rep (dw_dev w')"

lemma advances_refl [simp]: "advances rep H fin w H fin w"
  by (simp add: advances_def)

lemma advances_trans: "advances rep H fin w H1 fin1 w1 \<Longrightarrow> advances rep H1 fin1 w1 H2 fin2 w2 \<Longrightarrow> advances rep H fin w H2 fin2 w2"
  unfolding advances_def by auto

lemma left_cong:
  assumes "dq_work_list (dw_q w') = dq_work_list (dw_q w)"
    and "\<And>r. r \<in> set (dq_work_list (dw_q w)) \<Longrightarrow> dw_req w' r = dw_req w r"
  shows "left w' = left w"
  unfolding left_def assms(1) by (intro arg_cong [where f = sum_list] map_cong) (simp_all add: assms(2))

lemma keeps_work:
  assumes "queue_inv qc n ann rep moved db byte R H P seg fin w" and "keeps w w'" and "r \<in> set (dq_work_list (dw_q w))"
  shows "dw_req w' r = dw_req w r"
  using queue_invD(7) [OF assms(1)] assms(2,3) by (auto simp: req_inv_def keeps_def)

context descq_hardware begin

lemma cmpl_status_advances:
  assumes "queue_inv qc n ann rep moved db byte R H P seg fin w"
  defines "w' \<equiv> descq_mm_n_h2c_cmpl_status io w"
  obtains fin' where "queue_inv qc n ann rep moved db byte R H P seg fin' w'" and "keeps w w'" and "advances rep H fin w H fin' w'"
    and "left w' = left w" and "dq_proc_req_running (dw_q w') = dq_proc_req_running (dw_q w)"
    and "ann (dw_dev w) = P \<longrightarrow> ann (dw_dev w') = P"
    and "dq_pidx (dw_q w) = dq_cidx (dw_q w) \<and> w' = w \<or>
      (\<exists>v s. read_cidx io (dq_desc (dw_q w)) (dw_dev w) = (v, s) \<and> rep (dw_dev w') = rep s)"
proof -
  obtain fin' where c: "queue_inv qc n ann rep moved db byte R H P seg fin' w'" "keeps w w'"
    "fin' @ dq_pend_list (dw_q w') = fin @ dq_pend_list (dw_q w)" "dq_proc_req_running (dw_q w') = dq_proc_req_running (dw_q w)"
    "ann (dw_dev w) = P \<longrightarrow> ann (dw_dev w') = P" "rep (dw_dev w) \<le> rep (dw_dev w')"
    "dq_pidx (dw_q w) = dq_cidx (dw_q w) \<and> w' = w \<or>
      (\<exists>v s. read_cidx io (dq_desc (dw_q w)) (dw_dev w) = (v, s) \<and> rep (dw_dev w') = rep s)"
    using cmpl_status_inv [OF assms(1)] unfolding w'_def by blast
  have l: "left w' = left w"
    by (rule left_cong) (use c(2) keeps_work [OF assms(1) c(2)] in \<open>simp_all add: keeps_def\<close>)
  have "advances rep H fin w H fin' w'"
    using c(2,6) l arg_cong [OF c(3), of "\<lambda>xs. xs @ dq_work_list (dw_q w)"] by (simp add: advances_def keeps_def)
  then show thesis using that c l by blast
qed

lemma poll_advances:
  assumes "queue_inv qc n ann rep moved db byte R H P seg fin w"
  defines "w' \<equiv> descq_poll_mm_n_h2c_cmpl_status io w"
  obtains fin' where "queue_inv qc n ann rep moved db byte R H P seg fin' w'" and "keeps w w'" and "advances rep H fin w H fin' w'"
    and "left w' = left w" and "ann (dw_dev w) = P \<longrightarrow> ann (dw_dev w') = P"
    and "\<not> dq_poll_mode (dw_q w) \<longrightarrow> w' = w"
    and "\<exists>w1. same_view w1 w \<and> w' = (if dq_poll_mode (dw_q w) then descq_mm_n_h2c_cmpl_status io w1 else w)"
proof (cases "dq_poll_mode (dw_q w)")
  case False
  then have "w' = w" by (simp add: w'_def descq_poll_mm_n_h2c_cmpl_status_def)
  moreover have "\<exists>w1. same_view w1 w" using same_view_refl by blast
  ultimately show ?thesis using that [of fin] assms(1) False by auto
next
  case True
  define w1 where "w1 = set_q (\<lambda>q. q\<lparr>dq_proc_req_running := True\<rparr>) w"
  have view: "same_view w1 w" by (simp add: same_view_def w1_def)
  then have "queue_inv qc n ann rep moved db byte R H P seg fin w1" using assms(1) by (simp add: queue_inv_view)
  then obtain fin' where c: "queue_inv qc n ann rep moved db byte R H P seg fin' (descq_mm_n_h2c_cmpl_status io w1)"
    "keeps w1 (descq_mm_n_h2c_cmpl_status io w1)" "advances rep H fin w1 H fin' (descq_mm_n_h2c_cmpl_status io w1)"
    "left (descq_mm_n_h2c_cmpl_status io w1) = left w1"
    "ann (dw_dev w1) = P \<longrightarrow> ann (dw_dev (descq_mm_n_h2c_cmpl_status io w1)) = P"
    by (rule cmpl_status_advances)
  have "w' = descq_mm_n_h2c_cmpl_status io w1" using True by (simp add: w'_def descq_poll_mm_n_h2c_cmpl_status_def w1_def)
  moreover have "keeps w w1" "left w1 = left w" by (simp_all add: keeps_def w1_def left_def)
  ultimately show ?thesis
    using that [of fin'] c True view by (auto simp: keeps_def advances_def w1_def)
qed

end

subsection \<open>The processing loop\<close>

locale dq_filler = descq_hardware io n ann rep moved
  for io :: "'s dq_io" and n :: nat and ann rep :: "'s \<Rightarrow> nat" and moved :: "'s \<Rightarrow> ring_desc list" +
  fixes qc :: qdma_queue_conf and db :: "ring_desc \<Rightarrow> 'b list" and byte :: "qdma_request \<Rightarrow> nat \<Rightarrow> 'b" and ok :: "qdma_request \<Rightarrow> bool"
    and round :: "nat \<Rightarrow> u32 \<times> u32 \<times> 's dq_world \<Rightarrow> bool \<times> u32 \<times> u32 \<times> 's dq_world"
    and loop :: "u32 \<times> u32 \<times> 's dq_world \<Rightarrow> (u32 \<times> u32 \<times> 's dq_world) option"
    and proc :: "'s dq_world \<Rightarrow> (int \<times> 's dq_world) option"
  assumes byte_same: "same_request rq rq' \<Longrightarrow> byte rq = byte rq'" and ok_same: "same_request rq rq' \<Longrightarrow> ok rq = ok rq'"
    and round_fills: "dq_conf (dw_q w) = qc \<Longrightarrow> ok (dw_req w r) \<Longrightarrow> dq_avail (dw_q w) \<noteq> 0 \<Longrightarrow>
      cb_offset (dw_req w r) < req_count (dw_req w r) \<or> req_count (dw_req w r) = 0 \<and> cb_offset (dw_req w r) = 0 \<Longrightarrow>
      ring_holds (unat (qc_rngsz qc)) (dq_desc (dw_q w)) C H \<Longrightarrow> unat (dq_pidx (dw_q w)) = length H mod unat (qc_rngsz qc) \<Longrightarrow>
      length H + unat (dq_avail (dw_q w)) < C + unat (qc_rngsz qc) \<Longrightarrow>
      \<exists>ds m pidx ring off sg. round r (dq_pidx (dw_q w), d, w) = (True, pidx, d + of_nat (length ds), round_done r pidx ring ds m off sg w) \<and>
        fills (unat (qc_rngsz qc)) C db (byte (dw_req w r)) H (dw_req w r) (unat (dq_avail (dw_q w))) pidx ring ds m"
    and round_poll: "dq_avail (dw_q w) = 0 \<Longrightarrow> keeps w (descq_poll_mm_n_h2c_cmpl_status io w) \<Longrightarrow>
      dw_req (descq_poll_mm_n_h2c_cmpl_status io w) r = dw_req w r \<Longrightarrow>
      round r (pidx, d, w) = (if dq_avail (dw_q (descq_poll_mm_n_h2c_cmpl_status io w)) = 0
        then (False, pidx, d, descq_poll_mm_n_h2c_cmpl_status io w) else round r (pidx, d, descq_poll_mm_n_h2c_cmpl_status io w))"
    and loop_eq: "loop st = (case dq_work_list (dw_q (snd (snd st))) of [] \<Rightarrow> Some st
      | r # rs \<Rightarrow> (case round r st of (go_on, st') \<Rightarrow> if go_on then loop st' else Some st'))"
    and proc_eq: "keeps w (descq_poll_mm_n_h2c_cmpl_status io w) \<Longrightarrow> proc w =
      (if dq_q_stop_wait (dw_q w) then Some (0, descq_mm_n_h2c_cmpl_status io w)
       else if dq_q_state (dw_q w) \<noteq> Q_STATE_ONLINE then Some (0, w)
       else if dq_proc_req_running (dw_q w) then Some (0, w)
       else case loop (dq_pidx (dw_q w), 0, descq_poll_mm_n_h2c_cmpl_status io w) of None \<Rightarrow> None
         | Some (pidx, d, w) \<Rightarrow> Some (proc_finish io d w))"
begin

lemma round_advances:
  assumes inv: "queue_inv qc n ann rep moved db byte R H P seg fin w" and work: "dq_work_list (dw_q w) = r # rs"
    and ok: "\<forall>r \<in> set (dq_work_list (dw_q w)). ok (R r)" and avail: "dq_avail (dw_q w) \<noteq> 0"
  obtains H' seg' w' where "round r (dq_pidx (dw_q w), d, w) = (True, dq_pidx (dw_q w'), d + of_nat (length H' - length H), w')"
    and "queue_inv qc n ann rep moved db byte R H' P seg' fin w'" and "advances rep H fin w H' fin w'" and "left w' < left w"
    and "length H < length H'" and "dw_dev w' = dw_dev w"
proof -
  note i = queue_invD [OF inv]
  have wk: "work_ok db byte (R r) (dw_req w r) (seg r)" using i(7) by (simp add: req_inv_def work)
  have okr: "ok (dw_req w r)" using ok wk ok_same [of "dw_req w r" "R r"] by (auto simp: work work_ok_def)
  have begun: "cb_offset (dw_req w r) < req_count (dw_req w r) \<or> req_count (dw_req w r) = 0 \<and> cb_offset (dw_req w r) = 0"
    using wk by (simp add: work_ok_def)
  have ring: "ring_holds (unat (qc_rngsz qc)) (dq_desc (dw_q w)) (rep (dw_dev w)) H"
    "unat (dq_pidx (dw_q w)) = length H mod unat (qc_rngsz qc)" "length H + unat (dq_avail (dw_q w)) < rep (dw_dev w) + unat (qc_rngsz qc)"
    using i(2,3,5) by (auto simp: ring_inv_def ring_holds_def)
  obtain ds m pidx ring off sg where r: "round r (dq_pidx (dw_q w), d, w) = (True, pidx, d + of_nat (length ds), round_done r pidx ring ds m off sg w)"
    and f: "fills n (rep (dw_dev w)) db (byte (dw_req w r)) H (dw_req w r) (unat (dq_avail (dw_q w))) pidx ring ds m"
    using round_fills [OF i(1) okr avail begun ring] unfolding i(2) by blast
  define w' where "w' = round_done r pidx ring ds m off sg w"
  note v = filled_inv [OF inv work f byte_same, where off = off and sg = sg, folded w'_def]
  have f': "ds \<noteq> []" "unat (cb_offset (dw_req w r)) + m \<le> unat (req_count (dw_req w r))" "length ds \<le> m \<or> req_count (dw_req w r) = 0 \<and> length ds \<le> 1"
    using f by (simp_all add: fills_def)
  have "r \<notin> set rs" using i(7) by (auto simp: req_inv_def work)
  then have "dw_req w' x = dw_req w x" if "x \<in> set rs" for x using v(6) [of x] that by auto
  then have others: "(\<Sum>r\<leftarrow>rs. Suc (unat (req_count (dw_req w' r)) - unat (cb_offset (dw_req w' r)))) =
      (\<Sum>r\<leftarrow>rs. Suc (unat (req_count (dw_req w r)) - unat (cb_offset (dw_req w r))))"
    by (intro arg_cong [where f = sum_list] map_cong) simp_all
  have cnt: "req_count (dw_req w' r) = req_count (dw_req w r)" using v(5) by (simp add: same_request_def)
  have less: "left w' + length ds \<le> left w"
  proof (cases "unat (cb_offset (dw_req w r)) + m = unat (req_count (dw_req w r))")
    case True
    then show ?thesis using f'(3) by (auto simp: left_def v(2) work others)
  next
    case False
    then have "req_count (dw_req w r) \<noteq> 0" using f'(2) by auto
    then have "length ds \<le> m" using f'(3) by auto
    then show ?thesis using False f'(2) by (simp add: left_def v(2,4) work cnt others)
  qed
  have "advances rep H fin w (H @ ds) fin w'"
    using v(2,3,8-11) less unfolding advances_def by (auto simp: work split: if_splits)
  then show thesis
    using that [of w' "H @ ds"] r v(1,7,8) less less_le_trans [of "left w'" "left w' + length ds"] f'(1) by (simp add: w'_def)
qed

lemma loop_advances:
  assumes "queue_inv qc n ann rep moved db byte R H P seg fin w" and "\<forall>r \<in> set (dq_work_list (dw_q w)). ok (R r)"
  shows "\<exists>H' seg' fin' w'. loop (dq_pidx (dw_q w), d, w) = Some (dq_pidx (dw_q w'), d + of_nat (length H' - length H), w') \<and>
    queue_inv qc n ann rep moved db byte R H' P seg' fin' w' \<and> advances rep H fin w H' fin' w' \<and>
    (dq_work_list (dw_q w') = [] \<or> dq_avail (dw_q w') = 0) \<and>
    (dq_work_list (dw_q w) \<noteq> [] \<and> dq_avail (dw_q w) \<noteq> 0 \<longrightarrow> left w' < left w) \<and>
    (ann (dw_dev w) = P \<longrightarrow> ann (dw_dev w') = P)"
  using assms
proof (induction "left w" arbitrary: H seg fin w d rule: less_induct)
  case less
  note inv = less.prems(1)
  show ?case
  proof (cases "dq_work_list (dw_q w)")
    case Nil
    then show ?thesis
      using inv by (intro exI [of _ H] exI [of _ seg] exI [of _ fin] exI [of _ w]) (simp add: loop_eq)
  next
    case work: (Cons r rs)
    define wp where "wp = descq_poll_mm_n_h2c_cmpl_status io w"
    obtain finp where p: "queue_inv qc n ann rep moved db byte R H P seg finp wp" "keeps w wp" "advances rep H fin w H finp wp" "left wp = left w"
      "ann (dw_dev w) = P \<longrightarrow> ann (dw_dev wp) = P"
      using poll_advances [OF inv] unfolding wp_def by blast
    have workp: "dq_work_list (dw_q wp) = r # rs" and pidxp: "dq_pidx (dw_q wp) = dq_pidx (dw_q w)"
      using p(2) work by (simp_all add: keeps_def)
    have reqp: "dw_req wp r = dw_req w r" using keeps_work [OF inv p(2)] work by simp
    define w1 fin1 where "w1 = (if dq_avail (dw_q w) = 0 then wp else w)" and "fin1 = (if dq_avail (dw_q w) = 0 then finp else fin)"
    have s: "queue_inv qc n ann rep moved db byte R H P seg fin1 w1" "advances rep H fin w H fin1 w1" "left w1 = left w"
      "dq_work_list (dw_q w1) = r # rs" "dq_pidx (dw_q w1) = dq_pidx (dw_q w)"
      "ann (dw_dev w) = P \<longrightarrow> ann (dw_dev w1) = P"
      using p inv work workp pidxp by (simp_all add: w1_def fin1_def)
    have round: "round r (dq_pidx (dw_q w), d, w) =
        (if dq_avail (dw_q w1) = 0 then (False, dq_pidx (dw_q w), d, w1) else round r (dq_pidx (dw_q w1), d, w1))"
      using round_poll [of w r] p(2) reqp pidxp by (simp add: w1_def wp_def)
    show ?thesis
    proof (cases "dq_avail (dw_q w1) = 0")
      case True
      then have a: "dq_avail (dw_q w) = 0" by (auto simp: w1_def split: if_splits)
      have "loop (dq_pidx (dw_q w), d, w) = Some (dq_pidx (dw_q w1), d, w1)"
        using True round s(5) by (subst loop_eq) (simp add: work)
      then show ?thesis
        using s True a by (intro exI [of _ H] exI [of _ seg] exI [of _ fin1] exI [of _ w1]) simp
    next
      case False
      have ok: "\<forall>r \<in> set (dq_work_list (dw_q w1)). ok (R r)" using less.prems(2) s(4) work by simp
      obtain H2 seg2 w2 where r: "round r (dq_pidx (dw_q w1), d, w1) = (True, dq_pidx (dw_q w2), d + of_nat (length H2 - length H), w2)"
        "queue_inv qc n ann rep moved db byte R H2 P seg2 fin1 w2" "advances rep H fin1 w1 H2 fin1 w2" "left w2 < left w1" "length H < length H2" "dw_dev w2 = dw_dev w1"
        using round_advances [OF s(1,4) ok False] by blast
      have ok2: "\<forall>r \<in> set (dq_work_list (dw_q w2)). ok (R r)" using ok r(3) by (auto simp: advances_def)
      have "\<exists>H' seg' fin' w'. loop (dq_pidx (dw_q w2), d + of_nat (length H2 - length H), w2) =
          Some (dq_pidx (dw_q w'), d + of_nat (length H2 - length H) + of_nat (length H' - length H2), w') \<and>
        queue_inv qc n ann rep moved db byte R H' P seg' fin' w' \<and> advances rep H2 fin1 w2 H' fin' w' \<and>
        (dq_work_list (dw_q w') = [] \<or> dq_avail (dw_q w') = 0) \<and>
        (dq_work_list (dw_q w2) \<noteq> [] \<and> dq_avail (dw_q w2) \<noteq> 0 \<longrightarrow> left w' < left w2) \<and>
        (ann (dw_dev w2) = P \<longrightarrow> ann (dw_dev w') = P)"
        by (rule less.hyps) (use r(4) s(3) r(2) ok2 in simp_all)
      then obtain H' seg' fin' w' where l: "loop (dq_pidx (dw_q w2), d + of_nat (length H2 - length H), w2) =
          Some (dq_pidx (dw_q w'), d + of_nat (length H2 - length H) + of_nat (length H' - length H2), w')"
        "queue_inv qc n ann rep moved db byte R H' P seg' fin' w'" "advances rep H2 fin1 w2 H' fin' w'"
        "dq_work_list (dw_q w') = [] \<or> dq_avail (dw_q w') = 0" "ann (dw_dev w2) = P \<longrightarrow> ann (dw_dev w') = P" by blast
      have "length H2 \<le> length H'" using l(3) by (simp add: advances_def)
      then have "of_nat (length H2 - length H) + of_nat (length H' - length H2) = (of_nat (length H' - length H) :: u32)"
        using r(5) by (simp flip: of_nat_add)
      then have "loop (dq_pidx (dw_q w), d, w) = Some (dq_pidx (dw_q w'), d + of_nat (length H' - length H), w')"
        using False round r(1) l(1) by (subst loop_eq) (simp add: work add.assoc)
      moreover have "advances rep H fin w H' fin' w'"
        using advances_trans [OF advances_trans [OF s(2) r(3)] l(3)] .
      moreover have "left w' < left w" using r(4) s(3) l(3) by (simp add: advances_def) 
      ultimately show ?thesis using l(2,4,5) r(6) s(6)
        by (intro exI [of _ H'] exI [of _ seg'] exI [of _ fin'] exI [of _ w']) simp
    qed
  qed
qed

text \<open>The end of a processing function announces what the loop wrote.\<close>

lemma finish_advances:
  assumes inv: "queue_inv qc n ann rep moved db byte R H P seg fin w" and fin: "proc_finish io d w = (rv, w')"
  shows "\<exists>P' fin'. queue_inv qc n ann rep moved db byte R H P' seg fin' w' \<and> advances rep H fin w H fin' w' \<and> left w' = left w \<and>
    (if d = 0 then P' = P else P' = length H) \<and> (rv < 0 \<or> \<not> dq_proc_req_running (dw_q w')) \<and>
    (rv < 0 \<or> d \<noteq> 0 \<or> ann (dw_dev w) = P \<longrightarrow> rv < 0 \<or> ann (dw_dev w') = P')"
proof (cases "d = 0")
  case True
  then have "rv = 0" "w' = set_q (\<lambda>q. q\<lparr>dq_proc_req_running := False\<rparr>) w" using fin by (simp_all add: proc_finish_def)
  moreover have "same_view (set_q (\<lambda>q. q\<lparr>dq_proc_req_running := False\<rparr>) w) w" by (simp add: same_view_def)
  ultimately show ?thesis using True inv by (intro exI [of _ P] exI [of _ fin]) (auto simp: queue_inv_view advances_def left_def)
next
  case False
  note i = queue_invD [OF inv]
  define w1 where "w1 = set_q (\<lambda>q. q\<lparr>dq_pend_list_empty := False, dq_pidx_info := (dq_pidx_info q)\<lparr>pi_pidx := ucast (dq_pidx q)\<rparr>\<rparr>) w"
  have pidx: "unat (pi_pidx (dq_pidx_info (dw_q w1))) = length H mod n"
  proof -
    have p: "unat (dq_pidx (dw_q w)) = length H mod n" using i(5) by (simp add: ring_inv_def)
    moreover have "length H mod n < 2 ^ 16" by (rule less_le_trans [OF mod_less_divisor i(4)]) (use i(3) in simp)
    ultimately show ?thesis by (simp add: w1_def unsigned_ucast_eq take_bit_nat_eq_self)
  qed
  have hw1: "hw_inv n (rep (dw_dev w1)) (ann (dw_dev w1)) (moved (dw_dev w1)) (length H) H (dw_q w1)"
    using i(6) pidx by (simp add: hw_inv_def w1_def)
  obtain rv1 s where p: "pidx_update io (dq_pidx_info (dw_q w1)) (dw_dev w1) = (rv1, s)" by fastforce
  have lt: "length H < rep (dw_dev w1) + n" using i(5) by (simp add: ring_inv_def ring_holds_def w1_def)
  note h = pidx_write_inv [OF hw1 lt pidx p]
  define w2 where "w2 = w1\<lparr>dw_dev := s\<rparr>"
  have q2: "dw_q w2 = dw_q w1" "dw_req w2 = dw_req w" "dw_events w2 = dw_events w" "dw_dev w2 = s" by (simp_all add: w2_def w1_def)
  have inv2: "queue_inv qc n ann rep moved db byte R H (length H) seg fin w2"
  proof -
    have c: "dq_pend_list (dw_q w2) = dq_pend_list (dw_q w)" "dq_work_list (dw_q w2) = dq_work_list (dw_q w)" "dw_req w2 = dw_req w"
      by (simp_all add: q2 w1_def)
    have "ring_inv n (rep s) H (dw_q w2)" using i(5) h(2) by (simp add: ring_inv_def q2 w1_def)
    then show ?thesis
      unfolding queue_inv_def req_parts_cong [OF c] c q2(3,4) using i h(1,2) by (simp add: q2(1)) (simp add: w1_def)
  qed
  have adv2: "advances rep H fin w H fin w2" "left w2 = left w"
    using h(2) by (simp_all add: advances_def left_def q2 w1_def)
  have e: "proc_finish io d w = (if rv1 < 0 then (- EINVAL, w2) else
      (0, let w = set_q (\<lambda>q. q\<lparr>dq_proc_req_running := False\<rparr>) (descq_poll_mm_n_h2c_cmpl_status io w2)
        in if dq_cmplthp (dw_q w) then dq_event WakeupThread w else w))"
    using False p by (simp add: proc_finish_def queue_pidx_update_def w2_def Let_def flip: w1_def) (simp add: EINVAL_def)
  show ?thesis
  proof (cases "rv1 < 0")
    case True
    then show ?thesis
      using e fin inv2 adv2 False by (intro exI [of _ "length H"] exI [of _ fin]) (auto simp: EINVAL_def)
  next
    case ok: False
    obtain fin' where a: "queue_inv qc n ann rep moved db byte R H (length H) seg fin' (descq_poll_mm_n_h2c_cmpl_status io w2)"
      "advances rep H fin w2 H fin' (descq_poll_mm_n_h2c_cmpl_status io w2)" "left (descq_poll_mm_n_h2c_cmpl_status io w2) = left w2"
      "ann (dw_dev w2) = length H \<longrightarrow> ann (dw_dev (descq_poll_mm_n_h2c_cmpl_status io w2)) = length H"
      using poll_advances [OF inv2] by blast
    define wp where "wp = descq_poll_mm_n_h2c_cmpl_status io w2"
    have w': "rv = 0" "w' = (let w = set_q (\<lambda>q. q\<lparr>dq_proc_req_running := False\<rparr>) wp
        in if dq_cmplthp (dw_q w) then dq_event WakeupThread w else w)"
      using e ok fin by (simp_all add: wp_def)
    have view: "same_view w' wp" by (simp add: w'(2) Let_def same_view_def told_ok_def)
    have ann: "ann (dw_dev w2) = length H" using h(3) ok by (simp add: q2)
    have "queue_inv qc n ann rep moved db byte R H (length H) seg fin' w'"
      unfolding queue_inv_view [OF view] using a(1) by (simp add: wp_def)
    moreover have "advances rep H fin w H fin' w'" "left w' = left w"
      using advances_trans [OF adv2(1) a(2)] a(3) adv2(2) by (simp_all add: wp_def [symmetric] w'(2) Let_def advances_def left_def)
    moreover have "ann (dw_dev w') = length H" using a(4) ann by (simp add: w'(2) Let_def wp_def)
    moreover have "\<not> dq_proc_req_running (dw_q w')" by (simp add: w'(2) Let_def)
    ultimately show ?thesis using False by (intro exI [of _ "length H"] exI [of _ fin']) simp
  qed
qed

text \<open>A processing function returns, whatever the state, and keeps the invariant.\<close>

lemma proc_advances:
  assumes inv: "queue_inv qc n ann rep moved db byte R H P seg fin w" and ok: "\<forall>r \<in> set (dq_work_list (dw_q w)). ok (R r)"
  shows "\<exists>rv H' P' seg' fin' w'. proc w = Some (rv, w') \<and> queue_inv qc n ann rep moved db byte R H' P' seg' fin' w' \<and>
    advances rep H fin w H' fin' w'"
proof -
  obtain finc where c: "queue_inv qc n ann rep moved db byte R H P seg finc (descq_mm_n_h2c_cmpl_status io w)"
    "advances rep H fin w H finc (descq_mm_n_h2c_cmpl_status io w)"
    using cmpl_status_advances [OF inv] by blast
  define wp where "wp = descq_poll_mm_n_h2c_cmpl_status io w"
  obtain finp where p: "queue_inv qc n ann rep moved db byte R H P seg finp wp" "keeps w wp" "advances rep H fin w H finp wp"
    using poll_advances [OF inv] unfolding wp_def by blast
  have okp: "\<forall>r \<in> set (dq_work_list (dw_q wp)). ok (R r)" using ok p(2) by (simp add: keeps_def)
  obtain d H' seg' finl wl where l: "loop (dq_pidx (dw_q wp), 0, wp) = Some (dq_pidx (dw_q wl), d, wl)"
    "queue_inv qc n ann rep moved db byte R H' P seg' finl wl" "advances rep H finp wp H' finl wl"
    using loop_advances [OF p(1) okp, of 0] by blast
  obtain rv w' where f: "proc_finish io d wl = (rv, w')" by fastforce
  obtain P' fin' where r: "queue_inv qc n ann rep moved db byte R H' P' seg' fin' w'" "advances rep H' finl wl H' fin' w'"
    using finish_advances [OF l(2) f] by blast
  have e: "proc w = (if dq_q_stop_wait (dw_q w) then Some (0, descq_mm_n_h2c_cmpl_status io w)
       else if dq_q_state (dw_q w) \<noteq> Q_STATE_ONLINE then Some (0, w)
       else if dq_proc_req_running (dw_q w) then Some (0, w) else Some (rv, w'))"
    using proc_eq [of w] p(2) l(1) f unfolding wp_def [symmetric] by (simp add: keeps_def)
  have "advances rep H fin w H' fin' w'" using advances_trans [OF advances_trans [OF p(3) l(3)] r(2)] .
  then show ?thesis using e c inv r(1) by (metis advances_refl)
qed

end

end
