(* ===== verification/Descq_Mm.thy ===== *)
theory Descq_Mm
  imports Descq_Run
begin

section \<open>Rounds of memory mapped queues and host-to-card streams\<close>

text \<open>The rounds of both kinds of queues keep the contract that the processing loop rests on.\<close>

unbundle bit_operations_syntax

subsection \<open>Apertures\<close>

lemma nat_power_of_two:
  assumes "0 < (a :: nat)" and "a AND (a - 1) = 0"
  shows "\<exists>e. a = 2 ^ e"
  using assms
proof (induction a rule: less_induct)
  case (less a)
  show ?case
  proof (cases "even a")
    case True
    then obtain b where b: "a = 2 * b" by blast
    then have pos: "0 < b" "b < a" using less.prems(1) by simp_all
    then have "a - 1 = Suc (2 * (b - 1))" using b by simp
    then have "(2 * b) AND Suc (2 * (b - 1)) = 2 * (b AND (b - 1))" by (simp add: and_nat_rec [of "2 * b"])
    then have "b AND (b - 1) = 0" using less.prems(2) b \<open>a - 1 = _\<close> by simp
    then obtain e where "b = 2 ^ e" using less.IH [OF pos(2,1)] by blast
    then show ?thesis using b by (intro exI [of _ "Suc e"]) simp
  next
    case False
    then obtain b where b: "a = Suc (2 * b)" by (metis oddE Suc_eq_plus1)
    then have "a AND (a - 1) = 2 * b" by (simp add: and_nat_rec [of "Suc (2 * b)"])
    then show ?thesis using less.prems(2) b by (intro exI [of _ 0]) simp
  qed
qed

lemma and_minus_one:
  assumes "(ap :: u32) \<noteq> 0" and "ap AND (ap - 1) = 0"
  shows "unat (x AND (ap - 1)) = unat x mod unat ap"
proof -
  have m: "unat (ap - 1) = unat ap - 1" using assms(1) by (simp add: unat_minus_one)
  have "unat ap AND (unat ap - 1) = 0" using arg_cong [OF assms(2), of unat] by (simp add: unsigned_and_eq m)
  moreover have "0 < unat ap" using assms(1) by (simp add: unat_gt_0)
  ultimately obtain e where e: "unat ap = 2 ^ e" using nat_power_of_two by blast
  have "unat (x AND (ap - 1)) = unat x AND (2 ^ e - 1)" by (simp add: unsigned_and_eq m e)
  also have "\<dots> = take_bit e (unat x)" by (simp only: take_bit_eq_mask mask_eq_exp_minus_1)
  also have "\<dots> = unat x mod 2 ^ e" by (simp only: take_bit_eq_mod)
  finally show ?thesis by (simp add: e)
qed

text \<open>
  What a memory mapped queue asks of a request: an aperture is a power of two, as starting the queue checks, it fits the
  length field of a descriptor, and the addresses at the end point do not wrap.
\<close>

definition mm_ok :: "qdma_queue_conf \<Rightarrow> qdma_request \<Rightarrow> bool" where
  "mm_ok qc rq \<longleftrightarrow> sgl_ok rq \<and> aperture_ok qc (req_ep_addr rq) \<and>
     (dq_keyhole qc \<longrightarrow> dq_aperture qc AND (dq_aperture qc - 1) = 0)"

text \<open>A stream asks for packets that the length field of a descriptor takes; their size is the low half of the end point address.\<close>

definition st_ok :: "qdma_request \<Rightarrow> bool" where
  "st_ok rq \<longleftrightarrow> sgl_ok rq \<and> st_pktsz rq \<noteq> 0"

lemma st_pktsz_small: "unat (st_pktsz rq) < 2 ^ 16"
proof -
  have "st_pktsz rq \<le> QDMA_PAGE_SIZE" by (simp add: st_pktsz_def)
  then show ?thesis by (simp add: word_le_nat_alt QDMA_PAGE_SIZE_def)
qed

subsection \<open>Flags\<close>

lemma ring_holds_upd:
  assumes "ring_holds n ring lo H" and "lo \<le> a" and "a < length H"
  shows "ring_holds n (upd_desc f (a mod n) ring) lo (H[a := f (H ! a)])"
proof -
  have r: "length ring = n" "length H < lo + n" "\<And>b. lo \<le> b \<Longrightarrow> b < length H \<Longrightarrow> ring ! (b mod n) = H ! b"
    using assms(1) by (auto simp: ring_holds_def)
  have "0 < n" using r(2) assms(2,3) by (cases n) auto
  then have lt: "a mod n < length ring" using r(1) by simp
  have "upd_desc f (a mod n) ring ! (b mod n) = H[a := f (H ! a)] ! b" if b: "lo \<le> b" "b < length H" for b
  proof (cases "a = b")
    case True
    then show ?thesis using lt r(3) [OF b] b by (simp add: upd_desc_def)
  next
    case False
    then have "a mod n \<noteq> b mod n"
      using mod_differ [of a b n] mod_differ [of b a n] b assms(2,3) r(2) by (cases "a < b") fastforce+
    then show ?thesis using False r(3) [OF b] by (simp add: upd_desc_def)
  qed
  then show ?thesis using r(1,2) assms by (simp add: ring_holds_def upd_desc_def)
qed

lemma mm_flag_bytes:
  assumes "f AND QDMA_DESC_BLEN_MAX = 0"
  shows "mm_bytes qc (mm_set_flag f d) = mm_bytes qc d"
  using assms by (simp add: mm_bytes_def mm_set_flag_def bit.conj_disj_distrib2 Let_def)

lemma map_upd_same: "g (f (xs ! i)) = g (xs ! i) \<Longrightarrow> map g (xs[i := f (xs ! i)]) = map g xs"
  by (simp add: map_update) (metis list_update_id map_update)

text \<open>The first and the last descriptor of a round are marked, which changes nothing about the bytes.\<close>

lemma mark_ends:
  assumes "ring_holds n ring lo (H @ ds)" and "ds \<noteq> []" and "lo \<le> length H"
  obtains ds' where "ring_holds n (upd_desc (mm_set_flag DESC_F_SOP) (length H mod n)
      (upd_desc (mm_set_flag DESC_F_EOP) (length (H @ butlast ds) mod n) ring)) lo (H @ ds')"
    and "length ds' = length ds" and "concat (map (mm_bytes qc) ds') = concat (map (mm_bytes qc) ds)"
proof -
  let ?f = "mm_set_flag DESC_F_EOP" and ?g = "mm_set_flag DESC_F_SOP" and ?k = "length ds - 1"
  have z: "DESC_F_EOP AND QDMA_DESC_BLEN_MAX = 0" "DESC_F_SOP AND QDMA_DESC_BLEN_MAX = 0"
    by (simp_all add: DESC_F_EOP_def DESC_F_SOP_def QDMA_DESC_BLEN_MAX_def)
  define ds1 where "ds1 = ds[?k := ?f (ds ! ?k)]"
  define ds2 where "ds2 = ds1[0 := ?g (ds1 ! 0)]"
  have 1: "ring_holds n (upd_desc ?f (length (H @ butlast ds) mod n) ring) lo (H @ ds1)"
    using ring_holds_upd [OF assms(1), of "length (H @ butlast ds)" ?f] assms(2,3)
    by (simp add: ds1_def nth_append list_update_append)
  have "ring_holds n (upd_desc ?g (length H mod n) (upd_desc ?f (length (H @ butlast ds) mod n) ring)) lo (H @ ds2)"
    using ring_holds_upd [OF 1, of "length H" ?g] assms(2,3)
    by (simp add: ds2_def ds1_def nth_append list_update_append)
  moreover have "map (mm_bytes qc) ds2 = map (mm_bytes qc) ds"
    unfolding ds2_def ds1_def by (simp only: map_upd_same mm_flag_bytes z)
  ultimately show thesis using that [of ds2] by (simp add: ds2_def ds1_def)
qed

subsection \<open>Rounds\<close>

lemma set_q_set_q: "set_q f (set_q g w) = set_q (\<lambda>q. f (g q)) w"
  by (simp add: set_q_def)

lemma mm_round_fills:
  fixes w :: "'s dq_world"
  assumes "dq_conf (dw_q w) = qc" and "mm_ok qc (dw_req w r)" and "dq_avail (dw_q w) \<noteq> 0"
    and begun: "cb_offset (dw_req w r) < req_count (dw_req w r) \<or> req_count (dw_req w r) = 0 \<and> cb_offset (dw_req w r) = 0"
    and ring: "ring_holds (unat (qc_rngsz qc)) (dq_desc (dw_q w)) C H" "unat (dq_pidx (dw_q w)) = length H mod unat (qc_rngsz qc)"
    and room: "length H + unat (dq_avail (dw_q w)) < C + unat (qc_rngsz qc)"
  shows "\<exists>ds m pidx ring off sg. mm_round io r (dq_pidx (dw_q w), d, w) = (True, pidx, d + of_nat (length ds), round_done r pidx ring ds m off sg w) \<and>
    fills (unat (qc_rngsz qc)) C (mm_bytes qc) (mm_byte qc (dw_req w r)) H (dw_req w r) (unat (dq_avail (dw_q w))) pidx ring ds m"
proof -
  let ?rq = "dw_req w r" and ?k = "unat (dq_avail (dw_q w))"
  define ep where "ep = (if \<not> dq_keyhole qc then req_ep_addr ?rq + ucast (cb_offset ?rq)
    else req_ep_addr ?rq + ucast (cb_offset ?rq AND (dq_aperture qc - 1)))"
  define fl0 where "fl0 = (\<lambda>off. \<lparr>fl_desc = dq_desc (dw_q w), fl_pidx = dq_pidx (dw_q w), fl_ep_addr = ep, fl_data_cnt = 0,
    fl_desc_cnt = 0, fl_sg_offset = off, fl_desc_end = None\<rparr>)"
  have ok: "sgl_ok ?rq" "aperture_ok qc (req_ep_addr ?rq)" using assms(2) by (simp_all add: mm_ok_def)
  have ep: "ep = ep_at qc (req_ep_addr ?rq) (unat (cb_offset ?rq))"
  proof (cases "dq_keyhole qc")
    case True
    have "dq_aperture qc \<noteq> 0" using aperture_pos [of qc] by (simp del: aperture_pos add: unat_gt_0)
    then have "unat (cb_offset ?rq AND (dq_aperture qc - 1)) = unat (cb_offset ?rq) mod unat (dq_aperture qc)"
      using assms(2) True by (intro and_minus_one) (simp_all add: mm_ok_def)
    moreover have "(ucast (cb_offset ?rq AND (dq_aperture qc - 1)) :: u64) = of_nat (unat (cb_offset ?rq AND (dq_aperture qc - 1)))" by simp
    ultimately show ?thesis using True by (simp only: ep_def ep_at_def if_True not_True_eq_False if_False)
  qed (simp add: ep_def ep_at_def)
  obtain i off ds m fl i' where f: "qdma_sgl_find_offset ?rq = Some (i, off)"
    "mm_fill_sgl qc (req_ep_addr ?rq) ?k i (drop i (req_sgl ?rq)) (fl0 off) = (i', fl)"
    "fill_at (unat (qc_rngsz qc)) C (mm_bytes qc) (\<lambda>p. (sg_bytes (sgl_blocks (req_sgl ?rq)) ! p, Some (ep_at qc (req_ep_addr ?rq) p))) H
      (unat (cb_offset ?rq)) ds m fl"
    "ds \<noteq> []" "length ds \<le> ?k" "unat (cb_offset ?rq) + m \<le> unat (req_count ?rq)"
    "unat (cb_offset ?rq) + m = unat (req_count ?rq) \<or> length ds = ?k" "length ds \<le> m \<or> req_count ?rq = 0 \<and> length ds \<le> 1"
    unfolding fl0_def
  proof (rule mm_fill.loop_request [where ep = "req_ep_addr ?rq" and ep_addr = ep, OF ok(1) begun ring _ room], goal_cases)
    case 1
    then show ?case using assms(3) by (simp add: unat_gt_0)
  next
    case (2 off)
    then show ?case using ok(2) by (simp add: ep_ok_def ep)
  qed
  have B: "(\<lambda>p. (sg_bytes (sgl_blocks (req_sgl ?rq)) ! p, Some (ep_at qc (req_ep_addr ?rq) p))) = mm_byte qc ?rq"
    by (simp add: mm_byte_def fun_eq_iff)
  note at = f(3) [unfolded B fill_at_def]
  have lo: "C \<le> length H" using ring(1) by (simp add: ring_holds_def)
  obtain ds' where m: "ring_holds (unat (qc_rngsz qc)) (upd_desc (mm_set_flag DESC_F_SOP) (length H mod unat (qc_rngsz qc))
      (upd_desc (mm_set_flag DESC_F_EOP) (length (H @ butlast ds) mod unat (qc_rngsz qc)) (fl_desc fl))) C (H @ ds')"
    "length ds' = length ds" "concat (map (mm_bytes qc) ds') = concat (map (mm_bytes qc) ds)"
    using mark_ends [OF at [THEN conjunct1] f(4) lo, where qc = qc] by blast
  let ?ring = "upd_desc (mm_set_flag DESC_F_SOP) (unat (dq_pidx (dw_q w)))
    (upd_desc (mm_set_flag DESC_F_EOP) (length (H @ butlast ds) mod unat (qc_rngsz qc)) (fl_desc fl))"
  let ?sg = "if i' = length (req_sgl ?rq) then None else Some i'" and ?off = "if i' = length (req_sgl ?rq) then 0 else fl_sg_offset fl"
  have round: "mm_round io r (dq_pidx (dw_q w), d, w) =
      (True, fl_pidx fl, d + of_nat (length ds'), round_done r (fl_pidx fl) ?ring ds' m ?off ?sg w)"
  proof -
    define e where "e = length (H @ butlast ds) mod unat (qc_rngsz qc)"
    have fl: "fl_desc_end fl = Some e" "fl_data_cnt fl = of_nat m" "fl_desc_cnt fl = of_nat (length ds')"
      using at f(4) m(2) by (simp_all add: e_def)
    show ?thesis
      unfolding mm_round_def prod.case Let_def assms(1) ep_def [symmetric] if_not_P [OF assms(3)] f(1) option.case
        f(2) [unfolded fl0_def] e_def [symmetric]
      by (simp add: fl round_done_def set_q_set_q)
  qed
  moreover have "fills (unat (qc_rngsz qc)) C (mm_bytes qc) (mm_byte qc ?rq) H ?rq ?k (fl_pidx fl) ?ring ds' m"
    using at f(4-8) m ring(2) by (auto simp: fills_def)
  ultimately show ?thesis by blast
qed

lemma st_round_fills:
  fixes w :: "'s dq_world"
  assumes "dq_conf (dw_q w) = qc" and "st_ok (dw_req w r)" and "dq_avail (dw_q w) \<noteq> 0"
    and begun: "cb_offset (dw_req w r) < req_count (dw_req w r) \<or> req_count (dw_req w r) = 0 \<and> cb_offset (dw_req w r) = 0"
    and ring: "ring_holds (unat (qc_rngsz qc)) (dq_desc (dw_q w)) C H" "unat (dq_pidx (dw_q w)) = length H mod unat (qc_rngsz qc)"
    and room: "length H + unat (dq_avail (dw_q w)) < C + unat (qc_rngsz qc)"
  shows "\<exists>ds m pidx ring off sg. st_round io r (dq_pidx (dw_q w), d, w) = (True, pidx, d + of_nat (length ds), round_done r pidx ring ds m off sg w) \<and>
    fills (unat (qc_rngsz qc)) C st_bytes (st_byte (dw_req w r)) H (dw_req w r) (unat (dq_avail (dw_q w))) pidx ring ds m"
proof -
  let ?rq = "dw_req w r" and ?k = "unat (dq_avail (dw_q w))" and ?ring0 = "upd_desc st_clear (unat (dq_pidx (dw_q w))) (dq_desc (dw_q w))"
  have ok: "sgl_ok ?rq" "st_pktsz ?rq \<noteq> 0" using assms(2) by (simp_all add: st_ok_def)
  have ring0: "ring_holds (unat (qc_rngsz qc)) ?ring0 C H"
    using ring_holds_free [OF ring(1)] by (simp add: upd_desc_def ring(2))
  have "0 < ?k" using assms(3) by (simp add: unat_gt_0)
  then obtain i off ds m fl i' where f: "qdma_sgl_find_offset ?rq = Some (i, off)"
    "st_fill_sgl qc (st_pktsz ?rq) (length (req_sgl ?rq)) ?k i (drop i (req_sgl ?rq)) \<lparr>fl_desc = ?ring0, fl_pidx = dq_pidx (dw_q w), fl_ep_addr = 0,
      fl_data_cnt = 0, fl_desc_cnt = 0, fl_sg_offset = off, fl_desc_end = None\<rparr> = (i', fl)"
    "fill_at (unat (qc_rngsz qc)) C st_bytes (\<lambda>p. (sg_bytes (sgl_blocks (req_sgl ?rq)) ! p, None)) H (unat (cb_offset ?rq)) ds m fl"
    "ds \<noteq> []" "length ds \<le> ?k" "unat (cb_offset ?rq) + m \<le> unat (req_count ?rq)"
    "unat (cb_offset ?rq) + m = unat (req_count ?rq) \<or> length ds = ?k" "length ds \<le> m \<or> req_count ?rq = 0 \<and> length ds \<le> 1"
    using ok(2) st_pktsz_small
    by (rule_tac st_fill.loop_request [where pktsz = "st_pktsz ?rq" and sg_max = "length (req_sgl ?rq)" and ep_addr = 0,
        OF ok(1) begun ring0 ring(2) _ room]) auto
  have B: "(\<lambda>p. (sg_bytes (sgl_blocks (req_sgl ?rq)) ! p, None)) = st_byte ?rq" by (simp add: st_byte_def fun_eq_iff)
  note at = f(3) [unfolded B fill_at_def]
  have cnt: "fl_desc_cnt fl \<noteq> 0"
  proof -
    have "length ds < 2 ^ 32" using f(5) unat_u32 [of "dq_avail (dw_q w)"] by linarith
    then show ?thesis using at f(4) by (simp add: word_unat_eq_iff unat_of_nat take_bit_nat_eq_self)
  qed
  let ?sg = "if i' = length (req_sgl ?rq) then None else Some i'" and ?off = "if i' = length (req_sgl ?rq) then 0 else fl_sg_offset fl"
  have round: "st_round io r (dq_pidx (dw_q w), d, w) =
      (True, fl_pidx fl, d + of_nat (length ds), round_done r (fl_pidx fl) (fl_desc fl) ds m ?off ?sg w)"
    using assms(1,3) f(1,2) at cnt by (simp add: st_round_def round_done_def Let_def)
  moreover have "fills (unat (qc_rngsz qc)) C st_bytes (st_byte ?rq) H ?rq ?k (fl_pidx fl) (fl_desc fl) ds m"
    using at f(4-8) by (simp add: fills_def)
  ultimately show ?thesis by blast
qed

subsection \<open>The processing functions\<close>

lemma byte_same: "same_request rq rq' \<Longrightarrow> mm_byte qc rq = mm_byte qc rq'" "same_request rq rq' \<Longrightarrow> st_byte rq = st_byte rq'"
  and ok_same: "same_request rq rq' \<Longrightarrow> mm_ok qc rq = mm_ok qc rq'" "same_request rq rq' \<Longrightarrow> st_ok rq = st_ok rq'"
  by (simp_all add: same_request_def mm_byte_def st_byte_def mm_ok_def st_ok_def sgl_ok_def st_pktsz_def fun_eq_iff)

lemma mm_round_poll:
  assumes "dq_avail (dw_q w) = 0" and "keeps w (descq_poll_mm_n_h2c_cmpl_status io w)"
    and "dw_req (descq_poll_mm_n_h2c_cmpl_status io w) r = dw_req w r"
  shows "mm_round io r (pidx, d, w) = (if dq_avail (dw_q (descq_poll_mm_n_h2c_cmpl_status io w)) = 0
    then (False, pidx, d, descq_poll_mm_n_h2c_cmpl_status io w) else mm_round io r (pidx, d, descq_poll_mm_n_h2c_cmpl_status io w))"
proof -
  let ?w = "descq_poll_mm_n_h2c_cmpl_status io w"
  have c: "dq_conf (dw_q ?w) = dq_conf (dw_q w)" using assms(2) by (simp add: keeps_def)
  show ?thesis
  proof (cases "dq_avail (dw_q ?w) = 0")
    case True
    then show ?thesis using assms(1) by (simp add: mm_round_def Let_def)
  next
    case False
    show ?thesis unfolding mm_round_def prod.case Let_def c assms(3) if_P [OF assms(1)] if_not_P [OF False] by (rule refl)
  qed
qed

lemma st_round_poll:
  assumes "dq_avail (dw_q w) = 0" and "dw_req (descq_poll_mm_n_h2c_cmpl_status io w) r = dw_req w r"
  shows "st_round io r (pidx, d, w) = (if dq_avail (dw_q (descq_poll_mm_n_h2c_cmpl_status io w)) = 0
    then (False, pidx, d, descq_poll_mm_n_h2c_cmpl_status io w) else st_round io r (pidx, d, descq_poll_mm_n_h2c_cmpl_status io w))"
proof (cases "dq_avail (dw_q (descq_poll_mm_n_h2c_cmpl_status io w)) = 0")
  case True
  then show ?thesis using assms(1) by (simp add: st_round_def Let_def)
next
  case False
  show ?thesis unfolding st_round_def prod.case Let_def assms(2) if_P [OF assms(1)] if_not_P [OF False] by (rule refl)
qed

sublocale descq_hardware \<subseteq> mm: dq_filler io n ann rep moved qc "mm_bytes qc" "mm_byte qc" "mm_ok qc" "mm_round io" "mm_loop io"
  "descq_mm_proc_request io" for qc
proof (unfold_locales, goal_cases)
  case (3 w r C H d)
  then show ?case by (rule mm_round_fills)
next
  case (4 w r pidx d)
  then show ?case by (rule mm_round_poll)
next
  case (5 st)
  show ?case by (subst mm_loop.simps) (rule refl)
next
  case (6 w)
  show ?case by (simp only: descq_mm_proc_request_def)
qed (fact byte_same ok_same)+

sublocale descq_hardware \<subseteq> st: dq_filler io n ann rep moved qc st_bytes st_byte st_ok "st_round io" "st_loop io"
  "descq_proc_st_h2c_request io" for qc
proof (unfold_locales, goal_cases)
  case (3 w r C H d)
  then show ?case by (rule st_round_fills)
next
  case (4 w r pidx d)
  then show ?case by (intro st_round_poll)
next
  case (5 st)
  show ?case by (subst st_loop.simps) (rule refl)
next
  case (6 w)
  then have "dq_pidx (dw_q (descq_poll_mm_n_h2c_cmpl_status io w)) = dq_pidx (dw_q w)" by (simp add: keeps_def)
  then show ?case by (simp only: descq_proc_st_h2c_request_def Let_def)
qed (fact byte_same ok_same)+

end
