(* ===== verification/Descq_Moves.thy ===== *)
theory Descq_Moves
  imports Descq_Mm "HOL-Library.Sublist"
begin

section \<open>Queues in use\<close>

text \<open>
  A started queue as a state machine: submissions, calls of the processing function and services, each of them a section
  under the lock of the queue, follow each other in any order. What the hardware moves meanwhile, what the owners of the
  requests are told, and that services empty the queue.
\<close>

unbundle bit_operations_syntax

subsection \<open>Submitting\<close>

definition mapped_request :: "pci_map \<Rightarrow> qdma_request \<Rightarrow> qdma_request" where
  "mapped_request pm rq =
     (if req_dma_mapped rq then rq
      else rq\<lparr>req_sgl := map (\<lambda>sg. sg\<lparr>sg_dma_addr := pci_map_page pm (sg_pg sg) + ucast (sg_offset sg)\<rparr>) (req_sgl rq)\<rparr>)"

lemma sgl_map_from_ok:
  "sgl_map_from pm pre sgl = (rv, sgl', es) \<Longrightarrow> \<not> rv < 0 \<Longrightarrow>
   sgl' = pre @ map (\<lambda>sg. sg\<lparr>sg_dma_addr := pci_map_page pm (sg_pg sg) + ucast (sg_offset sg)\<rparr>) sgl \<and> finished es = [] \<and> told_ok R es"
  by (induction pm pre sgl arbitrary: sgl' es rule: sgl_map_from.induct)
    (auto simp: Let_def told_ok_def EIO_def split: if_splits prod.splits)

lemma submit_map_ok:
  assumes "submit_map pm r w = (rv, w')" and "\<not> rv < 0"
  shows "same_request (dw_req w' r) (mapped_request pm (dw_req w r))" "cb_offset (dw_req w' r) = cb_offset (dw_req w r)"
    "cb_desc_nr (dw_req w' r) = cb_desc_nr (dw_req w r)" "dw_q w' = dw_q w" "dw_dev w' = dw_dev w"
    "\<And>r'. r' \<noteq> r \<Longrightarrow> dw_req w' r' = dw_req w r'" "finished (dw_events w') = finished (dw_events w)"
    "told_ok R (dw_events w') = told_ok R (dw_events w)"
proof -
  obtain rv1 sgl es where m: "sgl_map pm (req_sgl (dw_req w r)) = (rv1, sgl, es)" by (metis prod.collapse)
  note k = sgl_map_from_ok [OF m [unfolded sgl_map_def], of R]
  show "same_request (dw_req w' r) (mapped_request pm (dw_req w r))" "cb_offset (dw_req w' r) = cb_offset (dw_req w r)"
    "cb_desc_nr (dw_req w' r) = cb_desc_nr (dw_req w r)" "dw_q w' = dw_q w" "dw_dev w' = dw_dev w"
    "\<And>r'. r' \<noteq> r \<Longrightarrow> dw_req w' r' = dw_req w r'" "finished (dw_events w') = finished (dw_events w)"
    "told_ok R (dw_events w') = told_ok R (dw_events w)"
    using assms k by (auto simp: submit_map_def m Let_def same_request_def mapped_request_def split: if_splits)
qed

text \<open>What a successful submission leaves.\<close>

lemma submit_queue_ok:
  assumes "submit_queue pm r w = (0, w')"
  shows "same_request (dw_req w' r) (mapped_request pm (dw_req w r))" "cb_offset (dw_req w' r) = 0" "cb_desc_nr (dw_req w' r) = 0"
    "dw_q w' = qdma_work_queue_add r (dw_q w)" "dw_dev w' = dw_dev w" "\<And>r'. r' \<noteq> r \<Longrightarrow> dw_req w' r' = dw_req w r'"
    "finished (dw_events w') = finished (dw_events w)" "told_ok R (dw_events w') = told_ok R (dw_events w)"
    "dq_q_state (dw_q w) = Q_STATE_ONLINE"
proof -
  define w1 where "w1 = set_req r (\<lambda>rq. rq\<lparr>cb_desc_nr := 0, cb_offset := 0, cb_sg_offset := 0, cb_sg := None, cb_status := 0,
    cb_done := False, cb_unmap_needed := False\<rparr>) w"
  obtain rv w2 where m: "submit_map pm r w1 = (rv, w2)" by fastforce
  have s: "\<not> rv < 0" "w' = set_q (qdma_work_queue_add r) w2" "dq_q_state (dw_q w2) = Q_STATE_ONLINE"
    using assms m by (auto simp: submit_queue_def Let_def EINVAL_def simp flip: w1_def split: if_splits prod.splits)
  note k = submit_map_ok [OF m s(1)]
  have same: "same_request (dw_req w2 r) (mapped_request pm (dw_req w r))"
    using k(1) by (simp add: w1_def same_request_def mapped_request_def)
  show "same_request (dw_req w' r) (mapped_request pm (dw_req w r))" using same by (simp add: s(2))
  show "cb_offset (dw_req w' r) = 0" "cb_desc_nr (dw_req w' r) = 0" "dw_q w' = qdma_work_queue_add r (dw_q w)" "dw_dev w' = dw_dev w"
    "\<And>r'. r' \<noteq> r \<Longrightarrow> dw_req w' r' = dw_req w r'" "finished (dw_events w') = finished (dw_events w)"
    "told_ok R (dw_events w') = told_ok R (dw_events w)" "dq_q_state (dw_q w) = Q_STATE_ONLINE"
    using k s by (simp_all add: w1_def)
qed

lemma told_finished: "FpDone r off err \<in> set es \<Longrightarrow> r \<in> set (finished es)"
  by (induction es rule: finished.induct) auto

lemma told_ok_cong:
  assumes "\<And>r. r \<in> set (finished es) \<Longrightarrow> R r = R' r"
  shows "told_ok R es = told_ok R' es"
  using assms told_finished unfolding told_ok_def by metis

lemma submit_inv:
  assumes inv: "queue_inv qc n ann rep moved db byte R H P seg fin w"
    and new: "r \<notin> set (fin @ dq_pend_list (dw_q w) @ dq_work_list (dw_q w))" and ok: "unat (req_count rq) < 2 ^ 31"
    and s: "same_request (dw_req w' r) rq" "cb_offset (dw_req w' r) = 0" "cb_desc_nr (dw_req w' r) = 0"
      "dw_q w' = qdma_work_queue_add r (dw_q w)" "dw_dev w' = dw_dev w" "\<And>r'. r' \<noteq> r \<Longrightarrow> dw_req w' r' = dw_req w r'"
      "finished (dw_events w') = finished (dw_events w)" "told_ok R (dw_events w') = told_ok R (dw_events w)"
  shows "queue_inv qc n ann rep moved db byte (R(r := rq)) H P (seg(r := [])) fin w'"
proof -
  note i = queue_invD [OF inv]
  let ?seg = "seg(r := [])" and ?R = "R(r := rq)" and ?pend = "dq_pend_list (dw_q w)" and ?work = "dq_work_list (dw_q w)"
  have l: "dq_pend_list (dw_q w') = ?pend" "dq_work_list (dw_q w') = ?work @ [r]" by (simp_all add: s(4) qdma_work_queue_add_def)
  have same: "?seg p = seg p \<and> ?R p = R p \<and> dw_req w' p = dw_req w p" if "p \<in> set (fin @ ?pend @ ?work)" for p
    using that new s(6) by auto
  have segs: "written ?seg xs = written seg xs" if "set xs \<subseteq> set (fin @ ?pend @ ?work)" for xs
    using that same by (induction xs) auto
  have wr: "work_ok db byte (?R r) (dw_req w' r) (?seg r)"
    using s(1-3) ok by (auto simp: work_ok_def word_less_nat_alt unat_gt_0 word_gt_0)
  have reqs: "req_inv db byte ?R ?seg fin w'"
    unfolding req_inv_def l
  proof (intro conjI)
    show "distinct (fin @ ?pend @ ?work @ [r])" using i(7) new by (auto simp: req_inv_def)
    have tp: "set (tl ?pend) \<subseteq> set ?pend" by (cases ?pend) auto
    show "\<forall>p \<in> set (tl ?pend). unat (cb_desc_nr (dw_req w' p)) = length (?seg p)"
    proof
      fix p
      assume p: "p \<in> set (tl ?pend)"
      then have "unat (cb_desc_nr (dw_req w p)) = length (seg p)" using i(7) unfolding req_inv_def by blast
      then show "unat (cb_desc_nr (dw_req w' p)) = length (?seg p)" using same [of p] p tp by auto
    qed
    show "\<forall>p \<in> set (fin @ ?pend). pend_ok db byte (?R p) (?seg p)" using i(7) same by (auto simp: req_inv_def simp del: fun_upd_apply)
    show "\<forall>p \<in> set ?pend. same_request (dw_req w' p) (?R p) \<and> cb_offset (dw_req w' p) = req_count (?R p) \<and>
        unat (cb_desc_nr (dw_req w' p)) \<le> length (?seg p)"
      using i(7) same by (auto simp: req_inv_def simp del: fun_upd_apply)
    show "\<forall>p \<in> set (?work @ [r]). work_ok db byte (?R p) (dw_req w' p) (?seg p)"
      using i(7) same wr by (auto simp: req_inv_def simp del: fun_upd_apply)
    show "\<forall>p \<in> set (tl (?work @ [r])). ?seg p = []"
      using i(7) by (cases ?work) (auto simp: req_inv_def)
  qed
  show ?thesis
    unfolding queue_inv_def
  proof (intro conjI)
    show "dq_conf (dw_q w') = qc" "ring_inv n (rep (dw_dev w')) H (dw_q w')"
      "hw_inv n (rep (dw_dev w')) (ann (dw_dev w')) (moved (dw_dev w')) P H (dw_q w')"
      "dq_work_req_pend (dw_q w') = of_nat (length (dq_work_list (dw_q w')))"
      using i by (simp_all add: s(4,5) qdma_work_queue_add_def ring_inv_def hw_inv_def)
    have cr: "dq_credit (dw_q w') = dq_credit (dw_q w)" by (simp add: s(4) qdma_work_queue_add_def)
    have p: "dw_req w' p = dw_req w p \<and> ?seg p = seg p" if "?pend = p # ps" for p ps using same [of p] that by simp
    show "credit_inv ?seg fin (rep (dw_dev w')) (unat (dq_credit (dw_q w'))) w'"
      using i(8) p segs [of fin] unfolding credit_inv_def l(1) s(5) cr
      by (simp split: list.splits del: fun_upd_apply)
    show "waiting (unat (dq_credit (dw_q w'))) w'" using i(9) p by (auto simp: waiting_def l cr)
    show "H = written ?seg (fin @ dq_pend_list (dw_q w') @ dq_work_list (dw_q w'))"
    proof -
      have "written ?seg fin = written seg fin" "written ?seg ?pend = written seg ?pend" "written ?seg ?work = written seg ?work"
        by (rule segs, auto)+
      then show ?thesis using i(10) by (simp add: l)
    qed
    have "told_ok ?R (dw_events w') = told_ok R (dw_events w')"
      by (rule told_ok_cong) (use new i(11) s(7) in auto)
    then show "told_ok ?R (dw_events w')" using i(12) s(8) by simp
  qed (use i s(7) reqs in simp_all)
qed

subsection \<open>Runs\<close>

text \<open>
  Starting a queue sets its ring up and puts it online. A run records the requests that were submitted, by their number
  and with the addresses their pages were mapped to. A number is not used twice.
\<close>

definition queue_start :: "u32 \<Rightarrow> u8 \<Rightarrow> 's dq_world \<Rightarrow> 's dq_world" where
  "queue_start ring_sz irq_en w = set_q (\<lambda>q. q\<lparr>dq_q_state := Q_STATE_ONLINE\<rparr>) (qdma_descq_config_complete ring_sz irq_en w)"

inductive q_run :: "'s dq_io \<Rightarrow> pci_map \<Rightarrow> 's dq_world \<Rightarrow> (nat \<times> qdma_request) list \<Rightarrow> 's dq_world \<Rightarrow> bool" for io pm w0 where
  run_start: "q_run io pm w0 [] w0"
| run_submit: "q_run io pm w0 rs w \<Longrightarrow> r \<notin> fst ` set rs \<Longrightarrow> submit_queue pm r (set_req r (\<lambda>_. rq) w) = (0, w') \<Longrightarrow>
    q_run io pm w0 (rs @ [(r, mapped_request pm rq)]) w'"
| run_proc: "q_run io pm w0 rs w \<Longrightarrow> qdma_descq_proc_sgt_request io w = Some (rv, w') \<Longrightarrow> q_run io pm w0 rs w'"
| run_service: "q_run io pm w0 rs w \<Longrightarrow> qdma_descq_service_cmpl_update io w = Some (rv, w') \<Longrightarrow> q_run io pm w0 rs w'"

text \<open>A queue that was not used before, its ring allocated.\<close>

definition fresh_queue :: "nat \<Rightarrow> 's dq_world \<Rightarrow> bool" where
  "fresh_queue n w \<longleftrightarrow> dq_work_list (dw_q w) = [] \<and> dq_pend_list (dw_q w) = [] \<and> length (dq_desc (dw_q w)) = n \<and> dw_events w = [] \<and>
     \<not> dq_proc_req_running (dw_q w) \<and> \<not> dq_q_stop_wait (dw_q w)"

lemma queue_start_inv:
  assumes "fresh_queue n w" and "n = unat (ring_sz - 1)" and "1 < n" "n \<le> 2 ^ 16"
    and "ann (dw_dev w) = 0" "rep (dw_dev w) = 0" "moved (dw_dev w) = []"
  shows "queue_inv ((dq_conf (dw_q w))\<lparr>qc_rngsz := ring_sz - 1\<rparr>) n ann rep moved db byte R [] 0 (\<lambda>_. []) [] (queue_start ring_sz irq_en w)"
proof -
  have "unat (ring_sz - 1 - 1) = n - 1" using assms(2,3) by (subst unat_minus_one) (auto simp: unat_eq_0)
  then show ?thesis
    using assms
    by (auto simp: queue_inv_def queue_start_def qdma_descq_config_complete_def fresh_queue_def ring_inv_def ring_holds_def hw_inv_def
        req_inv_def credit_inv_def waiting_def told_ok_def)
qed

definition requests_bytes :: "(qdma_request \<Rightarrow> nat \<Rightarrow> 'b) \<Rightarrow> (nat \<times> qdma_request) list \<Rightarrow> 'b list" where
  "requests_bytes byte rs = concat (map (\<lambda>(r, rq). map (byte rq) [0..<unat (req_count rq)]) rs)"

text \<open>The invariant of runs.\<close>

definition run_inv :: "qdma_queue_conf \<Rightarrow> nat \<Rightarrow> ('s \<Rightarrow> nat) \<Rightarrow> ('s \<Rightarrow> nat) \<Rightarrow> ('s \<Rightarrow> ring_desc list) \<Rightarrow> (ring_desc \<Rightarrow> 'b list) \<Rightarrow>
    (qdma_request \<Rightarrow> nat \<Rightarrow> 'b) \<Rightarrow> (nat \<times> qdma_request) list \<Rightarrow> ring_desc list \<Rightarrow> nat \<Rightarrow> 's dq_world \<Rightarrow> bool" where
  "run_inv qc n ann rep moved db byte rs H P w \<longleftrightarrow>
     (\<exists>R seg fin. queue_inv qc n ann rep moved db byte R H P seg fin w \<and>
        map fst rs = fin @ dq_pend_list (dw_q w) @ dq_work_list (dw_q w) \<and> (\<forall>(r, rq) \<in> set rs. R r = rq))"

lemma run_inv_submit:
  assumes inv: "run_inv qc n ann rep moved db byte rs H P w" and r: "r \<notin> fst ` set rs" and s: "submit_queue pm r (set_req r (\<lambda>_. rq) w) = (0, w')"
    and ok: "unat (req_count (mapped_request pm rq)) < 2 ^ 31"
  shows "run_inv qc n ann rep moved db byte (rs @ [(r, mapped_request pm rq)]) H P w'"
proof -
  obtain R seg fin where i: "queue_inv qc n ann rep moved db byte R H P seg fin w"
    "map fst rs = fin @ dq_pend_list (dw_q w) @ dq_work_list (dw_q w)" "\<forall>(r, rq) \<in> set rs. R r = rq"
    using inv unfolding run_inv_def by blast
  note k = submit_queue_ok [OF s]
  have new: "r \<notin> set (fin @ dq_pend_list (dw_q w) @ dq_work_list (dw_q w))" using r unfolding i(2) [symmetric] by simp
  have "queue_inv qc n ann rep moved db byte (R(r := mapped_request pm rq)) H P (seg(r := [])) fin w'"
    by (rule submit_inv [OF i(1) new ok]) (use k in simp_all)
  moreover have "map fst (rs @ [(r, mapped_request pm rq)]) = fin @ dq_pend_list (dw_q w') @ dq_work_list (dw_q w')"
    by (simp add: k(4) qdma_work_queue_add_def i(2))
  moreover have "\<forall>(p, rq') \<in> set (rs @ [(r, mapped_request pm rq)]). (R(r := mapped_request pm rq)) p = rq'"
    using i(3) r by force
  ultimately show ?thesis unfolding run_inv_def by blast
qed

text \<open>What the invariant says of the bytes.\<close>

lemma run_inv_bytes:
  assumes inv: "run_inv qc n ann rep moved db byte rs H P w"
  shows "\<exists>fs rest. rs = fs @ rest \<and> finished (dw_events w) = map fst fs \<and>
    prefix (requests_bytes byte fs) (concat (map db (moved (dw_dev w)))) \<and>
    prefix (concat (map db (moved (dw_dev w)))) (requests_bytes byte rs)"
proof -
  obtain R seg fin where i: "queue_inv qc n ann rep moved db byte R H P seg fin w"
    and m: "map fst rs = fin @ dq_pend_list (dw_q w) @ dq_work_list (dw_q w)" and R: "\<forall>(r, rq) \<in> set rs. R r = rq"
    using inv unfolding run_inv_def by blast
  note q = queue_invD [OF i]
  let ?pend = "dq_pend_list (dw_q w)" and ?work = "dq_work_list (dw_q w)" and ?b = "\<lambda>ds. concat (map db ds)"
  define full where "full = (\<lambda>r. map (byte (R r)) [0..<unat (req_count (R r))])"
  have reqs: "requests_bytes byte xs = concat (map (full \<circ> fst) xs)" if "set xs \<subseteq> set rs" for xs
    unfolding requests_bytes_def by (intro arg_cong [where f = concat] map_cong refl) (use that R in \<open>fastforce simp: full_def\<close>)
  have cat: "?b (written seg xs) = concat (map (\<lambda>r. ?b (seg r)) xs)" for xs by (induction xs) simp_all
  have fp: "?b (seg r) = full r" if "r \<in> set (fin @ ?pend)" for r
    using q(7) that by (auto simp: req_inv_def pend_ok_def full_def)
  have ffp: "?b (written seg xs) = concat (map full xs)" if "set xs \<subseteq> set (fin @ ?pend)" for xs
    unfolding cat by (intro arg_cong [where f = concat] map_cong refl) (use that fp in auto)
  have work: "prefix (?b (written seg ?work)) (concat (map full ?work))"
  proof (cases ?work)
    case (Cons r rs')
    have wk: "work_ok db byte (R r) (dw_req w r) (seg r)" and tl: "\<forall>p \<in> set rs'. seg p = []"
      using q(7) Cons by (auto simp: req_inv_def)
    have "unat (cb_offset (dw_req w r)) \<le> unat (req_count (R r))" using wk by (auto simp: work_ok_def same_request_def word_less_nat_alt)
    then have "[0..<unat (req_count (R r))] = [0..<unat (cb_offset (dw_req w r))] @ [unat (cb_offset (dw_req w r))..<unat (req_count (R r))]"
      using upt_add_eq_append [of 0 "unat (cb_offset (dw_req w r))" "unat (req_count (R r)) - unat (cb_offset (dw_req w r))"] by simp
    then have "prefix (?b (seg r)) (full r)" using wk by (simp add: work_ok_def full_def)
    moreover have "written seg rs' = []" using tl by (induction rs') simp_all
    ultimately show ?thesis using Cons by (simp add: prefix_def) (metis append.assoc)
  qed simp
  have total: "requests_bytes byte rs = concat (map full (fin @ ?pend)) @ concat (map full ?work)"
    using reqs [of rs] m by (simp flip: map_map)
  have mv: "moved (dw_dev w) = take (length (moved (dw_dev w))) H" and rep: "rep (dw_dev w) \<le> length (moved (dw_dev w))"
    using q(6) by (simp_all add: hw_inv_def)
  have upper: "prefix (?b (moved (dw_dev w))) (requests_bytes byte rs)"
  proof -
    have "prefix (moved (dw_dev w)) H" by (metis mv take_is_prefix)
    then have "prefix (?b (moved (dw_dev w))) (?b H)" by (auto simp: prefix_def)
    moreover have "prefix (?b H) (requests_bytes byte rs)"
      using work ffp [of fin] ffp [of ?pend] unfolding q(10) total by (auto simp: prefix_def)
    ultimately show ?thesis by (rule prefix_order.trans)
  qed
  have "length (written seg fin) \<le> rep (dw_dev w)"
  proof (cases ?pend)
    case (Cons p ps)
    then have "unat (cb_desc_nr (dw_req w p)) \<le> length (seg p)" using q(7) by (auto simp: req_inv_def)
    then show ?thesis using q(8) Cons by (simp add: credit_inv_def)
  qed (use q(8) in \<open>simp add: credit_inv_def\<close>)
  then have "prefix (written seg fin) (moved (dw_dev w))"
    using rep unfolding q(10) by (subst mv) (simp add: q(10) take_append prefix_def)
  then have lower: "prefix (concat (map full fin)) (?b (moved (dw_dev w)))"
    using ffp [of fin] by (auto simp: prefix_def)
  define fs where "fs = take (length fin) rs"
  have "map fst fs = fin" by (simp add: fs_def m flip: take_map)
  moreover from this have "requests_bytes byte fs = concat (map full fin)"
    using reqs [of fs] set_take_subset [of "length fin" rs] by (simp add: fs_def flip: map_map)
  ultimately show ?thesis
    using lower upper q(11) by (intro exI [of _ fs] exI [of _ "drop (length fin) rs"]) (simp add: fs_def)
qed

subsection \<open>Every step keeps the invariant\<close>

text \<open>Where the processing function of the queue is the one of the contract.\<close>

definition proc_is :: "'s dq_io \<Rightarrow> qdma_queue_conf \<Rightarrow> ('s dq_world \<Rightarrow> (int \<times> 's dq_world) option) \<Rightarrow> bool" where
  "proc_is io qc proc \<longleftrightarrow> (\<forall>w. dq_conf (dw_q w) = qc \<longrightarrow> qdma_descq_proc_sgt_request io w = proc w)"

context dq_filler begin

lemma sgt_request_advances:
  assumes "proc_is io qc proc" and inv: "queue_inv qc n ann rep moved db byte R H P seg fin w" and ok: "\<forall>r \<in> set (dq_work_list (dw_q w)). ok (R r)"
  shows "\<exists>rv H' P' seg' fin' w'. qdma_descq_proc_sgt_request io w = Some (rv, w') \<and>
    queue_inv qc n ann rep moved db byte R H' P' seg' fin' w' \<and> advances rep H fin w H' fin' w'"
  using proc_advances [OF inv ok] assms(1) queue_invD(1) [OF inv] by (simp add: proc_is_def)

lemma service_advances:
  assumes "proc_is io qc proc" and inv: "queue_inv qc n ann rep moved db byte R H P seg fin w" and ok: "\<forall>r \<in> set (dq_work_list (dw_q w)). ok (R r)"
  shows "\<exists>rv H' P' seg' fin' w'. qdma_descq_service_cmpl_update io w = Some (rv, w') \<and>
    queue_inv qc n ann rep moved db byte R H' P' seg' fin' w' \<and> advances rep H fin w H' fin' w'"
proof (cases "dq_poll_mode (dw_q w)")
  case True
  obtain rv H' P' seg' fin' w' where p: "qdma_descq_proc_sgt_request io w = Some (rv, w')"
    "queue_inv qc n ann rep moved db byte R H' P' seg' fin' w'" "advances rep H fin w H' fin' w'"
    using sgt_request_advances [OF assms] by blast
  show ?thesis
  proof (cases "dq_proc_req_running (dw_q w)")
    case running: True
    then show ?thesis
      using True inv by (intro exI [of _ 0] exI [of _ H] exI [of _ P] exI [of _ seg] exI [of _ fin] exI [of _ w])
        (simp add: qdma_descq_service_cmpl_update_def)
  next
    case False
    then show ?thesis
      using True p by (intro exI [of _ 0] exI [of _ H'] exI [of _ P'] exI [of _ seg'] exI [of _ fin'] exI [of _ w'])
        (simp add: qdma_descq_service_cmpl_update_def)
  qed
next
  case False
  define w1 where "w1 = descq_mm_n_h2c_cmpl_status io w"
  obtain fin1 where c: "queue_inv qc n ann rep moved db byte R H P seg fin1 w1" "advances rep H fin w H fin1 w1"
    using cmpl_status_advances [OF inv] unfolding w1_def by blast
  have ok1: "\<forall>r \<in> set (dq_work_list (dw_q w1)). ok (R r)" using ok c(2) by (auto simp: advances_def)
  obtain rv H' P' seg' fin' w' where p: "qdma_descq_proc_sgt_request io w1 = Some (rv, w')"
    "queue_inv qc n ann rep moved db byte R H' P' seg' fin' w'" "advances rep H fin1 w1 H' fin' w'"
    using sgt_request_advances [OF assms(1) c(1) ok1] by blast
  have e: "qdma_descq_service_cmpl_update io w =
      (if qdma_work_queue_len (dw_q w1) \<noteq> 0 \<or> dq_desc_pend (dw_q w1) \<noteq> 0 then Some (rv, w') else Some (0, w1))"
    using False p(1) by (simp add: qdma_descq_service_cmpl_update_def Let_def flip: w1_def)
  show ?thesis using e p(2) advances_trans [OF c(2) p(3)] c by auto
qed

lemma run_inv_step:
  assumes inv: "run_inv qc n ann rep moved db byte rs H P w" and ok: "\<forall>(r, rq) \<in> set rs. ok rq"
    and step: "\<And>R seg fin. queue_inv qc n ann rep moved db byte R H P seg fin w \<Longrightarrow> \<forall>r \<in> set (dq_work_list (dw_q w)). ok (R r) \<Longrightarrow>
      \<exists>rv H' P' seg' fin' w'. f w = Some (rv, w') \<and> queue_inv qc n ann rep moved db byte R H' P' seg' fin' w' \<and> advances rep H fin w H' fin' w'"
  shows "\<exists>rv H' P' w'. f w = Some (rv, w') \<and> run_inv qc n ann rep moved db byte rs H' P' w'"
proof -
  obtain R seg fin where i: "queue_inv qc n ann rep moved db byte R H P seg fin w"
    "map fst rs = fin @ dq_pend_list (dw_q w) @ dq_work_list (dw_q w)" "\<forall>(r, rq) \<in> set rs. R r = rq"
    using inv unfolding run_inv_def by blast
  have "\<forall>r \<in> set (dq_work_list (dw_q w)). ok (R r)"
  proof
    fix r
    assume "r \<in> set (dq_work_list (dw_q w))"
    then have "r \<in> set (map fst rs)" unfolding i(2) by simp
    then show "ok (R r)" using ok i(3) by fastforce
  qed
  from step [OF i(1) this] show ?thesis using i(2,3) unfolding run_inv_def advances_def by metis
qed

lemma run_keeps:
  assumes "q_run io pm w0 rs w" and "proc_is io qc proc" and "run_inv qc n ann rep moved db byte [] H0 P0 w0"
    and "\<And>rq. ok rq \<Longrightarrow> unat (req_count rq) < 2 ^ 31" and "\<forall>(r, rq) \<in> set rs. ok rq"
  shows "\<exists>H P. run_inv qc n ann rep moved db byte rs H P w"
  using assms(1,5)
proof induction
  case run_start
  then show ?case using assms(3) by blast
next
  case (run_submit rs w r rq w')
  then obtain H P where "run_inv qc n ann rep moved db byte rs H P w" by auto
  then show ?case using run_inv_submit [OF _ run_submit.hyps(2,3)] assms(4) run_submit.prems by fastforce
next
  case (run_proc rs w rv w')
  then obtain H P where inv: "run_inv qc n ann rep moved db byte rs H P w" by blast
  show ?case
    using run_inv_step [where f = "qdma_descq_proc_sgt_request io", OF inv run_proc.prems sgt_request_advances [OF assms(2)]] run_proc.hyps(2) by fastforce
next
  case (run_service rs w rv w')
  then obtain H P where inv: "run_inv qc n ann rep moved db byte rs H P w" by blast
  show ?case
    using run_inv_step [where f = "qdma_descq_service_cmpl_update io", OF inv run_service.prems service_advances [OF assms(2)]] run_service.hyps(2) by fastforce
qed

end

subsection \<open>Both kinds of queues\<close>

text \<open>The bytes of descriptors and of requests, and what the queue asks of a request, for the kinds of queues modelled.\<close>

definition desc_bytes :: "qdma_queue_conf \<Rightarrow> ring_desc \<Rightarrow> (u64 \<times> u64 option) list" where
  "desc_bytes qc = (if qc_st qc then st_bytes else mm_bytes qc)"

definition request_byte :: "qdma_queue_conf \<Rightarrow> qdma_request \<Rightarrow> nat \<Rightarrow> u64 \<times> u64 option" where
  "request_byte qc rq = (if qc_st qc then st_byte rq else mm_byte qc rq)"

definition accepts :: "qdma_queue_conf \<Rightarrow> qdma_request \<Rightarrow> bool" where
  "accepts qc rq \<longleftrightarrow> (if qc_st qc then qc_q_type qc = Q_H2C \<and> st_ok rq else mm_ok qc rq)"

lemma accepts_small: "accepts qc rq \<Longrightarrow> unat (req_count rq) < 2 ^ 31"
  by (auto simp: accepts_def mm_ok_def st_ok_def sgl_ok_def split: if_splits)

lemma proc_is_kind:
  "\<not> qc_st qc \<Longrightarrow> proc_is io qc (descq_mm_proc_request io)"
  "qc_st qc \<Longrightarrow> qc_q_type qc = Q_H2C \<Longrightarrow> proc_is io qc (descq_proc_st_h2c_request io)"
  by (simp_all add: proc_is_def qdma_descq_proc_sgt_request_def)

context descq_hardware begin

text \<open>The lemmas of the two kinds as one.\<close>

lemma kind_run_keeps:
  assumes "q_run io pm w0 rs w" and "run_inv qc n ann rep moved (desc_bytes qc) (request_byte qc) [] H0 P0 w0"
    and "\<forall>(r, rq) \<in> set rs. accepts qc rq" and "qc_st qc \<longrightarrow> qc_q_type qc = Q_H2C"
  shows "\<exists>H P. run_inv qc n ann rep moved (desc_bytes qc) (request_byte qc) rs H P w"
proof (cases "qc_st qc")
  case True
  then have e: "desc_bytes qc = st_bytes" "request_byte qc = st_byte" by (simp_all add: desc_bytes_def request_byte_def fun_eq_iff)
  show ?thesis
    using st.run_keeps [OF assms(1) proc_is_kind(2) [OF True] assms(2) [unfolded e]] assms(3,4) True
    by (fastforce simp: e accepts_def st_ok_def sgl_ok_def)
next
  case False
  then have e: "desc_bytes qc = mm_bytes qc" "request_byte qc = mm_byte qc" by (simp_all add: desc_bytes_def request_byte_def fun_eq_iff)
  show ?thesis
    using mm.run_keeps [OF assms(1) proc_is_kind(1) [OF False] assms(2) [unfolded e]] assms(3) False
    by (fastforce simp: e accepts_def mm_ok_def sgl_ok_def)
qed

end

end
