(* ===== verification/Descq_Drain.thy ===== *)
theory Descq_Drain
  imports Descq_Moves
begin

section \<open>Services empty a queue\<close>

text \<open>
  With hardware that works on whenever it has something to do, and whose registers take every write, services carry out
  and complete all requests, whichever way the driver learns of completions.
\<close>

unbundle bit_operations_syntax

locale descq_hardware_live = descq_hardware +
  assumes hw_progress: "read_cidx io ring s = (v, s') \<Longrightarrow> length ring = n \<Longrightarrow> rep s \<le> length (moved s) \<Longrightarrow> length (moved s) \<le> ann s \<Longrightarrow>
      rep s < ann s \<Longrightarrow> rep s < rep s'"
    and hw_accepts: "pidx_update io pi s = (rv, s') \<Longrightarrow> 0 \<le> rv"

locale dq_filler_live = dq_filler io n ann rep moved qc db byte ok round loop proc + descq_hardware_live io n ann rep moved
  for io :: "'s dq_io" and n ann rep moved qc and db :: "ring_desc \<Rightarrow> 'b list" and byte ok round loop proc

sublocale descq_hardware_live \<subseteq> live_mm: dq_filler_live io n ann rep moved qc "mm_bytes qc" "mm_byte qc" "mm_ok qc" "mm_round io"
  "mm_loop io" "descq_mm_proc_request io" for qc
  by (intro dq_filler_live.intro mm.dq_filler_axioms) unfold_locales

sublocale descq_hardware_live \<subseteq> live_st: dq_filler_live io n ann rep moved qc st_bytes st_byte st_ok "st_round io"
  "st_loop io" "descq_proc_st_h2c_request io" for qc
  by (intro dq_filler_live.intro st.dq_filler_axioms) unfold_locales

text \<open>Between its steps the queue has announced all it wrote, and nobody is processing it.\<close>

definition calm :: "('s \<Rightarrow> nat) \<Rightarrow> ring_desc list \<Rightarrow> nat \<Rightarrow> 's dq_world \<Rightarrow> bool" where
  "calm ann H P w \<longleftrightarrow> ann (dw_dev w) = length H \<and> P = length H \<and> \<not> dq_proc_req_running (dw_q w) \<and>
     dq_q_state (dw_q w) = Q_STATE_ONLINE \<and> \<not> dq_q_stop_wait (dw_q w)"

text \<open>What is still to do: the descriptors to write, twice, and those the hardware has not reported.\<close>

definition todo :: "('s \<Rightarrow> nat) \<Rightarrow> ring_desc list \<Rightarrow> 's dq_world \<Rightarrow> nat" where
  "todo rep H w = left w + (left w + length H - rep (dw_dev w))"

lemma pending_behind:
  assumes "queue_inv qc n ann rep moved db byte R H P seg fin w" and "dq_pend_list (dw_q w) \<noteq> []"
  shows "rep (dw_dev w) < length H"
proof -
  note i = queue_invD [OF assms(1)]
  obtain p ps where p: "dq_pend_list (dw_q w) = p # ps" using assms(2) by (cases "dq_pend_list (dw_q w)") auto
  have "length (written seg fin) + length (seg p) \<le> length H" by (subst i(10)) (simp add: p)
  then show ?thesis using i(8,9) p by (auto simp: credit_inv_def waiting_def)
qed

lemma caught_up_room:
  assumes "queue_inv qc n ann rep moved db byte R H P seg fin w" and "rep (dw_dev w) = length H"
  shows "dq_avail (dw_q w) \<noteq> 0"
  using queue_invD(3,5) [OF assms(1)] assms(2) by (auto simp: ring_inv_def)

lemma rep_le:
  assumes "queue_inv qc n ann rep moved db byte R H P seg fin w"
  shows "rep (dw_dev w) \<le> length H"
  using queue_invD(6) [OF assms] by (simp add: hw_inv_def)

context descq_hardware_live begin

lemma finish_accepts: "0 \<le> fst (proc_finish io d w)"
proof -
  have "0 \<le> fst (pidx_update io pi s)" for pi s using hw_accepts by (metis prod.collapse)
  then show ?thesis
    by (auto simp: proc_finish_def Let_def queue_pidx_update_def split: prod.split) (metis fst_conv not_less)+
qed

lemma status_progress:
  assumes inv: "queue_inv qc n ann rep moved db byte R H P seg fin w" and an: "ann (dw_dev w) = length H" and lt: "rep (dw_dev w) < length H"
  shows "rep (dw_dev w) < rep (dw_dev (descq_mm_n_h2c_cmpl_status io w))"
proof -
  note i = queue_invD [OF inv]
  have h: "rep (dw_dev w) \<le> length (moved (dw_dev w))" "length (moved (dw_dev w)) \<le> ann (dw_dev w)" "length (dq_desc (dw_q w)) = n"
    "length H < rep (dw_dev w) + n"
    using i(5,6) by (auto simp: hw_inv_def ring_inv_def ring_holds_def)
  have ne: "dq_pidx (dw_q w) \<noteq> dq_cidx (dw_q w)"
  proof
    assume "dq_pidx (dw_q w) = dq_cidx (dw_q w)"
    then have "rep (dw_dev w) mod n = length H mod n" using i(5) by (simp add: ring_inv_def)
    then show False using mod_differ [OF lt h(4)] by simp
  qed
  obtain v s where r: "read_cidx io (dq_desc (dw_q w)) (dw_dev w) = (v, s)" "rep (dw_dev (descq_mm_n_h2c_cmpl_status io w)) = rep s"
    using cmpl_status_advances [OF inv] ne by metis
  then show ?thesis using hw_progress [OF r(1) h(3,1,2)] an lt by simp
qed

end

context dq_filler_live begin

text \<open>Processing from a calm queue: it is calm again, and it has progressed unless there was nothing to do.\<close>

lemma proc_calm:
  assumes inv: "queue_inv qc n ann rep moved db byte R H P seg fin w" and calm: "calm ann H P w"
    and ok: "\<forall>r \<in> set (dq_work_list (dw_q w)). ok (R r)"
  shows "\<exists>rv H' P' seg' fin' w'. proc w = Some (rv, w') \<and> queue_inv qc n ann rep moved db byte R H' P' seg' fin' w' \<and>
    advances rep H fin w H' fin' w' \<and> calm ann H' P' w' \<and>
    (rep (dw_dev w) < length H \<and> dq_poll_mode (dw_q w) \<longrightarrow> rep (dw_dev w) < rep (dw_dev w')) \<and>
    (rep (dw_dev w) = length H \<and> dq_work_list (dw_q w) \<noteq> [] \<longrightarrow> left w' < left w)"
proof -
  define wp where "wp = descq_poll_mm_n_h2c_cmpl_status io w"
  obtain finp w1 where p: "queue_inv qc n ann rep moved db byte R H P seg finp wp" "keeps w wp" "advances rep H fin w H finp wp"
    "left wp = left w" "ann (dw_dev w) = P \<longrightarrow> ann (dw_dev wp) = P" "\<not> dq_poll_mode (dw_q w) \<longrightarrow> wp = w"
    "same_view w1 w" "wp = (if dq_poll_mode (dw_q w) then descq_mm_n_h2c_cmpl_status io w1 else w)"
    using poll_advances [OF inv] unfolding wp_def by metis
  have okp: "\<forall>r \<in> set (dq_work_list (dw_q wp)). ok (R r)" using ok p(2) by (simp add: keeps_def)
  obtain d H' seg' finl wl where l: "loop (dq_pidx (dw_q wp), 0, wp) = Some (dq_pidx (dw_q wl), d, wl)" "d = of_nat (length H' - length H)"
    "queue_inv qc n ann rep moved db byte R H' P seg' finl wl" "advances rep H finp wp H' finl wl"
    "dq_work_list (dw_q wp) \<noteq> [] \<and> dq_avail (dw_q wp) \<noteq> 0 \<longrightarrow> left wl < left wp"
    "ann (dw_dev wp) = P \<longrightarrow> ann (dw_dev wl) = P"
    using loop_advances [OF p(1) okp, of 0] by (metis add_0)
  have annl: "ann (dw_dev wl) = length H" "P = length H" using l(6) p(5) calm by (simp_all add: calm_def)
  obtain rv w' where f: "proc_finish io d wl = (rv, w')" by fastforce
  have rv: "\<not> rv < 0" using finish_accepts [of d wl] f by simp
  obtain P' fin' where r: "queue_inv qc n ann rep moved db byte R H' P' seg' fin' w'" "advances rep H' finl wl H' fin' w'" "left w' = left wl"
    "if d = 0 then P' = P else P' = length H'" "\<not> dq_proc_req_running (dw_q w')" "ann (dw_dev w') = P'"
    using finish_advances [OF l(3) f] rv annl by auto
  have P': "P' = length H'"
  proof (cases "d = 0")
    case True
    have i: "hw_inv n (rep (dw_dev wl)) (ann (dw_dev wl)) (moved (dw_dev wl)) P H' (dw_q wl)" "ring_inv n (rep (dw_dev wl)) H' (dw_q wl)" "n \<le> 2 ^ 16"
      using queue_invD [OF l(3)] by simp_all
    have "length H' < length H + n" using i(1,2) annl by (auto simp: hw_inv_def ring_inv_def ring_holds_def)
    then have "length H' - length H < 2 ^ 32" using i(3) by simp
    then have "length H' - length H = 0" using True l(2) by (simp add: word_unat_eq_iff unat_of_nat take_bit_nat_eq_self)
    then show ?thesis using True r(4) annl(2) l(4) by (simp add: advances_def)
  qed (use r(4) in simp)
  have adv: "advances rep H fin w H' fin' w'" using advances_trans [OF advances_trans [OF p(3) l(4)] r(2)] .
  have "proc w = Some (rv, w')"
    using proc_eq [of w] p(2) l(1) f calm unfolding wp_def [symmetric] by (simp add: keeps_def calm_def)
  moreover have "calm ann H' P' w'" using r(5,6) P' adv calm by (simp add: calm_def advances_def)
  moreover have "rep (dw_dev w) < rep (dw_dev w')" if "rep (dw_dev w) < length H" "dq_poll_mode (dw_q w)"
  proof -
    have s: "dw_dev w1 = dw_dev w" using p(7) by (simp add: same_view_def)
    have "queue_inv qc n ann rep moved db byte R H P seg fin w1" unfolding queue_inv_view [OF p(7)] by (fact inv)
    moreover have "rep (dw_dev w1) < length H" using that s by simp
    ultimately have "rep (dw_dev w) < rep (dw_dev wp)"
      using status_progress [of qc db byte R H P seg fin w1] that(2) p(8) calm s by (simp add: calm_def)
    then show ?thesis using l(4) r(2) by (simp add: advances_def)
  qed
  moreover have "left w' < left w" if "rep (dw_dev w) = length H" "dq_work_list (dw_q w) \<noteq> []"
  proof -
    have "rep (dw_dev wp) = length H" using p(3) that(1) rep_le [OF p(1)] by (simp add: advances_def)
    then have "dq_avail (dw_q wp) \<noteq> 0" by (rule caught_up_room [OF p(1)])
    then show ?thesis using l(5) p(2,4) r(3) that(2) by (simp add: keeps_def)
  qed
  ultimately show ?thesis using r(1) adv by blast
qed

text \<open>A service.\<close>

lemma service_calm:
  assumes "proc_is io qc proc" and inv: "queue_inv qc n ann rep moved db byte R H P seg fin w" and calm: "calm ann H P w"
    and ok: "\<forall>r \<in> set (dq_work_list (dw_q w)). ok (R r)" and few: "length (dq_work_list (dw_q w)) < 2 ^ 32"
  shows "\<exists>rv H' P' seg' fin' w'. qdma_descq_service_cmpl_update io w = Some (rv, w') \<and>
    queue_inv qc n ann rep moved db byte R H' P' seg' fin' w' \<and> advances rep H fin w H' fin' w' \<and> calm ann H' P' w' \<and>
    (dq_pend_list (dw_q w) \<noteq> [] \<or> dq_work_list (dw_q w) \<noteq> [] \<longrightarrow> todo rep H' w' < todo rep H w)"
proof -
  have busy: "rep (dw_dev w) < length H \<or> rep (dw_dev w) = length H \<and> dq_work_list (dw_q w) \<noteq> []"
    if "dq_pend_list (dw_q w) \<noteq> [] \<or> dq_work_list (dw_q w) \<noteq> []"
    using that pending_behind [OF inv] rep_le [OF inv] by auto
  have less: "todo rep H' w' < todo rep H w"
    if "advances rep H fin w H' fin' w'" "rep (dw_dev w) < rep (dw_dev w') \<or> left w' < left w" "rep (dw_dev w') \<le> length H'" for H' fin' w'
    using that rep_le [OF inv] by (auto simp: todo_def advances_def)
  show ?thesis
  proof (cases "dq_poll_mode (dw_q w)")
    case True
    obtain rv H' P' seg' fin' w' where p: "proc w = Some (rv, w')" "queue_inv qc n ann rep moved db byte R H' P' seg' fin' w'"
      "advances rep H fin w H' fin' w'" "calm ann H' P' w'"
      "rep (dw_dev w) < length H \<and> dq_poll_mode (dw_q w) \<longrightarrow> rep (dw_dev w) < rep (dw_dev w')"
      "rep (dw_dev w) = length H \<and> dq_work_list (dw_q w) \<noteq> [] \<longrightarrow> left w' < left w"
      using proc_calm [OF inv calm ok] by blast
    have "qdma_descq_service_cmpl_update io w = Some (0, w')"
      using True p(1) calm assms(1) queue_invD(1) [OF inv] by (simp add: qdma_descq_service_cmpl_update_def calm_def proc_is_def)
    then show ?thesis
      using p(2-4) less [OF p(3) _ rep_le [OF p(2)]] busy p(5,6) True by blast
  next
    case False
    define w1 where "w1 = descq_mm_n_h2c_cmpl_status io w"
    obtain fin1 where c: "queue_inv qc n ann rep moved db byte R H P seg fin1 w1" "keeps w w1" "advances rep H fin w H fin1 w1" "left w1 = left w"
      "dq_proc_req_running (dw_q w1) = dq_proc_req_running (dw_q w)" "ann (dw_dev w) = P \<longrightarrow> ann (dw_dev w1) = P"
      using cmpl_status_advances [OF inv] unfolding w1_def by blast
    have calm1: "calm ann H P w1" using calm c(2,5,6) by (simp add: calm_def keeps_def)
    have ok1: "\<forall>r \<in> set (dq_work_list (dw_q w1)). ok (R r)" using ok c(2) by (simp add: keeps_def)
    obtain rv H' P' seg' fin' w' where p: "proc w1 = Some (rv, w')" "queue_inv qc n ann rep moved db byte R H' P' seg' fin' w'"
      "advances rep H fin1 w1 H' fin' w'" "calm ann H' P' w'"
      "rep (dw_dev w1) = length H \<and> dq_work_list (dw_q w1) \<noteq> [] \<longrightarrow> left w' < left w1"
      using proc_calm [OF c(1) calm1 ok1] by blast
    have e: "qdma_descq_service_cmpl_update io w =
        (if qdma_work_queue_len (dw_q w1) \<noteq> 0 \<or> dq_desc_pend (dw_q w1) \<noteq> 0 then Some (rv, w') else Some (0, w1))"
      using False p(1) assms(1) queue_invD(1) [OF c(1)]
      by (simp add: qdma_descq_service_cmpl_update_def proc_is_def Let_def flip: w1_def)
    have len: "qdma_work_queue_len (dw_q w1) \<noteq> 0" if "dq_work_list (dw_q w) \<noteq> []"
    proof -
      have "unat (of_nat (length (dq_work_list (dw_q w))) :: u32) = length (dq_work_list (dw_q w))"
        using few by (simp add: unat_of_nat take_bit_nat_eq_self)
      then have "(of_nat (length (dq_work_list (dw_q w))) :: u32) \<noteq> 0" using that by (metis length_0_conv unat_0)
      then show ?thesis using c(2) queue_invD(13) [OF inv] by (simp add: qdma_work_queue_len_def keeps_def)
    qed
    have up: "rep (dw_dev w) < rep (dw_dev w1)" if "rep (dw_dev w) < length H"
      using status_progress [OF inv _ that] calm by (simp add: calm_def w1_def)
    note adv = advances_trans [OF c(3) p(3)]
    have prog: "rep (dw_dev w) < rep (dw_dev w') \<or> left w' < left w" if "dq_pend_list (dw_q w) \<noteq> [] \<or> dq_work_list (dw_q w) \<noteq> []"
    proof (cases "rep (dw_dev w) < length H")
      case True
      then show ?thesis using up p(3) by (simp add: advances_def)
    next
      case False
      then have "rep (dw_dev w) = length H" "dq_work_list (dw_q w) \<noteq> []" using busy [OF that] by auto
      moreover from this have "rep (dw_dev w1) = length H" using c(3) rep_le [OF c(1)] by (simp add: advances_def)
      ultimately show ?thesis using p(5) c(2,4) by (simp add: keeps_def)
    qed
    show ?thesis
    proof (cases "qdma_work_queue_len (dw_q w1) \<noteq> 0 \<or> dq_desc_pend (dw_q w1) \<noteq> 0")
      case True
      then show ?thesis using e p(2,4) adv less [OF adv _ rep_le [OF p(2)]] prog by auto
    next
      case False
      then have "dq_work_list (dw_q w) = []" using len by blast
      then have "dq_pend_list (dw_q w) \<noteq> [] \<or> dq_work_list (dw_q w) \<noteq> [] \<longrightarrow> rep (dw_dev w) < rep (dw_dev w1)"
        using up pending_behind [OF inv] by blast
      then show ?thesis using False e c(1,3) calm1 less [OF c(3) _ rep_le [OF c(1)]] by auto
    qed
  qed
qed

end

text \<open>Services one after the other.\<close>

fun services :: "nat \<Rightarrow> 's dq_io \<Rightarrow> 's dq_world \<Rightarrow> 's dq_world option" where
  "services 0 io w = Some w"
| "services (Suc k) io w = Option.bind (qdma_descq_service_cmpl_update io w) (\<lambda>(_, w). services k io w)"

definition live_inv :: "qdma_queue_conf \<Rightarrow> nat \<Rightarrow> ('s \<Rightarrow> nat) \<Rightarrow> ('s \<Rightarrow> nat) \<Rightarrow> ('s \<Rightarrow> ring_desc list) \<Rightarrow> (ring_desc \<Rightarrow> 'b list) \<Rightarrow>
    (qdma_request \<Rightarrow> nat \<Rightarrow> 'b) \<Rightarrow> (nat \<times> qdma_request) list \<Rightarrow> ring_desc list \<Rightarrow> nat \<Rightarrow> 's dq_world \<Rightarrow> bool" where
  "live_inv qc n ann rep moved db byte rs H P w \<longleftrightarrow> run_inv qc n ann rep moved db byte rs H P w \<and> calm ann H P w"

context dq_filler_live begin

lemma work_submitted:
  assumes "map fst rs = fin @ dq_pend_list (dw_q w) @ dq_work_list (dw_q w)" and "\<forall>(r, rq) \<in> set rs. R r = rq" and "\<forall>(r, rq) \<in> set rs. ok rq"
  shows "\<forall>r \<in> set (dq_work_list (dw_q w)). ok (R r)"
proof
  fix r
  assume "r \<in> set (dq_work_list (dw_q w))"
  then have "r \<in> set (map fst rs)" unfolding assms(1) by simp
  then show "ok (R r)" using assms(2,3) by fastforce
qed

lemma live_service:
  assumes "proc_is io qc proc" and "live_inv qc n ann rep moved db byte rs H P w" and "\<forall>(r, rq) \<in> set rs. ok rq" and "length rs < 2 ^ 32"
  shows "\<exists>rv H' P' w'. qdma_descq_service_cmpl_update io w = Some (rv, w') \<and> live_inv qc n ann rep moved db byte rs H' P' w' \<and>
    (dq_pend_list (dw_q w) \<noteq> [] \<or> dq_work_list (dw_q w) \<noteq> [] \<longrightarrow> todo rep H' w' < todo rep H w)"
proof -
  obtain R seg fin where i: "queue_inv qc n ann rep moved db byte R H P seg fin w" "calm ann H P w"
    "map fst rs = fin @ dq_pend_list (dw_q w) @ dq_work_list (dw_q w)" "\<forall>(r, rq) \<in> set rs. R r = rq"
    using assms(2) unfolding live_inv_def run_inv_def by blast
  have "length (map fst rs) < 2 ^ 32" using assms(4) by simp
  then have few: "length (dq_work_list (dw_q w)) < 2 ^ 32" unfolding i(3) by simp
  obtain rv H' P' seg' fin' w' where s: "qdma_descq_service_cmpl_update io w = Some (rv, w')"
    "queue_inv qc n ann rep moved db byte R H' P' seg' fin' w'" "advances rep H fin w H' fin' w'" "calm ann H' P' w'"
    "dq_pend_list (dw_q w) \<noteq> [] \<or> dq_work_list (dw_q w) \<noteq> [] \<longrightarrow> todo rep H' w' < todo rep H w"
    using service_calm [OF assms(1) i(1,2) work_submitted [OF i(3,4) assms(3)] few] by blast
  have "map fst rs = fin' @ dq_pend_list (dw_q w') @ dq_work_list (dw_q w')" using s(3) i(3) by (simp add: advances_def)
  then have "run_inv qc n ann rep moved db byte rs H' P' w'" using s(2) i(4) unfolding run_inv_def by blast
  then show ?thesis using s(1,4,5) unfolding live_inv_def by blast
qed

lemma live_drains:
  assumes "proc_is io qc proc" and "live_inv qc n ann rep moved db byte rs H P w" and "\<forall>(r, rq) \<in> set rs. ok rq" and "length rs < 2 ^ 32"
  shows "\<exists>k w' H' P'. k \<le> todo rep H w \<and> services k io w = Some w' \<and> live_inv qc n ann rep moved db byte rs H' P' w' \<and>
    dq_pend_list (dw_q w') = [] \<and> dq_work_list (dw_q w') = []"
  using assms(2)
proof (induction "todo rep H w" arbitrary: H P w rule: less_induct)
  case less
  show ?case
  proof (cases "dq_pend_list (dw_q w) = [] \<and> dq_work_list (dw_q w) = []")
    case True
    then show ?thesis using less.prems by (intro exI [of _ 0] exI [of _ w] exI [of _ H] exI [of _ P]) simp
  next
    case False
    obtain rv H1 P1 w1 where s: "qdma_descq_service_cmpl_update io w = Some (rv, w1)" "live_inv qc n ann rep moved db byte rs H1 P1 w1"
      "todo rep H1 w1 < todo rep H w"
      using live_service [OF assms(1) less.prems assms(3,4)] False by blast
    obtain k w' H' P' where k: "k \<le> todo rep H1 w1" "services k io w1 = Some w'" "live_inv qc n ann rep moved db byte rs H' P' w'"
      "dq_pend_list (dw_q w') = []" "dq_work_list (dw_q w') = []"
      using less.hyps [OF s(3,2)] by blast
    then show ?thesis using s(1,3) by (intro exI [of _ "Suc k"] exI [of _ w'] exI [of _ H'] exI [of _ P']) simp
  qed
qed

lemma live_run:
  assumes "q_run io pm w0 rs w" and "proc_is io qc proc" and "live_inv qc n ann rep moved db byte [] H0 P0 w0"
    and "\<And>rq. ok rq \<Longrightarrow> unat (req_count rq) < 2 ^ 31" and "\<forall>(r, rq) \<in> set rs. ok rq" and "length rs < 2 ^ 32"
  shows "\<exists>H P. live_inv qc n ann rep moved db byte rs H P w"
  using assms(1,5,6)
proof induction
  case run_start
  then show ?case using assms(3) by blast
next
  case (run_submit rs w r rq w')
  then obtain H P where i: "live_inv qc n ann rep moved db byte rs H P w" by auto
  have small: "unat (req_count (mapped_request pm rq)) < 2 ^ 31" using assms(4) run_submit.prems by auto
  note k = submit_queue_ok [OF run_submit.hyps(3)]
  have "run_inv qc n ann rep moved db byte (rs @ [(r, mapped_request pm rq)]) H P w'"
    by (rule run_inv_submit [OF _ run_submit.hyps(2,3) small]) (use i in \<open>simp add: live_inv_def\<close>)
  moreover have "calm ann H P w'" using i k(4,5) by (simp add: live_inv_def calm_def qdma_work_queue_add_def)
  ultimately show ?case unfolding live_inv_def by blast
next
  case (run_proc rs w rv w')
  then obtain H P where inv: "live_inv qc n ann rep moved db byte rs H P w" by blast
  then obtain R seg fin where i: "queue_inv qc n ann rep moved db byte R H P seg fin w" "calm ann H P w"
    "map fst rs = fin @ dq_pend_list (dw_q w) @ dq_work_list (dw_q w)" "\<forall>(r, rq) \<in> set rs. R r = rq"
    unfolding live_inv_def run_inv_def by blast
  obtain rv' H' P' seg' fin' w1 where p: "proc w = Some (rv', w1)" "queue_inv qc n ann rep moved db byte R H' P' seg' fin' w1"
    "advances rep H fin w H' fin' w1" "calm ann H' P' w1"
    using proc_calm [OF i(1,2) work_submitted [OF i(3,4) run_proc.prems(1)]] by blast
  have "w1 = w'" using p(1) run_proc.hyps(2) assms(2) queue_invD(1) [OF i(1)] by (simp add: proc_is_def)
  moreover have "map fst rs = fin' @ dq_pend_list (dw_q w1) @ dq_work_list (dw_q w1)" using p(3) i(3) by (simp add: advances_def)
  ultimately show ?case using p(2,4) i(4) unfolding live_inv_def run_inv_def by blast
next
  case (run_service rs w rv w')
  then obtain H P where inv: "live_inv qc n ann rep moved db byte rs H P w" by blast
  show ?case using live_service [OF assms(2) inv run_service.prems] run_service.hyps(2) by auto
qed

end

context descq_hardware_live begin

lemma kind_live_run:
  assumes "q_run io pm w0 rs w" and "live_inv qc n ann rep moved (desc_bytes qc) (request_byte qc) [] H0 P0 w0"
    and "\<forall>(r, rq) \<in> set rs. accepts qc rq" and "qc_st qc \<longrightarrow> qc_q_type qc = Q_H2C" and "length rs < 2 ^ 32"
  obtains k w' H' P' where "services k io w = Some w'" and "live_inv qc n ann rep moved (desc_bytes qc) (request_byte qc) rs H' P' w'"
    and "dq_pend_list (dw_q w') = []" and "dq_work_list (dw_q w') = []" and "k \<le> 2 * left w + n"
proof -
  have small: "todo rep H w \<le> 2 * left w + n" if "run_inv qc n ann rep moved (desc_bytes qc) (request_byte qc) rs H P w" for H P
    using that unfolding run_inv_def by (auto simp: todo_def dest!: queue_invD(5) simp: ring_inv_def ring_holds_def)
  show thesis
  proof (cases "qc_st qc")
    case True
    then have e: "desc_bytes qc = st_bytes" "request_byte qc = st_byte" by (simp_all add: desc_bytes_def request_byte_def fun_eq_iff)
    have ok: "\<forall>(r, rq) \<in> set rs. st_ok rq" using assms(3) True by (auto simp: accepts_def)
    have bound: "st_ok rq \<Longrightarrow> unat (req_count rq) < 2 ^ 31" for rq by (simp add: st_ok_def sgl_ok_def)
    note kind = proc_is_kind(2) [OF True mp [OF assms(4) True], of io]
    obtain H P where l: "live_inv qc n ann rep moved st_bytes st_byte rs H P w"
      using live_st.live_run [OF assms(1) kind assms(2) [unfolded e] bound ok assms(5)] by blast
    from live_st.live_drains [OF kind l ok assms(5)] small [of H P] l that show ?thesis
      unfolding e live_inv_def by (metis le_trans)
  next
    case False
    then have e: "desc_bytes qc = mm_bytes qc" "request_byte qc = mm_byte qc" by (simp_all add: desc_bytes_def request_byte_def fun_eq_iff)
    have ok: "\<forall>(r, rq) \<in> set rs. mm_ok qc rq" using assms(3) False by (auto simp: accepts_def)
    have bound: "mm_ok qc rq \<Longrightarrow> unat (req_count rq) < 2 ^ 31" for rq by (simp add: mm_ok_def sgl_ok_def)
    note kind = proc_is_kind(1) [OF False, of io]
    obtain H P where l: "live_inv qc n ann rep moved (mm_bytes qc) (mm_byte qc) rs H P w"
      using live_mm.live_run [OF assms(1) kind assms(2) [unfolded e] bound ok assms(5)] by blast
    from live_mm.live_drains [OF kind l ok assms(5)] small [of H P] l that show ?thesis
      unfolding e live_inv_def by (metis le_trans)
  qed
qed

end

lemma run_inv_drained:
  assumes inv: "run_inv qc n ann rep moved db byte rs H P w" and "dq_pend_list (dw_q w) = []" "dq_work_list (dw_q w) = []"
  shows "finished (dw_events w) = map fst rs" and "concat (map db (moved (dw_dev w))) = requests_bytes byte rs"
proof -
  obtain fs rest where r: "rs = fs @ rest" "finished (dw_events w) = map fst fs"
    "prefix (requests_bytes byte fs) (concat (map db (moved (dw_dev w))))" "prefix (concat (map db (moved (dw_dev w)))) (requests_bytes byte rs)"
    using run_inv_bytes [OF inv] by blast
  have "finished (dw_events w) = map fst rs" using inv assms(2,3) unfolding run_inv_def by (auto dest: queue_invD(11))
  then show "finished (dw_events w) = map fst rs" .
  then have "rest = []" using r(1,2) by simp
  then show "concat (map db (moved (dw_dev w))) = requests_bytes byte rs"
    using r(1,3,4) by (simp add: prefix_order.antisym)
qed

text \<open>A bounded number of services empties a queue, from every state of a run.\<close>

lemma services_drain:
  assumes "descq_hardware_live io n ann rep moved" and "fresh_queue n w" and "n = unat (ring_sz - 1)" "1 < n" "n \<le> 2 ^ 16"
    and "ann (dw_dev w) = 0" "rep (dw_dev w) = 0" "moved (dw_dev w) = []"
    and "qc = (dq_conf (dw_q w))\<lparr>qc_rngsz := ring_sz - 1\<rparr>" and "qc_st qc \<longrightarrow> qc_q_type qc = Q_H2C"
    and "q_run io pm (queue_start ring_sz irq_en w) rs w1" and "\<forall>(r, rq) \<in> set rs. accepts qc rq" and "length rs < 2 ^ 32"
  shows "\<exists>k w2. k \<le> 2 * left w1 + n \<and> services k io w1 = Some w2 \<and> finished (dw_events w2) = map fst rs \<and>
    (\<forall>r off err. FpDone r off err \<in> set (dw_events w2) \<longrightarrow> err = 0) \<and>
    concat (map (desc_bytes qc) (moved (dw_dev w2))) = requests_bytes (request_byte qc) rs"
proof -
  let ?db = "desc_bytes qc" and ?byte = "request_byte qc"
  have "queue_inv qc n ann rep moved ?db ?byte (\<lambda>_. undefined) [] 0 (\<lambda>_. []) [] (queue_start ring_sz irq_en w)"
    unfolding assms(9) by (rule queue_start_inv) (use assms(2-8) in simp_all)
  moreover have "calm ann [] 0 (queue_start ring_sz irq_en w)"
    using assms(2,6) by (simp add: calm_def queue_start_def qdma_descq_config_complete_def fresh_queue_def)
  ultimately have l0: "live_inv qc n ann rep moved ?db ?byte [] [] 0 (queue_start ring_sz irq_en w)"
    using assms(2) unfolding live_inv_def run_inv_def
    by (fastforce simp: queue_start_def qdma_descq_config_complete_def fresh_queue_def)
  obtain k w2 H P where k: "services k io w1 = Some w2" "live_inv qc n ann rep moved ?db ?byte rs H P w2"
    "dq_pend_list (dw_q w2) = []" "dq_work_list (dw_q w2) = []" "k \<le> 2 * left w1 + n"
    using descq_hardware_live.kind_live_run [OF assms(1,11) l0 assms(12,10,13)] by blast
  have inv: "run_inv qc n ann rep moved ?db ?byte rs H P w2" using k(2) by (simp add: live_inv_def)
  then have "\<forall>r off err. FpDone r off err \<in> set (dw_events w2) \<longrightarrow> err = 0"
    unfolding run_inv_def by (auto dest: queue_invD(12) simp: told_ok_def)
  then show ?thesis using k(1,5) run_inv_drained [OF inv k(3,4)] by blast
qed

end
