(* ===== verification/Descq_Device.thy ===== *)
theory Descq_Device
  imports Descq_Drain
begin

section \<open>Queues and their registers\<close>

text \<open>
  The producer index reaches the hardware through the queue's register (qdma\_soft\_access.c). A device that reads the
  index field of that register as the queue's producer index, and works through the ring, meets the contract of the
  hardware, and every write of the register is taken.
\<close>

unbundle bit_operations_syntax

locale descq_registers =
  fixes mm :: "'s mmio" and cidx_status :: "ring_desc list \<Rightarrow> 's \<Rightarrow> u16 \<times> 's" and is_vf :: u8 and qid :: u16 and is_c2h :: u8
    and n :: nat and ann rep :: "'s \<Rightarrow> nat" and moved :: "'s \<Rightarrow> ring_desc list"
  assumes status_read: "cidx_status ring s = (v, s') \<Longrightarrow> length ring = n \<Longrightarrow> rep s \<le> length (moved s) \<Longrightarrow> length (moved s) \<le> ann s \<Longrightarrow>
      v = of_nat (rep s' mod n) \<and> ann s' = ann s \<and> rep s \<le> rep s' \<and> (rep s < ann s \<longrightarrow> rep s < rep s') \<and> rep s' \<le> length (moved s') \<and>
      length (moved s) \<le> length (moved s') \<and> length (moved s') \<le> ann s \<and>
      moved s' = moved s @ map (\<lambda>a. ring ! (a mod n)) [length (moved s)..<length (moved s')]"
    and pidx_write: "s' = qdma_reg_write mm (queue_reg is_vf (if is_c2h = 0 then 4 else 8, qid)) x s \<Longrightarrow>
      rep s' = rep s \<and> moved s' = moved s \<and>
      ann s' = ann s + (unat (FIELD_GET QDMA_DMA_SEL_DESC_PIDX_MASK x) + n - ann s mod n) mod n"

text \<open>The queue as the driver sees it, with the register write of the driver's own.\<close>

definition register_io :: "'s mmio \<Rightarrow> (ring_desc list \<Rightarrow> 's \<Rightarrow> u16 \<times> 's) \<Rightarrow> u8 \<Rightarrow> u16 \<Rightarrow> u8 \<Rightarrow> 's dq_io" where
  "register_io mm cidx_status is_vf qid is_c2h =
     \<lparr>read_cidx = cidx_status, pidx_update = (\<lambda>pi. qdma_queue_pidx_update mm True is_vf qid is_c2h (Some pi))\<rparr>"

lemma pidx_register:
  "qdma_queue_pidx_update mm True is_vf qid is_c2h (Some pi) s =
     (0, qdma_reg_write mm (queue_reg is_vf (if is_c2h = 0 then 4 else 8, qid))
       (FIELD_SET QDMA_DMA_SEL_DESC_PIDX_MASK (ucast (pi_pidx pi)) OR FIELD_SET QDMA_DMA_SEL_IRQ_EN_MASK (ucast (pi_irq_en pi))) s)"
  by (simp add: qdma_queue_pidx_update_def queue_reg_def queue_offsets)

lemma pidx_field:
  "unat (FIELD_GET QDMA_DMA_SEL_DESC_PIDX_MASK (FIELD_SET QDMA_DMA_SEL_DESC_PIDX_MASK (ucast (p :: u16)) OR
     FIELD_SET QDMA_DMA_SEL_IRQ_EN_MASK x)) = unat p"
proof -
  have "unat p < 2 ^ 16" using unsigned_less [of p] by simp
  then have "unat (take_bit 16 (ucast p :: u32)) = unat p" by (simp add: unsigned_take_bit_eq unsigned_ucast_eq take_bit_nat_eq_self)
  then show ?thesis by (simp add: mask_defs field_rules)
qed

sublocale descq_registers \<subseteq> registers: descq_hardware_live "register_io mm cidx_status is_vf qid is_c2h" n ann rep moved
proof (unfold_locales, goal_cases)
  case (1 ring s v s')
  then show ?case using status_read [of ring s v s'] by (simp add: register_io_def)
next
  case (2 pi s rv s')
  then have w: "rv = 0" "s' = qdma_reg_write mm (queue_reg is_vf (if is_c2h = 0 then 4 else 8, qid))
      (FIELD_SET QDMA_DMA_SEL_DESC_PIDX_MASK (ucast (pi_pidx pi)) OR FIELD_SET QDMA_DMA_SEL_IRQ_EN_MASK (ucast (pi_irq_en pi))) s"
    by (auto simp: register_io_def pidx_register)
  show ?case using pidx_write [OF w(2)] w(1) by (simp add: pidx_field)
next
  case (3 ring s v s')
  then show ?case using status_read [of ring s v s'] by (simp add: register_io_def)
next
  case (4 pi s rv s')
  then show ?case by (simp add: register_io_def pidx_register)
qed

context descq_registers begin

lemmas registers_live = registers.descq_hardware_live_axioms

end

subsection \<open>A simulated device\<close>

text \<open>
  It has the registers of one queue, and whenever its consumer index is read it has carried out all it knows of.
\<close>

record dq_sim =
  ds_ann :: nat
  ds_rep :: nat
  ds_moved :: "ring_desc list"

definition sim_announce :: "nat \<Rightarrow> u32 \<Rightarrow> u32 \<Rightarrow> u32 \<Rightarrow> dq_sim \<Rightarrow> dq_sim" where
  "sim_announce n reg a v s = (if a = reg
     then s\<lparr>ds_ann := ds_ann s + (unat (FIELD_GET QDMA_DMA_SEL_DESC_PIDX_MASK v) + n - ds_ann s mod n) mod n\<rparr> else s)"

definition sim_registers :: "nat \<Rightarrow> u32 \<Rightarrow> dq_sim mmio" where
  "sim_registers n reg = \<lparr>qdma_reg_read = (\<lambda>a s. (0, s)), qdma_reg_write = sim_announce n reg, qdma_udelay = (\<lambda>us s. s),
     qdma_reg_access_lock = (\<lambda>s. s), qdma_reg_access_release = (\<lambda>s. s)\<rparr>"

definition sim_status :: "nat \<Rightarrow> ring_desc list \<Rightarrow> dq_sim \<Rightarrow> u16 \<times> dq_sim" where
  "sim_status n ring s = (of_nat (ds_ann s mod n), s\<lparr>ds_rep := ds_ann s,
     ds_moved := ds_moved s @ map (\<lambda>a. ring ! (a mod n)) [length (ds_moved s)..<ds_ann s]\<rparr>)"

abbreviation sim_io :: "nat \<Rightarrow> u8 \<Rightarrow> u16 \<Rightarrow> u8 \<Rightarrow> dq_sim dq_io" where
  "sim_io n is_vf qid is_c2h \<equiv>
     register_io (sim_registers n (queue_reg is_vf (if is_c2h = 0 then 4 else 8, qid))) (sim_status n) is_vf qid is_c2h"

interpretation sim_queue: descq_registers "sim_registers n (queue_reg is_vf (if is_c2h = 0 then 4 else 8, qid))" "sim_status n" is_vf qid is_c2h
  n ds_ann ds_rep ds_moved for n is_vf qid is_c2h
  by unfold_locales (auto simp: sim_status_def sim_registers_def sim_announce_def)

text \<open>
  A memory mapped queue with a ring of four descriptors and a keyhole of four bytes, a request of two scatter list entries
  that takes five descriptors, more than there is room for, and its submission.
\<close>

definition sim_request :: qdma_request where
  "sim_request = \<lparr>req_fp_done = True, req_timeout_ms = 0, req_count = 14, req_ep_addr = 0x8000, req_write = True, req_dma_mapped = False,
     req_sgl = [\<lparr>sg_pg = 1, sg_offset = 2, sg_len = 6, sg_dma_addr = 0\<rparr>, \<lparr>sg_pg = 7, sg_offset = 0, sg_len = 8, sg_dma_addr = 0\<rparr>],
     cb_desc_nr = 0, cb_offset = 0, cb_sg_offset = 0, cb_sg = None, cb_status = 0, cb_done = False, cb_unmap_needed = False\<rparr>"

definition sim_conf :: qdma_queue_conf where
  "sim_conf = \<lparr>qc_rngsz = 0, qc_st = False, qc_q_type = Q_H2C, qc_aperture_size = 4, qc_desc_bypass = False, qc_pidx_acc = 0,
     qc_fp_descq_c2h_packet = False\<rparr>"

definition sim_world :: "qdma_drv_mode \<Rightarrow> dq_sim dq_world" where
  "sim_world mode = \<lparr>dw_q = \<lparr>dq_conf = sim_conf, dq_drv_mode = mode, dq_q_state = Q_STATE_DISABLED, dq_q_stop_wait = False,
       dq_proc_req_running = False, dq_pend_list_empty = False, dq_work_list = [], dq_work_req_pend = 0, dq_pend_list = [],
       dq_cmplthp = False, dq_avail = 0, dq_pidx = 0, dq_cidx = 0, dq_credit = 0,
       dq_desc = replicate 4 (MmDesc \<lparr>md_src_addr = 0, md_flag_len = 0, md_rsvd0 = 0, md_dst_addr = 0, md_rsvd1 = 0\<rparr>),
       dq_desc_pend = 0, dq_pidx_info = \<lparr>pi_pidx = 0, pi_irq_en = 0\<rparr>, dq_total_cmpl_descs = 0\<rparr>,
     dw_req = (\<lambda>_. sim_request), dw_dev = \<lparr>ds_ann = 0, ds_rep = 0, ds_moved = []\<rparr>, dw_events = []\<rparr>"

definition sim_map :: pci_map where
  "sim_map = \<lparr>pci_map_page = (\<lambda>a. a * 0x1000), pci_dma_mapping_error = (\<lambda>_. False)\<rparr>"

definition sim_submitted :: "qdma_drv_mode \<Rightarrow> dq_sim dq_world" where
  "sim_submitted mode = snd (submit_queue sim_map 1 (set_req 1 (\<lambda>_. sim_request) (queue_start 5 1 (sim_world mode))))"

lemma sim_submitted_run: "q_run io sim_map (queue_start 5 1 (sim_world mode)) [(1, mapped_request sim_map sim_request)] (sim_submitted mode)"
proof -
  have "fst (submit_queue sim_map 1 (set_req 1 (\<lambda>_. sim_request) (queue_start 5 1 (sim_world mode)))) = 0"
    by code_simp
  then have "submit_queue sim_map 1 (set_req 1 (\<lambda>_. sim_request) (queue_start 5 1 (sim_world mode))) = (0, sim_submitted mode)"
    by (metis prod.collapse sim_submitted_def)
  from run_submit [OF run_start _ this] show ?thesis by simp
qed

lemma sim_accepts: "\<forall>(r, rq) \<in> set [(1 :: nat, mapped_request sim_map sim_request)]. accepts (sim_conf\<lparr>qc_rngsz := 5 - 1\<rparr>) rq"
  by (simp add: accepts_def sim_conf_def mm_ok_def sgl_ok_def aperture_ok_def mapped_request_def sim_request_def
      dq_aperture_def dq_keyhole_def)

lemma sim_fresh:
  "fresh_queue 4 (sim_world mode)" "dq_conf (dw_q (sim_world mode)) = sim_conf" "ds_ann (dw_dev (sim_world mode)) = 0"
  "ds_rep (dw_dev (sim_world mode)) = 0" "ds_moved (dw_dev (sim_world mode)) = []"
  by (simp_all add: fresh_queue_def sim_world_def)

end
