(* ===== verification/Descq_Edges.thy ===== *)
theory Descq_Edges
  imports Descq_Device
begin

section \<open>Requests that do not fit and queues that stop\<close>

text \<open>
  What the driver does outside of the runs: a request that is longer than its scatter list keeps the loop of the
  processing functions, which hold the lock of the queue, from ever ending, and a queue that is stopped tells everyone who
  waits but keeps the requests of those who block.
\<close>

unbundle bit_operations_syntax

subsection \<open>Requests longer than their scatter lists\<close>

definition out_of_range :: "nat \<Rightarrow> 's dq_world \<Rightarrow> bool" where
  "out_of_range r w \<longleftrightarrow> (\<exists>rs. dq_work_list (dw_q w) = r # rs) \<and> dq_avail (dw_q w) \<noteq> 0 \<and>
     cb_offset (dw_req w r) < req_count (dw_req w r) \<and> qdma_sgl_find_offset (dw_req w r) = None"

lemma find_offset_update:
  "qdma_sgl_find_offset (rq\<lparr>cb_desc_nr := a, cb_sg_offset := b, cb_sg := c\<rparr>) = qdma_sgl_find_offset rq"
  by (simp add: qdma_sgl_find_offset_def)

lemma update_request_none:
  assumes "cb_offset (dw_req w r) < req_count (dw_req w r)"
  shows "qdma_update_request r 0 0 0 None w =
    set_req r (\<lambda>rq. rq\<lparr>cb_desc_nr := cb_desc_nr rq, cb_sg_offset := 0, cb_sg := None\<rparr>) w"
  using assms by (simp add: qdma_update_request_def Let_def)

lemma out_of_range_update: "out_of_range r w \<Longrightarrow> out_of_range r (qdma_update_request r 0 0 0 None w)"
  unfolding out_of_range_def by (clarsimp simp: update_request_none) (auto simp: qdma_sgl_find_offset_def)

text \<open>The round leaves the request where it is, so the loop does the same again.\<close>

lemma out_of_range_round:
  assumes "out_of_range r w"
  shows "mm_round io r (pidx, d, w) = (True, pidx, d, qdma_update_request r 0 0 0 None w)"
    and "st_round io r (pidx, d, w) = (True, pidx, d, qdma_update_request r 0 0 0 None w)"
  using assms by (simp_all add: out_of_range_def mm_round_def st_round_def Let_def)

lemma out_of_range_never:
  fixes io :: "'s dq_io"
  shows "mm_loop io st = Some y \<Longrightarrow> \<not> out_of_range r (snd (snd st))"
    and "st_loop io st = Some y \<Longrightarrow> \<not> out_of_range r (snd (snd st))"
proof -
  have again: "\<exists>w rs. st = (fst st, fst (snd st), w) \<and> dq_work_list (dw_q w) = r # rs \<and>
      (\<forall>io :: 's dq_io. mm_round io r st = (True, fst st, fst (snd st), qdma_update_request r 0 0 0 None w) \<and>
        st_round io r st = (True, fst st, fst (snd st), qdma_update_request r 0 0 0 None w)) \<and>
      out_of_range r (qdma_update_request r 0 0 0 None w)" if "out_of_range r (snd (snd st))" for st
    using that out_of_range_round [OF that, of _ "fst st" "fst (snd st)"] out_of_range_update [OF that]
    by (intro exI [of _ "snd (snd st)"]) (simp, simp add: out_of_range_def)
  show "mm_loop io st = Some y \<Longrightarrow> \<not> out_of_range r (snd (snd st))"
    by (rule mm_loop.raw_induct [where P = "\<lambda>io st y. \<not> out_of_range r (snd (snd st))", rotated], assumption) (auto dest!: again)
  show "st_loop io st = Some y \<Longrightarrow> \<not> out_of_range r (snd (snd st))"
    by (rule st_loop.raw_induct [where P = "\<lambda>io st y. \<not> out_of_range r (snd (snd st))", rotated], assumption) (auto dest!: again)
qed

lemma out_of_range_hangs:
  assumes "out_of_range r w"
  shows "mm_loop io (pidx, d, w) = None" "st_loop io (pidx, d, w) = None"
  using assms out_of_range_never [of io "(pidx, d, w)" _ r] by (cases "mm_loop io (pidx, d, w)"; cases "st_loop io (pidx, d, w)"; simp)+

text \<open>
  C27: A request without scatter list entries but with a length, once it is submitted to an idle queue, is never given
  back: the call does not return, whether or not it was meant to wait, and holds the lock of the queue for ever. Neither
  the length nor the number of entries is checked against the other.
\<close>
theorem qdma_request_submit_hangs:
  assumes "submit_queue pm r w = (0, w')" and "req_sgl (dw_req w r) = []" and "req_count (dw_req w r) \<noteq> 0"
    and "dq_work_list (dw_q w) = []" "dq_pidx (dw_q w) = dq_cidx (dw_q w)" "dq_avail (dw_q w) \<noteq> 0"
    and "\<not> dq_q_stop_wait (dw_q w)" "\<not> dq_proc_req_running (dw_q w)" and "qc_st (dq_conf (dw_q w)) \<longrightarrow> qc_q_type (dq_conf (dw_q w)) = Q_H2C"
  shows "qdma_request_submit io pm wait r w = None"
proof -
  note s = submit_queue_ok [OF assms(1)]
  have rq: "req_sgl (dw_req w' r) = []" "req_count (dw_req w' r) \<noteq> 0" "cb_offset (dw_req w' r) = 0"
    using s(1,2) assms(2,3) by (auto simp: same_request_def mapped_request_def split: if_splits)
  have q: "dw_q w' = qdma_work_queue_add r (dw_q w)" by (fact s(4))
  have out: "out_of_range r w'"
    using rq assms(4,6) by (simp add: out_of_range_def q qdma_work_queue_add_def qdma_sgl_find_offset_def word_gt_0)
  have idle: "dq_pidx (dw_q w') = dq_cidx (dw_q w')" using assms(5) by (simp add: q qdma_work_queue_add_def)
  then obtain wp where p: "descq_poll_mm_n_h2c_cmpl_status io w' = wp" "out_of_range r wp"
    using out by (auto simp: descq_poll_mm_n_h2c_cmpl_status_def descq_mm_n_h2c_cmpl_status_def out_of_range_def)
  have "qdma_descq_proc_sgt_request io w' = None"
    using assms(7-9) s(9)
    by (auto simp: qdma_descq_proc_sgt_request_def descq_mm_proc_request_def descq_proc_st_h2c_request_def q qdma_work_queue_add_def
        p(1) out_of_range_hangs [OF p(2)] Let_def)
  then show ?thesis using assms(1) by (simp add: qdma_request_submit_def)
qed

theorem qdma_request_submit_hangs_witness:
  "qdma_request_submit (sim_io 4 0 5 0) sim_map (\<lambda>_ w. w) 1
     (set_req 1 (\<lambda>_. sim_request\<lparr>req_sgl := []\<rparr>) (queue_start 5 1 (sim_world POLL_MODE))) = None"
proof -
  let ?w = "set_req 1 (\<lambda>_. sim_request\<lparr>req_sgl := []\<rparr>) (queue_start 5 1 (sim_world POLL_MODE))"
  have "fst (submit_queue sim_map 1 ?w) = 0" by code_simp
  then have s: "submit_queue sim_map 1 ?w = (0, snd (submit_queue sim_map 1 ?w))" by (metis prod.collapse)
  show ?thesis
    by (rule qdma_request_submit_hangs [OF s])
      (simp_all add: sim_request_def sim_world_def sim_conf_def queue_start_def qdma_descq_config_complete_def)
qed

subsection \<open>Stopping\<close>

definition told_gone :: "(nat \<Rightarrow> qdma_request) \<Rightarrow> nat \<Rightarrow> dq_event" where
  "told_gone R r = (if req_fp_done (R r) then FpDone r 0 (- ENXIO) else Wakeup r)"

lemma stop_notify_req:
  "dw_req (stop_notify unlink r w) = (dw_req w)(r := (dw_req w r)\<lparr>cb_done := True, cb_status := - ENXIO\<rparr>)"
  "dw_events (stop_notify unlink r w) = dw_events w @ [told_gone (dw_req w) r]"
  "dw_q (stop_notify unlink r w) = (if req_fp_done (dw_req w r) then unlink r (dw_q w) else dw_q w)"
  "dw_dev (stop_notify unlink r w) = dw_dev w"
  by (simp_all add: stop_notify_def told_gone_def Let_def)

lemma stop_notify_fold:
  fixes w :: "'a dq_world"
  assumes "distinct rs"
  shows "dw_req (fold (stop_notify unlink) rs w) =
      (\<lambda>r. if r \<in> set rs then (dw_req w r)\<lparr>cb_done := True, cb_status := - ENXIO\<rparr> else dw_req w r)"
    and "dw_events (fold (stop_notify unlink) rs w) = dw_events w @ map (told_gone (dw_req w)) rs"
    and "dw_q (fold (stop_notify unlink) rs w) = fold unlink (filter (\<lambda>r. req_fp_done (dw_req w r)) rs) (dw_q w)"
    and "dw_dev (fold (stop_notify unlink) rs w) = dw_dev w"
  using assms
proof (induction rs arbitrary: w)
  case (Cons r rs)
  have d: "distinct rs" if "distinct (r # rs)" using that by simp
  have same: "map (told_gone (dw_req (stop_notify unlink r w))) rs = map (told_gone (dw_req w)) rs"
    "filter (\<lambda>x. req_fp_done (dw_req (stop_notify unlink r w) x)) rs = filter (\<lambda>x. req_fp_done (dw_req w x)) rs"
    if "distinct (r # rs)" for w :: "'a dq_world"
    using that by (auto simp: stop_notify_req told_gone_def intro!: filter_cong)
  {
    case 1
    show ?case using 1 by (auto simp: Cons.IH(1) [OF d [OF 1]] stop_notify_req(1) fun_eq_iff)
  next
    case 2
    show ?case using same(1) [OF 2] by (simp add: Cons.IH(2) [OF d [OF 2]] stop_notify_req(2))
  next
    case 3
    show ?case by (simp add: Cons.IH(3) [OF d [OF 3]] stop_notify_req(3) same [OF 3])
  next
    case 4
    show ?case using Cons.IH(4) [OF d [OF 4]] by (simp add: stop_notify_req(4))
  }
qed simp_all

lemma remove1_all: "fold remove1 rs xs = filter (\<lambda>x. x \<notin> set rs) xs" if "distinct xs"
  using that by (induction rs arbitrary: xs) (auto simp: distinct_remove1_removeAll removeAll_filter_not_eq intro!: filter_cong)

lemma list_del_all:
  "dq_work_list (fold list_del rs q) = fold remove1 rs (dq_work_list q)" "dq_pend_list (fold list_del rs q) = fold remove1 rs (dq_pend_list q)"
  "dq_q_state (fold list_del rs q) = dq_q_state q"
  by (induction rs arbitrary: q) (simp_all add: list_del_def)

lemma work_queue_del_all:
  "dq_work_list (fold qdma_work_queue_del rs q) = fold remove1 rs (dq_work_list q)"
  "dq_pend_list (fold qdma_work_queue_del rs q) = fold remove1 rs (dq_pend_list q)"
  "dq_q_state (fold qdma_work_queue_del rs q) = dq_q_state q"
  by (induction rs arbitrary: q) (simp_all add: qdma_work_queue_del_def list_del_def)

text \<open>
  C24: Stopping a queue tells every request that is still on its lists, pending ones first, once and with the error that the
  device is gone. It takes the requests with a completion function off the lists, and leaves those that somebody blocks
  for: a waiter that wakes up then returns the error with its request still linked, and the next start of the queue does
  not clear the lists either.
\<close>
theorem qdma_queue_stop_tells:
  assumes "dq_q_state (dw_q w) = Q_STATE_ONLINE"
    and "w0 = (if dq_pend_list_empty (dw_q w) then set_q (\<lambda>q. q\<lparr>dq_q_stop_wait := True\<rparr>) w
       else wait (set_q (\<lambda>q. q\<lparr>dq_q_stop_wait := True\<rparr>) w))"
    and "pend = dq_pend_list (dw_q w0)" "work = dq_work_list (dw_q w0)" "distinct (pend @ work)"
    and "qdma_queue_stop wait w = (rv, w')"
  shows "rv = 0 \<and> dw_events w' = dw_events w0 @ map (told_gone (dw_req w0)) (pend @ work) \<and>
    (\<forall>r \<in> set (pend @ work). cb_done (dw_req w' r) \<and> cb_status (dw_req w' r) = - ENXIO) \<and>
    dq_pend_list (dw_q w') = filter (\<lambda>r. \<not> req_fp_done (dw_req w0 r)) pend \<and>
    dq_work_list (dw_q w') = filter (\<lambda>r. \<not> req_fp_done (dw_req w0 r)) work \<and>
    (\<forall>r \<in> set (pend @ work). qdma_request_wait_for_cmpl (\<lambda>_ w. w) r w' = (- EIO, w')) \<and>
    dq_pend_list (dw_q (queue_start ring_sz irq_en w')) = dq_pend_list (dw_q w') \<and>
    dq_work_list (dw_q (queue_start ring_sz irq_en w')) = dq_work_list (dw_q w')"
proof -
  define w1 where "w1 = set_q (\<lambda>q. q\<lparr>dq_q_state := Q_STATE_ENABLED, dq_q_stop_wait := False\<rparr>) w0"
  define w2 where "w2 = fold (stop_notify list_del) pend w1"
  define w3 where "w3 = fold (stop_notify qdma_work_queue_del) work w2"
  have d: "distinct pend" "distinct work" "set pend \<inter> set work = {}" using assms(5) by auto
  have l1: "dq_pend_list (dw_q w1) = pend" "dq_work_list (dw_q w1) = work" by (simp_all add: w1_def assms(3,4))
  note n2 = stop_notify_fold [OF d(1), of list_del w1, folded w2_def]
  note n3 = stop_notify_fold [OF d(2), of qdma_work_queue_del w2, folded w3_def]
  have fp: "req_fp_done (dw_req w2 r) = req_fp_done (dw_req w0 r)" "told_gone (dw_req w2) r = told_gone (dw_req w0) r" for r
    by (simp_all add: n2(1) told_gone_def w1_def)
  have l2: "dq_pend_list (dw_q w2) = filter (\<lambda>r. \<not> req_fp_done (dw_req w0 r)) pend" "dq_work_list (dw_q w2) = work"
    using d by (auto simp: n2(3) list_del_all remove1_all l1 simp flip: w1_def intro!: filter_cong filter_True) (auto simp: w1_def)
  have l3: "dq_pend_list (dw_q w3) = filter (\<lambda>r. \<not> req_fp_done (dw_req w0 r)) pend"
    "dq_work_list (dw_q w3) = filter (\<lambda>r. \<not> req_fp_done (dw_req w0 r)) work"
    using d by (auto simp: n3(3) work_queue_del_all remove1_all l2 fp intro!: filter_cong)
  have "qdma_queue_stop wait w = (0, set_q (\<lambda>q. q\<lparr>dq_total_cmpl_descs := 0\<rparr>) (fold (stop_notify qdma_work_queue_del) (dq_work_list (dw_q w2)) w2))"
    by (simp add: qdma_queue_stop_def Let_def assms(1-3) w2_def w1_def)
  then have stop: "rv = 0" "w' = set_q (\<lambda>q. q\<lparr>dq_total_cmpl_descs := 0\<rparr>) w3"
    using assms(6) by (simp_all add: l2(2) w3_def)
  have told: "cb_done (dw_req w3 r) \<and> cb_status (dw_req w3 r) = - ENXIO" if "r \<in> set (pend @ work)" for r
    using that by (auto simp: n3(1) n2(1))
  show ?thesis
    using told by (auto simp: stop l3 n3(2) n2(2) fp w1_def qdma_request_wait_for_cmpl_def Let_def queue_start_def
        qdma_descq_config_complete_def ENXIO_def)
qed

theorem qdma_queue_stop_tells_witness:
  "let w = set_q (\<lambda>q. q\<lparr>dq_pend_list := [3], dq_work_list := [1, 2]\<rparr>)
       (set_req 2 (\<lambda>rq. rq\<lparr>req_fp_done := False\<rparr>) (queue_start 5 1 (sim_world POLL_MODE)));
       w' = snd (qdma_queue_stop (\<lambda>w. w) w)
   in dw_events w' = [FpDone 3 0 (- 6), FpDone 1 0 (- 6), Wakeup 2] \<and> dq_pend_list (dw_q w') = [] \<and> dq_work_list (dw_q w') = [2] \<and>
     qdma_request_wait_for_cmpl (\<lambda>_ w. w) 2 w' = (- 5, w')"
proof -
  define w where "w = set_q (\<lambda>q. q\<lparr>dq_pend_list := [3], dq_work_list := [1, 2]\<rparr>)
    (set_req 2 (\<lambda>rq. rq\<lparr>req_fp_done := False\<rparr>) (queue_start 5 1 (sim_world POLL_MODE)))"
  have w: "dq_q_state (dw_q w) = Q_STATE_ONLINE" "dq_pend_list_empty (dw_q w)" "dq_pend_list (dw_q w) = [3]" "dq_work_list (dw_q w) = [1, 2]"
    "dw_events w = []" "req_fp_done (dw_req w 1)" "req_fp_done (dw_req w 3)" "\<not> req_fp_done (dw_req w 2)"
    by (simp_all add: w_def queue_start_def qdma_descq_config_complete_def sim_world_def sim_request_def)
  obtain rv w' where s: "qdma_queue_stop (\<lambda>w. w) w = (rv, w')" by fastforce
  from qdma_queue_stop_tells [OF w(1) refl refl refl _ s]
  have "dw_events w' = [FpDone 3 0 (- 6), FpDone 1 0 (- 6), Wakeup 2] \<and> dq_pend_list (dw_q w') = [] \<and> dq_work_list (dw_q w') = [2] \<and>
      qdma_request_wait_for_cmpl (\<lambda>_ w. w) 2 w' = (- 5, w')"
    using w by (simp add: told_gone_def ENXIO_def EIO_def)
  then show ?thesis unfolding w_def [symmetric] by (simp add: s)
qed

end
