(* ===== verification/Descq_Claims.thy ===== *)
theory Descq_Claims
  imports Descq_Device
begin

section \<open>What a queue does\<close>

text \<open>The properties of started queues, from the lemmas on their runs, with a simulated device for their hypotheses.\<close>

unbundle bit_operations_syntax

context descq_hardware begin

text \<open>Whatever the kind of the queue, processing and services return.\<close>

lemma kind_returns:
  assumes "run_inv qc n ann rep moved (desc_bytes qc) (request_byte qc) rs H P w"
    and "\<forall>(r, rq) \<in> set rs. accepts qc rq" and "qc_st qc \<longrightarrow> qc_q_type qc = Q_H2C"
  shows "(\<exists>rv w'. qdma_descq_proc_sgt_request io w = Some (rv, w')) \<and> (\<exists>rv w'. qdma_descq_service_cmpl_update io w = Some (rv, w'))"
proof (cases "qc_st qc")
  case True
  then have e: "desc_bytes qc = st_bytes" "request_byte qc = st_byte" by (simp_all add: desc_bytes_def request_byte_def fun_eq_iff)
  have ok: "\<forall>(r, rq) \<in> set rs. st_ok rq" using assms(2) True by (auto simp: accepts_def)
  note kind = proc_is_kind(2) [OF True mp [OF assms(3) True], of io]
  note inv = assms(1) [unfolded e]
  have "\<exists>rv w'. qdma_descq_proc_sgt_request io w = Some (rv, w')"
    using st.run_inv_step [where f = "qdma_descq_proc_sgt_request io", OF inv ok st.sgt_request_advances [OF kind]] by fastforce
  moreover have "\<exists>rv w'. qdma_descq_service_cmpl_update io w = Some (rv, w')"
    using st.run_inv_step [where f = "qdma_descq_service_cmpl_update io", OF inv ok st.service_advances [OF kind]] by fastforce
  ultimately show ?thesis ..
next
  case False
  then have e: "desc_bytes qc = mm_bytes qc" "request_byte qc = mm_byte qc" by (simp_all add: desc_bytes_def request_byte_def fun_eq_iff)
  have ok: "\<forall>(r, rq) \<in> set rs. mm_ok qc rq" using assms(2) False by (auto simp: accepts_def)
  note kind = proc_is_kind(1) [OF False, of io]
  note inv = assms(1) [unfolded e]
  have "\<exists>rv w'. qdma_descq_proc_sgt_request io w = Some (rv, w')"
    using mm.run_inv_step [where f = "qdma_descq_proc_sgt_request io", OF inv ok mm.sgt_request_advances [OF kind]] by fastforce
  moreover have "\<exists>rv w'. qdma_descq_service_cmpl_update io w = Some (rv, w')"
    using mm.run_inv_step [where f = "qdma_descq_service_cmpl_update io", OF inv ok mm.service_advances [OF kind]] by fastforce
  ultimately show ?thesis ..
qed

end

text \<open>The invariant of the runs of a started queue.\<close>

lemma started_run_inv:
  assumes "descq_hardware io n ann rep moved" and "fresh_queue n w" and "n = unat (ring_sz - 1)" "1 < n" "n \<le> 2 ^ 16"
    and "ann (dw_dev w) = 0" "rep (dw_dev w) = 0" "moved (dw_dev w) = []"
    and "qc = (dq_conf (dw_q w))\<lparr>qc_rngsz := ring_sz - 1\<rparr>" and "qc_st qc \<longrightarrow> qc_q_type qc = Q_H2C"
    and "q_run io pm (queue_start ring_sz irq_en w) rs w1" and "\<forall>(r, rq) \<in> set rs. accepts qc rq"
  shows "\<exists>H P. run_inv qc n ann rep moved (desc_bytes qc) (request_byte qc) rs H P w1"
proof -
  have "queue_inv qc n ann rep moved (desc_bytes qc) (request_byte qc) (\<lambda>_. undefined) [] 0 (\<lambda>_. []) [] (queue_start ring_sz irq_en w)"
    unfolding assms(9) by (rule queue_start_inv) (use assms(2-8) in simp_all)
  then have "run_inv qc n ann rep moved (desc_bytes qc) (request_byte qc) [] [] 0 (queue_start ring_sz irq_en w)"
    unfolding run_inv_def using assms(2)
    by (intro exI [of _ "\<lambda>_. undefined"] exI [of _ "\<lambda>_. []"] exI [of _ "[]"])
      (simp add: queue_start_def qdma_descq_config_complete_def fresh_queue_def)
  from descq_hardware.kind_run_keeps [OF assms(1,11) this assms(12,10)] show ?thesis .
qed

text \<open>
  C2: A queue moves the bytes of its requests, in their order. In every state that submissions, processing and
  services reach on a started queue, memory mapped or a host-to-card stream, with hardware that works on as it likes
  and registers that may refuse a write, the requests whose owners were told are the first ones submitted, all their
  bytes have been moved, and what has been moved is an initial part of the bytes of the requests submitted: nothing is
  lost, repeated, reordered or made up, however often the ring wraps and however often a request is continued because
  the ring is full. Every request is submitted once and is one a queue
  accepts: its count is the sum of the lengths of its scatter
  list and below \<open>2 ^ 31\<close>, no entry is empty (but a request of length zero has one empty entry); for a
  memory mapped queue the aperture, if there is one, is a power of two below \<open>2 ^ 28\<close> and two of it fit
  above the end point address; for a host-to-card stream the packet size in that address is not zero. The driver
  checks none of this; for a request that breaks it the statement may fail, as C27 shows for one without scatter list
  entries. The ring has 2 to 65536 descriptors.
\<close>
theorem qdma_queue_moves:
  assumes "descq_hardware io n ann rep moved" and "fresh_queue n w" and "n = unat (ring_sz - 1)" "1 < n" "n \<le> 2 ^ 16"
    and "ann (dw_dev w) = 0" "rep (dw_dev w) = 0" "moved (dw_dev w) = []"
    and "qc = (dq_conf (dw_q w))\<lparr>qc_rngsz := ring_sz - 1\<rparr>" and "qc_st qc \<longrightarrow> qc_q_type qc = Q_H2C"
    and "q_run io pm (queue_start ring_sz irq_en w) rs w1" and "\<forall>(r, rq) \<in> set rs. accepts qc rq"
  shows "\<exists>fs rest. rs = fs @ rest \<and> finished (dw_events w1) = map fst fs \<and>
    prefix (requests_bytes (request_byte qc) fs) (concat (map (desc_bytes qc) (moved (dw_dev w1)))) \<and>
    prefix (concat (map (desc_bytes qc) (moved (dw_dev w1)))) (requests_bytes (request_byte qc) rs)"
proof -
  obtain H P where "run_inv qc n ann rep moved (desc_bytes qc) (request_byte qc) rs H P w1"
    using started_run_inv [OF assms] by blast
  then show ?thesis by (rule run_inv_bytes)
qed

theorem qdma_queue_moves_witness:
  "\<exists>w1. qdma_descq_service_cmpl_update (sim_io 4 0 5 0) (sim_submitted POLL_MODE) = Some (0, w1) \<and> length (ds_moved (dw_dev w1)) = 3 \<and>
    (\<exists>fs rest. [(1, mapped_request sim_map sim_request)] = fs @ rest \<and> finished (dw_events w1) = map fst fs \<and>
      prefix (requests_bytes (request_byte (sim_conf\<lparr>qc_rngsz := 5 - 1\<rparr>)) fs)
        (concat (map (desc_bytes (sim_conf\<lparr>qc_rngsz := 5 - 1\<rparr>)) (ds_moved (dw_dev w1)))) \<and>
      prefix (concat (map (desc_bytes (sim_conf\<lparr>qc_rngsz := 5 - 1\<rparr>)) (ds_moved (dw_dev w1))))
        (requests_bytes (request_byte (sim_conf\<lparr>qc_rngsz := 5 - 1\<rparr>)) [(1, mapped_request sim_map sim_request)]))"
proof -
  let ?io = "sim_io 4 0 5 0"
  have "(case qdma_descq_service_cmpl_update ?io (sim_submitted POLL_MODE) of
      None \<Rightarrow> False | Some (rv, w1) \<Rightarrow> rv = 0 \<and> length (ds_moved (dw_dev w1)) = 3)" by code_simp
  then obtain w1 where s: "qdma_descq_service_cmpl_update ?io (sim_submitted POLL_MODE) = Some (0, w1)" "length (ds_moved (dw_dev w1)) = 3"
    by (auto split: option.splits)
  from qdma_queue_moves [OF sim_queue.registers.descq_hardware_axioms sim_fresh(1) _ _ _ sim_fresh(3-5) _ _
      run_service [OF sim_submitted_run s(1)], where qc = "sim_conf\<lparr>qc_rngsz := 5 - 1\<rparr>"] s sim_accepts
  show ?thesis by (auto simp: sim_fresh sim_conf_def)
qed

text \<open>What a queue looks like whenever its lock is free, as a predicate on its variables.\<close>

definition queue_well_formed :: "'s dq_world \<Rightarrow> bool" where
  "queue_well_formed w \<longleftrightarrow>
     (let q = dw_q w; rngsz = qc_rngsz (dq_conf q); n = unat rngsz
      in length (dq_desc q) = n \<and> dq_pidx q < rngsz \<and> dq_cidx q < rngsz \<and>
         unat (dq_avail q) + (unat (dq_pidx q) + n - unat (dq_cidx q)) mod n = n - 1 \<and>
         dq_work_req_pend q = of_nat (length (dq_work_list q)) \<and>
         distinct (finished (dw_events w) @ dq_pend_list q @ dq_work_list q) \<and>
         (\<forall>r \<in> set (dq_pend_list q). cb_offset (dw_req w r) = req_count (dw_req w r)) \<and>
         (\<forall>r \<in> set (dq_work_list q). cb_offset (dw_req w r) \<le> req_count (dw_req w r)) \<and>
         (\<forall>r \<in> set (tl (dq_work_list q)). cb_offset (dw_req w r) = 0))"

lemma run_inv_well_formed:
  assumes "run_inv qc n ann rep moved db byte rs H P w"
  shows "queue_well_formed w"
proof -
  obtain R seg fin where inv: "queue_inv qc n ann rep moved db byte R H P seg fin w" using assms unfolding run_inv_def by blast
  note i = queue_invD [OF inv]
  let ?q = "dw_q w" and ?C = "rep (dw_dev w)"
  have ring: "length (dq_desc ?q) = n" "?C \<le> length H" "length H < ?C + n" "unat (dq_cidx ?q) = ?C mod n" "unat (dq_pidx ?q) = length H mod n"
    "unat (dq_avail ?q) + (length H - ?C) = n - 1"
    using i(5) by (simp_all add: ring_inv_def ring_holds_def)
  have dist: "(unat (dq_pidx ?q) + n - unat (dq_cidx ?q)) mod n = length H - ?C"
    using ring_distance [OF ring(2,3)] ring(2,4,5) by (metis add_diff_cancel_left')
  have lt: "unat (dq_pidx ?q) < n" "unat (dq_cidx ?q) < n" unfolding ring(4,5) using i(3) by simp_all
  have tl: "cb_offset (dw_req w r) = 0" if r: "r \<in> set (tl (dq_work_list ?q))" for r
  proof -
    have "r \<in> set (dq_work_list ?q)" using r by (cases "dq_work_list ?q") auto
    then have wk: "work_ok db byte (R r) (dw_req w r) (seg r)" and "seg r = []" using i(7) r by (auto simp: req_inv_def)
    then have "map (byte (R r)) [0..<unat (cb_offset (dw_req w r))] = []" by (simp add: work_ok_def)
    then show ?thesis by (simp add: word_unat_eq_iff)
  qed
  have reqs: "distinct (fin @ dq_pend_list ?q @ dq_work_list ?q)"
    "\<forall>r \<in> set (dq_pend_list ?q). cb_offset (dw_req w r) = req_count (dw_req w r)"
    "\<forall>r \<in> set (dq_work_list ?q). cb_offset (dw_req w r) \<le> req_count (dw_req w r)"
    using i(7) by (auto simp: req_inv_def same_request_def work_ok_def)
  show ?thesis
    unfolding queue_well_formed_def Let_def i(1,2,11)
    using ring(1,6) dist lt i(2,13) reqs tl by (simp add: word_less_nat_alt)
qed

text \<open>
  C13: The variables of a queue fit together in every state that submissions, processing and services reach on a
  started queue, memory mapped or a host-to-card stream: both indices lie in the ring, the room in it is what lies
  between them, one descriptor is always left free, a request is told, pending or at work but never two of these nor
  twice, the pending ones are in the ring with all their bytes, and only the first one at work has been begun. Every request is submitted once and is one a queue
  accepts: its count is the sum of the lengths of its scatter list and below \<open>2
  ^ 31\<close>, no entry is empty (but a request of length zero has one empty entry); for a memory mapped queue the
  aperture, if there is one, is a power of two below \<open>2 ^ 28\<close> and two of it fit above the end point
  address; for a host-to-card stream the packet size in that address is not zero. The driver checks none of this; for
  a request that breaks it the statement may fail, as C27 shows for one without scatter list entries. The ring has 2
  to 65536 descriptors.
\<close>
theorem qdma_queue_types:
  assumes "descq_hardware io n ann rep moved" and "fresh_queue n w" and "n = unat (ring_sz - 1)" "1 < n" "n \<le> 2 ^ 16"
    and "ann (dw_dev w) = 0" "rep (dw_dev w) = 0" "moved (dw_dev w) = []"
    and "qc = (dq_conf (dw_q w))\<lparr>qc_rngsz := ring_sz - 1\<rparr>" and "qc_st qc \<longrightarrow> qc_q_type qc = Q_H2C"
    and "q_run io pm (queue_start ring_sz irq_en w) rs w1" and "\<forall>(r, rq) \<in> set rs. accepts qc rq"
  shows "queue_well_formed w1"
  using started_run_inv [OF assms] run_inv_well_formed by blast

theorem qdma_queue_types_witness: "queue_well_formed (sim_submitted LEGACY_INTR_MODE)"
  by (rule qdma_queue_types [OF sim_queue.registers.descq_hardware_axioms sim_fresh(1) _ _ _ sim_fresh(3-5) refl _ sim_submitted_run])
    (use sim_accepts in \<open>auto simp: sim_fresh sim_conf_def\<close>)

text \<open>
  C12: The processing of a queue returns when its requests are ones it accepts. Its loop over the work list has no
  bound of its own, and runs with the lock of the queue held; from every state that submissions, processing and
  services reach on a started queue, memory mapped or a host-to-card stream, with hardware that works on as it likes
  and registers that may refuse a write, the processing function and the service come to an end. Every request is submitted once and is one a queue
  accepts: its count is the sum of the lengths of its scatter list and below \<open>2 ^
  31\<close>, no entry is empty (but a request of length zero has one empty entry); for a memory mapped queue the
  aperture, if there is one, is a power of two below \<open>2 ^ 28\<close> and two of it fit above the end point
  address; for a host-to-card stream the packet size in that address is not zero. The driver checks none of this; for
  a request that breaks it the statement may fail, as C27 shows for one without scatter list entries. The ring has 2
  to 65536 descriptors.
\<close>
theorem qdma_queue_returns:
  assumes "descq_hardware io n ann rep moved" and "fresh_queue n w" and "n = unat (ring_sz - 1)" "1 < n" "n \<le> 2 ^ 16"
    and "ann (dw_dev w) = 0" "rep (dw_dev w) = 0" "moved (dw_dev w) = []"
    and "qc = (dq_conf (dw_q w))\<lparr>qc_rngsz := ring_sz - 1\<rparr>" and "qc_st qc \<longrightarrow> qc_q_type qc = Q_H2C"
    and "q_run io pm (queue_start ring_sz irq_en w) rs w1" and "\<forall>(r, rq) \<in> set rs. accepts qc rq"
  shows "(\<exists>rv w2. qdma_descq_proc_sgt_request io w1 = Some (rv, w2)) \<and>
    (\<exists>rv w2. qdma_descq_service_cmpl_update io w1 = Some (rv, w2))"
proof -
  obtain H P where inv: "run_inv qc n ann rep moved (desc_bytes qc) (request_byte qc) rs H P w1"
    using started_run_inv [OF assms] by blast
  from descq_hardware.kind_returns [OF assms(1) inv assms(12,10)] show ?thesis .
qed

theorem qdma_queue_returns_witness:
  "(\<exists>rv w2. qdma_descq_proc_sgt_request (sim_io 4 0 5 0) (sim_submitted AUTO_MODE) = Some (rv, w2)) \<and>
    (\<exists>rv w2. qdma_descq_service_cmpl_update (sim_io 4 0 5 0) (sim_submitted AUTO_MODE) = Some (rv, w2))"
  by (rule qdma_queue_returns [OF sim_queue.registers.descq_hardware_axioms sim_fresh(1) _ _ _ sim_fresh(3-5) refl _ sim_submitted_run])
    (use sim_accepts in \<open>auto simp: sim_fresh sim_conf_def\<close>)

text \<open>
  C3: Services empty a queue. From every state that submissions, processing and services reach on a started queue
  whose producer index register announces descriptors, with hardware that works on, a bounded number of further
  services completes all requests, in the order they were submitted and without an error, and the hardware has moved
  exactly their bytes. This holds whether the driver polls or is interrupted, for memory mapped queues and for
  host-to-card streams. Every request is submitted once and is one a queue
  accepts: its count is the sum of the lengths of its
  scatter list and below \<open>2 ^ 31\<close>, no entry is empty (but a request of length zero has one empty entry);
  for a memory mapped queue the aperture, if there is one, is a power of two below \<open>2 ^ 28\<close> and two of it
  fit above the end point address; for a host-to-card stream the packet size in that address is not zero. The driver
  checks none of this; for a request that breaks it the statement may fail, as C27 shows for one without scatter list
  entries. The ring has 2 to 65536 descriptors. Fewer than \<open>2 ^ 32\<close> requests were submitted.
\<close>
theorem qdma_queue_drains:
  assumes "descq_registers mm cidx_status is_vf qid is_c2h n ann rep moved" and "io = register_io mm cidx_status is_vf qid is_c2h"
    and "fresh_queue n w" and "n = unat (ring_sz - 1)" "1 < n" "n \<le> 2 ^ 16"
    and "ann (dw_dev w) = 0" "rep (dw_dev w) = 0" "moved (dw_dev w) = []"
    and "qc = (dq_conf (dw_q w))\<lparr>qc_rngsz := ring_sz - 1\<rparr>" and "qc_st qc \<longrightarrow> qc_q_type qc = Q_H2C"
    and "q_run io pm (queue_start ring_sz irq_en w) rs w1" and "\<forall>(r, rq) \<in> set rs. accepts qc rq" and "length rs < 2 ^ 32"
  shows "\<exists>k w2. k \<le> 2 * left w1 + n \<and> services k io w1 = Some w2 \<and> finished (dw_events w2) = map fst rs \<and>
    (\<forall>r off err. FpDone r off err \<in> set (dw_events w2) \<longrightarrow> err = 0) \<and>
    concat (map (desc_bytes qc) (moved (dw_dev w2))) = requests_bytes (request_byte qc) rs"
proof -
  have "descq_hardware_live io n ann rep moved" unfolding assms(2) by (rule descq_registers.registers_live [OF assms(1)])
  from services_drain [OF this assms(3-14)] show ?thesis .
qed

theorem qdma_queue_drains_witness:
  "\<exists>k w2. k \<le> 34 \<and> services k (sim_io 4 0 5 0) (sim_submitted INDIRECT_INTR_MODE) = Some w2 \<and> finished (dw_events w2) = [1] \<and>
    (\<forall>r off err. FpDone r off err \<in> set (dw_events w2) \<longrightarrow> err = 0) \<and>
    concat (map (desc_bytes (sim_conf\<lparr>qc_rngsz := 5 - 1\<rparr>)) (ds_moved (dw_dev w2))) =
      requests_bytes (request_byte (sim_conf\<lparr>qc_rngsz := 5 - 1\<rparr>)) [(1, mapped_request sim_map sim_request)]"
proof -
  have left: "left (sim_submitted INDIRECT_INTR_MODE) = 15" by code_simp
  have "\<exists>k w2. k \<le> 2 * left (sim_submitted INDIRECT_INTR_MODE) + 4 \<and>
      services k (sim_io 4 0 5 0) (sim_submitted INDIRECT_INTR_MODE) = Some w2 \<and>
      finished (dw_events w2) = map fst [(1, mapped_request sim_map sim_request)] \<and>
      (\<forall>r off err. FpDone r off err \<in> set (dw_events w2) \<longrightarrow> err = 0) \<and>
      concat (map (desc_bytes (sim_conf\<lparr>qc_rngsz := 5 - 1\<rparr>)) (ds_moved (dw_dev w2))) =
        requests_bytes (request_byte (sim_conf\<lparr>qc_rngsz := 5 - 1\<rparr>)) [(1, mapped_request sim_map sim_request)]"
    by (rule qdma_queue_drains [OF sim_queue.descq_registers_axioms refl sim_fresh(1) _ _ _ sim_fresh(3-5) _ _ sim_submitted_run])
      (use sim_accepts in \<open>simp_all add: sim_fresh sim_conf_def\<close>)
  then show ?thesis by (simp add: left)
qed

end
