(* ===== verification/Queue_Ctxt.thy ===== *)
theory Queue_Ctxt
  imports Mbox_Isolation Descq
begin

section \<open>The contexts of a queue and of the interrupt ring (qdma\_context.c)\<close>

text \<open>
  To start a queue, the physical function clears the contexts of the queue, composes new ones from the queue's
  configuration and writes those through the table of hardware functions. A context of the interrupt ring tells the
  device which vector and which memory to use.
\<close>

unbundle bit_operations_syntax

subsection \<open>Error codes of the kernel (qdma\_platform.c)\<close>

definition EPERM :: int where [errno_defs]: "EPERM = 1"
definition ENOMEM :: int where [errno_defs]: "ENOMEM = 12"

definition error_code_map_list :: "(qdma_access_error_codes \<times> int) list" where
  "error_code_map_list =
     [(QDMA_SUCCESS, 0), (QDMA_ERR_INV_PARAM, EINVAL), (QDMA_ERR_NO_MEM, ENOMEM),
      (QDMA_ERR_HWACC_BUSY_TIMEOUT, EBUSY), (QDMA_ERR_HWACC_INV_CONFIG_BAR, EINVAL),
      (QDMA_ERR_HWACC_NO_PEND_LEGCY_INTR, EINVAL), (QDMA_ERR_HWACC_BAR_NOT_FOUND, EINVAL),
      (QDMA_ERR_HWACC_FEATURE_NOT_SUPPORTED, EINVAL), (QDMA_ERR_RM_RES_EXISTS, EPERM),
      (QDMA_ERR_RM_RES_NOT_EXISTS, EINVAL), (QDMA_ERR_RM_DEV_EXISTS, EPERM), (QDMA_ERR_RM_DEV_NOT_EXISTS, EINVAL),
      (QDMA_ERR_RM_NO_QUEUES_LEFT, EPERM), (QDMA_ERR_RM_QMAX_CONF_REJECTED, EPERM),
      (QDMA_ERR_MBOX_FMAP_WR_FAILED, EIO), (QDMA_ERR_MBOX_NUM_QUEUES, EINVAL), (QDMA_ERR_MBOX_INV_QID, EINVAL),
      (QDMA_ERR_MBOX_INV_RINGSZ, EINVAL), (QDMA_ERR_MBOX_INV_BUFSZ, EINVAL), (QDMA_ERR_MBOX_INV_CNTR_TH, EINVAL),
      (QDMA_ERR_MBOX_INV_TMR_TH, EINVAL), (QDMA_ERR_MBOX_INV_MSG, EINVAL), (QDMA_ERR_MBOX_SEND_BUSY, EBUSY),
      (QDMA_ERR_MBOX_NO_MSG_IN, EINVAL), (QDMA_ERR_MBOX_REG_READ_FAILED, EIO), (QDMA_ERR_MBOX_ALL_ZERO_MSG, EINVAL)]"

text \<open>The table is indexed by the negated code; every code the accesses return is inside it.\<close>

definition qdma_get_err_code :: "int \<Rightarrow> int" where
  "qdma_get_err_code acc_err_code = - snd (error_code_map_list ! nat (- acc_err_code))"

lemma error_code_map_in_order: "fst (error_code_map_list ! nat (err_code e)) = e"
  by (cases e) (simp_all add: error_code_map_list_def)

lemma get_err_code_eval:
  "qdma_get_err_code 0 = 0" "qdma_get_err_code (neg_err QDMA_ERR_INV_PARAM) = - EINVAL"
  "qdma_get_err_code (neg_err QDMA_ERR_HWACC_BUSY_TIMEOUT) = - EBUSY"
  by (simp_all add: qdma_get_err_code_def error_code_map_list_def)

lemma get_err_code_neg: "e \<noteq> QDMA_SUCCESS \<Longrightarrow> qdma_get_err_code (neg_err e) < 0"
  by (cases e) (simp_all add: qdma_get_err_code_def error_code_map_list_def errno_defs)

text \<open>A result that went through the table once has left its range of meaning: a second time, the kernel's busy is
  looked up as if it were the access code 16.\<close>

lemma get_err_code_twice:
  "qdma_get_err_code (- EBUSY) = - EINVAL" "qdma_get_err_code (- EINVAL) = - EBUSY"
  by (simp_all add: qdma_get_err_code_def error_code_map_list_def errno_defs)

text \<open>\<open>rv = f(); if (rv < 0) return hw.qdma_get_error_code(rv);\<close> and then the rest.\<close>

definition then_err :: "int \<times> 's \<Rightarrow> ('s \<Rightarrow> int \<times> 's) \<Rightarrow> int \<times> 's" where
  "then_err r k = (if fst r < 0 then (qdma_get_err_code (fst r), snd r) else k (snd r))"

lemma then_err_ok [simp]: "then_err (0, s) k = k s"
  by (simp add: then_err_def)

subsection \<open>Structures\<close>

text \<open>The ring of interrupts of a vector, with the memory it is in as a list of entries.\<close>

record intr_coal_conf =
  ic_vec_id :: u16
  ic_num_entries :: u16
  ic_intr_ring_bus :: u64
  ic_ring_base :: "u64 list"
  ic_color :: u8
  ic_cidx_info :: qdma_intr_cidx_reg_info

text \<open>
  The device: the mode comes from its configuration, the capabilities are the attributes read from it, and of the queue
  book-keeping only the number of its first queue is used, when there is one.
\<close>

record xlnx_dma_dev =
  xd_drv_mode :: qdma_drv_mode
  xd_intr_rngsz :: u8
  xd_func_id :: u16
  xd_dvec_start_idx :: int
  xd_intr_coal_list :: "intr_coal_conf list"
  xd_dev_cap :: qdma_dev_attributes
  xd_num_vecs :: int
  xd_msix :: "u16 list"
  xd_cpm4 :: bool
  xd_qdev :: "u16 option"
  xd_prev_descq :: "(bool \<times> u64) option"

text \<open>The members of a queue and of its configuration that only the contexts use; bit fields keep their width.\<close>

record qdma_descq_hw = qdma_descq +
  dh_irq_en :: "1 word"
  dh_desc_rng_sz_idx :: "4 word"
  dh_wb_status_en :: "1 word"
  dh_cmpl_status_acc_en :: "1 word"
  dh_cmpl_status_pend_chk :: "1 word"
  dh_pfetch_en :: "1 word"
  dh_fetch_credit :: "1 word"
  dh_c2h_buf_sz_idx :: "4 word"
  dh_cmpl_rng_sz_idx :: "4 word"
  dh_cmpl_desc_sz :: "2 word"
  dh_cmpl_stat_en :: "1 word"
  dh_cmpl_timer_idx :: "4 word"
  dh_cmpl_cnt_th_idx :: "4 word"
  dh_cmpl_trig_mode :: "3 word"
  dh_cmpl_en_intr :: "1 word"
  dh_sw_desc_sz :: "2 word"
  dh_pfetch_bypass :: "1 word"
  dh_cmpl_ovf_chk_dis :: "1 word"
  dh_adaptive_rx :: "1 word"
  dh_channel :: u8
  dh_qidx_hw :: u32
  dh_intr_id :: int
  dh_desc_bus :: u64
  dh_desc_cmpt_bus :: u64

record qdma_qid2vec =
  qv_c2h_vector :: u8
  qv_c2h_en_coal :: u8
  qv_h2c_vector :: u8
  qv_h2c_en_coal :: u8

record qdma_descq_context =
  qx_qid2vec :: qdma_qid2vec
  qx_fmap :: qdma_fmap_cfg
  qx_sw :: qdma_descq_sw_ctxt
  qx_hw :: qdma_descq_hw_ctxt
  qx_cr :: qdma_descq_credit_ctxt
  qx_pfetch :: qdma_descq_prefetch_ctxt
  qx_cmpt :: qdma_descq_cmpt_ctxt

definition qid2vec_zero :: qdma_qid2vec where
  "qid2vec_zero = \<lparr>qv_c2h_vector = 0, qv_c2h_en_coal = 0, qv_h2c_vector = 0, qv_h2c_en_coal = 0\<rparr>"

definition hw_ctxt_zero :: qdma_descq_hw_ctxt where
  "hw_ctxt_zero = \<lparr>hw_cidx = 0, hw_crd_use = 0, hw_dsc_pend = 0, hw_idl_stp_b = 0, hw_evt_pnd = 0, hw_fetch_pnd = 0\<rparr>"

definition credit_ctxt_zero :: qdma_descq_credit_ctxt where
  "credit_ctxt_zero = \<lparr>cr_credit = 0\<rparr>"

definition context_zero :: qdma_descq_context where
  "context_zero =
     \<lparr>qx_qid2vec = qid2vec_zero, qx_fmap = fmap_zero, qx_sw = sw_ctxt_zero, qx_hw = hw_ctxt_zero,
      qx_cr = credit_ctxt_zero, qx_pfetch = pfetch_ctxt_zero, qx_cmpt = cmpt_ctxt_zero\<rparr>"

text \<open>The number of a queue type, which the table of functions takes for the direction.\<close>

fun queue_type_code :: "queue_type_t \<Rightarrow> u8" where
  "queue_type_code Q_H2C = 0"
| "queue_type_code Q_C2H = 1"
| "queue_type_code Q_CMPT = 2"
| "queue_type_code Q_H2C_C2H = 3"

subsection \<open>Composing contexts\<close>

definition QDMA_NUM_DATA_VEC_FOR_INTR_CXT :: nat where "QDMA_NUM_DATA_VEC_FOR_INTR_CXT = 1"

definition DESC_SZ_8B :: u8 where "DESC_SZ_8B = 0"
definition DESC_SZ_16B :: u8 where "DESC_SZ_16B = 1"
definition DESC_SZ_32B :: u8 where "DESC_SZ_32B = 2"
definition DESC_SZ_64B :: u8 where "DESC_SZ_64B = 3"

definition aggregated :: "xlnx_dma_dev \<Rightarrow> bool" where
  "aggregated xdev \<longleftrightarrow> xd_drv_mode xdev = INDIRECT_INTR_MODE \<or> xd_drv_mode xdev = AUTO_MODE"

text \<open>The arithmetic is that of a 32-bit word, because the vector is one; the result is an \<open>int\<close>.\<close>

definition get_intr_ring_index :: "xlnx_dma_dev \<Rightarrow> u32 \<Rightarrow> int" where
  "get_intr_ring_index xdev vector_index =
     sint (vector_index - word_of_int (xd_dvec_start_idx xdev) +
       ucast (xd_func_id xdev) * of_nat QDMA_NUM_DATA_VEC_FOR_INTR_CXT)"

definition make_intr_context :: "xlnx_dma_dev \<Rightarrow> qdma_indirect_intr_ctxt list \<Rightarrow> int \<times> qdma_indirect_intr_ctxt list" where
  "make_intr_context xdev ctxt =
     (if \<not> aggregated xdev then (- EINVAL, ctxt)
      else (0, map (\<lambda>i. let entry = xd_intr_coal_list xdev ! i
         in (ctxt ! i)\<lparr>in_valid := 1, in_vec := ic_vec_id entry, in_baddr_4k := ic_intr_ring_bus entry,
              in_color := ic_color entry, in_page_size := xd_intr_rngsz xdev, in_func_id := xd_func_id xdev\<rparr>)
         [0..<QDMA_NUM_DATA_VEC_FOR_INTR_CXT]))"

text \<open>
  \<open>sw_ctxt->is_mm = ~conf.st\<close> stores the low byte of the complement of a bit, 0xFF or 0xFE.
\<close>

definition st_c2h :: "qdma_descq_hw \<Rightarrow> bool" where
  "st_c2h d \<longleftrightarrow> qc_st (dq_conf d) \<and> qc_q_type (dq_conf d) = Q_C2H"

definition sw_vector :: "xlnx_dma_dev \<Rightarrow> qdma_descq_hw \<Rightarrow> qdma_descq_sw_ctxt \<Rightarrow> qdma_descq_sw_ctxt" where
  "sw_vector xdev d c =
     (if aggregated xdev
      then c\<lparr>sw_vec := word_of_int (get_intr_ring_index xdev (word_of_int (dh_intr_id d))), sw_intr_aggr := 1\<rparr>
      else c\<lparr>sw_vec := word_of_int (dh_intr_id d)\<rparr>)"

definition sw_desc_kind :: "qdma_descq_hw \<Rightarrow> qdma_descq_sw_ctxt \<Rightarrow> qdma_descq_sw_ctxt" where
  "sw_desc_kind d c =
     (if qc_desc_bypass (dq_conf d) \<and> ucast (dh_sw_desc_sz d) = DESC_SZ_64B
      then c\<lparr>sw_desc_sz := ucast (dh_sw_desc_sz d)\<rparr>
      else if \<not> qc_st (dq_conf d) then c\<lparr>sw_desc_sz := DESC_SZ_32B, sw_mm_chn := dh_channel d\<rparr>
      else if qc_q_type (dq_conf d) = Q_C2H then c\<lparr>sw_frcd_en := ucast (dh_fetch_credit d), sw_desc_sz := DESC_SZ_8B\<rparr>
      else if qc_q_type (dq_conf d) = Q_H2C then c\<lparr>sw_frcd_en := ucast (dh_fetch_credit d), sw_desc_sz := DESC_SZ_16B\<rparr>
      else c\<lparr>sw_desc_sz := DESC_SZ_16B\<rparr>)"

definition make_sw_context :: "xlnx_dma_dev \<Rightarrow> qdma_descq_hw \<Rightarrow> qdma_descq_sw_ctxt" where
  "make_sw_context xdev d =
     (let c1 = (sw_vector xdev d sw_ctxt_zero)
            \<lparr>sw_ring_bs_addr := dh_desc_bus d, sw_wbi_chk := ucast (dh_cmpl_status_pend_chk d),
             sw_wbi_intvl_en := ucast (dh_cmpl_status_acc_en d), sw_rngsz_idx := ucast (dh_desc_rng_sz_idx d),
             sw_bypass := of_bool (qc_desc_bypass (dq_conf d)), sw_wbk_en := ucast (dh_wb_status_en d),
             sw_irq_en := ucast (dh_irq_en d), sw_is_mm := NOT (of_bool (qc_st (dq_conf d))), sw_qen := 1\<rparr>;
          c2 = (sw_desc_kind d c1)\<lparr>sw_fnc_id := ucast (xd_func_id xdev), sw_irq_arm := ucast (dh_irq_en d)\<rparr>;
          c3 = (if st_c2h d then c2\<lparr>sw_irq_en := 0, sw_irq_arm := 0, sw_wbk_en := 0, sw_wbi_chk := 0\<rparr> else c2)
      in if \<not> qc_desc_bypass (dq_conf d) \<and> (\<not> qc_st (dq_conf d) \<or> qc_q_type (dq_conf d) = Q_H2C)
         then c3\<lparr>sw_mrkr_dis := 1\<rparr> else c3)"

definition make_qid2vec_context :: "xlnx_dma_dev \<Rightarrow> qdma_descq_hw \<Rightarrow> qdma_qid2vec" where
  "make_qid2vec_context xdev d =
     (let (vec_num, en_coal) = (if aggregated xdev
            then (word_of_int (get_intr_ring_index xdev (word_of_int (dh_intr_id d))), 1)
            else (word_of_int (dh_intr_id d) :: u32, 0))
      in case qc_q_type (dq_conf d) of
        Q_C2H \<Rightarrow> qid2vec_zero\<lparr>qv_c2h_en_coal := en_coal, qv_c2h_vector := ucast vec_num\<rparr>
      | Q_H2C \<Rightarrow> qid2vec_zero\<lparr>qv_h2c_en_coal := en_coal, qv_h2c_vector := ucast vec_num\<rparr>
      | _ \<Rightarrow> qid2vec_zero)"

definition make_prefetch_context :: "qdma_descq_hw \<Rightarrow> qdma_descq_prefetch_ctxt" where
  "make_prefetch_context d = pfetch_ctxt_zero\<lparr>pf_valid := 1, pf_bypass := ucast (dh_pfetch_bypass d),
     pf_bufsz_idx := ucast (dh_c2h_buf_sz_idx d), pf_pfch_en := ucast (dh_pfetch_en d)\<rparr>"

definition make_cmpt_context :: "xlnx_dma_dev \<Rightarrow> qdma_descq_hw \<Rightarrow> qdma_descq_cmpt_ctxt" where
  "make_cmpt_context xdev d =
     (let c = cmpt_ctxt_zero
            \<lparr>cm_en_stat_desc := ucast (dh_cmpl_stat_en d), cm_en_int := ucast (dh_cmpl_en_intr d),
             cm_trig_mode := ucast (dh_cmpl_trig_mode d), cm_fnc_id := ucast (xd_func_id xdev),
             cm_timer_idx := ucast (dh_cmpl_timer_idx d), cm_counter_idx := ucast (dh_cmpl_cnt_th_idx d), cm_color := 1,
             cm_ringsz_idx := ucast (dh_cmpl_rng_sz_idx d), cm_bs_addr := dh_desc_cmpt_bus d,
             cm_desc_sz := ucast (dh_cmpl_desc_sz d), cm_full_upd := ucast (dh_adaptive_rx d), cm_valid := 1,
             cm_ovf_chk_dis := ucast (dh_cmpl_ovf_chk_dis d)\<rparr>
      in if aggregated xdev
         then c\<lparr>cm_vec := word_of_int (get_intr_ring_index xdev (word_of_int (dh_intr_id d))), cm_int_aggr := 1\<rparr>
         else c\<lparr>cm_vec := word_of_int (dh_intr_id d)\<rparr>)"

subsection \<open>Clearing, programming and reading the contexts of a queue\<close>

text \<open>Completion contexts belong to card-to-host streams and to completion queues of memory mapped ones.\<close>

definition has_cmpt :: "bool \<Rightarrow> queue_type_t \<Rightarrow> bool" where
  "has_cmpt st type \<longleftrightarrow> (st \<and> type = Q_C2H) \<or> (\<not> st \<and> type = Q_CMPT)"

definition clear_cmpt :: "'s qdma_hw_access \<Rightarrow> u16 \<Rightarrow> bool \<Rightarrow> queue_type_t \<Rightarrow> qdma_hw_access_type \<Rightarrow> 's \<Rightarrow> int \<times> 's" where
  "clear_cmpt hw q st type acc s =
     (if has_cmpt st type then then_err (no_ctxt (hw_cmpt_ctx_conf hw q None acc s)) (\<lambda>s1. (0, s1)) else (0, s))"

text \<open>The source writes out the two kinds of access in two branches that differ in nothing else.\<close>

definition qdma_descq_context_clear ::
    "'s qdma_hw_access \<Rightarrow> u32 \<Rightarrow> bool \<Rightarrow> queue_type_t \<Rightarrow> bool \<Rightarrow> 's \<Rightarrow> int \<times> 's" where
  "qdma_descq_context_clear hw qid_hw st type clr s =
     (let acc = (if clr then QDMA_HW_ACCESS_CLEAR else QDMA_HW_ACCESS_INVALIDATE);
          q = ucast qid_hw :: u16; c = queue_type_code type
      in if type \<noteq> Q_CMPT then
           then_err (no_ctxt (hw_sw_ctx_conf hw c q None acc s)) (\<lambda>s1.
           then_err (no_ctxt (hw_hw_ctx_conf hw c q None acc s1)) (\<lambda>s2.
           then_err (no_ctxt (hw_credit_ctx_conf hw c q None acc s2)) (\<lambda>s3.
             if st \<and> type = Q_C2H
             then then_err (no_ctxt (hw_pfetch_ctx_conf hw q None acc s3)) (clear_cmpt hw q st type acc)
             else clear_cmpt hw q st type acc s3)))
         else clear_cmpt hw q st type acc s)"

text \<open>
  The functions of the table that write the vector of a queue and that this model of the table does not hold are an
  argument; the result of the call is not looked at.
\<close>

type_synonym 's qid2vec_conf = "u8 \<Rightarrow> u16 \<Rightarrow> qdma_qid2vec \<Rightarrow> 's \<Rightarrow> int \<times> 's"

definition write_qid2vec :: "'s qid2vec_conf \<Rightarrow> xlnx_dma_dev \<Rightarrow> u8 \<Rightarrow> u16 \<Rightarrow> qdma_qid2vec \<Rightarrow> 's \<Rightarrow> 's" where
  "write_qid2vec q2v xdev c q v s =
     (if da_qid2vec_ctx (xd_dev_cap xdev) \<noteq> 0 \<and> xd_drv_mode xdev \<noteq> POLL_MODE then snd (q2v c q v s) else s)"

definition write_cmpt :: "'s qdma_hw_access \<Rightarrow> u16 \<Rightarrow> bool \<Rightarrow> queue_type_t \<Rightarrow> qdma_descq_context \<Rightarrow> 's \<Rightarrow> int \<times> 's" where
  "write_cmpt hw q st type x s =
     (if has_cmpt st type
      then then_err (no_ctxt (hw_cmpt_ctx_conf hw q (Some (qx_cmpt x)) QDMA_HW_ACCESS_WRITE s)) (\<lambda>s1. (0, s1))
      else (0, s))"

definition qdma_descq_context_program :: "'s qdma_hw_access \<Rightarrow> 's qid2vec_conf \<Rightarrow> xlnx_dma_dev \<Rightarrow> u32 \<Rightarrow> bool \<Rightarrow>
    queue_type_t \<Rightarrow> qdma_descq_context \<Rightarrow> 's \<Rightarrow> int \<times> 's" where
  "qdma_descq_context_program hw q2v xdev qid_hw st type x s =
     (let q = ucast qid_hw :: u16; c = queue_type_code type
      in then_err (qdma_descq_context_clear hw qid_hw st type True s) (\<lambda>s1.
         if type \<noteq> Q_CMPT then
           then_err (no_ctxt (hw_sw_ctx_conf hw c q (Some (qx_sw x)) QDMA_HW_ACCESS_WRITE s1)) (\<lambda>s2.
             let s3 = write_qid2vec q2v xdev c q (qx_qid2vec x) s2
             in if st \<and> type \<noteq> Q_H2C
                then then_err (no_ctxt (hw_pfetch_ctx_conf hw q (Some (qx_pfetch x)) QDMA_HW_ACCESS_WRITE s3))
                  (write_cmpt hw q st type x)
                else write_cmpt hw q st type x s3)
         else write_cmpt hw q st type x s1))"

definition context_of :: "xlnx_dma_dev \<Rightarrow> qdma_descq_hw \<Rightarrow> qdma_descq_context" where
  "context_of xdev d =
     (let st = qc_st (dq_conf d); type = qc_q_type (dq_conf d);
          x1 = (if type \<noteq> Q_CMPT then context_zero
              \<lparr>qx_sw := make_sw_context xdev d,
               qx_qid2vec := (if da_qid2vec_ctx (xd_dev_cap xdev) \<noteq> 0 \<and> xd_drv_mode xdev \<noteq> POLL_MODE
                 then make_qid2vec_context xdev d else qid2vec_zero),
               qx_pfetch := (if st \<and> type = Q_C2H then make_prefetch_context d else pfetch_ctxt_zero)\<rparr>
            else context_zero)
      in if has_cmpt st type then x1\<lparr>qx_cmpt := make_cmpt_context xdev d\<rparr> else x1)"

definition qdma_descq_context_setup ::
    "'s qdma_hw_access \<Rightarrow> 's qid2vec_conf \<Rightarrow> xlnx_dma_dev \<Rightarrow> qdma_descq_hw \<Rightarrow> 's \<Rightarrow> int \<times> 's" where
  "qdma_descq_context_setup hw q2v xdev d s =
     qdma_descq_context_program hw q2v xdev (dh_qidx_hw d) (qc_st (dq_conf d)) (qc_q_type (dq_conf d)) (context_of xdev d) s"

text \<open>A read stores what it got; when it fails, the caller sees what was read so far.\<close>

definition read_into :: "('c \<Rightarrow> 'x \<Rightarrow> 'x) \<Rightarrow> 'x \<Rightarrow> int \<times> 'c option \<times> 's \<Rightarrow> ('x \<Rightarrow> 's \<Rightarrow> int \<times> 'x \<times> 's) \<Rightarrow> int \<times> 'x \<times> 's" where
  "read_into put x r k =
     (let (rv, c, s1) = r; x1 = (case c of Some v \<Rightarrow> put v x | None \<Rightarrow> x)
      in if rv < 0 then (qdma_get_err_code rv, x1, s1) else k x1 s1)"

definition read_cmpt :: "'s qdma_hw_access \<Rightarrow> u16 \<Rightarrow> bool \<Rightarrow> queue_type_t \<Rightarrow> qdma_descq_context \<Rightarrow> 's \<Rightarrow>
    int \<times> qdma_descq_context \<times> 's" where
  "read_cmpt hw q st type x s =
     (if has_cmpt st type
      then read_into (\<lambda>v. qx_cmpt_update (\<lambda>_. v)) x (hw_cmpt_ctx_conf hw q (Some (qx_cmpt x)) QDMA_HW_ACCESS_READ s)
        (\<lambda>x s. (0, x, s))
      else (0, x, s))"

definition qdma_descq_context_read ::
    "'s qdma_hw_access \<Rightarrow> xlnx_dma_dev \<Rightarrow> u32 \<Rightarrow> bool \<Rightarrow> queue_type_t \<Rightarrow> 's \<Rightarrow> int \<times> qdma_descq_context \<times> 's" where
  "qdma_descq_context_read hw xdev qid_hw st type s =
     (let q = ucast qid_hw :: u16; c = queue_type_code type; x0 = context_zero
      in if type \<noteq> Q_CMPT then
           read_into (\<lambda>v. qx_sw_update (\<lambda>_. v)) x0
             (hw_sw_ctx_conf hw c q (Some (qx_sw x0)) QDMA_HW_ACCESS_READ s) (\<lambda>x1 s1.
           read_into (\<lambda>v. qx_hw_update (\<lambda>_. v)) x1
             (hw_hw_ctx_conf hw c q (Some (qx_hw x1)) QDMA_HW_ACCESS_READ s1) (\<lambda>x2 s2.
           read_into (\<lambda>v. qx_cr_update (\<lambda>_. v)) x2
             (hw_credit_ctx_conf hw c q (Some (qx_cr x2)) QDMA_HW_ACCESS_READ s2) (\<lambda>x3 s3.
           read_into (\<lambda>v. qx_fmap_update (\<lambda>_. v)) x3
             (hw_fmap_conf hw (xd_func_id xdev) (Some (qx_fmap x3)) QDMA_HW_ACCESS_READ s3) (\<lambda>x4 s4.
           if st \<and> type \<noteq> Q_H2C
           then read_into (\<lambda>v. qx_pfetch_update (\<lambda>_. v)) x4
             (hw_pfetch_ctx_conf hw q (Some (qx_pfetch x4)) QDMA_HW_ACCESS_READ s4) (read_cmpt hw q st type)
           else read_cmpt hw q st type x4 s4))))
         else read_cmpt hw q st type x0 s)"

subsection \<open>The contexts of the interrupt ring\<close>

definition write_intr :: "'s qdma_hw_access \<Rightarrow> int \<Rightarrow> qdma_indirect_intr_ctxt \<Rightarrow> 's \<Rightarrow> int \<times> 's" where
  "write_intr hw ring_index c s =
     no_ctxt (hw_indirect_intr_ctx_conf hw (word_of_int ring_index) (Some c) QDMA_HW_ACCESS_WRITE s)"

text \<open>A message with interrupt contexts: the first entries of its two arrays, as many as it says, in pairs.\<close>

fun qdma_prog_intr_context :: "'s qdma_hw_access \<Rightarrow> (u32 \<times> qdma_indirect_intr_ctxt) list \<Rightarrow> 's \<Rightarrow> int \<times> 's" where
  "qdma_prog_intr_context hw [] s = (0, s)"
| "qdma_prog_intr_context hw ((ring_index, c) # rest) s =
     then_err (write_intr hw (sint ring_index) c s) (qdma_prog_intr_context hw rest)"

fun intr_setup_from :: "'s qdma_hw_access \<Rightarrow> xlnx_dma_dev \<Rightarrow> nat \<Rightarrow> qdma_indirect_intr_ctxt list \<Rightarrow> 's \<Rightarrow> int \<times> 's" where
  "intr_setup_from hw xdev i [] s = (0, s)"
| "intr_setup_from hw xdev i (c # cs) s =
     (let ring_index = get_intr_ring_index xdev (word_of_int (int i + xd_dvec_start_idx xdev))
      in then_err (no_ctxt (hw_indirect_intr_ctx_conf hw (word_of_int ring_index) None QDMA_HW_ACCESS_CLEAR s)) (\<lambda>s1.
         then_err (write_intr hw ring_index c s1) (intr_setup_from hw xdev (Suc i) cs)))"

definition qdma_intr_context_setup :: "'s qdma_hw_access \<Rightarrow> xlnx_dma_dev \<Rightarrow> 's \<Rightarrow> int \<times> 's" where
  "qdma_intr_context_setup hw xdev s =
     (if \<not> aggregated xdev then (0, s)
      else (let (rv, ctxt) = make_intr_context xdev (replicate QDMA_NUM_DATA_VEC_FOR_INTR_CXT intr_ctxt_zero)
        in if rv < 0 then (rv, s) else intr_setup_from hw xdev 0 ctxt s))"

definition qdma_intr_context_read :: "'s qdma_hw_access \<Rightarrow> int \<Rightarrow> 's \<Rightarrow> int \<times> qdma_indirect_intr_ctxt \<times> 's" where
  "qdma_intr_context_read hw ring_index s =
     read_into (\<lambda>v _. v) intr_ctxt_zero
       (hw_indirect_intr_ctx_conf hw (word_of_int ring_index) (Some intr_ctxt_zero) QDMA_HW_ACCESS_READ s) (\<lambda>x s. (0, x, s))"

end
