(* ===== verification/Queue_Store.thy ===== *)
theory Queue_Store
  imports Queue_Ctxt
begin

section \<open>The device as a store of contexts\<close>

text \<open>
  Seen from above, a device is a store of contexts: one of each kind for each queue, with a direction for the kinds that
  have one. The contract of the table of functions says what each call does to the store. Starting a queue, reading its
  contexts and setting up the interrupt ring are proved against the contract; the EQDMA table meets it.
\<close>

subsection \<open>The store\<close>

record ctxt_store =
  cs_sw :: "bool \<Rightarrow> u32 \<Rightarrow> qdma_descq_sw_ctxt"
  cs_hw :: "bool \<Rightarrow> u32 \<Rightarrow> qdma_descq_hw_ctxt"
  cs_cr :: "bool \<Rightarrow> u32 \<Rightarrow> qdma_descq_credit_ctxt"
  cs_pfetch :: "u32 \<Rightarrow> qdma_descq_prefetch_ctxt"
  cs_cmpt :: "u32 \<Rightarrow> qdma_descq_cmpt_ctxt"
  cs_fmap :: "u32 \<Rightarrow> qdma_fmap_cfg"
  cs_intr :: "u32 \<Rightarrow> qdma_indirect_intr_ctxt"

definition put2 :: "bool \<Rightarrow> u32 \<Rightarrow> 'c \<Rightarrow> (bool \<Rightarrow> u32 \<Rightarrow> 'c) \<Rightarrow> bool \<Rightarrow> u32 \<Rightarrow> 'c" where
  "put2 c q v f = f(c := (f c)(q := v))"

definition put1 :: "u32 \<Rightarrow> 'c \<Rightarrow> (u32 \<Rightarrow> 'c) \<Rightarrow> u32 \<Rightarrow> 'c" where
  "put1 q v f = f(q := v)"

lemma put_same [simp]: "put2 c q v f c q = v" "put1 q v g q = v"
  by (simp_all add: put2_def put1_def)

lemma put_put [simp]: "put2 c q v (put2 c q u f) = put2 c q v f" "put1 q v (put1 q u g) = put1 q v g"
  by (simp_all add: put2_def put1_def)

text \<open>What clearing, writing and reading the contexts of a queue mean for the store.\<close>

definition cleared :: "u32 \<Rightarrow> bool \<Rightarrow> queue_type_t \<Rightarrow> ctxt_store \<Rightarrow> ctxt_store" where
  "cleared q st type cs =
     (let dir = type \<noteq> Q_H2C;
          cs1 = (if type = Q_CMPT then cs else
            cs\<lparr>cs_sw := put2 dir q sw_ctxt_zero (cs_sw cs), cs_hw := put2 dir q hw_ctxt_zero (cs_hw cs),
               cs_cr := put2 dir q credit_ctxt_zero (cs_cr cs)\<rparr>);
          cs2 = (if st \<and> type = Q_C2H then cs1\<lparr>cs_pfetch := put1 q pfetch_ctxt_zero (cs_pfetch cs1)\<rparr> else cs1)
      in if has_cmpt st type then cs2\<lparr>cs_cmpt := put1 q cmpt_ctxt_zero (cs_cmpt cs2)\<rparr> else cs2)"

definition programmed :: "u32 \<Rightarrow> bool \<Rightarrow> queue_type_t \<Rightarrow> qdma_descq_context \<Rightarrow> ctxt_store \<Rightarrow> ctxt_store" where
  "programmed q st type x cs =
     (let dir = type \<noteq> Q_H2C;
          cs1 = (if type = Q_CMPT then cs else
            cs\<lparr>cs_sw := put2 dir q (sw_ctxt_norm (qx_sw x)) (cs_sw cs), cs_hw := put2 dir q hw_ctxt_zero (cs_hw cs),
               cs_cr := put2 dir q credit_ctxt_zero (cs_cr cs)\<rparr>);
          cs2 = (if st \<and> type = Q_C2H
            then cs1\<lparr>cs_pfetch := put1 q (pfetch_ctxt_norm (qx_pfetch x)) (cs_pfetch cs1)\<rparr> else cs1)
      in if has_cmpt st type then cs2\<lparr>cs_cmpt := put1 q (cmpt_ctxt_norm (qx_cmpt x)) (cs_cmpt cs2)\<rparr> else cs2)"

definition contexts_at :: "u16 \<Rightarrow> u32 \<Rightarrow> bool \<Rightarrow> queue_type_t \<Rightarrow> ctxt_store \<Rightarrow> qdma_descq_context" where
  "contexts_at fid q st type cs =
     (let dir = type \<noteq> Q_H2C;
          x1 = (if type = Q_CMPT then context_zero else
            context_zero\<lparr>qx_sw := cs_sw cs dir q, qx_hw := cs_hw cs dir q, qx_cr := cs_cr cs dir q,
              qx_fmap := cs_fmap cs (ind_qid fid)\<rparr>);
          x2 = (if st \<and> type = Q_C2H then x1\<lparr>qx_pfetch := cs_pfetch cs q\<rparr> else x1)
      in if has_cmpt st type then x2\<lparr>qx_cmpt := cs_cmpt cs q\<rparr> else x2)"

definition intr_context_of :: "xlnx_dma_dev \<Rightarrow> qdma_indirect_intr_ctxt" where
  "intr_context_of xdev = (let entry = xd_intr_coal_list xdev ! 0
     in intr_ctxt_zero\<lparr>in_valid := 1, in_vec := ic_vec_id entry, in_baddr_4k := ic_intr_ring_bus entry,
       in_color := ic_color entry, in_page_size := xd_intr_rngsz xdev, in_func_id := xd_func_id xdev\<rparr>)"

definition put_intr :: "u16 \<Rightarrow> qdma_indirect_intr_ctxt \<Rightarrow> ctxt_store \<Rightarrow> ctxt_store" where
  "put_intr ring c cs = cs\<lparr>cs_intr := put1 (ind_qid ring) (intr_ctxt_norm c) (cs_intr cs)\<rparr>"

text \<open>With one ring for each function, the ring of a function has its number.\<close>

lemma ring_of_function: "get_intr_ring_index xdev (word_of_int (xd_dvec_start_idx xdev)) = uint (xd_func_id xdev)"
proof -
  have "uint (xd_func_id xdev) < 2 ^ 16" using uint_lt2p [of "xd_func_id xdev"] by simp
  then have "uint (ucast (xd_func_id xdev) :: u32) = uint (xd_func_id xdev)"
      and "uint (ucast (xd_func_id xdev) :: u32) < 2 ^ 31"
    by (simp_all add: unsigned_ucast_eq take_bit_int_eq_self)
  moreover have "sint w = uint w" if "uint w < 2 ^ 31" for w :: u32
    using that by (auto simp: sint_uint intro!: signed_take_bit_int_eq_self order_trans [OF _ uint_ge_0])
  ultimately show ?thesis
    by (simp add: get_intr_ring_index_def QDMA_NUM_DATA_VEC_FOR_INTR_CXT_def)
qed

text \<open>What a call that changes a context, and one that reads a context, comes to.\<close>

definition changes :: "('s \<Rightarrow> ctxt_store) \<Rightarrow> 's \<Rightarrow> int \<times> 'c option \<times> 's \<Rightarrow> (ctxt_store \<Rightarrow> ctxt_store) \<Rightarrow> bool" where
  "changes held s r f \<longleftrightarrow> fst r = 0 \<and> held (snd (snd r)) = f (held s)"

definition finds :: "('s \<Rightarrow> ctxt_store) \<Rightarrow> 's \<Rightarrow> int \<times> 'c option \<times> 's \<Rightarrow> 'c \<Rightarrow> bool" where
  "finds held s r v \<longleftrightarrow> fst r = 0 \<and> fst (snd r) = Some v \<and> held (snd (snd r)) = held s"

definition to :: "('s \<Rightarrow> ctxt_store) \<Rightarrow> int \<times> 's \<Rightarrow> ctxt_store \<Rightarrow> bool" where
  "to held r st \<longleftrightarrow> fst r = 0 \<and> held (snd r) = st"

lemma to_done [intro]: "held s = st \<Longrightarrow> to held (0, s) st"
  by (simp add: to_def)

lemma to_then:
  assumes "changes held s r f" and "\<And>s1. held s1 = f (held s) \<Longrightarrow> to held (k s1) st"
  shows "to held (then_err (no_ctxt r) k) st"
  using assms by (simp add: then_err_def no_ctxt_def changes_def)

lemma to_then_to:
  assumes "to held r st1" and "\<And>s1. held s1 = st1 \<Longrightarrow> to held (k s1) st"
  shows "to held (then_err r k) st"
  using assms by (simp add: then_err_def to_def)

lemma read_into_finds:
  assumes "finds held s r v"
  obtains s1 where "read_into put x r k = k (put v x) s1" and "held s1 = held s"
proof (rule that)
  show "read_into put x r k = k (put v x) (snd (snd r))"
    using assms by (cases r) (simp add: read_into_def finds_def)
qed (use assms in \<open>simp add: finds_def\<close>)

subsection \<open>The contract of the table\<close>

locale context_store =
  fixes hw :: "'s qdma_hw_access" and held :: "'s \<Rightarrow> ctxt_store"
  assumes sw_clear: "c \<le> 1 \<Longrightarrow> changes held s (hw_sw_ctx_conf hw c q None QDMA_HW_ACCESS_CLEAR s)
      (cs_sw_update (put2 (c \<noteq> 0) (ind_qid q) sw_ctxt_zero))"
    and sw_write: "c \<le> 1 \<Longrightarrow> changes held s (hw_sw_ctx_conf hw c q (Some sc) QDMA_HW_ACCESS_WRITE s)
      (cs_sw_update (put2 (c \<noteq> 0) (ind_qid q) (sw_ctxt_norm sc)))"
    and sw_read: "c \<le> 1 \<Longrightarrow> finds held s (hw_sw_ctx_conf hw c q (Some sc) QDMA_HW_ACCESS_READ s)
      (cs_sw (held s) (c \<noteq> 0) (ind_qid q))"
    and hw_clear: "c \<le> 1 \<Longrightarrow> changes held s (hw_hw_ctx_conf hw c q None QDMA_HW_ACCESS_CLEAR s)
      (cs_hw_update (put2 (c \<noteq> 0) (ind_qid q) hw_ctxt_zero))"
    and hw_read: "c \<le> 1 \<Longrightarrow> finds held s (hw_hw_ctx_conf hw c q (Some hc) QDMA_HW_ACCESS_READ s)
      (cs_hw (held s) (c \<noteq> 0) (ind_qid q))"
    and cr_clear: "c \<le> 1 \<Longrightarrow> changes held s (hw_credit_ctx_conf hw c q None QDMA_HW_ACCESS_CLEAR s)
      (cs_cr_update (put2 (c \<noteq> 0) (ind_qid q) credit_ctxt_zero))"
    and cr_read: "c \<le> 1 \<Longrightarrow> finds held s (hw_credit_ctx_conf hw c q (Some cc) QDMA_HW_ACCESS_READ s)
      (cs_cr (held s) (c \<noteq> 0) (ind_qid q))"
    and pf_clear: "changes held s (hw_pfetch_ctx_conf hw q None QDMA_HW_ACCESS_CLEAR s)
      (cs_pfetch_update (put1 (ind_qid q) pfetch_ctxt_zero))"
    and pf_write: "changes held s (hw_pfetch_ctx_conf hw q (Some pc) QDMA_HW_ACCESS_WRITE s)
      (cs_pfetch_update (put1 (ind_qid q) (pfetch_ctxt_norm pc)))"
    and pf_read: "finds held s (hw_pfetch_ctx_conf hw q (Some pc) QDMA_HW_ACCESS_READ s) (cs_pfetch (held s) (ind_qid q))"
    and cm_clear: "changes held s (hw_cmpt_ctx_conf hw q None QDMA_HW_ACCESS_CLEAR s)
      (cs_cmpt_update (put1 (ind_qid q) cmpt_ctxt_zero))"
    and cm_write: "cm_trig_mode mc \<le> QDMA_CMPT_UPDATE_TRIG_MODE_TMR_CNTR \<Longrightarrow> changes held s (hw_cmpt_ctx_conf hw q (Some mc) QDMA_HW_ACCESS_WRITE s)
      (cs_cmpt_update (put1 (ind_qid q) (cmpt_ctxt_norm mc)))"
    and cm_read: "finds held s (hw_cmpt_ctx_conf hw q (Some mc) QDMA_HW_ACCESS_READ s) (cs_cmpt (held s) (ind_qid q))"
    and fm_read: "finds held s (hw_fmap_conf hw fid (Some fc) QDMA_HW_ACCESS_READ s) (cs_fmap (held s) (ind_qid fid))"
    and in_clear: "changes held s (hw_indirect_intr_ctx_conf hw q None QDMA_HW_ACCESS_CLEAR s)
      (cs_intr_update (put1 (ind_qid q) intr_ctxt_zero))"
    and in_write: "changes held s (hw_indirect_intr_ctx_conf hw q (Some ic) QDMA_HW_ACCESS_WRITE s)
      (cs_intr_update (put1 (ind_qid q) (intr_ctxt_norm ic)))"
    and in_read: "finds held s (hw_indirect_intr_ctx_conf hw q (Some ic) QDMA_HW_ACCESS_READ s) (cs_intr (held s) (ind_qid q))"
begin

abbreviation one_way :: "queue_type_t \<Rightarrow> bool" where
  "one_way type \<equiv> type \<noteq> Q_H2C_C2H"

lemma clear_cmpt_to:
  assumes "(if has_cmpt st type then (held s)\<lparr>cs_cmpt := put1 (ind_qid q) cmpt_ctxt_zero (cs_cmpt (held s))\<rparr> else held s) = cs"
  shows "to held (clear_cmpt hw q st type QDMA_HW_ACCESS_CLEAR s) cs"
  using assms by (auto simp: clear_cmpt_def intro!: to_then [OF cm_clear])

lemma directions:
  assumes "one_way type" and "type \<noteq> Q_CMPT"
  shows "queue_type_code type \<le> 1" and "(queue_type_code type \<noteq> 0) = (type \<noteq> Q_H2C)"
  using assms by (cases type; simp)+

lemma context_clear_to:
  assumes "one_way type"
  shows "to held (qdma_descq_context_clear hw qid st type True s) (cleared (ind_qid (ucast qid)) st type (held s))"
proof -
  note steps = to_then [OF sw_clear] to_then [OF hw_clear] to_then [OF cr_clear] to_then [OF pf_clear] clear_cmpt_to
  show ?thesis
    unfolding qdma_descq_context_clear_def Let_def cleared_def
    by (insert assms, cases type; cases st; simp add: has_cmpt_def; intro steps; simp add: has_cmpt_def)
qed

lemma write_cmpt_to:
  assumes "(if has_cmpt st type then (held s)\<lparr>cs_cmpt := put1 (ind_qid q) (cmpt_ctxt_norm (qx_cmpt x)) (cs_cmpt (held s))\<rparr>
      else held s) = cs"
    and "has_cmpt st type \<Longrightarrow> cm_trig_mode (qx_cmpt x) \<le> QDMA_CMPT_UPDATE_TRIG_MODE_TMR_CNTR"
  shows "to held (write_cmpt hw q st type x s) cs"
  using assms by (auto simp: write_cmpt_def intro!: to_then [OF cm_write])

lemma write_qid2vec_held:
  assumes "da_qid2vec_ctx (xd_dev_cap xdev) = 0 \<or> (\<forall>c q v s. held (snd (q2v c q v s)) = held s)"
  shows "held (write_qid2vec q2v xdev c q v s) = held s"
  using assms by (auto simp: write_qid2vec_def)

lemma context_program_to:
  assumes "one_way type"
    and "has_cmpt st type \<Longrightarrow> cm_trig_mode (qx_cmpt x) \<le> QDMA_CMPT_UPDATE_TRIG_MODE_TMR_CNTR"
    and "da_qid2vec_ctx (xd_dev_cap xdev) = 0 \<or> (\<forall>c q v s. held (snd (q2v c q v s)) = held s)"
  shows "to held (qdma_descq_context_program hw q2v xdev qid st type x s)
    (programmed (ind_qid (ucast qid)) st type x (held s))"
proof -
  note steps = to_then [OF sw_write] to_then [OF pf_write] write_cmpt_to
  show ?thesis
    unfolding qdma_descq_context_program_def Let_def programmed_def
    by (rule to_then_to [OF context_clear_to [OF assms(1)]], insert assms(1,2), cases type; cases st; simp add: has_cmpt_def; intro steps;
      simp add: cleared_def Let_def has_cmpt_def write_qid2vec_held [OF assms(3)])
qed

text \<open>A read ends well, changes nothing and gives what is held.\<close>

definition "reads s r x \<longleftrightarrow> fst r = 0 \<and> fst (snd r) = x \<and> held (snd (snd r)) = held s"

lemma read_step:
  assumes "finds held s r v" and "\<And>s1. held s1 = held s \<Longrightarrow> reads s1 (k (put v x) s1) y"
  shows "reads s (read_into put x r k) y"
  by (rule read_into_finds [OF assms(1), of put x k]) (use assms(2) in \<open>auto simp: reads_def\<close>)

lemma read_cmpt_reads:
  assumes "(if has_cmpt st type then x\<lparr>qx_cmpt := cs_cmpt (held s) (ind_qid q)\<rparr> else x) = y"
  shows "reads s (read_cmpt hw q st type x s) y"
  using assms by (auto simp: read_cmpt_def reads_def intro!: read_step [OF cm_read, unfolded reads_def])

lemma context_read_reads:
  assumes "one_way type"
  shows "reads s (qdma_descq_context_read hw xdev qid st type s)
    (contexts_at (xd_func_id xdev) (ind_qid (ucast qid)) st type (held s))"
proof -
  note steps = read_step [OF sw_read] read_step [OF hw_read] read_step [OF cr_read] read_step [OF fm_read]
    read_step [OF pf_read] read_cmpt_reads
  show ?thesis
    unfolding qdma_descq_context_read_def Let_def contexts_at_def
    by (insert assms, cases type; cases st; simp add: has_cmpt_def; intro steps; simp add: has_cmpt_def)
qed

lemma write_intr_to:
  assumes "\<And>s1. held s1 = put_intr (word_of_int ring) c (held s) \<Longrightarrow> to held (k s1) cs"
  shows "to held (then_err (write_intr hw ring c s) k) cs"
  unfolding write_intr_def using assms by (intro to_then [OF in_write]) (simp add: put_intr_def)

lemma prog_intr_to:
  "to held (qdma_prog_intr_context hw msg s) (fold (\<lambda>(ring, c). put_intr (word_of_int (sint ring)) c) msg (held s))"
proof (induction msg arbitrary: s)
  case (Cons m msg)
  obtain ring c where m: "m = (ring, c)" by fastforce
  have "to held (qdma_prog_intr_context hw msg s1) (fold (\<lambda>(ring, c). put_intr (word_of_int (sint ring)) c) msg
      (put_intr (word_of_int (sint ring)) c (held s)))"
    if "held s1 = put_intr (word_of_int (sint ring)) c (held s)" for s1
    using Cons.IH [of s1] that by simp
  then show ?case unfolding m by (auto intro!: write_intr_to)
qed (simp add: to_done)

lemma intr_setup_to:
  assumes "aggregated xdev"
  shows "to held (qdma_intr_context_setup hw xdev s) (put_intr (xd_func_id xdev) (intr_context_of xdev) (held s))"
proof -
  have "make_intr_context xdev (replicate QDMA_NUM_DATA_VEC_FOR_INTR_CXT intr_ctxt_zero) = (0, [intr_context_of xdev])"
    using assms by (simp add: make_intr_context_def QDMA_NUM_DATA_VEC_FOR_INTR_CXT_def intr_context_of_def Let_def)
  then show ?thesis
    using assms
    by (auto simp: qdma_intr_context_setup_def ring_of_function put_intr_def
      intro!: to_then [OF in_clear] write_intr_to)
qed

lemma intr_read_reads:
  "reads s (qdma_intr_context_read hw ring s) (cs_intr (held s) (ind_qid (word_of_int ring)))"
  unfolding qdma_intr_context_read_def by (rule read_step [OF in_read]) (simp add: reads_def)

end

end
