(* ===== verification/Queue_Eqdma.thy ===== *)
theory Queue_Eqdma
  imports Queue_Store
begin

section \<open>The EQDMA device is a store of contexts\<close>

text \<open>
  The contexts of an EQDMA device are words behind the indirect access registers; the store that the contract speaks of
  is what unpacking finds in them. Each law follows from the effect of one indirect operation on the words.
\<close>

subsection \<open>The words of a context after an operation\<close>

definition words_at :: "ind_view \<Rightarrow> ind_ctxt_cmd_sel \<Rightarrow> u32 \<Rightarrow> nat \<Rightarrow> u32 list" where
  "words_at v sel q n = map (ctxts v (sel_code sel) q) [0..<n]"

lemma sel_code_inject [simp]: "sel_code a = sel_code b \<longleftrightarrow> a = b"
  by (cases a; cases b) simp_all

lemma words_after_clear:
  assumes "context_device mm view"
  shows "words_at (view (snd (eqdma_indirect_reg_clear mm sel q s))) sel' q' n =
    (if sel' = sel \<and> q' = ind_qid q then replicate n 0 else words_at (view s) sel' q' n)"
  by (simp add: words_at_def indirect_command_effect(1) [OF assms] map_replicate_const)

lemma words_after_write:
  assumes "context_device mm view" and "n \<le> 8"
  shows "words_at (view (snd (eqdma_indirect_reg_write mm sel q data s))) sel' q' n =
    (if sel' = sel \<and> q' = ind_qid q then map (padded data) [0..<n] else words_at (view s) sel' q' n)"
  using indirect_write_effect(1) [OF assms(1), where sel = sel and q = q and data = data and s = s]
    indirect_write_effect(2) [OF assms(1), where sel = sel and q = q and data = data and s = s] assms(2)
  by (auto simp: words_at_def)

lemma read_finds_words:
  assumes "context_device mm view" and "responsive mm" and "n \<le> 8"
  obtains s' where "eqdma_indirect_reg_read mm sel q n s = (Inr (words_at (view s) sel (ind_qid q) n), s')"
    and "ctxts (view s') = ctxts (view s)"
proof -
  obtain d s' where r: "eqdma_indirect_reg_read mm sel q n s = (Inr d, s')"
    using indirect_read_effect(2) [OF assms(1,3,2)] by blast
  then show ?thesis
    using indirect_read_effect(1) [OF assms(1,3), where sel = sel and q = q and s = s] that by (simp add: words_at_def)
qed

lemma clear_status: "responsive mm \<Longrightarrow> fst (eqdma_indirect_reg_clear mm sel q s) = 0"
  unfolding eqdma_indirect_reg_clear_def Let_def responsive_def by (auto split: prod.splits) (metis fst_conv)

lemmas write_status = indirect_write_effect(3)

subsection \<open>The store\<close>

definition eqdma_held :: "ind_view \<Rightarrow> ctxt_store" where
  "eqdma_held v =
     \<lparr>cs_sw = \<lambda>c q. sw_ctxt_dec (words_at v (if c then QDMA_CTXT_SEL_SW_C2H else QDMA_CTXT_SEL_SW_H2C) q EQDMA_SW_CONTEXT_NUM_WORDS),
      cs_hw = \<lambda>c q. hw_ctxt_dec (words_at v (if c then QDMA_CTXT_SEL_HW_C2H else QDMA_CTXT_SEL_HW_H2C) q EQDMA_HW_CONTEXT_NUM_WORDS),
      cs_cr = \<lambda>c q. credit_ctxt_dec (words_at v (if c then QDMA_CTXT_SEL_CR_C2H else QDMA_CTXT_SEL_CR_H2C) q EQDMA_CR_CONTEXT_NUM_WORDS),
      cs_pfetch = \<lambda>q. pfetch_ctxt_dec (words_at v QDMA_CTXT_SEL_PFTCH q EQDMA_PFETCH_CONTEXT_NUM_WORDS),
      cs_cmpt = \<lambda>q. cmpt_ctxt_dec (words_at v QDMA_CTXT_SEL_CMPT q EQDMA_CMPT_CONTEXT_NUM_WORDS),
      cs_fmap = \<lambda>q. fmap_dec (words_at v QDMA_CTXT_SEL_FMAP q EQDMA_FMAP_NUM_WORDS),
      cs_intr = \<lambda>q. intr_ctxt_dec (words_at v QDMA_CTXT_SEL_INT_COAL q EQDMA_IND_INTR_CONTEXT_NUM_WORDS)\<rparr>"

lemma eqdma_held_cong: "ctxts v = ctxts w \<Longrightarrow> eqdma_held v = eqdma_held w"
  by (simp add: eqdma_held_def words_at_def)

lemma hw_ctxt_zeros: "hw_ctxt_dec (replicate EQDMA_HW_CONTEXT_NUM_WORDS 0) = hw_ctxt_zero"
  by (simp add: hw_ctxt_dec_def hw_ctxt_zero_def EQDMA_HW_CONTEXT_NUM_WORDS_def FIELD_GET_zero numeral_2_eq_2)

lemma credit_ctxt_zeros: "credit_ctxt_dec (replicate EQDMA_CR_CONTEXT_NUM_WORDS 0) = credit_ctxt_zero"
  by (simp add: credit_ctxt_dec_def credit_ctxt_zero_def EQDMA_CR_CONTEXT_NUM_WORDS_def FIELD_GET_zero)

lemmas zero_words = sw_z.dec_zero hw_ctxt_zeros credit_ctxt_zeros pfetch_z.dec_zero cmpt_z.dec_zero intr_z.dec_zero

lemmas written_words = sw.pad_enc sw.dec_enc pfetch.pad_enc pfetch.dec_enc cmpt.pad_enc cmpt.dec_enc intr.pad_enc intr.dec_enc

lemmas ctx_words = EQDMA_HW_CONTEXT_NUM_WORDS_def EQDMA_CR_CONTEXT_NUM_WORDS_def

subsection \<open>The EQDMA table meets the contract\<close>

locale eqdma_ready = eqdma_device mm view read_reg_list
  for mm :: "'s mmio" and view :: "'s \<Rightarrow> ind_view"
    and read_reg_list :: "u8 \<Rightarrow> u16 \<Rightarrow> 's \<Rightarrow> int \<times> (u16 \<times> (u32 \<times> u32) list) option \<times> 's" +
  assumes responds: "responsive mm"
begin

lemmas after_clear = words_after_clear [OF device] clear_status [OF responds]
lemmas after_write = words_after_write [OF device] write_status [OF device responds]

end

text \<open>One operation on the words, as a change of the store.\<close>

fun put_words :: "ind_ctxt_cmd_sel \<Rightarrow> u32 \<Rightarrow> (nat \<Rightarrow> u32 list) \<Rightarrow> ctxt_store \<Rightarrow> ctxt_store" where
  "put_words QDMA_CTXT_SEL_SW_C2H q ws = cs_sw_update (put2 True q (sw_ctxt_dec (ws EQDMA_SW_CONTEXT_NUM_WORDS)))"
| "put_words QDMA_CTXT_SEL_SW_H2C q ws = cs_sw_update (put2 False q (sw_ctxt_dec (ws EQDMA_SW_CONTEXT_NUM_WORDS)))"
| "put_words QDMA_CTXT_SEL_HW_C2H q ws = cs_hw_update (put2 True q (hw_ctxt_dec (ws EQDMA_HW_CONTEXT_NUM_WORDS)))"
| "put_words QDMA_CTXT_SEL_HW_H2C q ws = cs_hw_update (put2 False q (hw_ctxt_dec (ws EQDMA_HW_CONTEXT_NUM_WORDS)))"
| "put_words QDMA_CTXT_SEL_CR_C2H q ws = cs_cr_update (put2 True q (credit_ctxt_dec (ws EQDMA_CR_CONTEXT_NUM_WORDS)))"
| "put_words QDMA_CTXT_SEL_CR_H2C q ws = cs_cr_update (put2 False q (credit_ctxt_dec (ws EQDMA_CR_CONTEXT_NUM_WORDS)))"
| "put_words QDMA_CTXT_SEL_PFTCH q ws = cs_pfetch_update (put1 q (pfetch_ctxt_dec (ws EQDMA_PFETCH_CONTEXT_NUM_WORDS)))"
| "put_words QDMA_CTXT_SEL_CMPT q ws = cs_cmpt_update (put1 q (cmpt_ctxt_dec (ws EQDMA_CMPT_CONTEXT_NUM_WORDS)))"
| "put_words QDMA_CTXT_SEL_FMAP q ws = cs_fmap_update (put1 q (fmap_dec (ws EQDMA_FMAP_NUM_WORDS)))"
| "put_words QDMA_CTXT_SEL_INT_COAL q ws = cs_intr_update (put1 q (intr_ctxt_dec (ws EQDMA_IND_INTR_CONTEXT_NUM_WORDS)))"
| "put_words _ q ws = id"

lemma put_dir: "put_words (if b then x else y) q ws = (if b then put_words x q ws else put_words y q ws)"
  by simp

lemma eqdma_held_put:
  assumes "\<And>sel' q' n. n \<le> 8 \<Longrightarrow> words_at w sel' q' n = (if sel' = sel \<and> q' = q then ws n else words_at v sel' q' n)"
  shows "eqdma_held w = put_words sel q ws (eqdma_held v)"
proof -
  have w: "words_at w sel' q' n = (if sel' = sel \<and> q' = q then ws n else words_at v sel' q' n)"
    if "n \<in> {EQDMA_SW_CONTEXT_NUM_WORDS, EQDMA_HW_CONTEXT_NUM_WORDS, EQDMA_CR_CONTEXT_NUM_WORDS, EQDMA_PFETCH_CONTEXT_NUM_WORDS,
      EQDMA_CMPT_CONTEXT_NUM_WORDS, EQDMA_FMAP_NUM_WORDS, EQDMA_IND_INTR_CONTEXT_NUM_WORDS}" for sel' q' n
    using that sw.words_fit pfetch.words_fit cmpt.words_fit intr.words_fit fmap.words_fit
    by (intro assms) (auto simp: ctx_words)
  show ?thesis
    by (cases sel; simp add: eqdma_held_def w put2_def put1_def; intro conjI ext; simp)
qed

text \<open>The laws, for each kind of context.\<close>

context eqdma_ready begin

abbreviation held_by :: "'s \<Rightarrow> ctxt_store" where
  "held_by s \<equiv> eqdma_held (view s)"

lemma held_clear: "held_by (snd (eqdma_indirect_reg_clear mm sel q s)) = put_words sel (ind_qid q) (\<lambda>n. replicate n 0) (held_by s)"
  by (rule eqdma_held_put) (simp add: after_clear)

lemma held_write:
  "held_by (snd (eqdma_indirect_reg_write mm sel q data s)) = put_words sel (ind_qid q) (\<lambda>n. map (padded data) [0..<n]) (held_by s)"
  by (rule eqdma_held_put) (simp add: after_write)

lemma reg_read:
  assumes "n \<le> 8"
  shows "fst (eqdma_indirect_reg_read mm sel q n s) = Inr (words_at (view s) sel (ind_qid q) n)"
    and "held_by (snd (eqdma_indirect_reg_read mm sel q n s)) = held_by s"
  using read_finds_words [OF device responds assms, where sel = sel and q = q and s = s]
  by (metis fst_conv, metis snd_conv eqdma_held_cong)

lemmas held_ops = held_clear held_write after_clear(2) after_write(2) put_dir

lemma clear_laws:
  "changes held_by s (eqdma_sw_ctx_conf mm True c q None QDMA_HW_ACCESS_CLEAR s)
     (cs_sw_update (put2 (c \<noteq> 0) (ind_qid q) sw_ctxt_zero))"
  "c \<le> 1 \<Longrightarrow> changes held_by s (eqdma_hw_ctx_conf mm True c q None QDMA_HW_ACCESS_CLEAR s)
     (cs_hw_update (put2 (c \<noteq> 0) (ind_qid q) hw_ctxt_zero))"
  "c \<le> 1 \<Longrightarrow> changes held_by s (eqdma_credit_ctx_conf mm True c q None QDMA_HW_ACCESS_CLEAR s)
     (cs_cr_update (put2 (c \<noteq> 0) (ind_qid q) credit_ctxt_zero))"
  "changes held_by s (eqdma_pfetch_ctx_conf mm True q None QDMA_HW_ACCESS_CLEAR s)
     (cs_pfetch_update (put1 (ind_qid q) pfetch_ctxt_zero))"
  "changes held_by s (eqdma_cmpt_ctx_conf mm True q None QDMA_HW_ACCESS_CLEAR s)
     (cs_cmpt_update (put1 (ind_qid q) cmpt_ctxt_zero))"
  "changes held_by s (eqdma_indirect_intr_ctx_conf mm True q None QDMA_HW_ACCESS_CLEAR s)
     (cs_intr_update (put1 (ind_qid q) intr_ctxt_zero))"
  by (simp_all add: changes_def eqdma_sw_ctx_conf_def eqdma_sw_context_clear_def eqdma_hw_ctx_conf_def
    eqdma_hw_context_clear_def eqdma_credit_ctx_conf_def eqdma_credit_context_clear_def eqdma_pfetch_ctx_conf_def
    eqdma_pfetch_context_clear_def eqdma_cmpt_ctx_conf_def eqdma_cmpt_context_clear_def eqdma_indirect_intr_ctx_conf_def
    eqdma_indirect_intr_context_clear_def Let_def case_prod_beta held_ops zero_words linorder_not_less)

lemma write_laws:
  "changes held_by s (eqdma_sw_ctx_conf mm True c q (Some sc) QDMA_HW_ACCESS_WRITE s)
     (cs_sw_update (put2 (c \<noteq> 0) (ind_qid q) (sw_ctxt_norm sc)))"
  "changes held_by s (eqdma_pfetch_ctx_conf mm True q (Some pc) QDMA_HW_ACCESS_WRITE s)
     (cs_pfetch_update (put1 (ind_qid q) (pfetch_ctxt_norm pc)))"
  "cm_trig_mode mc \<le> QDMA_CMPT_UPDATE_TRIG_MODE_TMR_CNTR \<Longrightarrow>
   changes held_by s (eqdma_cmpt_ctx_conf mm True q (Some mc) QDMA_HW_ACCESS_WRITE s)
     (cs_cmpt_update (put1 (ind_qid q) (cmpt_ctxt_norm mc)))"
  "changes held_by s (eqdma_indirect_intr_ctx_conf mm True q (Some ic) QDMA_HW_ACCESS_WRITE s)
     (cs_intr_update (put1 (ind_qid q) (intr_ctxt_norm ic)))"
  by (simp_all add: changes_def eqdma_sw_ctx_conf_def eqdma_sw_context_write_def eqdma_pfetch_ctx_conf_def
    eqdma_pfetch_context_write_def eqdma_cmpt_ctx_conf_def eqdma_cmpt_context_write_def eqdma_indirect_intr_ctx_conf_def
    eqdma_indirect_intr_context_write_def Let_def case_prod_beta held_ops written_words linorder_not_less)

lemma read_laws:
  "finds held_by s (eqdma_sw_ctx_conf mm True c q (Some sc) QDMA_HW_ACCESS_READ s) (cs_sw (held_by s) (c \<noteq> 0) (ind_qid q))"
  "c \<le> 1 \<Longrightarrow> finds held_by s (eqdma_hw_ctx_conf mm True c q (Some hc) QDMA_HW_ACCESS_READ s)
     (cs_hw (held_by s) (c \<noteq> 0) (ind_qid q))"
  "c \<le> 1 \<Longrightarrow> finds held_by s (eqdma_credit_ctx_conf mm True c q (Some cc) QDMA_HW_ACCESS_READ s)
     (cs_cr (held_by s) (c \<noteq> 0) (ind_qid q))"
  "finds held_by s (eqdma_pfetch_ctx_conf mm True q (Some pc) QDMA_HW_ACCESS_READ s) (cs_pfetch (held_by s) (ind_qid q))"
  "finds held_by s (eqdma_cmpt_ctx_conf mm True q (Some mc) QDMA_HW_ACCESS_READ s) (cs_cmpt (held_by s) (ind_qid q))"
  "finds held_by s (eqdma_fmap_conf mm True q (Some fc) QDMA_HW_ACCESS_READ s) (cs_fmap (held_by s) (ind_qid q))"
  "finds held_by s (eqdma_indirect_intr_ctx_conf mm True q (Some ic) QDMA_HW_ACCESS_READ s) (cs_intr (held_by s) (ind_qid q))"
proof -
  note fit = sw.words_fit pfetch.words_fit cmpt.words_fit intr.words_fit fmap.words_fit
  have "EQDMA_HW_CONTEXT_NUM_WORDS \<le> 8" "EQDMA_CR_CONTEXT_NUM_WORDS \<le> 8" by (simp_all add: ctx_words)
  note reads = reg_read [OF this(1)] reg_read [OF this(2)] fit [THEN reg_read(1)] fit [THEN reg_read(2)]
  show "finds held_by s (eqdma_sw_ctx_conf mm True c q (Some sc) QDMA_HW_ACCESS_READ s) (cs_sw (held_by s) (c \<noteq> 0) (ind_qid q))"
    "finds held_by s (eqdma_pfetch_ctx_conf mm True q (Some pc) QDMA_HW_ACCESS_READ s) (cs_pfetch (held_by s) (ind_qid q))"
    "finds held_by s (eqdma_cmpt_ctx_conf mm True q (Some mc) QDMA_HW_ACCESS_READ s) (cs_cmpt (held_by s) (ind_qid q))"
    "finds held_by s (eqdma_fmap_conf mm True q (Some fc) QDMA_HW_ACCESS_READ s) (cs_fmap (held_by s) (ind_qid q))"
    "finds held_by s (eqdma_indirect_intr_ctx_conf mm True q (Some ic) QDMA_HW_ACCESS_READ s) (cs_intr (held_by s) (ind_qid q))"
    by (simp_all add: finds_def eqdma_sw_ctx_conf_def eqdma_sw_context_read_def eqdma_pfetch_ctx_conf_def
      eqdma_pfetch_context_read_def eqdma_cmpt_ctx_conf_def eqdma_cmpt_context_read_def eqdma_fmap_conf_def
      eqdma_fmap_context_read_def eqdma_indirect_intr_ctx_conf_def eqdma_indirect_intr_context_read_def Let_def
      case_prod_beta reads, simp_all add: eqdma_held_def)
  assume "c \<le> 1"
  then show "finds held_by s (eqdma_hw_ctx_conf mm True c q (Some hc) QDMA_HW_ACCESS_READ s)
      (cs_hw (held_by s) (c \<noteq> 0) (ind_qid q))"
    "finds held_by s (eqdma_credit_ctx_conf mm True c q (Some cc) QDMA_HW_ACCESS_READ s)
      (cs_cr (held_by s) (c \<noteq> 0) (ind_qid q))"
    by (simp_all add: finds_def eqdma_hw_ctx_conf_def eqdma_hw_context_read_def eqdma_credit_ctx_conf_def
      eqdma_credit_context_read_def linorder_not_less Let_def case_prod_beta reads, simp_all add: eqdma_held_def)
qed

end

sublocale eqdma_ready \<subseteq> contexts: context_store "eqdma_hw_access mm read_reg_list" "\<lambda>s. eqdma_held (view s)"
  by unfold_locales (simp_all add: eqdma_hw_access_def clear_laws write_laws read_laws)

context eqdma_ready begin

lemma axioms_store: "context_store (eqdma_hw_access mm regs) held_by"
  by unfold_locales (simp_all add: eqdma_hw_access_def clear_laws write_laws read_laws)

end

interpretation sim_ready: eqdma_ready sim "\<lambda>s. s" no_regs
  by unfold_locales (rule sim_responsive)

lemma eqdma_store:
  assumes "context_device mm view" and "responsive mm"
  shows "context_store (eqdma_hw_access mm regs) (\<lambda>s. eqdma_held (view s))"
proof -
  have "eqdma_ready mm view" by unfold_locales (fact assms)+
  then show ?thesis by (rule eqdma_ready.axioms_store)
qed

end
