(* ===== verification/Queue_Claims.thy ===== *)
theory Queue_Claims
  imports Queue_Eqdma
begin

section \<open>What starting a queue does to the device\<close>

text \<open>
  The contract of the table, met by the EQDMA device, gives what the driver does to the contexts of a queue; the bit
  fields of the configuration make the composed contexts fit the device.
\<close>

subsection \<open>Composed contexts fit their fields\<close>

lemma take_bit_ucast_short: "LENGTH('a) \<le> n \<Longrightarrow> take_bit n (ucast (w :: 'a :: len word) :: 'b :: len word) = ucast w"
  by (rule bit_word_eqI) (auto simp: bit_simps dest: bit_imp_le_length)

lemma one_bit [simp]: "ucast (w :: 1 word) mod 2 = (ucast w :: u8)"
  using take_bit_ucast_short [of 1 w, where 'b = 8] by simp

lemma complement_of_bit: "take_bit 1 (NOT (of_bool b) :: u8) = of_bool (\<not> b)"
  by (cases b) simp_all

text \<open>What the bit fields do not bound: the vector of the queue, its channel and the alignment of the completion ring.\<close>

definition context_fits :: "xlnx_dma_dev \<Rightarrow> qdma_descq_hw \<Rightarrow> bool" where
  "context_fits xdev d \<longleftrightarrow> fits 11 (sw_vec (make_sw_context xdev d)) \<and> fits 1 (dh_channel d) \<and>
     push_bit 2 (drop_bit 2 (dh_desc_cmpt_bus d)) = dh_desc_cmpt_bus d"

text \<open>Cutting a context to its fields cuts the member that is set.\<close>

lemma norm_update:
  "sw_ctxt_norm (c\<lparr>sw_irq_arm := v\<rparr>) = (sw_ctxt_norm c)\<lparr>sw_irq_arm := take_bit 1 v\<rparr>"
  "sw_ctxt_norm (c\<lparr>sw_fnc_id := v\<rparr>) = (sw_ctxt_norm c)\<lparr>sw_fnc_id := v\<rparr>"
  "sw_ctxt_norm (c\<lparr>sw_qen := v\<rparr>) = (sw_ctxt_norm c)\<lparr>sw_qen := take_bit 1 v\<rparr>"
  "sw_ctxt_norm (c\<lparr>sw_frcd_en := v\<rparr>) = (sw_ctxt_norm c)\<lparr>sw_frcd_en := take_bit 1 v\<rparr>"
  "sw_ctxt_norm (c\<lparr>sw_wbi_chk := v\<rparr>) = (sw_ctxt_norm c)\<lparr>sw_wbi_chk := take_bit 1 v\<rparr>"
  "sw_ctxt_norm (c\<lparr>sw_wbi_intvl_en := v\<rparr>) = (sw_ctxt_norm c)\<lparr>sw_wbi_intvl_en := take_bit 1 v\<rparr>"
  "sw_ctxt_norm (c\<lparr>sw_rngsz_idx := v\<rparr>) = (sw_ctxt_norm c)\<lparr>sw_rngsz_idx := take_bit 4 v\<rparr>"
  "sw_ctxt_norm (c\<lparr>sw_desc_sz := v\<rparr>) = (sw_ctxt_norm c)\<lparr>sw_desc_sz := take_bit 2 v\<rparr>"
  "sw_ctxt_norm (c\<lparr>sw_bypass := v\<rparr>) = (sw_ctxt_norm c)\<lparr>sw_bypass := take_bit 1 v\<rparr>"
  "sw_ctxt_norm (c\<lparr>sw_mm_chn := v\<rparr>) = (sw_ctxt_norm c)\<lparr>sw_mm_chn := take_bit 1 v\<rparr>"
  "sw_ctxt_norm (c\<lparr>sw_wbk_en := v\<rparr>) = (sw_ctxt_norm c)\<lparr>sw_wbk_en := take_bit 1 v\<rparr>"
  "sw_ctxt_norm (c\<lparr>sw_irq_en := v\<rparr>) = (sw_ctxt_norm c)\<lparr>sw_irq_en := take_bit 1 v\<rparr>"
  "sw_ctxt_norm (c\<lparr>sw_mrkr_dis := v\<rparr>) = (sw_ctxt_norm c)\<lparr>sw_mrkr_dis := take_bit 1 v\<rparr>"
  "sw_ctxt_norm (c\<lparr>sw_is_mm := v\<rparr>) = (sw_ctxt_norm c)\<lparr>sw_is_mm := take_bit 1 v\<rparr>"
  "sw_ctxt_norm (c\<lparr>sw_intr_aggr := v\<rparr>) = (sw_ctxt_norm c)\<lparr>sw_intr_aggr := take_bit 1 v\<rparr>"
  "sw_ctxt_norm (c\<lparr>sw_ring_bs_addr := v64\<rparr>) = (sw_ctxt_norm c)\<lparr>sw_ring_bs_addr := v64\<rparr>"
  "sw_ctxt_norm (c\<lparr>sw_vec := v11\<rparr>) = (sw_ctxt_norm c)\<lparr>sw_vec := take_bit 11 v11\<rparr>"
  by (simp_all add: sw_ctxt_norm_def)

lemma norm_zero: "sw_ctxt_norm sw_ctxt_zero = sw_ctxt_zero"
  by (simp add: sw_ctxt_norm_def sw_ctxt_zero_def)

lemma norm_if: "sw_ctxt_norm (if b then x else y) = (if b then sw_ctxt_norm x else sw_ctxt_norm y)"
  by simp

lemma sw_vec_make:
  "sw_vec (make_sw_context xdev d) = (if aggregated xdev
     then word_of_int (get_intr_ring_index xdev (word_of_int (dh_intr_id d))) else word_of_int (dh_intr_id d))"
  by (simp add: make_sw_context_def sw_vector_def sw_desc_kind_def Let_def)

lemma sw_vector_norm: "context_fits xdev d \<Longrightarrow> sw_ctxt_norm (sw_vector xdev d sw_ctxt_zero) = sw_vector xdev d sw_ctxt_zero"
  by (auto simp: sw_vector_def norm_update norm_zero context_fits_def sw_vec_make take_bit_fits)

lemma sw_desc_kind_norm:
  assumes "context_fits xdev d"
  shows "sw_ctxt_norm (sw_desc_kind d c) = sw_desc_kind d (sw_ctxt_norm c)"
proof -
  have "take_bit 1 (dh_channel d) = dh_channel d" using assms by (simp only: context_fits_def take_bit_fits)
  then show ?thesis
    unfolding sw_desc_kind_def
    by (intro if_cong [THEN trans [OF norm_if]] refl) (simp_all add: norm_update take_bit_ucast_short DESC_SZ_8B_def
      DESC_SZ_16B_def DESC_SZ_32B_def DESC_SZ_64B_def)
qed

lemma desc_kind_commutes:
  "(sw_desc_kind d c)\<lparr>sw_is_mm := v\<rparr> = sw_desc_kind d (c\<lparr>sw_is_mm := v\<rparr>)"
  "(sw_desc_kind d c)\<lparr>sw_fnc_id := v\<rparr> = sw_desc_kind d (c\<lparr>sw_fnc_id := v\<rparr>)"
  "(sw_desc_kind d c)\<lparr>sw_irq_arm := v\<rparr> = sw_desc_kind d (c\<lparr>sw_irq_arm := v\<rparr>)"
  "(sw_desc_kind d c)\<lparr>sw_irq_en := v\<rparr> = sw_desc_kind d (c\<lparr>sw_irq_en := v\<rparr>)"
  "(sw_desc_kind d c)\<lparr>sw_wbk_en := v\<rparr> = sw_desc_kind d (c\<lparr>sw_wbk_en := v\<rparr>)"
  "(sw_desc_kind d c)\<lparr>sw_wbi_chk := v\<rparr> = sw_desc_kind d (c\<lparr>sw_wbi_chk := v\<rparr>)"
  "(sw_desc_kind d c)\<lparr>sw_mrkr_dis := v\<rparr> = sw_desc_kind d (c\<lparr>sw_mrkr_dis := v\<rparr>)"
  by (simp_all add: sw_desc_kind_def)

lemma make_sw_norm:
  assumes "context_fits xdev d"
  shows "sw_ctxt_norm (make_sw_context xdev d) = (make_sw_context xdev d)\<lparr>sw_is_mm := of_bool (\<not> qc_st (dq_conf d))\<rparr>"
  unfolding make_sw_context_def Let_def
  by (cases "st_c2h d"; cases "qc_desc_bypass (dq_conf d)"; cases "qc_st (dq_conf d)"; cases "qc_q_type (dq_conf d) = Q_H2C";
    simp add: norm_update sw_desc_kind_norm [OF assms] sw_vector_norm [OF assms] desc_kind_commutes take_bit_ucast_short;
    intro arg_cong [where f = "sw_desc_kind d"] qdma_descq_sw_ctxt.equality; simp)

lemma make_prefetch_norm: "pfetch_ctxt_norm (make_prefetch_context d) = make_prefetch_context d"
  by (simp add: pfetch_ctxt_norm_def make_prefetch_context_def pfetch_ctxt_zero_def take_bit_ucast_short)

lemma cmpt_vec: "cm_vec (make_cmpt_context xdev d) = sw_vec (make_sw_context xdev d)"
  by (simp add: make_cmpt_context_def make_sw_context_def sw_vector_def sw_desc_kind_def Let_def)

lemma make_cmpt_norm:
  assumes "context_fits xdev d"
  shows "cmpt_ctxt_norm (make_cmpt_context xdev d) = make_cmpt_context xdev d"
  using assms cmpt_vec [of xdev d]
  by (auto simp: cmpt_ctxt_norm_def make_cmpt_context_def cmpt_ctxt_zero_def Let_def
    context_fits_def take_bit_ucast_short take_bit_fits)

subsection \<open>What is found after programming\<close>

lemma contexts_after:
  "type \<noteq> Q_CMPT \<Longrightarrow> qx_sw (contexts_at f q st type (programmed q st type x cs)) = sw_ctxt_norm (qx_sw x)"
  "type \<noteq> Q_CMPT \<Longrightarrow> qx_hw (contexts_at f q st type (programmed q st type x cs)) = hw_ctxt_zero"
  "type \<noteq> Q_CMPT \<Longrightarrow> qx_cr (contexts_at f q st type (programmed q st type x cs)) = credit_ctxt_zero"
  "st \<Longrightarrow> type = Q_C2H \<Longrightarrow> qx_pfetch (contexts_at f q st type (programmed q st type x cs)) = pfetch_ctxt_norm (qx_pfetch x)"
  "has_cmpt st type \<Longrightarrow> qx_cmpt (contexts_at f q st type (programmed q st type x cs)) = cmpt_ctxt_norm (qx_cmpt x)"
  by (simp_all add: contexts_at_def programmed_def Let_def)

lemma context_of_fields:
  "qc_q_type (dq_conf d) \<noteq> Q_CMPT \<Longrightarrow> qx_sw (context_of xdev d) = make_sw_context xdev d"
  "qc_st (dq_conf d) \<Longrightarrow> qc_q_type (dq_conf d) = Q_C2H \<Longrightarrow> qx_pfetch (context_of xdev d) = make_prefetch_context d"
  "has_cmpt (qc_st (dq_conf d)) (qc_q_type (dq_conf d)) \<Longrightarrow> qx_cmpt (context_of xdev d) = make_cmpt_context xdev d"
  by (simp_all add: context_of_def Let_def)

subsection \<open>Only the contexts of the queue\<close>

context queue_access begin

lemma only_then_err:
  assumes "only_queue qid s (snd r)" and "\<And>s1. only_queue qid s1 (snd (k s1))"
  shows "only_queue qid s (snd (then_err r k))"
  using assms only_queue_trans by (fastforce simp: then_err_def)

lemma clear_cmpt_only: "only_queue q s (snd (clear_cmpt hw q st type acc s))"
  by (auto simp: clear_cmpt_def intro!: only_then_err)

lemma write_cmpt_only: "only_queue q s (snd (write_cmpt hw q st type x s))"
  by (auto simp: write_cmpt_def intro!: only_then_err)

lemma context_clear_only: "only_queue (ucast qid) s (snd (qdma_descq_context_clear hw qid st type clr s))"
  unfolding qdma_descq_context_clear_def Let_def
  by (auto intro!: only_then_err only_if clear_cmpt_only)

lemma context_program_only:
  assumes "da_qid2vec_ctx (xd_dev_cap xdev) = 0"
  shows "only_queue (ucast qid) s (snd (qdma_descq_context_program hw q2v xdev qid st type x s))"
  unfolding qdma_descq_context_program_def Let_def write_qid2vec_def
  using assms by (auto intro!: only_then_err only_if write_cmpt_only context_clear_only)

end

lemma eqdma_access:
  assumes "context_device mm view"
  shows "queue_access (eqdma_hw_access mm regs) (\<lambda>s q sel. ctxts (view s) sel q)"
  by unfold_locales (simp_all add: eqdma_hw_access_def ctx_conf_other [OF assms] csr_read_keeps [OF assms])

subsection \<open>A simulated device and its queues\<close>

definition sim_xdev :: xlnx_dma_dev where
  "sim_xdev = \<lparr>xd_drv_mode = AUTO_MODE, xd_intr_rngsz = 1, xd_func_id = 3, xd_dvec_start_idx = 2,
     xd_intr_coal_list = [\<lparr>ic_vec_id = 2, ic_num_entries = 1024, ic_intr_ring_bus = 0x12345000, ic_ring_base = replicate 1024 0,
       ic_color = 1, ic_cidx_info = \<lparr>ic_sw_cidx = 0, ic_rng_idx = 3\<rparr>\<rparr>],
     xd_dev_cap = attributes_zero, xd_num_vecs = 3, xd_msix = [0, 1, 2], xd_cpm4 = False, xd_qdev = Some 32, xd_prev_descq = None\<rparr>"

definition sim_queue_of :: "bool \<Rightarrow> queue_type_t \<Rightarrow> qdma_descq_hw" where
  "sim_queue_of st type =
     \<lparr>dq_conf = \<lparr>qc_rngsz = 0, qc_st = st, qc_q_type = type, qc_aperture_size = 0, qc_desc_bypass = False, qc_pidx_acc = 0,
        qc_fp_descq_c2h_packet = False\<rparr>,
      dq_drv_mode = AUTO_MODE, dq_q_state = Q_STATE_ENABLED, dq_q_stop_wait = False, dq_proc_req_running = False,
      dq_pend_list_empty = True, dq_work_list = [], dq_work_req_pend = 0, dq_pend_list = [], dq_cmplthp = False,
      dq_avail = 0, dq_pidx = 0, dq_cidx = 0, dq_credit = 0, dq_desc = [], dq_desc_pend = 0,
      dq_pidx_info = \<lparr>pi_pidx = 0, pi_irq_en = 0\<rparr>, dq_total_cmpl_descs = 0,
      dh_irq_en = 1, dh_desc_rng_sz_idx = 9, dh_wb_status_en = 1, dh_cmpl_status_acc_en = 1, dh_cmpl_status_pend_chk = 1,
      dh_pfetch_en = 1, dh_fetch_credit = 1, dh_c2h_buf_sz_idx = 7, dh_cmpl_rng_sz_idx = 5, dh_cmpl_desc_sz = 3,
      dh_cmpl_stat_en = 1, dh_cmpl_timer_idx = 4, dh_cmpl_cnt_th_idx = 2, dh_cmpl_trig_mode = 5, dh_cmpl_en_intr = 1,
      dh_sw_desc_sz = 0, dh_pfetch_bypass = 0, dh_cmpl_ovf_chk_dis = 1, dh_adaptive_rx = 0, dh_channel = 1,
      dh_qidx_hw = 37, dh_intr_id = 2, dh_desc_bus = 0xABC000, dh_desc_cmpt_bus = 0xDEF000\<rparr>"

lemma sim_queue_facts:
  "qc_q_type (dq_conf (sim_queue_of st type)) = type" "qc_st (dq_conf (sim_queue_of st type)) = st"
  "dh_qidx_hw (sim_queue_of st type) = 37" "da_qid2vec_ctx (xd_dev_cap sim_xdev) = 0"
  "cm_trig_mode (make_cmpt_context sim_xdev (sim_queue_of st type)) \<le> QDMA_CMPT_UPDATE_TRIG_MODE_TMR_CNTR"
  "ind_qid 37 = 37"
  by (simp_all add: sim_queue_of_def sim_xdev_def attributes_zero_def load_dev_attributes_def bits_def load_def
    make_cmpt_context_def Let_def QDMA_CMPT_UPDATE_TRIG_MODE_TMR_CNTR_def ind_qid_def)

subsection \<open>Properties\<close>

text \<open>
  C9: starting a queue refines one update of the store of contexts. On a device that behaves as documented and answers in
  time, \<open>qdma_descq_context_setup\<close> succeeds; the contexts of the queue in its direction become the composed ones, cut to
  their fields, its hardware and credit contexts become zero, whatever they were, and every other context stays as it was.
\<close>

theorem queue_context_setup_refines:
  assumes "context_device mm view" and "responsive mm" and "qc_q_type (dq_conf d) \<noteq> Q_H2C_C2H"
    and "da_qid2vec_ctx (xd_dev_cap xdev) = 0"
    and "has_cmpt (qc_st (dq_conf d)) (qc_q_type (dq_conf d)) \<longrightarrow>
      cm_trig_mode (make_cmpt_context xdev d) \<le> QDMA_CMPT_UPDATE_TRIG_MODE_TMR_CNTR"
  shows "\<exists>s1. qdma_descq_context_setup (eqdma_hw_access mm regs) q2v xdev d s = (0, s1) \<and>
    eqdma_held (view s1) = programmed (ind_qid (ucast (dh_qidx_hw d))) (qc_st (dq_conf d)) (qc_q_type (dq_conf d))
      (context_of xdev d) (eqdma_held (view s))"
proof -
  note store = eqdma_store [OF assms(1,2), of regs]
  have "has_cmpt (qc_st (dq_conf d)) (qc_q_type (dq_conf d)) \<Longrightarrow>
      cm_trig_mode (qx_cmpt (context_of xdev d)) \<le> QDMA_CMPT_UPDATE_TRIG_MODE_TMR_CNTR"
    using assms(5) by (simp add: context_of_fields)
  from context_store.context_program_to [OF store assms(3) this disjI1 [OF assms(4)], where q2v = q2v and qid = "dh_qidx_hw d" and s = s]
  show ?thesis
    unfolding qdma_descq_context_setup_def to_def by (metis prod.collapse)
qed

theorem queue_context_setup_refines_witness:
  "\<exists>s1. qdma_descq_context_setup (eqdma_hw_access sim no_regs) (\<lambda>c q v s. (0, s)) sim_xdev (sim_queue_of True Q_C2H) sim_start =
      (0, s1) \<and>
    eqdma_held s1 = programmed 37 True Q_C2H (context_of sim_xdev (sim_queue_of True Q_C2H)) (eqdma_held sim_start)"
  using queue_context_setup_refines [OF sim_context_device sim_responsive, of "sim_queue_of True Q_C2H" sim_xdev no_regs]
  by (simp add: sim_queue_facts)

text \<open>
  C10: what starting a queue programs is what the driver reads back. The contexts that \<open>qdma_descq_context_read\<close> gives
  after a setup are exactly the composed ones, with empty hardware and credit contexts; the byte in which the complement
  of the stream bit was stored comes back as one bit, set when the queue is memory mapped.
\<close>

theorem queue_context_read_back:
  assumes "context_device mm view" and "responsive mm" and "qc_q_type (dq_conf d) = type" and "qc_st (dq_conf d) = st"
    and "type \<noteq> Q_H2C_C2H" and "da_qid2vec_ctx (xd_dev_cap xdev) = 0" and "context_fits xdev d"
    and "has_cmpt st type \<longrightarrow> cm_trig_mode (make_cmpt_context xdev d) \<le> QDMA_CMPT_UPDATE_TRIG_MODE_TMR_CNTR"
  shows "\<exists>s1 s2 x. qdma_descq_context_setup (eqdma_hw_access mm regs) q2v xdev d s = (0, s1) \<and>
    qdma_descq_context_read (eqdma_hw_access mm regs) xdev (dh_qidx_hw d) st type s1 = (0, x, s2) \<and>
    (type \<noteq> Q_CMPT \<longrightarrow> qx_sw x = (make_sw_context xdev d)\<lparr>sw_is_mm := of_bool (\<not> st)\<rparr> \<and>
      qx_hw x = hw_ctxt_zero \<and> qx_cr x = credit_ctxt_zero) \<and>
    (st \<and> type = Q_C2H \<longrightarrow> qx_pfetch x = make_prefetch_context d) \<and>
    (has_cmpt st type \<longrightarrow> qx_cmpt x = make_cmpt_context xdev d)"
proof -
  note store = eqdma_store [OF assms(1,2), of regs]
  let ?hw = "eqdma_hw_access mm regs" and ?q = "ind_qid (ucast (dh_qidx_hw d))"
  have "has_cmpt st type \<Longrightarrow> cm_trig_mode (qx_cmpt (context_of xdev d)) \<le> QDMA_CMPT_UPDATE_TRIG_MODE_TMR_CNTR"
    using assms(3,4,8) context_of_fields(3) [of d] by simp
  from context_store.context_program_to [OF store assms(5) this disjI1 [OF assms(6)], where q2v = q2v and qid = "dh_qidx_hw d" and s = s]
  obtain s1 where s1: "qdma_descq_context_setup ?hw q2v xdev d s = (0, s1)"
    "eqdma_held (view s1) = programmed ?q st type (context_of xdev d) (eqdma_held (view s))"
    unfolding qdma_descq_context_setup_def to_def assms(3,4) by (metis prod.collapse)
  from context_store.context_read_reads [OF store assms(5), of s1 xdev "dh_qidx_hw d" st]
  obtain s2 where "qdma_descq_context_read ?hw xdev (dh_qidx_hw d) st type s1 =
      (0, contexts_at (xd_func_id xdev) ?q st type (eqdma_held (view s1)), s2)"
    unfolding context_store.reads_def [OF store] by (metis prod.collapse)
  moreover have "programmed ?q st type (context_of xdev d) (eqdma_held (view s)) = eqdma_held (view s1)" by (simp only: s1(2))
  moreover note found = contexts_after [where type = type and q = ?q and st = st and x = "context_of xdev d" and cs = "eqdma_held (view s)"]
    context_of_fields [where d = d and xdev = xdev, unfolded assms(3,4)] make_prefetch_norm make_sw_norm [OF assms(7), unfolded assms(4)]
    make_cmpt_norm [OF assms(7)]
  ultimately show ?thesis using s1(1) by fastforce
qed

theorem queue_context_read_back_witness:
  "\<exists>s1 s2 x. qdma_descq_context_setup (eqdma_hw_access sim no_regs) (\<lambda>c q v s. (0, s)) sim_xdev (sim_queue_of True Q_C2H) sim_start =
      (0, s1) \<and>
    qdma_descq_context_read (eqdma_hw_access sim no_regs) sim_xdev 37 True Q_C2H s1 = (0, x, s2) \<and>
    sw_vec (qx_sw x) = 3 \<and> sw_is_mm (qx_sw x) = 0 \<and> cm_bs_addr (qx_cmpt x) = 0xDEF000 \<and> pf_bufsz_idx (qx_pfetch x) = 7"
proof -
  let ?d = "sim_queue_of True Q_C2H"
  have v: "sw_vec (make_sw_context sim_xdev ?d) = 3" by code_simp
  have m: "cm_bs_addr (make_cmpt_context sim_xdev ?d) = 0xDEF000" "pf_bufsz_idx (make_prefetch_context ?d) = 7" by code_simp+
  have "context_fits sim_xdev ?d" unfolding context_fits_def v by (simp add: sim_queue_of_def fits_def)
  note both = queue_context_read_back [OF sim_context_device sim_responsive sim_queue_facts(1,2) _ sim_queue_facts(4) this, of no_regs "\<lambda>c q v s. (0, s)" sim_start]
  obtain s1 s2 x where "qdma_descq_context_setup (eqdma_hw_access sim no_regs) (\<lambda>c q v s. (0, s)) sim_xdev ?d sim_start = (0, s1)"
    "qdma_descq_context_read (eqdma_hw_access sim no_regs) sim_xdev 37 True Q_C2H s1 = (0, x, s2)"
    "qx_sw x = (make_sw_context sim_xdev ?d)\<lparr>sw_is_mm := 0\<rparr>" "qx_pfetch x = make_prefetch_context ?d"
    "qx_cmpt x = make_cmpt_context sim_xdev ?d"
    using both by (auto simp: sim_queue_facts has_cmpt_def)
  then show ?thesis using v m by fastforce
qed

text \<open>
  C11: starting, clearing or invalidating a queue never touches a context of another queue, in any mode and direction,
  even on a device that is busy for ever and however the calls fail.
\<close>

theorem queue_context_isolation:
  assumes "context_device mm view" and "da_qid2vec_ctx (xd_dev_cap xdev) = 0" and "q \<noteq> ind_qid (ucast qid)"
  shows "ctxts (view (snd (qdma_descq_context_program (eqdma_hw_access mm regs) q2v xdev qid st type x s))) sel q =
      ctxts (view s) sel q \<and>
    ctxts (view (snd (qdma_descq_context_clear (eqdma_hw_access mm regs) qid st type clr s))) sel q = ctxts (view s) sel q"
proof -
  note own = queue_access.context_program_only [OF eqdma_access [OF assms(1)] assms(2)]
    queue_access.context_clear_only [OF eqdma_access [OF assms(1)]]
  show ?thesis
    using own [unfolded queue_access.only_queue_def [OF eqdma_access [OF assms(1)]], THEN spec, THEN mp, OF assms(3)]
    by (simp add: fun_eq_iff)
qed

theorem queue_context_isolation_witness:
  "ctxts (snd (qdma_descq_context_program (eqdma_hw_access sim no_regs) (\<lambda>c q v s. (0, s)) sim_xdev 37 True Q_C2H context_zero
      (sim_start\<lparr>ctxts := \<lambda>_ _ _. 3\<rparr>))) 0 36 = (\<lambda>_. 3)"
  using queue_context_isolation [OF sim_context_device sim_queue_facts(4), of 36 37 no_regs "\<lambda>c q v s. (0, s)" True Q_C2H
      context_zero "sim_start\<lparr>ctxts := \<lambda>_ _ _. 3\<rparr>" 0]
  by (simp add: sim_queue_facts)

text \<open>
  C26: an error of the clearing that starts a set-up is looked up in the table of error codes a second time, where the
  codes of the kernel stand for others: a device that is busy is reported as an invalid argument, and an invalid argument
  as a busy device.
\<close>

theorem queue_context_error_mapped_twice:
  assumes "qdma_descq_context_clear hw (dh_qidx_hw d) (qc_st (dq_conf d)) (qc_q_type (dq_conf d)) True s = (rv, s1)" and "rv < 0"
  shows "qdma_descq_context_setup hw q2v xdev d s = (qdma_get_err_code rv, s1) \<and>
    qdma_get_err_code (- EBUSY) = - EINVAL \<and> qdma_get_err_code (- EINVAL) = - EBUSY"
  using assms
  by (simp add: qdma_descq_context_setup_def qdma_descq_context_program_def then_err_def Let_def get_err_code_twice)

theorem queue_context_error_mapped_twice_witness:
  "fst (qdma_descq_context_clear (eqdma_hw_access sim no_regs) 37 True Q_H2C_C2H True sim_start) = - EINVAL \<and>
   fst (qdma_descq_context_setup (eqdma_hw_access sim no_regs) (\<lambda>c q v s. (0, s)) sim_xdev (sim_queue_of True Q_H2C_C2H) sim_start) =
     - EBUSY"
proof -
  let ?d = "sim_queue_of True Q_H2C_C2H" and ?hw = "eqdma_hw_access sim no_regs"
  have "fst (qdma_descq_context_clear ?hw 37 True Q_H2C_C2H True sim_start) = - EINVAL"
    using sim_ready.clear_laws(1) [of sim_start 3 37] hw_credit_refused [of 3 QDMA_HW_ACCESS_CLEAR sim True 37 None _ None]
    by (simp add: qdma_descq_context_clear_def Let_def eqdma_hw_access_def then_err_def no_ctxt_def changes_def
      get_err_code_eval [simplified])
  moreover from this obtain s1 where "qdma_descq_context_clear ?hw 37 True Q_H2C_C2H True sim_start = (- EINVAL, s1)"
    by (metis prod.collapse)
  then have "fst (qdma_descq_context_setup ?hw (\<lambda>c q v s. (0, s)) sim_xdev ?d sim_start) = - EBUSY"
    using queue_context_error_mapped_twice [of ?hw ?d sim_start "- EINVAL" s1 "\<lambda>c q v s. (0, s)" sim_xdev]
    by (simp add: sim_queue_facts EINVAL_def [symmetric]) (simp add: EINVAL_def)
  ultimately show ?thesis by simp
qed

text \<open>
  C25: the interrupt ring of a function is set up once and under the number of the function. In the modes that aggregate
  interrupts the context that was there is replaced by one for the memory and the vector of the function's ring, nothing
  else of the device changes, and the driver reads back what it composed; in the other modes nothing happens.
\<close>

theorem intr_context_setup_read_back:
  assumes "context_device mm view" and "responsive mm"
  shows "\<exists>s1 s2. qdma_intr_context_setup (eqdma_hw_access mm regs) xdev s = (0, s1) \<and>
    (if aggregated xdev
     then qdma_intr_context_read (eqdma_hw_access mm regs) (uint (xd_func_id xdev)) s1 = (0, intr_ctxt_norm (intr_context_of xdev), s2) \<and>
       eqdma_held (view s1) = put_intr (xd_func_id xdev) (intr_context_of xdev) (eqdma_held (view s))
     else s1 = s)"
proof (cases "aggregated xdev")
  case True
  note store = eqdma_store [OF assms, of regs]
  obtain s1 where s1: "qdma_intr_context_setup (eqdma_hw_access mm regs) xdev s = (0, s1)"
    "eqdma_held (view s1) = put_intr (xd_func_id xdev) (intr_context_of xdev) (eqdma_held (view s))"
    using context_store.intr_setup_to [OF store True, of s] unfolding to_def by (metis prod.collapse)
  have "cs_intr (eqdma_held (view s1)) (ind_qid (word_of_int (uint (xd_func_id xdev)))) = intr_ctxt_norm (intr_context_of xdev)"
    by (simp add: s1(2) put_intr_def)
  then obtain s2 where "qdma_intr_context_read (eqdma_hw_access mm regs) (uint (xd_func_id xdev)) s1 =
      (0, intr_ctxt_norm (intr_context_of xdev), s2)"
    using context_store.intr_read_reads [OF store, of s1 "uint (xd_func_id xdev)"]
    unfolding context_store.reads_def [OF store] by (metis prod.collapse)
  with s1 True show ?thesis by simp
qed (simp add: qdma_intr_context_setup_def)

theorem intr_context_setup_read_back_witness:
  "\<exists>s1 s2 c. qdma_intr_context_setup (eqdma_hw_access sim no_regs) sim_xdev sim_start = (0, s1) \<and>
    qdma_intr_context_read (eqdma_hw_access sim no_regs) 3 s1 = (0, c, s2) \<and> in_vec c = 2 \<and> in_baddr_4k c = 0x12345000"
proof -
  have "aggregated sim_xdev" "uint (xd_func_id sim_xdev) = 3" "in_vec (intr_ctxt_norm (intr_context_of sim_xdev)) = 2"
    "in_baddr_4k (intr_ctxt_norm (intr_context_of sim_xdev)) = 0x12345000"
    by code_simp+
  then show ?thesis
    using intr_context_setup_read_back [OF sim_context_device sim_responsive, of no_regs sim_xdev sim_start] by auto
qed

end
