(* ===== verification/Intr_Ring.thy ===== *)
theory Intr_Ring
  imports Queue_Ctxt
begin

section \<open>The interrupt aggregation ring (qdma\_intr.c)\<close>

text \<open>
  In the aggregated modes the device does not raise one interrupt for each event: it writes an entry with the number of
  the queue into a ring in host memory and interrupts the function. The handler walks the ring and schedules the work of
  each queue it finds. No index tells it where to stop: an entry carries a colour that the device inverts each time it
  comes round, and the handler stops at the first entry of the wrong colour.
\<close>

unbundle bit_operations_syntax

subsection \<open>Entries\<close>

text \<open>The bit fields of the two layouts of an entry, from the low end of the 64-bit word.\<close>

definition entry_color :: "u64 \<Rightarrow> u8" where "entry_color e = ucast (drop_bit 63 e)"

definition entry_type :: "bool \<Rightarrow> u64 \<Rightarrow> u8" where
  "entry_type cpm4 e = ucast (take_bit 1 (drop_bit (if cpm4 then 51 else 38) e))"

definition entry_qid :: "bool \<Rightarrow> u64 \<Rightarrow> u32" where
  "entry_qid cpm4 e = ucast (if cpm4 then take_bit 11 (drop_bit 52 e) else take_bit 24 (drop_bit 39 e))"

subsection \<open>Queues and what the handler does to them\<close>

text \<open>A pointer to a queue is the array it is in, with True for card to host, and the index into that array.\<close>

type_synonym descq_ref = "bool \<times> u64"

record intr_queue =
  iq_isr_top :: bool
  iq_cpu_assigned :: bool
  iq_intr_work_cpu :: u32
  iq_qidx :: u32
  iq_ping_pong_en :: bool
  iq_q_type :: queue_type_t
  iq_st :: bool

datatype intr_event = PingPongRx descq_ref u64 | IsrTop descq_ref | ScheduleWorkOn u32 descq_ref | ScheduleWork descq_ref

record 's intr_world =
  iw_xdev :: xlnx_dma_dev
  iw_events :: "intr_event list"
  iw_dev :: 's

text \<open>The index is the difference of the numbers, with no test that it lies inside the array.\<close>

definition qdma_device_get_descq_by_hw_qid :: "xlnx_dma_dev \<Rightarrow> u64 \<Rightarrow> u8 \<Rightarrow> descq_ref option" where
  "qdma_device_get_descq_by_hw_qid xdev qidx_hw c2h =
     (case xd_qdev xdev of None \<Rightarrow> None | Some first_q \<Rightarrow> Some (c2h \<noteq> 0, qidx_hw - ucast first_q))"

definition entry_descq :: "xlnx_dma_dev \<Rightarrow> u64 \<Rightarrow> descq_ref option" where
  "entry_descq xdev e =
     qdma_device_get_descq_by_hw_qid xdev (ucast (entry_qid (xd_cpm4 xdev) e)) (entry_type (xd_cpm4 xdev) e)"

definition queue_events :: "(descq_ref \<Rightarrow> intr_queue) \<Rightarrow> u64 \<Rightarrow> descq_ref \<Rightarrow> intr_event list" where
  "queue_events queues timestamp r =
     (let q = queues r
      in (if iq_ping_pong_en q \<and> iq_q_type q = Q_C2H \<and> iq_st q then [PingPongRx r timestamp] else []) @
         [if iq_isr_top q then IsrTop r else if iq_cpu_assigned q then ScheduleWorkOn (iq_intr_work_cpu q) r else ScheduleWork r])"

subsection \<open>The handler\<close>

definition set_coal :: "nat \<Rightarrow> (intr_coal_conf \<Rightarrow> intr_coal_conf) \<Rightarrow> xlnx_dma_dev \<Rightarrow> xlnx_dma_dev" where
  "set_coal k f xdev = xdev\<lparr>xd_intr_coal_list := (xd_intr_coal_list xdev)[k := f (xd_intr_coal_list xdev ! k)]\<rparr>"

definition set_sw_cidx :: "nat \<Rightarrow> u16 \<Rightarrow> xlnx_dma_dev \<Rightarrow> xlnx_dma_dev" where
  "set_sw_cidx k v = set_coal k (ic_cidx_info_update (ic_sw_cidx_update (\<lambda>_. v)))"

definition sw_cidx :: "nat \<Rightarrow> xlnx_dma_dev \<Rightarrow> u16" where
  "sw_cidx k xdev = ic_sw_cidx (ic_cidx_info (xd_intr_coal_list xdev ! k))"

text \<open>
  The consumer index after an entry, with the index the loop keeps beside it. When the index wraps, the colour that is
  inverted is the one of the first ring of the list.
\<close>

definition ring_advance :: "nat \<Rightarrow> u32 \<Rightarrow> xlnx_dma_dev \<Rightarrow> u32 \<times> xlnx_dma_dev" where
  "ring_advance k counter xdev =
     (let xdev1 = set_sw_cidx k (sw_cidx k xdev + 1) xdev
      in if sw_cidx k xdev1 = ic_num_entries (xd_intr_coal_list xdev1 ! k)
         then (0, set_sw_cidx k 0 (set_coal 0 (ic_color_update (\<lambda>c. if c \<noteq> 0 then 0 else 1)) xdev1))
         else (counter + 1, xdev1))"

text \<open>
  The loop. It gives whether it ended at an entry of the wrong colour or at one whose queue was not found, the last queue
  it found and the number of entries it went through.
\<close>

partial_function (option) intr_scan :: "(descq_ref \<Rightarrow> intr_queue) \<Rightarrow> u64 \<Rightarrow> nat \<Rightarrow> u32 \<Rightarrow> descq_ref option \<Rightarrow> u32 \<Rightarrow> 's intr_world \<Rightarrow>
    (bool \<times> descq_ref option \<times> u32 \<times> 's intr_world) option" where
  "intr_scan queues timestamp k counter descq processed w =
     (let coal_entry = xd_intr_coal_list (iw_xdev w) ! k; ring_entry = ic_ring_base coal_entry ! unat counter
      in if entry_color ring_entry \<noteq> ic_color coal_entry then Some (True, descq, processed, w)
         else case entry_descq (iw_xdev w) ring_entry of
           None \<Rightarrow> Some (False, None, processed, w)
         | Some r \<Rightarrow>
             (let (counter1, xdev1) = ring_advance k counter ((iw_xdev w)\<lparr>xd_prev_descq := Some r\<rparr>)
              in intr_scan queues timestamp k counter1 (Some r) (processed + 1)
                   (w\<lparr>iw_xdev := xdev1, iw_events := iw_events w @ queue_events queues timestamp r\<rparr>)))"

declare intr_scan.simps [code]

text \<open>The physical function writes the consumer index to the register of a queue; the result is not looked at.\<close>

definition queue_intr_cidx_update :: "'s mmio \<Rightarrow> (descq_ref \<Rightarrow> intr_queue) \<Rightarrow> descq_ref \<Rightarrow> nat \<Rightarrow> 's intr_world \<Rightarrow> 's intr_world" where
  "queue_intr_cidx_update mm queues r k w =
     w\<lparr>iw_dev := snd (qdma_queue_intr_cidx_update mm True 0 (ucast (iq_qidx (queues r)))
        (Some (ic_cidx_info (xd_intr_coal_list (iw_xdev w) ! k))) (iw_dev w))\<rparr>"

definition data_intr_aggregate :: "'s mmio \<Rightarrow> (descq_ref \<Rightarrow> intr_queue) \<Rightarrow> int \<Rightarrow> u64 \<Rightarrow> 's intr_world \<Rightarrow> 's intr_world option" where
  "data_intr_aggregate mm queues vidx timestamp w =
     (let xdev = iw_xdev w; k = nat (vidx - xd_dvec_start_idx xdev)
      in if xd_msix xdev ! nat vidx \<noteq> ic_vec_id (xd_intr_coal_list xdev ! k) then Some w
         else case intr_scan queues timestamp k (ucast (sw_cidx k xdev)) None 0 w of
           None \<Rightarrow> None
         | Some (ended, descq, processed, w1) \<Rightarrow>
             Some (if \<not> ended then w1
               else case descq of
                 Some r \<Rightarrow> queue_intr_cidx_update mm queues r k w1
               | None \<Rightarrow> if processed \<noteq> 0 then w1
                   else case xd_prev_descq (iw_xdev w1) of
                     Some r \<Rightarrow> queue_intr_cidx_update mm queues r k w1
                   | None \<Rightarrow> w1))"

subsection \<open>Setting the ring up\<close>

text \<open>
  The memory: whether the list of rings can be allocated, and the bus address of the memory for each ring, if there is any.
\<close>

fun intr_rings :: "xlnx_dma_dev \<Rightarrow> int \<Rightarrow> nat \<Rightarrow> u64 option list \<Rightarrow> intr_coal_conf list option" where
  "intr_rings xdev num_entries counter [] = Some []"
| "intr_rings xdev num_entries counter (None # buses) = None"
| "intr_rings xdev num_entries counter (Some bus # buses) =
     (let vec_id = xd_msix xdev ! nat (int counter + xd_dvec_start_idx xdev)
      in case intr_rings xdev num_entries (Suc counter) buses of
           None \<Rightarrow> None
         | Some rest \<Rightarrow> Some (\<lparr>ic_vec_id = vec_id, ic_num_entries = word_of_int num_entries, ic_intr_ring_bus = bus,
               ic_ring_base = replicate (nat num_entries) 0, ic_color = 1,
               ic_cidx_info = \<lparr>ic_sw_cidx = 0, ic_rng_idx = word_of_int (get_intr_ring_index xdev (ucast vec_id))\<rparr>\<rparr> # rest))"

definition intr_ring_setup :: "bool \<Rightarrow> u64 option list \<Rightarrow> xlnx_dma_dev \<Rightarrow> int \<times> xlnx_dma_dev" where
  "intr_ring_setup list_mem ring_mem xdev =
     (if \<not> aggregated xdev then (0, xdev\<lparr>xd_intr_coal_list := []\<rparr>)
      else if xd_num_vecs xdev \<noteq> 0 then
        (let num_entries = (uint (xd_intr_rngsz xdev) + 1) * 512
         in if \<not> list_mem then (- ENOMEM, xdev)
            else case intr_rings xdev num_entries 0 (take QDMA_NUM_DATA_VEC_FOR_INTR_CXT ring_mem) of
              None \<Rightarrow> (- ENOMEM, xdev)
            | Some rings \<Rightarrow> (0, xdev\<lparr>xd_intr_coal_list := rings\<rparr>))
      else (0, xdev\<lparr>xd_intr_coal_list := [], xd_drv_mode := POLL_MODE\<rparr>))"

subsection \<open>The ring as the device fills it\<close>

text \<open>
  The entry a device writes at a position, counted from the start, is of the colour of its lap. A ring holds the newest of
  the entries written, and zeros where none was.
\<close>

definition lap_color :: "nat \<Rightarrow> nat \<Rightarrow> u8" where
  "lap_color n p = (if even (p div n) then 1 else 0)"

definition ring_ok :: "nat \<Rightarrow> u64 list \<Rightarrow> u64 list \<Rightarrow> bool" where
  "ring_ok n es ring \<longleftrightarrow> length ring = n \<and>
     (\<forall>p < length es. entry_color (es ! p) = lap_color n p \<and> (length es \<le> p + n \<longrightarrow> ring ! (p mod n) = es ! p)) \<and>
     (\<forall>i < n. length es \<le> i \<longrightarrow> ring ! i = 0)"

definition ring_post :: "u64 \<Rightarrow> nat \<Rightarrow> nat \<Rightarrow> u64 list \<Rightarrow> u64 list" where
  "ring_post e p n ring = ring[p mod n := e]"

lemma color_values: "entry_color e = 0 \<or> entry_color e = 1"
proof -
  have "entry_color e = of_bool (bit e 63)"
  proof (rule bit_word_eqI)
    fix i assume "i < LENGTH(8)"
    have "bit e (63 + i) \<Longrightarrow> i = 0" by (drule bit_imp_le_length) simp
    then show "bit (entry_color e) i = bit (of_bool (bit e 63) :: u8) i"
      by (auto simp: entry_color_def bit_simps)
  qed
  then show ?thesis by simp
qed

lemma entry_color_zero [simp]: "entry_color 0 = 0"
  by (simp add: entry_color_def)

lemma mod_neq_window: "p mod n \<noteq> q mod n" if "p < q" "q < p + n" for p q n :: nat
  using that by (metis add_diff_cancel_left' less_imp_add_positive mod_eq_dvd_iff_nat nat_dvd_not_less not_less_iff_gr_or_eq
    nat_add_left_cancel_less less_imp_le)

lemma lap_color_add: "0 < n \<Longrightarrow> lap_color n (p + n) \<noteq> lap_color n p"
  by (simp add: lap_color_def div_add_self2)

lemma ring_post_ok:
  assumes "ring_ok n es ring" and "0 < n" and "entry_color e = lap_color n (length es)"
  shows "ring_ok n (es @ [e]) (ring_post e (length es) n ring)"
proof -
  have "ring_post e (length es) n ring ! (p mod n) = es ! p" if "p < length es" "length es + 1 \<le> p + n" for p
  proof -
    have "p mod n \<noteq> length es mod n" using that by (intro mod_neq_window) auto
    then show ?thesis using assms(1) that by (auto simp: ring_ok_def ring_post_def)
  qed
  moreover have "ring_post e (length es) n ring ! i = 0" if "i < n" "length es < i" for i
    using that assms(1) by (auto simp: ring_ok_def ring_post_def nth_list_update)
  moreover have "length es mod n < n" using assms(2) by simp
  ultimately show ?thesis
    using assms by (auto simp: ring_ok_def nth_append less_Suc_eq) (auto simp: ring_post_def ring_ok_def)
qed

text \<open>The colour at the position after the last entry tells that it is the last.\<close>

lemma ring_end:
  assumes "ring_ok n es ring" and "0 < n"
  shows "entry_color (ring ! (length es mod n)) \<noteq> lap_color n (length es)"
proof (cases "length es < n")
  case True
  then show ?thesis using assms by (simp add: ring_ok_def lap_color_def)
next
  case False
  define p where "p = length es - n"
  have p: "length es = p + n" "p < length es" using False assms(2) by (simp_all add: p_def)
  then have "ring ! (length es mod n) = es ! p" and "entry_color (es ! p) = lap_color n p"
    using assms(1) unfolding ring_ok_def by (metis le_refl mod_add_self2, metis)
  then show ?thesis using lap_color_add [OF assms(2), of p] p(1) by simp
qed

subsection \<open>The handler goes through the new entries\<close>

text \<open>The driver's side of the ring once it has gone through the entries before a position.\<close>

definition ring_at :: "nat \<Rightarrow> nat \<Rightarrow> xlnx_dma_dev \<Rightarrow> xlnx_dma_dev" where
  "ring_at n c = set_coal 0 (\<lambda>coal. coal\<lparr>ic_color := lap_color n c,
     ic_cidx_info := (ic_cidx_info coal)\<lparr>ic_sw_cidx := of_nat (c mod n)\<rparr>\<rparr>)"

definition driver_at :: "nat \<Rightarrow> nat \<Rightarrow> xlnx_dma_dev \<Rightarrow> bool" where
  "driver_at n c xdev \<longleftrightarrow> xd_intr_coal_list xdev \<noteq> [] \<and> xd_qdev xdev \<noteq> None \<and>
     ic_num_entries (xd_intr_coal_list xdev ! 0) = of_nat n \<and> ic_color (xd_intr_coal_list xdev ! 0) = lap_color n c \<and>
     sw_cidx 0 xdev = of_nat (c mod n)"

definition the_ring :: "xlnx_dma_dev \<Rightarrow> u64 list" where
  "the_ring xdev = ic_ring_base (xd_intr_coal_list xdev ! 0)"

lemma ring_at_facts [simp]:
  "ring_at n d (ring_at n c xdev) = ring_at n d xdev"
  "(ring_at n c xdev)\<lparr>xd_prev_descq := p\<rparr> = ring_at n c (xdev\<lparr>xd_prev_descq := p\<rparr>)"
  "xd_intr_coal_list xdev \<noteq> [] \<Longrightarrow> the_ring (ring_at n c xdev) = the_ring xdev"
  "entry_descq (ring_at n c xdev) = entry_descq xdev" "entry_descq (xdev\<lparr>xd_prev_descq := p\<rparr>) = entry_descq xdev"
  "the_ring (xdev\<lparr>xd_prev_descq := p\<rparr>) = the_ring xdev" "driver_at n c (xdev\<lparr>xd_prev_descq := p\<rparr>) = driver_at n c xdev"
  "xd_prev_descq (ring_at n c xdev) = xd_prev_descq xdev"
  by (cases "xd_intr_coal_list xdev"; simp add: ring_at_def set_coal_def the_ring_def entry_descq_def fun_eq_iff
    qdma_device_get_descq_by_hw_qid_def driver_at_def sw_cidx_def)+

lemma driver_at_ring_at: "driver_at n c xdev \<Longrightarrow> driver_at n d (ring_at n d xdev)"
  by (cases "xd_intr_coal_list xdev") (simp_all add: driver_at_def ring_at_def set_coal_def sw_cidx_def)

lemma ring_at_driver: "driver_at n c xdev \<Longrightarrow> ring_at n c xdev = xdev"
  by (cases "xd_intr_coal_list xdev") (simp_all add: driver_at_def ring_at_def set_coal_def sw_cidx_def)

lemma Suc_lap:
  assumes "0 < n"
  shows "Suc (c mod n) = n \<Longrightarrow> Suc c mod n = 0 \<and> lap_color n (Suc c) = (if lap_color n c \<noteq> 0 then 0 else 1)"
    and "Suc (c mod n) \<noteq> n \<Longrightarrow> Suc c mod n = Suc (c mod n) \<and> lap_color n (Suc c) = lap_color n c"
  using assms by (simp_all add: mod_Suc div_Suc lap_color_def)

lemma ring_advance_step:
  assumes "driver_at n c xdev" and "0 < n" and "n < 2 ^ 16"
  shows "ring_advance 0 (of_nat (c mod n)) xdev = (of_nat (Suc c mod n), ring_at n (Suc c) xdev)"
proof -
  have lt: "Suc (c mod n) \<le> n" using assms(2) by (simp add: Suc_leI)
  have "(of_nat (Suc (c mod n)) :: u16) = of_nat n \<longleftrightarrow> Suc (c mod n) = n"
    using lt assms(3) unfolding word_of_nat_eq_iff by (simp add: take_bit_nat_eq_self)
  then have eq: "(1 + of_nat (c mod n) :: u16) = of_nat n \<longleftrightarrow> Suc (c mod n) = n" by simp
  obtain coal cs where l: "xd_intr_coal_list xdev = coal # cs" using assms(1) by (cases "xd_intr_coal_list xdev") (auto simp: driver_at_def)
  show ?thesis
    using assms(1) Suc_lap [OF assms(2), of c]
    by (cases "Suc (c mod n) = n")
      (simp_all add: ring_advance_def Let_def driver_at_def ring_at_def set_sw_cidx_def set_coal_def sw_cidx_def l eq add.commute)
qed

definition entries_events :: "(descq_ref \<Rightarrow> intr_queue) \<Rightarrow> u64 \<Rightarrow> xlnx_dma_dev \<Rightarrow> u64 list \<Rightarrow> intr_event list" where
  "entries_events queues timestamp xdev es = concat (map (\<lambda>e. queue_events queues timestamp (the (entry_descq xdev e))) es)"

lemma intr_scan_entries:
  assumes "driver_at n c (iw_xdev w)" and "ring_ok n es (the_ring (iw_xdev w))" and "c \<le> length es" and "length es \<le> c + n"
    and "0 < n" and "n < 2 ^ 16"
  shows "intr_scan queues timestamp 0 (of_nat (c mod n)) descq processed w =
    Some (True, if c < length es then entry_descq (iw_xdev w) (last es) else descq, processed + of_nat (length es - c),
      w\<lparr>iw_xdev := ring_at n (length es) ((iw_xdev w)\<lparr>xd_prev_descq :=
           if c < length es then entry_descq (iw_xdev w) (last es) else xd_prev_descq (iw_xdev w)\<rparr>),
         iw_events := iw_events w @ entries_events queues timestamp (iw_xdev w) (drop c es)\<rparr>)"
  using assms(1-4)
proof (induction "length es - c" arbitrary: c descq processed w)
  case 0
  then have c: "c = length es" by simp
  have "unat (of_nat (c mod n) :: u32) = c mod n"
    using mod_less_divisor [OF assms(5), of c] assms(6) by (simp add: unat_of_nat take_bit_nat_eq_self)
  moreover have "entry_color (the_ring (iw_xdev w) ! (c mod n)) \<noteq> ic_color (xd_intr_coal_list (iw_xdev w) ! 0)"
    using ring_end [OF 0(3) assms(5)] 0(2) c by (simp add: driver_at_def)
  ultimately show ?case
    using ring_at_driver [OF 0(2)] c
    by (subst intr_scan.simps) (simp add: Let_def the_ring_def entries_events_def)
next
  case (Suc m)
  let ?x = "iw_xdev w"
  have c: "c < length es" using Suc.hyps(2) by simp
  obtain r where r: "entry_descq ?x (es ! c) = Some r"
    using Suc.prems(1) by (auto simp: driver_at_def entry_descq_def qdma_device_get_descq_by_hw_qid_def)
  have l: "xd_intr_coal_list ?x \<noteq> []" using Suc.prems(1) by (simp add: driver_at_def)
  have u: "unat (of_nat (c mod n) :: u32) = c mod n"
    using mod_less_divisor [OF assms(5), of c] assms(6) by (simp add: unat_of_nat take_bit_nat_eq_self)
  have e: "the_ring ?x ! (c mod n) = es ! c" "entry_color (es ! c) = ic_color (xd_intr_coal_list ?x ! 0)"
    using Suc.prems(1,2,4) c by (auto simp: ring_ok_def driver_at_def)
  define x1 where "x1 = ring_at n (Suc c) (?x\<lparr>xd_prev_descq := Some r\<rparr>)"
  define w1 where "w1 = w\<lparr>iw_xdev := x1, iw_events := iw_events w @ queue_events queues timestamp r\<rparr>"
  have d1: "driver_at n (Suc c) (iw_xdev w1)"
    unfolding w1_def x1_def using driver_at_ring_at [of n c "?x\<lparr>xd_prev_descq := Some r\<rparr>"] Suc.prems(1) by simp
  have x1: "entry_descq x1 = entry_descq ?x" "the_ring x1 = the_ring ?x" "xd_prev_descq x1 = Some r"
    using l by (simp_all add: x1_def)
  have last_step: "\<not> Suc c < length es \<Longrightarrow> last es = es ! c"
    using c by (metis Suc_lessI diff_Suc_1 last_conv_nth length_0_conv not_less_zero)
  have "intr_scan queues timestamp 0 (of_nat (c mod n)) descq processed w =
      intr_scan queues timestamp 0 (of_nat (Suc c mod n)) (Some r) (processed + 1) w1"
    using ring_advance_step [of n c "?x\<lparr>xd_prev_descq := Some r\<rparr>"] assms(5,6) Suc.prems(1) e r u
    by (subst intr_scan.simps) (simp add: Let_def the_ring_def w1_def x1_def)
  also have "\<dots> = Some (True, if Suc c < length es then entry_descq x1 (last es) else Some r,
      processed + 1 + of_nat (length es - Suc c),
      w1\<lparr>iw_xdev := ring_at n (length es) (x1\<lparr>xd_prev_descq := if Suc c < length es then entry_descq x1 (last es) else Some r\<rparr>),
         iw_events := iw_events w1 @ entries_events queues timestamp x1 (drop (Suc c) es)\<rparr>)"
    using Suc.hyps(1) [of "Suc c" w1 "Some r" "processed + 1"] Suc.hyps(2) Suc.prems(2,4) d1 c x1
    by (simp add: w1_def)
  also have "(if Suc c < length es then entry_descq x1 (last es) else Some r) = entry_descq ?x (last es)"
    using last_step by (simp add: x1 r)
  also have "processed + 1 + of_nat (length es - Suc c) = processed + of_nat (length es - c)"
    using c by (simp add: Suc_diff_Suc [symmetric])
  also have "iw_events w1 @ entries_events queues timestamp x1 (drop (Suc c) es) =
      iw_events w @ entries_events queues timestamp ?x (drop c es)"
    using c r x1 by (simp add: w1_def entries_events_def Cons_nth_drop_Suc [symmetric])
  finally show ?case using c by (simp add: w1_def x1_def)
qed

subsection \<open>Devices that write and handlers that read\<close>

text \<open>
  The device writes an entry when it has fewer outstanding than the ring holds, as it counts the ones the handler went
  through, and the handler runs at any time.
\<close>

definition is_dispatch :: "intr_event \<Rightarrow> bool" where
  "is_dispatch e = (case e of PingPongRx r t \<Rightarrow> False | _ \<Rightarrow> True)"

definition dispatched :: "'s intr_world \<Rightarrow> nat" where
  "dispatched w = length (filter is_dispatch (iw_events w))"

definition post_entry :: "u64 \<Rightarrow> nat \<Rightarrow> nat \<Rightarrow> 's intr_world \<Rightarrow> 's intr_world" where
  "post_entry e p n w = w\<lparr>iw_xdev := set_coal 0 (ic_ring_base_update (ring_post e p n)) (iw_xdev w)\<rparr>"

inductive intr_run :: "'s mmio \<Rightarrow> (descq_ref \<Rightarrow> intr_queue) \<Rightarrow> int \<Rightarrow> nat \<Rightarrow> u64 \<Rightarrow> 's intr_world \<Rightarrow> u64 list \<Rightarrow> 's intr_world \<Rightarrow> bool"
  for mm queues vidx n timestamp w0 where
  start: "intr_run mm queues vidx n timestamp w0 [] w0"
| post: "intr_run mm queues vidx n timestamp w0 es w \<Longrightarrow> entry_color e = lap_color n (length es) \<Longrightarrow> length es < dispatched w + n \<Longrightarrow>
    intr_run mm queues vidx n timestamp w0 (es @ [e]) (post_entry e (length es) n w)"
| interrupt: "intr_run mm queues vidx n timestamp w0 es w \<Longrightarrow> data_intr_aggregate mm queues vidx timestamp w = Some w1 \<Longrightarrow>
    intr_run mm queues vidx n timestamp w0 es w1"

text \<open>The vector the handler is called for is the one of the first ring, which is the only one.\<close>

definition first_vector :: "int \<Rightarrow> xlnx_dma_dev \<Rightarrow> bool" where
  "first_vector vidx xdev \<longleftrightarrow> vidx = xd_dvec_start_idx xdev \<and> xd_msix xdev ! nat vidx = ic_vec_id (xd_intr_coal_list xdev ! 0)"

definition fresh_ring :: "int \<Rightarrow> nat \<Rightarrow> 's intr_world \<Rightarrow> bool" where
  "fresh_ring vidx n w \<longleftrightarrow> 0 < n \<and> n < 2 ^ 16 \<and> first_vector vidx (iw_xdev w) \<and> driver_at n 0 (iw_xdev w) \<and>
     the_ring (iw_xdev w) = replicate n 0 \<and> iw_events w = []"

definition ring_inv :: "(descq_ref \<Rightarrow> intr_queue) \<Rightarrow> int \<Rightarrow> nat \<Rightarrow> u64 \<Rightarrow> xlnx_dma_dev \<Rightarrow> u64 list \<Rightarrow> nat \<Rightarrow> 's intr_world \<Rightarrow> bool" where
  "ring_inv queues vidx n timestamp x0 es c w \<longleftrightarrow> first_vector vidx (iw_xdev w) \<and> driver_at n c (iw_xdev w) \<and>
     ring_ok n es (the_ring (iw_xdev w)) \<and> c \<le> length es \<and> length es \<le> c + n \<and> entry_descq (iw_xdev w) = entry_descq x0 \<and>
     iw_events w = entries_events queues timestamp x0 (take c es)"

lemma dispatched_entries:
  "iw_events w = entries_events queues timestamp x0 es \<Longrightarrow> dispatched w = length es"
proof -
  have "length (filter is_dispatch (queue_events queues timestamp r)) = 1" for r
    by (simp add: queue_events_def is_dispatch_def Let_def)
  then have "length (filter is_dispatch (entries_events queues timestamp x0 es)) = length es"
    by (induction es) (simp_all add: entries_events_def)
  then show "iw_events w = entries_events queues timestamp x0 es \<Longrightarrow> dispatched w = length es" by (simp add: dispatched_def)
qed

lemma queue_update_world [simp]:
  "iw_xdev (queue_intr_cidx_update mm queues r k w) = iw_xdev w" "iw_events (queue_intr_cidx_update mm queues r k w) = iw_events w"
  by (simp_all add: queue_intr_cidx_update_def)

lemma ucast_nat_small: "m < 2 ^ 16 \<Longrightarrow> (ucast (of_nat m :: u16) :: u32) = of_nat m"
  by (simp add: word_unat_eq_iff unsigned_ucast_eq unat_of_nat take_bit_nat_eq_self)

lemma ring_at_other [simp]:
  "first_vector vidx (ring_at n c xdev) = first_vector vidx xdev"
  "first_vector vidx (xdev\<lparr>xd_prev_descq := p\<rparr>) = first_vector vidx xdev"
  by (cases "xd_intr_coal_list xdev"; simp add: first_vector_def ring_at_def set_coal_def)+

text \<open>One run of the handler.\<close>

lemma aggregate_entries:
  assumes "ring_inv queues vidx n timestamp x0 es c w" and "0 < n" and "n < 2 ^ 16"
  shows "\<exists>w1. data_intr_aggregate mm queues vidx timestamp w = Some w1 \<and> ring_inv queues vidx n timestamp x0 es (length es) w1 \<and>
    (c < length es \<longrightarrow> iw_dev w1 = snd (qdma_queue_intr_cidx_update mm True 0
       (ucast (iq_qidx (queues (the (entry_descq x0 (last es))))))
       (Some \<lparr>ic_sw_cidx = of_nat (length es mod n), ic_rng_idx = ic_rng_idx (ic_cidx_info (xd_intr_coal_list (iw_xdev w) ! 0))\<rparr>)
       (iw_dev w)))"
proof -
  let ?x = "iw_xdev w"
  have i: "first_vector vidx ?x" "driver_at n c ?x" "ring_ok n es (the_ring ?x)" "c \<le> length es" "length es \<le> c + n"
    "entry_descq ?x = entry_descq x0" "iw_events w = entries_events queues timestamp x0 (take c es)"
    using assms(1) by (simp_all add: ring_inv_def)
  have k: "nat (vidx - xd_dvec_start_idx ?x) = 0" using i(1) by (simp add: first_vector_def)
  have m: "xd_msix ?x ! nat vidx = ic_vec_id (xd_intr_coal_list ?x ! 0)"
    using i(1) unfolding first_vector_def by (rule conjunct2)
  have u: "ucast (sw_cidx 0 ?x) = (of_nat (c mod n) :: u32)"
    using i(2) mod_less_divisor [OF assms(2), of c] assms(3) by (simp add: driver_at_def ucast_nat_small)
  obtain r where r: "entry_descq ?x (last es) = Some r"
    using i(2) by (auto simp: driver_at_def entry_descq_def qdma_device_get_descq_by_hw_qid_def)
  have l: "xd_intr_coal_list ?x \<noteq> []" using i(2) by (simp add: driver_at_def)
  define p where "p = (if c < length es then Some r else xd_prev_descq ?x)"
  define w2 where "w2 = w\<lparr>iw_xdev := ring_at n (length es) (?x\<lparr>xd_prev_descq := p\<rparr>),
    iw_events := iw_events w @ entries_events queues timestamp ?x (drop c es)\<rparr>"
  have s: "intr_scan queues timestamp 0 (ucast (sw_cidx 0 ?x)) None 0 w =
      Some (True, if c < length es then Some r else None, of_nat (length es - c), w2)"
    unfolding u using intr_scan_entries [OF i(2,3,4,5) assms(2,3), of queues timestamp None 0] r
    by (simp add: w2_def p_def)
  have a: "data_intr_aggregate mm queues vidx timestamp w =
      Some (case p of Some r \<Rightarrow> queue_intr_cidx_update mm queues r 0 w2 | None \<Rightarrow> w2)"
    unfolding data_intr_aggregate_def Let_def k s using m i(4) by (simp add: p_def w2_def split: option.split)
  have "entries_events queues timestamp ?x (drop c es) = entries_events queues timestamp x0 (drop c es)"
    by (simp add: entries_events_def i(6))
  then have "iw_events w2 = entries_events queues timestamp x0 es"
    by (simp add: w2_def i(7) entries_events_def flip: concat_append map_append)
  then have v: "ring_inv queues vidx n timestamp x0 es (length es) w2"
    using i l driver_at_ring_at [of n c "?x\<lparr>xd_prev_descq := p\<rparr>" "length es"] by (simp add: ring_inv_def w2_def)
  have cidx: "ic_cidx_info (xd_intr_coal_list (iw_xdev w2) ! 0) =
      \<lparr>ic_sw_cidx = of_nat (length es mod n), ic_rng_idx = ic_rng_idx (ic_cidx_info (xd_intr_coal_list ?x ! 0))\<rparr>"
    using l by (cases "xd_intr_coal_list ?x") (simp_all add: w2_def ring_at_def set_coal_def)
  show ?thesis
    using a v cidx r i(6)
    by (auto simp: p_def queue_intr_cidx_update_def w2_def ring_inv_def split: option.split)
qed

lemma post_keeps:
  assumes "ring_inv queues vidx n timestamp x0 es c w" and "0 < n" and "entry_color e = lap_color n (length es)"
    and "length es < dispatched w + n"
  shows "ring_inv queues vidx n timestamp x0 (es @ [e]) c (post_entry e (length es) n w)"
proof -
  have "dispatched w = c" using assms(1) dispatched_entries [of w queues timestamp x0 "take c es"] by (simp add: ring_inv_def)
  moreover have "xd_intr_coal_list (iw_xdev w) \<noteq> []" using assms(1) by (simp add: ring_inv_def driver_at_def)
  ultimately show ?thesis
    using assms ring_post_ok [of n es "the_ring (iw_xdev w)" e]
    by (cases "xd_intr_coal_list (iw_xdev w)")
      (auto simp: ring_inv_def post_entry_def set_coal_def the_ring_def driver_at_def sw_cidx_def first_vector_def entry_descq_def
        qdma_device_get_descq_by_hw_qid_def fun_eq_iff)
qed

lemma intr_run_inv:
  assumes "intr_run mm queues vidx n timestamp w0 es w" and "fresh_ring vidx n w0"
  shows "\<exists>c. ring_inv queues vidx n timestamp (iw_xdev w0) es c w"
  using assms
proof (induction rule: intr_run.induct)
  case start
  have "ring_inv queues vidx n timestamp (iw_xdev w0) [] 0 w0"
    using start by (simp add: fresh_ring_def ring_inv_def ring_ok_def entries_events_def)
  then show ?case ..
next
  case (post es w e)
  then show ?case using post_keeps unfolding fresh_ring_def by blast
next
  case (interrupt es w w1)
  then obtain c where "ring_inv queues vidx n timestamp (iw_xdev w0) es c w" by blast
  from aggregate_entries [OF this, of mm] interrupt show ?case by (auto simp: fresh_ring_def)
qed

text \<open>What the set-up leaves is an empty ring, with the handler at its start.\<close>

lemma intr_ring_setup_fresh:
  assumes "intr_ring_setup True (Some bus # mem) xdev = (rv, x0)" and "aggregated xdev" and "xd_num_vecs xdev \<noteq> 0"
    and "uint (xd_intr_rngsz xdev) < 127" and "xd_qdev xdev \<noteq> None"
  shows "rv = 0 \<and> fresh_ring (xd_dvec_start_idx xdev) (nat ((uint (xd_intr_rngsz xdev) + 1) * 512))
    \<lparr>iw_xdev = x0, iw_events = [], iw_dev = s0\<rparr>"
proof -
  let ?n = "(uint (xd_intr_rngsz xdev) + 1) * 512"
  have n: "0 < ?n" "?n < 2 ^ 16" using assms(4) by (auto intro: add_nonneg_pos)
  then have "(word_of_int ?n :: u16) = of_nat (nat ?n)" by (simp add: of_nat_nat)
  then show ?thesis
    using assms(1,2,3,5) n
    by (auto simp: intr_ring_setup_def Let_def QDMA_NUM_DATA_VEC_FOR_INTR_CXT_def fresh_ring_def first_vector_def
      driver_at_def the_ring_def sw_cidx_def lap_color_def)
qed

end
