(* ===== verification/Intr_Claims.thy ===== *)
theory Intr_Claims
  imports Intr_Ring Queue_Claims
begin

section \<open>Interrupts reach their queues\<close>

text \<open>
  The claim about the interrupt aggregation ring as a whole, from its set-up through any interleaving of a device that
  writes entries and a handler that runs, with a simulated device for the witness.
\<close>

definition sim_intr_queue :: intr_queue where
  "sim_intr_queue = \<lparr>iq_isr_top = False, iq_cpu_assigned = False, iq_intr_work_cpu = 0, iq_qidx = 4, iq_ping_pong_en = False,
     iq_q_type = Q_C2H, iq_st = True\<rparr>"

definition sim_intr_world :: "ind_view intr_world" where
  "sim_intr_world = \<lparr>iw_xdev = snd (intr_ring_setup True [Some 0x5000] sim_xdev), iw_events = [], iw_dev = sim_start\<rparr>"

text \<open>Entries for queue 37, card to host, and queue 32, host to card, in the first lap.\<close>

definition sim_entry :: "u64 \<Rightarrow> u64 \<Rightarrow> u64" where
  "sim_entry c2h q = push_bit 63 1 OR push_bit 39 q OR push_bit 38 c2h"

text \<open>
  C8: no interrupt is lost, repeated or given to another queue. From the set-up of the ring on, whatever the device writes
  into it and whenever the handler runs, the queues that the handler has served are those of the first entries written, in
  their order, however often the ring has wrapped; and a run of the handler always returns and serves all the rest.
\<close>

theorem interrupts_delivered:
  assumes "intr_ring_setup True (Some bus # mem) xdev = (rv, x0)" and "aggregated xdev" and "xd_num_vecs xdev \<noteq> 0"
    and "uint (xd_intr_rngsz xdev) < 127" and "xd_qdev xdev \<noteq> None" and "n = nat ((uint (xd_intr_rngsz xdev) + 1) * 512)"
    and "intr_run mm queues (xd_dvec_start_idx xdev) n timestamp \<lparr>iw_xdev = x0, iw_events = [], iw_dev = s0\<rparr> es w"
  shows "(\<exists>c \<le> length es. iw_events w = entries_events queues timestamp x0 (take c es)) \<and>
    (\<exists>w1. data_intr_aggregate mm queues (xd_dvec_start_idx xdev) timestamp w = Some w1 \<and>
      iw_events w1 = entries_events queues timestamp x0 es)"
proof -
  have f: "fresh_ring (xd_dvec_start_idx xdev) n \<lparr>iw_xdev = x0, iw_events = [], iw_dev = s0\<rparr>"
    using intr_ring_setup_fresh [OF assms(1-5), of s0] unfolding assms(6) by blast
  then obtain c where c: "ring_inv queues (xd_dvec_start_idx xdev) n timestamp x0 es c w"
    using intr_run_inv [OF assms(7) f] by auto
  from aggregate_entries [OF c, of mm] f c show ?thesis by (auto simp: fresh_ring_def ring_inv_def)
qed

theorem interrupts_delivered_witness:
  "\<exists>w1. data_intr_aggregate sim (\<lambda>_. sim_intr_queue) 2 7
      (post_entry (sim_entry 0 32) 1 1024 (post_entry (sim_entry 1 37) 0 1024 sim_intr_world)) = Some w1 \<and>
    iw_events w1 = [ScheduleWork (True, 5), ScheduleWork (False, 0)]"
proof -
  let ?e1 = "sim_entry 1 37" and ?e2 = "sim_entry 0 32" and ?q = "\<lambda>_. sim_intr_queue"
  have x: "xd_dvec_start_idx sim_xdev = 2" "aggregated sim_xdev" "xd_num_vecs sim_xdev \<noteq> 0" "uint (xd_intr_rngsz sim_xdev) < 127"
    "xd_qdev sim_xdev \<noteq> None" "1024 = nat ((uint (xd_intr_rngsz sim_xdev) + 1) * 512)"
    by (simp_all add: sim_xdev_def aggregated_def)
  have c: "entry_color ?e1 = lap_color 1024 0" "entry_color ?e2 = lap_color 1024 (Suc 0)"
    by (simp_all add: sim_entry_def entry_color_def lap_color_def)
  have d: "dispatched sim_intr_world = 0" "dispatched (post_entry ?e1 0 1024 sim_intr_world) = 0"
    by (simp_all add: dispatched_def sim_intr_world_def post_entry_def)
  have r1: "intr_run sim ?q 2 1024 7 sim_intr_world [?e1] (post_entry ?e1 0 1024 sim_intr_world)"
    using intr_run.post [OF intr_run.start, of ?e1 1024 sim_intr_world sim ?q 2 7] c(1) d(1) by simp
  have r2: "intr_run sim ?q 2 1024 7 sim_intr_world [?e1, ?e2] (post_entry ?e2 1 1024 (post_entry ?e1 0 1024 sim_intr_world))"
    using intr_run.post [OF r1, of ?e2] c(2) d(2) by simp
  obtain rv x0 where s: "intr_ring_setup True (Some 0x5000 # []) sim_xdev = (rv, x0)" by fastforce
  then have w: "sim_intr_world = \<lparr>iw_xdev = x0, iw_events = [], iw_dev = sim_start\<rparr>" by (simp add: sim_intr_world_def)
  have q: "xd_qdev x0 = Some 32" "\<not> xd_cpm4 x0"
    using s by (auto simp: intr_ring_setup_def sim_xdev_def aggregated_def Let_def QDMA_NUM_DATA_VEC_FOR_INTR_CXT_def)
  have "entries_events ?q 7 x0 [?e1, ?e2] = [ScheduleWork (True, 5), ScheduleWork (False, 0)]"
    using q by (simp add: entries_events_def entry_descq_def qdma_device_get_descq_by_hw_qid_def sim_entry_def entry_qid_def
      entry_type_def queue_events_def sim_intr_queue_def)
  moreover note interrupts_delivered [OF s x(2-6), of sim ?q 7 sim_start "[?e1, ?e2]", unfolded x(1), folded w, OF r2]
  ultimately show ?thesis by simp
qed

end
