(* ===== verification/Spec2Isabelle.thy ===== *)
theory Spec2Isabelle
  imports Prelude Qdma_List Resource_Mgmt Bitfield Reg_Access Eqdma_Ind
    Ctxt_Sw Ctxt_Pfetch Ctxt_Cmpt Ctxt_Misc Ctxt_Intr Eqdma_Csr Soft_Csr
    Mbox_Layout Mbox_Msg Mbox_Handler Mbox_Isolation Mbox_Service Mbox_Hw
    Xdma_Desc Xdma_Engine Xdma_Submit Xdma_Moves Xdma_Returns
    Dma_Bytes Descq Descq_Proc Descq_Fill Descq_Queue Descq_Run Descq_Mm Descq_Moves Descq_Drain Descq_Device Descq_Edges Descq_Claims
    Queue_Ctxt Queue_Store Queue_Eqdma Queue_Claims Intr_Ring Intr_Claims
begin

text \<open>
  \<^bold>\<open>The QDMA access library and the XDMA engine of the Linux drivers, in Isabelle/HOL.\<close>

  The repository holds FPGA designs, two Linux drivers (XDMA and QDMA) and their tools. The core of the QDMA driver is
  its access library, \<open>src/qdma-driver/driver/libqdma/qdma_access\<close>: it decides which queues belong to which PCI
  function, encodes the state of a queue into the context memory of the device, sets up the global registers, and lets
  the physical function serve the requests that virtual functions send through a mailbox. The rest of the driver
  (descriptor rings, kernel glue, character devices) calls it. This development models that library for the EQDMA
  device, the variant whose code is in \<open>eqdma_soft_access\<close>, with the functions of \<open>qdma_soft_access\<close> and
  \<open>qdma_access_common.c\<close> that its hardware table installs. The core of the XDMA driver is \<open>src/xdma-driver/xdma/libxdma.c\<close>:
  it cuts a request into descriptors, runs them as transfers on a DMA engine, and serves the engine's interrupts. That
  path, from a submission to its completion, is modelled too, and so is its counterpart in the QDMA driver: the descriptor
  rings of \<open>qdma_descq.c\<close>, for memory mapped queues and host-to-card streams. Two parts of that driver tie the rings to
  the access library: \<open>qdma_context.c\<close>, which programs the contexts of a queue through the hardware table, and the ring
  of aggregated interrupts in \<open>qdma_intr.c\<close>, which tells which queues to serve.

  \<^bold>\<open>How the code is modelled.\<close> A struct is a record, an enumeration a datatype with its numbers as functions, an
  integer a word of its width, so that sums wrap as in C; \<open>int\<close> return values are mathematical integers, and a
  negative one is an error of \<open>qdma_access_errors.h\<close> (\<open>neg_err\<close>). A null pointer is \<open>None\<close>. State is passed
  explicitly. The device is a record of functions over an arbitrary state (\<open>mmio\<close>: read, write, delay, lock,
  release), and each operation passes that state through its register accesses in the order of the code; what a proof
  needs of a device is a named contract with a simulated device as an instance. Allocation is a supply of outcomes.
  Log output is left out.

  \<^bold>\<open>The theories and the code they model.\<close>
  \<^item> \<open>Prelude\<close>: \<open>qdma_access_errors.h\<close>, \<open>qdma_access_export.h\<close>, types and generic lemmas.
  \<^item> \<open>Qdma_List\<close>: \<open>qdma_list.[hc]\<close>, the intrusive list on an explicit heap, refined to sequences.
  \<^item> \<open>Resource_Free\<close>, \<open>Resource_Mgmt\<close>: \<open>qdma_resource_mgmt.c\<close>, the free list of queue ranges (submit, merge,
    hint, best fit, split) and the operations on devices and functions over it. The linked lists are HOL lists here,
    which \<open>Qdma_List\<close> justifies. The lock of the manager is not modelled: a call is one step.
  \<^item> \<open>Bitfield\<close>: the field macros of \<open>eqdma_soft_reg.h\<close> and both versions of \<open>get_trailing_zeros\<close>.
  \<^item> \<open>Reg_Access\<close>: \<open>hw_monitor_reg\<close> and the blocks of CSR values (\<open>qdma_access_common.c\<close>).
  \<^item> \<open>Eqdma_Ind\<close>: the four indirect operations on context memory (\<open>eqdma_indirect_reg_*\<close>) with their lock.
  \<^item> \<open>Ctxt_Codec\<close>, \<open>Ctxt_Sw\<close>, \<open>Ctxt_Pfetch\<close>, \<open>Ctxt_Cmpt\<close>, \<open>Ctxt_Misc\<close>, \<open>Ctxt_Intr\<close>: for each context its
    record, the packing into words, the unpacking, and the write, read, clear and invalidate operations with the
    dispatcher the hardware table names.
  \<^item> \<open>Eqdma_Csr\<close>: attributes, default global registers, the tables of ring sizes, timers, counters and buffer
    sizes, writeback interval, memory mapped channel, initialisation of the context memory (built with
    \<open>ENABLE_INIT_CTXT_MEMORY\<close>), all of \<open>eqdma_soft_access.c\<close>.
  \<^item> \<open>Soft_Csr\<close>: the copies of \<open>qdma_soft_access.c\<close> that an EQDMA device runs, and the index registers of queues
    (producer, completion consumer, interrupt consumer).
  \<^item> \<open>Memory\<close>, \<open>Mbox_Layout\<close>: bytes, and the offsets of the fields of the message union
    \<open>union qdma_mbox_txrx\<close> under the System V AMD64 ABI (little endian, natural alignment, bit-fields from bit 0).
  \<^item> \<open>Mbox_Msg\<close>: opcodes, composers and readers of messages, the handler of a virtual function.
  \<^item> \<open>Mbox_Handler\<close>: the hardware table, the queue context operations of the mailbox and every case of
    \<open>qdma_mbox_pf_rcv_msg_handler\<close>, over the resource manager and the contexts above.
  \<^item> \<open>Mbox_Hw\<close>: the mailbox registers, sending, receiving, acknowledgement and interrupts.
  \<^item> \<open>Mbox_Isolation\<close>, \<open>Mbox_Service\<close>: the properties of the handler.
  \<^item> \<open>Xdma_Desc\<close>: requests, descriptors and the set-up of a transfer (\<open>xdma_init_request\<close>, \<open>xdma_desc_*\<close>,
    \<open>xdma_get_next_adj\<close>, \<open>transfer_desc_init\<close>, \<open>transfer_build\<close>, \<open>transfer_init\<close>).
  \<^item> \<open>Xdma_Engine\<close>: the engine, its registers, start and stop, the service of its interrupts and its queue
    (\<open>engine_start\<close>, \<open>engine_service*\<close>, \<open>transfer_queue\<close>, \<open>transfer_abort\<close>).
  \<^item> \<open>Xdma_Submit\<close>: \<open>xdma_xfer_submit\<close> with its loop over transfers; what happens while it waits is an argument.
  \<^item> \<open>Xdma_Moves\<close>, \<open>Xdma_Returns\<close>: the properties of a submission.
  \<^item> \<open>Dma_Bytes\<close>: error numbers, scatter lists and blocks of bytes, for both drivers.
  \<^item> \<open>Descq\<close>: a queue (\<open>struct qdma_descq\<close>), its requests, descriptors and lists, mapping, and completion
    (\<open>qdma_sgl_find_offset\<close>, \<open>qdma_update_request\<close>, \<open>sgl_map\<close>, \<open>sgl_unmap\<close>, \<open>qdma_sgt_req_done\<close>, \<open>qdma_pidx_update\<close>,
    \<open>descq_mm_n_h2c_cmpl_status\<close>).
  \<^item> \<open>Descq_Proc\<close>: the processing functions \<open>descq_mm_proc_request\<close> and \<open>descq_proc_st_h2c_request\<close> with their loops, the
    service routine, submission, waiting, stop and start (\<open>qdma_descq.c\<close>, \<open>libqdma_export.c\<close>).
  \<^item> \<open>Descq_Fill\<close>, \<open>Descq_Queue\<close>, \<open>Descq_Run\<close>, \<open>Descq_Mm\<close>: the lemmas on rings and scatter lists, the contract of the hardware
    and the invariant of a queue, the processing loop over any kind of queue (locale \<open>dq_filler\<close>), and the two kinds.
  \<^item> \<open>Descq_Moves\<close>, \<open>Descq_Drain\<close>: queues in use, as a step relation (\<open>q_run\<close>), and services that empty them.
  \<^item> \<open>Descq_Device\<close>, \<open>Descq_Edges\<close>, \<open>Descq_Claims\<close>: queues whose producer index goes through the register of \<open>Soft_Csr\<close>,
    requests that hang and queues that stop, and the properties.

  \<^item> \<open>Queue_Ctxt\<close>: the contexts of a queue composed from its configuration and programmed, read and cleared through the
    hardware table, those of the interrupt ring (\<open>qdma_context.c\<close>, the physical function's part), and the error codes of
    the kernel (\<open>qdma_platform.c\<close>).
  \<^item> \<open>Queue_Store\<close>, \<open>Queue_Eqdma\<close>, \<open>Queue_Claims\<close>: the device as a store of contexts, the contract of the hardware table
    over that store (locale \<open>context_store\<close>), the EQDMA table as an instance, and the properties.
  \<^item> \<open>Intr_Ring\<close>, \<open>Intr_Claims\<close>: the interrupt aggregation ring, its set-up and the handler (\<open>intr_ring_setup\<close>,
    \<open>data_intr_aggregate\<close>), the device that fills it, and the property.

  \<^bold>\<open>What the lemmas show.\<close> In the resource manager, every sequence of operations keeps the ranges of the functions
  apart from each other and from the free list, no queue is lost, and a request is answered exactly when a free range
  fits (\<open>rm_inv\<close>, \<open>rm_full\<close> and the refinement of the lists to sets of queues \<open>owned\<close>, \<open>free_of\<close>). For context
  memory, a write followed by any operations on other indices and a read gives the fields back, with the fields
  whose code loses bits written out (\<open>sw_ctxt_norm\<close> and its like), a timeout is an error, and the lock is released
  on every path. For the registers, values written are read back, polling returns within its rounds with what the
  register held. For the mailbox, a message a virtual function composes is read as the same request, the message
  received is the message sent with the true sender in its header, the handler changes the resource manager only by
  operations in the name of the sender, the ranges of others stay, and no checked request changes the contexts of a
  queue its sender does not own. \<open>Mbox_Isolation\<close> states this once for any table of context operations
  (locale \<open>queue_access\<close>), for the EQDMA table on any device with the context contract
  (locale \<open>eqdma_device\<close>, a sublocale), and interprets it on the simulated device.

  For the XDMA engine, the blocks of a request are cut without losing a byte, a transfer leaves a chain in the ring that
  the hardware fetches in whole pages and executes in order, the service completes what the hardware completed and
  starts what waits, and a submission composed of them moves exactly the bytes it names (\<open>xdma_submit_moves\<close>). Without
  any assumption on the hardware but that each wait ends it returns, and maps and unmaps the memory once
  (\<open>xdma_submit_returns\<close>).

  For the descriptor rings of the QDMA driver, an invariant (\<open>queue_inv\<close>) ties the variables of a queue to the sequence of
  descriptors written, announced, moved and reported since its start, and assigns each request its part of that sequence.
  Every step of a run keeps it: the hardware moves the bytes of the requests in their order and requests are told after
  their bytes are moved (\<open>qdma_queue_moves\<close>), processing returns (\<open>qdma_queue_returns\<close>), and services empty the queue
  (\<open>qdma_queue_drains\<close>).

  Starting a queue refines one update of a store of contexts (\<open>queue_context_setup_refines\<close>): the composed contexts, cut to
  their fields, in place of what was there, and nothing else. The driver reads back what it composed
  (\<open>queue_context_read_back\<close>), the contexts of other queues stay even when the device never answers
  (\<open>queue_context_isolation\<close>), and the ring of interrupts hands every entry the device writes to its queue once and in
  order (\<open>interrupts_delivered\<close>), by the invariant \<open>ring_inv\<close> of the step relation \<open>intr_run\<close>.

  \<^bold>\<open>Contracts.\<close> \<open>context_device\<close>: data and mask registers hold what was written, a command word acts on the
  context memory, other registers do not. \<open>responsive\<close>: the busy bit is clear when it is polled. \<open>plain_registers\<close>:
  a set of registers that hold what was written. \<open>sender_law\<close>, \<open>receiver_law\<close>: the mailbox registers of one link.
  \<open>xdma_hardware\<close>: the start and control registers of an XDMA engine, and that a running engine fetches its chain and
  moves the data (a locale over the driver's register accesses, instance \<open>xsim\<close>). \<open>wait_ok\<close>: what happens while a
  submission waits leaves the ring in its place. \<open>descq_hardware\<close>: a queue's hardware takes descriptors from the ring in
  their order once they are announced, and reports a consumer index it has passed; \<open>descq_hardware_live\<close>: it goes on, and
  register writes are taken; \<open>descq_registers\<close>: it learns of descriptors through the producer index register (instance
  \<open>sim_registers\<close>). \<open>context_store\<close>: what each call of the hardware table does to the store of contexts, met by every EQDMA
  device with the contracts \<open>context_device\<close> and \<open>responsive\<close> (locale \<open>eqdma_ready\<close>). \<open>accepts\<close>: what a queue asks of a request, a count that is the sum of its scatter list, no empty entries, an
  aperture that fits the length field, packets that are not empty; the driver does not check it, and without it the driver
  may hang (\<open>qdma_request_submit_hangs\<close>).
  Each has an instance (\<open>sim\<close>, \<open>ram\<close>, \<open>link_vf\<close>, \<open>link_pf\<close>) on which the witnesses run. \<open>hint_ok\<close>: the base
  and the number of a request do not wrap; a request that does wrap is accepted all the same and damages the free list
  (\<open>rm_wrapping_request_overfills\<close>).

  \<^bold>\<open>Bounds.\<close> There is no fuel in the code's own loops. They end by structural recursion on a list or a count: polling makes
  timeout / interval rounds (50000 by default) in 32-bit arithmetic, the tables have 16 entries, a message has 32
  words. Context commands carry eleven bits of the queue number (\<open>ind_qid\<close>). The loops over interrupt rings of a
  mailbox message take the count of the message; the memory behind the message is part of the modelled bytes, so the
  overrun of the code is visible. The loops of a submission are partial functions (\<open>split_entry\<close>, \<open>xfer_loop\<close>) whose
  termination is part of the theorems; \<open>fetch_chain\<close> has fuel for as many blocks as there are descriptors. So are the
  loops over the work list of a queue (\<open>mm_loop\<close>, \<open>st_loop\<close>), which end for requests a queue accepts and never end for a
  request without scatter list entries. A ring has at most 65536 descriptors, the range of its 16-bit indices. The
  loop of the interrupt handler is a partial function (\<open>intr_scan\<close>) that ends at the colour of the last lap; a ring has
  fewer than 65536 entries, the range of its index, which holds for every size of the configuration.

  \<^bold>\<open>Not modelled.\<close> The contexts of the soft, hard, CPM4 and CPM5 variants, parallel copies with other layouts; error
  interrupts, names and register dumps, mostly tables and printing; version detection and function level reset. In the
  rest of the driver: card-to-host streams and their completion rings, descriptors filled by a bypass hook, packets added
  to a queue in batches, the time stamps of the ping-pong mode in requests, the threads that call the service, direct and
  legacy interrupts, the dump of contexts, the virtual function's part of \<open>qdma_context.c\<close>, which asks over the mailbox,
  kernel glue, character
  devices and netlink, the command line tools. In the XDMA driver: aperture, asynchronous and performance submissions, polling, probing, interrupt set-up and
  demultiplexing, character devices. The FPGA designs are another language. Concurrency inside the resource manager
  is left to its lock.

  \<^bold>\<open>Plan.\<close> The contexts of the other variants over the same codec lemmas; the error interrupt tables; card-to-host
  streams (\<open>qdma_st_c2h.c\<close>); apertures and interrupts of the XDMA driver; the request parser of
  \<open>dma-ctl\<close>.
\<close>

end
